(* ===== verification/Prelude.thy ===== *)
theory Prelude
  imports "HOL-Library.Word" "HOL-Library.AList"
begin

text \<open>
  The shared vocabulary of the development: Go's clock values and 64-bit integers, results
  with an error case, byte strings and their fixed-width encodings, association lists as Go
  maps with an iteration order, and reachability of step relations with the invariant rule
  that the component theories interpret.
\<close>

unbundle bit_operations_syntax

section \<open>Names shared by the components\<close>

type_synonym time = int
type_synonym duration = int
type_synonym byte = "8 word"
type_synonym bytes = "8 word list"

named_theorems ops \<open>definitions of operations, unfolded together in invariant proofs\<close>

text \<open>
  A \<open>time.Time\<close> is the number of nanoseconds since Go's zero time, so the zero time is \<open>0\<close>,
  \<open>t.Before(u)\<close> is \<open>t < u\<close> and \<open>t.Add(d)\<close> is \<open>t + d\<close>. A \<open>time.Duration\<close> is an \<open>int64\<close> of
  nanoseconds: products of durations wrap around, and \<open>t.Sub(u)\<close> saturates.
\<close>

definition is_zero :: "time \<Rightarrow> bool" where
  "is_zero t \<longleftrightarrow> t = 0"

definition wrap64 :: "int \<Rightarrow> int" where
  "wrap64 x = (x + 2 ^ 63) mod 2 ^ 64 - 2 ^ 63"

definition time_sub :: "time \<Rightarrow> time \<Rightarrow> duration" where
  "time_sub t u = max (- (2 ^ 63)) (min (2 ^ 63 - 1) (t - u))"

abbreviation millisecond :: duration where "millisecond \<equiv> 1000000"
abbreviation second :: duration where "second \<equiv> 1000000000"
abbreviation minute :: duration where "minute \<equiv> 60000000000"

section \<open>Results\<close>

type_synonym ('e, 'a) result = "'e + 'a"

definition is_ok :: "'e + 'a \<Rightarrow> bool" where
  "is_ok r = (case r of Inl _ \<Rightarrow> False | Inr _ \<Rightarrow> True)"

section \<open>Bytes\<close>

definition le32 :: "32 word \<Rightarrow> bytes" where
  "le32 v = [ucast v, ucast (drop_bit 8 v), ucast (drop_bit 16 v), ucast (drop_bit 24 v)]"

definition le32_at :: "bytes \<Rightarrow> nat \<Rightarrow> 32 word" where
  "le32_at b i = ucast (b ! i) OR (push_bit 8 (ucast (b ! (i + 1))) OR
     (push_bit 16 (ucast (b ! (i + 2))) OR push_bit 24 (ucast (b ! (i + 3)))))"

definition be32_at :: "bytes \<Rightarrow> nat \<Rightarrow> 32 word" where
  "be32_at b i = ucast (b ! (i + 3)) OR (push_bit 8 (ucast (b ! (i + 2))) OR
     (push_bit 16 (ucast (b ! (i + 1))) OR push_bit 24 (ucast (b ! i))))"

definition le16 :: "16 word \<Rightarrow> bytes" where
  "le16 v = [ucast v, ucast (drop_bit 8 v)]"

definition le16_at :: "bytes \<Rightarrow> nat \<Rightarrow> 16 word" where
  "le16_at b i = ucast (b ! i) OR push_bit 8 (ucast (b ! (i + 1)))"

text \<open>The Go slice \<open>b[i:j]\<close>, for \<open>i \<le> j \<le> len(b)\<close>.\<close>

definition slice :: "bytes \<Rightarrow> nat \<Rightarrow> nat \<Rightarrow> bytes" where
  "slice b i j = take (j - i) (drop i b)"

section \<open>Reachable states\<close>

inductive reachable :: "('s \<Rightarrow> bool) \<Rightarrow> ('s \<Rightarrow> 's \<Rightarrow> bool) \<Rightarrow> 's \<Rightarrow> bool"
  for initial :: "'s \<Rightarrow> bool" and step :: "'s \<Rightarrow> 's \<Rightarrow> bool" where
  start: "initial s \<Longrightarrow> reachable initial step s"
| more: "reachable initial step s \<Longrightarrow> step s t \<Longrightarrow> reachable initial step t"

section \<open>Counting the goroutines in a position\<close>

definition many :: "('a \<Rightarrow> bool) \<Rightarrow> ('i \<Rightarrow> 'a) \<Rightarrow> bool" where
  "many P f \<longleftrightarrow> finite {j. P (f j)}"

definition tally :: "('a \<Rightarrow> bool) \<Rightarrow> ('i \<Rightarrow> 'a) \<Rightarrow> int" where
  "tally P f = int (card {j. P (f j)})"

section \<open>Lemmas\<close>

lemma upd_collect:
  "{j. P ((f(i := y)) j)} = (if P y then insert i {j. P (f j)} else {j. P (f j)} - {i})"
  by auto

lemma many_upd: "many P f \<Longrightarrow> many P (f(i := y))"
  unfolding many_def upd_collect by simp

lemma tally_upd:
  assumes "many P f"
  shows "tally P (f(i := y)) = tally P f - of_bool (P (f i)) + of_bool (P y)"
proof -
  have "finite {j. P (f j)}" using assms by (simp add: many_def)
  then have "P (f i) \<Longrightarrow> 0 < card {j. P (f j)}" by (auto simp: card_gt_0_iff)
  with \<open>finite _\<close> show ?thesis
    unfolding tally_def upd_collect by (auto simp: card_insert_if of_nat_diff)
qed

lemma tally_nonneg: "0 \<le> tally P f"
  by (simp add: tally_def)

lemma tally_pos: "many P f \<Longrightarrow> P (f i) \<Longrightarrow> 0 < tally P f"
  by (auto simp: many_def tally_def card_gt_0_iff)

lemma tally_zero: "many P f \<Longrightarrow> tally P f = 0 \<Longrightarrow> \<not> P (f i)"
  using tally_pos by fastforce

lemma tally_none: "(\<And>i. \<not> P (f i)) \<Longrightarrow> many P f \<and> tally P f = 0"
  by (simp add: many_def tally_def)

lemma is_ok_simps [simp]: "is_ok (Inr x)" "\<not> is_ok (Inl e)"
  by (simp_all add: is_ok_def)

lemma is_ok_iff: "is_ok r \<longleftrightarrow> (\<exists>x. r = Inr x)"
  by (cases r) simp_all

lemma time_sub_le:
  assumes "w < 2 ^ 63 - 1" and "- (2 ^ 63) < w"
  shows "time_sub t u \<le> w \<longleftrightarrow> t - u \<le> w"
  using assms by (auto simp: time_sub_def)

lemma time_sub_less:
  assumes "w \<le> 2 ^ 63 - 1" and "- (2 ^ 63) < w"
  shows "time_sub t u < w \<longleftrightarrow> t - u < w"
  using assms by (auto simp: time_sub_def)

lemma wrap64_small: "- (2 ^ 63) \<le> x \<Longrightarrow> x < 2 ^ 63 \<Longrightarrow> wrap64 x = x"
  by (simp add: wrap64_def)

lemma length_le32 [simp]: "length (le32 v) = 4"
  by (simp add: le32_def)

lemma length_le16 [simp]: "length (le16 v) = 2"
  by (simp add: le16_def)

lemma length_slice: "i \<le> j \<Longrightarrow> j \<le> length b \<Longrightarrow> length (slice b i j) = j - i"
  by (simp add: slice_def)

text \<open>A word below \<open>2 ^ k\<close> has no bit from \<open>k\<close> on.\<close>

lemma small_word_bits:
  fixes w :: "'a::len word"
  assumes "uint w < 2 ^ k" and "k \<le> n"
  shows "\<not> bit w n"
proof
  assume b: "bit w n"
  have "take_bit k (uint w) = uint w" using assms(1) by (simp add: take_bit_int_eq_self)
  then have "\<not> bit (uint w) n" using assms(2) by (metis bit_take_bit_iff not_le)
  with b show False by (simp add: bit_uint_iff bit_imp_le_length)
qed

text \<open>The little-endian encodings are inverted by their readers, at any offset.\<close>

lemma le32_join:
  fixes v :: "32 word"
  shows "(ucast (ucast v :: byte) :: 32 word) OR (push_bit 8 (ucast (ucast (drop_bit 8 v) :: byte))
     OR (push_bit 16 (ucast (ucast (drop_bit 16 v) :: byte)) OR
         push_bit 24 (ucast (ucast (drop_bit 24 v) :: byte)))) = v"
proof (rule bit_word_eqI)
  fix n assume "n < LENGTH(32)"
  then consider "n < 8" | "8 \<le> n \<and> n < 16" | "16 \<le> n \<and> n < 24" | "24 \<le> n \<and> n < 32"
    by fastforce
  then show "bit ((ucast (ucast v :: byte) :: 32 word) OR
       (push_bit 8 (ucast (ucast (drop_bit 8 v) :: byte))
     OR (push_bit 16 (ucast (ucast (drop_bit 16 v) :: byte)) OR
         push_bit 24 (ucast (ucast (drop_bit 24 v) :: byte))))) n = bit v n"
    by cases (auto simp: bit_simps)
qed

lemma le32_at_le32: "le32_at (xs @ le32 v @ ys) (length xs) = v"
  using le32_join [of v] by (simp add: le32_at_def le32_def nth_append)

lemma le16_join:
  fixes v :: "16 word"
  shows "(ucast (ucast v :: byte) :: 16 word) OR push_bit 8 (ucast (ucast (drop_bit 8 v) :: byte)) = v"
proof (rule bit_word_eqI)
  fix n assume "n < LENGTH(16)"
  then consider "n < 8" | "8 \<le> n \<and> n < 16" by fastforce
  then show "bit ((ucast (ucast v :: byte) :: 16 word) OR
       push_bit 8 (ucast (ucast (drop_bit 8 v) :: byte))) n = bit v n"
    by cases (auto simp: bit_simps)
qed

lemma le16_at_le16: "le16_at (xs @ le16 v @ ys) (length xs) = v"
  using le16_join [of v] by (simp add: le16_at_def le16_def nth_append)

text \<open>An invariant of a step relation holds in every reachable state.\<close>

locale invariant_system =
  fixes initial :: "'s \<Rightarrow> bool"
    and step :: "'s \<Rightarrow> 's \<Rightarrow> bool"
    and inv :: "'s \<Rightarrow> bool"
  assumes initial_inv: "initial s \<Longrightarrow> inv s"
    and step_inv: "step s t \<Longrightarrow> inv s \<Longrightarrow> inv t"
begin

lemma reachable_inv: "reachable initial step s \<Longrightarrow> inv s"
  by (induction rule: reachable.induct) (auto intro: initial_inv step_inv)

end

text \<open>
  A detailed system refines an abstract one when each of its steps is a step of the abstract
  system or invisible to it; then the abstraction of every reachable state is reachable.
\<close>

locale refinement =
  fixes initial :: "'c \<Rightarrow> bool"
    and step :: "'c \<Rightarrow> 'c \<Rightarrow> bool"
    and abs_initial :: "'a \<Rightarrow> bool"
    and abs_step :: "'a \<Rightarrow> 'a \<Rightarrow> bool"
    and abs :: "'c \<Rightarrow> 'a"
  assumes initial_abs: "initial s \<Longrightarrow> abs_initial (abs s)"
    and step_abs: "step s t \<Longrightarrow> abs_step (abs s) (abs t) \<or> abs t = abs s"
begin

lemma reachable_abs:
  "reachable initial step s \<Longrightarrow> reachable abs_initial abs_step (abs s)"
proof (induction rule: reachable.induct)
  case (start s)
  then show ?case by (blast intro: reachable.start initial_abs)
next
  case (more s t)
  from step_abs [OF more.hyps(2)] show ?case
    using more.IH by (auto intro: reachable.more)
qed

end

end
