(* ===== verification/Activity_Gate.thy ===== *)
theory Activity_Gate
  imports Prelude
begin

text \<open>
  The activity gate of \<open>service/controlmode/activity.go\<close>: control operations share it, a mode
  transition takes it exclusively. Every critical section under \<open>g.mu\<close> is one function;
  channels are numbered, \<open>nil\<close> is \<open>None\<close>, and closing one adds its number to \<open>g_closed\<close>.
  The step relation interleaves any number of goroutines that call the gate.
\<close>

section \<open>The gate\<close>

record activityGate =
  g_active :: int
  g_exclusive :: bool
  g_changed :: "nat option"
  g_closed :: "nat list"
  g_fresh :: nat

definition new_gate :: activityGate where
  "new_gate = \<lparr>g_active = 0, g_exclusive = False, g_changed = None, g_closed = [], g_fresh = 0\<rparr>"

definition make_changed :: "activityGate \<Rightarrow> activityGate" where
  "make_changed g = g\<lparr>g_changed := Some (g_fresh g), g_fresh := Suc (g_fresh g)\<rparr>"

definition changedLocked :: "activityGate \<Rightarrow> nat \<times> activityGate" where
  "changedLocked g =
     (case g_changed g of
        Some c \<Rightarrow> (c, g)
      | None \<Rightarrow> (g_fresh g, make_changed g))"

definition signalLocked :: "activityGate \<Rightarrow> activityGate" where
  "signalLocked g =
     (case g_changed g of
        None \<Rightarrow> g
      | Some c \<Rightarrow> make_changed (g\<lparr>g_closed := c # g_closed g\<rparr>))"

text \<open>One turn of the loop of an acquire: the lease, or the channel to wait for.\<close>

datatype attempt = Acquired activityGate | Blocked nat activityGate

definition acquireShared :: "activityGate \<Rightarrow> attempt" where
  "acquireShared g =
     (if \<not> g_exclusive g then Acquired (g\<lparr>g_active := g_active g + 1\<rparr>)
      else case changedLocked g of (c, g') \<Rightarrow> Blocked c g')"

definition acquireExclusive :: "activityGate \<Rightarrow> attempt" where
  "acquireExclusive g =
     (if \<not> g_exclusive g \<and> g_active g = 0 then Acquired (g\<lparr>g_exclusive := True\<rparr>)
      else case changedLocked g of (c, g') \<Rightarrow> Blocked c g')"

text \<open>The bodies of the two release closures; \<open>sync.Once\<close> lets each run once.\<close>

definition releaseShared :: "activityGate \<Rightarrow> activityGate" where
  "releaseShared g = signalLocked (if g_active g > 0 then g\<lparr>g_active := g_active g - 1\<rparr> else g)"

definition releaseExclusive :: "activityGate \<Rightarrow> activityGate" where
  "releaseExclusive g = signalLocked (g\<lparr>g_exclusive := False\<rparr>)"

section \<open>Goroutines on the gate\<close>

datatype gate_pc = Idle | WaitShared nat | HoldShared | WaitExclusive nat | HoldExclusive

record gate_sys =
  gs_gate :: activityGate
  gs_pc :: "nat \<Rightarrow> gate_pc"

definition gate_init :: "gate_sys \<Rightarrow> bool" where
  "gate_init s \<longleftrightarrow> gs_gate s = new_gate \<and> (\<forall>i. gs_pc s i = Idle)"

definition gate_move :: "gate_sys \<Rightarrow> nat \<Rightarrow> activityGate \<Rightarrow> gate_pc \<Rightarrow> gate_sys" where
  "gate_move s i g pc = s\<lparr>gs_gate := g, gs_pc := (gs_pc s)(i := pc)\<rparr>"

text \<open>
  A goroutine enters from \<open>Idle\<close>, or again from a wait once its channel is closed; an
  exclusive wait may also end by its timer, whatever the channel.
\<close>

inductive gate_step :: "gate_sys \<Rightarrow> gate_sys \<Rightarrow> bool" where
  shared_ok: "gs_pc s i = Idle \<or> (gs_pc s i = WaitShared c \<and> c \<in> set (g_closed (gs_gate s))) \<Longrightarrow>
     acquireShared (gs_gate s) = Acquired g \<Longrightarrow> gate_step s (gate_move s i g HoldShared)"
| shared_wait: "gs_pc s i = Idle \<or> (gs_pc s i = WaitShared c \<and> c \<in> set (g_closed (gs_gate s))) \<Longrightarrow>
     acquireShared (gs_gate s) = Blocked d g \<Longrightarrow> gate_step s (gate_move s i g (WaitShared d))"
| shared_release: "gs_pc s i = HoldShared \<Longrightarrow>
     gate_step s (gate_move s i (releaseShared (gs_gate s)) Idle)"
| exclusive_ok: "gs_pc s i = Idle \<or> (gs_pc s i = WaitExclusive c \<and> c \<in> set (g_closed (gs_gate s))) \<Longrightarrow>
     acquireExclusive (gs_gate s) = Acquired g \<Longrightarrow> gate_step s (gate_move s i g HoldExclusive)"
| exclusive_wait: "gs_pc s i = Idle \<or> (gs_pc s i = WaitExclusive c \<and> c \<in> set (g_closed (gs_gate s))) \<Longrightarrow>
     acquireExclusive (gs_gate s) = Blocked d g \<Longrightarrow> gate_step s (gate_move s i g (WaitExclusive d))"
| exclusive_timeout: "gs_pc s i = WaitExclusive c \<Longrightarrow>
     gate_step s (gate_move s i (gs_gate s) Idle)"
| exclusive_release: "gs_pc s i = HoldExclusive \<Longrightarrow>
     gate_step s (gate_move s i (releaseExclusive (gs_gate s)) Idle)"

section \<open>The invariant\<close>

definition sharers :: "gate_sys \<Rightarrow> nat set" where
  "sharers s = {i. gs_pc s i = HoldShared}"

text \<open>The counter and the flag agree with the goroutines that hold a lease.\<close>

definition counts_ok :: "gate_sys \<Rightarrow> bool" where
  "counts_ok s \<longleftrightarrow>
     finite (sharers s) \<and> g_active (gs_gate s) = int (card (sharers s)) \<and>
     (g_exclusive (gs_gate s) \<longleftrightarrow> (\<exists>i. gs_pc s i = HoldExclusive)) \<and>
     (\<forall>i j. gs_pc s i = HoldExclusive \<longrightarrow> gs_pc s j = HoldExclusive \<longrightarrow> i = j) \<and>
     (g_exclusive (gs_gate s) \<longrightarrow> g_active (gs_gate s) = 0)"

text \<open>The current channel is open; every channel ever made is numbered below \<open>g_fresh\<close>.\<close>

definition chans_ok :: "activityGate \<Rightarrow> bool" where
  "chans_ok g \<longleftrightarrow>
     (\<forall>c \<in> set (g_closed g). c < g_fresh g) \<and>
     (\<forall>c. g_changed g = Some c \<longrightarrow> c < g_fresh g \<and> c \<notin> set (g_closed g))"

text \<open>A waiter's channel is closed, or it is the current one and the gate is still taken.\<close>

definition waiters_ok :: "gate_sys \<Rightarrow> bool" where
  "waiters_ok s \<longleftrightarrow>
     (\<forall>i c. gs_pc s i = WaitShared c \<longrightarrow> c \<in> set (g_closed (gs_gate s)) \<or>
        (g_changed (gs_gate s) = Some c \<and> g_exclusive (gs_gate s))) \<and>
     (\<forall>i c. gs_pc s i = WaitExclusive c \<longrightarrow> c \<in> set (g_closed (gs_gate s)) \<or>
        (g_changed (gs_gate s) = Some c \<and> (g_exclusive (gs_gate s) \<or> g_active (gs_gate s) \<noteq> 0)))"

definition gate_inv :: "gate_sys \<Rightarrow> bool" where
  "gate_inv s \<longleftrightarrow> counts_ok s \<and> chans_ok (gs_gate s) \<and> waiters_ok s"

section \<open>Two concrete states\<close>

text \<open>Goroutine 0 holds the gate exclusively.\<close>

definition one_exclusive :: gate_sys where
  "one_exclusive = gate_move \<lparr>gs_gate = new_gate, gs_pc = (\<lambda>_. Idle)\<rparr> 0
     (new_gate\<lparr>g_exclusive := True\<rparr>) HoldExclusive"

text \<open>A run in which goroutine 1 waits for goroutine 0's exclusive lease, which then ends.\<close>

definition woken :: gate_sys where
  "woken = (let s1 = gate_move one_exclusive 1 (make_changed (gs_gate one_exclusive)) (WaitShared 0)
            in gate_move s1 0 (releaseExclusive (gs_gate s1)) Idle)"

section \<open>Lemmas\<close>

lemmas gate_ops = acquireShared_def acquireExclusive_def releaseShared_def releaseExclusive_def
  signalLocked_def changedLocked_def make_changed_def

lemma gate_move_simps [simp]:
  "gs_gate (gate_move s i g pc) = g"
  "gs_pc (gate_move s i g pc) j = (if j = i then pc else gs_pc s j)"
  by (simp_all add: gate_move_def)

lemma sharers_move:
  "sharers (gate_move s i g pc) =
     (if pc = HoldShared then insert i (sharers s) else sharers s - {i})"
  by (auto simp: sharers_def)

lemma release_frame [simp]:
  "g_exclusive (releaseShared g) = g_exclusive g"
  "g_active (releaseShared g) = (if g_active g > 0 then g_active g - 1 else g_active g)"
  "g_exclusive (releaseExclusive g) = False"
  "g_active (releaseExclusive g) = g_active g"
  by (auto simp: gate_ops split: option.splits)

lemma changedLocked_frame:
  "changedLocked g = (c, g') \<Longrightarrow> g_active g' = g_active g \<and> g_exclusive g' = g_exclusive g \<and>
     g_closed g' = g_closed g \<and> g_changed g' = Some c \<and> (g_changed g = None \<or> g_changed g = Some c)"
  by (auto simp: gate_ops split: option.splits)

lemma acquireShared_cases:
  assumes "acquireShared g = r"
  obtains "\<not> g_exclusive g" and "r = Acquired (g\<lparr>g_active := g_active g + 1\<rparr>)"
  | c g' where "g_exclusive g" and "r = Blocked c g'" and "changedLocked g = (c, g')"
  using assms by (auto simp: acquireShared_def split: if_splits prod.splits)

lemma acquireExclusive_cases:
  assumes "acquireExclusive g = r"
  obtains "\<not> g_exclusive g" and "g_active g = 0" and "r = Acquired (g\<lparr>g_exclusive := True\<rparr>)"
  | c g' where "g_exclusive g \<or> g_active g \<noteq> 0" and "r = Blocked c g'" and "changedLocked g = (c, g')"
  using assms by (auto simp: acquireExclusive_def split: if_splits prod.splits)

text \<open>A release closes the channel every waiter is on.\<close>

lemma signalLocked_closes:
  "g_changed g = Some c \<Longrightarrow> c \<in> set (g_closed (signalLocked g))"
  by (simp add: gate_ops)

lemma closed_mono:
  "c \<in> set (g_closed g) \<Longrightarrow> c \<in> set (g_closed (signalLocked g))"
  by (auto simp: gate_ops split: option.splits)

lemma release_closes:
  assumes "c \<in> set (g_closed g) \<or> g_changed g = Some c"
  shows "c \<in> set (g_closed (releaseShared g))" and "c \<in> set (g_closed (releaseExclusive g))"
  using assms by (auto simp: releaseShared_def releaseExclusive_def intro: closed_mono signalLocked_closes)

lemma chans_ok_signal: "chans_ok g \<Longrightarrow> chans_ok (signalLocked g)"
  by (auto simp: chans_ok_def gate_ops split: option.splits)

lemma chans_ok_changed: "chans_ok g \<Longrightarrow> changedLocked g = (c, g') \<Longrightarrow> chans_ok g'"
  by (auto simp: chans_ok_def gate_ops less_Suc_eq split: option.splits)

lemma chans_ok_frame [simp]:
  "chans_ok (g\<lparr>g_active := a\<rparr>) = chans_ok g" "chans_ok (g\<lparr>g_exclusive := b\<rparr>) = chans_ok g"
  by (simp_all add: chans_ok_def)

lemma chans_ok_step: "gate_step s t \<Longrightarrow> chans_ok (gs_gate s) \<Longrightarrow> chans_ok (gs_gate t)"
  by (induction rule: gate_step.induct)
    (auto simp: releaseShared_def releaseExclusive_def intro: chans_ok_signal chans_ok_changed
      elim!: acquireShared_cases acquireExclusive_cases)

lemma counts_ok_shared:
  assumes "counts_ok s" and "gs_pc s i \<noteq> HoldShared" and "gs_pc s i \<noteq> HoldExclusive"
    and "\<not> g_exclusive (gs_gate s)"
  shows "counts_ok (gate_move s i ((gs_gate s)\<lparr>g_active := g_active (gs_gate s) + 1\<rparr>) HoldShared)"
proof -
  have "i \<notin> sharers s" using assms(2) by (simp add: sharers_def)
  with assms show ?thesis by (auto simp: counts_ok_def sharers_move)
qed

lemma counts_ok_release:
  assumes "counts_ok s" and "gs_pc s i = HoldShared"
  shows "counts_ok (gate_move s i (releaseShared (gs_gate s)) Idle)"
proof -
  have i: "i \<in> sharers s" using assms(2) by (simp add: sharers_def)
  have "finite (sharers s)" using assms(1) by (simp add: counts_ok_def)
  with i have "card (sharers s - {i}) = card (sharers s) - 1" "0 < card (sharers s)"
    by (auto simp: card_gt_0_iff)
  with assms show ?thesis by (auto simp: counts_ok_def sharers_move)
qed

text \<open>A move between two positions that hold nothing leaves the counts alone.\<close>

lemma counts_ok_idle:
  assumes "counts_ok s" and "gs_pc s i \<noteq> HoldShared" and "gs_pc s i \<noteq> HoldExclusive"
    and "pc \<noteq> HoldShared" and "pc \<noteq> HoldExclusive"
    and "g_active g = g_active (gs_gate s)" and "g_exclusive g = g_exclusive (gs_gate s)"
  shows "counts_ok (gate_move s i g pc)"
proof -
  have "sharers s - {i} = sharers s" using assms(2) by (auto simp: sharers_def)
  with assms show ?thesis by (auto simp: counts_ok_def sharers_move)
qed

lemma counts_ok_exclusive:
  assumes "counts_ok s" and "gs_pc s i \<noteq> HoldShared" and "gs_pc s i \<noteq> HoldExclusive"
    and "\<not> g_exclusive (gs_gate s)" and "g_active (gs_gate s) = 0"
  shows "counts_ok (gate_move s i ((gs_gate s)\<lparr>g_exclusive := True\<rparr>) HoldExclusive)"
proof -
  have "sharers s - {i} = sharers s" using assms(2) by (auto simp: sharers_def)
  with assms show ?thesis by (auto simp: counts_ok_def sharers_move)
qed

lemma counts_ok_release_exclusive:
  assumes "counts_ok s" and "gs_pc s i = HoldExclusive"
  shows "counts_ok (gate_move s i (releaseExclusive (gs_gate s)) Idle)"
proof -
  have "sharers s - {i} = sharers s" using assms(2) by (auto simp: sharers_def)
  with assms show ?thesis by (auto simp: counts_ok_def sharers_move)
qed

lemma counts_ok_step: "gate_step s t \<Longrightarrow> counts_ok s \<Longrightarrow> counts_ok t"
proof (induction rule: gate_step.induct)
  case (shared_ok s i c g)
  then show ?case by (auto elim!: acquireShared_cases intro!: counts_ok_shared)
next
  case (shared_wait s i c d g)
  then show ?case
    by (auto elim!: acquireShared_cases intro!: counts_ok_idle dest: changedLocked_frame)
next
  case (shared_release s i)
  then show ?case by (simp add: counts_ok_release)
next
  case (exclusive_ok s i c g)
  then show ?case by (auto elim!: acquireExclusive_cases intro!: counts_ok_exclusive)
next
  case (exclusive_wait s i c d g)
  then show ?case
    by (auto elim!: acquireExclusive_cases intro!: counts_ok_idle dest: changedLocked_frame)
next
  case (exclusive_timeout s i c)
  then show ?case by (auto intro!: counts_ok_idle)
next
  case (exclusive_release s i)
  then show ?case by (simp add: counts_ok_release_exclusive)
qed

text \<open>
  The waiters' clause, when a step neither closes a channel nor frees the gate, and when
  it runs a release.
\<close>

lemma waiters_ok_keep:
  assumes "waiters_ok s" and "g_closed g = g_closed (gs_gate s)"
    and "g_changed (gs_gate s) = None \<or> g_changed g = g_changed (gs_gate s)"
    and "g_exclusive (gs_gate s) \<longrightarrow> g_exclusive g"
    and "g_active (gs_gate s) \<noteq> 0 \<longrightarrow> g_active g \<noteq> 0"
    and "\<And>c. pc = WaitShared c \<Longrightarrow> g_changed g = Some c \<and> g_exclusive g"
    and "\<And>c. pc = WaitExclusive c \<Longrightarrow> g_changed g = Some c \<and> (g_exclusive g \<or> g_active g \<noteq> 0)"
  shows "waiters_ok (gate_move s i g pc)"
  using assms unfolding waiters_ok_def by (auto split: if_splits; metis option.distinct(1))

lemma waiters_ok_release:
  assumes "waiters_ok s"
  shows "waiters_ok (gate_move s i (releaseShared (gs_gate s)) Idle)"
    and "waiters_ok (gate_move s i (releaseExclusive (gs_gate s)) Idle)"
  using assms release_closes unfolding waiters_ok_def by (auto split: if_splits; blast)+

lemma waiters_ok_step: "gate_step s t \<Longrightarrow> counts_ok s \<Longrightarrow> waiters_ok s \<Longrightarrow> waiters_ok t"
proof (induction rule: gate_step.induct)
  case (shared_ok s i c g)
  from shared_ok(3) have "0 \<le> g_active (gs_gate s)" by (simp add: counts_ok_def)
  with shared_ok show ?case
    by (auto elim!: acquireShared_cases intro!: waiters_ok_keep)
next
  case (shared_wait s i c d g)
  then show ?case
    by (auto elim!: acquireShared_cases intro!: waiters_ok_keep dest: changedLocked_frame)
next
  case (exclusive_ok s i c g)
  then show ?case by (auto elim!: acquireExclusive_cases intro!: waiters_ok_keep)
next
  case (exclusive_wait s i c d g)
  then show ?case
    by (auto elim!: acquireExclusive_cases intro!: waiters_ok_keep dest: changedLocked_frame)
next
  case (exclusive_timeout s i c)
  then show ?case by (auto intro!: waiters_ok_keep)
qed (auto intro: waiters_ok_release)

interpretation gate: invariant_system gate_init gate_step gate_inv
proof unfold_locales
  fix s assume "gate_init s"
  then show "gate_inv s"
    by (auto simp: gate_init_def gate_inv_def counts_ok_def sharers_def chans_ok_def
        waiters_ok_def new_gate_def)
next
  fix s t assume "gate_step s t" and "gate_inv s"
  then show "gate_inv t"
    by (auto simp: gate_inv_def intro: counts_ok_step chans_ok_step waiters_ok_step)
qed

section \<open>Properties\<close>

text \<open>
  C3. Mutual exclusion of the gate: while a goroutine holds it exclusively, no goroutine
  holds a shared lease and no other holds it exclusively; and the counter always equals the
  number of goroutines with a shared lease.
\<close>

theorem gate_exclusive_alone:
  assumes "reachable gate_init gate_step s"
  shows "(gs_pc s i = HoldExclusive \<longrightarrow>
       (\<forall>j. gs_pc s j \<noteq> HoldShared \<and> (gs_pc s j = HoldExclusive \<longrightarrow> j = i))) \<and>
     g_active (gs_gate s) = int (card {j. gs_pc s j = HoldShared})"
proof -
  have "counts_ok s" using gate.reachable_inv [OF assms] by (simp add: gate_inv_def)
  then show ?thesis by (auto simp: counts_ok_def sharers_def)
qed

lemma one_exclusive_reachable: "reachable gate_init gate_step one_exclusive"
  unfolding one_exclusive_def
proof (rule reachable.more [OF reachable.start])
  show "gate_init \<lparr>gs_gate = new_gate, gs_pc = (\<lambda>_. Idle)\<rparr>" by (simp add: gate_init_def)
qed (rule gate_step.exclusive_ok [where c = 0], auto simp: acquireExclusive_def new_gate_def)

theorem gate_exclusive_alone_witness:
  "gs_pc one_exclusive 0 = HoldExclusive \<and> gs_pc one_exclusive 1 \<noteq> HoldShared"
  using gate_exclusive_alone [OF one_exclusive_reachable, of 0]
  by (simp add: one_exclusive_def)

text \<open>
  C4. No lost wake-up: in every reachable state, a goroutine that waits for the gate while the
  gate is free for it has a closed channel, so its next turn of the loop can run and gets
  the lease.
\<close>

theorem gate_no_lost_wakeup:
  assumes "reachable gate_init gate_step s"
  shows "(gs_pc s i = WaitShared c \<and> \<not> g_exclusive (gs_gate s) \<longrightarrow>
       (\<exists>g. gate_step s (gate_move s i g HoldShared))) \<and>
     (gs_pc s i = WaitExclusive c \<and> \<not> g_exclusive (gs_gate s) \<and> g_active (gs_gate s) = 0 \<longrightarrow>
       (\<exists>g. gate_step s (gate_move s i g HoldExclusive)))"
proof -
  have w: "waiters_ok s" using gate.reachable_inv [OF assms] by (simp add: gate_inv_def)
  show ?thesis
  proof (intro conjI impI)
    assume *: "gs_pc s i = WaitShared c \<and> \<not> g_exclusive (gs_gate s)"
    with w have "c \<in> set (g_closed (gs_gate s))" by (auto simp: waiters_ok_def)
    with * show "\<exists>g. gate_step s (gate_move s i g HoldShared)"
      by (intro exI, intro gate_step.shared_ok [where c = c]) (auto simp: acquireShared_def)
  next
    assume *: "gs_pc s i = WaitExclusive c \<and> \<not> g_exclusive (gs_gate s) \<and> g_active (gs_gate s) = 0"
    with w have "c \<in> set (g_closed (gs_gate s))" by (auto simp: waiters_ok_def)
    with * show "\<exists>g. gate_step s (gate_move s i g HoldExclusive)"
      by (intro exI, intro gate_step.exclusive_ok [where c = c]) (auto simp: acquireExclusive_def)
  qed
qed

lemma woken_reachable: "reachable gate_init gate_step woken"
  unfolding woken_def Let_def
proof (rule reachable.more [OF reachable.more [OF one_exclusive_reachable]])
  show "gate_step one_exclusive
      (gate_move one_exclusive 1 (make_changed (gs_gate one_exclusive)) (WaitShared 0))"
    by (rule gate_step.shared_wait [where c = 0])
      (auto simp: one_exclusive_def acquireShared_def changedLocked_def new_gate_def)
qed (rule gate_step.exclusive_release, simp add: one_exclusive_def)

theorem gate_no_lost_wakeup_witness:
  "gs_pc woken 1 = WaitShared 0 \<and> (\<exists>g. gate_step woken (gate_move woken 1 g HoldShared))"
  using gate_no_lost_wakeup [OF woken_reachable, of 1 0]
  by (simp add: woken_def Let_def one_exclusive_def)

end
