(* ===== verification/Go_Strings.thy ===== *)
theory Go_Strings
  imports Prelude "HOL-Library.Sublist"
begin

text \<open>
  What the components use of Go's \<open>strings\<close> package. A Go string is a string of bytes, a
  \<open>char list\<close> here; Unicode code points above ASCII are their UTF-8 bytes.
\<close>

text \<open>The UTF-8 encodings of the code points \<open>unicode.IsSpace\<close> accepts.\<close>

definition ws_runes :: "string list" where
  "ws_runes =
     [[CHR 0x09], [CHR 0x0A], [CHR 0x0B], [CHR 0x0C], [CHR 0x0D], [CHR 0x20],
      [CHR 0xC2, CHR 0x85], [CHR 0xC2, CHR 0xA0], [CHR 0xE1, CHR 0x9A, CHR 0x80]] @
     map (\<lambda>c. [CHR 0xE2, CHR 0x80, c])
       [CHR 0x80, CHR 0x81, CHR 0x82, CHR 0x83, CHR 0x84, CHR 0x85, CHR 0x86, CHR 0x87, CHR 0x88,
        CHR 0x89, CHR 0x8A, CHR 0xA8, CHR 0xA9, CHR 0xAF] @
     [[CHR 0xE2, CHR 0x81, CHR 0x9F], [CHR 0xE3, CHR 0x80, CHR 0x80]]"

text \<open>Drop any of the given non-empty prefixes, as often as one is there.\<close>

function strip :: "string list \<Rightarrow> string \<Rightarrow> string" where
  "strip rs s =
     (case find (\<lambda>r. r \<noteq> [] \<and> prefix r s) rs of
        None \<Rightarrow> s
      | Some r \<Rightarrow> strip rs (drop (length r) s))"
  by pat_completeness auto
termination
proof (relation "measure (\<lambda>(rs, s). length s)", simp)
  fix rs :: "string list" and s r
  assume "find (\<lambda>r. r \<noteq> [] \<and> prefix r s) rs = Some r"
  then have "r \<noteq> []" and "prefix r s" by (auto simp: find_Some_iff)
  then have "0 < length r" and "length r \<le> length s" by (auto intro: prefix_length_le)
  then show "((rs, drop (length r) s), (rs, s)) \<in> measure (\<lambda>(rs, s). length s)"
    by (simp del: length_greater_0_conv)
qed

declare strip.simps [simp del]

definition trim_left :: "string \<Rightarrow> string" where
  "trim_left s = strip ws_runes s"

definition trim_right :: "string \<Rightarrow> string" where
  "trim_right s = rev (strip (map rev ws_runes) (rev s))"

definition trim_space :: "string \<Rightarrow> string" where
  "trim_space s = trim_right (trim_left s)"

definition contains_any :: "string \<Rightarrow> string \<Rightarrow> bool" where
  "contains_any s cs = list_ex (\<lambda>c. c \<in> set cs) s"

text \<open>\<open>strings.ToLower\<close> and \<open>strings.EqualFold\<close> on ASCII letters.\<close>

definition lower_char :: "char \<Rightarrow> char" where
  "lower_char c = (if 65 \<le> (of_char c :: nat) \<and> (of_char c :: nat) \<le> 90
     then char_of ((of_char c :: nat) + 32) else c)"

definition to_lower :: "string \<Rightarrow> string" where
  "to_lower s = map lower_char s"

text \<open>\<open>strings.Split\<close> and \<open>strings.Join\<close> on a single character.\<close>

fun split_on :: "char \<Rightarrow> string \<Rightarrow> string list" where
  "split_on c [] = [[]]"
| "split_on c (x # xs) =
     (if x = c then [] # split_on c xs
      else case split_on c xs of [] \<Rightarrow> [[x]] | p # ps \<Rightarrow> (x # p) # ps)"

fun join_with :: "char \<Rightarrow> string list \<Rightarrow> string" where
  "join_with c [] = []"
| "join_with c [p] = p"
| "join_with c (p # q # ps) = p @ c # join_with c (q # ps)"

text \<open>\<open>strings.Fields\<close>: the maximal runs without white space; \<open>cur\<close> is the current run, reversed.\<close>

function fields_from :: "string \<Rightarrow> string \<Rightarrow> string list" where
  "fields_from cur s =
     (case s of
        [] \<Rightarrow> if cur = [] then [] else [rev cur]
      | x # xs \<Rightarrow>
          (case find (\<lambda>r. r \<noteq> [] \<and> prefix r s) ws_runes of
             None \<Rightarrow> fields_from (x # cur) xs
           | Some r \<Rightarrow> (if cur = [] then [] else [rev cur]) @ fields_from [] (drop (length r) s)))"
  by pat_completeness auto
termination
  by (relation "measure (\<lambda>(cur, s). length s)") (auto simp: find_Some_iff)

declare fields_from.simps [simp del]

definition Fields :: "string \<Rightarrow> string list" where
  "Fields s = fields_from [] s"

text \<open>\<open>strings.FieldsFunc\<close> with a set of separator characters.\<close>

fun fields_sep :: "string \<Rightarrow> string \<Rightarrow> string \<Rightarrow> string list" where
  "fields_sep seps cur [] = (if cur = [] then [] else [rev cur])"
| "fields_sep seps cur (x # xs) =
     (if x \<in> set seps then (if cur = [] then [] else [rev cur]) @ fields_sep seps [] xs
      else fields_sep seps (x # cur) xs)"

text \<open>\<open>path.Clean\<close>: \<open>clean_parts\<close> keeps the components so far in reverse.\<close>

fun clean_parts :: "bool \<Rightarrow> string list \<Rightarrow> string list \<Rightarrow> string list" where
  "clean_parts rooted out [] = rev out"
| "clean_parts rooted out (x # xs) =
     (if x = [] \<or> x = ''.'' then clean_parts rooted out xs
      else if x = ''..'' then
        if out \<noteq> [] \<and> hd out \<noteq> ''..'' then clean_parts rooted (tl out) xs
        else if rooted then clean_parts rooted out xs
        else clean_parts rooted (''..'' # out) xs
      else clean_parts rooted (x # out) xs)"

definition path_Clean :: "string \<Rightarrow> string" where
  "path_Clean p =
     (if p = [] then ''.''
      else let rooted = hd p = CHR ''/'';
               r = (if rooted then ''/'' else []) @ join_with (CHR ''/'') (clean_parts rooted [] (split_on (CHR ''/'') p))
           in if r = [] then ''.'' else r)"

text \<open>A component that is a name of its own.\<close>

definition plain_part :: "string \<Rightarrow> bool" where
  "plain_part x \<longleftrightarrow> x \<noteq> [] \<and> x \<noteq> ''.'' \<and> x \<noteq> ''..''"

definition dots_first :: "string list \<Rightarrow> bool" where
  "dots_first ps \<longleftrightarrow> (\<exists>n ys. ps = replicate n ''..'' @ ys \<and> list_all plain_part ys)"

text \<open>To evaluate a trim of a literal.\<close>

lemmas trim_eval = trim_space_def trim_left_def trim_right_def ws_runes_def strip.simps

lemma strip_stop: "(\<And>r. r \<in> set rs \<Longrightarrow> r \<noteq> [] \<Longrightarrow> \<not> prefix r s) \<Longrightarrow> strip rs s = s"
  by (subst strip.simps) (auto simp: find_Some_iff split: option.splits)

text \<open>Nothing is left to strip from the result.\<close>

lemma strip_done: "r \<in> set rs \<Longrightarrow> r \<noteq> [] \<Longrightarrow> \<not> prefix r (strip rs s)"
proof (induction rs s rule: strip.induct)
  case (1 rs s)
  show ?case
  proof (cases "find (\<lambda>r. r \<noteq> [] \<and> prefix r s) rs")
    case None
    then have "\<forall>r \<in> set rs. r = [] \<or> \<not> prefix r s" by (auto simp: find_None_iff)
    moreover have "strip rs s = s" using None by (subst strip.simps) simp
    ultimately show ?thesis using 1 by auto
  next
    case (Some q)
    with 1 show ?thesis by (subst strip.simps) auto
  qed
qed

section \<open>Splitting and cleaning paths\<close>

lemma split_on_nonempty [simp]: "split_on c s \<noteq> []"
  by (induction s) (auto split: list.splits)

lemma split_on_parts: "p \<in> set (split_on c s) \<Longrightarrow> c \<notin> set p"
proof (induction s arbitrary: p)
  case (Cons x xs)
  then show ?case by (cases "split_on c xs") (auto split: if_splits)
qed simp

lemma split_on_none: "c \<notin> set p \<Longrightarrow> split_on c p = [p]"
  by (induction p) auto

lemma split_on_append: "c \<notin> set p \<Longrightarrow> split_on c (p @ c # s) = p # split_on c s"
  by (induction p) auto

lemma split_join: "(\<And>p. p \<in> set ps \<Longrightarrow> c \<notin> set p) \<Longrightarrow> ps \<noteq> [] \<Longrightarrow> split_on c (join_with c ps) = ps"
  by (induction ps rule: join_with.induct) (auto simp: split_on_none split_on_append)

lemma join_cons: "ps \<noteq> [] \<Longrightarrow> join_with c (p # ps) = p @ c # join_with c ps"
  by (cases ps) auto

lemma join_head: "join_with c ((x # p) # ps) = x # join_with c (p # ps)"
  by (cases ps) auto

lemma join_split: "join_with c (split_on c s) = s"
proof (induction s)
  case (Cons x xs)
  then show ?case using split_on_nonempty [of c xs] by (auto simp: join_cons join_head split: list.splits)
qed simp

text \<open>A cleaned path has its \<open>..\<close> components in front and no empty or \<open>.\<close> component.\<close>

lemma dots_pop:
  assumes "rev out = replicate n ''..'' @ ys" and "out \<noteq> []" and "hd out \<noteq> ''..''"
  shows "rev (tl out) = replicate n ''..'' @ butlast ys"
proof -
  have "ys \<noteq> []" using assms by (metis append_Nil2 hd_rev in_set_replicate last_in_set rev_is_Nil_conv rev_rev_ident)
  then show ?thesis using assms(1) by (metis butlast_append butlast_rev)
qed

lemma dots_push:
  assumes "rev out = replicate n ''..'' @ ys" and "list_all plain_part ys" and "\<not> (out \<noteq> [] \<and> hd out \<noteq> ''..'')"
  shows "ys = []"
proof (rule ccontr)
  assume "ys \<noteq> []"
  then have "hd out = last ys" "out \<noteq> []" using assms(1) by (metis hd_rev last_appendR rev_rev_ident, auto)
  moreover have "last ys \<noteq> ''..''" using assms(2) \<open>ys \<noteq> []\<close> by (auto simp: list_all_iff plain_part_def)
  ultimately show False using assms(3) by simp
qed

lemma clean_parts_form:
  assumes "rev out = replicate n ''..'' @ ys" and "list_all plain_part ys"
  shows "dots_first (clean_parts rooted out xs)"
  using assms
proof (induction xs arbitrary: out n ys)
  case (Cons x xs)
  consider "x = [] \<or> x = ''.''" | "x = ''..''" "out \<noteq> [] \<and> hd out \<noteq> ''..''"
    | "x = ''..''" "\<not> (out \<noteq> [] \<and> hd out \<noteq> ''..'')" | "plain_part x"
    by (auto simp: plain_part_def)
  then show ?case
  proof cases
    case 1
    then show ?thesis using Cons.IH [OF Cons.prems] by auto
  next
    case 2
    have "list_all plain_part (butlast ys)" using Cons.prems(2) by (auto simp: list_all_iff dest: in_set_butlastD)
    then show ?thesis using Cons.IH [OF dots_pop [OF Cons.prems(1)]] 2 by auto
  next
    case 3
    have "rev (''..'' # out) = replicate (Suc n) ''..'' @ []"
      using Cons.prems(1) dots_push [OF Cons.prems 3(2)] by (simp add: replicate_append_same)
    then show ?thesis using Cons.IH [OF Cons.prems] Cons.IH [of "''..'' # out" "Suc n" "[]"] 3 by auto
  next
    case 4
    have "rev (x # out) = replicate n ''..'' @ (ys @ [x])" using Cons.prems(1) by simp
    moreover have "list_all plain_part (ys @ [x])" using Cons.prems(2) 4 by simp
    ultimately have "dots_first (clean_parts rooted (x # out) xs)" by (rule Cons.IH)
    then show ?thesis using 4 by (simp add: plain_part_def)
  qed
qed (auto simp: dots_first_def)

lemma clean_parts_slash:
  "(\<And>p. p \<in> set out \<union> set xs \<Longrightarrow> c \<notin> set p) \<Longrightarrow> c \<noteq> CHR ''.'' \<Longrightarrow> p \<in> set (clean_parts rooted out xs) \<Longrightarrow> c \<notin> set p"
  by (induction rooted out xs rule: clean_parts.induct)
     (auto split: if_splits dest: list.set_sel(2))

text \<open>A clean relative path that does not start with a dot stays below its first component.\<close>

lemma clean_path_parts:
  assumes "path_Clean p = p" and "p \<noteq> []" and "hd p \<noteq> CHR ''/''" and "hd p \<noteq> CHR ''.''"
  shows "list_all plain_part (split_on (CHR ''/'') p)"
proof -
  let ?L = "clean_parts False [] (split_on (CHR ''/'') p)"
  have "dots_first ?L" by (rule clean_parts_form [of "[]" 0 "[]"]) simp_all
  then obtain n ys where L: "?L = replicate n ''..'' @ ys" "list_all plain_part ys"
    unfolding dots_first_def by blast
  have "p \<noteq> ''.''" using assms(4) by auto
  then have p: "p = join_with (CHR ''/'') ?L" using assms(1-3) by (auto simp: path_Clean_def Let_def split: if_splits)
  then have ne: "?L \<noteq> []" using assms(2) by auto
  have "split_on (CHR ''/'') p = ?L"
    by (subst (1) p, rule split_join) (use ne in \<open>auto dest: clean_parts_slash [rotated 2] split_on_parts\<close>)
  moreover have "n = 0"
  proof (rule ccontr)
    assume "n \<noteq> 0"
    then obtain zs where "?L = ''..'' # zs" using L(1) by (cases n) auto
    then have "hd p = CHR ''.''" by (subst p) (cases zs; simp)
    then show False using assms(4) by simp
  qed
  ultimately show ?thesis using L by simp
qed

end
