(* ===== verification/Control_Mode.thy ===== *)
theory Control_Mode
  imports Go_Strings
begin

text \<open>
  The control mode manager of \<open>service/controlmode/manager.go\<close>: the mode is kept in a file and
  cached in memory, and a switch runs its hooks, waits for the activity gate, and saves the
  new mode. Calls into the operating system are arguments: the file as it is on disk, and
  which step of the atomic replacement fails. Logging is left out.
\<close>

section \<open>Data\<close>

type_synonym mode = string

definition ModeOff :: mode where "ModeOff = ''off''"
definition ModeMCP :: mode where "ModeMCP = ''mcp''"
definition ModePicoclaw :: mode where "ModePicoclaw = ''picoclaw''"

definition validMode :: "mode \<Rightarrow> bool" where
  "validMode m \<longleftrightarrow> m = ModeOff \<or> m = ModeMCP \<or> m = ModePicoclaw"

datatype save_stage = MkdirAll | CreateTemp | Chmod | WriteString | SyncFile | CloseFile | Rename
  | SyncDir

text \<open>An error is the constructor of its message; \<open>Joined\<close> is \<open>errors.Join\<close>.\<close>

datatype mode_error =
    StatFailed
  | ReadFailed
  | InvalidModeFile string
  | InvalidMode mode
  | InvalidTransition mode mode
  | ModeConflict mode mode
  | ModeTransitioning
  | HookFailed string
  | HookPanicked string
  | ActivityWaitTimeout
  | SaveFailed save_stage
  | Joined mode_error mode_error

record Status =
  st_mode :: mode
  st_transitioning :: bool
  st_lastError :: "mode_error option"
  st_changedAt :: time

record Manager =
  defaultMode :: mode
  activityWaitTimeout :: duration
  loaded :: bool
  mode :: mode
  modeFileExists :: bool
  modeFileSize :: int
  modeFileModTime :: time
  transitioning :: bool
  lastError :: "mode_error option"
  changedAt :: time

definition NewManager :: "mode \<Rightarrow> Manager" where
  "NewManager d = \<lparr>defaultMode = (if validMode d then d else ModeOff),
     activityWaitTimeout = 30 * second, loaded = False, mode = [], modeFileExists = False,
     modeFileSize = 0, modeFileModTime = 0, transitioning = False, lastError = None, changedAt = 0\<rparr>"

datatype stat_result = StatOk int time | StatNotExist | StatErr
datatype read_result = ReadOk string | ReadNotExist | ReadErr

section \<open>The mode file\<close>

definition cacheModeFileInfoLocked ::
    "Manager \<Rightarrow> stat_result \<Rightarrow> string \<Rightarrow> time \<Rightarrow> Manager" where
  "cacheModeFileInfoLocked m info data now =
     (let m = m\<lparr>modeFileExists := True\<rparr> in
      case info of
        StatOk sz mtime \<Rightarrow>
          (let m = m\<lparr>modeFileSize := sz, modeFileModTime := mtime\<rparr> in
           if is_zero (changedAt m) \<or> changedAt m < mtime then m\<lparr>changedAt := mtime\<rparr> else m)
      | _ \<Rightarrow> m\<lparr>modeFileSize := int (length data), modeFileModTime := now, changedAt := now\<rparr>)"

text \<open>\<open>loadLocked\<close> is its three early returns, and then the read of the file.\<close>

definition cached :: "Manager \<Rightarrow> stat_result \<Rightarrow> bool" where
  "cached m stat \<longleftrightarrow> loaded m \<and>
     (transitioning m \<or>
      (case stat of
         StatOk sz mtime \<Rightarrow> modeFileExists m \<and> sz = modeFileSize m \<and> mtime = modeFileModTime m
       | StatNotExist \<Rightarrow> \<not> modeFileExists m
       | StatErr \<Rightarrow> False))"

definition load_file ::
    "Manager \<Rightarrow> stat_result \<Rightarrow> read_result \<Rightarrow> time \<Rightarrow> mode_error option \<times> Manager" where
  "load_file m stat rd now =
     (case rd of
        ReadNotExist \<Rightarrow>
          (None, m\<lparr>mode := defaultMode m, loaded := True, modeFileExists := False, modeFileSize := 0,
             modeFileModTime := 0, changedAt := (if is_zero (changedAt m) then now else changedAt m)\<rparr>)
      | ReadErr \<Rightarrow> (Some ReadFailed, m)
      | ReadOk data \<Rightarrow>
          (let md = trim_space data in
           if \<not> validMode md
           then (None, cacheModeFileInfoLocked
                   (m\<lparr>mode := ModeOff, loaded := True, lastError := Some (InvalidModeFile md)\<rparr>)
                   stat data now)
           else (None, cacheModeFileInfoLocked
                   (m\<lparr>mode := md, loaded := True, lastError := None\<rparr>) stat data now)))"

definition loadLocked ::
    "Manager \<Rightarrow> stat_result \<Rightarrow> read_result \<Rightarrow> time \<Rightarrow> mode_error option \<times> Manager" where
  "loadLocked m stat rd now =
     (if cached m stat then (None, m)
      else if stat = StatErr then (Some StatFailed, m)
      else load_file m stat rd now)"

text \<open>The outcome of the system calls of one save, and the clock readings in it.\<close>

record save_env =
  se_fails :: "save_stage option"
  se_stat :: stat_result
  se_mtime :: time
  se_now_file :: time
  se_now :: time
  se_dir_opens :: bool

type_synonym mode_file = "(string \<times> time) option"

definition mode_line :: "mode \<Rightarrow> string" where
  "mode_line md = md @ [CHR 0x0A]"

text \<open>
  The manager after the rename: the mode and the cached identity of the file it now reads.
\<close>

definition renamed :: "save_env \<Rightarrow> mode \<Rightarrow> Manager \<Rightarrow> Manager" where
  "renamed e md m =
     (let m = m\<lparr>mode := md, loaded := True\<rparr>;
          m = (case se_stat e of
                 StatOk _ _ \<Rightarrow> cacheModeFileInfoLocked m (se_stat e) (mode_line md) (se_now_file e)
               | _ \<Rightarrow> m\<lparr>modeFileExists := True, modeFileSize := int (length (mode_line md)),
                     modeFileModTime := se_now_file e\<rparr>)
      in m\<lparr>changedAt := se_now e\<rparr>)"

text \<open>
  A stage before the rename leaves the old file; from the rename on, the file and the
  in-memory mode are the new ones, also when the directory cannot be synced.
\<close>

definition saveLocked ::
    "save_env \<Rightarrow> mode \<Rightarrow> Manager \<Rightarrow> mode_file \<Rightarrow> mode_error option \<times> Manager \<times> mode_file" where
  "saveLocked e md m file =
     (if \<not> validMode md then (Some (InvalidMode md), m, file)
      else case se_fails e of
        Some SyncDir \<Rightarrow>
          (if se_dir_opens e then Some (SaveFailed SyncDir) else None,
           renamed e md m, Some (mode_line md, se_mtime e))
      | Some stage \<Rightarrow> (Some (SaveFailed stage), m, file)
      | None \<Rightarrow> (None, renamed e md m, Some (mode_line md, se_mtime e)))"

section \<open>Status and leases\<close>

definition statusLocked :: "Manager \<Rightarrow> Status" where
  "statusLocked m = \<lparr>st_mode = mode m, st_transitioning = transitioning m,
     st_lastError = lastError m, st_changedAt = changedAt m\<rparr>"

definition get_status ::
    "Manager \<Rightarrow> stat_result \<Rightarrow> read_result \<Rightarrow> time \<Rightarrow> (mode_error option \<times> Status) \<times> Manager" where
  "get_status m stat rd now =
     (case loadLocked m stat rd now of
        (Some e, m') \<Rightarrow> ((Some e, \<lparr>st_mode = ModeOff, st_transitioning = transitioning m',
           st_lastError = Some e, st_changedAt = changedAt m'\<rparr>), m')
      | (None, m') \<Rightarrow> ((None, statusLocked m'), m'))"

definition Current :: "Manager \<Rightarrow> stat_result \<Rightarrow> read_result \<Rightarrow> time \<Rightarrow> mode \<times> Manager" where
  "Current m stat rd now =
     (case get_status m stat rd now of
        ((Some e, st), m') \<Rightarrow> (ModeOff, m')
      | ((None, st), m') \<Rightarrow> (st_mode st, m'))"

definition RequireWrite ::
    "Manager \<Rightarrow> mode \<Rightarrow> stat_result \<Rightarrow> read_result \<Rightarrow> time \<Rightarrow> mode_error option \<times> Manager" where
  "RequireWrite m expected stat rd now =
     (case get_status m stat rd now of
        ((Some e, st), m') \<Rightarrow> (Some e, m')
      | ((None, st), m') \<Rightarrow>
          (if st_transitioning st \<or> st_mode st \<noteq> expected
           then Some (ModeConflict (st_mode st) expected) else None, m'))"

text \<open>The check \<open>AcquireStable\<close> makes before and after it takes the gate.\<close>

definition RequireStable ::
    "Manager \<Rightarrow> stat_result \<Rightarrow> read_result \<Rightarrow> time \<Rightarrow> (mode_error + Status) \<times> Manager" where
  "RequireStable m stat rd now =
     (case get_status m stat rd now of
        ((Some e, st), m') \<Rightarrow> (Inl e, m')
      | ((None, st), m') \<Rightarrow> (if st_transitioning st then Inl ModeTransitioning else Inr st, m'))"

section \<open>Switching\<close>

datatype hook = HookOk | HookErr string | HookPanic string

definition callModeTransitionHook :: "hook \<Rightarrow> mode_error option" where
  "callModeTransitionHook h =
     (case h of HookOk \<Rightarrow> None | HookErr e \<Rightarrow> Some (HookFailed e) | HookPanic e \<Rightarrow> Some (HookPanicked e))"

definition run_hook :: "hook option \<Rightarrow> mode_error option" where
  "run_hook h = (case h of None \<Rightarrow> None | Some h \<Rightarrow> callModeTransitionHook h)"

definition setTransitioning :: "bool \<Rightarrow> Manager \<Rightarrow> Manager" where
  "setTransitioning b m = m\<lparr>transitioning := b\<rparr>"

definition setLastError :: "mode_error option \<Rightarrow> Manager \<Rightarrow> Manager" where
  "setLastError e m = m\<lparr>lastError := e\<rparr>"

text \<open>
  What happens outside the manager during one switch: the hooks, whether the exclusive side
  of the gate came free in time, and the two saves the code may make.
\<close>

record switch_env =
  sw_stat :: stat_result
  sw_read :: read_result
  sw_now :: time
  sw_preempt :: "hook option"
  sw_gate :: bool
  sw_cleanup :: "hook option"
  sw_rollback :: save_env
  sw_save :: save_env

text \<open>The part both switches share, once the status asks for a change; the hooks run between
  \<open>setTransitioning(true)\<close> and its deferred reset.\<close>

definition transition ::
    "switch_env \<Rightarrow> mode \<Rightarrow> Manager \<Rightarrow> mode_file \<Rightarrow> mode_error option \<times> Manager \<times> mode_file" where
  "transition e target m0 file =
     (let m = setTransitioning True m0 in
      case run_hook (sw_preempt e) of
        Some err \<Rightarrow> (Some err, setTransitioning False (setLastError (Some err) m), file)
      | None \<Rightarrow>
        if \<not> sw_gate e then
          (Some ActivityWaitTimeout, setTransitioning False (setLastError (Some ActivityWaitTimeout) m), file)
        else case run_hook (sw_cleanup e) of
          Some err \<Rightarrow>
            (case saveLocked (sw_rollback e) ModeOff m file of
               (rb, m', file') \<Rightarrow>
                 (let err' = (case rb of None \<Rightarrow> err | Some r \<Rightarrow> Joined err r)
                  in (Some err', setTransitioning False (setLastError (Some err') m'), file')))
        | None \<Rightarrow>
            (case saveLocked (sw_save e) target m file of
               (Some err, m', file') \<Rightarrow>
                 (Some err, setTransitioning False (setLastError (Some err) m'), file')
             | (None, m', file') \<Rightarrow> (None, setTransitioning False (setLastError None m'), file')))"

definition SwitchWithCleanup ::
    "switch_env \<Rightarrow> mode \<Rightarrow> Manager \<Rightarrow> mode_file \<Rightarrow> mode_error option \<times> Manager \<times> mode_file" where
  "SwitchWithCleanup e target m file =
     (case get_status m (sw_stat e) (sw_read e) (sw_now e) of
        ((Some err, st), m') \<Rightarrow> (Some err, m', file)
      | ((None, st), m') \<Rightarrow>
          if \<not> validMode target then (Some (InvalidMode target), m', file)
          else if st_mode st = target then (None, m', file)
          else transition e target m' file)"

definition SwitchIfWithCleanup ::
    "switch_env \<Rightarrow> mode \<Rightarrow> mode \<Rightarrow> Manager \<Rightarrow> mode_file \<Rightarrow>
     (mode_error option \<times> bool) \<times> Manager \<times> mode_file" where
  "SwitchIfWithCleanup e expected target m file =
     (if \<not> validMode expected \<or> \<not> validMode target
      then ((Some (InvalidTransition expected target), False), m, file)
      else case get_status m (sw_stat e) (sw_read e) (sw_now e) of
        ((Some err, st), m') \<Rightarrow> ((Some err, False), m', file)
      | ((None, st), m') \<Rightarrow>
          if st_mode st \<noteq> expected then ((None, False), m', file)
          else if st_mode st = target then ((None, True), m', file)
          else (case transition e target m' file of
             (err, m'', file') \<Rightarrow> ((err, err = None), m'', file')))"

section \<open>Invariant\<close>

text \<open>The default mode is a known one, and so is the mode once it has been loaded.\<close>

definition manager_ok :: "Manager \<Rightarrow> bool" where
  "manager_ok m \<longleftrightarrow> validMode (defaultMode m) \<and> (loaded m \<longrightarrow> validMode (mode m))"

text \<open>The mode a file stands for, and what \<open>os.Stat\<close> and \<open>os.ReadFile\<close> say of it.\<close>

definition file_mode :: "mode \<Rightarrow> mode_file \<Rightarrow> mode" where
  "file_mode d file =
     (case file of
        None \<Rightarrow> d
      | Some (c, _) \<Rightarrow> if validMode (trim_space c) then trim_space c else ModeOff)"

definition disk_stat :: "mode_file \<Rightarrow> stat_result" where
  "disk_stat file = (case file of None \<Rightarrow> StatNotExist | Some (c, t) \<Rightarrow> StatOk (int (length c)) t)"

definition disk_read :: "mode_file \<Rightarrow> read_result" where
  "disk_read file = (case file of None \<Rightarrow> ReadNotExist | Some (c, t) \<Rightarrow> ReadOk c)"

text \<open>The cached mode is the one the file stands for.\<close>

definition cache_ok :: "Manager \<Rightarrow> mode_file \<Rightarrow> bool" where
  "cache_ok m file \<longleftrightarrow> (loaded m \<longrightarrow> mode m = file_mode (defaultMode m) file)"

section \<open>Concrete runs\<close>

text \<open>A save without a fault, and a switch whose cleanup hook fails.\<close>

definition clean_save :: save_env where
  "clean_save = \<lparr>se_fails = None, se_stat = StatOk 4 7, se_mtime = 7, se_now_file = 7, se_now = 8,
     se_dir_opens = True\<rparr>"

definition clean_switch :: switch_env where
  "clean_switch = \<lparr>sw_stat = StatNotExist, sw_read = ReadNotExist, sw_now = 3, sw_preempt = None,
     sw_gate = True, sw_cleanup = Some (HookErr ''hid''), sw_rollback = clean_save, sw_save = clean_save\<rparr>"

section \<open>Lemmas\<close>

lemma validMode_consts [simp]: "validMode ModeOff" "validMode ModeMCP" "validMode ModePicoclaw"
  by (simp_all add: validMode_def)

lemma cacheModeFileInfo_frame [simp]:
  "mode (cacheModeFileInfoLocked m info d now) = mode m"
  "loaded (cacheModeFileInfoLocked m info d now) = loaded m"
  "defaultMode (cacheModeFileInfoLocked m info d now) = defaultMode m"
  "transitioning (cacheModeFileInfoLocked m info d now) = transitioning m"
  "lastError (cacheModeFileInfoLocked m info d now) = lastError m"
  by (auto simp: cacheModeFileInfoLocked_def Let_def split: stat_result.splits)

lemma renamed_frame [simp]:
  "mode (renamed e md m) = md" "loaded (renamed e md m)"
  "defaultMode (renamed e md m) = defaultMode m"
  "transitioning (renamed e md m) = transitioning m"
  by (auto simp: renamed_def Let_def split: stat_result.splits)

lemma set_frame [simp]:
  "mode (setTransitioning b m) = mode m" "loaded (setTransitioning b m) = loaded m"
  "defaultMode (setTransitioning b m) = defaultMode m" "transitioning (setTransitioning b m) = b"
  "mode (setLastError x m) = mode m" "loaded (setLastError x m) = loaded m"
  "defaultMode (setLastError x m) = defaultMode m"
  "transitioning (setLastError x m) = transitioning m"
  by (simp_all add: setTransitioning_def setLastError_def)

text \<open>A load returns the cached mode, fails without a change, or takes the mode from disk.\<close>

lemma load_file_cases:
  assumes "load_file m st rd now = (r, m')"
  obtains "m' = m" and "r \<noteq> None"
  | "r = None" and "rd = ReadNotExist" and "loaded m'" and "mode m' = defaultMode m"
    and "defaultMode m' = defaultMode m" and "transitioning m' = transitioning m"
  | c where "r = None" and "rd = ReadOk c" and "loaded m'"
    and "mode m' = (if validMode (trim_space c) then trim_space c else ModeOff)"
    and "defaultMode m' = defaultMode m" and "transitioning m' = transitioning m"
proof (cases rd)
  case (ReadOk c)
  show ?thesis
    by (cases "validMode (trim_space c)") (rule that(3), use assms ReadOk in
      \<open>auto simp: load_file_def Let_def\<close>)+
next
  case ReadNotExist
  show ?thesis by (rule that(2)) (use assms ReadNotExist in \<open>auto simp: load_file_def\<close>)
next
  case ReadErr
  show ?thesis by (rule that(1)) (use assms ReadErr in \<open>auto simp: load_file_def\<close>)
qed

lemma loadLocked_cases:
  assumes "loadLocked m st rd now = (r, m')"
  obtains "m' = m" and "r = None \<longrightarrow> loaded m"
  | "load_file m st rd now = (r, m')"
  using assms by (auto simp: loadLocked_def cached_def split: if_split_asm)

lemma loadLocked_frame:
  "loadLocked m st rd now = (r, m') \<Longrightarrow>
     defaultMode m' = defaultMode m \<and> transitioning m' = transitioning m"
  by (auto elim!: loadLocked_cases load_file_cases)

lemma loadLocked_ok:
  "loadLocked m st rd now = (r, m') \<Longrightarrow> manager_ok m \<Longrightarrow> manager_ok m' \<and> (r = None \<longrightarrow> loaded m')"
  by (auto simp: manager_ok_def elim!: loadLocked_cases load_file_cases)

lemma get_status_load:
  "get_status m st rd now = ((r, s), m') \<Longrightarrow> loadLocked m st rd now = (r, m') \<and>
     (r = None \<longrightarrow> s = statusLocked m')"
  by (auto simp: get_status_def split: prod.splits option.splits)

lemma get_status_ok:
  assumes "get_status m st rd now = ((r, s), m')" and "manager_ok m"
  shows "manager_ok m'" and "transitioning m' = transitioning m" and "defaultMode m' = defaultMode m"
    and "r = None \<Longrightarrow> loaded m' \<and> st_mode s = mode m' \<and> st_transitioning s = transitioning m'"
  using get_status_load [OF assms(1)] loadLocked_ok [OF _ assms(2)] loadLocked_frame
  by (auto simp: statusLocked_def)

text \<open>A save fails before the rename and changes nothing, or renames.\<close>

lemma saveLocked_cases:
  assumes "saveLocked e md m file = (r, m', file')"
  obtains x where "r = Some x" and "m' = m" and "file' = file" and "x \<noteq> SaveFailed SyncDir"
  | "validMode md" and "m' = renamed e md m" and "file' = Some (mode_line md, se_mtime e)"
    and "r = None \<or> r = Some (SaveFailed SyncDir)"
  using assms
  by (auto simp: saveLocked_def split: if_splits option.splits save_stage.splits)

lemma manager_ok_frame [simp]:
  "manager_ok (setTransitioning b m) = manager_ok m" "manager_ok (setLastError x m) = manager_ok m"
  by (simp_all add: manager_ok_def)

lemma manager_ok_renamed: "manager_ok m \<Longrightarrow> validMode md \<Longrightarrow> manager_ok (renamed e md m)"
  by (simp add: manager_ok_def)

lemma saveLocked_ok: "saveLocked e md m file = (r, m', file') \<Longrightarrow> manager_ok m \<Longrightarrow> manager_ok m'"
  by (erule saveLocked_cases) (auto intro: manager_ok_renamed)

text \<open>Every way a transition can end.\<close>

lemma transition_cases:
  assumes "transition e target m file = (r, m', file')"
  obtains x where "r = Some x" and "mode m' = mode m" and "loaded m' = loaded m" and "file' = file"
  | x where "r = Some x" and "run_hook (sw_cleanup e) \<noteq> None" and "mode m' = ModeOff" and "loaded m'"
    and "file' = Some (mode_line ModeOff, se_mtime (sw_rollback e))"
  | "r = None \<or> r = Some (SaveFailed SyncDir)" and "mode m' = target" and "loaded m'"
    and "validMode target" and "file' = Some (mode_line target, se_mtime (sw_save e))"
  using assms unfolding transition_def Let_def
  by (auto split: option.splits if_splits prod.splits elim!: saveLocked_cases; metis)

lemma transition_frame:
  assumes "transition e target m file = (r, m', file')"
  shows "\<not> transitioning m'" and "defaultMode m' = defaultMode m"
  using assms unfolding transition_def Let_def
  by (auto split: option.splits if_splits prod.splits elim!: saveLocked_cases)

lemma transition_ok:
  assumes "transition e target m file = (r, m', file')" and "manager_ok m"
  shows "manager_ok m'"
  using transition_frame(2) [OF assms(1)] assms(2)
  by (auto simp: manager_ok_def intro: transition_cases [OF assms(1)])

lemma trim_mode_lines:
  "trim_space (mode_line ModeOff) = ModeOff"
  "trim_space (mode_line ModeMCP) = ModeMCP"
  "trim_space (mode_line ModePicoclaw) = ModePicoclaw"
  by (simp_all add: mode_line_def ModeOff_def ModeMCP_def ModePicoclaw_def trim_eval)

lemma trim_valid_line: "validMode md \<Longrightarrow> trim_space (mode_line md) = md"
  by (auto simp: validMode_def trim_mode_lines)

lemma file_mode_line: "validMode md \<Longrightarrow> file_mode d (Some (mode_line md, t)) = md"
  by (simp add: file_mode_def trim_valid_line)

lemma file_mode_valid: "validMode d \<Longrightarrow> validMode (file_mode d file)"
  by (auto simp: file_mode_def split: option.splits)

lemma loadLocked_disk:
  assumes "cache_ok m file"
  shows "\<exists>m'. loadLocked m (disk_stat file) (disk_read file) now = (None, m') \<and> loaded m' \<and>
    cache_ok m' file \<and> mode m' = file_mode (defaultMode m) file"
proof -
  obtain r m' where l: "loadLocked m (disk_stat file) (disk_read file) now = (r, m')"
    by (metis surj_pair)
  then have "r = None"
    by (cases "file") (auto simp: loadLocked_def load_file_def disk_stat_def disk_read_def Let_def
        split: if_split_asm)
  with l assms show ?thesis
    by (auto elim!: loadLocked_cases load_file_cases
        simp: cache_ok_def file_mode_def disk_read_def split: option.splits)
qed

text \<open>Without faults, the status reports the mode the file stands for.\<close>

lemma get_status_disk:
  assumes "cache_ok m file" and "get_status m (disk_stat file) (disk_read file) now = ((r, st), m')"
  shows "r = None" and "cache_ok m' file" and "loaded m'"
    and "st_mode st = file_mode (defaultMode m) file" and "mode m' = st_mode st"
    and "transitioning m' = transitioning m" and "defaultMode m' = defaultMode m"
    and "st_transitioning st = transitioning m"
  using loadLocked_disk [OF assms(1), of now] get_status_load [OF assms(2)]
    loadLocked_frame [of m "disk_stat file" "disk_read file" now r m']
  by (auto simp: statusLocked_def)

lemma saveLocked_cache:
  assumes "saveLocked e md m file = (r, m', file')" and "cache_ok m file"
  shows "cache_ok m' file'" and "defaultMode m' = defaultMode m"
    and "transitioning m' = transitioning m"
  using assms by (auto simp: cache_ok_def file_mode_line elim!: saveLocked_cases)

section \<open>Properties\<close>

text \<open>
  How a mode switch can end. From a manager that is not in a transition, whose status
  could be read, the transitioning flag is cleared on every path. Success leaves the target
  in memory and, unless it was already current, in the file. A failure leaves the old mode
  and the old file, or, after a failed cleanup hook, the mode off in both; the one failure
  that keeps the target is a directory sync that failed after the file was replaced.
\<close>

theorem switch_outcome:
  assumes "manager_ok m"
    and "get_status m (sw_stat e) (sw_read e) (sw_now e) = ((None, st), m1)"
    and "SwitchWithCleanup e target m file = (r, m', file')"
    and "\<not> transitioning m"
  shows "\<not> transitioning m' \<and> manager_ok m' \<and>
    (case r of
       None \<Rightarrow> mode m' = target \<and>
         (st_mode st = target \<and> file' = file \<or> file' = Some (mode_line target, se_mtime (sw_save e)))
     | Some err \<Rightarrow>
         mode m' = st_mode st \<and> file' = file \<or>
         run_hook (sw_cleanup e) \<noteq> None \<and> mode m' = ModeOff \<and>
           file' = Some (mode_line ModeOff, se_mtime (sw_rollback e)) \<or>
         err = SaveFailed SyncDir \<and> mode m' = target \<and>
           file' = Some (mode_line target, se_mtime (sw_save e)))"
proof -
  note st = get_status_ok [OF assms(2,1)]
  have cases: "SwitchWithCleanup e target m file =
      (if \<not> validMode target then (Some (InvalidMode target), m1, file)
       else if st_mode st = target then (None, m1, file) else transition e target m1 file)"
    using assms(2) by (simp add: SwitchWithCleanup_def)
  show ?thesis
  proof (cases "validMode target \<and> st_mode st \<noteq> target")
    case False
    with cases assms(3,4) st show ?thesis by (auto split: if_splits)
  next
    case True
    with cases assms(3) have t: "transition e target m1 file = (r, m', file')" by simp
    from transition_frame(1) [OF t] transition_ok [OF t st(1)] st(4) show ?thesis
      by (auto intro: transition_cases [OF t] split: option.splits)
  qed
qed

text \<open>
  A saved mode survives a restart: after a save that reports success, a new manager that
  reads the file it left has that mode and no error, whatever its default mode.
\<close>

theorem save_survives_restart:
  assumes "saveLocked e md m file = (None, m', file')"
  shows "\<exists>m2. loadLocked (NewManager d) (disk_stat file') (disk_read file') now = (None, m2) \<and>
    mode m2 = md \<and> lastError m2 = None \<and> mode m' = md"
  using assms
  by (auto elim!: saveLocked_cases simp: loadLocked_def cached_def load_file_def NewManager_def
      disk_stat_def disk_read_def trim_valid_line)

theorem save_survives_restart_witness:
  "\<exists>m2. loadLocked (NewManager ModePicoclaw) (StatOk 4 7) (ReadOk (mode_line ModeMCP)) 9 = (None, m2) \<and>
    mode m2 = ModeMCP"
proof -
  have "saveLocked clean_save ModeMCP (NewManager ModeOff) None =
      (None, renamed clean_save ModeMCP (NewManager ModeOff), Some (mode_line ModeMCP, 7))"
    by (simp add: saveLocked_def clean_save_def)
  from save_survives_restart [OF this, of ModePicoclaw 9] show ?thesis
    by (auto simp: disk_stat_def disk_read_def mode_line_def ModeMCP_def)
qed

theorem switch_outcome_witness:
  "\<exists>m'. SwitchWithCleanup clean_switch ModeMCP (NewManager ModePicoclaw) None =
     (Some (HookFailed ''hid''), m', Some (mode_line ModeOff, 7)) \<and> \<not> transitioning m'"
proof -
  let ?m = "NewManager ModePicoclaw"
  obtain r m' f where sw: "SwitchWithCleanup clean_switch ModeMCP ?m None = (r, m', f)"
    by (metis prod_cases3)
  obtain st m1 where st: "get_status ?m StatNotExist ReadNotExist 3 = ((None, st), m1)"
    by (simp add: get_status_def loadLocked_def cached_def load_file_def NewManager_def)
  have "manager_ok ?m" and "\<not> transitioning ?m" by (simp_all add: manager_ok_def NewManager_def)
  with switch_outcome [of ?m clean_switch st m1 ModeMCP None r m' f] sw st
  have "\<not> transitioning m'" by (simp add: clean_switch_def)
  moreover have "r = Some (HookFailed ''hid'')" and "f = Some (mode_line ModeOff, 7)"
    using sw by (auto simp: SwitchWithCleanup_def get_status_def loadLocked_def cached_def
        load_file_def NewManager_def
        clean_switch_def transition_def run_hook_def callModeTransitionHook_def saveLocked_def
        clean_save_def statusLocked_def ModeMCP_def ModePicoclaw_def validMode_def Let_def
        split: prod.splits)
  ultimately show ?thesis using sw by blast
qed

end
