(* ===== verification/Control_System.thy ===== *)
theory Control_System
  imports Activity_Gate Control_Mode
begin

text \<open>
  The control mode manager with any number of goroutines: callers of \<open>AcquireWrite\<close> and
  \<open>AcquireStable\<close> between their two checks, and switches between their stages, over the gate
  of \<open>Activity_Gate\<close> and the manager of \<open>Control_Mode\<close>. The file changes by saves only, and
  its reads do not fail; the hooks and every stage of a save may fail.
\<close>

section \<open>The system\<close>

text \<open>
  \<open>Some expected\<close> asks for \<open>AcquireWrite(expected)\<close>, \<open>None\<close> for \<open>AcquireStable()\<close>. A lease
  carries the mode its second check saw.
\<close>

datatype cm_pc =
    CIdle
  | AWant "mode option"
  | AWait "mode option" nat
  | AHeld "mode option"
  | ALease mode
  | SLocked mode
  | SPreempt mode
  | SWait mode nat
  | SExclusive mode
  | SSaved
  | SDone

record cm_sys =
  cs_mgr :: Manager
  cs_file :: mode_file
  cs_gate :: activityGate
  cs_mutex :: "nat option"
  cs_pc :: "nat \<Rightarrow> cm_pc"

definition cm_init :: "cm_sys \<Rightarrow> bool" where
  "cm_init s \<longleftrightarrow> (\<exists>d file. s = \<lparr>cs_mgr = NewManager d, cs_file = file, cs_gate = new_gate,
     cs_mutex = None, cs_pc = (\<lambda>_. CIdle)\<rparr>)"

text \<open>The check of an acquire, before and after it takes the gate: the mode it may run under.\<close>

definition admit :: "mode option \<Rightarrow> Manager \<Rightarrow> mode_file \<Rightarrow> time \<Rightarrow> mode option \<times> Manager" where
  "admit k m file now =
     (case k of
        Some expected \<Rightarrow>
          (case RequireWrite m expected (disk_stat file) (disk_read file) now of
             (None, m') \<Rightarrow> (Some expected, m') | (Some _, m') \<Rightarrow> (None, m'))
      | None \<Rightarrow>
          (case RequireStable m (disk_stat file) (disk_read file) now of
             (Inr st, m') \<Rightarrow> (Some (st_mode st), m') | (Inl _, m') \<Rightarrow> (None, m')))"

definition cm_move :: "cm_sys \<Rightarrow> nat \<Rightarrow> cm_pc \<Rightarrow> cm_sys" where
  "cm_move s i pc = s\<lparr>cs_pc := (cs_pc s)(i := pc)\<rparr>"

inductive cm_step :: "cm_sys \<Rightarrow> cm_sys \<Rightarrow> bool" where
  check_fail: "cs_pc s i = CIdle \<Longrightarrow> admit k (cs_mgr s) (cs_file s) now = (None, m) \<Longrightarrow>
     cm_step s (s\<lparr>cs_mgr := m\<rparr>)"
| check_ok: "cs_pc s i = CIdle \<Longrightarrow> admit k (cs_mgr s) (cs_file s) now = (Some md, m) \<Longrightarrow>
     cm_step s (cm_move (s\<lparr>cs_mgr := m\<rparr>) i (AWant k))"
| lease_take: "cs_pc s i = AWant k \<or> (cs_pc s i = AWait k c \<and> c \<in> set (g_closed (cs_gate s))) \<Longrightarrow>
     acquireShared (cs_gate s) = Acquired g \<Longrightarrow> cm_step s (cm_move (s\<lparr>cs_gate := g\<rparr>) i (AHeld k))"
| lease_wait: "cs_pc s i = AWant k \<or> (cs_pc s i = AWait k c \<and> c \<in> set (g_closed (cs_gate s))) \<Longrightarrow>
     acquireShared (cs_gate s) = Blocked d g \<Longrightarrow> cm_step s (cm_move (s\<lparr>cs_gate := g\<rparr>) i (AWait k d))"
| recheck_ok: "cs_pc s i = AHeld k \<Longrightarrow> admit k (cs_mgr s) (cs_file s) now = (Some md, m) \<Longrightarrow>
     cm_step s (cm_move (s\<lparr>cs_mgr := m\<rparr>) i (ALease md))"
| recheck_fail: "cs_pc s i = AHeld k \<Longrightarrow> admit k (cs_mgr s) (cs_file s) now = (None, m) \<Longrightarrow>
     cm_step s (cm_move (s\<lparr>cs_mgr := m, cs_gate := releaseShared (cs_gate s)\<rparr>) i CIdle)"
| lease_end: "cs_pc s i = ALease md \<Longrightarrow>
     cm_step s (cm_move (s\<lparr>cs_gate := releaseShared (cs_gate s)\<rparr>) i CIdle)"
| switch_lock: "cs_pc s i = CIdle \<Longrightarrow> cs_mutex s = None \<Longrightarrow>
     get_status (cs_mgr s) (disk_stat (cs_file s)) (disk_read (cs_file s)) now = ((None, st), m) \<Longrightarrow>
     validMode target \<Longrightarrow> st_mode st \<noteq> target \<Longrightarrow>
     cm_step s (cm_move (s\<lparr>cs_mgr := m, cs_mutex := Some i\<rparr>) i (SLocked target))"
| switch_begin: "cs_pc s i = SLocked target \<Longrightarrow>
     cm_step s (cm_move (s\<lparr>cs_mgr := setTransitioning True (cs_mgr s)\<rparr>) i (SPreempt target))"
| preempt_fail: "cs_pc s i = SPreempt target \<Longrightarrow>
     cm_step s (cm_move (s\<lparr>cs_mgr := setLastError (Some err) (cs_mgr s)\<rparr>) i SDone)"
| exclusive_take: "cs_pc s i = SPreempt t \<or> (cs_pc s i = SWait t c \<and> c \<in> set (g_closed (cs_gate s))) \<Longrightarrow>
     acquireExclusive (cs_gate s) = Acquired g \<Longrightarrow>
     cm_step s (cm_move (s\<lparr>cs_gate := g\<rparr>) i (SExclusive t))"
| exclusive_block: "cs_pc s i = SPreempt t \<or> (cs_pc s i = SWait t c \<and> c \<in> set (g_closed (cs_gate s))) \<Longrightarrow>
     acquireExclusive (cs_gate s) = Blocked d g \<Longrightarrow>
     cm_step s (cm_move (s\<lparr>cs_gate := g\<rparr>) i (SWait t d))"
| wait_timeout: "cs_pc s i = SWait t c \<Longrightarrow>
     cm_step s (cm_move (s\<lparr>cs_mgr := setLastError (Some ActivityWaitTimeout) (cs_mgr s)\<rparr>) i SDone)"
| cleanup_fail: "cs_pc s i = SExclusive t \<Longrightarrow>
     saveLocked e ModeOff (cs_mgr s) (cs_file s) = (r, m, file) \<Longrightarrow>
     cm_step s (cm_move (s\<lparr>cs_mgr := setLastError (Some err) m, cs_file := file\<rparr>) i SSaved)"
| save: "cs_pc s i = SExclusive t \<Longrightarrow>
     saveLocked e t (cs_mgr s) (cs_file s) = (r, m, file) \<Longrightarrow>
     cm_step s (cm_move (s\<lparr>cs_mgr := setLastError r m, cs_file := file\<rparr>) i SSaved)"
| exclusive_end: "cs_pc s i = SSaved \<Longrightarrow>
     cm_step s (cm_move (s\<lparr>cs_gate := releaseExclusive (cs_gate s)\<rparr>) i SDone)"
| switch_end: "cs_pc s i = SDone \<Longrightarrow>
     cm_step s (cm_move (s\<lparr>cs_mgr := setTransitioning False (cs_mgr s), cs_mutex := None\<rparr>) i CIdle)"

section \<open>The gate underneath\<close>

fun gate_view :: "cm_pc \<Rightarrow> gate_pc" where
  "gate_view (AWait k c) = WaitShared c"
| "gate_view (AHeld k) = HoldShared"
| "gate_view (ALease md) = HoldShared"
| "gate_view (SWait t c) = WaitExclusive c"
| "gate_view (SExclusive t) = HoldExclusive"
| "gate_view SSaved = HoldExclusive"
| "gate_view _ = Idle"

definition gate_of :: "cm_sys \<Rightarrow> gate_sys" where
  "gate_of s = \<lparr>gs_gate = cs_gate s, gs_pc = gate_view \<circ> cs_pc s\<rparr>"

section \<open>The invariant\<close>

fun switching :: "cm_pc \<Rightarrow> bool" where
  "switching (SLocked t) = True"
| "switching (SPreempt t) = True"
| "switching (SWait t c) = True"
| "switching (SExclusive t) = True"
| "switching SSaved = True"
| "switching SDone = True"
| "switching _ = False"

definition current_mode :: "cm_sys \<Rightarrow> mode" where
  "current_mode s = file_mode (defaultMode (cs_mgr s)) (cs_file s)"

text \<open>
  The cache follows the file; the mutex is held by the one goroutine that switches; the flag
  is set only while one is past its lock; and a lease is held under the current mode.
\<close>

definition cm_inv :: "cm_sys \<Rightarrow> bool" where
  "cm_inv s \<longleftrightarrow> cache_ok (cs_mgr s) (cs_file s) \<and>
     (\<forall>i. switching (cs_pc s i) \<longleftrightarrow> cs_mutex s = Some i) \<and>
     (transitioning (cs_mgr s) \<longleftrightarrow>
        (\<exists>i. switching (cs_pc s i) \<and> (\<forall>t. cs_pc s i \<noteq> SLocked t))) \<and>
     (\<forall>i md. cs_pc s i = ALease md \<longrightarrow> current_mode s = md)"

section \<open>Two concrete states\<close>

text \<open>Goroutine 0 has a lease for the default mode; goroutine 1 then starts a switch to off.\<close>

definition fresh_sys :: cm_sys where
  "fresh_sys = \<lparr>cs_mgr = NewManager ModePicoclaw, cs_file = None, cs_gate = new_gate,
     cs_mutex = None, cs_pc = (\<lambda>_. CIdle)\<rparr>"

definition loaded_mgr :: Manager where
  "loaded_mgr = snd (load_file (NewManager ModePicoclaw) StatNotExist ReadNotExist 5)"

definition leased :: cm_sys where
  "leased = cm_move (fresh_sys\<lparr>cs_mgr := loaded_mgr, cs_gate := new_gate\<lparr>g_active := 1\<rparr>\<rparr>) 0
     (ALease ModePicoclaw)"

definition started :: cm_sys where
  "started = cm_move (leased\<lparr>cs_mgr := setTransitioning True loaded_mgr, cs_mutex := Some 1\<rparr>) 1
     (SPreempt ModeOff)"

section \<open>Lemmas\<close>

lemma cm_move_simps [simp]:
  "cs_mgr (cm_move s i pc) = cs_mgr s" "cs_file (cm_move s i pc) = cs_file s"
  "cs_gate (cm_move s i pc) = cs_gate s" "cs_mutex (cm_move s i pc) = cs_mutex s"
  "cs_pc (cm_move s i pc) j = (if j = i then pc else cs_pc s j)"
  by (simp_all add: cm_move_def)

lemma gate_of_simps [simp]:
  "gs_gate (gate_of s) = cs_gate s" "gs_pc (gate_of s) i = gate_view (cs_pc s i)"
  by (simp_all add: gate_of_def)

lemma gate_of_move:
  "gate_of (cm_move s i pc) = gate_move (gate_of s) i (cs_gate s) (gate_view pc)"
  by (simp add: gate_of_def gate_move_def cm_move_def fun_eq_iff)

lemma gate_of_mgr:
  "gate_of (s\<lparr>cs_mgr := m\<rparr>) = gate_of s" "gate_of (s\<lparr>cs_file := f\<rparr>) = gate_of s"
  "gate_of (s\<lparr>cs_mutex := x\<rparr>) = gate_of s"
  by (simp_all add: gate_of_def)

lemma gate_move_same: "gs_pc s i = pc \<Longrightarrow> gate_move s i (gs_gate s) pc = s"
  by (cases s) (auto simp: gate_move_def)

lemma gate_of_take:
  "gate_of (cm_move (s\<lparr>cs_gate := g\<rparr>) i pc) = gate_move (gate_of s) i g (gate_view pc)"
  by (simp add: gate_of_def gate_move_def cm_move_def fun_eq_iff)

lemma gate_of_keep:
  "gate_view pc = gate_view (cs_pc s i) \<Longrightarrow> gate_of (cm_move s i pc) = gate_of s"
  by (simp add: gate_of_move gate_move_same [of "gate_of s", simplified])

lemmas gate_of_rules = gate_of_mgr gate_of_take gate_of_keep

text \<open>Every step of the manager is a step of the gate, or does not touch it.\<close>

lemma cm_gate_step:
  assumes "cm_step s t"
  shows "gate_step (gate_of s) (gate_of t) \<or> gate_of t = gate_of s"
  using assms
proof cases
  case (lease_take i k c g)
  then show ?thesis
    by (auto simp: gate_of_take intro!: gate_step.shared_ok [where c = c])
next
  case (lease_wait i k c d g)
  then show ?thesis
    by (auto simp: gate_of_take intro!: gate_step.shared_wait [where c = c])
next
  case (recheck_fail i k now m)
  then have "gate_of t = gate_move (gate_of s) i (releaseShared (cs_gate s)) Idle"
    by (simp add: gate_of_def gate_move_def cm_move_def fun_eq_iff)
  with recheck_fail show ?thesis using gate_step.shared_release [of "gate_of s" i] by simp
next
  case (lease_end i md)
  then show ?thesis using gate_step.shared_release [of "gate_of s" i] by (simp add: gate_of_take)
next
  case (exclusive_take i tg c g)
  then show ?thesis
    by (auto simp: gate_of_take intro!: gate_step.exclusive_ok [where c = c])
next
  case (exclusive_block i tg c d g)
  then show ?thesis
    by (auto simp: gate_of_take intro!: gate_step.exclusive_wait [where c = c])
next
  case (wait_timeout i tg c)
  then have "gate_of t = gate_move (gate_of s) i (cs_gate s) Idle"
    by (simp add: gate_of_def gate_move_def cm_move_def fun_eq_iff)
  with wait_timeout show ?thesis using gate_step.exclusive_timeout [of "gate_of s" i c] by simp
next
  case (exclusive_end i)
  then show ?thesis
    using gate_step.exclusive_release [of "gate_of s" i] by (simp add: gate_of_take)
qed (auto simp: gate_of_keep gate_of_mgr gate_of_def cm_move_def fun_eq_iff)

interpretation cm_gate: refinement cm_init cm_step gate_init gate_step gate_of
  by unfold_locales (auto simp: cm_init_def gate_init_def cm_gate_step)

lemma admit_disk:
  assumes "cache_ok m file" and "admit k m file now = (r, m')"
  shows "cache_ok m' file" and "transitioning m' = transitioning m"
    and "defaultMode m' = defaultMode m"
    and "r = Some md \<Longrightarrow> \<not> transitioning m \<and> md = file_mode (defaultMode m) file"
proof -
  obtain r' st m1 where g: "get_status m (disk_stat file) (disk_read file) now = ((r', st), m1)"
    by (metis surj_pair)
  note d = get_status_disk [OF assms(1) g]
  have a: "admit k m file now = (case k of
      Some e \<Rightarrow> (if transitioning m \<or> st_mode st \<noteq> e then None else Some e, m1)
    | None \<Rightarrow> (if transitioning m then None else Some (st_mode st), m1))"
    using g d(1,8) by (auto simp: admit_def RequireWrite_def RequireStable_def split: option.splits)
  with assms(2) have m': "m' = m1" by (auto split: option.splits)
  show "cache_ok m' file" and "transitioning m' = transitioning m"
    and "defaultMode m' = defaultMode m" using d m' by simp_all
  show "r = Some md \<Longrightarrow> \<not> transitioning m \<and> md = file_mode (defaultMode m) file"
    using a assms(2) d(4) by (auto split: option.splits if_splits)
qed

text \<open>The three kinds of steps the invariant sees: a read of the manager by a goroutine that does
  not switch, a move of the switch, and a save under the exclusive side of the gate.\<close>

lemma cm_inv_reader:
  assumes "cm_inv s" and "cache_ok m (cs_file s)" and "transitioning m = transitioning (cs_mgr s)"
    and "defaultMode m = defaultMode (cs_mgr s)"
    and "\<not> switching (cs_pc s i)" and "\<not> switching pc"
    and "\<And>md. pc = ALease md \<Longrightarrow> md = current_mode s"
  shows "cm_inv (cm_move (s\<lparr>cs_mgr := m, cs_gate := g\<rparr>) i pc)"
  using assms unfolding cm_inv_def current_mode_def by (auto; metis)

lemmas cm_inv_reader_mgr = cm_inv_reader [where g = "cs_gate s" and s = s for s, simplified]
lemmas cm_inv_reader_gate = cm_inv_reader [where m = "cs_mgr s" and s = s for s, simplified]

lemma cm_inv_switch:
  assumes "cm_inv s" and "cache_ok m (cs_file s)" and "defaultMode m = defaultMode (cs_mgr s)"
    and "switching (cs_pc s i)" and "switching pc"
    and "transitioning m \<longleftrightarrow> (\<forall>t. pc \<noteq> SLocked t)"
  shows "cm_inv (cm_move (s\<lparr>cs_mgr := m, cs_gate := g\<rparr>) i pc)"
  using assms unfolding cm_inv_def current_mode_def by (auto; metis option.sel switching.simps)

lemmas cm_inv_switch_mgr = cm_inv_switch [where g = "cs_gate s" and s = s for s, simplified]
lemmas cm_inv_switch_gate = cm_inv_switch [where m = "cs_mgr s" and s = s for s, simplified]

text \<open>Under the exclusive side nobody holds a lease, so a save may change the mode.\<close>

lemma cm_inv_save:
  assumes "cm_inv s" and "gate_inv (gate_of s)" and "cs_pc s i = SExclusive t"
    and "saveLocked e md (cs_mgr s) (cs_file s) = (r, m, file)"
  shows "cm_inv (cm_move (s\<lparr>cs_mgr := setLastError x m, cs_file := file\<rparr>) i SSaved)"
proof -
  have "counts_ok (gate_of s)" using assms(2) by (simp add: gate_inv_def)
  moreover have "gs_pc (gate_of s) i = HoldExclusive" using assms(3) by simp
  ultimately have "sharers (gate_of s) = {}" by (auto simp: counts_ok_def)
  then have no_lease: "cs_pc s j \<noteq> ALease md'" for j md'
    by (auto simp: sharers_def dest: spec [of _ j])
  have c: "cache_ok (cs_mgr s) (cs_file s)" using assms(1) by (simp add: cm_inv_def)
  from saveLocked_cache [OF assms(4) c] assms(1,3) no_lease show ?thesis
    unfolding cm_inv_def current_mode_def cache_ok_def
    by (auto; metis cm_pc.distinct option.sel switching.simps)
qed

lemma cm_step_inv:
  assumes "cm_step s t" and "cm_inv s" and "gate_inv (gate_of s)"
  shows "cm_inv t"
proof -
  have c: "cache_ok (cs_mgr s) (cs_file s)" using assms(2) by (simp add: cm_inv_def)
  note a = admit_disk [OF c]
  have move: "cm_move s i (cs_pc s i) = s" for s :: cm_sys and i
    by (cases s) (simp add: cm_move_def)
  have on: "transitioning (cs_mgr s)" if "switching (cs_pc s i)" "\<forall>t. cs_pc s i \<noteq> SLocked t" for i
    using assms(2) that by (auto simp: cm_inv_def)
  show ?thesis using assms(1)
  proof cases
    case (check_fail i k now m)
    have "cm_inv (cm_move (s\<lparr>cs_mgr := m\<rparr>) i CIdle)"
      by (rule cm_inv_reader_mgr [OF assms(2)]) (use check_fail a [OF check_fail(3)] in auto)
    with check_fail(1,2) move [of "s\<lparr>cs_mgr := m\<rparr>" i] show ?thesis by simp
  next
    case (check_ok i k now md m)
    show ?thesis unfolding check_ok(1)
      by (rule cm_inv_reader_mgr [OF assms(2)]) (use check_ok a [OF check_ok(3)] in auto)
  next
    case (lease_take i k c' g)
    show ?thesis unfolding lease_take(1)
      by (rule cm_inv_reader_gate [OF assms(2)]) (use lease_take c in auto)
  next
    case (lease_wait i k c' d g)
    show ?thesis unfolding lease_wait(1)
      by (rule cm_inv_reader_gate [OF assms(2)]) (use lease_wait c in auto)
  next
    case (recheck_ok i k now md m)
    show ?thesis unfolding recheck_ok(1)
      by (rule cm_inv_reader_mgr [OF assms(2)])
        (use recheck_ok a [OF recheck_ok(3)] in \<open>auto simp: current_mode_def\<close>)
  next
    case (recheck_fail i k now m)
    show ?thesis unfolding recheck_fail(1)
      by (rule cm_inv_reader [OF assms(2)]) (use recheck_fail a [OF recheck_fail(3)] in auto)
  next
    case (lease_end i md)
    show ?thesis unfolding lease_end(1)
      by (rule cm_inv_reader_gate [OF assms(2)]) (use lease_end c in auto)
  next
    case (switch_lock i now st m target)
    from get_status_disk [OF c switch_lock(4)] assms(2) switch_lock show ?thesis
      unfolding cm_inv_def current_mode_def by auto
  next
    case (switch_begin i target)
    show ?thesis unfolding switch_begin(1)
      by (rule cm_inv_switch_mgr [OF assms(2)]) (use switch_begin c in \<open>auto simp: cache_ok_def\<close>)
  next
    case (preempt_fail i target err)
    show ?thesis unfolding preempt_fail(1)
      by (rule cm_inv_switch_mgr [OF assms(2)])
        (use preempt_fail c on [of i] in \<open>auto simp: cache_ok_def\<close>)
  next
    case (exclusive_take i tg c' g)
    show ?thesis unfolding exclusive_take(1)
      by (rule cm_inv_switch_gate [OF assms(2)]) (use exclusive_take c on [of i] in auto)
  next
    case (exclusive_block i tg c' d g)
    show ?thesis unfolding exclusive_block(1)
      by (rule cm_inv_switch_gate [OF assms(2)]) (use exclusive_block c on [of i] in auto)
  next
    case (wait_timeout i tg c')
    show ?thesis unfolding wait_timeout(1)
      by (rule cm_inv_switch_mgr [OF assms(2)])
        (use wait_timeout c on [of i] in \<open>auto simp: cache_ok_def\<close>)
  next
    case (cleanup_fail i tg e r m fl err)
    show ?thesis unfolding cleanup_fail(1)
      by (rule cm_inv_save [OF assms(2,3) cleanup_fail(2,3)])
  next
    case (save i tg e r m fl)
    show ?thesis unfolding save(1) by (rule cm_inv_save [OF assms(2,3) save(2,3)])
  next
    case (exclusive_end i)
    show ?thesis unfolding exclusive_end(1)
      by (rule cm_inv_switch_gate [OF assms(2)]) (use exclusive_end c on [of i] in auto)
  next
    case (switch_end i)
    from assms(2) switch_end show ?thesis
      unfolding cm_inv_def current_mode_def cache_ok_def by (auto; metis option.sel switching.simps(6))
  qed
qed

interpretation cm: invariant_system cm_init cm_step "\<lambda>s. cm_inv s \<and> gate_inv (gate_of s)"
proof unfold_locales
  fix s assume "cm_init s"
  then show "cm_inv s \<and> gate_inv (gate_of s)"
    by (auto simp: cm_inv_def cache_ok_def NewManager_def cm_init_def current_mode_def
        intro!: gate.initial_inv cm_gate.initial_abs)
next
  fix s t assume "cm_step s t" and "cm_inv s \<and> gate_inv (gate_of s)"
  then show "cm_inv t \<and> gate_inv (gate_of t)"
    using cm_step_inv cm_gate.step_abs gate.step_inv by metis
qed

text \<open>The switch can always run to its end, also when the hooks and the wait fail.\<close>

lemma switch_finishes:
  assumes "switching (cs_pc s i)"
  obtains t where "cm_step\<^sup>*\<^sup>* s t" and "cs_pc t i = CIdle" and "\<not> transitioning (cs_mgr t)"
    and "\<forall>j. j \<noteq> i \<longrightarrow> cs_pc t j = cs_pc s j"
proof -
  let ?goal = "\<lambda>s. \<exists>t. cm_step\<^sup>*\<^sup>* s t \<and> cs_pc t i = CIdle \<and> \<not> transitioning (cs_mgr t) \<and>
    (\<forall>j. j \<noteq> i \<longrightarrow> cs_pc t j = cs_pc s j)"
  have chain: "?goal s" if "cm_step s u" "?goal u" "\<forall>j. j \<noteq> i \<longrightarrow> cs_pc u j = cs_pc s j" for s u
    using that by (metis converse_rtranclp_into_rtranclp)
  have ended: "?goal s" if "cs_pc s i = SDone" for s
    using cm_step.switch_end [OF that] by (intro exI conjI, intro r_into_rtranclp) auto
  have saved: "?goal s" if "cs_pc s i = SSaved" for s
    by (rule chain [OF cm_step.exclusive_end [OF that] ended]) auto
  have exclusive: "?goal s" if "cs_pc s i = SExclusive t" for s t
  proof -
    obtain e :: save_env where True by simp
    obtain r m f where sv: "saveLocked e t (cs_mgr s) (cs_file s) = (r, m, f)" by (metis prod_cases3)
    show ?thesis by (rule chain [OF cm_step.save [OF that sv] saved]) auto
  qed
  have wait: "?goal s" if "cs_pc s i = SWait t c" for s t c
    by (rule chain [OF cm_step.wait_timeout [OF that] ended]) auto
  have preempt: "?goal s" if "cs_pc s i = SPreempt t" for s t
    by (rule chain [OF cm_step.preempt_fail [OF that] ended]) auto
  have locked: "?goal s" if "cs_pc s i = SLocked t" for s t
    by (rule chain [OF cm_step.switch_begin [OF that] preempt]) auto
  show ?thesis using assms that ended saved exclusive wait preempt locked
    by (cases "cs_pc s i") (auto; metis)+
qed

lemma loaded_mgr_mode: "mode loaded_mgr = ModePicoclaw" "st_mode (statusLocked loaded_mgr) = ModePicoclaw"
  by (simp_all add: loaded_mgr_def load_file_def NewManager_def statusLocked_def)

lemma loaded_mgr_admit:
  "admit (Some ModePicoclaw) (NewManager ModePicoclaw) None 5 = (Some ModePicoclaw, loaded_mgr)"
  "admit (Some ModePicoclaw) loaded_mgr None 5 = (Some ModePicoclaw, loaded_mgr)"
  "get_status loaded_mgr StatNotExist ReadNotExist 5 = ((None, statusLocked loaded_mgr), loaded_mgr)"
  by (simp_all add: admit_def RequireWrite_def get_status_def loadLocked_def cached_def load_file_def
      loaded_mgr_def NewManager_def disk_stat_def disk_read_def statusLocked_def is_zero_def)

lemma leased_reachable: "reachable cm_init cm_step leased"
proof -
  let ?s1 = "cm_move (fresh_sys\<lparr>cs_mgr := loaded_mgr\<rparr>) 0 (AWant (Some ModePicoclaw))"
  let ?s2 = "cm_move (?s1\<lparr>cs_gate := new_gate\<lparr>g_active := 1\<rparr>\<rparr>) 0 (AHeld (Some ModePicoclaw))"
  have "reachable cm_init cm_step fresh_sys"
    by (rule reachable.start) (auto simp: cm_init_def fresh_sys_def)
  moreover have "cm_step fresh_sys ?s1"
    by (rule cm_step.check_ok [where now = 5]) (simp_all add: fresh_sys_def loaded_mgr_admit)
  moreover have "cm_step ?s1 ?s2"
    by (rule cm_step.lease_take [where c = 0])
      (simp_all add: fresh_sys_def acquireShared_def new_gate_def)
  moreover have "cm_step ?s2 (cm_move (?s2\<lparr>cs_mgr := loaded_mgr\<rparr>) 0 (ALease ModePicoclaw))"
    by (rule cm_step.recheck_ok [where now = 5 and k = "Some ModePicoclaw"])
      (simp_all add: fresh_sys_def loaded_mgr_admit)
  moreover have "cm_move (?s2\<lparr>cs_mgr := loaded_mgr\<rparr>) 0 (ALease ModePicoclaw) = leased"
    by (simp add: leased_def cm_move_def fresh_sys_def)
  ultimately show ?thesis by (metis reachable.more)
qed

lemma started_reachable: "reachable cm_init cm_step started"
proof -
  let ?s1 = "cm_move (leased\<lparr>cs_mgr := loaded_mgr, cs_mutex := Some 1\<rparr>) 1 (SLocked ModeOff)"
  have "cm_step leased ?s1"
    by (rule cm_step.switch_lock [where now = 5 and st = "statusLocked loaded_mgr"])
      (simp_all add: leased_def fresh_sys_def loaded_mgr_admit disk_stat_def disk_read_def
        loaded_mgr_mode, simp add: ModeOff_def ModePicoclaw_def)
  moreover have "cm_step ?s1 (cm_move (?s1\<lparr>cs_mgr := setTransitioning True (cs_mgr ?s1)\<rparr>) 1
      (SPreempt ModeOff))"
    by (rule cm_step.switch_begin) simp
  moreover have "cm_move (?s1\<lparr>cs_mgr := setTransitioning True (cs_mgr ?s1)\<rparr>) 1 (SPreempt ModeOff) = started"
    by (simp add: started_def cm_move_def)
  ultimately show ?thesis using leased_reachable by (metis reachable.more)
qed

section \<open>Properties\<close>

text \<open>
  C2. A lease pins the control mode. However the callers of \<open>AcquireWrite\<close> and \<open>AcquireStable\<close>
  and the mode switches interleave, while a goroutine has a lease the mode in memory and the
  mode in the file are the mode its lease was granted for, and no switch is saving.
\<close>

theorem lease_pins_mode:
  assumes "reachable cm_init cm_step s" and "cs_pc s i = ALease md"
  shows "file_mode (defaultMode (cs_mgr s)) (cs_file s) = md \<and>
    (loaded (cs_mgr s) \<longrightarrow> mode (cs_mgr s) = md) \<and>
    (\<forall>j t. cs_pc s j \<noteq> SExclusive t \<and> cs_pc s j \<noteq> SSaved)"
proof -
  have inv: "cm_inv s" "gate_inv (gate_of s)" using cm.reachable_inv [OF assms(1)] by simp_all
  then have md: "current_mode s = md" using assms(2) by (auto simp: cm_inv_def)
  have i: "i \<in> sharers (gate_of s)" using assms(2) by (simp add: sharers_def)
  have counts: "counts_ok (gate_of s)" using inv(2) by (simp add: gate_inv_def)
  with i have "g_active (cs_gate s) \<noteq> 0" by (auto simp: counts_ok_def)
  with counts have "gs_pc (gate_of s) j \<noteq> HoldExclusive" for j by (auto simp: counts_ok_def)
  then have "cs_pc s j \<noteq> SExclusive t \<and> cs_pc s j \<noteq> SSaved" for j t
    by (metis gate_of_simps(2) gate_view.simps(5,6))
  with inv(1) md show ?thesis by (auto simp: cm_inv_def cache_ok_def current_mode_def)
qed

theorem lease_pins_mode_witness:
  "cs_pc started 0 = ALease ModePicoclaw \<and> mode (cs_mgr started) = ModePicoclaw \<and>
   transitioning (cs_mgr started)"
  using lease_pins_mode [OF started_reachable, of 0 ModePicoclaw]
  by (simp add: started_def leased_def loaded_mgr_def load_file_def NewManager_def fresh_sys_def)

text \<open>
  A transition always ends: in every reachable state with the transitioning flag set, one
  goroutine holds the transition lock, and its own steps alone, without the cooperation of any
  lease holder, can bring it to a state where the flag is clear.
\<close>

theorem transition_ends:
  assumes "reachable cm_init cm_step s" and "transitioning (cs_mgr s)"
  shows "\<exists>i t. cs_mutex s = Some i \<and> cm_step\<^sup>*\<^sup>* s t \<and> \<not> transitioning (cs_mgr t) \<and>
    cs_pc t i = CIdle \<and> (\<forall>j. j \<noteq> i \<longrightarrow> cs_pc t j = cs_pc s j)"
proof -
  have "cm_inv s" using cm.reachable_inv [OF assms(1)] by simp
  with assms(2) obtain i where i: "switching (cs_pc s i)" and m: "cs_mutex s = Some i"
    by (auto simp: cm_inv_def)
  from switch_finishes [OF i] m show ?thesis by metis
qed

theorem transition_ends_witness:
  "transitioning (cs_mgr started) \<and>
   (\<exists>i t. cm_step\<^sup>*\<^sup>* started t \<and> \<not> transitioning (cs_mgr t) \<and> cs_pc t i = CIdle)"
proof -
  have "transitioning (cs_mgr started)" by (simp add: started_def)
  with transition_ends [OF started_reachable] show ?thesis by blast
qed

end
