(* ===== verification/Input_Coordinator.thy ===== *)
theory Input_Coordinator
  imports Control_Mode
begin

text \<open>
  The input coordinator of \<open>service/inputcontrol/coordinator.go\<close>: it decides when an MCP
  operation may use the keyboard and mouse and when a manual session may. The critical
  sections under \<open>c.mu\<close> and \<open>s.mu\<close> are functions; \<open>in_step\<close> interleaves any number of
  goroutines between them, over any number of manual sessions.
\<close>

section \<open>Data\<close>

datatype OperationKind = OperationHID | OperationReadOnly

datatype ManualReportKind = ManualKeyboard | ManualRelativeMouse | ManualAbsoluteMouse

datatype cause = Canceled | ManualPreempted | MCPModeChanged | OtherCause string

datatype input_error =
    ErrMCPBusy
  | ErrManualControlActive
  | ErrManualInputBlocked
  | ErrSessionClosed
  | ErrControl mode_error
  | ErrContext cause

text \<open>\<open>op_chan\<close> is the identity of the operation: of its context and of its \<open>done\<close> channel.\<close>

record activeOperation =
  op_id :: "64 word"
  op_kind :: OperationKind
  op_chan :: nat

record Coordinator =
  active_op :: "activeOperation option"
  nextID :: "64 word"
  manualSessions :: int
  manualUntil :: time
  manualCooldown :: duration

text \<open>\<open>has_lease\<close> says that \<open>releaseControl\<close> is not nil.\<close>

record ManualSession =
  ms_active :: bool
  closed :: bool
  generation :: "64 word"
  pending :: int
  keyboardHeld :: bool
  relativeMouseHeld :: bool
  absoluteMouseHeld :: bool
  cooldownOnIdle :: bool
  has_lease :: bool

record ManualReservation =
  res_session :: nat
  res_generation :: "64 word"
  res_kind :: ManualReportKind
  res_held :: bool
  res_startCooldown :: bool

text \<open>The arguments of one call of \<open>reserve\<close>.\<close>

record manual_req =
  rq_session :: nat
  rq_kind :: ManualReportKind
  rq_held :: bool
  rq_startCooldown :: bool
  rq_allow :: "(mode \<Rightarrow> bool) option"

definition defaultManualCooldown :: duration where
  "defaultManualCooldown = 2 * second"

definition newCoordinator :: "duration \<Rightarrow> Coordinator" where
  "newCoordinator cooldown = \<lparr>active_op = None, nextID = 0, manualSessions = 0, manualUntil = 0,
     manualCooldown = (if cooldown < 0 then 0 else cooldown)\<rparr>"

definition NewManualSession :: ManualSession where
  "NewManualSession = \<lparr>ms_active = False, closed = False, generation = 0, pending = 0,
     keyboardHeld = False, relativeMouseHeld = False, absoluteMouseHeld = False,
     cooldownOnIdle = False, has_lease = False\<rparr>"

section \<open>The coordinator\<close>

definition BeginMCP ::
    "Coordinator \<Rightarrow> time \<Rightarrow> OperationKind \<Rightarrow> nat \<Rightarrow> input_error + activeOperation \<times> Coordinator" where
  "BeginMCP c now kind chan =
     (if active_op c \<noteq> None then Inl ErrMCPBusy
      else if kind = OperationHID \<and> (manualSessions c > 0 \<or> now < manualUntil c)
      then Inl ErrManualControlActive
      else let op = \<lparr>op_id = nextID c + 1, op_kind = kind, op_chan = chan\<rparr>
           in Inr (op, c\<lparr>nextID := nextID c + 1, active_op := Some op\<rparr>))"

text \<open>The critical section of the release closure, and whether it closes \<open>operation.done\<close>.\<close>

definition releaseMCP :: "Coordinator \<Rightarrow> activeOperation \<Rightarrow> bool \<times> Coordinator" where
  "releaseMCP c op =
     (case active_op c of
        Some a \<Rightarrow> if op_id a = op_id op then (True, c\<lparr>active_op := None\<rparr>) else (False, c)
      | None \<Rightarrow> (False, c))"

text \<open>A context keeps the first cause it was cancelled with.\<close>

definition cancel :: "nat \<Rightarrow> cause \<Rightarrow> (nat \<rightharpoonup> cause) \<Rightarrow> (nat \<rightharpoonup> cause)" where
  "cancel ctx x m = (case m ctx of None \<Rightarrow> m(ctx \<mapsto> x) | Some _ \<Rightarrow> m)"

definition CancelMCPWithCause :: "Coordinator \<Rightarrow> cause option \<Rightarrow> (nat \<rightharpoonup> cause) \<Rightarrow> (nat \<rightharpoonup> cause)" where
  "CancelMCPWithCause c x m =
     (case active_op c of
        None \<Rightarrow> m
      | Some op \<Rightarrow> cancel (op_chan op) (case x of None \<Rightarrow> Canceled | Some x \<Rightarrow> x) m)"

text \<open>\<open>beginManual\<close> up to its \<open>select\<close>: the operation it has cancelled and must wait for.\<close>

definition beginManual :: "Coordinator \<Rightarrow> activeOperation option \<times> Coordinator" where
  "beginManual c =
     (case active_op c of
        Some op \<Rightarrow> if op_kind op = OperationHID then Some op else None
      | None \<Rightarrow> None,
      c\<lparr>manualSessions := manualSessions c + 1\<rparr>)"

definition cooldown :: "Coordinator \<Rightarrow> duration" where
  "cooldown c = (if manualCooldown c \<le> 0 then defaultManualCooldown else manualCooldown c)"

definition endManual :: "bool \<Rightarrow> time \<Rightarrow> Coordinator \<Rightarrow> Coordinator" where
  "endManual startCooldown now c =
     (let c = (if manualSessions c > 0 then c\<lparr>manualSessions := manualSessions c - 1\<rparr> else c)
      in if startCooldown \<and> manualSessions c = 0 then c\<lparr>manualUntil := now + cooldown c\<rparr> else c)"

section \<open>Manual sessions\<close>

definition isReleaseReportLocked :: "ManualSession \<Rightarrow> ManualReportKind \<Rightarrow> bool \<Rightarrow> bool" where
  "isReleaseReportLocked s kind held =
     (if held then False
      else case kind of
        ManualKeyboard \<Rightarrow> keyboardHeld s
      | _ \<Rightarrow> relativeMouseHeld s \<or> absoluteMouseHeld s)"

definition reservation :: "ManualSession \<Rightarrow> manual_req \<Rightarrow> bool \<Rightarrow> ManualReservation" where
  "reservation s rq sc = \<lparr>res_session = rq_session rq, res_generation = generation s,
     res_kind = rq_kind rq, res_held = rq_held rq, res_startCooldown = sc\<rparr>"

definition join :: "ManualSession \<Rightarrow> manual_req \<Rightarrow> ManualReservation \<times> ManualSession" where
  "join s rq =
     (let s = s\<lparr>pending := pending s + 1\<rparr>
      in (reservation s rq (rq_startCooldown rq \<or> isReleaseReportLocked s (rq_kind rq) (rq_held rq)), s))"

definition allows :: "manual_req \<Rightarrow> mode \<Rightarrow> bool" where
  "allows rq md = (case rq_allow rq of None \<Rightarrow> True | Some f \<Rightarrow> f md)"

text \<open>
  The three parts of \<open>reserve\<close>: under the first lock, which decides for an active session and
  sends an inactive one on (\<open>None\<close>); the check of the stable status; and under the second lock,
  once \<open>beginManual\<close> has returned. The flag of the last says that the call must give back what
  it took.
\<close>

definition reserve_active ::
    "ManualSession \<Rightarrow> manual_req \<Rightarrow> mode_error + Status \<Rightarrow>
     (input_error + ManualReservation \<times> ManualSession) option" where
  "reserve_active s rq status =
     (if closed s then Some (Inl ErrSessionClosed)
      else if ms_active s then
        (case status of
           Inl e \<Rightarrow> Some (Inl (ErrControl e))
         | Inr st \<Rightarrow>
             (let allowed = \<not> st_transitioning st \<and> allows rq (st_mode st)
              in if \<not> allowed \<and> \<not> isReleaseReportLocked s (rq_kind rq) (rq_held rq)
                 then Some (Inl ErrManualInputBlocked)
                 else Some (Inr (join s rq))))
      else None)"

definition reserve_begun ::
    "ManualSession \<Rightarrow> manual_req \<Rightarrow> bool \<times> (input_error + ManualReservation) \<times> ManualSession" where
  "reserve_begun s rq =
     (if closed s then (True, Inl ErrSessionClosed, s)
      else if ms_active s then (case join s rq of (r, s') \<Rightarrow> (True, Inr r, s'))
      else let s = s\<lparr>ms_active := True, generation := generation s + 1, pending := 1, has_lease := True\<rparr>
           in (False, Inr (reservation s rq (rq_startCooldown rq)), s))"

text \<open>The check of \<open>ManualReservation.Execute\<close>, made in the write lane.\<close>

definition reservation_valid :: "ManualReservation \<Rightarrow> ManualSession \<Rightarrow> bool" where
  "reservation_valid r s \<longleftrightarrow> ms_active s \<and> \<not> closed s \<and> res_generation r = generation s"

text \<open>
  What a session operation leaves for \<open>finish\<close>: whether there is a lease to release, whether
  the manual count ends, and whether that starts the cooldown.
\<close>

record finish_args =
  fa_lease :: bool
  fa_end :: bool
  fa_cooldown :: bool

definition no_finish :: finish_args where
  "no_finish = \<lparr>fa_lease = False, fa_end = False, fa_cooldown = False\<rparr>"

definition finishIfIdleLocked :: "ManualSession \<Rightarrow> finish_args \<times> ManualSession" where
  "finishIfIdleLocked s =
     (if \<not> ms_active s \<or> pending s > 0 \<or> keyboardHeld s \<or> relativeMouseHeld s \<or> absoluteMouseHeld s
      then (no_finish, s)
      else (\<lparr>fa_lease = has_lease s, fa_end = True, fa_cooldown = cooldownOnIdle s\<rparr>,
            s\<lparr>ms_active := False, has_lease := False, cooldownOnIdle := False\<rparr>))"

definition set_held :: "ManualReportKind \<Rightarrow> bool \<Rightarrow> ManualSession \<Rightarrow> ManualSession" where
  "set_held kind held s =
     (case kind of
        ManualKeyboard \<Rightarrow> s\<lparr>keyboardHeld := held\<rparr>
      | ManualRelativeMouse \<Rightarrow> s\<lparr>relativeMouseHeld := held\<rparr>
      | ManualAbsoluteMouse \<Rightarrow> s\<lparr>absoluteMouseHeld := held\<rparr>)"

definition clear_held :: "ManualSession \<Rightarrow> ManualSession" where
  "clear_held s = s\<lparr>keyboardHeld := False, relativeMouseHeld := False, absoluteMouseHeld := False\<rparr>"

definition complete :: "ManualReservation \<Rightarrow> bool \<Rightarrow> ManualSession \<Rightarrow> finish_args \<times> ManualSession" where
  "complete r success s =
     (if \<not> ms_active s \<or> res_generation r \<noteq> generation s then (no_finish, s)
      else let s = (if pending s > 0 then s\<lparr>pending := pending s - 1\<rparr> else s);
               s = (if res_startCooldown r then s\<lparr>cooldownOnIdle := True\<rparr> else s);
               s = (if success then set_held (res_kind r) (res_held r) s else clear_held s)
           in finishIfIdleLocked s)"

definition Reset :: "ManualReportKind \<Rightarrow> ManualSession \<Rightarrow> finish_args \<times> ManualSession" where
  "Reset kind s =
     (if \<not> ms_active s then (no_finish, s)
      else case finishIfIdleLocked (set_held kind False s) of (fa, s') \<Rightarrow> (fa\<lparr>fa_cooldown := True\<rparr>, s'))"

definition Revoke :: "ManualSession \<Rightarrow> finish_args \<times> ManualSession" where
  "Revoke s =
     (if \<not> ms_active s then (no_finish, s\<lparr>generation := generation s + 1\<rparr>)
      else (\<lparr>fa_lease = has_lease s, fa_end = True, fa_cooldown = False\<rparr>,
            (clear_held s)\<lparr>pending := 0, cooldownOnIdle := False, ms_active := False,
               has_lease := False, generation := generation s + 1\<rparr>))"

definition Close :: "ManualSession \<Rightarrow> finish_args \<times> ManualSession" where
  "Close s =
     (if closed s then (no_finish, s)
      else (\<lparr>fa_lease = has_lease s, fa_end = ms_active s, fa_cooldown = True\<rparr>,
            (clear_held s)\<lparr>closed := True, pending := 0, cooldownOnIdle := False, ms_active := False,
               has_lease := False, generation := generation s + 1\<rparr>))"

text \<open>The first critical section of \<open>ReleaseHeld\<close>: \<open>None\<close> when there is nothing to release.\<close>

definition ReleaseHeld_retire :: "ManualSession \<Rightarrow> ManualSession option" where
  "ReleaseHeld_retire s =
     (if \<not> ms_active s \<or> closed s then None
      else Some ((clear_held s)\<lparr>generation := generation s + 1, pending := 0\<rparr>))"

section \<open>Goroutines\<close>

text \<open>Where \<open>finish\<close> returns to: its caller's end, or the unlock of the write lane.\<close>

datatype after = Stop | Unlock

datatype in_pc =
    PIdle
  | MRun activeOperation
  | MRelease activeOperation
  | RWant manual_req
  | RLease manual_req
  | RWait manual_req nat
  | RBegun manual_req
  | RUndo "ManualReservation option"
  | RBack "ManualReservation option"
  | Holds ManualReservation
  | XLane ManualReservation
  | XWrite ManualReservation
  | XDone ManualReservation bool
  | HLane nat
  | HWrite nat
  | HUnlock
  | FRelease bool bool after
  | FEnd bool after

text \<open>
  \<open>is_leases\<close> counts the leases of the control mode that are out, \<open>is_done\<close> holds the closed
  \<open>done\<close> channels, \<open>is_lane\<close> is \<open>manualWriteMu\<close>.
\<close>

record in_sys =
  is_coord :: Coordinator
  is_ses :: "nat \<Rightarrow> ManualSession"
  is_pc :: "nat \<Rightarrow> in_pc"
  is_lane :: "nat option"
  is_leases :: int
  is_done :: "nat list"
  is_fresh :: nat
  is_cancelled :: "nat \<rightharpoonup> cause"

definition in_init :: "in_sys \<Rightarrow> bool" where
  "in_init s \<longleftrightarrow> (\<exists>d. is_coord s = newCoordinator d) \<and> (\<forall>k. is_ses s k = NewManualSession) \<and>
     (\<forall>i. is_pc s i = PIdle) \<and> is_lane s = None \<and> is_leases s = 0 \<and> is_done s = [] \<and>
     is_cancelled s = Map.empty"

definition goto :: "nat \<Rightarrow> in_pc \<Rightarrow> in_sys \<Rightarrow> in_sys" where
  "goto i pc s = s\<lparr>is_pc := (is_pc s)(i := pc)\<rparr>"

definition put :: "nat \<Rightarrow> ManualSession \<Rightarrow> in_sys \<Rightarrow> in_sys" where
  "put k ms s = s\<lparr>is_ses := (is_ses s)(k := ms)\<rparr>"

definition back_pc :: "ManualReservation option \<Rightarrow> in_pc" where
  "back_pc x = (case x of None \<Rightarrow> PIdle | Some r \<Rightarrow> Holds r)"

definition after_pc :: "after \<Rightarrow> in_pc" where
  "after_pc k = (case k of Stop \<Rightarrow> PIdle | Unlock \<Rightarrow> HUnlock)"

definition finish_pc :: "finish_args \<Rightarrow> after \<Rightarrow> in_pc" where
  "finish_pc fa k = (if fa_end fa then FRelease (fa_lease fa) (fa_cooldown fa) k else after_pc k)"

inductive in_step :: "in_sys \<Rightarrow> in_sys \<Rightarrow> bool" where
  mcp_begin: "is_pc s i = PIdle \<Longrightarrow> BeginMCP (is_coord s) now kind (is_fresh s) = Inr (op, c) \<Longrightarrow>
     in_step s (goto i (MRun op) (s\<lparr>is_coord := c, is_fresh := Suc (is_fresh s)\<rparr>))"
| mcp_cancel: "in_step s (s\<lparr>is_cancelled := CancelMCPWithCause (is_coord s) x (is_cancelled s)\<rparr>)"
| parent_cancel: "is_pc s i = MRun op \<Longrightarrow>
     in_step s (s\<lparr>is_cancelled := cancel (op_chan op) x (is_cancelled s)\<rparr>)"
| mcp_stop: "is_pc s i = MRun op \<Longrightarrow>
     in_step s (goto i (MRelease op) (s\<lparr>is_cancelled := cancel (op_chan op) Canceled (is_cancelled s)\<rparr>))"
| mcp_release: "is_pc s i = MRelease op \<Longrightarrow> releaseMCP (is_coord s) op = (b, c) \<Longrightarrow>
     in_step s (goto i PIdle
       (s\<lparr>is_coord := c, is_done := (if b then op_chan op # is_done s else is_done s)\<rparr>))"
| reserve_join: "is_pc s i = PIdle \<Longrightarrow>
     reserve_active (is_ses s (rq_session rq)) rq status = Some (Inr (r, ms)) \<Longrightarrow>
     in_step s (goto i (Holds r) (put (rq_session rq) ms s))"
| reserve_start: "is_pc s i = PIdle \<Longrightarrow>
     reserve_active (is_ses s (rq_session rq)) rq status = None \<Longrightarrow> in_step s (goto i (RWant rq) s)"
| reserve_unstable: "is_pc s i = RWant rq \<Longrightarrow> in_step s (goto i PIdle s)"
| reserve_blocked: "is_pc s i = RWant rq \<Longrightarrow> \<not> allows rq md \<Longrightarrow>
     in_step s (goto i (RBack None) (s\<lparr>is_leases := is_leases s + 1\<rparr>))"
| reserve_stable: "is_pc s i = RWant rq \<Longrightarrow> allows rq md \<Longrightarrow>
     in_step s (goto i (RLease rq) (s\<lparr>is_leases := is_leases s + 1\<rparr>))"
| begin_wait: "is_pc s i = RLease rq \<Longrightarrow> beginManual (is_coord s) = (Some op, c) \<Longrightarrow>
     in_step s (goto i (RWait rq (op_chan op)) (s\<lparr>is_coord := c,
       is_cancelled := cancel (op_chan op) ManualPreempted (is_cancelled s)\<rparr>))"
| begin_free: "is_pc s i = RLease rq \<Longrightarrow> beginManual (is_coord s) = (None, c) \<Longrightarrow>
     in_step s (goto i (RBegun rq) (s\<lparr>is_coord := c\<rparr>))"
| begin_woken: "is_pc s i = RWait rq ch \<Longrightarrow> ch \<in> set (is_done s) \<Longrightarrow>
     in_step s (goto i (RBegun rq) s)"
| begin_ctx: "is_pc s i = RWait rq ch \<Longrightarrow>
     in_step s (goto i (RBack None) (s\<lparr>is_coord := endManual False now (is_coord s)\<rparr>))"
| reserve_grant: "is_pc s i = RBegun rq \<Longrightarrow>
     reserve_begun (is_ses s (rq_session rq)) rq = (False, Inr r, ms) \<Longrightarrow>
     in_step s (goto i (Holds r) (put (rq_session rq) ms s))"
| reserve_undo: "is_pc s i = RBegun rq \<Longrightarrow>
     reserve_begun (is_ses s (rq_session rq)) rq = (True, x, ms) \<Longrightarrow>
     in_step s (goto i (RUndo (case x of Inl _ \<Rightarrow> None | Inr r \<Rightarrow> Some r)) (put (rq_session rq) ms s))"
| undo_end: "is_pc s i = RUndo x \<Longrightarrow>
     in_step s (goto i (RBack x) (s\<lparr>is_coord := endManual False now (is_coord s)\<rparr>))"
| undo_back: "is_pc s i = RBack x \<Longrightarrow>
     in_step s (goto i (back_pc x) (s\<lparr>is_leases := is_leases s - 1\<rparr>))"
| exec_lane: "is_pc s i = Holds r \<Longrightarrow> is_lane s = None \<Longrightarrow>
     in_step s (goto i (XLane r) (s\<lparr>is_lane := Some i\<rparr>))"
| exec_valid: "is_pc s i = XLane r \<Longrightarrow> reservation_valid r (is_ses s (res_session r)) \<Longrightarrow>
     in_step s (goto i (XWrite r) s)"
| exec_stale: "is_pc s i = XLane r \<Longrightarrow> \<not> reservation_valid r (is_ses s (res_session r)) \<Longrightarrow>
     in_step s (goto i (XDone r False) (s\<lparr>is_lane := None\<rparr>))"
| exec_written: "is_pc s i = XWrite r \<Longrightarrow>
     in_step s (goto i (XDone r success) (s\<lparr>is_lane := None\<rparr>))"
| exec_skip: "is_pc s i = Holds r \<Longrightarrow> in_step s (goto i (XDone r success) s)"
| completes: "is_pc s i = XDone r success \<Longrightarrow>
     complete r success (is_ses s (res_session r)) = (fa, ms) \<Longrightarrow>
     in_step s (goto i (finish_pc fa Stop) (put (res_session r) ms s))"
| resets: "is_pc s i = PIdle \<Longrightarrow> Reset kind (is_ses s k) = (fa, ms) \<Longrightarrow>
     in_step s (goto i (finish_pc fa Stop) (put k ms s))"
| revokes: "is_pc s i = PIdle \<Longrightarrow> Revoke (is_ses s k) = (fa, ms) \<Longrightarrow>
     in_step s (goto i (finish_pc fa Stop) (put k ms s))"
| closes: "is_pc s i = PIdle \<Longrightarrow> Close (is_ses s k) = (fa, ms) \<Longrightarrow>
     in_step s (goto i (finish_pc fa Stop) (put k ms s))"
| held_lane: "is_pc s i = PIdle \<Longrightarrow> is_lane s = None \<Longrightarrow>
     in_step s (goto i (HLane k) (s\<lparr>is_lane := Some i\<rparr>))"
| held_none: "is_pc s i = HLane k \<Longrightarrow> ReleaseHeld_retire (is_ses s k) = None \<Longrightarrow>
     in_step s (goto i HUnlock s)"
| held_retire: "is_pc s i = HLane k \<Longrightarrow> ReleaseHeld_retire (is_ses s k) = Some ms \<Longrightarrow>
     in_step s (goto i (HWrite k) (put k ms s))"
| held_revoke: "is_pc s i = HWrite k \<Longrightarrow> Revoke (is_ses s k) = (fa, ms) \<Longrightarrow>
     in_step s (goto i (finish_pc fa Unlock) (put k ms s))"
| finish_lease: "is_pc s i = FRelease lease sc k \<Longrightarrow>
     in_step s (goto i (FEnd sc k) (s\<lparr>is_leases := is_leases s - of_bool lease\<rparr>))"
| finish_end: "is_pc s i = FEnd sc k \<Longrightarrow>
     in_step s (goto i (after_pc k) (s\<lparr>is_coord := endManual sc now (is_coord s)\<rparr>))"
| unlock: "is_pc s i = HUnlock \<Longrightarrow> in_step s (goto i PIdle (s\<lparr>is_lane := None\<rparr>))"

section \<open>Invariants\<close>

text \<open>Of one session; \<open>session_busy\<close> fails only inside \<open>ReleaseHeld\<close>.\<close>

definition any_held :: "ManualSession \<Rightarrow> bool" where
  "any_held s \<longleftrightarrow> keyboardHeld s \<or> relativeMouseHeld s \<or> absoluteMouseHeld s"

definition session_ok :: "ManualSession \<Rightarrow> bool" where
  "session_ok s \<longleftrightarrow> 0 \<le> pending s \<and> (ms_active s \<longleftrightarrow> has_lease s) \<and> (closed s \<longrightarrow> \<not> ms_active s) \<and>
     (\<not> ms_active s \<longrightarrow> pending s = 0 \<and> \<not> any_held s \<and> \<not> cooldownOnIdle s)"

definition session_busy :: "ManualSession \<Rightarrow> bool" where
  "session_busy s \<longleftrightarrow> ms_active s \<longrightarrow> 0 < pending s \<or> any_held s"

text \<open>The goroutines that count in \<open>manualSessions\<close>, in the leases, and in the write lane.\<close>

fun manual_pc :: "in_pc \<Rightarrow> bool" where
  "manual_pc (RWait rq ch) = True"
| "manual_pc (RBegun rq) = True"
| "manual_pc (RUndo x) = True"
| "manual_pc (FRelease l sc k) = True"
| "manual_pc (FEnd sc k) = True"
| "manual_pc _ = False"

fun lease_pc :: "in_pc \<Rightarrow> bool" where
  "lease_pc (RLease rq) = True"
| "lease_pc (RWait rq ch) = True"
| "lease_pc (RBegun rq) = True"
| "lease_pc (RUndo x) = True"
| "lease_pc (RBack x) = True"
| "lease_pc (FRelease l sc k) = l"
| "lease_pc _ = False"

fun lane_pc :: "in_pc \<Rightarrow> bool" where
  "lane_pc (XLane r) = True"
| "lane_pc (XWrite r) = True"
| "lane_pc (HLane k) = True"
| "lane_pc (HWrite k) = True"
| "lane_pc HUnlock = True"
| "lane_pc (FRelease l sc k) = (k = Unlock)"
| "lane_pc (FEnd sc k) = (k = Unlock)"
| "lane_pc _ = False"

fun op_of :: "in_pc \<Rightarrow> activeOperation option" where
  "op_of (MRun op) = Some op"
| "op_of (MRelease op) = Some op"
| "op_of _ = None"

definition hid_running :: "in_sys \<Rightarrow> bool" where
  "hid_running s \<longleftrightarrow> (\<exists>op. active_op (is_coord s) = Some op \<and> op_kind op = OperationHID)"

definition counted :: "in_sys \<Rightarrow> bool" where
  "counted s \<longleftrightarrow> many manual_pc (is_pc s) \<and> many lease_pc (is_pc s) \<and> many ms_active (is_ses s) \<and>
     manualSessions (is_coord s) = tally manual_pc (is_pc s) + tally ms_active (is_ses s) \<and>
     is_leases s = tally lease_pc (is_pc s) + tally ms_active (is_ses s)"

definition sessions_ok :: "in_sys \<Rightarrow> bool" where
  "sessions_ok s \<longleftrightarrow> (\<forall>k. session_ok (is_ses s k) \<and>
     (session_busy (is_ses s k) \<or> (\<exists>i. is_pc s i = HWrite k)))"

definition lane_ok :: "in_sys \<Rightarrow> bool" where
  "lane_ok s \<longleftrightarrow> (\<forall>i. lane_pc (is_pc s i) \<longleftrightarrow> is_lane s = Some i)"

text \<open>One goroutine runs the active operation, and its \<open>done\<close> channel is open.\<close>

definition op_ok :: "in_sys \<Rightarrow> bool" where
  "op_ok s \<longleftrightarrow> (\<forall>i op. op_of (is_pc s i) = Some op \<longrightarrow> active_op (is_coord s) = Some op) \<and>
     (\<forall>op. active_op (is_coord s) = Some op \<longrightarrow> (\<exists>!i. op_of (is_pc s i) = Some op) \<and>
        op_chan op < is_fresh s \<and> op_chan op \<notin> set (is_done s)) \<and>
     (\<forall>ch \<in> set (is_done s). ch < is_fresh s)"

text \<open>Manual control keeps MCP input out, and who waits for an operation has cancelled it.\<close>

definition exclusive_ok :: "in_sys \<Rightarrow> bool" where
  "exclusive_ok s \<longleftrightarrow>
     (\<forall>k. ms_active (is_ses s k) \<longrightarrow> \<not> hid_running s) \<and>
     (\<forall>i rq. is_pc s i = RBegun rq \<longrightarrow> \<not> hid_running s) \<and>
     (\<forall>i rq ch. is_pc s i = RWait rq ch \<longrightarrow>
        (ch \<in> set (is_done s) \<and> \<not> hid_running s) \<or>
        (\<exists>op. active_op (is_coord s) = Some op \<and> op_chan op = ch \<and> is_cancelled s ch \<noteq> None))"

definition in_inv :: "in_sys \<Rightarrow> bool" where
  "in_inv s \<longleftrightarrow> counted s \<and> sessions_ok s \<and> lane_ok s \<and> op_ok s \<and> exclusive_ok s"

text \<open>
  What \<open>complete\<close>, \<open>Reset\<close>, \<open>Revoke\<close> and \<open>Close\<close> do to a session and leave for \<open>finish\<close>: the
  count and the lease of an active session are handed on when it becomes inactive.
\<close>

definition session_call :: "ManualSession \<Rightarrow> finish_args \<Rightarrow> ManualSession \<Rightarrow> bool" where
  "session_call s fa s' \<longleftrightarrow> session_ok s' \<and> (session_busy s \<longrightarrow> session_busy s') \<and>
     (ms_active s' \<longrightarrow> ms_active s) \<and>
     (fa_end fa \<longleftrightarrow> ms_active s \<and> \<not> ms_active s') \<and> (fa_end fa \<longrightarrow> fa_lease fa)"

section \<open>The life of a reservation\<close>

text \<open>Every critical section that changes a session, one after the other.\<close>

datatype session_op =
    OpJoin manual_req "mode_error + Status"
  | OpGrant manual_req
  | OpComplete ManualReservation bool
  | OpReset ManualReportKind
  | OpRevoke
  | OpClose
  | OpRetire

fun session_do :: "session_op \<Rightarrow> ManualSession \<Rightarrow> ManualSession" where
  "session_do (OpJoin rq st) s = (case reserve_active s rq st of Some (Inr (r, s')) \<Rightarrow> s' | _ \<Rightarrow> s)"
| "session_do (OpGrant rq) s = snd (snd (reserve_begun s rq))"
| "session_do (OpComplete r b) s = snd (complete r b s)"
| "session_do (OpReset kind) s = snd (Reset kind s)"
| "session_do OpRevoke s = snd (Revoke s)"
| "session_do OpClose s = snd (Close s)"
| "session_do OpRetire s = (case ReleaseHeld_retire s of None \<Rightarrow> s | Some s' \<Rightarrow> s')"

fun session_run :: "session_op list \<Rightarrow> ManualSession \<Rightarrow> ManualSession" where
  "session_run [] s = s"
| "session_run (x # xs) s = session_run xs (session_do x s)"

section \<open>Concrete states\<close>

text \<open>
  In \<open>manual_holds\<close> goroutine 0 has taken manual control with a key press; in \<open>mcp_waits\<close> it waits for the
  MCP operation of goroutine 1, which it has cancelled.
\<close>

definition key_press :: manual_req where
  "key_press = \<lparr>rq_session = 0, rq_kind = ManualKeyboard, rq_held = True, rq_startCooldown = True,
     rq_allow = None\<rparr>"

definition key_ticket :: ManualReservation where
  "key_ticket = \<lparr>res_session = 0, res_generation = 1, res_kind = ManualKeyboard, res_held = True,
     res_startCooldown = True\<rparr>"

definition key_session :: ManualSession where
  "key_session = NewManualSession\<lparr>ms_active := True, generation := 1, pending := 1, has_lease := True\<rparr>"

definition no_input :: in_sys where
  "no_input = \<lparr>is_coord = newCoordinator 0, is_ses = (\<lambda>_. NewManualSession), is_pc = (\<lambda>_. PIdle),
     is_lane = None, is_leases = 0, is_done = [], is_fresh = 0, is_cancelled = Map.empty\<rparr>"

definition wants :: "in_sys \<Rightarrow> in_sys" where
  "wants s = goto 0 (RLease key_press) ((goto 0 (RWant key_press) s)\<lparr>is_leases := is_leases s + 1\<rparr>)"

definition manual_holds :: in_sys where
  "manual_holds = goto 0 (Holds key_ticket) (put 0 key_session (goto 0 (RBegun key_press)
     ((wants no_input)\<lparr>is_coord := (newCoordinator 0)\<lparr>manualSessions := 1\<rparr>\<rparr>)))"

definition hid_op :: activeOperation where
  "hid_op = \<lparr>op_id = 1, op_kind = OperationHID, op_chan = 0\<rparr>"

definition mcp_runs :: in_sys where
  "mcp_runs = goto 1 (MRun hid_op) (no_input\<lparr>is_coord := (newCoordinator 0)\<lparr>nextID := 1,
     active_op := Some hid_op\<rparr>, is_fresh := 1\<rparr>)"

definition mcp_waits :: in_sys where
  "mcp_waits = goto 0 (RWait key_press 0) ((wants mcp_runs)\<lparr>is_coord := (is_coord mcp_runs)\<lparr>manualSessions := 1\<rparr>,
     is_cancelled := [0 \<mapsto> ManualPreempted]\<rparr>)"

section \<open>Lemmas\<close>

lemma goto_simps [simp]:
  "is_coord (goto i pc s) = is_coord s" "is_ses (goto i pc s) = is_ses s"
  "is_lane (goto i pc s) = is_lane s" "is_leases (goto i pc s) = is_leases s"
  "is_done (goto i pc s) = is_done s" "is_fresh (goto i pc s) = is_fresh s"
  "is_cancelled (goto i pc s) = is_cancelled s" "is_pc (goto i pc s) = (is_pc s)(i := pc)"
  by (simp_all add: goto_def)

lemma put_simps [simp]:
  "is_coord (put k ms s) = is_coord s" "is_ses (put k ms s) = (is_ses s)(k := ms)"
  "is_lane (put k ms s) = is_lane s" "is_leases (put k ms s) = is_leases s"
  "is_done (put k ms s) = is_done s" "is_fresh (put k ms s) = is_fresh s"
  "is_cancelled (put k ms s) = is_cancelled s" "is_pc (put k ms s) = is_pc s"
  by (simp_all add: put_def)

lemma BeginMCP_cases:
  assumes "BeginMCP c now kind ch = Inr (op, c')"
  obtains "active_op c = None" and "kind = OperationHID \<Longrightarrow> manualSessions c \<le> 0 \<and> manualUntil c \<le> now"
    and "op = \<lparr>op_id = nextID c + 1, op_kind = kind, op_chan = ch\<rparr>"
    and "c' = c\<lparr>nextID := nextID c + 1, active_op := Some op\<rparr>"
  using assms by (auto simp: BeginMCP_def Let_def split: if_splits)

lemma beginManual_cases:
  assumes "beginManual c = (x, c')"
  obtains "c' = c\<lparr>manualSessions := manualSessions c + 1\<rparr>" and "x = None"
    and "\<And>op. active_op c = Some op \<Longrightarrow> op_kind op \<noteq> OperationHID"
  | op where "c' = c\<lparr>manualSessions := manualSessions c + 1\<rparr>" and "x = Some op"
    and "active_op c = Some op" and "op_kind op = OperationHID"
proof (cases "active_op c")
  case None
  with assms that(1) show ?thesis by (auto simp: beginManual_def)
next
  case (Some op)
  with assms that(1) that(2) [of op] show ?thesis
    by (cases "op_kind op = OperationHID") (simp_all add: beginManual_def)
qed

lemma endManual_simps [simp]:
  "active_op (endManual b now c) = active_op c"
  "manualSessions (endManual b now c) =
     (if manualSessions c > 0 then manualSessions c - 1 else manualSessions c)"
  by (simp_all add: endManual_def Let_def)

lemma cancel_simps [simp]: "\<exists>y. cancel ch x m ch = Some y" "m d \<noteq> None \<Longrightarrow> cancel ch x m d \<noteq> None"
  by (auto simp: cancel_def split: option.splits)

lemma CancelMCP_mono: "m d \<noteq> None \<Longrightarrow> CancelMCPWithCause c x m d \<noteq> None"
  by (auto simp: CancelMCPWithCause_def cancel_def split: option.splits)

subsection \<open>Sessions\<close>

lemmas session_defs = session_call_def session_ok_def session_busy_def any_held_def

lemma set_held_frame [simp]:
  "ms_active (set_held kind b s) = ms_active s" "closed (set_held kind b s) = closed s"
  "pending (set_held kind b s) = pending s" "has_lease (set_held kind b s) = has_lease s"
  "generation (set_held kind b s) = generation s"
  "cooldownOnIdle (set_held kind b s) = cooldownOnIdle s"
  by (simp_all add: set_held_def split: ManualReportKind.splits)

lemma clear_held_frame [simp]:
  "ms_active (clear_held s) = ms_active s" "closed (clear_held s) = closed s"
  "pending (clear_held s) = pending s" "has_lease (clear_held s) = has_lease s"
  "generation (clear_held s) = generation s" "cooldownOnIdle (clear_held s) = cooldownOnIdle s"
  "\<not> any_held (clear_held s)" "\<not> keyboardHeld (clear_held s)"
  "\<not> relativeMouseHeld (clear_held s)" "\<not> absoluteMouseHeld (clear_held s)"
  by (simp_all add: clear_held_def any_held_def)

lemma no_finish_simps [simp]: "\<not> fa_end no_finish" "\<not> fa_lease no_finish"
  by (simp_all add: no_finish_def)

lemma no_call: "session_ok s \<Longrightarrow> session_call s no_finish s"
  by (simp add: session_call_def)

lemma finishIfIdle_call:
  assumes "finishIfIdleLocked s1 = (fa, s')" and "ms_active s1 = ms_active s" and "ms_active s"
    and "has_lease s1" and "\<not> closed s1" and "0 \<le> pending s1"
  shows "session_call s fa s'"
  using assms by (auto simp: finishIfIdleLocked_def session_defs split: if_splits)

lemma complete_call:
  assumes "complete r b s = (fa, s')" and "session_ok s"
  shows "session_call s fa s'"
proof (cases "ms_active s \<and> res_generation r = generation s")
  case True
  with assms show ?thesis
    by (auto simp: complete_def Let_def session_ok_def elim!: finishIfIdle_call split: if_splits)
qed (use assms no_call in \<open>auto simp: complete_def\<close>)

lemma Reset_call:
  assumes "Reset kind s = (fa, s')" and "session_ok s"
  shows "session_call s fa s'"
proof (cases "ms_active s")
  case True
  obtain fa1 where "finishIfIdleLocked (set_held kind False s) = (fa1, s')"
    and fa: "fa = fa1\<lparr>fa_cooldown := True\<rparr>"
    using assms(1) True by (auto simp: Reset_def split: prod.splits)
  then have "session_call s fa1 s'"
    using True assms(2) by (auto simp: session_ok_def elim!: finishIfIdle_call)
  with fa show ?thesis by (simp add: session_call_def)
qed (use assms no_call in \<open>auto simp: Reset_def\<close>)

lemma Revoke_call:
  "Revoke s = (fa, s') \<Longrightarrow> session_ok s \<Longrightarrow> session_call s fa s'"
  "Revoke s = (fa, s') \<Longrightarrow> session_busy s'"
  by (auto simp: Revoke_def session_defs split: if_splits)

lemma Close_call: "Close s = (fa, s') \<Longrightarrow> session_ok s \<Longrightarrow> session_call s fa s'"
  by (auto simp: Close_def session_defs split: if_splits intro!: no_call)

lemma reserve_active_ok:
  assumes "reserve_active s rq st = Some (Inr (r, s'))" and "session_ok s"
  shows "session_ok s'" and "session_busy s'" and "ms_active s' = ms_active s" and "ms_active s"
  using assms
  by (auto simp: reserve_active_def join_def Let_def session_defs split: if_splits sum.splits)

lemma reserve_begun_ok:
  assumes "reserve_begun s rq = (u, x, s')" and "session_ok s"
  shows "session_ok s'" and "session_busy s \<Longrightarrow> session_busy s'"
    and "u \<Longrightarrow> ms_active s' = ms_active s" and "\<not> u \<Longrightarrow> ms_active s' \<and> \<not> ms_active s \<and> session_busy s'"
  using assms
  by (auto simp: reserve_begun_def join_def Let_def session_defs split: if_splits)

lemma retire_ok:
  "ReleaseHeld_retire s = Some s' \<Longrightarrow> session_ok s \<Longrightarrow> session_ok s' \<and> ms_active s' = ms_active s"
  by (auto simp: ReleaseHeld_retire_def session_defs split: if_splits)

subsection \<open>Steps\<close>

lemma counted_manual:
  assumes "counted s"
  shows "manual_pc (is_pc s i) \<Longrightarrow> 0 < manualSessions (is_coord s)"
    and "ms_active (is_ses s k) \<Longrightarrow> 0 < manualSessions (is_coord s)"
  using assms tally_pos [of manual_pc "is_pc s" i] tally_pos [of ms_active "is_ses s" k]
    tally_nonneg [of manual_pc "is_pc s"] tally_nonneg [of ms_active "is_ses s"]
  by (auto simp: counted_def)

text \<open>A move that keeps the counts, and a call on a session that hands its count to \<open>finish\<close>.\<close>

lemma counted_call:
  assumes "counted s" and "session_call (is_ses s k) fa ms"
    and "\<not> manual_pc (is_pc s i)" and "\<not> lease_pc (is_pc s i)"
  shows "counted (goto i (finish_pc fa x) (put k ms s))"
proof -
  have f: "manual_pc (finish_pc fa x) = fa_end fa" "lease_pc (finish_pc fa x) = (fa_end fa \<and> fa_lease fa)"
    by (simp_all add: finish_pc_def after_pc_def split: after.splits)
  from assms show ?thesis
    by (auto simp: counted_def tally_upd many_upd f session_call_def)
qed

lemma counted_step:
  assumes "in_step s t" and c: "counted s" and ok: "sessions_ok s"
  shows "counted t"
proof -
  have sk: "session_ok (is_ses s k)" for k using ok by (simp add: sessions_ok_def)
  note m = counted_manual [OF c]
  note cd = counted_def tally_upd many_upd
  show ?thesis using assms(1)
  proof cases
    case (mcp_begin i now kind op c)
    with assms show ?thesis by (auto simp: cd elim!: BeginMCP_cases)
  next
    case (mcp_release i op b c)
    with assms show ?thesis by (auto simp: cd releaseMCP_def split: option.splits if_splits)
  next
    case (reserve_join i rq status r ms)
    with assms reserve_active_ok [OF reserve_join(3) sk] show ?thesis by (auto simp: cd)
  next
    case (begin_wait i rq op c)
    with assms show ?thesis by (auto simp: cd elim!: beginManual_cases)
  next
    case (begin_free i rq c)
    with assms show ?thesis by (auto simp: cd elim!: beginManual_cases)
  next
    case (begin_ctx i rq ch now)
    with assms m(1) [of i] show ?thesis by (auto simp: cd)
  next
    case (reserve_grant i rq r ms)
    with assms reserve_begun_ok [OF reserve_grant(3) sk] show ?thesis by (auto simp: cd)
  next
    case (reserve_undo i rq x ms)
    with assms reserve_begun_ok [OF reserve_undo(3) sk] show ?thesis by (auto simp: cd)
  next
    case (undo_end i x now)
    with assms m(1) [of i] show ?thesis by (auto simp: cd)
  next
    case (undo_back i x)
    with assms show ?thesis by (auto simp: cd back_pc_def split: option.splits)
  next
    case (completes i r b fa ms)
    with counted_call [OF c complete_call [OF completes(3) sk]] show ?thesis by simp
  next
    case (resets i kind k fa ms)
    with counted_call [OF c Reset_call [OF resets(3) sk]] show ?thesis by simp
  next
    case (revokes i k fa ms)
    with counted_call [OF c Revoke_call(1) [OF revokes(3) sk]] show ?thesis by simp
  next
    case (closes i k fa ms)
    with counted_call [OF c Close_call [OF closes(3) sk]] show ?thesis by simp
  next
    case (held_retire i k ms)
    with assms retire_ok [OF held_retire(3) sk] show ?thesis by (auto simp: cd)
  next
    case (held_revoke i k fa ms)
    with counted_call [OF c Revoke_call(1) [OF held_revoke(3) sk]] show ?thesis by simp
  next
    case (finish_end i sc k now)
    with assms m(1) [of i] show ?thesis by (auto simp: cd after_pc_def split: after.splits)
  qed (use assms in \<open>auto simp: cd\<close>)
qed

lemma sessions_ok_call:
  assumes "sessions_ok s" and "session_call (is_ses s k) fa ms" and "session_busy ms \<or> is_pc s i \<noteq> HWrite k"
    and "\<And>j. j \<noteq> k \<Longrightarrow> is_pc s i \<noteq> HWrite j"
  shows "sessions_ok (goto i pc (put k ms s))"
  using assms unfolding sessions_ok_def session_call_def by (auto; metis)

lemma sessions_ok_move:
  assumes "sessions_ok s" and "is_ses t = is_ses s" and "is_pc t = (is_pc s)(i := pc)"
    and "\<And>k. is_pc s i \<noteq> HWrite k"
  shows "sessions_ok t"
  using assms unfolding sessions_ok_def by (metis fun_upd_apply)

lemma sessions_ok_put:
  assumes "sessions_ok s" and "session_ok ms" and "session_busy ms \<or> (\<exists>j. pc = HWrite j \<and> j = k)"
    and "\<And>j. is_pc s i \<noteq> HWrite j"
  shows "sessions_ok (goto i pc (put k ms s))"
  using assms unfolding sessions_ok_def by (auto; metis)

lemma sessions_ok_step:
  assumes "in_step s t" and ok: "sessions_ok s"
  shows "sessions_ok t"
proof -
  have sk: "session_ok (is_ses s k)" for k using ok by (simp add: sessions_ok_def)
  have move: "is_ses t = is_ses s \<Longrightarrow> is_pc t = (is_pc s)(i := pc) \<Longrightarrow> (\<And>k. is_pc s i \<noteq> HWrite k)
      \<Longrightarrow> ?thesis" for i pc
    by (rule sessions_ok_move [OF ok])
  show ?thesis using assms(1)
  proof cases
    case (mcp_cancel x)
    with ok show ?thesis by (simp add: sessions_ok_def)
  next
    case (parent_cancel i op x)
    with ok show ?thesis by (simp add: sessions_ok_def)
  next
    case (reserve_join i rq status r ms)
    with sessions_ok_put [OF ok] reserve_active_ok [OF reserve_join(3) sk] show ?thesis by simp
  next
    case (reserve_grant i rq r ms)
    with sessions_ok_put [OF ok] reserve_begun_ok [OF reserve_grant(3) sk] show ?thesis by simp
  next
    case (reserve_undo i rq x ms)
    have "session_call (is_ses s (rq_session rq)) no_finish ms"
      using reserve_begun_ok [OF reserve_undo(3) sk] by (simp add: session_call_def)
    with sessions_ok_call [OF ok this] reserve_undo show ?thesis by simp
  next
    case (completes i r b fa ms)
    with sessions_ok_call [OF ok complete_call [OF completes(3) sk]] show ?thesis by simp
  next
    case (resets i kind k fa ms)
    with sessions_ok_call [OF ok Reset_call [OF resets(3) sk]] show ?thesis by simp
  next
    case (revokes i k fa ms)
    with sessions_ok_call [OF ok Revoke_call(1) [OF revokes(3) sk]] show ?thesis by simp
  next
    case (closes i k fa ms)
    with sessions_ok_call [OF ok Close_call [OF closes(3) sk]] show ?thesis by simp
  next
    case (held_retire i k ms)
    with sessions_ok_put [OF ok] retire_ok [OF held_retire(3) sk] show ?thesis by simp
  next
    case (held_revoke i k fa ms)
    with sessions_ok_call [OF ok Revoke_call(1) [OF held_revoke(3) sk]]
      Revoke_call(2) [OF held_revoke(3)] show ?thesis by simp
  qed (rule move, simp, simp, simp)+
qed

lemma lane_pc_finish [simp]:
  "lane_pc (finish_pc fa k) = (k = Unlock)" "lane_pc (after_pc k) = (k = Unlock)"
  "\<not> lane_pc (back_pc x)"
  by (auto simp: finish_pc_def after_pc_def back_pc_def split: after.splits option.splits)

lemma lane_ok_move:
  assumes "lane_ok s" and "is_pc t = (is_pc s)(i := pc)"
    and "is_lane t = is_lane s \<and> lane_pc pc = lane_pc (is_pc s i) \<or>
         is_lane s = None \<and> is_lane t = Some i \<and> lane_pc pc \<or>
         lane_pc (is_pc s i) \<and> is_lane t = None \<and> \<not> lane_pc pc"
  shows "lane_ok t"
  unfolding lane_ok_def
proof
  fix j
  have s: "lane_pc (is_pc s j) \<longleftrightarrow> is_lane s = Some j" "lane_pc (is_pc s i) \<longleftrightarrow> is_lane s = Some i"
    using assms(1) by (simp_all add: lane_ok_def)
  then show "lane_pc (is_pc t j) \<longleftrightarrow> is_lane t = Some j"
    using assms(2,3) by (cases "j = i") auto
qed

lemma lane_ok_step:
  assumes "in_step s t" and "lane_ok s"
  shows "lane_ok t"
  using assms(1)
proof cases
  case (mcp_cancel x)
  with assms(2) show ?thesis by (simp add: lane_ok_def)
next
  case (parent_cancel i op x)
  with assms(2) show ?thesis by (simp add: lane_ok_def)
qed (rule lane_ok_move [OF assms(2)], simp, simp)+

lemma op_of_finish [simp]: "op_of (finish_pc fa k) = None" "op_of (after_pc k) = None" "op_of (back_pc x) = None"
  by (auto simp: finish_pc_def after_pc_def back_pc_def split: after.splits option.splits)

lemma op_ok_move:
  assumes "op_ok s" and "is_pc t = (is_pc s)(i := pc)" and "op_of pc = op_of (is_pc s i)"
    and "active_op (is_coord t) = active_op (is_coord s)" and "is_fresh t = is_fresh s"
    and "is_done t = is_done s"
  shows "op_ok t"
proof -
  have "op_of (is_pc t j) = op_of (is_pc s j)" for j using assms(2,3) by simp
  with assms(1,4,5,6) show ?thesis by (simp add: op_ok_def)
qed

lemma op_ok_begin:
  assumes "op_ok s" and "op_of (is_pc s i) = None" and "BeginMCP (is_coord s) now kind (is_fresh s) = Inr (op, c)"
  shows "op_ok (goto i (MRun op) (s\<lparr>is_coord := c, is_fresh := Suc (is_fresh s)\<rparr>))"
  using assms(3)
proof (cases rule: BeginMCP_cases)
  case 1
  have idle: "op_of (is_pc s j) = None" for j using assms(1) 1(1) by (fastforce simp: op_ok_def)
  have "op_chan op \<notin> set (is_done s)" using assms(1) 1(3) by (auto simp: op_ok_def)
  then show ?thesis using assms(1) 1(3,4) idle by (auto simp: op_ok_def less_Suc_eq)
qed

lemma op_ok_release:
  assumes "op_ok s" and "is_pc s i = MRelease op" and "releaseMCP (is_coord s) op = (b, c)"
  shows "op_ok (goto i PIdle (s\<lparr>is_coord := c, is_done := (if b then op_chan op # is_done s else is_done s)\<rparr>))"
    and "b" and "active_op (is_coord s) = Some op" and "c = (is_coord s)\<lparr>active_op := None\<rparr>"
proof -
  have i: "op_of (is_pc s i) = Some op" using assms(2) by simp
  then show a: "active_op (is_coord s) = Some op" using assms(1) unfolding op_ok_def by blast
  then show b: "b" and c: "c = (is_coord s)\<lparr>active_op := None\<rparr>"
    using assms(3) by (simp_all add: releaseMCP_def)
  have "op_of (is_pc s j) = None" if "j \<noteq> i" for j
    using assms(1) a i that unfolding op_ok_def by (metis option.exhaust option.inject)
  then show "op_ok (goto i PIdle (s\<lparr>is_coord := c, is_done := (if b then op_chan op # is_done s else is_done s)\<rparr>))"
    using assms(1) a b c by (auto simp: op_ok_def)
qed

lemma op_ok_step:
  assumes "in_step s t" and ok: "op_ok s"
  shows "op_ok t"
  using assms(1)
proof cases
  case (mcp_begin i now kind op c)
  with op_ok_begin [OF ok _ mcp_begin(3)] show ?thesis by simp
next
  case (mcp_release i op b c)
  show ?thesis unfolding mcp_release(1) by (rule op_ok_release(1) [OF ok mcp_release(2,3)])
next
  case (mcp_cancel x)
  with ok show ?thesis by (simp add: op_ok_def)
next
  case (parent_cancel i op x)
  with ok show ?thesis by (simp add: op_ok_def)
next
  case (begin_wait i rq op c)
  then show ?thesis by (intro op_ok_move [OF ok, of t i]) (auto elim!: beginManual_cases)
next
  case (begin_free i rq c)
  then show ?thesis by (intro op_ok_move [OF ok, of t i]) (auto elim!: beginManual_cases)
qed (rule op_ok_move [OF ok], simp, simp, simp, simp, simp)+

fun waits :: "in_pc \<Rightarrow> bool" where
  "waits (RWait rq ch) = True"
| "waits (RBegun rq) = True"
| "waits _ = False"

lemma waits_finish [simp]: "\<not> waits (finish_pc fa k)" "\<not> waits (after_pc k)" "\<not> waits (back_pc x)"
  by (auto simp: finish_pc_def after_pc_def back_pc_def split: after.splits option.splits)

lemma waits_pc: "\<not> waits pc \<Longrightarrow> pc \<noteq> RWait rq ch \<and> pc \<noteq> RBegun rq"
  by auto

lemma exclusive_ok_move:
  assumes "exclusive_ok s" and "is_pc t = (is_pc s)(i := pc)"
    and "waits pc \<Longrightarrow> pc = is_pc s i \<or> (\<exists>rq. pc = RBegun rq) \<and> \<not> hid_running s \<or>
       (\<exists>rq op. pc = RWait rq (op_chan op) \<and> active_op (is_coord s) = Some op \<and>
          is_cancelled t (op_chan op) \<noteq> None)"
    and "active_op (is_coord t) = active_op (is_coord s)" and "is_done t = is_done s"
    and "\<And>ch. is_cancelled s ch \<noteq> None \<Longrightarrow> is_cancelled t ch \<noteq> None"
    and "\<And>k. ms_active (is_ses t k) \<Longrightarrow> \<exists>j. ms_active (is_ses s j)"
  shows "exclusive_ok t"
proof -
  have h: "hid_running t = hid_running s" using assms(4) by (simp add: hid_running_def)
  have begun: "\<not> hid_running s" if "is_pc t j = RBegun rq" for j rq
  proof (cases "is_pc s j = RBegun rq")
    case True
    with assms(1) show ?thesis unfolding exclusive_ok_def by blast
  next
    case False
    with that assms(2,3) show ?thesis by (auto split: if_splits)
  qed
  have waiting: "(ch \<in> set (is_done s) \<and> \<not> hid_running s) \<or>
      (\<exists>op. active_op (is_coord s) = Some op \<and> op_chan op = ch \<and> is_cancelled t ch \<noteq> None)"
    if "is_pc t j = RWait rq ch" for j rq ch
  proof (cases "is_pc s j = RWait rq ch")
    case True
    with assms(1,6) show ?thesis unfolding exclusive_ok_def by blast
  next
    case False
    with that assms(2,3) show ?thesis by (auto split: if_splits)
  qed
  show ?thesis unfolding exclusive_ok_def h assms(4,5)
    using assms(1,7) begun waiting unfolding exclusive_ok_def by blast
qed

lemma exclusive_ok_begin:
  assumes "exclusive_ok s" and "counted s" and "is_pc s i = PIdle"
    and "BeginMCP (is_coord s) now kind (is_fresh s) = Inr (op, c)"
  shows "exclusive_ok (goto i (MRun op) (s\<lparr>is_coord := c, is_fresh := Suc (is_fresh s)\<rparr>))"
  using assms(4)
proof (cases rule: BeginMCP_cases)
  case 1
  have "kind = OperationHID \<Longrightarrow> \<not> manual_pc (is_pc s j) \<and> \<not> ms_active (is_ses s k)" for j k
    using 1(2) counted_manual [OF assms(2), of j] counted_manual [OF assms(2), of k] by fastforce
  with assms(1,3) 1(1,3,4) show ?thesis
    unfolding exclusive_ok_def hid_running_def by (auto split: if_splits; metis manual_pc.simps(1,2))
qed

lemma exclusive_ok_release:
  assumes "exclusive_ok s" and "op_ok s" and "is_pc s i = MRelease op"
    and "releaseMCP (is_coord s) op = (b, c)"
  shows "exclusive_ok (goto i PIdle (s\<lparr>is_coord := c, is_done := (if b then op_chan op # is_done s else is_done s)\<rparr>))"
  using assms(1) op_ok_release(2-4) [OF assms(2-4)]
  unfolding exclusive_ok_def hid_running_def by auto

lemma exclusive_ok_grant:
  assumes "exclusive_ok s" and "is_pc s i = RBegun rq"
  shows "exclusive_ok (goto i (Holds r) (put k ms s))"
proof -
  have "\<not> hid_running s" using assms unfolding exclusive_ok_def by blast
  with assms(1) show ?thesis unfolding exclusive_ok_def hid_running_def by auto
qed

lemma exclusive_ok_step:
  assumes "in_step s t" and ex: "exclusive_ok s" and "op_ok s" and "counted s" and ok: "sessions_ok s"
  shows "exclusive_ok t"
proof -
  have sk: "session_ok (is_ses s k)" for k using ok by (simp add: sessions_ok_def)
  have call: "exclusive_ok (goto i pc (put k ms s))"
    if "session_call (is_ses s k) fa ms" "\<not> waits pc" for i k ms fa pc
    by (rule exclusive_ok_move [OF ex, of _ i pc]) (use that in \<open>auto simp: session_call_def split: if_splits\<close>)
  show ?thesis using assms(1)
  proof cases
    case (mcp_begin i now kind op c)
    with exclusive_ok_begin [OF ex assms(4) mcp_begin(2,3)] show ?thesis by simp
  next
    case (mcp_cancel x)
    with CancelMCP_mono show ?thesis by (intro exclusive_ok_move [OF ex, of t 0 "is_pc s 0"]) auto
  next
    case (parent_cancel i op x)
    then show ?thesis by (intro exclusive_ok_move [OF ex, of t i "is_pc s i"]) auto
  next
    case (mcp_stop i op)
    then show ?thesis by (intro exclusive_ok_move [OF ex, of t i "MRelease op"]) auto
  next
    case (mcp_release i op b c)
    with exclusive_ok_release [OF ex assms(3) mcp_release(2,3)] show ?thesis by simp
  next
    case (reserve_join i rq status r ms)
    have "session_call (is_ses s (rq_session rq)) no_finish ms"
      using reserve_active_ok [OF reserve_join(3) sk] by (simp add: session_call_def)
    then show ?thesis unfolding reserve_join(1) by (rule call) simp
  next
    case (begin_wait i rq op c)
    then show ?thesis
      by (intro exclusive_ok_move [OF ex, of t i "RWait rq (op_chan op)"]) (auto elim!: beginManual_cases)
  next
    case (begin_free i rq c)
    then show ?thesis by (intro exclusive_ok_move [OF ex, of t i "RBegun rq"])
        (auto elim!: beginManual_cases simp: hid_running_def)
  next
    case (begin_woken i rq ch)
    then have "\<not> hid_running s" using ex assms(3) unfolding exclusive_ok_def op_ok_def by blast
    with begin_woken show ?thesis by (intro exclusive_ok_move [OF ex, of t i "RBegun rq"]) auto
  next
    case (begin_ctx i rq ch now)
    then show ?thesis by (intro exclusive_ok_move [OF ex, of t i "RBack None"]) auto
  next
    case (reserve_grant i rq r ms)
    with exclusive_ok_grant [OF ex reserve_grant(2)] show ?thesis by simp
  next
    case (reserve_undo i rq x ms)
    have "session_call (is_ses s (rq_session rq)) no_finish ms"
      using reserve_begun_ok [OF reserve_undo(3) sk] by (simp add: session_call_def)
    then show ?thesis unfolding reserve_undo(1) by (rule call) simp
  next
    case (completes i r b fa ms)
    show ?thesis unfolding completes(1) by (rule call [OF complete_call [OF completes(3) sk]]) simp
  next
    case (resets i kind k fa ms)
    show ?thesis unfolding resets(1) by (rule call [OF Reset_call [OF resets(3) sk]]) simp
  next
    case (revokes i k fa ms)
    show ?thesis unfolding revokes(1) by (rule call [OF Revoke_call(1) [OF revokes(3) sk]]) simp
  next
    case (closes i k fa ms)
    show ?thesis unfolding closes(1) by (rule call [OF Close_call [OF closes(3) sk]]) simp
  next
    case (held_retire i k ms)
    show ?thesis unfolding held_retire(1)
      by (rule exclusive_ok_move [OF ex, of _ i "HWrite k"])
        (use retire_ok [OF held_retire(3) sk] in \<open>auto split: if_splits\<close>)
  next
    case (held_revoke i k fa ms)
    show ?thesis unfolding held_revoke(1) by (rule call [OF Revoke_call(1) [OF held_revoke(3) sk]]) simp
  qed (rule exclusive_ok_move [OF ex], simp, simp, simp, simp, simp, auto)+
qed

interpretation input: invariant_system in_init in_step in_inv
proof unfold_locales
  fix s assume "in_init s"
  then show "in_inv s"
    using tally_none [of manual_pc "is_pc s"] tally_none [of lease_pc "is_pc s"]
      tally_none [of ms_active "is_ses s"]
    by (auto simp: in_init_def in_inv_def counted_def sessions_ok_def lane_ok_def op_ok_def
        exclusive_ok_def newCoordinator_def NewManualSession_def session_defs)
next
  fix s t assume "in_step s t" and "in_inv s"
  then show "in_inv t"
    by (auto simp: in_inv_def intro: counted_step sessions_ok_step lane_ok_step op_ok_step
        exclusive_ok_step)
qed

subsection \<open>Generations\<close>

lemma session_do_gen:
  "generation (session_do x s) = generation s \<or> generation (session_do x s) = generation s + 1"
proof (cases x)
  case (OpJoin rq st)
  then show ?thesis
    by (auto simp: reserve_active_def join_def Let_def split: option.splits sum.splits prod.splits if_splits)
next
  case (OpGrant rq)
  then show ?thesis by (auto simp: reserve_begun_def join_def Let_def)
next
  case (OpComplete r b)
  then show ?thesis by (auto simp: complete_def Let_def finishIfIdleLocked_def)
next
  case (OpReset kind)
  then show ?thesis by (auto simp: Reset_def finishIfIdleLocked_def split: prod.splits if_splits)
qed (auto simp: Revoke_def Close_def ReleaseHeld_retire_def)

lemma session_run_gen: "\<exists>n \<le> length xs. generation (session_run xs s) = generation s + of_nat n"
proof (induction xs arbitrary: s)
  case (Cons x xs)
  from Cons.IH [of "session_do x s"] obtain n where n: "n \<le> length xs"
    "generation (session_run xs (session_do x s)) = generation (session_do x s) + of_nat n" by auto
  from session_do_gen [of x s] show ?case
  proof
    assume "generation (session_do x s) = generation s"
    with n show ?thesis by (intro exI [of _ n]) simp
  next
    assume "generation (session_do x s) = generation s + 1"
    with n show ?thesis by (intro exI [of _ "Suc n"]) simp
  qed
qed simp

lemma gen_no_wrap:
  fixes g :: "64 word"
  assumes "n < 2 ^ 64 - 1"
  shows "g + 1 + of_nat n \<noteq> g"
proof
  assume "g + 1 + of_nat n = g"
  then have "of_nat (Suc n) = (0 :: 64 word)" by (simp add: add.assoc)
  then have "(2 :: nat) ^ 64 dvd Suc n" unfolding word_of_nat_eq_0_iff by simp
  with assms show False by (auto dest: dvd_imp_le)
qed

lemma revoked_gen:
  "generation (snd (Revoke s)) = generation s + 1"
  "\<not> closed s \<Longrightarrow> generation (snd (Close s)) = generation s + 1"
  by (simp_all add: Revoke_def Close_def)

lemma stale_invalid:
  assumes "res_generation r = g" and "generation s1 = g + 1" and "length xs < 2 ^ 64 - 1"
  shows "\<not> reservation_valid r (session_run xs s1)"
proof -
  obtain n where n: "n \<le> length xs" "generation (session_run xs s1) = g + 1 + of_nat n"
    using session_run_gen [of xs s1] assms(2) by auto
  have "g + 1 + of_nat n \<noteq> g" by (rule gen_no_wrap) (use n(1) assms(3) in simp)
  with n(2) assms(1) show ?thesis by (simp add: reservation_valid_def)
qed

subsection \<open>Reaching the concrete states\<close>

lemmas concrete_defs = wants_def no_input_def key_press_def key_ticket_def key_session_def hid_op_def
  newCoordinator_def NewManualSession_def

lemma no_input_reachable: "reachable in_init in_step no_input"
  by (rule reachable.start) (auto simp: in_init_def no_input_def)

lemma wants_reachable:
  assumes "reachable in_init in_step s" and "is_pc s 0 = PIdle" and "is_ses s 0 = NewManualSession"
  shows "reachable in_init in_step (wants s)"
proof -
  have "in_step s (goto 0 (RWant key_press) s)"
    by (rule in_step.reserve_start [where status = "Inl StatFailed"])
      (use assms in \<open>simp_all add: reserve_active_def key_press_def NewManualSession_def\<close>)
  moreover have "in_step (goto 0 (RWant key_press) s) (wants s)"
    unfolding wants_def using in_step.reserve_stable [of "goto 0 (RWant key_press) s" 0 key_press]
    by (simp add: allows_def key_press_def)
  ultimately show ?thesis using assms(1) by (blast intro: reachable.more)
qed

lemma manual_holds_reachable: "reachable in_init in_step manual_holds"
proof -
  let ?s = "goto 0 (RBegun key_press) ((wants no_input)\<lparr>is_coord := (newCoordinator 0)\<lparr>manualSessions := 1\<rparr>\<rparr>)"
  have "reachable in_init in_step (wants no_input)"
    by (rule wants_reachable [OF no_input_reachable]) (simp_all add: no_input_def)
  moreover have "in_step (wants no_input) ?s"
    by (rule in_step.begin_free) (simp_all add: concrete_defs beginManual_def)
  moreover have "in_step ?s manual_holds"
    unfolding manual_holds_def using in_step.reserve_grant [of ?s 0 key_press key_ticket key_session]
    by (simp add: concrete_defs reserve_begun_def reservation_def)
  ultimately show ?thesis by (blast intro: reachable.more)
qed

lemma mcp_waits_reachable: "reachable in_init in_step mcp_waits"
proof -
  have "in_step no_input mcp_runs"
    unfolding mcp_runs_def
    using in_step.mcp_begin [of no_input 1 0 OperationHID hid_op "(newCoordinator 0)\<lparr>nextID := 1,
      active_op := Some hid_op\<rparr>"]
    by (simp add: BeginMCP_def Let_def no_input_def newCoordinator_def hid_op_def)
  then have "reachable in_init in_step mcp_runs" using no_input_reachable by (blast intro: reachable.more)
  then have "reachable in_init in_step (wants mcp_runs)"
    by (rule wants_reachable) (simp_all add: mcp_runs_def no_input_def)
  moreover have "in_step (wants mcp_runs) mcp_waits"
    unfolding mcp_waits_def
    using in_step.begin_wait [of "wants mcp_runs" 0 key_press hid_op "(is_coord mcp_runs)\<lparr>manualSessions := 1\<rparr>"]
    by (simp add: beginManual_def mcp_runs_def concrete_defs cancel_def)
  ultimately show ?thesis by (blast intro: reachable.more)
qed

section \<open>Properties\<close>

text \<open>
  C1. Manual control keeps MCP input out. In every state that any interleaving can reach, while
  some manual session is active, no keyboard or mouse operation of MCP is in progress, and a
  new one is refused at any time; so whenever a queued manual report passes the check of
  \<open>Execute\<close>, MCP is not writing.
\<close>

theorem manual_excludes_mcp:
  assumes "reachable in_init in_step s"
    and "ms_active (is_ses s k) \<or> (\<exists>r. res_session r = k \<and> reservation_valid r (is_ses s k))"
  shows "(\<forall>op. active_op (is_coord s) = Some op \<longrightarrow> op_kind op \<noteq> OperationHID) \<and>
    (\<forall>now ch. \<not> is_ok (BeginMCP (is_coord s) now OperationHID ch))"
proof -
  have inv: "exclusive_ok s" "counted s" using input.reachable_inv [OF assms(1)] by (simp_all add: in_inv_def)
  have a: "ms_active (is_ses s k)" using assms(2) by (auto simp: reservation_valid_def)
  with inv(1) have "\<not> hid_running s" by (auto simp: exclusive_ok_def)
  moreover have "0 < manualSessions (is_coord s)" by (rule counted_manual(2) [OF inv(2) a])
  ultimately show ?thesis by (auto simp: hid_running_def BeginMCP_def)
qed

theorem manual_excludes_mcp_witness:
  "reservation_valid key_ticket (is_ses manual_holds 0) \<and>
   \<not> is_ok (BeginMCP (is_coord manual_holds) 99 OperationHID 5)"
  using manual_excludes_mcp [OF manual_holds_reachable, of 0]
  by (auto simp: manual_holds_def reservation_valid_def concrete_defs)

text \<open>
  Nothing leaks. In every reachable state \<open>manualSessions\<close> is the number of active sessions
  and of goroutines that have begun and not yet ended manual control, and the leases of the control mode
  that are out are accounted for in the same way. When all goroutines are idle, both equal the
  number of active sessions, and each of these has a report pending or a key or button held.
\<close>

theorem manual_accounting:
  assumes "reachable in_init in_step s"
  shows "manualSessions (is_coord s) = tally manual_pc (is_pc s) + tally ms_active (is_ses s) \<and>
    is_leases s = tally lease_pc (is_pc s) + tally ms_active (is_ses s) \<and>
    ((\<forall>i. is_pc s i = PIdle) \<longrightarrow>
       manualSessions (is_coord s) = int (card {k. ms_active (is_ses s k)}) \<and>
       is_leases s = int (card {k. ms_active (is_ses s k)}) \<and>
       (\<forall>k. ms_active (is_ses s k) \<longrightarrow> 0 < pending (is_ses s k) \<or> any_held (is_ses s k)))"
proof -
  have inv: "counted s" "sessions_ok s" using input.reachable_inv [OF assms] by (simp_all add: in_inv_def)
  show ?thesis
  proof (intro conjI impI)
    assume "\<forall>i. is_pc s i = PIdle"
    then have idle: "is_pc s = (\<lambda>_. PIdle)" by auto
    have "tally manual_pc (is_pc s) = 0" "tally lease_pc (is_pc s) = 0" by (simp_all add: idle tally_def)
    with inv(1) show "manualSessions (is_coord s) = int (card {k. ms_active (is_ses s k)})"
      and "is_leases s = int (card {k. ms_active (is_ses s k)})" by (simp_all add: counted_def tally_def)
    show "\<forall>k. ms_active (is_ses s k) \<longrightarrow> 0 < pending (is_ses s k) \<or> any_held (is_ses s k)"
      using inv(2) idle by (auto simp: sessions_ok_def session_busy_def)
  qed (use inv(1) in \<open>auto simp: counted_def\<close>)
qed

theorem manual_accounting_witness:
  "manualSessions (is_coord manual_holds) = 1 \<and> is_leases manual_holds = 1 \<and>
   tally manual_pc (is_pc manual_holds) + tally ms_active (is_ses manual_holds) = 1"
  using manual_accounting [OF manual_holds_reachable]
  by (auto simp: manual_holds_def concrete_defs)

text \<open>
  Preemption works: a goroutine that waits in \<open>beginManual\<close> can go on at once, or the operation
  it waits for is still the active one, some goroutine runs it, and its context has been cancelled. At
  most one goroutine writes to the keyboard and mouse in the manual lane.
\<close>

theorem manual_preempts:
  assumes "reachable in_init in_step s"
  shows "(is_pc s i = RWait rq ch \<longrightarrow> in_step s (goto i (RBegun rq) s) \<or>
       (\<exists>j op. op_of (is_pc s j) = Some op \<and> active_op (is_coord s) = Some op \<and> op_chan op = ch \<and>
          is_cancelled s ch \<noteq> None)) \<and>
    (lane_pc (is_pc s i) \<and> lane_pc (is_pc s j) \<longrightarrow> i = j)"
proof -
  have inv: "exclusive_ok s" "op_ok s" "lane_ok s"
    using input.reachable_inv [OF assms] by (simp_all add: in_inv_def)
  have "in_step s (goto i (RBegun rq) s) \<or> (\<exists>j op. op_of (is_pc s j) = Some op \<and>
      active_op (is_coord s) = Some op \<and> op_chan op = ch \<and> is_cancelled s ch \<noteq> None)"
    if w: "is_pc s i = RWait rq ch"
  proof (cases "ch \<in> set (is_done s)")
    case True
    with w show ?thesis by (blast intro: in_step.begin_woken)
  next
    case False
    with inv(1) w obtain op where "active_op (is_coord s) = Some op" "op_chan op = ch" "is_cancelled s ch \<noteq> None"
      unfolding exclusive_ok_def by blast
    with inv(2) show ?thesis unfolding op_ok_def by blast
  qed
  moreover have "i = j" if "lane_pc (is_pc s i) \<and> lane_pc (is_pc s j)"
  proof -
    have "is_lane s = Some i" "is_lane s = Some j" using inv(3) that unfolding lane_ok_def by blast+
    then show ?thesis by simp
  qed
  ultimately show ?thesis by blast
qed

theorem manual_preempts_witness:
  "is_pc mcp_waits 0 = RWait key_press 0 \<and> is_cancelled mcp_waits 0 = Some ManualPreempted \<and>
   (in_step mcp_waits (goto 0 (RBegun key_press) mcp_waits) \<or>
    (\<exists>j op. op_of (is_pc mcp_waits j) = Some op \<and> op_chan op = 0))"
proof -
  have "is_pc mcp_waits 0 = RWait key_press 0" by (simp add: mcp_waits_def)
  moreover have "is_cancelled mcp_waits 0 = Some ManualPreempted" by (simp add: mcp_waits_def)
  ultimately show ?thesis using manual_preempts [OF mcp_waits_reachable, of 0 key_press 0 0] by blast
qed

text \<open>
  C5. A report queued before its session was revoked or closed is never written: whatever the next
  \<open>2^64 - 2\<close> critical sections on the session do, a new grant included, its reservation does not
  pass the check of \<open>Execute\<close> again.
\<close>

theorem stale_report_blocked:
  assumes "res_generation r = generation s" and "length xs < 2 ^ 64 - 1"
  shows "\<not> reservation_valid r (session_run xs (snd (Revoke s))) \<and>
    (closed s \<or> \<not> reservation_valid r (session_run xs (snd (Close s))))"
  using stale_invalid [OF assms(1) _ assms(2)] revoked_gen by auto

theorem stale_report_blocked_witness:
  "reservation_valid key_ticket key_session \<and>
   \<not> reservation_valid key_ticket (session_run [OpGrant key_press] (snd (Revoke key_session)))"
  using stale_report_blocked [of key_ticket key_session "[OpGrant key_press]"]
  by (simp add: key_ticket_def key_session_def NewManualSession_def reservation_valid_def)

text \<open>
  After manual input MCP stays out of the keyboard and mouse for the cooldown: when the last
  manual session ends at \<open>t\<close> with the cooldown flag, an MCP input operation is refused until
  \<open>t\<close> plus the cooldown, is admitted from then on unless another operation is active, and a
  read-only operation is never held back by it.
\<close>

theorem cooldown_holds_mcp_back:
  assumes "manualSessions c = 1" and "active_op c = None"
  shows "(BeginMCP (endManual True t c) now OperationHID ch = Inl ErrManualControlActive
      \<longleftrightarrow> now < t + cooldown c) \<and>
    (is_ok (BeginMCP (endManual True t c) now OperationHID ch) \<longleftrightarrow> t + cooldown c \<le> now) \<and>
    is_ok (BeginMCP (endManual True t c) now OperationReadOnly ch) \<and> 0 < cooldown c"
  using assms
  by (auto simp: BeginMCP_def endManual_def Let_def cooldown_def defaultManualCooldown_def)

theorem cooldown_holds_mcp_back_witness:
  "BeginMCP (endManual True 100 ((newCoordinator 0)\<lparr>manualSessions := 1\<rparr>)) 200 OperationHID 7 =
     Inl ErrManualControlActive"
  using cooldown_holds_mcp_back [of "(newCoordinator 0)\<lparr>manualSessions := 1\<rparr>" 100 200 7]
  by (simp add: newCoordinator_def cooldown_def defaultManualCooldown_def)

end
