(* ===== verification/Ipmi_Message.thy ===== *)
theory Ipmi_Message
  imports Prelude
begin

text \<open>
  The message layer of the IPMI add-on (\<open>addons/ipmi/internal/ipmi\<close>): the LAN message with its two
  checksums, the RMCP headers, the pre-session answers, the cipher suites of \<open>crypto.go\<close> and the
  padding of the encrypted payload. HMAC and AES-CBC belong to Go's \<open>crypto\<close> packages: they are
  the fields of a record that the functions take, and what is relied on is named below.
\<close>

section \<open>Constants\<close>

abbreviation rmcpVersion :: byte where "rmcpVersion \<equiv> 0x06"
abbreviation classASF :: byte where "classASF \<equiv> 0x06"
abbreviation classIPMI :: byte where "classIPMI \<equiv> 0x07"
abbreviation authTypeNone :: byte where "authTypeNone \<equiv> 0x00"
abbreviation authTypeRMCP :: byte where "authTypeRMCP \<equiv> 0x06"
abbreviation payloadIPMI :: byte where "payloadIPMI \<equiv> 0x00"
abbreviation payloadOpenRequest :: byte where "payloadOpenRequest \<equiv> 0x10"
abbreviation payloadOpenResponse :: byte where "payloadOpenResponse \<equiv> 0x11"
abbreviation payloadRAKP1 :: byte where "payloadRAKP1 \<equiv> 0x12"
abbreviation payloadRAKP2 :: byte where "payloadRAKP2 \<equiv> 0x13"
abbreviation payloadRAKP3 :: byte where "payloadRAKP3 \<equiv> 0x14"
abbreviation payloadRAKP4 :: byte where "payloadRAKP4 \<equiv> 0x15"
abbreviation netFnChassis :: byte where "netFnChassis \<equiv> 0x00"
abbreviation netFnApp :: byte where "netFnApp \<equiv> 0x06"
abbreviation ccOK :: byte where "ccOK \<equiv> 0x00"
abbreviation ccNodeBusy :: byte where "ccNodeBusy \<equiv> 0xC0"
abbreviation ccInvalidCommand :: byte where "ccInvalidCommand \<equiv> 0xC1"
abbreviation ccRequestTooShort :: byte where "ccRequestTooShort \<equiv> 0xC7"
abbreviation ccOutOfRange :: byte where "ccOutOfRange \<equiv> 0xC9"
abbreviation ccInvalidField :: byte where "ccInvalidField \<equiv> 0xCC"
abbreviation ccInsufficientPriv :: byte where "ccInsufficientPriv \<equiv> 0xD4"
abbreviation ccNotInThisState :: byte where "ccNotInThisState \<equiv> 0xD5"
abbreviation ccPrivExceeded :: byte where "ccPrivExceeded \<equiv> 0x81"

section \<open>Messages\<close>

definition rmcpHeader :: "byte \<Rightarrow> bytes" where
  "rmcpHeader cls = [rmcpVersion, 0x00, 0xFF, cls]"

definition checksum :: "bytes \<Rightarrow> byte" where
  "checksum b = - sum_list b"

record request =
  netFn :: byte
  cmd :: byte
  rqSeqLun :: byte
  rqAddr :: byte
  rsLun :: byte
  rq_data :: bytes

definition parseMessage :: "bytes \<Rightarrow> request option" where
  "parseMessage m =
     (if length m < 7 \<or> checksum (take 2 m) \<noteq> m ! 2 \<or>
         checksum (slice m 3 (length m - 1)) \<noteq> m ! (length m - 1)
      then None
      else Some \<lparr>netFn = drop_bit 2 (m ! 1), cmd = m ! 5, rqSeqLun = m ! 4, rqAddr = m ! 3,
             rsLun = m ! 1 AND 3, rq_data = slice m 6 (length m - 1)\<rparr>)"

definition reply :: "request \<Rightarrow> byte \<Rightarrow> bytes \<Rightarrow> bytes" where
  "reply r cc d =
     (let head = [rqAddr r, push_bit 2 (netFn r OR 1) OR (rqSeqLun r AND 3)];
          body = [0x20, (rqSeqLun r AND NOT 3) OR rsLun r, cmd r, cc] @ d
      in head @ [checksum head] @ body @ [checksum body])"

definition authCapabilities :: bytes where
  "authCapabilities = [0x01, 0x80, 0x04, 0x02, 0x00, 0x00, 0x00, 0x00]"

section \<open>Cipher suites\<close>

datatype hash = SHA1 | SHA256

record suite =
  su_id :: byte
  su_auth :: byte
  su_integrity :: byte
  newHash :: hash
  rakp4Len :: nat
  integLen :: nat

abbreviation authHMACSHA1 :: byte where "authHMACSHA1 \<equiv> 0x01"
abbreviation authHMACSHA256 :: byte where "authHMACSHA256 \<equiv> 0x03"
abbreviation confAESCBC128 :: byte where "confAESCBC128 \<equiv> 0x01"

definition suites :: "suite list" where
  "suites =
     [\<lparr>su_id = 3, su_auth = authHMACSHA1, su_integrity = 0x01, newHash = SHA1, rakp4Len = 12, integLen = 12\<rparr>,
      \<lparr>su_id = 17, su_auth = authHMACSHA256, su_integrity = 0x04, newHash = SHA256, rakp4Len = 16, integLen = 16\<rparr>]"

definition suiteFor :: "byte \<Rightarrow> byte \<Rightarrow> byte \<Rightarrow> suite option" where
  "suiteFor auth integrity conf =
     find (\<lambda>s. su_auth s = auth \<and> su_integrity s = integrity \<and> conf = confAESCBC128) suites"

definition suite_records :: bytes where
  "suite_records = concat (map (\<lambda>su. [0xC0, su_id su, su_auth su, 0x40 OR su_integrity su,
     0x80 OR confAESCBC128]) suites)"

definition cipherSuites :: "bytes \<Rightarrow> byte \<times> bytes" where
  "cipherSuites d =
     (if length d < 3 then (ccRequestTooShort, [])
      else if d ! 1 \<noteq> payloadIPMI then (ccInvalidField, [])
      else let start = unat (d ! 2 AND 0x3F) * 16
           in if start > length suite_records then (ccOutOfRange, [])
              else let stop = min (start + 16) (length suite_records)
                   in (ccOK, 0x01 # slice suite_records start stop))"

section \<open>Cryptography\<close>

text \<open>
  \<open>hmac h k m\<close>, and CBC encryption and decryption of whole blocks under a 16-byte key and
  initialisation vector.
\<close>

record crypto =
  hmac :: "hash \<Rightarrow> bytes \<Rightarrow> bytes \<Rightarrow> bytes"
  cbc_encrypt :: "bytes \<Rightarrow> bytes \<Rightarrow> bytes \<Rightarrow> bytes"
  cbc_decrypt :: "bytes \<Rightarrow> bytes \<Rightarrow> bytes \<Rightarrow> bytes"

text \<open>Decryption inverts encryption, and neither changes the length.\<close>

definition cbc_ok :: "crypto \<Rightarrow> bool" where
  "cbc_ok c \<longleftrightarrow> (\<forall>k iv d. length k = 16 \<longrightarrow> length iv = 16 \<longrightarrow> 16 dvd length d \<longrightarrow>
     length (cbc_encrypt c k iv d) = length d \<and> cbc_decrypt c k iv (cbc_encrypt c k iv d) = d)"

definition hash_len :: "hash \<Rightarrow> nat" where
  "hash_len h = (case h of SHA1 \<Rightarrow> 20 | SHA256 \<Rightarrow> 32)"

definition hmac_ok :: "crypto \<Rightarrow> bool" where
  "hmac_ok c \<longleftrightarrow> (\<forall>h k m. length (hmac c h k m) = hash_len h)"

definition mac :: "crypto \<Rightarrow> suite \<Rightarrow> bytes \<Rightarrow> bytes list \<Rightarrow> bytes" where
  "mac c s key parts = hmac c (newHash s) key (concat parts)"

definition keys :: "crypto \<Rightarrow> suite \<Rightarrow> bytes \<Rightarrow> bytes \<times> bytes" where
  "keys c s sik = (mac c s sik [replicate 20 0x01], mac c s sik [replicate 20 0x02])"

definition pad_payload :: "bytes \<Rightarrow> bytes" where
  "pad_payload plain =
     (let padLen = (16 - (length plain + 1) mod 16) mod 16
      in plain @ map word_of_nat [1..<padLen + 1] @ [word_of_nat padLen])"

text \<open>The random initialisation vector is an argument; a short key is Go's slice panic.\<close>

definition encrypt :: "crypto \<Rightarrow> bytes \<Rightarrow> bytes \<Rightarrow> bytes \<Rightarrow> bytes" where
  "encrypt c key iv plain = iv @ cbc_encrypt c (take 16 key) iv (pad_payload plain)"

definition decrypt :: "crypto \<Rightarrow> bytes \<Rightarrow> bytes \<Rightarrow> bytes option" where
  "decrypt c key d =
     (if length d < 32 \<or> length d mod 16 \<noteq> 0 then None
      else let plain = cbc_decrypt c (take 16 key) (take 16 d) (drop 16 d);
               padLen = unat (last plain)
           in if padLen \<ge> 16 \<or> padLen + 1 > length plain then None
              else Some (take (length plain - 1 - padLen) plain))"

section \<open>Concrete values\<close>

text \<open>A crypto record that satisfies what is relied on: a keystream of zeros and a constant tag.\<close>

definition plain_crypto :: crypto where
  "plain_crypto = \<lparr>hmac = (\<lambda>h k m. replicate (hash_len h) (sum_list k + sum_list m)),
     cbc_encrypt = (\<lambda>k iv d. d), cbc_decrypt = (\<lambda>k iv d. d)\<rparr>"

definition status_request :: request where
  "status_request = \<lparr>netFn = netFnChassis, cmd = 1, rqSeqLun = 4, rqAddr = 0x81, rsLun = 0, rq_data = []\<rparr>"

section \<open>Lemmas\<close>

lemma checksum_zero: "sum_list (b @ [checksum b]) = 0"
  by (simp add: checksum_def)

text \<open>A pad is between 0 and 15 bytes and completes a block.\<close>

lemma pad_block: "(m + (16 - m mod 16) mod 16) mod 16 = (0 :: nat)"
proof (cases "m mod 16 = 0")
  case False
  then have "(16 - m mod 16) mod 16 = 16 - m mod 16" by simp
  moreover have "m + (16 - m mod 16) = 16 * (m div 16 + 1)"
    using mult_div_mod_eq [of 16 m] mod_less_divisor [of 16 m] unfolding distrib_left by linarith
  ultimately show ?thesis by simp
qed simp

lemma length_pad: "length (pad_payload p) = (length p + 1) + (16 - (length p + 1) mod 16) mod 16"
  by (simp add: pad_payload_def Let_def)

lemma pad_dvd: "16 dvd length (pad_payload p)"
  unfolding length_pad dvd_eq_mod_eq_0 by (rule pad_block)

lemma unat_small: "n < 16 \<Longrightarrow> unat (word_of_nat n :: byte) = n"
  by (simp add: unat_of_nat)

lemma last_pad: "unat (last (pad_payload p)) = (16 - (length p + 1) mod 16) mod 16"
  unfolding pad_payload_def Let_def by (simp add: unat_small)

lemma unpad:
  "take (length (pad_payload p) - 1 - unat (last (pad_payload p))) (pad_payload p) = p"
proof -
  have "length (pad_payload p) - 1 - unat (last (pad_payload p)) = length p"
    unfolding length_pad last_pad by simp
  then show ?thesis by (simp add: pad_payload_def Let_def)
qed

lemma plain_crypto_ok: "cbc_ok plain_crypto" "hmac_ok plain_crypto"
  by (simp_all add: plain_crypto_def cbc_ok_def hmac_ok_def)

text \<open>The second byte of a message holds the function number above the two bits of the logical unit.\<close>

lemma mask_3: "(3 :: byte) = mask 2"
  by (simp add: mask_eq_exp_minus_1)

lemma shift_join:
  fixes g :: byte
  assumes "\<And>n. 6 \<le> n \<Longrightarrow> \<not> bit g n"
  shows "drop_bit 2 (push_bit 2 g OR (x AND 3)) = g"
    and "(push_bit 2 g OR (x AND 3)) AND 3 = x AND 3"
  unfolding mask_3
  by (rule bit_word_eqI, use assms in \<open>auto simp: bit_simps; metis not_le\<close>)+

lemma netFn_small: "parseMessage m = Some r \<Longrightarrow> netFn r < 64"
proof -
  assume "parseMessage m = Some r"
  then have "netFn r = drop_bit 2 (m ! 1)" by (auto simp: parseMessage_def split: if_splits)
  moreover have "uint (m ! 1) < 256" using uint_lt2p [of "m ! 1"] by simp
  ultimately show ?thesis by (simp add: word_less_def drop_bit_eq_div uint_div)
qed

lemma slice_mid: "slice (xs @ ys @ zs) (length xs) (length xs + length ys) = ys"
  by (simp add: slice_def)

lemma parse_frame:
  assumes "checksum [a, b] = c1" and "checksum ([x, y, z] @ d) = c2"
  shows "parseMessage ([a, b, c1] @ [x, y, z] @ d @ [c2]) =
    Some \<lparr>netFn = drop_bit 2 b, cmd = z, rqSeqLun = y, rqAddr = x, rsLun = b AND 3, rq_data = d\<rparr>"
proof -
  let ?m = "[a, b, c1] @ [x, y, z] @ d @ [c2]"
  have body: "slice ?m 3 (length ?m - 1) = [x, y, z] @ d" by (simp add: slice_def)
  have data: "slice ?m 6 (length ?m - 1) = d" by (simp add: slice_def)
  have at: "?m ! (length ?m - 1) = c2" by (simp add: nth_append)
  show ?thesis unfolding parseMessage_def body data at using assms by simp
qed

section \<open>Properties\<close>

text \<open>
  A reply is a well-formed message that answers its request: for every message the server parses,
  whatever the completion code and data, the reply parses back, to the response function number, with
  the logical units and the sequence number exchanged as IPMI asks, the command unchanged, and
  exactly the completion code and the data as payload.
\<close>

theorem reply_parses_back:
  assumes "parseMessage m = Some r"
  shows "parseMessage (reply r cc d) = Some \<lparr>netFn = netFn r OR 1, cmd = cmd r,
    rqSeqLun = (rqSeqLun r AND NOT 3) OR rsLun r, rqAddr = 0x20, rsLun = rqSeqLun r AND 3, rq_data = cc # d\<rparr>"
proof -
  define g where "g = netFn r OR 1"
  have bits: "\<not> bit g n" if "6 \<le> n" for n
    using small_word_bits [of "netFn r" 6 n] netFn_small [OF assms] that
    by (auto simp: g_def bit_simps word_less_def)
  have "parseMessage (reply r cc d) = Some \<lparr>netFn = drop_bit 2 (push_bit 2 g OR (rqSeqLun r AND 3)), cmd = cmd r,
      rqSeqLun = (rqSeqLun r AND NOT 3) OR rsLun r, rqAddr = 0x20,
      rsLun = (push_bit 2 g OR (rqSeqLun r AND 3)) AND 3, rq_data = cc # d\<rparr>"
    using parse_frame [OF refl refl, of "rqAddr r" "push_bit 2 g OR (rqSeqLun r AND 3)" "0x20"
      "(rqSeqLun r AND NOT 3) OR rsLun r" "cmd r" "cc # d"]
    unfolding reply_def Let_def g_def [symmetric] by (simp only: append.simps append_assoc)
  moreover have "drop_bit 2 (push_bit 2 g OR (rqSeqLun r AND 3)) = g"
    and "(push_bit 2 g OR (rqSeqLun r AND 3)) AND 3 = rqSeqLun r AND 3"
    using shift_join [of g, OF bits] by blast+
  ultimately show ?thesis unfolding g_def by metis
qed

theorem reply_parses_back_witness:
  "parseMessage [0x20, 0x18, 0xC8, 0x81, 0x04, 0x38, 0x0E, 0x04, 0x31] =
     Some \<lparr>netFn = 6, cmd = 0x38, rqSeqLun = 4, rqAddr = 0x81, rsLun = 0, rq_data = [0x0E, 0x04]\<rparr> \<and>
   parseMessage (reply \<lparr>netFn = 6, cmd = 0x38, rqSeqLun = 4, rqAddr = 0x81, rsLun = 0, rq_data = [0x0E, 0x04]\<rparr>
     ccOK [1, 2]) = Some \<lparr>netFn = 7, cmd = 0x38, rqSeqLun = 4, rqAddr = 0x20, rsLun = 0, rq_data = [0, 1, 2]\<rparr>"
proof -
  have p: "parseMessage [0x20, 0x18, 0xC8, 0x81, 0x04, 0x38, 0x0E, 0x04, 0x31] =
     Some \<lparr>netFn = 6, cmd = 0x38, rqSeqLun = 4, rqAddr = 0x81, rsLun = 0, rq_data = [0x0E, 0x04]\<rparr>"
    by (simp add: parseMessage_def checksum_def slice_def)
  with reply_parses_back [OF p, of ccOK "[1, 2]"] show ?thesis by simp
qed

text \<open>
  The confidentiality layer is lossless: with a cipher whose decryption inverts its
  encryption, decrypting an encrypted payload gives the payload back, for every payload (whole
  blocks and the empty one included), key and initialisation vector.
\<close>

theorem decrypt_encrypt:
  assumes "cbc_ok c" and "16 \<le> length key" and "length iv = 16"
  shows "decrypt c key (encrypt c key iv plain) = Some plain"
proof -
  let ?p = "pad_payload plain"
  have k: "length (take 16 key) = 16" using assms(2) by simp
  have "length (cbc_encrypt c (take 16 key) iv ?p) = length ?p"
    and dec: "cbc_decrypt c (take 16 key) iv (cbc_encrypt c (take 16 key) iv ?p) = ?p"
    using assms(1,3) k pad_dvd [of plain] by (auto simp: cbc_ok_def)
  then have len: "length (encrypt c key iv plain) = 16 + length ?p"
    using assms(3) by (simp add: encrypt_def)
  have "0 < length ?p" by (simp add: length_pad)
  then have "16 \<le> length ?p" using pad_dvd [of plain] by (auto dest: dvd_imp_le)
  moreover have "unat (last ?p) < 16" "unat (last ?p) + 1 \<le> length ?p"
    unfolding last_pad length_pad by simp_all
  moreover have "length (encrypt c key iv plain) mod 16 = 0"
    using pad_dvd [of plain] unfolding len by presburger
  ultimately show ?thesis
    using len dec assms(3) unpad [of plain] by (simp add: decrypt_def encrypt_def Let_def)
qed

theorem decrypt_encrypt_witness:
  "decrypt plain_crypto (replicate 20 7) (encrypt plain_crypto (replicate 20 7) (replicate 16 9) [1, 2, 3]) =
     Some [1, 2, 3]"
  by (rule decrypt_encrypt [OF plain_crypto_ok(1)]) simp_all

end
