(* ===== verification/Bounded_Table.thy ===== *)
theory Bounded_Table
  imports Prelude
begin

text \<open>
  Go maps as association lists with distinct keys, and the contract of a table that evicts to stay
  within a capacity. The IPMI login counters and the web login records interpret it.
\<close>

section \<open>Association lists\<close>

lemma length_update:
  "length (AList.update k v t) = (if k \<in> fst ` set t then length t else Suc (length t))"
  by (induction t) auto

lemma length_delete_le: "length (AList.delete k t) \<le> length t"
  by (induction t) (auto intro: le_SucI)

lemma length_delete: "k \<in> fst ` set t \<Longrightarrow> length (AList.delete k t) < length t"
  by (induction t) (auto simp: le_imp_less_Suc length_delete_le)

lemma set_delete: "set (AList.delete k t) \<subseteq> set t"
  by (induction t) auto

lemma set_update: "set (AList.update k v t) \<subseteq> insert (k, v) (set t)"
  by (induction t) auto

lemma map_of_none: "map_of t k = None \<longleftrightarrow> k \<notin> fst ` set t"
  by (simp add: map_of_eq_None_iff)

lemma distinct_filter_fst: "distinct (map fst t) \<Longrightarrow> distinct (map fst (filter P t))"
  by (induction t) auto

lemma map_of_update: "map_of (AList.update k v t) = (map_of t)(k \<mapsto> v)"
  by (simp add: update_conv')

lemma map_of_delete: "map_of (AList.delete k t) = (map_of t)(k := None)"
  by (simp add: delete_conv')

lemma map_of_filter_some:
  "distinct (map fst t) \<Longrightarrow> map_of (filter P t) k = Some v \<longleftrightarrow> map_of t k = Some v \<and> P (k, v)"
  by (simp add: map_of_eq_Some_iff distinct_filter_fst)

text \<open>Every entry of a filtered, updated or reduced table was one before, or is the new one.\<close>

lemma all_entries_update:
  "(\<forall>(i, x) \<in> set t. P i x) \<Longrightarrow> P k v \<Longrightarrow> \<forall>(i, x) \<in> set (AList.update k v t). P i x"
  using set_update [of k v t] by fastforce

lemma all_entries_delete: "(\<forall>(i, x) \<in> set t. P i x) \<Longrightarrow> \<forall>(i, x) \<in> set (AList.delete k t). P i x"
  using set_delete [of k t] by fastforce

lemmas table_simps = distinct_update distinct_delete map_of_update map_of_delete length_delete_le

section \<open>Tables with a capacity\<close>

locale bounded_table =
  fixes cap :: nat
    and evict :: "('k \<times> 'v) list \<Rightarrow> ('k \<times> 'v) list option"
  assumes evict_less: "evict t = Some t' \<Longrightarrow> length t' < length t"
    and evict_subset: "evict t = Some t' \<Longrightarrow> set t' \<subseteq> set t"
    and evict_distinct: "evict t = Some t' \<Longrightarrow> distinct (map fst t) \<Longrightarrow> distinct (map fst t')"
begin

text \<open>An insert that evicts when the key is new and the table is full keeps the table within its
  capacity, its keys distinct, and every other entry as it was or gone.\<close>

lemma insert_within:
  assumes "length t \<le> cap" and "distinct (map fst t)"
    and "r = t \<and> (map_of t k \<noteq> None \<or> length t < cap) \<or> evict t = Some r"
  shows "length (AList.update k v r) \<le> cap" and "distinct (map fst (AList.update k v r))"
    and "j \<noteq> k \<Longrightarrow> map_of (AList.update k v r) j = Some w \<Longrightarrow> map_of t j = Some w"
proof -
  have d: "distinct (map fst r)" using assms(2,3) evict_distinct by blast
  show "length (AList.update k v r) \<le> cap"
    using assms(1,3) evict_less [of t r] by (auto simp: length_update map_of_none)
  show "distinct (map fst (AList.update k v r))" using d by (simp add: distinct_update)
  have "set r \<subseteq> set t" using assms(3) evict_subset by blast
  then show "j \<noteq> k \<Longrightarrow> map_of (AList.update k v r) j = Some w \<Longrightarrow> map_of t j = Some w"
    using d assms(2) by (auto simp: map_of_update map_of_eq_Some_iff)
qed

end

end
