(* ===== verification/Ipmi_Server.thy ===== *)
theory Ipmi_Server
  imports Ipmi_Message Bounded_Table
begin

text \<open>
  The IPMI server of \<open>addons/ipmi/internal/ipmi/server.go\<close> and \<open>events.go\<close>: \<open>Handle\<close> answers one packet
  under \<open>s.mu\<close>. The two Go maps are association lists whose order is the order of iteration; the
  clock, the random numbers, the host's power state and the action channel are the environment of one
  packet. A source address is a structured \<open>net.UDPAddr\<close>.
\<close>

section \<open>Addresses\<close>

datatype ip = IP4 bytes | IP6 bytes string

record udp_addr =
  a_ip :: ip
  a_port :: nat

text \<open>The login counter's key: a host, or the first 8 bytes of an IPv6 address.\<close>

datatype client_key = KHost ip | KPrefix64 bytes

definition is_4in6 :: "bytes \<Rightarrow> bool" where
  "is_4in6 b \<longleftrightarrow> take 12 b = replicate 10 0 @ [0xFF, 0xFF]"

definition clientKey :: "udp_addr \<Rightarrow> client_key" where
  "clientKey a =
     (case a_ip a of
        IP4 b \<Rightarrow> KHost (IP4 b)
      | IP6 b zone \<Rightarrow> if is_4in6 b then KHost (IP6 b zone) else KPrefix64 (take 8 b))"

definition hostOf :: "udp_addr \<Rightarrow> client_key" where
  "hostOf a = KHost (a_ip a)"

section \<open>State\<close>

abbreviation privOperator :: byte where "privOperator \<equiv> 3"
abbreviation privAdmin :: byte where "privAdmin \<equiv> 4"
abbreviation maxSessions :: nat where "maxSessions \<equiv> 8"
abbreviation sessionTimeout :: duration where "sessionTimeout \<equiv> minute"
abbreviation pendingTimeout :: duration where "pendingTimeout \<equiv> 10 * second"
abbreviation maxFailures :: int where "maxFailures \<equiv> 20"
abbreviation failWindow :: duration where "failWindow \<equiv> minute"
abbreviation maxTracked :: nat where "maxTracked \<equiv> 1024"
abbreviation maxEvents :: nat where "maxEvents \<equiv> 32"

record session =
  managedID :: "32 word"
  consoleID :: "32 word"
  se_suite :: suite
  se_active :: bool
  maxPriv :: byte
  priv :: byte
  rm :: bytes
  rc :: bytes
  role :: byte
  se_name :: "bytes option"
  sik :: bytes
  k1 :: bytes
  k2 :: bytes
  seqOut :: "32 word"
  seqIn :: "32 word"
  seen :: "32 word"
  lastUsed :: time
  se_addr :: udp_addr

record failures =
  f_count :: int
  f_since :: time

datatype event_kind = Login bytes | Lockout int int

record Event =
  ev_seq :: "64 word"
  ev_kind :: event_kind
  ev_address :: client_key
  ev_at :: time

datatype power_action = ForceOff | PowerOn | PowerCycle | PowerReset | SoftOff

text \<open>\<open>queued\<close> is what has been sent on the \<open>actions\<close> channel.\<close>

record Server =
  Username :: bytes
  Password :: bytes
  GUID :: bytes
  FirmwareMajor :: byte
  FirmwareMinor :: byte
  lastExpire :: time
  sessions :: "(32 word \<times> session) list"
  failed :: "(client_key \<times> failures) list"
  queued :: "power_action list"
  lastCommand :: "(power_action \<times> time) option"
  events :: "Event list"
  eventSeq :: "64 word"

text \<open>
  What one packet meets: the clock, the draws of \<open>newID\<close>, the random challenge and initialisation
  vector, \<open>Power.Status\<close> (on and known) and \<open>Power.Available\<close> (power and reset), \<open>None\<close> being their
  errors, and whether the channel has room.
\<close>

record pkt_env =
  e_now :: time
  e_ids :: "32 word list"
  e_rc :: bytes
  e_iv :: "bytes option"
  e_status :: "(bool \<times> bool) option"
  e_avail :: "(bool \<times> bool) option"
  e_slot :: bool

section \<open>Events\<close>

definition push_event :: "time \<Rightarrow> event_kind \<Rightarrow> client_key \<Rightarrow> Server \<Rightarrow> Server" where
  "push_event now k a s =
     (let n = eventSeq s + 1;
          old = (if length (events s) = maxEvents then drop 1 (events s) else events s)
      in s\<lparr>eventSeq := n, events := old @ [\<lparr>ev_seq = n, ev_kind = k, ev_address = a, ev_at = now\<rparr>]\<rparr>)"

definition Events :: "64 word \<Rightarrow> Server \<Rightarrow> Event list \<times> 64 word" where
  "Events after s = (filter (\<lambda>e. after < ev_seq e) (events s), eventSeq s)"

section \<open>Login counters\<close>

fun oldest_failure :: "(client_key \<times> time) option \<Rightarrow> (client_key \<times> failures) list \<Rightarrow> (client_key \<times> time) option" where
  "oldest_failure acc [] = acc"
| "oldest_failure None ((h, f) # r) = oldest_failure (Some (h, f_since f)) r"
| "oldest_failure (Some (h0, t)) ((h, f) # r) =
     oldest_failure (if f_since f < t then Some (h, f_since f) else Some (h0, t)) r"

definition evictOldestFailure :: "(client_key \<times> failures) list \<Rightarrow> (client_key \<times> failures) list" where
  "evictOldestFailure fs =
     (case oldest_failure None fs of None \<Rightarrow> fs | Some (h, _) \<Rightarrow> AList.delete h fs)"

definition lockedOut :: "time \<Rightarrow> udp_addr \<Rightarrow> Server \<Rightarrow> bool \<times> Server" where
  "lockedOut now addr s =
     (let host = clientKey addr in
      case map_of (failed s) host of
        None \<Rightarrow> (False, s)
      | Some f \<Rightarrow>
          if time_sub now (f_since f) > failWindow then (False, s\<lparr>failed := AList.delete host (failed s)\<rparr>)
          else (f_count f \<ge> maxFailures, s))"

definition fresh_failure :: "time \<Rightarrow> failures option \<Rightarrow> bool" where
  "fresh_failure now f = (case f of None \<Rightarrow> True | Some f \<Rightarrow> time_sub now (f_since f) > failWindow)"

definition recordFailure :: "time \<Rightarrow> udp_addr \<Rightarrow> Server \<Rightarrow> Server" where
  "recordFailure now addr s =
     (let host = clientKey addr;
          old = map_of (failed s) host;
          room = (if old = None \<and> length (failed s) \<ge> maxTracked then evictOldestFailure (failed s) else failed s);
          f = (if fresh_failure now old then \<lparr>f_count = 0, f_since = now\<rparr> else the old);
          f = f\<lparr>f_count := f_count f + 1\<rparr>;
          s = s\<lparr>failed := AList.update host f room\<rparr>
      in if f_count f = maxFailures
         then push_event now (Lockout (f_count f) ((failWindow + minute - 1) div minute)) host s
         else s)"

section \<open>Expiry\<close>

definition expired :: "time \<Rightarrow> session \<Rightarrow> bool" where
  "expired now se \<longleftrightarrow> time_sub now (lastUsed se) > (if se_active se then sessionTimeout else pendingTimeout)"

definition expire :: "time \<Rightarrow> Server \<Rightarrow> Server" where
  "expire now s =
     (let live = filter (\<lambda>(h, f). \<not> time_sub now (f_since f) > failWindow) (failed s)
      in s\<lparr>failed := (evictOldestFailure ^^ (length live - maxTracked)) live,
           sessions := filter (\<lambda>(i, se). \<not> expired now se) (sessions s)\<rparr>)"

definition expireEvery :: "duration \<Rightarrow> time \<Rightarrow> Server \<Rightarrow> Server" where
  "expireEvery interval now s =
     (if time_sub now (lastExpire s) \<ge> interval \<or> now < lastExpire s
      then expire now (s\<lparr>lastExpire := now\<rparr>) else s)"

section \<open>Opening a session\<close>

definition preSession :: "byte \<Rightarrow> bytes \<Rightarrow> bytes" where
  "preSession ptype payload = rmcpHeader classIPMI @ [authTypeRMCP, ptype, 0, 0, 0, 0, 0, 0, 0, 0] @
     le16 (word_of_nat (length payload)) @ payload"

text \<open>The draws that are zero or taken are thrown away; \<open>None\<close> is a loop that has not ended.\<close>

definition newID :: "32 word list \<Rightarrow> Server \<Rightarrow> 32 word option" where
  "newID ids s = find (\<lambda>i. i \<noteq> 0 \<and> map_of (sessions s) i = None) ids"

fun oldest_pending :: "session option \<Rightarrow> (32 word \<times> session) list \<Rightarrow> session option" where
  "oldest_pending acc [] = acc"
| "oldest_pending acc ((i, se) # r) =
     oldest_pending
       (if \<not> se_active se \<and> (case acc of None \<Rightarrow> True | Some old \<Rightarrow> lastUsed se < lastUsed old) then Some se else acc) r"

definition new_session :: "32 word \<Rightarrow> 32 word \<Rightarrow> suite \<Rightarrow> byte \<Rightarrow> time \<Rightarrow> udp_addr \<Rightarrow> session" where
  "new_session mid cid su mp now addr = \<lparr>managedID = mid, consoleID = cid, se_suite = su, se_active = False,
     maxPriv = mp, priv = 0, rm = replicate 16 0, rc = replicate 16 0, role = 0, se_name = None,
     sik = [], k1 = [], k2 = [], seqOut = 0, seqIn = 0, seen = 0, lastUsed = now, se_addr = addr\<rparr>"

text \<open>The room for one more session, or \<open>None\<close> when all are established.\<close>

definition make_room :: "(32 word \<times> session) list \<Rightarrow> (32 word \<times> session) list option" where
  "make_room ss =
     (if length ss \<ge> maxSessions
      then map_option (\<lambda>old. AList.delete (managedID old) ss) (oldest_pending None ss)
      else Some ss)"

definition open_fail :: "bytes \<Rightarrow> byte \<Rightarrow> bytes" where
  "open_fail p status = preSession payloadOpenResponse ([p ! 0, status, 0, 0] @ le32 (le32_at p 4))"

definition open_suite :: "bytes \<Rightarrow> byte + suite" where
  "open_suite p =
     (if p ! 8 \<noteq> 0x00 \<or> p ! 16 \<noteq> 0x01 \<or> p ! 24 \<noteq> 0x02 then Inl 0x10
      else case suiteFor (p ! 12 AND 0x3F) (p ! 20 AND 0x3F) (p ! 28 AND 0x3F) of
        Some su \<Rightarrow> Inr su
      | None \<Rightarrow> if p ! 12 AND 0x3F \<noteq> authHMACSHA1 \<and> p ! 12 AND 0x3F \<noteq> authHMACSHA256 then Inl 0x10 else Inl 0x11)"

definition open_priv :: "bytes \<Rightarrow> byte" where
  "open_priv p = (let m = p ! 1 AND 0x0F in if m = 0 \<or> m > privAdmin then privAdmin else m)"

definition open_reply :: "bytes \<Rightarrow> session \<Rightarrow> bytes" where
  "open_reply p se = preSession payloadOpenResponse ([p ! 0, 0, maxPriv se, 0] @ le32 (consoleID se) @
     le32 (managedID se) @ [0x00, 0, 0, 0x08, su_auth (se_suite se), 0, 0, 0] @
     [0x01, 0, 0, 0x08, su_integrity (se_suite se), 0, 0, 0] @ [0x02, 0, 0, 0x08, confAESCBC128, 0, 0, 0])"

definition openSession :: "pkt_env \<Rightarrow> bytes \<Rightarrow> udp_addr \<Rightarrow> Server \<Rightarrow> (bytes option \<times> Server) option" where
  "openSession e p addr s =
     (if length p < 32 then Some (None, s)
      else case open_suite p of
        Inl status \<Rightarrow> Some (Some (open_fail p status), s)
      | Inr su \<Rightarrow>
          (case make_room (sessions s) of
             None \<Rightarrow> Some (Some (open_fail p 0x01), s)
           | Some ss \<Rightarrow>
               (case newID (e_ids e) (s\<lparr>sessions := ss\<rparr>) of
                  None \<Rightarrow> None
                | Some i \<Rightarrow>
                    (let se = new_session i (le32_at p 4) su (open_priv p) (e_now e) addr
                     in Some (Some (open_reply p se), s\<lparr>sessions := AList.update i se ss\<rparr>)))))"

section \<open>RAKP\<close>

definition userKey :: "Server \<Rightarrow> bytes" where
  "userKey s = take 20 (Password s @ replicate 20 0)"

definition name_bytes :: "session \<Rightarrow> bytes" where
  "name_bytes se = (case se_name se of None \<Rightarrow> [] | Some n \<Rightarrow> n)"

definition rakp_fail :: "byte \<Rightarrow> byte \<Rightarrow> byte \<Rightarrow> 32 word \<Rightarrow> bytes" where
  "rakp_fail ptype tag status cid = preSession ptype ([tag, status, 0, 0] @ le32 cid)"

definition drop_session :: "32 word \<Rightarrow> Server \<Rightarrow> Server" where
  "drop_session i s = s\<lparr>sessions := AList.delete i (sessions s)\<rparr>"

definition put_session :: "session \<Rightarrow> Server \<Rightarrow> Server" where
  "put_session se s = s\<lparr>sessions := AList.update (managedID se) se (sessions s)\<rparr>"

definition rakp2_code :: "crypto \<Rightarrow> Server \<Rightarrow> session \<Rightarrow> bytes" where
  "rakp2_code c s se = mac c (se_suite se) (userKey s) [le32 (consoleID se), le32 (managedID se), rm se, rc se,
     GUID s, [role se, word_of_nat (length (name_bytes se))], name_bytes se]"

text \<open>
  What message 1 says about the client, copied into the session. The session stays in the table only if the
  rest of the message is accepted, so it is stored once, at the end.
\<close>

definition rakp1_fill :: "bytes \<Rightarrow> session \<Rightarrow> session" where
  "rakp1_fill p se =
     (let name = slice p 28 (28 + unat (p ! 27))
      in se\<lparr>rm := slice p 8 24, role := p ! 24, se_name := (if name = [] then None else Some name)\<rparr>)"

text \<open>Message 1 once it names a pending session: the checks, the login counter, the answer.\<close>

definition rakp1_login :: "crypto \<Rightarrow> pkt_env \<Rightarrow> byte \<Rightarrow> udp_addr \<Rightarrow> session \<Rightarrow> Server \<Rightarrow> bytes option \<times> Server" where
  "rakp1_login c e tag addr se s =
     (let refuse = (\<lambda>status s. (Some (rakp_fail payloadRAKP2 tag status (consoleID se)), drop_session (managedID se) s));
          p = role se AND 0x0F
      in if p = 0 \<or> p > maxPriv se then refuse 0x09 s
         else case lockedOut (e_now e) addr s of
           (True, s) \<Rightarrow> refuse 0x0D s
         | (False, s) \<Rightarrow>
             (let s = recordFailure (e_now e) addr s
              in if name_bytes se \<noteq> Username s \<or> Password s = [] then refuse 0x0D s
                 else let se = se\<lparr>rc := e_rc e, lastUsed := e_now e\<rparr>
                      in (Some (preSession payloadRAKP2 ([tag, 0, 0, 0] @ le32 (consoleID se) @ rc se @ GUID s @
                            rakp2_code c s se)), put_session se s)))"

definition rakp1 :: "crypto \<Rightarrow> pkt_env \<Rightarrow> bytes \<Rightarrow> udp_addr \<Rightarrow> Server \<Rightarrow> bytes option \<times> Server" where
  "rakp1 c e p addr s =
     (if length p < 28 then (None, s)
      else let tag = p ! 0; mid = le32_at p 4 in
        case map_of (sessions s) mid of
          None \<Rightarrow> (Some (rakp_fail payloadRAKP2 tag 0x02 0), s)
        | Some se \<Rightarrow>
            if se_active se \<or> se_addr se \<noteq> addr then (Some (rakp_fail payloadRAKP2 tag 0x02 0), s)
            else if unat (p ! 27) > 16 \<or> length p < 28 + unat (p ! 27)
            then (Some (rakp_fail payloadRAKP2 tag 0x0D (consoleID se)), drop_session mid s)
            else rakp1_login c e tag addr (rakp1_fill p se) s)"

definition rakp3_code :: "crypto \<Rightarrow> Server \<Rightarrow> session \<Rightarrow> bytes" where
  "rakp3_code c s se = mac c (se_suite se) (userKey s) [rc se, le32 (consoleID se),
     [role se, word_of_nat (length (name_bytes se))], name_bytes se]"

definition establish :: "crypto \<Rightarrow> Server \<Rightarrow> time \<Rightarrow> session \<Rightarrow> session" where
  "establish c s now se =
     (let sk = mac c (se_suite se) (userKey s) [rm se, rc se, [role se, word_of_nat (length (name_bytes se))],
                 name_bytes se];
          ks = keys c (se_suite se) sk
      in se\<lparr>sik := sk, k1 := fst ks, k2 := snd ks, se_active := True, priv := role se AND 0x0F, lastUsed := now\<rparr>)"

definition rakp4_icv :: "crypto \<Rightarrow> Server \<Rightarrow> session \<Rightarrow> bytes" where
  "rakp4_icv c s se = take (rakp4Len (se_suite se)) (mac c (se_suite se) (sik se) [rm se, le32 (managedID se), GUID s])"

definition rakp3 :: "crypto \<Rightarrow> pkt_env \<Rightarrow> bytes \<Rightarrow> udp_addr \<Rightarrow> Server \<Rightarrow> bytes option \<times> Server" where
  "rakp3 c e p addr s =
     (if length p < 8 then (None, s)
      else let tag = p ! 0; mid = le32_at p 4 in
        case map_of (sessions s) mid of
          None \<Rightarrow> (Some (rakp_fail payloadRAKP4 tag 0x02 0), s)
        | Some se \<Rightarrow>
            if se_active se \<or> se_addr se \<noteq> addr \<or> se_name se = None
            then (Some (rakp_fail payloadRAKP4 tag 0x02 0), s)
            else if p ! 1 \<noteq> 0 then (None, drop_session mid s)
            else if drop 8 p \<noteq> rakp3_code c s se
            then (Some (rakp_fail payloadRAKP4 tag 0x0F (consoleID se)), recordFailure (e_now e) addr (drop_session mid s))
            else let se = establish c s (e_now e) se;
                     s = push_event (e_now e) (Login (name_bytes se)) (hostOf addr) (put_session se s)
                 in (Some (preSession payloadRAKP4 ([tag, 0, 0, 0] @ le32 (consoleID se) @ rakp4_icv c s se)), s))"

section \<open>Messages in a session\<close>

definition acceptSeq :: "32 word \<Rightarrow> session \<Rightarrow> bool \<times> session" where
  "acceptSeq seq se =
     (if seq = 0 then (False, se)
      else if seq > seqIn se then
        (let shift = seq - seqIn se;
             sn = (if shift \<ge> 32 then 0 else push_bit (unat shift) (seen se))
         in (True, se\<lparr>seen := sn OR 1, seqIn := seq\<rparr>))
      else if seqIn se - seq < 16 then
        (let b = push_bit (unat (seqIn se - seq)) 1
         in if seen se AND b \<noteq> 0 then (False, se) else (True, se\<lparr>seen := seen se OR b\<rparr>))
      else (False, se))"

definition control_action :: "byte \<Rightarrow> power_action option" where
  "control_action b =
     (let n = b AND 0x0F in
      if n = 0x00 then Some ForceOff
      else if n = 0x01 then Some PowerOn
      else if n = 0x02 then Some PowerCycle
      else if n = 0x03 then Some PowerReset
      else if n = 0x05 then Some SoftOff
      else None)"

definition chassisControl :: "pkt_env \<Rightarrow> session \<Rightarrow> request \<Rightarrow> Server \<Rightarrow> bytes \<times> Server" where
  "chassisControl e se req s =
     (if priv se < privOperator then (reply req ccInsufficientPriv [], s)
      else if length (rq_data req) < 1 then (reply req ccRequestTooShort [], s)
      else case control_action (rq_data req ! 0) of
        None \<Rightarrow> (reply req ccInvalidField [], s)
      | Some a \<Rightarrow>
          (case e_avail e of
             None \<Rightarrow> (reply req ccNotInThisState [], s)
           | Some (pw, rst) \<Rightarrow>
               if \<not> pw \<or> (rq_data req ! 0 AND 0x0F = 0x03 \<and> \<not> rst) then (reply req ccNotInThisState [], s)
               else if e_slot e
               then (reply req ccOK [], s\<lparr>queued := queued s @ [a], lastCommand := Some (a, e_now e)\<rparr>)
               else (reply req ccNodeBusy [], s)))"

definition set_privilege :: "session \<Rightarrow> request \<Rightarrow> bytes \<times> session" where
  "set_privilege se req =
     (if length (rq_data req) < 1 then (reply req ccRequestTooShort [], se)
      else let level = rq_data req ! 0 AND 0x0F
           in if level = 0 then (reply req ccOK [priv se], se)
              else if level > maxPriv se \<or> level > role se AND 0x0F then (reply req ccPrivExceeded [], se)
              else (reply req ccOK [level], se\<lparr>priv := level\<rparr>))"

definition chassis_status :: "pkt_env \<Rightarrow> request \<Rightarrow> bytes" where
  "chassis_status e req =
     (case e_status e of
        Some (on, True) \<Rightarrow> reply req ccOK [if on then 0x60 OR 0x01 else 0x60, 0x00, 0x00]
      | _ \<Rightarrow> reply req ccNotInThisState [])"

definition command :: "pkt_env \<Rightarrow> session \<Rightarrow> request \<Rightarrow> Server \<Rightarrow> bytes \<times> session \<times> Server" where
  "command e se req s =
     (if netFn req = netFnApp \<and> cmd req = 0x01 then
        (reply req ccOK [0x20, 0x01, FirmwareMajor s AND 0x7F, FirmwareMinor s, 0x02, 0x80, 0, 0, 0, 0, 0], se, s)
      else if netFn req = netFnApp \<and> cmd req = 0x38 then (reply req ccOK authCapabilities, se, s)
      else if netFn req = netFnApp \<and> cmd req = 0x54 then
        (case cipherSuites (rq_data req) of (cc, d) \<Rightarrow> (reply req cc d, se, s))
      else if netFn req = netFnApp \<and> cmd req = 0x3B then
        (case set_privilege se req of (m, se') \<Rightarrow> (m, se', s))
      else if netFn req = netFnApp \<and> cmd req = 0x3C then (reply req ccOK [], se, s)
      else if netFn req = netFnChassis \<and> cmd req = 0x01 then (chassis_status e req, se, s)
      else if netFn req = netFnChassis \<and> cmd req = 0x02 then
        (case chassisControl e se req s of (m, s') \<Rightarrow> (m, se, s'))
      else (reply req ccInvalidCommand [], se, s))"

definition seal_body :: "session \<Rightarrow> bytes \<Rightarrow> bytes" where
  "seal_body se payload =
     (let out = [authTypeRMCP, 0x00 OR 0x80 OR 0x40] @ le32 (consoleID se) @ le32 (seqOut se) @
            le16 (word_of_nat (length payload)) @ payload;
          pad = (4 - (length out + 2) mod 4) mod 4
      in out @ replicate pad 0xFF @ [word_of_nat pad, 0x07])"

definition sealed :: "crypto \<Rightarrow> pkt_env \<Rightarrow> session \<Rightarrow> bytes \<Rightarrow> bytes option \<times> session" where
  "sealed c e se msg =
     (case e_iv e of
        None \<Rightarrow> (None, se)
      | Some iv \<Rightarrow>
          (let payload = encrypt c (k2 se) iv msg;
               se = se\<lparr>seqOut := seqOut se + 1\<rparr>;
               out = seal_body se payload
           in (Some (rmcpHeader classIPMI @ out @ take (integLen (se_suite se)) (mac c (se_suite se) (k1 se) [out])), se)))"

definition packet_signed :: "crypto \<Rightarrow> session \<Rightarrow> bytes \<Rightarrow> nat \<Rightarrow> bool" where
  "packet_signed c se p len \<longleftrightarrow>
     (let n = integLen (se_suite se); signed = take (length p - n) p in
      p ! 1 AND 0x40 \<noteq> 0 \<and> p ! 1 AND 0x80 \<noteq> 0 \<and> 12 + len + 2 + n \<le> length p \<and>
      signed ! (length signed - 1) = 0x07 \<and>
      drop (length p - n) p = take n (mac c (se_suite se) (k1 se) [signed]))"

text \<open>A request that was signed, fresh and decrypted: the command runs, its reply is sealed.\<close>

definition answer :: "crypto \<Rightarrow> pkt_env \<Rightarrow> session \<Rightarrow> request \<Rightarrow> Server \<Rightarrow> bytes option \<times> Server" where
  "answer c e se req s =
     (case command e (se\<lparr>lastUsed := e_now e\<rparr>) req s of
        (msg, se, s) \<Rightarrow>
          (case sealed c e se msg of
             (out, se) \<Rightarrow>
               (out,
                if netFn req = netFnApp \<and> cmd req = 0x3C \<and> length (rq_data req) \<ge> 4 \<and>
                   le32_at (rq_data req) 0 = managedID se
                then drop_session (managedID se) (put_session se s) else put_session se s)))"

definition session_message ::
    "crypto \<Rightarrow> pkt_env \<Rightarrow> session \<Rightarrow> bytes \<Rightarrow> 32 word \<Rightarrow> nat \<Rightarrow> Server \<Rightarrow> bytes option \<times> Server" where
  "session_message c e se p seq len s =
     (if \<not> packet_signed c se p len then (None, s)
      else case acceptSeq seq se of
        (False, se) \<Rightarrow> (None, s)
      | (True, se) \<Rightarrow>
          (case decrypt c (k2 se) (slice p 12 (12 + len)) of
             None \<Rightarrow> (None, put_session se s)
           | Some plain \<Rightarrow>
               (case parseMessage plain of
                  None \<Rightarrow> (None, put_session se s)
                | Some req \<Rightarrow> answer c e se req s)))"

section \<open>Packets\<close>

definition pre_reply :: "request \<Rightarrow> bytes" where
  "pre_reply req =
     (if cmd req = 0x38 then reply req ccOK authCapabilities
      else if cmd req = 0x54 then (case cipherSuites (rq_data req) of (cc, d) \<Rightarrow> reply req cc d)
      else reply req ccInsufficientPriv [])"

definition preSessionMessage :: "bytes \<Rightarrow> bytes option" where
  "preSessionMessage p =
     (case parseMessage p of
        None \<Rightarrow> None
      | Some req \<Rightarrow> if netFn req \<noteq> netFnApp then None else Some (preSession payloadIPMI (pre_reply req)))"

definition v15 :: "bytes \<Rightarrow> bytes option" where
  "v15 p =
     (if length p < 10 \<or> be32_at p 5 \<noteq> 0 then None
      else if length p < 10 + unat (p ! 9) then None
      else case parseMessage (slice p 10 (10 + unat (p ! 9))) of
        None \<Rightarrow> None
      | Some req \<Rightarrow>
          if netFn req \<noteq> netFnApp then None
          else Some (rmcpHeader classIPMI @ [authTypeNone, 0, 0, 0, 0, 0, 0, 0, 0,
                 word_of_nat (length (pre_reply req))] @ pre_reply req))"

definition asf :: "bytes \<Rightarrow> bytes option" where
  "asf msg =
     (if length msg < 8 \<or> be32_at msg 0 \<noteq> 4542 \<or> msg ! 4 \<noteq> 0x80 then None
      else Some (rmcpHeader classASF @ [0x00, 0x00, 0x11, 0xBE, 0x40, msg ! 5, 0x00, 0x10] @
             [0x00, 0x00, 0x11, 0xBE, 0, 0, 0, 0, 0x81, 0x00, 0, 0, 0, 0, 0, 0]))"

definition v20 :: "crypto \<Rightarrow> pkt_env \<Rightarrow> bytes \<Rightarrow> udp_addr \<Rightarrow> Server \<Rightarrow> (bytes option \<times> Server) option" where
  "v20 c e p addr s =
     (if length p < 12 then Some (None, s)
      else let ptype = p ! 1 AND 0x3F; sid = le32_at p 2; seq = le32_at p 6; len = unat (le16_at p 10) in
        if length p < 12 + len then Some (None, s)
        else let payload = slice p 12 (12 + len); s = expireEvery second (e_now e) s in
          if ptype = payloadOpenRequest then openSession e payload addr s
          else if ptype = payloadRAKP1 then Some (rakp1 c e payload addr s)
          else if ptype = payloadRAKP3 then Some (rakp3 c e payload addr s)
          else if ptype = payloadIPMI then
            (if sid = 0 then Some (preSessionMessage payload, s)
             else case map_of (sessions s) sid of
               None \<Rightarrow> Some (None, s)
             | Some se \<Rightarrow>
                 if \<not> se_active se \<or> se_addr se \<noteq> addr then Some (None, s)
                 else Some (session_message c e se p seq len s))
          else Some (None, s))"

definition Handle :: "crypto \<Rightarrow> pkt_env \<Rightarrow> bytes \<Rightarrow> udp_addr \<Rightarrow> Server \<Rightarrow> (bytes option \<times> Server) option" where
  "Handle c e pkt addr s =
     (if length pkt < 5 \<or> pkt ! 0 \<noteq> rmcpVersion then Some (None, s)
      else let cls = pkt ! 3 AND 0x1F in
        if cls = classASF then Some (asf (drop 4 pkt), s)
        else if cls = classIPMI then
          (if pkt ! 4 = authTypeNone then Some (v15 (drop 4 pkt), s)
           else if pkt ! 4 = authTypeRMCP then v20 c e (drop 4 pkt) addr s
           else Some (None, s))
        else Some (None, s))"

record Stats =
  st_sessions :: nat
  st_lockedOut :: nat
  st_lastCommand :: "(power_action \<times> time) option"

definition get_Stats :: "time \<Rightarrow> Server \<Rightarrow> Stats" where
  "get_Stats now s = \<lparr>
     st_sessions = length (filter (\<lambda>(i, se). se_active se \<and> time_sub now (lastUsed se) \<le> sessionTimeout) (sessions s)),
     st_lockedOut = length (filter (\<lambda>(h, f). f_count f \<ge> maxFailures \<and> time_sub now (f_since f) \<le> failWindow) (failed s)),
     st_lastCommand = lastCommand s\<rparr>"

section \<open>The replay window\<close>

text \<open>The sequence numbers a session accepts out of a list of arrivals.\<close>

fun accepted :: "32 word list \<Rightarrow> session \<Rightarrow> 32 word list" where
  "accepted [] se = []"
| "accepted (q # qs) se = (case acceptSeq q se of (ok, se') \<Rightarrow> (if ok then [q] else []) @ accepted qs se')"

text \<open>Every number accepted so far is at most the highest, and marked if the window reaches it.\<close>

definition window_ok :: "32 word set \<Rightarrow> session \<Rightarrow> bool" where
  "window_ok A se \<longleftrightarrow> (\<forall>q \<in> A. q \<le> seqIn se \<and> q \<noteq> 0 \<and>
     (unat (seqIn se) - unat q < 32 \<longrightarrow> bit (seen se) (unat (seqIn se) - unat q)))"

section \<open>Invariants\<close>

text \<open>
  A session is stored under its own number, never exceeds the privileges asked for when it was
  opened, and has a name only after a message 1 that named the configured user.
\<close>

definition session_ok :: "Server \<Rightarrow> 32 word \<Rightarrow> session \<Rightarrow> bool" where
  "session_ok s i se \<longleftrightarrow> managedID se = i \<and> i \<noteq> 0 \<and> maxPriv se \<le> privAdmin \<and>
     (\<forall>n. se_name se = Some n \<longrightarrow> n = Username s \<and> Password s \<noteq> [] \<and> role se AND 0x0F \<le> maxPriv se) \<and>
     (se_active se \<longrightarrow> se_name se \<noteq> None \<and> priv se \<le> role se AND 0x0F)"

definition server_ok :: "Server \<Rightarrow> bool" where
  "server_ok s \<longleftrightarrow> distinct (map fst (sessions s)) \<and> length (sessions s) \<le> maxSessions \<and>
     (\<forall>(i, se) \<in> set (sessions s). session_ok s i se) \<and>
     distinct (map fst (failed s)) \<and> length (failed s) \<le> maxTracked \<and> length (events s) \<le> maxEvents"

text \<open>What a message in a session may change of it.\<close>

definition same_login :: "session \<Rightarrow> session \<Rightarrow> bool" where
  "same_login se se' \<longleftrightarrow> managedID se' = managedID se \<and> maxPriv se' = maxPriv se \<and> se_name se' = se_name se \<and>
     role se' = role se \<and> se_active se' = se_active se \<and> se_addr se' = se_addr se \<and>
     (priv se' = priv se \<or> (priv se' \<le> maxPriv se \<and> priv se' \<le> role se AND 0x0F))"

section \<open>Lemmas\<close>

subsection \<open>The replay window\<close>

lemma seen_bit: "w AND 2 ^ n = (0 :: 32 word) \<longleftrightarrow> \<not> (n < 32 \<and> bit w n)"
  by (auto simp: bit_eq_iff [where 'a = "32 word"] bit_simps)

lemma acceptSeq_cases:
  assumes "acceptSeq q se = (ok, se')"
  obtains "\<not> ok" and "se' = se"
  | "ok" and "q \<noteq> 0" and "seqIn se < q" and "seqIn se' = q"
    and "\<And>n. n < 32 \<Longrightarrow> bit (seen se') n \<longleftrightarrow> n = 0 \<or>
       (unat q - unat (seqIn se) \<le> n \<and> bit (seen se) (n - (unat q - unat (seqIn se))))"
  | "ok" and "q \<noteq> 0" and "q \<le> seqIn se" and "unat (seqIn se) - unat q < 16"
    and "\<not> bit (seen se) (unat (seqIn se) - unat q)" and "seqIn se' = seqIn se"
    and "\<And>n. bit (seen se') n \<longleftrightarrow> bit (seen se) n \<or> n = unat (seqIn se) - unat q"
proof -
  consider "q = 0 \<or> (\<not> seqIn se < q \<and> \<not> seqIn se - q < 16)" | "q \<noteq> 0" "seqIn se < q"
    | "q \<noteq> 0" "\<not> seqIn se < q" "seqIn se - q < 16" by blast
  then show ?thesis
  proof cases
    case 1
    with assms have "ok = False \<and> se' = se" by (auto simp: acceptSeq_def split: if_split_asm)
    with that(1) show ?thesis by simp
  next
    case 2
    then have d: "unat (q - seqIn se) = unat q - unat (seqIn se)"
      by (simp add: unat_sub less_imp_le)
    have big: "q - seqIn se \<ge> 32 \<longleftrightarrow> unat q - unat (seqIn se) \<ge> 32"
      by (simp add: word_le_nat_alt d)
    have "0 < unat q - unat (seqIn se)" using 2(2) by (simp add: word_less_nat_alt)
    with assms 2 d big show ?thesis
      by (intro that(2)) (auto simp: acceptSeq_def Let_def bit_simps split: if_splits)
  next
    case 3
    then have le: "q \<le> seqIn se" by simp
    then have d: "unat (seqIn se - q) = unat (seqIn se) - unat q" by (simp add: unat_sub)
    have "unat (seqIn se) - unat q < 16" using 3(3) by (simp add: word_less_nat_alt flip: d)
    with assms 3 le d show ?thesis
      by (cases "bit (seen se) (unat (seqIn se) - unat q)")
        (auto simp: acceptSeq_def Let_def seen_bit bit_simps intro: that split: if_splits)
  qed
qed

lemma window_step:
  assumes "acceptSeq q se = (ok, se')" and w: "window_ok A se"
  shows "window_ok (if ok then insert q A else A) se' \<and> (ok \<longrightarrow> q \<notin> A)"
  using assms(1)
proof (cases rule: acceptSeq_cases)
  case 2
  note new = this
  have le: "unat x \<le> unat (seqIn se)" if "x \<in> A" for x
    using w that by (simp add: window_ok_def word_le_nat_alt)
  have lt: "unat (seqIn se) < unat q" using new(3) by (simp add: word_less_nat_alt)
  have "x \<le> q \<and> x \<noteq> 0 \<and> (unat q - unat x < 32 \<longrightarrow> bit (seen se') (unat q - unat x))" if "x \<in> A" for x
  proof -
    have "unat q - unat x - (unat q - unat (seqIn se)) = unat (seqIn se) - unat x"
      using le [OF that] lt by simp
    then show ?thesis using w that le [OF that] lt new(5) [of "unat q - unat x"]
      by (auto simp: window_ok_def word_le_nat_alt)
  qed
  then have "window_ok (if ok then insert q A else A) se'"
    using new(1,2,4) new(5) [of 0] by (auto simp: window_ok_def)
  moreover have "q \<notin> A" using le [of q] lt by auto
  ultimately show ?thesis by simp
next
  case 3
  note old = this
  from w old show ?thesis unfolding window_ok_def by auto
qed (use w in simp)

lemma accepted_distinct:
  assumes "window_ok A se"
  shows "distinct (accepted qs se) \<and> set (accepted qs se) \<inter> A = {} \<and> 0 \<notin> set (accepted qs se)"
  using assms
proof (induction qs arbitrary: A se)
  case (Cons q qs)
  obtain ok se' where a: "acceptSeq q se = (ok, se')" by (metis surj_pair)
  note w = window_step [OF a Cons.prems, THEN conjunct1] window_step [OF a Cons.prems, THEN conjunct2]
  have "ok \<Longrightarrow> q \<noteq> 0" using a by (cases rule: acceptSeq_cases) auto
  with Cons.IH [OF w(1)] w(2) a show ?case by (auto split: if_splits)
qed simp

subsection \<open>Tables\<close>

lemma oldest_failure_mem:
  "oldest_failure acc fs = Some (h, t) \<Longrightarrow> acc = Some (h, t) \<or> h \<in> fst ` set fs"
  by (induction acc fs rule: oldest_failure.induct) (auto split: if_splits)

lemma oldest_failure_none: "oldest_failure acc fs = None \<longleftrightarrow> acc = None \<and> fs = []"
  by (induction acc fs rule: oldest_failure.induct) auto

lemma evict_failure:
  "fs \<noteq> [] \<Longrightarrow> length (evictOldestFailure fs) < length fs"
  "set (evictOldestFailure fs) \<subseteq> set fs"
  "distinct (map fst fs) \<Longrightarrow> distinct (map fst (evictOldestFailure fs))"
proof -
  have mem: "h \<in> fst ` set fs" if "oldest_failure None fs = Some (h, t)" for h t
    using oldest_failure_mem [OF that] by simp
  show "fs \<noteq> [] \<Longrightarrow> length (evictOldestFailure fs) < length fs"
    using oldest_failure_none [of None fs] mem
    by (auto simp: evictOldestFailure_def split: option.splits intro!: length_delete)
  show "set (evictOldestFailure fs) \<subseteq> set fs"
    using set_delete by (fastforce simp: evictOldestFailure_def split: option.splits)
  show "distinct (map fst fs) \<Longrightarrow> distinct (map fst (evictOldestFailure fs))"
    by (auto simp: evictOldestFailure_def distinct_delete split: option.splits)
qed

interpretation logins: bounded_table maxTracked "\<lambda>fs. if fs = [] then None else Some (evictOldestFailure fs)"
  by unfold_locales (auto simp: evict_failure split: if_splits dest: evict_failure(2) [THEN subsetD])

lemma evict_n:
  "distinct (map fst fs) \<Longrightarrow> distinct (map fst ((evictOldestFailure ^^ n) fs)) \<and>
     length ((evictOldestFailure ^^ n) fs) \<le> length fs - n"
proof (induction n)
  case (Suc n)
  let ?t = "(evictOldestFailure ^^ n) fs"
  have "length (evictOldestFailure ?t) \<le> length ?t - 1"
    using evict_failure(1) [of ?t] by (cases "?t = []") (auto simp: evictOldestFailure_def)
  with Suc evict_failure(3) show ?case by force
qed simp

text \<open>An eviction does not happen for a client that has a counter.\<close>

lemma recordFailure_frame [simp]:
  "sessions (recordFailure now a s) = sessions s" "queued (recordFailure now a s) = queued s"
  "Username (recordFailure now a s) = Username s" "Password (recordFailure now a s) = Password s"
  "GUID (recordFailure now a s) = GUID s"
  by (simp_all add: recordFailure_def push_event_def Let_def)

lemma push_event_frame [simp]:
  "sessions (push_event now k a s) = sessions s" "queued (push_event now k a s) = queued s"
  "failed (push_event now k a s) = failed s"
  "Username (push_event now k a s) = Username s" "Password (push_event now k a s) = Password s"
  by (simp_all add: push_event_def Let_def)

lemma push_event_events: "length (events s) \<le> maxEvents \<Longrightarrow> length (events (push_event now k a s)) \<le> maxEvents"
  by (simp add: push_event_def Let_def)

lemma recordFailure_ok:
  assumes "distinct (map fst (failed s))" and "length (failed s) \<le> maxTracked" and "length (events s) \<le> maxEvents"
  shows "distinct (map fst (failed (recordFailure now a s))) \<and> length (failed (recordFailure now a s)) \<le> maxTracked \<and>
    length (events (recordFailure now a s)) \<le> maxEvents"
proof -
  let ?k = "clientKey a"
  let ?r = "if map_of (failed s) ?k = None \<and> length (failed s) \<ge> maxTracked
     then evictOldestFailure (failed s) else failed s"
  have "?r = failed s \<and> (map_of (failed s) ?k \<noteq> None \<or> length (failed s) < maxTracked) \<or>
     (if failed s = [] then None else Some (evictOldestFailure (failed s))) = Some ?r" by auto
  note i = logins.insert_within(1,2) [OF assms(2,1) this]
  have "failed (recordFailure now a s) = AList.update ?k f ?r \<Longrightarrow> ?thesis" for f
    using i [of f] assms(3) push_event_events
    by (auto simp: recordFailure_def Let_def)
  then show ?thesis by (auto simp: recordFailure_def Let_def split: if_splits)
qed

subsection \<open>The invariant of the server\<close>

lemma session_ok_cong: "Username t = Username s \<Longrightarrow> Password t = Password s \<Longrightarrow> session_ok t = session_ok s"
  by (intro ext) (simp add: session_ok_def)

lemma server_ok_session:
  assumes "server_ok s" and "map_of (sessions s) i = Some se"
  shows "session_ok s i se" and "managedID se = i" and "i \<in> fst ` set (sessions s)"
proof -
  have m: "(i, se) \<in> set (sessions s)" using assms(2) by (rule map_of_SomeD)
  with assms(1) show "session_ok s i se" by (auto simp: server_ok_def)
  then show "managedID se = i" by (simp add: session_ok_def)
  show "i \<in> fst ` set (sessions s)" using m by force
qed

lemma server_ok_update:
  assumes "server_ok s" and "session_ok s i se" and "i \<in> fst ` set (sessions s) \<or> length (sessions s) < maxSessions"
  shows "server_ok (s\<lparr>sessions := AList.update i se (sessions s)\<rparr>)"
proof -
  have "\<forall>(j, x) \<in> set (AList.update i se (sessions s)). session_ok s j x"
    using assms(1,2) by (intro all_entries_update) (auto simp: server_ok_def)
  moreover have "session_ok (s\<lparr>sessions := z\<rparr>) = session_ok s" for z by (rule session_ok_cong) simp_all
  ultimately show ?thesis using assms(1,3) by (auto simp: server_ok_def distinct_update length_update)
qed

lemma server_ok_put:
  assumes "server_ok s" and "map_of (sessions s) i = Some old" and "session_ok s i se"
  shows "server_ok (put_session se s)"
proof -
  have "managedID se = i" using assms(3) by (simp add: session_ok_def)
  with server_ok_update [OF assms(1,3)] server_ok_session(3) [OF assms(1,2)] show ?thesis
    by (simp add: put_session_def)
qed

lemma server_ok_drop: "server_ok s \<Longrightarrow> server_ok (drop_session i s)"
proof -
  assume ok: "server_ok s"
  have "\<forall>(j, x) \<in> set (AList.delete i (sessions s)). session_ok s j x"
    by (rule all_entries_delete) (use ok in \<open>auto simp: server_ok_def\<close>)
  moreover have "session_ok (s\<lparr>sessions := z\<rparr>) = session_ok s" for z by (rule session_ok_cong) simp_all
  moreover have "length (AList.delete i (sessions s)) \<le> maxSessions"
    using ok length_delete_le [of i "sessions s"] by (auto simp: server_ok_def)
  ultimately show ?thesis using ok by (simp add: server_ok_def drop_session_def distinct_delete)
qed

text \<open>What leaves the sessions and the account alone.\<close>

lemma server_ok_frame:
  assumes "server_ok s" and "sessions t = sessions s" and "Username t = Username s" and "Password t = Password s"
    and "distinct (map fst (failed t))" and "length (failed t) \<le> maxTracked" and "length (events t) \<le> maxEvents"
  shows "server_ok t"
  using assms session_ok_cong [OF assms(3,4)] by (simp add: server_ok_def)

lemma server_ok_record: "server_ok s \<Longrightarrow> server_ok (recordFailure now a s)"
  by (rule server_ok_frame [of s]) (use recordFailure_ok [of s now a] in \<open>auto simp: server_ok_def\<close>)

lemma server_ok_event: "server_ok s \<Longrightarrow> server_ok (push_event now k a s)"
  by (rule server_ok_frame [of s]) (use push_event_events [of s] in \<open>auto simp: server_ok_def\<close>)

lemma lockedOut_cases:
  assumes "lockedOut now a s = (b, s')"
  obtains "s' = s" and "b \<longleftrightarrow> (\<exists>f. map_of (failed s) (clientKey a) = Some f \<and> maxFailures \<le> f_count f \<and>
       time_sub now (f_since f) \<le> failWindow)"
  | "\<not> b" and "s' = s\<lparr>failed := AList.delete (clientKey a) (failed s)\<rparr>"
    and "\<exists>f. map_of (failed s) (clientKey a) = Some f \<and> failWindow < time_sub now (f_since f)"
  using assms by (auto simp: lockedOut_def Let_def split: option.splits if_splits)

lemma server_ok_locked:
  assumes "server_ok s" and "lockedOut now a s = (b, s')"
  shows "server_ok s'"
  using assms(2)
proof (cases rule: lockedOut_cases)
  case 2
  show ?thesis
    by (rule server_ok_frame [OF assms(1)])
      (use 2(2) assms(1) length_delete_le [of "clientKey a" "failed s"] in
        \<open>auto simp: server_ok_def distinct_delete\<close>)
qed (use assms(1) in simp)

lemma lockedOut_frame:
  "lockedOut now a s = (b, s') \<Longrightarrow> sessions s' = sessions s \<and> queued s' = queued s \<and> Username s' = Username s \<and>
     Password s' = Password s \<and> GUID s' = GUID s"
  by (auto elim!: lockedOut_cases)

lemma expire_frame [simp]:
  "queued (expireEvery d now s) = queued s" "Username (expireEvery d now s) = Username s"
  "Password (expireEvery d now s) = Password s"
  by (simp_all add: expireEvery_def expire_def Let_def)

lemma server_ok_expire: "server_ok s \<Longrightarrow> server_ok (expireEvery d now s)"
proof -
  assume ok: "server_ok s"
  let ?live = "filter (\<lambda>(h, f). \<not> time_sub now (f_since f) > failWindow) (failed s)"
  have "distinct (map fst ?live)" using ok by (simp add: server_ok_def distinct_filter_fst)
  note e = evict_n [OF this, of "length ?live - maxTracked"]
  have "length ?live \<le> length (failed s)" by simp
  with e ok have f: "length ((evictOldestFailure ^^ (length ?live - maxTracked)) ?live) \<le> maxTracked"
    by (auto simp: server_ok_def)
  have l: "length (filter (\<lambda>(i, se). \<not> expired now se) (sessions s)) \<le> maxSessions"
    by (rule le_trans [OF length_filter_le]) (use ok in \<open>simp add: server_ok_def\<close>)
  from ok e f l show ?thesis
    by (auto simp: expireEvery_def expire_def Let_def server_ok_def distinct_filter_fst
        session_ok_cong [of "s\<lparr>lastExpire := now, failed := _, sessions := _\<rparr>" s])
qed

lemma oldest_pending_mem:
  "oldest_pending acc ss = Some se \<Longrightarrow> acc = Some se \<or> (\<exists>i. (i, se) \<in> set ss \<and> \<not> se_active se)"
  by (induction acc ss rule: oldest_pending.induct) (auto split: if_splits)

text \<open>Room is made by dropping a login left halfway, never an established session.\<close>

lemma make_room_cases:
  assumes "make_room (sessions s) = Some ss" and "server_ok s"
  obtains "ss = sessions s" and "length ss < maxSessions"
  | i se where "(i, se) \<in> set (sessions s)" and "\<not> se_active se" and "ss = AList.delete i (sessions s)"
    and "length ss < maxSessions"
proof (cases "length (sessions s) \<ge> maxSessions")
  case True
  then obtain old where o: "oldest_pending None (sessions s) = Some old"
    and ss: "ss = AList.delete (managedID old) (sessions s)"
    using assms(1) by (auto simp: make_room_def)
  from oldest_pending_mem [OF o] obtain i where i: "(i, old) \<in> set (sessions s)" "\<not> se_active old" by auto
  then have m: "managedID old = i" using assms(2) by (auto simp: server_ok_def session_ok_def)
  have "i \<in> fst ` set (sessions s)" using i(1) by force
  then have "length ss < length (sessions s)" using ss m by (simp add: length_delete)
  then have "length ss < maxSessions" using assms(2) by (auto simp: server_ok_def)
  with that(2) i ss m show ?thesis by simp
next
  case False
  with assms(1) that(1) show ?thesis by (auto simp: make_room_def)
qed

lemma newID_new: "newID ids s = Some i \<Longrightarrow> i \<noteq> 0 \<and> map_of (sessions s) i = None"
  by (auto simp: newID_def find_Some_iff)

lemma openSession_cases:
  assumes "openSession e p a s = Some (r, s')"
  obtains "s' = s"
  | ss i su where "make_room (sessions s) = Some ss" and "newID (e_ids e) (s\<lparr>sessions := ss\<rparr>) = Some i"
    and "s' = s\<lparr>sessions := AList.update i (new_session i (le32_at p 4) su (open_priv p) (e_now e) a) ss\<rparr>"
proof -
  consider "length p < 32 \<or> (\<exists>st. open_suite p = Inl st) \<or> make_room (sessions s) = None"
    | su ss where "\<not> length p < 32" "open_suite p = Inr su" "make_room (sessions s) = Some ss"
    by (cases "open_suite p"; cases "make_room (sessions s)") auto
  then show ?thesis
  proof cases
    case 1
    with assms have "s' = s" unfolding openSession_def by (auto split: if_splits sum.splits)
    then show ?thesis by (rule that(1))
  next
    case (2 su ss)
    with assms show ?thesis
      by (cases "newID (e_ids e) (s\<lparr>sessions := ss\<rparr>)")
        (simp_all add: openSession_def Let_def that(2) [OF 2(3), of _ su])
  qed
qed

lemma open_priv_le: "open_priv p \<le> privAdmin"
  by (auto simp: open_priv_def Let_def)

lemma server_ok_open:
  assumes "openSession e p a s = Some (r, s')" and "server_ok s"
  shows "server_ok s'"
  using assms(1)
proof (cases rule: openSession_cases)
  case (2 ss i su)
  have ok: "server_ok (s\<lparr>sessions := ss\<rparr>)" and len: "length ss < maxSessions"
    using make_room_cases [OF 2(1) assms(2)] server_ok_drop [OF assms(2), unfolded drop_session_def] assms(2)
    by (metis (no_types) Server.surjective Server.update_convs(7))+
  have "session_ok (s\<lparr>sessions := ss\<rparr>) i (new_session i (le32_at p 4) su (open_priv p) (e_now e) a)"
    using newID_new [OF 2(2)] open_priv_le by (simp add: session_ok_def new_session_def)
  from server_ok_update [OF ok this] len 2(3) show ?thesis by simp
qed (use assms(2) in simp)

lemma rakp1_login_cases:
  assumes "rakp1_login c e tag a se s = (r, s')"
  obtains s1 status where "s1 = s \<or> (\<exists>b. lockedOut (e_now e) a s = (b, s1)) \<or>
       (\<exists>s0. lockedOut (e_now e) a s = (False, s0) \<and> s1 = recordFailure (e_now e) a s0)"
    and "s' = drop_session (managedID se) s1" and "status \<noteq> 0"
    and "r = Some (rakp_fail payloadRAKP2 tag status (consoleID se))"
  | s0 where "lockedOut (e_now e) a s = (False, s0)" and "name_bytes se = Username s0" and "Password s0 \<noteq> []"
    and "role se AND 0x0F \<le> maxPriv se" and "role se AND 0x0F \<noteq> 0"
    and "s' = put_session (se\<lparr>rc := e_rc e, lastUsed := e_now e\<rparr>) (recordFailure (e_now e) a s0)"
proof -
  obtain b s0 where l: "lockedOut (e_now e) a s = (b, s0)" by (metis surj_pair)
  consider "role se AND 0x0F = 0 \<or> maxPriv se < role se AND 0x0F"
    | "role se AND 0x0F \<noteq> 0" "\<not> maxPriv se < role se AND 0x0F" "b"
    | "role se AND 0x0F \<noteq> 0" "\<not> maxPriv se < role se AND 0x0F" "\<not> b"
      "name_bytes se \<noteq> Username s0 \<or> Password s0 = []"
    | "role se AND 0x0F \<noteq> 0" "\<not> maxPriv se < role se AND 0x0F" "\<not> b"
      "name_bytes se = Username s0" "Password s0 \<noteq> []"
    by fastforce
  then show ?thesis
  proof cases
    case 1
    with assms show ?thesis by (intro that(1) [of s 9]) (auto simp: rakp1_login_def Let_def)
  next
    case 2
    with assms l show ?thesis by (intro that(1) [of s0 13]) (auto simp: rakp1_login_def Let_def)
  next
    case 3
    with assms l show ?thesis
      by (intro that(1) [of "recordFailure (e_now e) a s0" 13]) (auto simp: rakp1_login_def Let_def)
  next
    case 4
    with assms l show ?thesis by (intro that(2) [of s0]) (auto simp: rakp1_login_def Let_def)
  qed
qed

lemma rakp1_cases:
  assumes "rakp1 c e p a s = (r, s')"
  obtains "s' = s"
  | se where "map_of (sessions s) (le32_at p 4) = Some se" and "\<not> se_active se" and "se_addr se = a"
    and "s' = drop_session (le32_at p 4) s"
  | se where "map_of (sessions s) (le32_at p 4) = Some se" and "\<not> se_active se" and "se_addr se = a"
    and "rakp1_login c e (p ! 0) a (rakp1_fill p se) s = (r, s')"
proof -
  consider "length p < 28 \<or> map_of (sessions s) (le32_at p 4) = None"
    | se where "\<not> length p < 28" "map_of (sessions s) (le32_at p 4) = Some se" "se_active se \<or> se_addr se \<noteq> a"
    | se where "\<not> length p < 28" "map_of (sessions s) (le32_at p 4) = Some se" "\<not> se_active se" "se_addr se = a"
    by (cases "map_of (sessions s) (le32_at p 4)") auto
  then show ?thesis
  proof cases
    case 1
    with assms that(1) show ?thesis by (auto simp: rakp1_def Let_def split: if_splits)
  next
    case (2 se)
    with assms that(1) show ?thesis by (auto simp: rakp1_def Let_def)
  next
    case (3 se)
    with assms that(2,3) [OF 3(2-4)] show ?thesis by (simp add: rakp1_def Let_def split: if_splits)
  qed
qed

lemma rakp1_fill_frame [simp]:
  "managedID (rakp1_fill p se) = managedID se" "maxPriv (rakp1_fill p se) = maxPriv se"
  "se_active (rakp1_fill p se) = se_active se" "se_addr (rakp1_fill p se) = se_addr se"
  "consoleID (rakp1_fill p se) = consoleID se"
  by (simp_all add: rakp1_fill_def Let_def)

lemma server_ok_login_table:
  assumes "server_ok s" and "s1 = s \<or> (\<exists>b. lockedOut (e_now e) a s = (b, s1)) \<or>
     (\<exists>s0. lockedOut (e_now e) a s = (False, s0) \<and> s1 = recordFailure (e_now e) a s0)"
  shows "server_ok s1" and "sessions s1 = sessions s" and "queued s1 = queued s"
    and "Username s1 = Username s" and "Password s1 = Password s"
  using assms server_ok_locked server_ok_record lockedOut_frame
  by (metis (no_types), metis recordFailure_frame(1), metis recordFailure_frame(2),
      metis recordFailure_frame(3), metis recordFailure_frame(4))

lemma server_ok_rakp1:
  assumes "rakp1 c e p a s = (r, s')" and ok: "server_ok s"
  shows "server_ok s'"
  using assms(1)
proof (cases rule: rakp1_cases)
  case (2 se)
  with ok server_ok_drop show ?thesis by simp
next
  case (3 se)
  note so = server_ok_session [OF ok 3(1)]
  show ?thesis using 3(4)
  proof (cases rule: rakp1_login_cases)
    case (1 s1 status)
    with server_ok_login_table(1) [OF ok 1(1)] server_ok_drop show ?thesis by simp
  next
    case (2 s0)
    let ?s = "recordFailure (e_now e) a s0"
    let ?se = "(rakp1_fill p se)\<lparr>rc := e_rc e, lastUsed := e_now e\<rparr>"
    note t = server_ok_login_table [OF ok, of ?s e a] 
    have l: "server_ok ?s" "sessions ?s = sessions s" "Username ?s = Username s" "Password ?s = Password s"
      using t 2(1) by blast+
    have u: "Username s0 = Username s" "Password s0 = Password s" using lockedOut_frame [OF 2(1)] by simp_all
    have "session_ok ?s (le32_at p 4) ?se"
      using so(1) 3(2) 2(2-5) l u by (auto simp: session_ok_def name_bytes_def)
    with server_ok_put [OF l(1)] l(2) 3(1) 2(6) show ?thesis by simp
  qed
qed (use ok in simp)

lemma rakp3_cases:
  assumes "rakp3 c e p a s = (r, s')"
  obtains "s' = s"
  | se where "map_of (sessions s) (le32_at p 4) = Some se" and "\<not> se_active se" and "se_addr se = a"
    and "s' = drop_session (le32_at p 4) s \<or> s' = recordFailure (e_now e) a (drop_session (le32_at p 4) s)"
  | se where "map_of (sessions s) (le32_at p 4) = Some se" and "\<not> se_active se" and "se_addr se = a"
    and "se_name se \<noteq> None" and "drop 8 p = rakp3_code c s se"
    and "s' = push_event (e_now e) (Login (name_bytes (establish c s (e_now e) se))) (hostOf a)
         (put_session (establish c s (e_now e) se) s)"
proof -
  consider "length p < 8 \<or> map_of (sessions s) (le32_at p 4) = None"
    | se where "\<not> length p < 8" "map_of (sessions s) (le32_at p 4) = Some se"
      "se_active se \<or> se_addr se \<noteq> a \<or> se_name se = None"
    | se where "\<not> length p < 8" "map_of (sessions s) (le32_at p 4) = Some se" "\<not> se_active se" "se_addr se = a"
      "se_name se \<noteq> None"
    by (cases "map_of (sessions s) (le32_at p 4)") auto
  then show ?thesis
  proof cases
    case 1
    with assms that(1) show ?thesis by (auto simp: rakp3_def Let_def split: if_splits)
  next
    case (2 se)
    with assms that(1) show ?thesis by (auto simp: rakp3_def Let_def)
  next
    case (3 se)
    with assms that(2) [OF 3(2-4)] that(3) [OF 3(2-4)] show ?thesis
      by (simp add: rakp3_def Let_def split: if_splits)
  qed
qed

lemma establish_frame [simp]:
  "managedID (establish c s now se) = managedID se" "maxPriv (establish c s now se) = maxPriv se"
  "se_name (establish c s now se) = se_name se" "role (establish c s now se) = role se"
  "se_active (establish c s now se)" "priv (establish c s now se) = role se AND 0x0F"
  "se_addr (establish c s now se) = se_addr se"
  by (simp_all add: establish_def Let_def)

lemma server_ok_rakp3:
  assumes "rakp3 c e p a s = (r, s')" and ok: "server_ok s"
  shows "server_ok s'"
  using assms(1)
proof (cases rule: rakp3_cases)
  case (2 se)
  with ok server_ok_drop server_ok_record show ?thesis by auto
next
  case (3 se)
  have "session_ok s (le32_at p 4) (establish c s (e_now e) se)"
    using server_ok_session(1) [OF ok 3(1)] 3(4) by (auto simp: session_ok_def)
  from server_ok_event [OF server_ok_put [OF ok 3(1) this]] 3(6) show ?thesis by simp
qed (use ok in simp)

lemma same_login_ok: "session_ok s i se \<Longrightarrow> same_login se se' \<Longrightarrow> session_ok s i se'"
  by (auto simp: session_ok_def same_login_def)

lemma acceptSeq_login: "acceptSeq q se = (ok, se') \<Longrightarrow> same_login se se'"
  by (auto simp: acceptSeq_def same_login_def Let_def split: if_splits)

lemma sealed_login: "sealed c e se msg = (r, se') \<Longrightarrow> same_login se' se'' = same_login se se''"
  "sealed c e se msg = (r, se') \<Longrightarrow> same_login se'' se' = same_login se'' se"
  "sealed c e se msg = (r, se') \<Longrightarrow> managedID se' = managedID se"
  by (auto simp: sealed_def same_login_def Let_def split: option.splits)

lemma set_privilege_login: "set_privilege se req = (m, se') \<Longrightarrow> same_login se se'"
  by (auto simp: set_privilege_def same_login_def Let_def not_less split: if_splits)

lemma chassisControl_cases:
  assumes "chassisControl e se req s = (m, s')"
  obtains "s' = s"
  | act where "privOperator \<le> priv se" and "control_action (rq_data req ! 0) = Some act" and "m = reply req ccOK []"
    and "s' = s\<lparr>queued := queued s @ [act], lastCommand := Some (act, e_now e)\<rparr>"
  using assms by (auto simp: chassisControl_def not_less split: if_splits option.splits)

lemma command_cases:
  assumes "command e se req s = (m, se', s')"
  obtains "s' = s" and "same_login se se'"
  | "se' = se" and "netFn req = netFnChassis" and "cmd req = 0x02" and "chassisControl e se req s = (m, s')"
proof (cases "netFn req = netFnChassis \<and> cmd req = 0x02")
  case True
  with assms that(2) show ?thesis by (simp add: command_def split: prod.splits)
next
  case False
  show ?thesis
  proof (cases "netFn req = netFnApp \<and> cmd req = 0x3B")
    case True
    with assms that(1) set_privilege_login show ?thesis by (auto simp: command_def split: prod.splits)
  next
    case f: False
    have "same_login se se" by (simp add: same_login_def)
    with assms False f that(1) show ?thesis by (simp add: command_def split: if_splits prod.splits)
  qed
qed

lemma command_ok:
  assumes "command e se req s = (m, se', s')" and "server_ok s"
  shows "same_login se se'" and "server_ok s'" and "sessions s' = sessions s"
    and "queued s' = queued s \<or> (\<exists>act. queued s' = queued s @ [act] \<and> privOperator \<le> priv se)"
proof -
  have refl: "same_login se se" by (simp add: same_login_def)
  have "same_login se se' \<and> server_ok s' \<and> sessions s' = sessions s \<and>
     (queued s' = queued s \<or> (\<exists>act. queued s' = queued s @ [act] \<and> privOperator \<le> priv se))"
    using assms(1)
  proof (cases rule: command_cases)
    case 2
    show ?thesis using 2(4)
    proof (cases rule: chassisControl_cases)
      case (2 act)
      have "server_ok s'"
        by (rule server_ok_frame [OF assms(2)]) (use 2(4) assms(2) in \<open>auto simp: server_ok_def\<close>)
      with 2 \<open>se' = se\<close> refl show ?thesis by simp
    qed (use \<open>se' = se\<close> refl assms(2) in simp)
  qed (use assms(2) in simp)
  then show "same_login se se'" and "server_ok s'" and "sessions s' = sessions s"
    and "queued s' = queued s \<or> (\<exists>act. queued s' = queued s @ [act] \<and> privOperator \<le> priv se)" by blast+
qed

lemma put_session_sessions: "sessions (put_session se s) = AList.update (managedID se) se (sessions s)"
  by (simp add: put_session_def)

lemma drop_put_frame [simp]:
  "queued (put_session se s) = queued s" "queued (drop_session i s) = queued s"
  "sessions (drop_session i s) = AList.delete i (sessions s)"
  by (simp_all add: put_session_def drop_session_def)

text \<open>A message in a session changes that session only, and queues at most one action.\<close>

lemma answer_ok:
  assumes "answer c e se req s = (r, s')" and ok: "server_ok s" and "map_of (sessions s) i = Some old"
    and "session_ok s i se"
  shows "server_ok s'" and "\<forall>j. j \<noteq> i \<longrightarrow> map_of (sessions s') j = map_of (sessions s) j"
    and "queued s' = queued s \<or> (\<exists>act. queued s' = queued s @ [act] \<and> privOperator \<le> priv se)"
    and "map_of (sessions s') i = None \<or> (\<exists>se'. map_of (sessions s') i = Some se' \<and> same_login se se')"
proof -
  obtain m se1 s1 where c1: "command e (se\<lparr>lastUsed := e_now e\<rparr>) req s = (m, se1, s1)" by (metis prod_cases3)
  obtain out se2 where c2: "sealed c e se1 m = (out, se2)" by (metis surj_pair)
  note ck = command_ok [OF c1 ok]
  have i: "managedID se = i" using assms(4) by (simp add: session_ok_def)
  have l: "same_login se se2" using ck(1) sealed_login(2) [OF c2] by (auto simp: same_login_def)
  then have i2: "managedID se2 = i" using i by (simp add: same_login_def)
  have s': "s' = drop_session i (put_session se2 s1) \<or> s' = put_session se2 s1"
    using assms(1) c1 c2 i2 by (auto simp: answer_def)
  have so: "session_ok s1 i se2"
  proof -
    have "session_ok s i se2" by (rule same_login_ok [OF assms(4) l])
    moreover have "Username s1 = Username s \<and> Password s1 = Password s"
      using c1 by (cases rule: command_cases) (auto elim!: chassisControl_cases)
    ultimately show ?thesis by (simp add: session_ok_def)
  qed
  have put: "server_ok (put_session se2 s1)"
    by (rule server_ok_put [OF ck(2) _ so]) (use ck(3) assms(3) in simp)
  with s' server_ok_drop show "server_ok s'" by auto
  show "\<forall>j. j \<noteq> i \<longrightarrow> map_of (sessions s') j = map_of (sessions s) j"
    using s' i2 ck(3) by (auto simp: put_session_sessions map_of_update map_of_delete)
  show "queued s' = queued s \<or> (\<exists>act. queued s' = queued s @ [act] \<and> privOperator \<le> priv se)"
    using s' ck(4) by auto
  show "map_of (sessions s') i = None \<or> (\<exists>se'. map_of (sessions s') i = Some se' \<and> same_login se se')"
    using s' i2 l by (auto simp: put_session_sessions map_of_update map_of_delete)
qed

lemma session_message_ok:
  assumes "session_message c e se p q len s = (r, s')" and ok: "server_ok s" and m: "map_of (sessions s) i = Some se"
  shows "server_ok s'" and "\<forall>j. j \<noteq> i \<longrightarrow> map_of (sessions s') j = map_of (sessions s) j"
    and "queued s' = queued s \<or> (\<exists>act. queued s' = queued s @ [act] \<and> privOperator \<le> priv se \<and>
       packet_signed c se p len \<and> fst (acceptSeq q se))"
    and "map_of (sessions s') i = None \<or> (\<exists>se'. map_of (sessions s') i = Some se' \<and> same_login se se')"
proof -
  have refl: "same_login se se" by (simp add: same_login_def)
  note so = server_ok_session [OF ok m]
  obtain b se1 where a: "acceptSeq q se = (b, se1)" by (metis surj_pair)
  note l = acceptSeq_login [OF a]
  have so1: "session_ok s i se1" by (rule same_login_ok [OF so(1) l])
  then have i1: "managedID se1 = i" by (simp add: session_ok_def)
  have p1: "priv se1 = priv se" using a by (auto simp: acceptSeq_def Let_def split: if_splits)
  consider "s' = s" | "s' = put_session se1 s"
    | req where "packet_signed c se p len" "b" "answer c e se1 req s = (r, s')"
    using assms(1) a by (auto simp: session_message_def split: if_splits option.splits bool.splits)
  then have "server_ok s' \<and> (\<forall>j. j \<noteq> i \<longrightarrow> map_of (sessions s') j = map_of (sessions s) j) \<and>
     (queued s' = queued s \<or> (\<exists>act. queued s' = queued s @ [act] \<and> privOperator \<le> priv se \<and>
       packet_signed c se p len \<and> fst (acceptSeq q se))) \<and>
     (map_of (sessions s') i = None \<or> (\<exists>se'. map_of (sessions s') i = Some se' \<and> same_login se se'))"
  proof cases
    case 1
    with ok m refl show ?thesis by simp
  next
    case 2
    with server_ok_put [OF ok m so1] i1 l show ?thesis by (simp add: put_session_sessions map_of_update)
  next
    case (3 req)
    note an = answer_ok [OF 3(3) ok m so1]
    have "same_login se1 se' \<Longrightarrow> same_login se se'" for se'
      using l p1 by (auto simp: same_login_def)
    with an p1 3 a show ?thesis by auto
  qed
  then show "server_ok s'" and "\<forall>j. j \<noteq> i \<longrightarrow> map_of (sessions s') j = map_of (sessions s) j"
    and "queued s' = queued s \<or> (\<exists>act. queued s' = queued s @ [act] \<and> privOperator \<le> priv se \<and>
       packet_signed c se p len \<and> fst (acceptSeq q se))"
    and "map_of (sessions s') i = None \<or> (\<exists>se'. map_of (sessions s') i = Some se' \<and> same_login se se')"
    by blast+
qed

end
