(* ===== verification/Ipmi_Safety.thy ===== *)
theory Ipmi_Safety
  imports Ipmi_Server
begin

text \<open>
  What the IPMI server guarantees for whole packets and for sequences of packets: its tables stay bounded,
  power actions need a signed message of an authenticated session, sessions need the password, clients
  cannot disturb each other's sessions, packets cannot be replayed, and password hashes are rationed.
\<close>

section \<open>Sequences of packets\<close>

definition server_init :: "Server \<Rightarrow> bool" where
  "server_init s \<longleftrightarrow> sessions s = [] \<and> failed s = [] \<and> events s = [] \<and> queued s = []"

definition packet_step :: "crypto \<Rightarrow> Server \<Rightarrow> Server \<Rightarrow> bool" where
  "packet_step c s s' \<longleftrightarrow> (\<exists>e pkt a r. Handle c e pkt a s = Some (r, s'))"

text \<open>
  A RAKP message 2 with status 0 carries the password hash: its status is byte 17 of the packet. \<open>hashes\<close>
  counts them over a run of messages 1 from one client.
\<close>

definition gives_hash :: "bytes option \<Rightarrow> bool" where
  "gives_hash r \<longleftrightarrow> (case r of None \<Rightarrow> False | Some b \<Rightarrow> b ! 17 = 0)"

fun hashes :: "crypto \<Rightarrow> udp_addr \<Rightarrow> (pkt_env \<times> bytes) list \<Rightarrow> Server \<Rightarrow> int" where
  "hashes c a [] s = 0"
| "hashes c a ((e, p) # ps) s =
     (case rakp1 c e p a s of (r, s') \<Rightarrow> of_bool (gives_hash r) + hashes c a ps s')"

section \<open>Concrete values\<close>

definition ipmi_client :: udp_addr where
  "ipmi_client = \<lparr>a_ip = IP4 [192, 168, 0, 9], a_port = 40000\<rparr>"

definition ipmi_other :: udp_addr where
  "ipmi_other = \<lparr>a_ip = IP4 [192, 168, 0, 77], a_port = 40000\<rparr>"

text \<open>An established session with operator privilege, and a server that has it.\<close>

definition ipmi_session :: session where
  "ipmi_session = (new_session 5 1 (hd suites) 4 0 ipmi_client)\<lparr>se_active := True, priv := 3, role := 3,
     se_name := Some [0x72], k1 := replicate 20 1, k2 := replicate 20 2\<rparr>"

definition ipmi_server :: Server where
  "ipmi_server = \<lparr>Username = [0x72], Password = [0x70], GUID = replicate 16 0, FirmwareMajor = 1,
     FirmwareMinor = 0, lastExpire = 0, sessions = [(5, ipmi_session)], failed = [], queued = [],
     lastCommand = None, events = [], eventSeq = 0\<rparr>"

definition ipmi_env :: pkt_env where
  "ipmi_env = \<lparr>e_now = 0, e_ids = [9], e_rc = replicate 16 3, e_iv = Some (replicate 16 4),
     e_status = Some (True, True), e_avail = Some (True, True), e_slot = True\<rparr>"

text \<open>A signed request to switch the power on, in that session.\<close>

definition on_packet :: bytes where
  "on_packet = [6, 0, 0xFF, 7, 6, 0xC0, 5, 0, 0, 0, 1, 0, 0, 0, 32, 0, 4, 4, 4, 4, 4, 4, 4, 4, 4, 4, 4, 4, 4, 4, 4, 4,
     0x20, 0, 0xE0, 0x81, 4, 2, 1, 0x78, 1, 2, 3, 4, 5, 6, 7, 7, 0, 7,
     106, 106, 106, 106, 106, 106, 106, 106, 106, 106, 106, 106]"

text \<open>A session after message 2, and the message 3 that proves the password for it.\<close>

definition pending_server :: Server where
  "pending_server = ipmi_server\<lparr>sessions := [(5, (new_session 5 1 (hd suites) 4 0 ipmi_client)
     \<lparr>rc := replicate 16 3, role := 3, se_name := Some [0x72]\<rparr>)]\<rparr>"

definition rakp3_packet :: bytes where
  "rakp3_packet = [6, 0, 0xFF, 7, 6, 0x14, 0, 0, 0, 0, 0, 0, 0, 0, 28, 0, 9, 0, 0, 0, 5, 0, 0, 0,
     23, 23, 23, 23, 23, 23, 23, 23, 23, 23, 23, 23, 23, 23, 23, 23, 23, 23, 23, 23]"

section \<open>Lemmas\<close>

abbreviation expired_view :: "pkt_env \<Rightarrow> Server \<Rightarrow> Server" where
  "expired_view e s \<equiv> expireEvery second (e_now e) s"

lemma v20_cases:
  assumes "v20 c e p a s = Some (r, s')"
  obtains "s' = s \<or> s' = expired_view e s"
  | pl where "openSession e pl a (expired_view e s) = Some (r, s')"
  | pl where "rakp1 c e pl a (expired_view e s) = (r, s')"
  | "p ! 1 AND 0x3F = payloadRAKP3" and "rakp3 c e (slice p 12 (12 + unat (le16_at p 10))) a (expired_view e s) = (r, s')"
  | se where "map_of (sessions (expired_view e s)) (le32_at p 2) = Some se" and "se_active se" and "se_addr se = a"
    and "session_message c e se p (le32_at p 6) (unat (le16_at p 10)) (expired_view e s) = (r, s')"
proof -
  let ?n = "unat (le16_at p 10)" and ?t = "p ! 1 AND 0x3F"
  consider "length p < 12 \<or> length p < 12 + ?n"
    | "\<not> length p < 12" "\<not> length p < 12 + ?n" "?t = payloadOpenRequest"
    | "\<not> length p < 12" "\<not> length p < 12 + ?n" "?t = payloadRAKP1"
    | "\<not> length p < 12" "\<not> length p < 12 + ?n" "?t = payloadRAKP3"
    | "\<not> length p < 12" "\<not> length p < 12 + ?n" "?t = payloadIPMI"
    | "\<not> length p < 12" "\<not> length p < 12 + ?n" "?t \<noteq> payloadOpenRequest" "?t \<noteq> payloadRAKP1"
      "?t \<noteq> payloadRAKP3" "?t \<noteq> payloadIPMI" by blast
  then show ?thesis
  proof cases
    case 1
    with assms have "s' = s" by (auto simp: v20_def Let_def split: if_split_asm)
    with that(1) show ?thesis by simp
  next
    case 5
    show ?thesis
    proof (cases "map_of (sessions (expired_view e s)) (le32_at p 2)")
      case None
      with 5 assms that(1) show ?thesis by (auto simp: v20_def Let_def split: if_splits)
    next
      case (Some se)
      with 5 assms that(1) that(5) [OF Some] show ?thesis by (simp add: v20_def Let_def split: if_splits)
    qed
  qed (use assms that in \<open>auto simp: v20_def Let_def\<close>)
qed

lemma Handle_cases:
  assumes "Handle c e pkt a s = Some (r, s')"
  obtains "s' = s" | "v20 c e (drop 4 pkt) a s = Some (r, s')"
  using assms by (auto simp: Handle_def Let_def split: if_splits)

lemma Handle_ok:
  assumes "Handle c e pkt a s = Some (r, s')" and "server_ok s"
  shows "server_ok s'"
  using assms(1)
proof (cases rule: Handle_cases)
  case 2
  note ok = server_ok_expire [OF assms(2), of second "e_now e"]
  from 2 show ?thesis
    by (cases rule: v20_cases)
      (use assms(2) ok in \<open>auto intro: server_ok_open [OF _ ok] server_ok_rakp1 [OF _ ok] server_ok_rakp3 [OF _ ok]
          session_message_ok(1) [OF _ ok]\<close>)
qed (use assms(2) in simp)

interpretation ipmi: invariant_system server_init "packet_step c" server_ok for c
proof unfold_locales
  show "server_init s \<Longrightarrow> server_ok s" for s by (simp add: server_init_def server_ok_def)
  show "packet_step c s t \<Longrightarrow> server_ok s \<Longrightarrow> server_ok t" for s t by (auto simp: packet_step_def dest: Handle_ok)
qed

text \<open>Expiry only removes sessions that have been idle.\<close>

lemma expire_sessions:
  assumes "server_ok s"
  shows "map_of (sessions (expireEvery d now s)) i = Some se \<Longrightarrow> map_of (sessions s) i = Some se"
    and "map_of (sessions s) i = Some se \<Longrightarrow> \<not> expired now se \<Longrightarrow> map_of (sessions (expireEvery d now s)) i = Some se"
  using assms
  by (auto simp: expireEvery_def expire_def Let_def server_ok_def map_of_filter_some simp del: map_of_eq_Some_iff
      split: if_splits)

subsection \<open>What each packet does to a session\<close>

lemma make_room_keeps:
  assumes "make_room (sessions s) = Some ss" and "server_ok s"
  shows "map_of (sessions s) i = Some se \<Longrightarrow> se_active se \<Longrightarrow> map_of ss i = Some se"
    and "map_of ss i = Some x \<Longrightarrow> map_of (sessions s) i = Some x"
proof -
  have d: "distinct (map fst (sessions s))" using assms(2) by (simp add: server_ok_def)
  have "(map_of (sessions s) i = Some se \<longrightarrow> se_active se \<longrightarrow> map_of ss i = Some se) \<and>
     (map_of ss i = Some x \<longrightarrow> map_of (sessions s) i = Some x)"
    using assms
  proof (cases rule: make_room_cases)
    case (2 j old)
    have "map_of (sessions s) j = Some old" using 2(1) d by (simp add: map_of_eq_Some_iff)
    with 2(2,3) show ?thesis by (auto simp: map_of_delete)
  qed simp
  then show "map_of (sessions s) i = Some se \<Longrightarrow> se_active se \<Longrightarrow> map_of ss i = Some se"
    and "map_of ss i = Some x \<Longrightarrow> map_of (sessions s) i = Some x" by blast+
qed

lemma open_session:
  assumes "openSession e p a s = Some (r, s')" and ok: "server_ok s"
  shows "map_of (sessions s) i = Some se \<Longrightarrow> se_active se \<Longrightarrow> map_of (sessions s') i = Some se"
    and "map_of (sessions s') i = Some se' \<Longrightarrow> se_active se' \<Longrightarrow> map_of (sessions s) i = Some se'"
    and "queued s' = queued s"
proof -
  have "(map_of (sessions s) i = Some se \<longrightarrow> se_active se \<longrightarrow> map_of (sessions s') i = Some se) \<and>
     (map_of (sessions s') i = Some se' \<longrightarrow> se_active se' \<longrightarrow> map_of (sessions s) i = Some se') \<and> queued s' = queued s"
    using assms(1)
  proof (cases rule: openSession_cases)
    case (2 ss j su)
    have "j \<noteq> 0" and none: "map_of ss j = None" using newID_new [OF 2(2)] by simp_all
    have keep: "map_of (sessions s) i = Some se \<Longrightarrow> se_active se \<Longrightarrow> map_of ss i = Some se"
      and old: "map_of ss i = Some x \<Longrightarrow> map_of (sessions s) i = Some x" for x
      using make_room_keeps [OF 2(1) ok] by blast+
    show ?thesis
    proof (cases "i = j")
      case True
      with keep none have "\<not> (map_of (sessions s) i = Some se \<and> se_active se)" by fastforce
      with True 2(3) show ?thesis by (auto simp: map_of_update new_session_def)
    next
      case False
      with 2(3) have "map_of (sessions s') i = map_of ss i" "queued s' = queued s" by (simp_all add: map_of_update)
      with keep old show ?thesis by metis
    qed
  qed simp
  then show "map_of (sessions s) i = Some se \<Longrightarrow> se_active se \<Longrightarrow> map_of (sessions s') i = Some se"
    and "map_of (sessions s') i = Some se' \<Longrightarrow> se_active se' \<Longrightarrow> map_of (sessions s) i = Some se'"
    and "queued s' = queued s" by blast+
qed

lemma rakp1_session:
  assumes "rakp1 c e p a s = (r, s')" and ok: "server_ok s"
  shows "map_of (sessions s) i = Some se \<Longrightarrow> se_active se \<Longrightarrow> map_of (sessions s') i = Some se"
    and "map_of (sessions s') i = Some se' \<Longrightarrow> se_active se' \<Longrightarrow> map_of (sessions s) i = Some se'"
    and "queued s' = queued s"
proof -
  have "(map_of (sessions s) i = Some se \<longrightarrow> se_active se \<longrightarrow> map_of (sessions s') i = Some se) \<and>
     (map_of (sessions s') i = Some se' \<longrightarrow> se_active se' \<longrightarrow> map_of (sessions s) i = Some se') \<and> queued s' = queued s"
    using assms(1)
  proof (cases rule: rakp1_cases)
    case (2 old)
    then show ?thesis by (auto simp: map_of_delete split: if_splits)
  next
    case (3 old)
    have i: "managedID old = le32_at p 4" by (rule server_ok_session(2) [OF ok 3(1)])
    show ?thesis using 3(4)
    proof (cases rule: rakp1_login_cases)
      case (1 s1 status)
      note t = server_ok_login_table [OF ok 1(1)]
      show ?thesis using 1(2) t(2,3) 3(1,2) i by (auto simp: map_of_delete)
    next
      case (2 s0)
      note t = server_ok_login_table [OF ok, of "recordFailure (e_now e) a s0" e a]
      have "sessions (recordFailure (e_now e) a s0) = sessions s" "queued (recordFailure (e_now e) a s0) = queued s"
        using t(2,3) 2(1) by blast+
      with 2(6) 3(1,2) i show ?thesis by (auto simp: put_session_sessions map_of_update)
    qed
  qed simp
  then show "map_of (sessions s) i = Some se \<Longrightarrow> se_active se \<Longrightarrow> map_of (sessions s') i = Some se"
    and "map_of (sessions s') i = Some se' \<Longrightarrow> se_active se' \<Longrightarrow> map_of (sessions s) i = Some se'"
    and "queued s' = queued s" by blast+
qed

lemma rakp3_session:
  assumes "rakp3 c e p a s = (r, s')" and ok: "server_ok s"
  shows "map_of (sessions s) i = Some se \<Longrightarrow> se_active se \<Longrightarrow> map_of (sessions s') i = Some se"
    and "map_of (sessions s') i = Some se' \<Longrightarrow> se_active se' \<Longrightarrow> map_of (sessions s) i \<noteq> Some se' \<Longrightarrow>
       \<exists>old. map_of (sessions s) i = Some old \<and> \<not> se_active old \<and> se_addr old = a \<and>
         drop 8 p = rakp3_code c s old \<and> se' = establish c s (e_now e) old"
    and "queued s' = queued s"
proof -
  have "(map_of (sessions s) i = Some se \<longrightarrow> se_active se \<longrightarrow> map_of (sessions s') i = Some se) \<and>
     (map_of (sessions s') i = Some se' \<longrightarrow> se_active se' \<longrightarrow> map_of (sessions s) i \<noteq> Some se' \<longrightarrow>
       (\<exists>old. map_of (sessions s) i = Some old \<and> \<not> se_active old \<and> se_addr old = a \<and>
         drop 8 p = rakp3_code c s old \<and> se' = establish c s (e_now e) old)) \<and> queued s' = queued s"
    using assms(1)
  proof (cases rule: rakp3_cases)
    case (2 old)
    then show ?thesis by (auto simp: map_of_delete split: if_splits)
  next
    case (3 old)
    have "managedID old = le32_at p 4" by (rule server_ok_session(2) [OF ok 3(1)])
    with 3 show ?thesis by (auto simp: put_session_sessions map_of_update)
  qed simp
  then show "map_of (sessions s) i = Some se \<Longrightarrow> se_active se \<Longrightarrow> map_of (sessions s') i = Some se"
    and "map_of (sessions s') i = Some se' \<Longrightarrow> se_active se' \<Longrightarrow> map_of (sessions s) i \<noteq> Some se' \<Longrightarrow>
       \<exists>old. map_of (sessions s) i = Some old \<and> \<not> se_active old \<and> se_addr old = a \<and>
         drop 8 p = rakp3_code c s old \<and> se' = establish c s (e_now e) old"
    and "queued s' = queued s" by blast+
qed

subsection \<open>Hashes\<close>

lemma rakp_fail_no_hash: "status \<noteq> 0 \<Longrightarrow> \<not> gives_hash (Some (rakp_fail t tag status cid))"
  by (simp add: gives_hash_def rakp_fail_def preSession_def rmcpHeader_def le16_def nth_append)

lemma rakp1_hash:
  assumes "rakp1 c e p a s = (r, s')" and "gives_hash r"
  obtains se where "rakp1_login c e (p ! 0) a se s = (r, s')"
  using assms rakp_fail_no_hash
  by (auto simp: rakp1_def Let_def gives_hash_def split: if_splits option.splits)

text \<open>A counter within its window: a message 1 adds one when it gives out a hash, which a full counter refuses.\<close>

lemma recordFailure_count:
  assumes "map_of (failed s) (clientKey a) = Some f" and "time_sub now (f_since f) \<le> failWindow"
  shows "map_of (failed (recordFailure now a s)) (clientKey a) = Some (f\<lparr>f_count := f_count f + 1\<rparr>)"
  using assms by (simp add: recordFailure_def fresh_failure_def Let_def map_of_update)

lemma lockedOut_count:
  assumes "map_of (failed s) (clientKey a) = Some f" and "time_sub now (f_since f) \<le> failWindow"
  shows "lockedOut now a s = (maxFailures \<le> f_count f, s)"
  using assms by (simp add: lockedOut_def Let_def)

lemma rakp1_count:
  assumes f: "map_of (failed s) (clientKey a) = Some f" and w: "time_sub (e_now e) (f_since f) \<le> failWindow"
    and r: "rakp1 c e p a s = (r, s')"
  shows "\<exists>n. map_of (failed s') (clientKey a) = Some (f\<lparr>f_count := n\<rparr>) \<and>
     (if gives_hash r then f_count f < maxFailures \<and> n = f_count f + 1 else f_count f \<le> n)"
proof -
  have self: "f\<lparr>f_count := f_count f\<rparr> = f" by simp
  have login: ?thesis if l: "rakp1_login c e tag a se s = (r, s')" for tag se
    using l
  proof (cases rule: rakp1_login_cases)
    case (1 s1 status)
    then have no: "\<not> gives_hash r" using rakp_fail_no_hash by simp
    from 1(1) have "failed s1 = failed s \<or> s1 = recordFailure (e_now e) a s"
      using lockedOut_count [OF f w] by auto
    then have "\<exists>n. map_of (failed s1) (clientKey a) = Some (f\<lparr>f_count := n\<rparr>) \<and> f_count f \<le> n"
    proof
      assume "failed s1 = failed s"
      with f show ?thesis by (intro exI [of _ "f_count f"]) simp
    next
      assume "s1 = recordFailure (e_now e) a s"
      with recordFailure_count [OF f w] show ?thesis by (intro exI [of _ "f_count f + 1"]) simp
    qed
    with no 1(2) show ?thesis by (simp add: drop_session_def)
  next
    case (2 s0)
    then have "s0 = s" "f_count f < maxFailures" using lockedOut_count [OF f w] by auto
    with 2(6) recordFailure_count [OF f w] show ?thesis
      by (intro exI [of _ "f_count f + 1"]) (simp add: put_session_def)
  qed
  show ?thesis
  proof (cases "gives_hash r")
    case True
    with rakp1_hash [OF r] login show ?thesis by blast
  next
    case no: False
    from r show ?thesis
    proof (cases rule: rakp1_cases)
      case 1
      with f no self show ?thesis by (intro exI [of _ "f_count f"]) simp
    next
      case (2 se)
      with f no self show ?thesis by (intro exI [of _ "f_count f"]) (simp add: drop_session_def)
    next
      case (3 se)
      with login show ?thesis by blast
    qed
  qed
qed

lemma hashes_bound:
  assumes "map_of (failed s) (clientKey a) = Some f"
    and "\<forall>(e, p) \<in> set ps. time_sub (e_now e) (f_since f) \<le> failWindow"
  shows "hashes c a ps s \<le> max 0 (maxFailures - f_count f)"
  using assms
proof (induction ps arbitrary: s f)
  case (Cons ep ps)
  obtain e p where ep: "ep = (e, p)" by (cases ep)
  obtain r s' where r: "rakp1 c e p a s = (r, s')" by (metis surj_pair)
  have w: "time_sub (e_now e) (f_since f) \<le> failWindow" using Cons.prems(2) ep by simp
  from rakp1_count [OF Cons.prems(1) w r] obtain n where n: "map_of (failed s') (clientKey a) = Some (f\<lparr>f_count := n\<rparr>)"
    "if gives_hash r then f_count f < maxFailures \<and> n = f_count f + 1 else f_count f \<le> n" by blast
  have "hashes c a ps s' \<le> max 0 (maxFailures - n)"
    using Cons.IH [OF n(1)] Cons.prems(2) by simp
  with n(2) r ep show ?case by (auto split: if_splits)
qed simp

subsection \<open>The concrete packets\<close>

lemma replicate_12: "replicate 12 x = [x, x, x, x, x, x, x, x, x, x, x, x]"
  by (simp add: numeral_nat)

lemma ipmi_server_ok: "server_ok ipmi_server" "server_ok pending_server"
  by (simp_all add: server_ok_def ipmi_server_def pending_server_def ipmi_session_def session_ok_def new_session_def)

lemma ipmi_server_fresh:
  "expireEvery second (e_now ipmi_env) ipmi_server = ipmi_server"
  "expireEvery second (e_now ipmi_env) pending_server = pending_server"
  by (simp_all add: expireEvery_def ipmi_env_def ipmi_server_def pending_server_def time_sub_def)

lemma on_packet_fields:
  "le32_at (drop 4 on_packet) 2 = 5" "le32_at (drop 4 on_packet) 6 = 1" "le16_at (drop 4 on_packet) 10 = 32"
  "length on_packet = 62" "drop 4 on_packet ! 1 = 0xC0"
  "slice (drop 4 on_packet) 12 44 = replicate 16 4 @ [0x20, 0, 0xE0, 0x81, 4, 2, 1, 0x78, 1, 2, 3, 4, 5, 6, 7, 7]"
  by (simp_all add: on_packet_def le32_at_def le16_at_def)
    (simp add: slice_def numeral_nat)

lemma on_packet_signed: "packet_signed plain_crypto ipmi_session (drop 4 on_packet) 32"
  by (simp add: packet_signed_def on_packet_def ipmi_session_def new_session_def suites_def Let_def mac_def
      plain_crypto_def hash_len_def sum_list_replicate replicate_12)

lemma on_packet_handled:
  "\<exists>r s'. Handle plain_crypto ipmi_env on_packet ipmi_client ipmi_server = Some (r, s') \<and> queued s' = [PowerOn]"
proof -
  let ?req = "\<lparr>netFn = 0, cmd = 2, rqSeqLun = 4, rqAddr = 0x81, rsLun = 0, rq_data = [1]\<rparr>"
  have parse: "parseMessage [0x20, 0, 0xE0, 0x81, 4, 2, 1, 0x78] = Some ?req"
    by (simp add: parseMessage_def checksum_def slice_def)
  have dec: "decrypt plain_crypto (replicate 20 2) (replicate 16 4 @
      [0x20, 0, 0xE0, 0x81, 4, 2, 1, 0x78, 1, 2, 3, 4, 5, 6, 7, 7]) = Some [0x20, 0, 0xE0, 0x81, 4, 2, 1, 0x78]"
    by (simp add: decrypt_def plain_crypto_def Let_def)
  have acc: "acceptSeq 1 ipmi_session = (True, ipmi_session\<lparr>seen := 1, seqIn := 1\<rparr>)"
    by (simp add: acceptSeq_def ipmi_session_def new_session_def Let_def)
  have k: "k2 ipmi_session = replicate 20 2" "se_active ipmi_session" "se_addr ipmi_session = ipmi_client"
    by (simp_all add: ipmi_session_def new_session_def)
  obtain r s' where a: "answer plain_crypto ipmi_env (ipmi_session\<lparr>seen := 1, seqIn := 1\<rparr>) ?req ipmi_server = (r, s')"
    by (metis surj_pair)
  have "queued s' = [PowerOn]" using a
    by (auto simp: answer_def command_def chassisControl_def control_action_def ipmi_session_def new_session_def
        ipmi_env_def ipmi_server_def sealed_def Let_def)
  moreover have "Handle plain_crypto ipmi_env on_packet ipmi_client ipmi_server =
      v20 plain_crypto ipmi_env (drop 4 on_packet) ipmi_client ipmi_server"
    by (simp add: Handle_def on_packet_def)
  moreover have "v20 plain_crypto ipmi_env (drop 4 on_packet) ipmi_client ipmi_server = Some (r, s')"
    using a on_packet_fields k ipmi_server_fresh(1) on_packet_signed dec parse acc
    by (simp add: v20_def Let_def session_message_def ipmi_server_def)
  ultimately show ?thesis by simp
qed

lemma rakp3_handled:
  "\<exists>r s' se'. Handle plain_crypto ipmi_env rakp3_packet ipmi_client pending_server = Some (r, s') \<and>
     map_of (sessions s') 5 = Some se' \<and> se_active se'"
proof -
  have p: "slice (drop 4 rakp3_packet) 12 (12 + unat (le16_at (drop 4 rakp3_packet) 10)) =
      [9, 0, 0, 0, 5, 0, 0, 0] @ replicate 20 23" "drop 4 rakp3_packet ! 1 = 0x14"
    "length (drop 4 rakp3_packet) = 40" "unat (le16_at (drop 4 rakp3_packet) 10) = 28"
    by (simp_all add: rakp3_packet_def le16_at_def) (simp add: slice_def numeral_nat)
  have n: "le32_at ([9, 0, 0, 0, 5, 0, 0, 0] @ replicate 20 23) 4 = 5" by (simp add: le32_at_def)
  have "rakp3_code plain_crypto pending_server (snd (hd (sessions pending_server))) = replicate 20 23"
    by (simp add: rakp3_code_def mac_def plain_crypto_def pending_server_def ipmi_server_def new_session_def userKey_def
        name_bytes_def suites_def hash_len_def sum_list_replicate le32_def)
  then have "\<exists>r s' se'. rakp3 plain_crypto ipmi_env ([9, 0, 0, 0, 5, 0, 0, 0] @ replicate 20 23) ipmi_client pending_server =
      (r, s') \<and> map_of (sessions s') 5 = Some se' \<and> se_active se'"
    unfolding rakp3_def n by (simp add: pending_server_def new_session_def Let_def put_session_def establish_def)
  moreover have "Handle plain_crypto ipmi_env rakp3_packet ipmi_client pending_server =
      v20 plain_crypto ipmi_env (drop 4 rakp3_packet) ipmi_client pending_server"
    by (simp add: Handle_def rakp3_packet_def)
  moreover have "v20 plain_crypto ipmi_env (drop 4 rakp3_packet) ipmi_client pending_server =
      Some (rakp3 plain_crypto ipmi_env ([9, 0, 0, 0, 5, 0, 0, 0] @ replicate 20 23) ipmi_client pending_server)"
    using p ipmi_server_fresh(2) by (simp add: v20_def Let_def)
  ultimately show ?thesis by auto
qed

section \<open>Properties\<close>

text \<open>
  C6. A power action needs a login. If handling a packet queues a power action, exactly one is queued, and
  the packet is a message of a session that was established before, for the client's own address, by the
  configured user, with at least operator privilege; its integrity code verifies under the
  session's key, and its sequence number is one the session has not accepted before.
\<close>

theorem action_needs_login:
  assumes "server_ok s" and "Handle c e pkt a s = Some (r, s')" and "queued s' \<noteq> queued s"
  shows "\<exists>act se. queued s' = queued s @ [act] \<and> map_of (sessions s) (le32_at (drop 4 pkt) 2) = Some se \<and>
    se_active se \<and> se_addr se = a \<and> se_name se = Some (Username s) \<and> privOperator \<le> priv se \<and>
    packet_signed c se (drop 4 pkt) (unat (le16_at (drop 4 pkt) 10)) \<and>
    fst (acceptSeq (le32_at (drop 4 pkt) 6) se)"
  using assms(2)
proof (cases rule: Handle_cases)
  case 2
  let ?s = "expired_view e s"
  note ok = server_ok_expire [OF assms(1), of second "e_now e"]
  from 2 show ?thesis
  proof (cases rule: v20_cases)
    case (5 se)
    note m = expire_sessions(1) [OF assms(1) 5(1)]
    from session_message_ok(3) [OF 5(4) ok 5(1)] assms(3) obtain act where
      "queued s' = queued s @ [act]" "privOperator \<le> priv se"
      "packet_signed c se (drop 4 pkt) (unat (le16_at (drop 4 pkt) 10))" "fst (acceptSeq (le32_at (drop 4 pkt) 6) se)"
      by auto
    moreover have "se_name se = Some (Username s)"
      using server_ok_session(1) [OF assms(1) m] 5(2) by (auto simp: session_ok_def)
    ultimately show ?thesis using m 5(2,3) by blast
  qed (use assms(3) open_session(3) [OF _ ok] rakp1_session(3) [OF _ ok] rakp3_session(3) [OF _ ok] in auto)
qed (use assms(3) in simp)

theorem action_needs_login_witness:
  "\<exists>r s' se. Handle plain_crypto ipmi_env on_packet ipmi_client ipmi_server = Some (r, s') \<and> queued s' = [PowerOn] \<and>
     map_of (sessions ipmi_server) 5 = Some se \<and> packet_signed plain_crypto se (drop 4 on_packet) 32"
proof -
  from on_packet_handled obtain r s' where
    h: "Handle plain_crypto ipmi_env on_packet ipmi_client ipmi_server = Some (r, s')" "queued s' = [PowerOn]" by blast
  then have "queued s' \<noteq> queued ipmi_server" by (simp add: ipmi_server_def)
  from action_needs_login [OF ipmi_server_ok(1) h(1) this] h show ?thesis
    by (auto simp: on_packet_fields)
qed

text \<open>
  C7. A session needs the password. A session that is established after a packet and was not before
  comes from a RAKP message 3 for a pending session of the same client address whose code is the MAC, keyed
  by the configured password, over the server's challenge; the password is not empty, the name is the
  configured user name, and the privilege granted is within what the session was opened with.
\<close>

theorem login_needs_password:
  assumes "server_ok s" and "Handle c e pkt a s = Some (r, s')"
    and "map_of (sessions s') i = Some se'" and "se_active se'"
    and "\<forall>se. map_of (sessions s) i = Some se \<longrightarrow> \<not> se_active se"
  shows "\<exists>old. map_of (sessions s) i = Some old \<and> se_addr old = a \<and> drop 4 pkt ! 1 AND 0x3F = payloadRAKP3 \<and>
    drop 8 (slice (drop 4 pkt) 12 (12 + unat (le16_at (drop 4 pkt) 10))) =
      mac c (se_suite old) (userKey s) [rc old, le32 (consoleID old), [role old, word_of_nat (length (Username s))], Username s] \<and>
    Password s \<noteq> [] \<and> priv se' \<le> maxPriv old"
  using assms(2)
proof (cases rule: Handle_cases)
  case 2
  let ?s = "expired_view e s"
  note ok = server_ok_expire [OF assms(1), of second "e_now e"]
  have new: "\<not> (map_of (sessions ?s) i = Some x \<and> se_active x)" for x
    using assms(5) expire_sessions(1) [OF assms(1)] by blast
  from 2 show ?thesis
  proof (cases rule: v20_cases)
    case 1
    with assms(3-5) new show ?thesis by blast
  next
    case (2 pl)
    with open_session(2) [OF _ ok] assms(3,4) new show ?thesis by blast
  next
    case (3 pl)
    with rakp1_session(2) [OF _ ok] assms(3,4) new show ?thesis by blast
  next
    case 4
    from rakp3_session(2) [OF 4(2) ok assms(3,4)] new assms(4) obtain old where
      old: "map_of (sessions ?s) i = Some old" "se_addr old = a" "se' = establish c ?s (e_now e) old"
      "drop 8 (slice (drop 4 pkt) 12 (12 + unat (le16_at (drop 4 pkt) 10))) = rakp3_code c ?s old" by blast
    have o: "session_ok s' i se'" by (rule server_ok_session(1) [OF Handle_ok [OF assms(2,1)] assms(3)])
    have so: "session_ok ?s i old" by (rule server_ok_session(1) [OF ok old(1)])
    have "se_name old \<noteq> None" using o assms(4) old(3) by (auto simp: session_ok_def)
    then have nm: "name_bytes old = Username s" "Password s \<noteq> []" "role old AND 0x0F \<le> maxPriv old"
      using so by (auto simp: session_ok_def name_bytes_def)
    have "userKey ?s = userKey s" by (simp add: userKey_def)
    with nm(1) old(4) have "drop 8 (slice (drop 4 pkt) 12 (12 + unat (le16_at (drop 4 pkt) 10))) =
      mac c (se_suite old) (userKey s) [rc old, le32 (consoleID old), [role old, word_of_nat (length (Username s))], Username s]"
      by (simp add: rakp3_code_def)
    moreover have "map_of (sessions s) i = Some old" by (rule expire_sessions(1) [OF assms(1) old(1)])
    ultimately show ?thesis using old(2,3) nm(2,3) 4(1) by auto
  next
    case (5 se)
    from session_message_ok(2,4) [OF 5(4) ok 5(1)] assms(3,4) 5(1,2) new show ?thesis
      by (cases "i = le32_at (drop 4 pkt) 2") auto
  qed
qed (use assms(3-5) in simp)

theorem login_needs_password_witness:
  "\<exists>r s' old. Handle plain_crypto ipmi_env rakp3_packet ipmi_client pending_server = Some (r, s') \<and>
     map_of (sessions pending_server) 5 = Some old \<and> se_addr old = ipmi_client \<and> \<not> se_active old"
proof -
  from rakp3_handled obtain r s' se' where
    h: "Handle plain_crypto ipmi_env rakp3_packet ipmi_client pending_server = Some (r, s')"
       "map_of (sessions s') 5 = Some se'" "se_active se'" by blast
  have "\<forall>se. map_of (sessions pending_server) 5 = Some se \<longrightarrow> \<not> se_active se"
    by (simp add: pending_server_def new_session_def)
  with login_needs_password [OF ipmi_server_ok(2) h this] show ?thesis using h by blast
qed

text \<open>
  Clients cannot disturb each other: an established session that has not been idle for its timeout
  is unchanged by any packet from another address, whatever it holds; a flood of new logins in particular never
  displaces it.
\<close>

theorem other_clients_cannot_touch:
  assumes "server_ok s" and "Handle c e pkt a s = Some (r, s')"
    and "map_of (sessions s) i = Some se" and "se_active se" and "se_addr se \<noteq> a" and "\<not> expired (e_now e) se"
  shows "map_of (sessions s') i = Some se"
  using assms(2)
proof (cases rule: Handle_cases)
  case 2
  let ?s = "expired_view e s"
  note ok = server_ok_expire [OF assms(1), of second "e_now e"]
  have keep: "map_of (sessions ?s) i = Some se" by (rule expire_sessions(2) [OF assms(1,3,6)])
  from 2 show ?thesis
  proof (cases rule: v20_cases)
    case (5 x)
    have "i \<noteq> le32_at (drop 4 pkt) 2" using 5(1,3) keep assms(5) by auto
    with session_message_ok(2) [OF 5(4) ok 5(1)] keep show ?thesis by simp
  qed (use assms(3,4) keep open_session(1) [OF _ ok keep assms(4)] rakp1_session(1) [OF _ ok keep assms(4)]
        rakp3_session(1) [OF _ ok keep assms(4)] in auto)
qed (use assms(3) in simp)

theorem other_clients_cannot_touch_witness:
  "\<exists>r s'. Handle plain_crypto ipmi_env on_packet ipmi_other ipmi_server = Some (r, s') \<and>
     map_of (sessions s') 5 = Some ipmi_session"
proof -
  have d: "ipmi_client \<noteq> ipmi_other" by (simp add: ipmi_client_def ipmi_other_def)
  have h: "Handle plain_crypto ipmi_env on_packet ipmi_other ipmi_server = Some (None, ipmi_server)"
    using on_packet_fields ipmi_server_fresh(1) d
    by (simp add: Handle_def v20_def Let_def ipmi_server_def ipmi_session_def new_session_def)
      (simp add: on_packet_def)
  have "map_of (sessions ipmi_server) 5 = Some ipmi_session" by (simp add: ipmi_server_def)
  moreover have "se_active ipmi_session" "se_addr ipmi_session \<noteq> ipmi_other" "\<not> expired (e_now ipmi_env) ipmi_session"
    using d by (simp_all add: ipmi_session_def new_session_def expired_def ipmi_env_def time_sub_def)
  ultimately show ?thesis using other_clients_cannot_touch [OF ipmi_server_ok(1) h] h by blast
qed

text \<open>
  C8. No packet is accepted twice: whatever sequence numbers arrive in a session, in any order and
  with any repetitions and jumps, those it accepts are distinct and not zero.
\<close>

theorem no_replay:
  "distinct (accepted qs (new_session i cid su mp now a)) \<and> 0 \<notin> set (accepted qs (new_session i cid su mp now a))"
  using accepted_distinct [of "{}" "new_session i cid su mp now a" qs] by (simp add: window_ok_def)

text \<open>
  C9. The tables of the server are bounded and its sessions are sound after any sequence of packets
  from anyone: at most 8 sessions, 1024 login counters and 32 events, one entry per key, and every
  established session belongs to the configured user with a privilege no higher than it was opened
  with.
\<close>

theorem ipmi_invariant:
  assumes "reachable server_init (packet_step c) s"
  shows "length (sessions s) \<le> 8 \<and> length (failed s) \<le> 1024 \<and> length (events s) \<le> 32 \<and>
    distinct (map fst (sessions s)) \<and> distinct (map fst (failed s)) \<and>
    (\<forall>i se. map_of (sessions s) i = Some se \<longrightarrow> managedID se = i \<and> maxPriv se \<le> privAdmin \<and>
       (se_active se \<longrightarrow> se_name se = Some (Username s) \<and> Password s \<noteq> [] \<and> priv se \<le> maxPriv se))"
proof -
  have ok: "server_ok s" by (rule ipmi.reachable_inv [OF assms])
  have "managedID se = i \<and> maxPriv se \<le> privAdmin \<and>
      (se_active se \<longrightarrow> se_name se = Some (Username s) \<and> Password s \<noteq> [] \<and> priv se \<le> maxPriv se)"
    if "map_of (sessions s) i = Some se" for i se
    using server_ok_session(1) [OF ok that] by (auto simp: session_ok_def)
  with ok show ?thesis by (auto simp: server_ok_def)
qed

theorem ipmi_invariant_witness:
  "length (sessions (ipmi_server\<lparr>sessions := []\<rparr>)) \<le> 8 \<and> reachable server_init (packet_step plain_crypto) (ipmi_server\<lparr>sessions := []\<rparr>)"
proof -
  have r: "reachable server_init (packet_step plain_crypto) (ipmi_server\<lparr>sessions := []\<rparr>)"
    by (rule reachable.start) (simp add: server_init_def ipmi_server_def)
  with ipmi_invariant [OF r] show ?thesis by blast
qed

text \<open>
  Password hashes are rationed: within one window of its login counter, however many RAKP messages 1 a
  client sends, the server hands out at most as many hashes as the limit of 20 leaves, and none once the
  limit is reached.
\<close>

theorem hashes_rationed:
  assumes "map_of (failed s) (clientKey a) = Some f"
    and "\<forall>(e, p) \<in> set ps. time_sub (e_now e) (f_since f) \<le> failWindow"
  shows "hashes c a ps s \<le> max 0 (20 - f_count f)"
  using hashes_bound [OF assms] by simp

theorem hashes_rationed_witness:
  "hashes plain_crypto ipmi_client (replicate 50 (ipmi_env, rakp3_packet))
     (ipmi_server\<lparr>failed := [(clientKey ipmi_client, \<lparr>f_count = 20, f_since = 0\<rparr>)]\<rparr>) \<le> 0"
  using hashes_rationed [of "ipmi_server\<lparr>failed := [(clientKey ipmi_client, \<lparr>f_count = 20, f_since = 0\<rparr>)]\<rparr>"
    ipmi_client "\<lparr>f_count = 20, f_since = 0\<rparr>" "replicate 50 (ipmi_env, rakp3_packet)" plain_crypto]
  by (auto simp: ipmi_env_def time_sub_def)

end
