(* ===== verification/Account_Store.thy ===== *)
theory Account_Store
  imports Prelude
begin

text \<open>
  The account store of \<open>authn/store.go\<close> and \<open>cache.go\<close>: the users of the web interface in one file,
  with its parsed form cached under the file's identity. Every method is one function that runs
  under the store's lock; \<open>Authenticate\<close> gives the lock up in the middle and is two. The content
  of the file is what its JSON parses to. bcrypt and the old reversible passwords are functions of a
  record; what a call meets in the system (faults, random numbers, the clock) is its environment.
\<close>

section \<open>Data\<close>

datatype Role = RoleAdmin | RoleUser | RoleOther string

record User =
  u_name :: string
  PasswordHash :: string
  u_role :: Role
  Enabled :: bool
  TokenVersion :: "64 word"
  MustChangePassword :: bool
  SystemAccount :: bool

record UserPatch =
  p_name :: "string option"
  p_role :: "Role option"
  p_enabled :: "bool option"

record database =
  Version :: int
  Users :: "User list"
  LegacyUsername :: string
  LegacyPassword :: string

datatype acct_error =
    ErrUserNotFound
  | ErrUserExists
  | ErrLastAdmin
  | ErrSelfModification
  | ErrSelfDelete
  | ErrSystemAccount
  | ErrSystemAccountRename
  | ErrUsername
  | ErrPassword
  | ErrRole
  | ErrVersion int
  | ErrNoUsers
  | ErrInvalidUser
  | ErrDuplicate
  | ErrInvalidFile
  | ErrRevoked
  | ErrIO
  | ErrHash
  | ErrRandom
  | ErrExpect string
  | ErrSystem string
  | ErrRollback acct_error

text \<open>
  \<open>LegacyJson u p\<close> is JSON that is not a database of a known version and whose top-level user name and
  password are \<open>u\<close> and \<open>p\<close>, empty when absent.
\<close>

datatype account_file = NoFile | DbJson database | LegacyJson string string | BadJson

text \<open>Size, modification time, and the inode, device and change time as one number.\<close>

record fileStamp =
  fs_size :: int
  fs_modTime :: time
  fs_sys :: nat

record Store =
  st_file :: account_file
  st_stamp :: fileStamp
  st_cache :: "(fileStamp \<times> database) option"

record passwords =
  CompareHashAndPassword :: "string \<Rightarrow> string \<Rightarrow> bool"
  DecodeDecrypt :: "string \<Rightarrow> string option"

datatype save_fault = BeforeRename | AfterRename

record store_env =
  se_now :: time
  se_statFails :: bool
  se_readFails :: bool
  se_hash :: "string option"
  se_default :: "string option"
  se_draws :: "64 word list"
  se_save :: "save_fault option"
  se_stamp :: fileStamp
  se_rollback :: "save_fault option"
  se_rollbackStamp :: fileStamp
  se_migrate :: "save_fault option"
  se_migrateStamp :: fileStamp

section \<open>Checks\<close>

definition defaultUsername :: string where "defaultUsername = ''admin''"
definition defaultPassword :: string where "defaultPassword = ''admin''"
abbreviation currentFileVersion :: int where "currentFileVersion \<equiv> 1"

definition IsValidRole :: "Role \<Rightarrow> bool" where
  "IsValidRole r \<longleftrightarrow> r = RoleAdmin \<or> r = RoleUser"

definition alnum :: "char \<Rightarrow> bool" where
  "alnum c \<longleftrightarrow> c \<in> set ''ABCDEFGHIJKLMNOPQRSTUVWXYZabcdefghijklmnopqrstuvwxyz0123456789''"

definition ValidateUsername :: "string \<Rightarrow> bool" where
  "ValidateUsername s \<longleftrightarrow>
     (case s of
        [] \<Rightarrow> False
      | c # cs \<Rightarrow> alnum c \<and> length cs \<le> 31 \<and> list_all (\<lambda>d. alnum d \<or> d \<in> set ''_.-'') cs)"

definition ValidatePassword :: "string \<Rightarrow> bool" where
  "ValidatePassword p \<longleftrightarrow> 8 \<le> length p \<and> length p \<le> 72"

definition enabledAdminCount :: "User list \<Rightarrow> nat" where
  "enabledAdminCount us = length (filter (\<lambda>u. u_role u = RoleAdmin \<and> Enabled u) us)"

fun userIndex :: "User list \<Rightarrow> string \<Rightarrow> nat option" where
  "userIndex [] n = None"
| "userIndex (u # us) n = (if u_name u = n then Some 0 else map_option Suc (userIndex us n))"

definition findUser :: "User list \<Rightarrow> string \<Rightarrow> User option" where
  "findUser us n = map_option (\<lambda>i. us ! i) (userIndex us n)"

text \<open>The loop of \<open>validateDatabase\<close>, with the names seen and the system accounts counted.\<close>

definition fix_token :: "User \<Rightarrow> User" where
  "fix_token u = (if TokenVersion u = 0 then u\<lparr>TokenVersion := 1\<rparr> else u)"

fun validate_users :: "string list \<Rightarrow> nat \<Rightarrow> User list \<Rightarrow> acct_error + User list" where
  "validate_users seen sys [] = Inr []"
| "validate_users seen sys (u # us) =
     (if \<not> ValidateUsername (u_name u) then Inl ErrUsername
      else if PasswordHash u = [] \<or> \<not> IsValidRole (u_role u) then Inl ErrInvalidUser
      else if u_name u \<in> set seen then Inl ErrDuplicate
      else let sys' = (if SystemAccount u then Suc sys else sys) in
        if SystemAccount u \<and> (u_role u \<noteq> RoleAdmin \<or> \<not> Enabled u \<or> sys' > 1) then Inl ErrSystemAccount
        else case validate_users (u_name u # seen) sys' us of
          Inl e \<Rightarrow> Inl e
        | Inr us' \<Rightarrow> Inr (fix_token u # us'))"

definition validateDatabase :: "database \<Rightarrow> acct_error + database" where
  "validateDatabase db =
     (if Version db \<noteq> currentFileVersion then Inl (ErrVersion (Version db))
      else if Users db = [] then Inl ErrNoUsers
      else case validate_users [] 0 (Users db) of
        Inl e \<Rightarrow> Inl e
      | Inr us \<Rightarrow> if enabledAdminCount us = 0 then Inl ErrLastAdmin else Inr (db\<lparr>Users := us\<rparr>))"

text \<open>The account an old release would find: the system account, or the first enabled administrator.\<close>

fun legacy_account :: "User option \<Rightarrow> User list \<Rightarrow> User option" where
  "legacy_account fallback [] = fallback"
| "legacy_account fallback (u # us) =
     (if SystemAccount u then Some u
      else legacy_account (if fallback = None \<and> u_role u = RoleAdmin \<and> Enabled u then Some u else fallback) us)"

definition syncLegacyAccount :: "database \<Rightarrow> database" where
  "syncLegacyAccount db =
     (case legacy_account None (Users db) of
        None \<Rightarrow> db\<lparr>LegacyUsername := [], LegacyPassword := []\<rparr>
      | Some u \<Rightarrow> db\<lparr>LegacyUsername := u_name u, LegacyPassword := PasswordHash u\<rparr>)"

text \<open>The first draw that is neither zero nor the largest number; \<open>None\<close> when reading random bytes failed.\<close>

definition newTokenVersion :: "64 word list \<Rightarrow> 64 word option" where
  "newTokenVersion draws = find (\<lambda>v. v \<noteq> 0 \<and> v \<noteq> - 1) draws"

definition passwordMatches :: "passwords \<Rightarrow> string \<Rightarrow> string \<Rightarrow> bool" where
  "passwordMatches pw h p \<longleftrightarrow> CompareHashAndPassword pw h p \<or> DecodeDecrypt pw h = Some p"

section \<open>Loading and saving\<close>

abbreviation settleTime :: duration where "settleTime \<equiv> 5 * second"

definition settled :: "fileStamp \<Rightarrow> time \<Rightarrow> bool" where
  "settled a now \<longleftrightarrow> time_sub now (fs_modTime a) \<ge> settleTime"

datatype read_out = RErr acct_error | RDb database | RRaw account_file | RNone

definition read_file :: "store_env \<Rightarrow> Store \<Rightarrow> read_out \<times> Store" where
  "read_file e s =
     (if se_readFails e then (RErr ErrIO, s)
      else case st_file s of
        DbJson db \<Rightarrow>
          (case validateDatabase db of
             Inl err \<Rightarrow> (RErr err, s\<lparr>st_cache := None\<rparr>)
           | Inr db \<Rightarrow> (RDb db, s\<lparr>st_cache := (if settled (st_stamp s) (se_now e) then Some (st_stamp s, db) else None)\<rparr>))
      | f \<Rightarrow> (RRaw f, s\<lparr>st_cache := None\<rparr>))"

definition readLocked :: "store_env \<Rightarrow> Store \<Rightarrow> read_out \<times> Store" where
  "readLocked e s =
     (if se_statFails e then (RErr ErrIO, s)
      else if st_file s = NoFile then (RNone, s\<lparr>st_cache := None\<rparr>)
      else case st_cache s of
        Some (stamp, db) \<Rightarrow>
          if settled stamp (se_now e) \<and> stamp = st_stamp s then (RDb db, s) else read_file e s
      | None \<Rightarrow> read_file e s)"

definition save_with :: "save_fault option \<Rightarrow> fileStamp \<Rightarrow> database \<Rightarrow> Store \<Rightarrow> (acct_error + database) \<times> Store" where
  "save_with fault stamp db s =
     (case validateDatabase db of
        Inl err \<Rightarrow> (Inl err, s\<lparr>st_cache := None\<rparr>)
      | Inr db \<Rightarrow>
          (let db = syncLegacyAccount db;
               saved = s\<lparr>st_file := DbJson db, st_stamp := stamp, st_cache := None\<rparr>
           in case fault of
                Some BeforeRename \<Rightarrow> (Inl ErrIO, s\<lparr>st_cache := None\<rparr>)
              | Some AfterRename \<Rightarrow> (Inl ErrIO, saved)
              | None \<Rightarrow> (Inr db, saved)))"

text \<open>\<open>Inr\<close> is the database as the save left it in memory.\<close>

definition saveLocked :: "store_env \<Rightarrow> database \<Rightarrow> Store \<Rightarrow> (acct_error + database) \<times> Store" where
  "saveLocked e = save_with (se_save e) (se_stamp e)"

definition first_account :: "string \<Rightarrow> string \<Rightarrow> 64 word \<Rightarrow> bool \<Rightarrow> database" where
  "first_account n h v must = \<lparr>Version = currentFileVersion,
     Users = [\<lparr>u_name = n, PasswordHash = h, u_role = RoleAdmin, Enabled = True, TokenVersion = v,
               MustChangePassword = must, SystemAccount = True\<rparr>],
     LegacyUsername = [], LegacyPassword = []\<rparr>"

definition defaultDatabase :: "store_env \<Rightarrow> acct_error + database" where
  "defaultDatabase e =
     (case se_default e of
        None \<Rightarrow> Inl ErrHash
      | Some h \<Rightarrow>
          (case newTokenVersion (se_draws e) of
             None \<Rightarrow> Inl ErrRandom
           | Some v \<Rightarrow> Inr (first_account defaultUsername h v True)))"

definition migrated :: "bool \<Rightarrow> store_env \<Rightarrow> database \<Rightarrow> Store \<Rightarrow> (acct_error + database) \<times> Store" where
  "migrated migrate e db s =
     (if migrate
      then case save_with (se_migrate e) (se_migrateStamp e) db s of
             (Inl err, s) \<Rightarrow> (Inl err, s) | (Inr db, s) \<Rightarrow> (Inr db, s)
      else (Inr db, s))"

definition loadLocked :: "passwords \<Rightarrow> store_env \<Rightarrow> bool \<Rightarrow> Store \<Rightarrow> (acct_error + database) \<times> Store" where
  "loadLocked pw e migrate s =
     (case readLocked e s of
        (RErr err, s) \<Rightarrow> (Inl err, s)
      | (RDb db, s) \<Rightarrow> (Inr db, s)
      | (RNone, s) \<Rightarrow>
          (case defaultDatabase e of Inl err \<Rightarrow> (Inl err, s) | Inr db \<Rightarrow> migrated migrate e db s)
      | (RRaw f, s) \<Rightarrow>
          (case f of
             LegacyJson n p \<Rightarrow>
               if n = [] \<or> p = [] then (Inl ErrInvalidFile, s)
               else if \<not> ValidateUsername n then (Inl ErrUsername, s)
               else (case newTokenVersion (se_draws e) of
                       None \<Rightarrow> (Inl ErrRandom, s)
                     | Some v \<Rightarrow> migrated migrate e (first_account n p v (passwordMatches pw p defaultPassword)) s)
           | _ \<Rightarrow> (Inl ErrInvalidFile, s)))"

section \<open>Operations\<close>

definition with_db :: "passwords \<Rightarrow> store_env \<Rightarrow> (database \<Rightarrow> Store \<Rightarrow> (acct_error + 'a) \<times> Store) \<Rightarrow> Store \<Rightarrow>
    (acct_error + 'a) \<times> Store" where
  "with_db pw e f s =
     (case loadLocked pw e True s of (Inl err, s) \<Rightarrow> (Inl err, s) | (Inr db, s) \<Rightarrow> f db s)"

definition Get :: "passwords \<Rightarrow> store_env \<Rightarrow> string \<Rightarrow> Store \<Rightarrow> (acct_error + User) \<times> Store" where
  "Get pw e n s =
     (case loadLocked pw e False s of
        (Inl err, s) \<Rightarrow> (Inl err, s)
      | (Inr db, s) \<Rightarrow> (case findUser (Users db) n of None \<Rightarrow> Inl ErrUserNotFound | Some u \<Rightarrow> Inr u, s))"

definition ValidateToken :: "passwords \<Rightarrow> store_env \<Rightarrow> string \<Rightarrow> 64 word \<Rightarrow> Store \<Rightarrow> (acct_error + User) \<times> Store" where
  "ValidateToken pw e n v s =
     (case Get pw e n s of
        (Inl err, s) \<Rightarrow> (Inl err, s)
      | (Inr u, s) \<Rightarrow> (if \<not> Enabled u \<or> TokenVersion u \<noteq> v then Inl ErrRevoked else Inr u, s))"

record UserInfo =
  ui_name :: string
  ui_role :: Role
  ui_enabled :: bool
  ui_system :: bool

definition List :: "passwords \<Rightarrow> store_env \<Rightarrow> Store \<Rightarrow> (acct_error + UserInfo list) \<times> Store" where
  "List pw e s =
     (case loadLocked pw e False s of
        (Inl err, s) \<Rightarrow> (Inl err, s)
      | (Inr db, s) \<Rightarrow> (Inr (map (\<lambda>u. \<lparr>ui_name = u_name u, ui_role = u_role u, ui_enabled = Enabled u,
            ui_system = SystemAccount u\<rparr>) (Users db)), s))"

definition create_in :: "store_env \<Rightarrow> User \<Rightarrow> database \<Rightarrow> Store \<Rightarrow> (acct_error + unit) \<times> Store" where
  "create_in e u db s =
     (if findUser (Users db) (u_name u) \<noteq> None then (Inl ErrUserExists, s)
      else case saveLocked e (db\<lparr>Users := Users db @ [u]\<rparr>) s of
        (Inl err, s) \<Rightarrow> (Inl err, s)
      | (Inr _, s) \<Rightarrow> (Inr (), s))"

definition Create :: "passwords \<Rightarrow> store_env \<Rightarrow> string \<Rightarrow> string \<Rightarrow> Role \<Rightarrow> Store \<Rightarrow> (acct_error + unit) \<times> Store" where
  "Create pw e n p r s =
     (if \<not> ValidateUsername n then (Inl ErrUsername, s)
      else if \<not> ValidatePassword p then (Inl ErrPassword, s)
      else if \<not> IsValidRole r then (Inl ErrRole, s)
      else case (se_hash e, newTokenVersion (se_draws e)) of
        (None, _) \<Rightarrow> (Inl ErrHash, s)
      | (Some h, None) \<Rightarrow> (Inl ErrRandom, s)
      | (Some h, Some v) \<Rightarrow>
          with_db pw e (create_in e \<lparr>u_name = n, PasswordHash = h, u_role = r, Enabled = True,
            TokenVersion = v, MustChangePassword = False, SystemAccount = False\<rparr>) s)"

definition patch_check :: "string \<Rightarrow> string \<Rightarrow> UserPatch \<Rightarrow> User \<Rightarrow> User list \<Rightarrow> acct_error option" where
  "patch_check actor n p u us =
     (let demotes = ((\<exists>r. p_role p = Some r \<and> r \<noteq> RoleAdmin) \<or> p_enabled p = Some False);
          renames = (case p_name p of None \<Rightarrow> False | Some m \<Rightarrow> m \<noteq> n)
      in if (case p_name p of None \<Rightarrow> False | Some m \<Rightarrow> \<not> ValidateUsername m) then Some ErrUsername
         else if renames \<and> userIndex us (the (p_name p)) \<noteq> None then Some ErrUserExists
         else if SystemAccount u \<and> renames \<and> actor \<noteq> n then Some ErrSystemAccountRename
         else if (case p_role p of None \<Rightarrow> False | Some r \<Rightarrow> \<not> IsValidRole r) then Some ErrRole
         else if actor = n \<and> u_role u = RoleAdmin \<and> demotes then Some ErrSelfModification
         else if SystemAccount u \<and> demotes then Some ErrSystemAccount
         else None)"

definition patched :: "UserPatch \<Rightarrow> User \<Rightarrow> User" where
  "patched p u = u\<lparr>u_name := (case p_name p of None \<Rightarrow> u_name u | Some m \<Rightarrow> m),
     u_role := (case p_role p of None \<Rightarrow> u_role u | Some r \<Rightarrow> r),
     Enabled := (case p_enabled p of None \<Rightarrow> Enabled u | Some b \<Rightarrow> b)\<rparr>"

definition bump :: "User \<Rightarrow> User" where
  "bump u = u\<lparr>TokenVersion := TokenVersion u + 1\<rparr>"

text \<open>A save, and the user at an index of the database as saved.\<close>

definition save_user :: "store_env \<Rightarrow> database \<Rightarrow> nat \<Rightarrow> Store \<Rightarrow> (acct_error + User) \<times> Store" where
  "save_user e db i s =
     (case saveLocked e db s of (Inl err, s) \<Rightarrow> (Inl err, s) | (Inr db, s) \<Rightarrow> (Inr (Users db ! i), s))"

definition update_in :: "store_env \<Rightarrow> string \<Rightarrow> string \<Rightarrow> UserPatch \<Rightarrow> database \<Rightarrow> Store \<Rightarrow>
    (acct_error + User \<times> bool) \<times> Store" where
  "update_in e actor n p db s =
     (case userIndex (Users db) n of
        None \<Rightarrow> (Inl ErrUserNotFound, s)
      | Some i \<Rightarrow>
          (let u = Users db ! i; u' = patched p u in
           case patch_check actor n p u (Users db) of
             Some err \<Rightarrow> (Inl err, s)
           | None \<Rightarrow>
               if u' = u then (Inr (u, False), s)
               else if enabledAdminCount ((Users db)[i := u']) = 0 then (Inl ErrLastAdmin, s)
               else case save_user e (db\<lparr>Users := (Users db)[i := bump u']\<rparr>) i s of
                 (Inl err, s) \<Rightarrow> (Inl err, s)
               | (Inr x, s) \<Rightarrow> (Inr (x, True), s)))"

definition Update :: "passwords \<Rightarrow> store_env \<Rightarrow> string \<Rightarrow> string \<Rightarrow> UserPatch \<Rightarrow> Store \<Rightarrow>
    (acct_error + User \<times> bool) \<times> Store" where
  "Update pw e actor n p = with_db pw e (update_in e actor n p)"

definition delete_in :: "store_env \<Rightarrow> string \<Rightarrow> database \<Rightarrow> Store \<Rightarrow> (acct_error + unit) \<times> Store" where
  "delete_in e n db s =
     (case userIndex (Users db) n of
        None \<Rightarrow> (Inl ErrUserNotFound, s)
      | Some i \<Rightarrow>
          if SystemAccount (Users db ! i) then (Inl ErrSystemAccount, s)
          else let us = take i (Users db) @ drop (i + 1) (Users db) in
            if enabledAdminCount us = 0 then (Inl ErrLastAdmin, s)
            else case saveLocked e (db\<lparr>Users := us\<rparr>) s of
              (Inl err, s) \<Rightarrow> (Inl err, s)
            | (Inr _, s) \<Rightarrow> (Inr (), s))"

definition Delete :: "passwords \<Rightarrow> store_env \<Rightarrow> string \<Rightarrow> string \<Rightarrow> Store \<Rightarrow> (acct_error + unit) \<times> Store" where
  "Delete pw e actor n s = (if actor = n then (Inl ErrSelfDelete, s) else with_db pw e (delete_in e n) s)"

definition set_password :: "string \<Rightarrow> User \<Rightarrow> User" where
  "set_password h u = bump (u\<lparr>PasswordHash := h, MustChangePassword := False\<rparr>)"

text \<open>\<open>expect\<close> and \<open>afterCommit\<close> give the error they return, if any.\<close>

definition set_password_in :: "store_env \<Rightarrow> string \<Rightarrow> string \<Rightarrow> (User \<Rightarrow> string option) \<Rightarrow> string option \<Rightarrow> database \<Rightarrow>
    Store \<Rightarrow> (acct_error + User) \<times> Store" where
  "set_password_in e n h expect afterCommit db s =
     (case userIndex (Users db) n of
        None \<Rightarrow> (Inl ErrUserNotFound, s)
      | Some i \<Rightarrow>
          (case expect (Users db ! i) of
             Some err \<Rightarrow> (Inl (ErrExpect err), s)
           | None \<Rightarrow>
               (case save_user e (db\<lparr>Users := (Users db)[i := set_password h (Users db ! i)]\<rparr>) i s of
                  (Inl err, s) \<Rightarrow> (Inl err, s)
                | (Inr u, s) \<Rightarrow>
                    (case afterCommit of
                       None \<Rightarrow> (Inr u, s)
                     | Some err \<Rightarrow>
                         (case save_with (se_rollback e) (se_rollbackStamp e) db s of
                            (Inl rb, s) \<Rightarrow> (Inl (ErrRollback rb), s)
                          | (Inr _, s) \<Rightarrow> (Inl (ErrSystem err), s))))))"

definition SetPasswordAndRunIf :: "passwords \<Rightarrow> store_env \<Rightarrow> string \<Rightarrow> string \<Rightarrow> (User \<Rightarrow> string option) \<Rightarrow>
    string option \<Rightarrow> Store \<Rightarrow> (acct_error + User) \<times> Store" where
  "SetPasswordAndRunIf pw e n p expect afterCommit s =
     (if \<not> ValidatePassword p then (Inl ErrPassword, s)
      else case se_hash e of
        None \<Rightarrow> (Inl ErrHash, s)
      | Some h \<Rightarrow> with_db pw e (set_password_in e n h expect afterCommit) s)"

definition revoke_in :: "store_env \<Rightarrow> string \<Rightarrow> database \<Rightarrow> Store \<Rightarrow> (acct_error + User) \<times> Store" where
  "revoke_in e n db s =
     (case userIndex (Users db) n of
        None \<Rightarrow> (Inl ErrUserNotFound, s)
      | Some i \<Rightarrow> save_user e (db\<lparr>Users := (Users db)[i := bump (Users db ! i)]\<rparr>) i s)"

definition Revoke :: "passwords \<Rightarrow> store_env \<Rightarrow> string \<Rightarrow> Store \<Rightarrow> (acct_error + User) \<times> Store" where
  "Revoke pw e n = with_db pw e (revoke_in e n)"

text \<open>
  \<open>Authenticate\<close> up to the comparison of the password: \<open>Inr (Some (u, True))\<close> is a login that needs no
  upgrade, \<open>Inr (Some (u, False))\<close> one with a password of the old kind, \<open>Inr None\<close> a failed one. The
  upgrade runs later, on whatever the store is then.
\<close>

definition auth_check :: "passwords \<Rightarrow> store_env \<Rightarrow> string \<Rightarrow> string \<Rightarrow> Store \<Rightarrow>
    (acct_error + (User \<times> bool) option) \<times> Store" where
  "auth_check pw e n p =
     with_db pw e (\<lambda>db s.
       (case findUser (Users db) n of
          None \<Rightarrow> Inr None
        | Some u \<Rightarrow>
            if \<not> Enabled u then Inr None
            else if CompareHashAndPassword pw (PasswordHash u) p then Inr (Some (u, True))
            else if DecodeDecrypt pw (PasswordHash u) = Some p then Inr (Some (u, False))
            else Inr None, s))"

definition upgrade_in :: "store_env \<Rightarrow> User \<Rightarrow> string \<Rightarrow> string \<Rightarrow> database \<Rightarrow> Store \<Rightarrow> (acct_error + User option) \<times> Store" where
  "upgrade_in e user n h db s =
     (case userIndex (Users db) n of
        None \<Rightarrow> (Inr None, s)
      | Some i \<Rightarrow>
          (let u = Users db ! i; u' = fix_token (u\<lparr>PasswordHash := h\<rparr>) in
           if \<not> Enabled u \<or> PasswordHash u \<noteq> PasswordHash user then (Inr None, s)
           else case saveLocked e (db\<lparr>Users := (Users db)[i := u']\<rparr>) s of
             (Inl err, s) \<Rightarrow> (Inl err, s)
           | (Inr _, s) \<Rightarrow> (Inr (Some u'), s)))"

definition auth_upgrade :: "passwords \<Rightarrow> store_env \<Rightarrow> User \<Rightarrow> string \<Rightarrow> Store \<Rightarrow> (acct_error + User option) \<times> Store" where
  "auth_upgrade pw e user n s =
     (case se_hash e of None \<Rightarrow> (Inl ErrHash, s) | Some h \<Rightarrow> with_db pw e (upgrade_in e user n h) s)"

section \<open>Specification\<close>

text \<open>What a database must be: at least one enabled administrator, one account per name, and at most
  one device owner, who is an enabled administrator.\<close>

definition user_ok :: "User \<Rightarrow> bool" where
  "user_ok u \<longleftrightarrow> ValidateUsername (u_name u) \<and> PasswordHash u \<noteq> [] \<and> IsValidRole (u_role u) \<and>
     (SystemAccount u \<longrightarrow> u_role u = RoleAdmin \<and> Enabled u)"

definition valid_users :: "User list \<Rightarrow> bool" where
  "valid_users us \<longleftrightarrow> distinct (map u_name us) \<and> (\<forall>u \<in> set us. user_ok u \<and> TokenVersion u \<noteq> 0) \<and>
     length (filter SystemAccount us) \<le> 1 \<and> (\<exists>u \<in> set us. u_role u = RoleAdmin \<and> Enabled u)"

text \<open>The users a store has, as far as its file says.\<close>

definition current :: "Store \<Rightarrow> User list option" where
  "current s =
     (case st_file s of
        DbJson f \<Rightarrow> (case validateDatabase f of Inr db \<Rightarrow> Some (Users db) | Inl _ \<Rightarrow> None)
      | _ \<Rightarrow> None)"

definition token_ok :: "Store \<Rightarrow> string \<Rightarrow> 64 word \<Rightarrow> bool" where
  "token_ok s n v \<longleftrightarrow> (\<exists>us u. current s = Some us \<and> u \<in> set us \<and> u_name u = n \<and> Enabled u \<and> TokenVersion u = v)"

text \<open>A file that is a database is a valid one; and a cached database with the file's stamp is the file's.\<close>

definition cache_ok :: "Store \<Rightarrow> bool" where
  "cache_ok s \<longleftrightarrow> (\<forall>stamp db. st_cache s = Some (stamp, db) \<longrightarrow> stamp = st_stamp s \<longrightarrow>
     (\<exists>f. st_file s = DbJson f \<and> validateDatabase f = Inr db))"

text \<open>Every operation, with any arguments and any faults.\<close>

inductive store_step :: "passwords \<Rightarrow> Store \<Rightarrow> Store \<Rightarrow> bool" for pw :: passwords where
  lists: "List pw e s = (x, t) \<Longrightarrow> store_step pw s t"
| gets: "Get pw e n s = (y, t) \<Longrightarrow> store_step pw s t"
| validates: "ValidateToken pw e n v s = (y, t) \<Longrightarrow> store_step pw s t"
| creates: "Create pw e n p r s = (z, t) \<Longrightarrow> store_step pw s t"
| updates: "Update pw e actor n patch s = (w, t) \<Longrightarrow> store_step pw s t"
| deletes: "Delete pw e actor n s = (z, t) \<Longrightarrow> store_step pw s t"
| sets: "SetPasswordAndRunIf pw e n p expect after s = (y, t) \<Longrightarrow> store_step pw s t"
| revokes: "Revoke pw e n s = (y, t) \<Longrightarrow> store_step pw s t"
| checks: "auth_check pw e n p s = (a, t) \<Longrightarrow> store_step pw s t"
| upgrades: "auth_upgrade pw e u n s = (b, t) \<Longrightarrow> store_step pw s t"

text \<open>What an operation may do to the file: nothing, or replace it by a valid database that keeps the owner.\<close>

definition has_owner :: "User list \<Rightarrow> bool" where
  "has_owner us \<longleftrightarrow> (\<exists>u \<in> set us. SystemAccount u)"

definition step_rel :: "Store \<Rightarrow> Store \<Rightarrow> bool" where
  "step_rel s t \<longleftrightarrow> cache_ok t \<and>
     (st_file t = st_file s \<or>
      (\<exists>us. current t = Some us \<and> (\<forall>us0. current s = Some us0 \<longrightarrow> has_owner us0 \<longrightarrow> has_owner us)))"

section \<open>Lemmas\<close>

subsection \<open>Validation\<close>

lemma fix_token_simps [simp]:
  "u_name (fix_token u) = u_name u" "u_role (fix_token u) = u_role u" "Enabled (fix_token u) = Enabled u"
  "SystemAccount (fix_token u) = SystemAccount u" "PasswordHash (fix_token u) = PasswordHash u"
  "TokenVersion (fix_token u) \<noteq> 0" "user_ok (fix_token u) = user_ok u"
  by (simp_all add: fix_token_def user_ok_def)

lemma fix_token_id: "TokenVersion u \<noteq> 0 \<Longrightarrow> fix_token u = u"
  by (simp add: fix_token_def)

lemma validate_users_cons:
  "validate_users seen sys (u # us) = Inr us' \<longleftrightarrow>
     user_ok u \<and> u_name u \<notin> set seen \<and> (SystemAccount u \<longrightarrow> sys = 0) \<and>
     (\<exists>r. validate_users (u_name u # seen) (if SystemAccount u then Suc sys else sys) us = Inr r \<and>
        us' = fix_token u # r)"
  by (auto simp: user_ok_def Let_def simp del: split_paired_Ex split: sum.splits)

declare validate_users.simps(2) [simp del]

lemma validate_users_iff:
  "validate_users seen sys us = Inr us' \<longleftrightarrow> us' = map fix_token us \<and> distinct (map u_name us) \<and>
     set seen \<inter> u_name ` set us = {} \<and> (\<forall>u \<in> set us. user_ok u) \<and>
     (filter SystemAccount us = [] \<or> sys + length (filter SystemAccount us) \<le> 1)"
proof (induction us arbitrary: seen sys us')
  case (Cons u us)
  show ?case unfolding validate_users_cons Cons.IH by auto
qed auto

lemma admin_count: "enabledAdminCount us = 0 \<longleftrightarrow> \<not> (\<exists>u \<in> set us. u_role u = RoleAdmin \<and> Enabled u)"
  by (auto simp: enabledAdminCount_def filter_empty_conv)

lemma validateDatabase_iff:
  "validateDatabase db = Inr db' \<longleftrightarrow> Version db = currentFileVersion \<and>
     db' = db\<lparr>Users := map fix_token (Users db)\<rparr> \<and> valid_users (Users db')"
proof -
  have "validateDatabase db = Inr db' \<longleftrightarrow> Version db = currentFileVersion \<and> Users db \<noteq> [] \<and>
      (\<exists>us. validate_users [] 0 (Users db) = Inr us \<and> enabledAdminCount us \<noteq> 0 \<and> db' = db\<lparr>Users := us\<rparr>)"
    by (auto simp: validateDatabase_def split: sum.splits)
  also have "\<dots> \<longleftrightarrow> Version db = currentFileVersion \<and> db' = db\<lparr>Users := map fix_token (Users db)\<rparr> \<and>
      valid_users (Users db')"
    unfolding validate_users_iff admin_count valid_users_def
    by (cases db) (auto simp: filter_map comp_def; blast)
  finally show ?thesis .
qed

lemma validate_valid:
  assumes "validateDatabase f = Inr db"
  shows "valid_users (Users db)" and "Version db = 1" and "validateDatabase db = Inr db"
proof -
  show v: "valid_users (Users db)" "Version db = 1" using assms by (auto simp: validateDatabase_iff)
  have "map fix_token (Users db) = Users db"
    by (rule map_idI) (use v(1) in \<open>auto simp: valid_users_def fix_token_id\<close>)
  with v show "validateDatabase db = Inr db" by (simp add: validateDatabase_iff)
qed

lemma sync_simps [simp]: "Users (syncLegacyAccount db) = Users db" "Version (syncLegacyAccount db) = Version db"
  by (simp_all add: syncLegacyAccount_def split: option.splits)

lemma validate_sync: "validateDatabase db = Inr db \<Longrightarrow> validateDatabase (syncLegacyAccount db) = Inr (syncLegacyAccount db)"
  by (cases db) (auto simp: validateDatabase_iff syncLegacyAccount_def split: option.splits)

subsection \<open>Users by name\<close>

lemma userIndex_some: "userIndex us n = Some i \<Longrightarrow> i < length us \<and> u_name (us ! i) = n"
  by (induction us arbitrary: i) (auto split: if_splits)

lemma userIndex_none: "userIndex us n = None \<longleftrightarrow> n \<notin> u_name ` set us"
  by (induction us) (auto split: if_splits)

lemma findUser_iff:
  assumes "distinct (map u_name us)"
  shows "findUser us n = Some u \<longleftrightarrow> u \<in> set us \<and> u_name u = n"
proof
  assume "findUser us n = Some u"
  then show "u \<in> set us \<and> u_name u = n" by (auto simp: findUser_def dest!: userIndex_some)
next
  assume u: "u \<in> set us \<and> u_name u = n"
  then obtain i where i: "userIndex us n = Some i" using userIndex_none [of us n] by fastforce
  have "us ! i = u" using userIndex_some [OF i] u assms by (metis distinct_map inj_onD nth_mem)
  with i show "findUser us n = Some u" by (simp add: findUser_def)
qed

subsection \<open>Loading and saving\<close>

lemma save_cases:
  assumes "save_with fault stamp db s = (r, t)"
  obtains err where "r = Inl err" and "st_file t = st_file s" and "st_stamp t = st_stamp s" and "st_cache t = None"
  | db' where "validateDatabase db = Inr db'" and "t = s\<lparr>st_file := DbJson (syncLegacyAccount db'), st_stamp := stamp,
        st_cache := None\<rparr>"
    and "r = Inr (syncLegacyAccount db') \<or> (r = Inl ErrIO \<and> fault = Some AfterRename)"
proof (cases "validateDatabase db")
  case (Inl err)
  with assms show ?thesis by (intro that(1) [of err]) (auto simp: save_with_def)
next
  case (Inr db')
  with assms show ?thesis
    by (cases fault; cases "the fault") (auto simp: save_with_def Let_def intro: that)
qed

text \<open>What a saved store holds.\<close>

lemma saved_current:
  assumes "validateDatabase db = Inr db'"
  shows "current (s\<lparr>st_file := DbJson (syncLegacyAccount db'), st_stamp := stamp, st_cache := None\<rparr>) = Some (Users db')"
  using validate_sync [OF validate_valid(3) [OF assms]] by (simp add: current_def)

lemma cache_ok_none: "st_cache s = None \<Longrightarrow> cache_ok s"
  by (simp add: cache_ok_def)

lemma save_ok:
  assumes "save_with fault stamp db s = (r, t)"
  shows "cache_ok t"
  using assms by (cases rule: save_cases) (auto simp: cache_ok_def)

lemma save_inr:
  assumes "save_with fault stamp db s = (Inr db', t)"
  shows "current t = Some (Users db')" and "Users db' = map fix_token (Users db)"
    and "st_file t = DbJson db'" and "validateDatabase db' = Inr db'"
proof -
  from assms obtain x where x: "validateDatabase db = Inr x" "db' = syncLegacyAccount x"
    "t = s\<lparr>st_file := DbJson db', st_stamp := stamp, st_cache := None\<rparr>"
    by (cases rule: save_cases) auto
  show v: "validateDatabase db' = Inr db'" using validate_sync [OF validate_valid(3) [OF x(1)]] x(2) by simp
  show "current t = Some (Users db')" "st_file t = DbJson db'" using x(3) v by (simp_all add: current_def)
  show "Users db' = map fix_token (Users db)" using x(1,2) by (auto simp: validateDatabase_iff)
qed

lemma current_cong: "st_file t = st_file s \<Longrightarrow> current t = current s"
  by (simp add: current_def)

lemma step_rel_trans: "step_rel s s1 \<Longrightarrow> step_rel s1 t \<Longrightarrow> step_rel s t"
  unfolding step_rel_def using current_cong by metis

lemma save_step:
  assumes "save_with fault stamp db s = (r, t)"
    and "\<And>us0. current s = Some us0 \<Longrightarrow> has_owner us0 \<Longrightarrow> has_owner (Users db)"
  shows "step_rel s t"
  using assms(1)
proof (cases rule: save_cases)
  case (2 db')
  have "Users db' = map fix_token (Users db)" using 2(1) by (auto simp: validateDatabase_iff)
  then have "has_owner (Users db') = has_owner (Users db)" by (auto simp: has_owner_def)
  with assms(2) saved_current [OF 2(1)] 2(2) show ?thesis by (auto simp: step_rel_def cache_ok_def)
qed (auto simp: step_rel_def cache_ok_def)

lemma read_cases:
  assumes "readLocked e s = (r, t)" and "cache_ok s"
  obtains err where "r = RErr err" and "st_file t = st_file s" and "cache_ok t"
  | db where "r = RDb db" and "st_file t = st_file s" and "current s = Some (Users db)" and "validateDatabase db = Inr db"
    and "cache_ok t"
  | "r = RNone" and "st_file s = NoFile" and "st_file t = NoFile" and "cache_ok t"
  | "r = RRaw (st_file s)" and "st_file t = st_file s" and "current s = None" and "cache_ok t"
proof -
  note fails = that(1) and reads = that(2) and none = that(3) and raw = that(4)
  have fromfile: ?thesis if "read_file e s = (r, t)"
  proof (cases "se_readFails e")
    case True
    with that assms(2) show ?thesis by (intro fails) (auto simp: read_file_def)
  next
    case False
    show ?thesis
    proof (cases "st_file s")
      case (DbJson f)
      show ?thesis
      proof (cases "validateDatabase f")
        case (Inl err)
        with False DbJson \<open>read_file e s = (r, t)\<close> show ?thesis
          by (intro fails) (auto simp: read_file_def cache_ok_def)
      next
        case (Inr db)
        with False DbJson \<open>read_file e s = (r, t)\<close> validate_valid(3) [OF Inr] show ?thesis
          by (intro reads) (auto simp: read_file_def current_def cache_ok_def split: if_splits)
      qed
    qed (use False \<open>read_file e s = (r, t)\<close> raw in \<open>auto simp: read_file_def current_def cache_ok_def\<close>)
  qed
  show ?thesis
  proof (cases "se_statFails e \<or> st_file s = NoFile")
    case True
    with assms fails none show ?thesis by (auto simp: readLocked_def cache_ok_def split: if_splits)
  next
    case False
    show ?thesis
    proof (cases "\<exists>stamp db. st_cache s = Some (stamp, db) \<and> settled stamp (se_now e) \<and> stamp = st_stamp s")
      case True
      then obtain db where c: "st_cache s = Some (st_stamp s, db)" "settled (st_stamp s) (se_now e)" by blast
      with False assms(1) have "r = RDb db" "t = s" by (auto simp: readLocked_def)
      moreover from c assms(2) obtain f where "st_file s = DbJson f" "validateDatabase f = Inr db"
        by (auto simp: cache_ok_def)
      ultimately show ?thesis using validate_valid(3) assms(2) by (intro reads) (auto simp: current_def)
    next
      case no: False
      have "readLocked e s = read_file e s"
        using False no by (auto simp: readLocked_def split: option.splits)
      with assms(1) fromfile show ?thesis by simp
    qed
  qed
qed

lemma migrated_step:
  assumes "migrated m e db s = (r, t)" and "current s = None" and "cache_ok s"
  shows "step_rel s t" and "r = Inr db' \<Longrightarrow> m \<Longrightarrow> current t = Some (Users db') \<and> validateDatabase db' = Inr db'"
    and "\<not> m \<Longrightarrow> st_file t = st_file s"
  using assms save_step [of "se_migrate e" "se_migrateStamp e" db s] save_inr [of "se_migrate e" "se_migrateStamp e" db s db' t]
  by (auto simp: migrated_def step_rel_def split: if_splits prod.splits sum.splits)

lemma load_step:
  assumes "loadLocked pw e m s = (r, t)" and "cache_ok s"
  shows "step_rel s t"
    and "r = Inr db \<Longrightarrow> m \<Longrightarrow> current t = Some (Users db) \<and> validateDatabase db = Inr db \<and> current s \<in> {None, Some (Users db)}"
    and "\<not> m \<Longrightarrow> st_file t = st_file s"
proof -
  obtain x s1 where rd: "readLocked e s = (x, s1)" by (metis surj_pair)
  have "step_rel s t \<and> (r = Inr db \<longrightarrow> m \<longrightarrow> current t = Some (Users db) \<and> validateDatabase db = Inr db \<and>
      current s \<in> {None, Some (Users db)}) \<and> (\<not> m \<longrightarrow> st_file t = st_file s)"
    using rd assms(2)
  proof (cases rule: read_cases)
    case (1 err)
    with rd assms(1) show ?thesis by (auto simp: loadLocked_def step_rel_def)
  next
    case (2 d)
    with rd assms(1) current_cong [of t s] show ?thesis by (auto simp: loadLocked_def step_rel_def)
  next
    case 3
    then have n: "current s1 = None" "current s = None" "st_file s1 = st_file s" by (simp_all add: current_def)
    show ?thesis
    proof (cases "defaultDatabase e")
      case (Inr d)
      with rd 3 assms(1) have "migrated m e d s1 = (r, t)" by (simp add: loadLocked_def)
      note mg = migrated_step [OF this n(1) 3(4)]
      have "step_rel s s1" using n(3) 3(4) by (simp add: step_rel_def)
      with mg n step_rel_trans show ?thesis by auto
    qed (use rd 3 n assms(1) in \<open>auto simp: loadLocked_def step_rel_def\<close>)
  next
    case 4
    then have n: "current s1 = None" "st_file s1 = st_file s" by (simp_all add: current_def)
    have st: "step_rel s s1" using n(2) 4(4) by (simp add: step_rel_def)
    consider err where "r = Inl err" "t = s1" | d where "migrated m e d s1 = (r, t)"
      using assms(1) rd 4(1) by (auto simp: loadLocked_def split: account_file.splits if_splits option.splits)
    then show ?thesis
    proof cases
      case 1
      with st n show ?thesis by auto
    next
      case (2 d)
      with migrated_step [OF 2 n(1) 4(4)] st step_rel_trans 4(3) n(2) show ?thesis by auto
    qed
  qed
  then show "step_rel s t"
    and "r = Inr db \<Longrightarrow> m \<Longrightarrow> current t = Some (Users db) \<and> validateDatabase db = Inr db \<and> current s \<in> {None, Some (Users db)}"
    and "\<not> m \<Longrightarrow> st_file t = st_file s" by blast+
qed

lemma with_db_cases:
  assumes "with_db pw e f s = (r, t)" and "cache_ok s"
  obtains err where "r = Inl err" and "step_rel s t" and "loadLocked pw e True s = (Inl err, t)"
  | db s1 where "current s1 = Some (Users db)" and "validateDatabase db = Inr db" and "cache_ok s1" and "step_rel s s1"
    and "current s \<in> {None, Some (Users db)}" and "f db s1 = (r, t)"
proof -
  obtain x s1 where l: "loadLocked pw e True s = (x, s1)" by (metis surj_pair)
  note ls = load_step [OF l assms(2)]
  show ?thesis
  proof (cases x)
    case (Inl err)
    with l assms(1) ls(1) show ?thesis by (intro that(1)) (auto simp: with_db_def)
  next
    case (Inr db)
    with ls(2) [OF Inr] ls(1) l assms(1) show ?thesis
      by (intro that(2) [of s1 db]) (auto simp: with_db_def step_rel_def)
  qed
qed

text \<open>Every operation that loads, and then at most saves databases with the owner in them, is a step.\<close>

lemma with_db_step:
  assumes "with_db pw e f s = (r, t)" and "cache_ok s"
    and "\<And>db s1. current s1 = Some (Users db) \<Longrightarrow> cache_ok s1 \<Longrightarrow> f db s1 = (r, t) \<Longrightarrow> step_rel s1 t"
  shows "step_rel s t"
  using assms(1,2) by (cases rule: with_db_cases) (auto intro: assms(3) step_rel_trans)

lemma step_rel_refl: "cache_ok s \<Longrightarrow> step_rel s s"
  by (simp add: step_rel_def)

lemma saveLocked_step:
  assumes "saveLocked e db' s = (r, t)" and "current s = Some us" and "has_owner us \<Longrightarrow> has_owner (Users db')"
  shows "step_rel s t"
  using save_step [OF assms(1) [unfolded saveLocked_def]] assms(2,3) by auto

lemma save_user_step:
  assumes "save_user e db' i s = (r, t)" and "current s = Some us" and "has_owner us \<Longrightarrow> has_owner (Users db')"
  shows "step_rel s t"
proof -
  obtain x where "saveLocked e db' s = (x, t)"
    using assms(1) by (auto simp: save_user_def split: prod.splits sum.splits)
  from saveLocked_step [OF this assms(2,3)] show ?thesis .
qed

text \<open>Changing the entry of one user keeps the owner when the entry keeps the flag.\<close>

lemma has_owner_update:
  assumes "i < length us" and "SystemAccount u = SystemAccount (us ! i)"
  shows "has_owner (us[i := u]) \<longleftrightarrow> has_owner us"
proof -
  have "map SystemAccount (us[i := u]) = map SystemAccount us"
    using assms by (simp add: map_update) (metis list_update_id nth_map)
  moreover have "has_owner vs \<longleftrightarrow> True \<in> set (map SystemAccount vs)" for vs
    by (auto simp: has_owner_def)
  ultimately show ?thesis by metis
qed

lemma has_owner_fix [simp]: "has_owner (map fix_token us) = has_owner us"
  by (auto simp: has_owner_def)

lemma has_owner_delete:
  assumes "has_owner us" and "i < length us" and "\<not> SystemAccount (us ! i)"
  shows "has_owner (take i us @ drop (i + 1) us)"
proof -
  obtain j where j: "j < length us" "SystemAccount (us ! j)"
    using assms(1) by (auto simp: has_owner_def in_set_conv_nth)
  with assms(3) have "j < i \<or> i < j" by (metis linorder_neqE_nat)
  then have "us ! j \<in> set (take i us) \<union> set (drop (i + 1) us)"
  proof
    assume "j < i"
    then have "us ! j = take i us ! j" "j < length (take i us)" using j(1) by simp_all
    then show ?thesis by (metis UnI1 nth_mem)
  next
    assume "i < j"
    then have "us ! j = drop (i + 1) us ! (j - (i + 1))" "j - (i + 1) < length (drop (i + 1) us)" using j(1) by simp_all
    then show ?thesis by (metis UnI2 nth_mem)
  qed
  with j(2) show ?thesis by (auto simp: has_owner_def)
qed

lemma patched_simps [simp]:
  "SystemAccount (patched p u) = SystemAccount u" "TokenVersion (patched p u) = TokenVersion u"
  "SystemAccount (bump u) = SystemAccount u" "SystemAccount (set_password h u) = SystemAccount u"
  "u_name (bump u) = u_name u" "Enabled (bump u) = Enabled u" "u_name (set_password h u) = u_name u"
  by (simp_all add: patched_def bump_def set_password_def)

text \<open>The ways the bodies of the operations can end: before a save, or with one.\<close>

lemma create_in_cases:
  assumes "create_in e u db s = (r, t)"
  obtains "t = s" and "r = Inl ErrUserExists"
  | x where "findUser (Users db) (u_name u) = None" and "saveLocked e (db\<lparr>Users := Users db @ [u]\<rparr>) s = (x, t)"
    and "r = map_sum id (\<lambda>_. ()) x"
  using assms by (auto simp: create_in_def split: if_splits prod.splits sum.splits)

lemma update_in_cases:
  assumes "update_in e actor n p db s = (r, t)"
  obtains "t = s" and "\<And>x. r \<noteq> Inr (x, True)"
  | i x where "userIndex (Users db) n = Some i" and "patch_check actor n p (Users db ! i) (Users db) = None"
    and "save_user e (db\<lparr>Users := (Users db)[i := bump (patched p (Users db ! i))]\<rparr>) i s = (x, t)"
    and "r = map_sum id (\<lambda>u. (u, True)) x"
  using assms by (auto simp: update_in_def Let_def split: option.splits if_splits prod.splits sum.splits)

lemma delete_in_cases:
  assumes "delete_in e n db s = (r, t)"
  obtains "t = s" and "\<not> is_ok r"
  | i x where "userIndex (Users db) n = Some i" and "\<not> SystemAccount (Users db ! i)"
    and "saveLocked e (db\<lparr>Users := take i (Users db) @ drop (i + 1) (Users db)\<rparr>) s = (x, t)"
    and "r = map_sum id (\<lambda>_. ()) x"
  using assms by (auto simp: delete_in_def Let_def split: option.splits if_splits prod.splits sum.splits)

lemma set_password_in_cases:
  assumes "set_password_in e n h expect after db s = (r, t)"
  obtains "t = s" and "\<not> is_ok r" and "\<And>x. r \<noteq> Inl (ErrSystem x)"
  | i x s1 where "userIndex (Users db) n = Some i" and "expect (Users db ! i) = None"
    and "save_user e (db\<lparr>Users := (Users db)[i := set_password h (Users db ! i)]\<rparr>) i s = (x, s1)"
    and "(\<not> is_ok x \<or> after = None) \<and> t = s1 \<and> r = x \<or>
       is_ok x \<and> (\<exists>err y. after = Some err \<and> save_with (se_rollback e) (se_rollbackStamp e) db s1 = (y, t) \<and>
         r = Inl (case y of Inl rb \<Rightarrow> ErrRollback rb | Inr _ \<Rightarrow> ErrSystem err))"
  using assms by (auto simp: set_password_in_def split: option.splits prod.splits sum.splits)

lemma upgrade_in_cases:
  assumes "upgrade_in e user n h db s = (r, t)"
  obtains "t = s" and "r = Inr None"
  | i x where "userIndex (Users db) n = Some i" and "Enabled (Users db ! i)"
    and "PasswordHash (Users db ! i) = PasswordHash user"
    and "saveLocked e (db\<lparr>Users := (Users db)[i := fix_token ((Users db ! i)\<lparr>PasswordHash := h\<rparr>)]\<rparr>) s = (x, t)"
    and "r = map_sum id (\<lambda>_. Some (fix_token ((Users db ! i)\<lparr>PasswordHash := h\<rparr>))) x"
  using assms by (auto simp: upgrade_in_def Let_def split: option.splits if_splits prod.splits sum.splits)

end
