(* ===== verification/Account_Safety.thy ===== *)
theory Account_Safety
  imports Account_Store
begin

text \<open>
  What the account store guarantees: its file always holds a valid database, the device owner's account
  survives every operation, a change to an account revokes the tokens issued for it, a failed
  password change is rolled back, and the cache never shows anything but the file.
\<close>

section \<open>Concrete values\<close>

definition owner :: User where
  "owner = \<lparr>u_name = ''admin'', PasswordHash = ''h0'', u_role = RoleAdmin, Enabled = True, TokenVersion = 7,
     MustChangePassword = False, SystemAccount = True\<rparr>"

definition guest :: User where
  "guest = \<lparr>u_name = ''bob'', PasswordHash = ''h1'', u_role = RoleUser, Enabled = True, TokenVersion = - 1,
     MustChangePassword = False, SystemAccount = False\<rparr>"

definition stamp0 :: fileStamp where
  "stamp0 = \<lparr>fs_size = 100, fs_modTime = 0, fs_sys = 1\<rparr>"

definition two_users :: Store where
  "two_users = \<lparr>st_file = DbJson \<lparr>Version = 1, Users = [owner, guest], LegacyUsername = ''admin'', LegacyPassword = ''h0''\<rparr>,
     st_stamp = stamp0, st_cache = None\<rparr>"

definition calm :: store_env where
  "calm = \<lparr>se_now = minute, se_statFails = False, se_readFails = False, se_hash = Some ''h9'', se_default = Some ''hd'',
     se_draws = [11], se_save = None, se_stamp = stamp0\<lparr>fs_sys := 2\<rparr>, se_rollback = None,
     se_rollbackStamp = stamp0\<lparr>fs_sys := 3\<rparr>, se_migrate = None, se_migrateStamp = stamp0\<lparr>fs_sys := 4\<rparr>\<rparr>"

text \<open>Passwords that are their own hash.\<close>

definition plain_passwords :: passwords where
  "plain_passwords = \<lparr>CompareHashAndPassword = (=), DecodeDecrypt = (\<lambda>_. None)\<rparr>"

section \<open>Invariant\<close>

text \<open>The store starts without a file, with one of an old release, or with a valid database.\<close>

definition store_init :: "Store \<Rightarrow> bool" where
  "store_init s \<longleftrightarrow> st_cache s = None \<and> (\<forall>f. st_file s = DbJson f \<longrightarrow> current s \<noteq> None)"

definition store_ok :: "Store \<Rightarrow> bool" where
  "store_ok s \<longleftrightarrow> cache_ok s \<and> (\<forall>f. st_file s = DbJson f \<longrightarrow> current s \<noteq> None)"

text \<open>Revoking the guest, whose token version is the largest number: it wraps around to 0, and is set to 1.\<close>

definition guest_revoked :: "User list" where
  "guest_revoked = [owner, guest\<lparr>TokenVersion := 1\<rparr>]"

text \<open>A store that has cached its file, long after the last write.\<close>

definition cached_users :: Store where
  "cached_users = two_users\<lparr>st_cache := Some (stamp0, \<lparr>Version = 1, Users = [owner, guest],
     LegacyUsername = ''admin'', LegacyPassword = ''h0''\<rparr>)\<rparr>"

section \<open>Lemmas\<close>

subsection \<open>Every operation is a step\<close>

lemma create_in_step:
  assumes "create_in e u db s = (r, t)" and "current s = Some (Users db)" and "cache_ok s"
  shows "step_rel s t"
  using assms(1)
proof (cases rule: create_in_cases)
  case (2 x)
  show ?thesis by (rule saveLocked_step [OF 2(2) assms(2)]) (auto simp: has_owner_def)
qed (use assms(3) step_rel_refl in simp)

lemma update_in_step:
  assumes "update_in e actor n p db s = (r, t)" and "current s = Some (Users db)" and "cache_ok s"
  shows "step_rel s t"
  using assms(1)
proof (cases rule: update_in_cases)
  case (2 i x)
  show ?thesis
    by (rule save_user_step [OF 2(3) assms(2)]) (use userIndex_some [OF 2(1)] in \<open>auto simp: has_owner_update\<close>)
qed (use assms(3) step_rel_refl in simp)

lemma delete_in_step:
  assumes "delete_in e n db s = (r, t)" and "current s = Some (Users db)" and "cache_ok s"
  shows "step_rel s t"
  using assms(1)
proof (cases rule: delete_in_cases)
  case (2 i x)
  show ?thesis
    by (rule saveLocked_step [OF 2(3) assms(2)]) (use userIndex_some [OF 2(1)] has_owner_delete 2(2) in auto)
qed (use assms(3) step_rel_refl in simp)

lemma revoke_in_step:
  assumes "revoke_in e n db s = (r, t)" and "current s = Some (Users db)" and "cache_ok s"
  shows "step_rel s t"
proof (cases "userIndex (Users db) n")
  case None
  with assms step_rel_refl show ?thesis by (simp add: revoke_in_def)
next
  case (Some i)
  with assms(1) have "save_user e (db\<lparr>Users := (Users db)[i := bump (Users db ! i)]\<rparr>) i s = (r, t)"
    by (simp add: revoke_in_def)
  from save_user_step [OF this assms(2)] userIndex_some [OF Some] show ?thesis
    by (simp add: has_owner_update)
qed

lemma upgrade_in_step:
  assumes "upgrade_in e user n h db s = (r, t)" and "current s = Some (Users db)" and "cache_ok s"
  shows "step_rel s t"
  using assms(1)
proof (cases rule: upgrade_in_cases)
  case (2 i x)
  show ?thesis
    by (rule saveLocked_step [OF 2(4) assms(2)]) (use userIndex_some [OF 2(1)] in \<open>auto simp: has_owner_update\<close>)
qed (use assms(3) step_rel_refl in simp)

lemma save_user_inr:
  assumes "save_user e db i s = (Inr u, t)"
  shows "current t = Some (map fix_token (Users db))" and "u = map fix_token (Users db) ! i" and "cache_ok t"
proof -
  from assms obtain db' where d: "saveLocked e db s = (Inr db', t)" "u = Users db' ! i"
    by (auto simp: save_user_def split: prod.splits sum.splits)
  note si = save_inr [OF d(1) [unfolded saveLocked_def]]
  show "current t = Some (map fix_token (Users db))" "u = map fix_token (Users db) ! i" using si(1,2) d(2) by simp_all
  show "cache_ok t" by (rule save_ok [OF d(1) [unfolded saveLocked_def]])
qed

lemma set_password_in_step:
  assumes "set_password_in e n h expect after db s = (r, t)" and "current s = Some (Users db)" and "cache_ok s"
  shows "step_rel s t"
  using assms(1)
proof (cases rule: set_password_in_cases)
  case (2 i x s1)
  have one: "step_rel s s1"
    by (rule save_user_step [OF 2(3) assms(2)]) (use userIndex_some [OF 2(1)] in \<open>auto simp: has_owner_update\<close>)
  from 2(4) consider "t = s1"
    | y where "is_ok x" and "save_with (se_rollback e) (se_rollbackStamp e) db s1 = (y, t)" by blast
  then show ?thesis
  proof cases
    case 1
    then show ?thesis using one by simp
  next
    case x: (2 y)
    from x(1) 2(3) obtain u where "save_user e (db\<lparr>Users := (Users db)[i := set_password h (Users db ! i)]\<rparr>) i s = (Inr u, s1)"
      by (auto simp: is_ok_iff)
    note sv = save_user_inr [OF this]
    have "has_owner (map fix_token ((Users db)[i := set_password h (Users db ! i)])) = has_owner (Users db)"
      using userIndex_some [OF 2(1)] by (simp add: has_owner_update)
    then have "step_rel s1 t" using save_step [OF x(2)] sv(1) by auto
    with one show ?thesis by (rule step_rel_trans)
  qed
qed (use assms(3) step_rel_refl in simp)

lemmas in_steps = create_in_step update_in_step delete_in_step revoke_in_step upgrade_in_step set_password_in_step

lemma store_step_rel:
  assumes "store_step pw s t" and "cache_ok s"
  shows "step_rel s t"
  using assms(1)
proof cases
  case (lists e x)
  then obtain y where "loadLocked pw e False s = (y, t)" by (auto simp: List_def split: prod.splits sum.splits)
  then show ?thesis by (rule load_step(1) [OF _ assms(2)])
next
  case (gets e n y)
  then obtain x where "loadLocked pw e False s = (x, t)" by (auto simp: Get_def split: prod.splits sum.splits)
  then show ?thesis by (rule load_step(1) [OF _ assms(2)])
next
  case (validates e n v y)
  then obtain x where "loadLocked pw e False s = (x, t)"
    by (auto simp: ValidateToken_def Get_def split: prod.splits sum.splits)
  then show ?thesis by (rule load_step(1) [OF _ assms(2)])
next
  case (creates e n p r z)
  then show ?thesis using assms(2) step_rel_refl
    by (auto simp: Create_def split: if_splits option.splits intro: with_db_step create_in_step)
next
  case (updates e actor n patch w)
  then show ?thesis using assms(2) by (auto simp: Update_def intro: with_db_step update_in_step)
next
  case (deletes e actor n z)
  then show ?thesis using assms(2) step_rel_refl
    by (auto simp: Delete_def split: if_splits intro: with_db_step delete_in_step)
next
  case (sets e n p expect after y)
  then show ?thesis using assms(2) step_rel_refl
    by (auto simp: SetPasswordAndRunIf_def split: if_splits option.splits intro: with_db_step set_password_in_step)
next
  case (revokes e n y)
  then show ?thesis using assms(2) by (auto simp: Revoke_def intro: with_db_step revoke_in_step)
next
  case (checks e n p a)
  then show ?thesis unfolding auth_check_def
    by (rule with_db_step [OF _ assms(2)]) (auto intro: step_rel_refl)
next
  case (upgrades e u n b)
  then show ?thesis using assms(2) step_rel_refl
    by (auto simp: auth_upgrade_def split: option.splits intro: with_db_step upgrade_in_step)
qed

subsection \<open>Reachable stores\<close>

interpretation accounts: invariant_system store_init "store_step pw" store_ok for pw
proof unfold_locales
  show "store_init s \<Longrightarrow> store_ok s" for s by (auto simp: store_init_def store_ok_def cache_ok_def)
next
  fix s t assume "store_step pw s t" and ok: "store_ok s"
  then have "step_rel s t" by (auto simp: store_ok_def intro: store_step_rel)
  with ok current_cong [of t s] show "store_ok t" by (auto simp: store_ok_def step_rel_def)
qed

lemma current_valid: "current s = Some us \<Longrightarrow> valid_users us"
  by (auto simp: current_def split: account_file.splits sum.splits intro: validate_valid)

lemma reachable_current:
  assumes "store_step pw s t" and "store_ok s" and "current s = Some us"
  obtains us' where "current t = Some us'" and "has_owner us \<Longrightarrow> has_owner us'"
proof -
  have "step_rel s t" using assms by (auto simp: store_ok_def intro: store_step_rel)
  with assms(3) current_cong [of t s] that show ?thesis by (auto simp: step_rel_def)
qed

subsection \<open>Tokens\<close>

lemma bump_fix_changes: "TokenVersion u \<noteq> 0 \<Longrightarrow> TokenVersion (fix_token (bump u)) \<noteq> TokenVersion u"
proof -
  assume v: "TokenVersion u \<noteq> 0"
  show ?thesis
  proof (cases "TokenVersion u + 1 = 0")
    case True
    then have "TokenVersion (fix_token (bump u)) = 1" and "TokenVersion u = - 1"
      by (simp_all add: fix_token_def bump_def eq_neg_iff_add_eq_0)
    then show ?thesis by simp
  qed (simp add: fix_token_def bump_def)
qed

text \<open>Replacing the entry of a name by one with another token version revokes the name's tokens.\<close>

lemma token_entry:
  assumes "current s = Some us" and "userIndex us n = Some i"
  shows "token_ok s n v \<longleftrightarrow> Enabled (us ! i) \<and> TokenVersion (us ! i) = v"
proof -
  have d: "distinct (map u_name us)" using current_valid [OF assms(1)] by (simp add: valid_users_def)
  have i: "i < length us" "u_name (us ! i) = n" using userIndex_some [OF assms(2)] by simp_all
  have "u = us ! i" if "u \<in> set us" "u_name u = n" for u
    using findUser_iff [OF d] that i by (metis nth_mem option.inject)
  with assms(1) i nth_mem [OF i(1)] show ?thesis unfolding token_ok_def by (metis option.inject)
qed

lemma saved_entry:
  assumes "save_user e (db\<lparr>Users := (Users db)[i := u']\<rparr>) i s1 = (Inr x, t)" and "i < length (Users db)"
    and "validateDatabase db = Inr db"
  shows "current t = Some ((Users db)[i := fix_token u'])"
proof -
  have "map fix_token (Users db) = Users db" using assms(3) by (cases db) (auto simp: validateDatabase_iff)
  then show ?thesis using save_user_inr(1) [OF assms(1)] assms(2) by (simp add: map_update)
qed

lemma saved_revokes:
  assumes "save_user e (db\<lparr>Users := (Users db)[i := bump u']\<rparr>) i s1 = (Inr x, t)" and "userIndex (Users db) n = Some i"
    and "validateDatabase db = Inr db" and "TokenVersion u' = TokenVersion (Users db ! i)"
    and v: "v = TokenVersion (Users db ! i)"
  shows "\<not> token_ok t n v"
proof
  assume "token_ok t n v"
  have i: "i < length (Users db)" "u_name (Users db ! i) = n" using userIndex_some [OF assms(2)] by simp_all
  note c = saved_entry [OF assms(1) i(1) assms(3)]
  have vu: "valid_users (Users db)" by (rule validate_valid(1) [OF assms(3)])
  from \<open>token_ok t n v\<close> c obtain u where
    u: "u \<in> set ((Users db)[i := fix_token (bump u')])" "u_name u = n" "TokenVersion u = v"
    by (auto simp: token_ok_def)
  have "TokenVersion (Users db ! i) \<noteq> 0" using vu i(1) by (auto simp: valid_users_def)
  then have "TokenVersion (fix_token (bump u')) \<noteq> v" using assms(4) v bump_fix_changes [of u'] by simp
  moreover from u(1) obtain j where j0: "j < length (Users db)" "u = (Users db)[i := fix_token (bump u')] ! j"
    by (auto simp: in_set_conv_nth)
  ultimately have "j \<noteq> i" using u(3) i(1) by auto
  with j0 have j: "j < length (Users db)" "j \<noteq> i" "u = Users db ! j" by simp_all
  have "map u_name (Users db) ! j = map u_name (Users db) ! i" using j i u(2) by simp
  then have "j = i" using vu j(1) i(1) nth_eq_iff_index_eq [of "map u_name (Users db)" j i]
    by (simp add: valid_users_def)
  with j(2) show False by simp
qed

lemma load_current:
  assumes "loadLocked pw e m s = (Inr db, t)" and "cache_ok s" and "current s = Some us"
  shows "Users db = us" and "current t = Some us" and "cache_ok t"
proof -
  obtain x s1 where rd: "readLocked e s = (x, s1)" by (metis surj_pair)
  have nf: "st_file s \<noteq> NoFile" using assms(3) by (auto simp: current_def)
  from rd assms(2) have "Users db = us \<and> current t = Some us \<and> cache_ok t"
  proof (cases rule: read_cases)
    case (2 d)
    with rd assms(1,3) current_cong [of t s] show ?thesis by (auto simp: loadLocked_def)
  qed (use rd nf assms(1,3) in \<open>auto simp: loadLocked_def\<close>)
  then show "Users db = us" and "current t = Some us" and "cache_ok t" by blast+
qed

text \<open>The token check accepts a token only if the file says so, and without faults whenever it does.\<close>

lemma validate_token_sound:
  assumes "ValidateToken pw e n v s = (Inr u, t)" and "cache_ok s" and "current s = Some us"
  shows "token_ok s n v"
proof -
  obtain db where l: "loadLocked pw e False s = (Inr db, t)" and f: "findUser (Users db) n = Some u"
    and v: "Enabled u" "TokenVersion u = v"
    using assms(1) by (auto simp: ValidateToken_def Get_def split: prod.splits sum.splits option.splits if_splits)
  have "Users db = us" by (rule load_current(1) [OF l assms(2,3)])
  moreover have "distinct (map u_name us)" using current_valid [OF assms(3)] by (simp add: valid_users_def)
  ultimately show ?thesis using f v assms(3) findUser_iff [of us n u] by (auto simp: token_ok_def)
qed

lemma store_ok_after: "store_step pw s t \<Longrightarrow> store_ok s \<Longrightarrow> store_ok t"
  by (rule accounts.step_inv)

lemma token_refused:
  assumes "store_ok t" and "current t = Some us" and "\<not> token_ok t n v"
  shows "\<not> is_ok (fst (ValidateToken pw e n v t))"
  using validate_token_sound [of pw e n v t] assms
  by (cases "ValidateToken pw e n v t") (auto simp: store_ok_def is_ok_iff)

text \<open>The operations that revoke.\<close>

lemma with_db_current:
  assumes "with_db pw e f s = (Inr r, t)" and "cache_ok s" and "current s = Some us"
  obtains db s1 where "validateDatabase db = Inr db" and "Users db = us" and "f db s1 = (Inr r, t)"
    and "current s1 = Some us"
  using assms(1,2)
  by (cases rule: with_db_cases) (use assms(3) that in auto)

lemma Revoke_revokes:
  assumes "Revoke pw e n s = (Inr u, t)" and "cache_ok s" and "token_ok s n v"
  shows "\<not> token_ok t n v" and "current t \<noteq> None"
proof -
  obtain us where us: "current s = Some us" using assms(3) by (auto simp: token_ok_def)
  obtain db s1 where db: "validateDatabase db = Inr db" "Users db = us" "revoke_in e n db s1 = (Inr u, t)"
    by (rule with_db_current [OF assms(1) [unfolded Revoke_def] assms(2) us])
  then obtain i where i: "userIndex us n = Some i"
      "save_user e (db\<lparr>Users := us[i := bump (us ! i)]\<rparr>) i s1 = (Inr u, t)"
    by (auto simp: revoke_in_def split: option.splits)
  have v: "v = TokenVersion (us ! i)" using assms(3) token_entry [OF us i(1)] by simp
  show "\<not> token_ok t n v" by (rule saved_revokes [of e db i "us ! i" s1 u]) (use db i v in simp_all)
  show "current t \<noteq> None" using save_user_inr(1) [OF i(2)] by simp
qed

lemma SetPassword_revokes:
  assumes "SetPasswordAndRunIf pw e n p expect after s = (Inr u, t)" and "cache_ok s" and "token_ok s n v"
  shows "\<not> token_ok t n v" and "current t \<noteq> None"
proof -
  obtain us where us: "current s = Some us" using assms(3) by (auto simp: token_ok_def)
  obtain h where h: "with_db pw e (set_password_in e n h expect after) s = (Inr u, t)"
    using assms(1) by (auto simp: SetPasswordAndRunIf_def split: if_splits option.splits)
  obtain db s1 where db: "validateDatabase db = Inr db" "Users db = us"
      "set_password_in e n h expect after db s1 = (Inr u, t)"
    by (rule with_db_current [OF h assms(2) us])
  from db(3) obtain i where i: "userIndex us n = Some i"
      "save_user e (db\<lparr>Users := us[i := set_password h (us ! i)]\<rparr>) i s1 = (Inr u, t)"
    by (cases rule: set_password_in_cases) (auto simp: db(2))
  have v: "v = TokenVersion (us ! i)" using assms(3) token_entry [OF us i(1)] by simp
  show "\<not> token_ok t n v"
    by (rule saved_revokes [of e db i "(us ! i)\<lparr>PasswordHash := h, MustChangePassword := False\<rparr>" s1 u])
      (use db i v in \<open>simp_all add: set_password_def\<close>)
  show "current t \<noteq> None" using save_user_inr(1) [OF i(2)] by simp
qed

lemma Update_revokes:
  assumes "Update pw e actor n p s = (Inr (u, True), t)" and "cache_ok s" and "token_ok s n v"
  shows "\<not> token_ok t n v" and "current t \<noteq> None"
proof -
  obtain us where us: "current s = Some us" using assms(3) by (auto simp: token_ok_def)
  obtain db s1 where db: "validateDatabase db = Inr db" "Users db = us" "update_in e actor n p db s1 = (Inr (u, True), t)"
    by (rule with_db_current [OF assms(1) [unfolded Update_def] assms(2) us])
  from db(3) obtain i where i: "userIndex us n = Some i"
      "save_user e (db\<lparr>Users := us[i := bump (patched p (us ! i))]\<rparr>) i s1 = (Inr u, t)"
  proof (cases rule: update_in_cases)
    case (2 i x)
    then show ?thesis by (intro that [of i]) (cases x; auto simp: db(2))+
  qed auto
  have v: "v = TokenVersion (us ! i)" using assms(3) token_entry [OF us i(1)] by simp
  show "\<not> token_ok t n v" by (rule saved_revokes [of e db i "patched p (us ! i)" s1 u]) (use db i v in simp_all)
  show "current t \<noteq> None" using save_user_inr(1) [OF i(2)] by simp
qed

lemma Delete_revokes:
  assumes "Delete pw e actor n s = (Inr (), t)" and "cache_ok s" and "token_ok s n v"
  shows "\<not> token_ok t n v" and "current t \<noteq> None"
proof -
  obtain us where us: "current s = Some us" using assms(3) by (auto simp: token_ok_def)
  have w: "with_db pw e (delete_in e n) s = (Inr (), t)" using assms(1) by (auto simp: Delete_def split: if_splits)
  obtain db s1 where db: "validateDatabase db = Inr db" "Users db = us" "delete_in e n db s1 = (Inr (), t)"
    by (rule with_db_current [OF w assms(2) us])
  from db(3) obtain i x where i: "userIndex us n = Some i"
      "saveLocked e (db\<lparr>Users := take i us @ drop (i + 1) us\<rparr>) s1 = (Inr x, t)"
  proof (cases rule: delete_in_cases)
    case (2 i x)
    then show ?thesis by (cases x) (auto simp: db(2) intro: that)
  qed simp
  have c: "current t = Some (map fix_token (take i us @ drop (i + 1) us))"
    using save_inr(1,2) [OF i(2) [unfolded saveLocked_def]] by simp
  have ii: "i < length us" "u_name (us ! i) = n" using userIndex_some [OF i(1)] by simp_all
  have "us = take i us @ us ! i # drop (i + 1) us" using id_take_nth_drop [OF ii(1)] by simp
  moreover have "distinct (map u_name us)" using current_valid [OF us] by (simp add: valid_users_def)
  ultimately have "distinct (map u_name (take i us @ us ! i # drop (i + 1) us))" by simp
  then have "n \<notin> u_name ` set (take i us @ drop (i + 1) us)" using ii(2) by auto
  with c show "\<not> token_ok t n v" by (auto simp: token_ok_def)
  show "current t \<noteq> None" using c by simp
qed

subsection \<open>The concrete store\<close>

lemma names_valid: "ValidateUsername ''admin''" "ValidateUsername ''bob''"
  by (simp_all add: ValidateUsername_def alnum_def)

lemma two_users_valid: "valid_users [owner, guest]"
  by (simp add: valid_users_def user_ok_def owner_def guest_def names_valid IsValidRole_def)

lemma two_users_current: "current two_users = Some [owner, guest]"
proof -
  let ?db = "\<lparr>Version = 1, Users = [owner, guest], LegacyUsername = ''admin'', LegacyPassword = ''h0''\<rparr>"
  have "map fix_token [owner, guest] = [owner, guest]" by (simp add: fix_token_def owner_def guest_def)
  then have "validateDatabase ?db = Inr ?db" using two_users_valid by (simp add: validateDatabase_iff)
  then show ?thesis by (simp add: current_def two_users_def)
qed

lemma two_users_ok: "store_init two_users" "store_ok two_users"
  using two_users_current by (simp_all add: store_init_def store_ok_def cache_ok_def two_users_def)

lemma two_users_load:
  "loadLocked pw calm m two_users = (Inr \<lparr>Version = 1, Users = [owner, guest], LegacyUsername = ''admin'',
     LegacyPassword = ''h0''\<rparr>, two_users\<lparr>st_cache := Some (stamp0, \<lparr>Version = 1, Users = [owner, guest],
     LegacyUsername = ''admin'', LegacyPassword = ''h0''\<rparr>)\<rparr>)"
proof -
  let ?db = "\<lparr>Version = 1, Users = [owner, guest], LegacyUsername = ''admin'', LegacyPassword = ''h0''\<rparr>"
  have "map fix_token [owner, guest] = [owner, guest]" by (simp add: fix_token_def owner_def guest_def)
  then have "validateDatabase ?db = Inr ?db" using two_users_valid by (simp add: validateDatabase_iff)
  then show ?thesis
    by (simp add: loadLocked_def readLocked_def read_file_def two_users_def calm_def settled_def stamp0_def time_sub_def)
qed

lemma guest_revoked_valid:
  "validateDatabase \<lparr>Version = 1, Users = [owner, bump guest], LegacyUsername = ''admin'', LegacyPassword = ''h0''\<rparr> =
   Inr \<lparr>Version = 1, Users = guest_revoked, LegacyUsername = ''admin'', LegacyPassword = ''h0''\<rparr>"
proof -
  have "valid_users guest_revoked"
    by (simp add: guest_revoked_def valid_users_def user_ok_def owner_def guest_def names_valid IsValidRole_def)
  moreover have "map fix_token [owner, bump guest] = guest_revoked"
    by (simp add: fix_token_def owner_def guest_def guest_revoked_def bump_def)
  ultimately show ?thesis by (simp add: validateDatabase_iff)
qed

lemma account_names: "u_name owner = ''admin''" "u_name guest = ''bob''"
  by (simp_all add: owner_def guest_def)

lemma revoke_guest:
  "\<exists>u t. Revoke plain_passwords calm ''bob'' two_users = (Inr u, t) \<and> current t = Some guest_revoked"
proof -
  let ?db = "\<lparr>Version = 1, Users = [owner, guest], LegacyUsername = ''admin'', LegacyPassword = ''h0''\<rparr>"
  let ?s = "two_users\<lparr>st_cache := Some (stamp0, ?db)\<rparr>"
  let ?db' = "\<lparr>Version = 1, Users = [owner, bump guest], LegacyUsername = ''admin'', LegacyPassword = ''h0''\<rparr>"
  have "Revoke plain_passwords calm ''bob'' two_users = revoke_in calm ''bob'' ?db ?s"
    by (simp add: Revoke_def with_db_def two_users_load)
  also have "\<dots> = save_user calm ?db' 1 ?s"
    by (simp add: revoke_in_def account_names)
  finally have r: "Revoke plain_passwords calm ''bob'' two_users = save_user calm ?db' 1 ?s" .
  have "se_save calm = None" by (simp add: calm_def)
  then obtain db' t where t: "saveLocked calm ?db' ?s = (Inr db', t)"
    using guest_revoked_valid by (simp add: saveLocked_def save_with_def Let_def)
  then have "current t = Some guest_revoked"
    using save_inr(1,2) [OF t [unfolded saveLocked_def]] guest_revoked_valid by (auto simp: validateDatabase_iff)
  with r t show ?thesis by (simp add: save_user_def)
qed

subsection \<open>Where an error comes from\<close>

lemma validate_users_error: "validate_users seen sys us \<noteq> Inl (ErrSystem x)"
  by (induction seen sys us rule: validate_users.induct)
    (auto simp: validate_users.simps Let_def split: sum.splits)

lemma validateDatabase_error: "validateDatabase db \<noteq> Inl (ErrSystem x)"
  using validate_users_error by (auto simp: validateDatabase_def split: sum.splits)

lemma save_error: "save_with f st db s \<noteq> (Inl (ErrSystem x), t)"
  using validateDatabase_error by (auto simp: save_with_def Let_def split: sum.splits option.splits save_fault.splits)

lemma read_error: "readLocked e s \<noteq> (RErr (ErrSystem x), t)"
  using validateDatabase_error
  by (auto simp: readLocked_def read_file_def split: option.splits account_file.splits sum.splits)

lemma load_error: "loadLocked pw e m s \<noteq> (Inl (ErrSystem x), t)"
  using read_error save_error
  by (auto simp: loadLocked_def migrated_def defaultDatabase_def
      split: prod.splits read_out.splits sum.splits option.splits account_file.splits if_splits)

section \<open>Properties\<close>

text \<open>
  C10. The account file always holds a valid database. Whatever operations run, in any order, with any
  arguments and any input or output fault at any point, a file that is a database has at least one
  enabled administrator, no two accounts with one name, valid names and roles, a token version other than
  zero for each, and at most one device owner, who is an enabled administrator.
\<close>

theorem store_always_valid:
  assumes "reachable store_init (store_step pw) s" and "st_file s = DbJson f"
  shows "\<exists>us. current s = Some us \<and> distinct (map u_name us) \<and>
    (\<exists>u \<in> set us. u_role u = RoleAdmin \<and> Enabled u) \<and> length (filter SystemAccount us) \<le> 1 \<and>
    (\<forall>u \<in> set us. ValidateUsername (u_name u) \<and> IsValidRole (u_role u) \<and> TokenVersion u \<noteq> 0 \<and>
       (SystemAccount u \<longrightarrow> u_role u = RoleAdmin \<and> Enabled u))"
proof -
  have "store_ok s" by (rule accounts.reachable_inv [OF assms(1)])
  with assms(2) obtain us where us: "current s = Some us" by (auto simp: store_ok_def)
  with current_valid [OF us] show ?thesis by (auto simp: valid_users_def user_ok_def)
qed

theorem store_always_valid_witness:
  "\<exists>s f. reachable store_init (store_step plain_passwords) s \<and> st_file s = DbJson f \<and> current s = Some guest_revoked \<and>
     (\<exists>u \<in> set guest_revoked. u_role u = RoleAdmin \<and> Enabled u)"
proof -
  from revoke_guest obtain u t where r: "Revoke plain_passwords calm ''bob'' two_users = (Inr u, t)"
    "current t = Some guest_revoked" by blast
  have re: "reachable store_init (store_step plain_passwords) t"
    by (rule reachable.more [where s = two_users])
      (auto intro: reachable.start two_users_ok(1) store_step.revokes [OF r(1)])
  moreover obtain f where f: "st_file t = DbJson f" using r(2) by (auto simp: current_def split: account_file.splits)
  ultimately show ?thesis using store_always_valid [OF re f] r(2) by auto
qed

text \<open>
  C12. The device owner cannot be locked out: once the database has a device owner's account, every state
  that any sequence of operations leads to has one, enabled and with the administrator's role.
\<close>

theorem owner_survives:
  assumes "store_ok s" and "current s = Some us" and "\<exists>u \<in> set us. SystemAccount u"
    and "(store_step pw)\<^sup>*\<^sup>* s t"
  shows "\<exists>us'. current t = Some us' \<and> (\<exists>u \<in> set us'. SystemAccount u \<and> Enabled u \<and> u_role u = RoleAdmin)"
proof -
  have "store_ok t \<and> (\<exists>us'. current t = Some us' \<and> has_owner us')" using assms(4)
  proof (induction rule: rtranclp_induct)
    case base
    with assms show ?case by (auto simp: has_owner_def)
  next
    case (step y z)
    then show ?case by (metis reachable_current store_ok_after)
  qed
  then obtain us' where us': "current t = Some us'" "has_owner us'" by blast
  with current_valid [OF us'(1)] show ?thesis by (auto simp: has_owner_def valid_users_def user_ok_def)
qed

theorem owner_survives_witness:
  "\<exists>t us'. store_step plain_passwords two_users t \<and> current t = Some us' \<and> (\<exists>u \<in> set us'. SystemAccount u \<and> Enabled u)"
proof -
  from revoke_guest obtain u t where r: "Revoke plain_passwords calm ''bob'' two_users = (Inr u, t)" by blast
  note st = store_step.revokes [OF r]
  have "\<exists>u \<in> set [owner, guest]. SystemAccount u" by (simp add: owner_def)
  from owner_survives [OF two_users_ok(2) two_users_current this r_into_rtranclp [of "store_step plain_passwords", OF st]]
    st show ?thesis by blast
qed

text \<open>
  C11. A change to an account revokes its tokens: after a successful revocation, password change, deletion
  or effective update (a rename included), no token that was valid for the account before is
  accepted again by \<open>ValidateToken\<close>, whatever faults that call meets; also when the version wraps around.
\<close>

theorem change_revokes_tokens:
  assumes "store_ok s" and "token_ok s n v"
    and "(\<exists>u. Revoke pw e n s = (Inr u, t)) \<or> (\<exists>p expect after u. SetPasswordAndRunIf pw e n p expect after s = (Inr u, t)) \<or>
      (\<exists>actor p u. Update pw e actor n p s = (Inr (u, True), t)) \<or> (\<exists>actor. Delete pw e actor n s = (Inr (), t))"
  shows "\<not> token_ok t n v \<and> \<not> is_ok (fst (ValidateToken pw e' n v t))"
proof -
  have c: "cache_ok s" using assms(1) by (simp add: store_ok_def)
  have "\<not> token_ok t n v \<and> current t \<noteq> None"
    using assms(3) Revoke_revokes [OF _ c assms(2)] SetPassword_revokes [OF _ c assms(2)]
      Update_revokes [OF _ c assms(2)] Delete_revokes [OF _ c assms(2)] by metis
  moreover have "store_step pw s t" using assms(3) by (auto intro: store_step.intros)
  then have "store_ok t" using assms(1) by (rule store_ok_after)
  ultimately show ?thesis using token_refused by blast
qed

theorem change_revokes_tokens_witness:
  "\<exists>t. token_ok two_users ''bob'' (- 1) \<and> current t = Some guest_revoked \<and>
     \<not> is_ok (fst (ValidateToken plain_passwords calm ''bob'' (- 1) t))"
proof -
  have tk: "token_ok two_users ''bob'' (- 1)"
  proof -
    have "guest \<in> set [owner, guest]" by simp
    moreover have "u_name guest = ''bob'' \<and> Enabled guest \<and> TokenVersion guest = - 1" by (simp add: guest_def)
    ultimately show ?thesis using two_users_current unfolding token_ok_def by metis
  qed
  from revoke_guest obtain u t where r: "Revoke plain_passwords calm ''bob'' two_users = (Inr u, t)"
    "current t = Some guest_revoked" by blast
  then have "\<not> is_ok (fst (ValidateToken plain_passwords calm ''bob'' (- 1) t))"
    using change_revokes_tokens [OF two_users_ok(2) tk, of plain_passwords calm t calm] by simp
  with tk r(2) show ?thesis by blast
qed

text \<open>
  A failed password change is undone: when the system-side update after the commit fails and the rollback
  can be written, the users, with their passwords and token versions, are exactly as before.
\<close>

theorem password_rollback:
  assumes "store_ok s" and "current s = Some us"
    and "SetPasswordAndRunIf pw e n p expect (Some err) s = (Inl (ErrSystem err), t)"
  shows "current t = Some us"
proof -
  have c: "cache_ok s" using assms(1) by (simp add: store_ok_def)
  obtain h where w: "with_db pw e (set_password_in e n h expect (Some err)) s = (Inl (ErrSystem err), t)"
    using assms(3) by (auto simp: SetPasswordAndRunIf_def split: if_splits option.splits)
  from w c obtain db s1 where db: "validateDatabase db = Inr db" "Users db = us"
      "set_password_in e n h expect (Some err) db s1 = (Inl (ErrSystem err), t)"
    by (cases rule: with_db_cases) (use load_error assms(2) in auto)
  from db(3) obtain y s2 where "save_with (se_rollback e) (se_rollbackStamp e) db s2 = (Inr y, t)"
  proof (cases rule: set_password_in_cases)
    case (2 i x s2)
    have "save_user e d i s1 \<noteq> (Inl (ErrSystem err), z)" for d z
      using save_error by (auto simp: save_user_def saveLocked_def split: prod.splits sum.splits)
    with 2(3,4) obtain y where y: "save_with (se_rollback e) (se_rollbackStamp e) db s2 = (y, t)"
      "ErrSystem err = (case y of Inl rb \<Rightarrow> ErrRollback rb | Inr _ \<Rightarrow> ErrSystem err)" by auto
    then show ?thesis using that by (cases y) auto
  qed blast
  then have "current t = Some (map fix_token us)" using save_inr(1,2) db(2) by metis
  moreover have "map fix_token us = us" using db(1,2) by (cases db) (auto simp: validateDatabase_iff)
  ultimately show ?thesis by simp
qed

theorem password_rollback_witness:
  "\<exists>t. SetPasswordAndRunIf plain_passwords calm ''bob'' ''longenough'' (\<lambda>_. None) (Some ''passwd'') two_users =
     (Inl (ErrSystem ''passwd''), t) \<and> current t = Some [owner, guest]"
proof -
  let ?db = "\<lparr>Version = 1, Users = [owner, guest], LegacyUsername = ''admin'', LegacyPassword = ''h0''\<rparr>"
  let ?u = "set_password ''h9'' guest"
  have v: "valid_users [owner, guest\<lparr>PasswordHash := ''h9'', TokenVersion := 1\<rparr>]"
    by (simp add: valid_users_def user_ok_def owner_def guest_def names_valid IsValidRole_def)
  have "map fix_token [owner, ?u] = [owner, guest\<lparr>PasswordHash := ''h9'', TokenVersion := 1\<rparr>]"
    by (simp add: fix_token_def set_password_def bump_def owner_def guest_def)
  with v have v1: "validateDatabase (?db\<lparr>Users := [owner, ?u]\<rparr>) =
      Inr (?db\<lparr>Users := [owner, guest\<lparr>PasswordHash := ''h9'', TokenVersion := 1\<rparr>]\<rparr>)"
    by (simp add: validateDatabase_iff)
  have "map fix_token [owner, guest] = [owner, guest]" by (simp add: fix_token_def owner_def guest_def)
  then have v0: "validateDatabase ?db = Inr ?db" using two_users_valid by (simp add: validateDatabase_iff)
  have c: "se_save calm = None" "se_rollback calm = None" "se_hash calm = Some ''h9''" by (simp_all add: calm_def)
  have r: "SetPasswordAndRunIf plain_passwords calm ''bob'' ''longenough'' (\<lambda>_. None) (Some ''passwd'') two_users =
      set_password_in calm ''bob'' ''h9'' (\<lambda>_. None) (Some ''passwd'') ?db (two_users\<lparr>st_cache := Some (stamp0, ?db)\<rparr>)"
    by (simp add: SetPasswordAndRunIf_def ValidatePassword_def c with_db_def two_users_load)
  have "\<exists>t. set_password_in calm ''bob'' ''h9'' (\<lambda>_. None) (Some ''passwd'') ?db (two_users\<lparr>st_cache := Some (stamp0, ?db)\<rparr>) =
      (Inl (ErrSystem ''passwd''), t)"
    using v0 v1 by (simp add: set_password_in_def account_names save_user_def saveLocked_def save_with_def c Let_def)
  with r obtain t where t: "SetPasswordAndRunIf plain_passwords calm ''bob'' ''longenough'' (\<lambda>_. None) (Some ''passwd'')
      two_users = (Inl (ErrSystem ''passwd''), t)" by metis
  with password_rollback [OF two_users_ok(2) two_users_current t] show ?thesis by blast
qed




text \<open>
  A login needs the password of an enabled account: when \<open>Authenticate\<close> succeeds on a store with a
  database, the account it returns is the enabled one of that name, and the password matches its
  stored hash or its stored password of the old kind; and an upgrade of an old password succeeds
  only if the account is still enabled with the hash that was checked.
\<close>

theorem login_checks_password:
  assumes "store_ok s" and "current s = Some us"
  shows "(auth_check pw e n p s = (Inr (Some (u, b)), t) \<longrightarrow> u \<in> set us \<and> u_name u = n \<and> Enabled u \<and>
      passwordMatches pw (PasswordHash u) p \<and> current t = Some us) \<and>
    (auth_upgrade pw e u n s = (Inr (Some u'), t) \<longrightarrow>
      (\<exists>old \<in> set us. u_name old = n \<and> Enabled old \<and> PasswordHash old = PasswordHash u) \<and> u_name u' = n)"
proof -
  have c: "cache_ok s" using assms(1) by (simp add: store_ok_def)
  have d: "distinct (map u_name us)" using current_valid [OF assms(2)] by (simp add: valid_users_def)
  have "u \<in> set us \<and> u_name u = n \<and> Enabled u \<and> passwordMatches pw (PasswordHash u) p \<and> current t = Some us"
    if a: "auth_check pw e n p s = (Inr (Some (u, b)), t)"
  proof -
    have "current t = Some us \<and> findUser us n = Some u \<and> Enabled u \<and> passwordMatches pw (PasswordHash u) p"
      by (rule with_db_current [OF a [unfolded auth_check_def] c assms(2)])
        (auto simp: passwordMatches_def split: option.splits if_splits)
    then show ?thesis using findUser_iff [OF d] by auto
  qed
  moreover have "(\<exists>old \<in> set us. u_name old = n \<and> Enabled old \<and> PasswordHash old = PasswordHash u) \<and> u_name u' = n"
    if a: "auth_upgrade pw e u n s = (Inr (Some u'), t)"
  proof -
    obtain h where w: "with_db pw e (upgrade_in e u n h) s = (Inr (Some u'), t)"
      using a by (auto simp: auth_upgrade_def split: option.splits)
    obtain db s1 where db: "Users db = us" "upgrade_in e u n h db s1 = (Inr (Some u'), t)"
      by (rule with_db_current [OF w c assms(2)])
    from db(2) show ?thesis
    proof (cases rule: upgrade_in_cases)
      case (2 i x)
      have "u' = fix_token ((us ! i)\<lparr>PasswordHash := h\<rparr>)" using 2(5) db(1) by (cases x) auto
      with 2(1-3) db(1) userIndex_some [of us n i] nth_mem [of i us] show ?thesis by auto
    qed simp
  qed
  ultimately show ?thesis by blast
qed

theorem login_checks_password_witness:
  "\<exists>t. auth_check plain_passwords calm ''admin'' ''h0'' two_users = (Inr (Some (owner, True)), t) \<and> current t = Some [owner, guest]"
proof -
  have "auth_check plain_passwords calm ''admin'' ''h0'' two_users = (Inr (Some (owner, True)), cached_users)"
    by (simp add: auth_check_def with_db_def two_users_load cached_users_def findUser_def account_names)
      (simp add: owner_def plain_passwords_def)
  with login_checks_password [OF two_users_ok(2) two_users_current, of plain_passwords calm "''admin''" "''h0''" owner True cached_users]
  show ?thesis by blast
qed

end
