(* ===== verification/Brute_Force.thy ===== *)
theory Brute_Force
  imports Bounded_Table Account_Store
begin

text \<open>
  The login rate limit of \<open>service/auth/brute_force.go\<close>: the table of failed logins by client
  address, the lockout, and the one password check at a time that an address gets. Go visits a map
  in any order; the list order stands for the order of one visit and the step relation may change it.
\<close>

section \<open>The table of failed logins\<close>

record security =
  LoginLockoutDuration :: int
  LoginMaxFailures :: int

record loginAttempt =
  la_failures :: int
  lastFailed :: time
  lockoutEnd :: time
  failedUser :: string
  otherFailures :: bool

type_synonym attempts = "(string \<times> loginAttempt) list"

datatype login_block = LockedOut | Saturated

abbreviation maxLoginAttemptsRecords :: nat where "maxLoginAttemptsRecords \<equiv> 3000"
abbreviation staleRecordWindow :: duration where "staleRecordWindow \<equiv> 30 * minute"
abbreviation loginSlotWait :: duration where "loginSlotWait \<equiv> 10 * second"

definition no_attempt :: loginAttempt where
  "no_attempt = \<lparr>la_failures = 0, lastFailed = 0, lockoutEnd = 0, failedUser = [], otherFailures = False\<rparr>"

definition lockoutDuration :: "security \<Rightarrow> duration" where
  "lockoutDuration cfg = wrap64 (LoginLockoutDuration cfg * second)"

definition isExpiredLocked :: "loginAttempt \<Rightarrow> time \<Rightarrow> bool" where
  "isExpiredLocked a now =
     (if \<not> is_zero (lockoutEnd a) then \<not> now < lockoutEnd a
      else time_sub now (lastFailed a) > staleRecordWindow)"

definition hasReclaimableRecordLocked :: "time \<Rightarrow> attempts \<Rightarrow> bool" where
  "hasReclaimableRecordLocked now t \<longleftrightarrow> list_ex (\<lambda>(ip, a). \<not> now < lockoutEnd a) t"

text \<open>The oldest record without a lockout among those not expired; the empty string is none.\<close>

fun oldest_unlocked :: "time \<Rightarrow> string \<Rightarrow> time \<Rightarrow> attempts \<Rightarrow> string" where
  "oldest_unlocked now oldIP old [] = oldIP"
| "oldest_unlocked now oldIP old ((ip, a) # t) =
     (if \<not> isExpiredLocked a now \<and> is_zero (lockoutEnd a) \<and> (oldIP = [] \<or> lastFailed a < old)
      then oldest_unlocked now ip (lastFailed a) t
      else oldest_unlocked now oldIP old t)"

definition dropExpired :: "time \<Rightarrow> attempts \<Rightarrow> attempts" where
  "dropExpired now t = filter (\<lambda>(ip, a). \<not> isExpiredLocked a now) t"

definition evictOneRecordLocked :: "time \<Rightarrow> attempts \<Rightarrow> attempts option" where
  "evictOneRecordLocked now t =
     (if list_ex (\<lambda>(ip, a). isExpiredLocked a now) t then Some (dropExpired now t)
      else let ip = oldest_unlocked now [] 0 t in
        if ip \<noteq> [] then Some (AList.delete ip t) else None)"

text \<open>What a check makes of the record of the address: an elapsed lockout is forgotten.\<close>

definition forgive :: "loginAttempt \<Rightarrow> loginAttempt" where
  "forgive a =
     (if \<not> is_zero (lockoutEnd a)
      then a\<lparr>la_failures := 0, lockoutEnd := 0, failedUser := [], otherFailures := False\<rparr> else a)"

definition CheckLoginAttempt :: "security \<Rightarrow> time \<Rightarrow> string \<Rightarrow> attempts \<Rightarrow> login_block option \<times> attempts" where
  "CheckLoginAttempt cfg now ip t =
     (if LoginLockoutDuration cfg \<le> 0 then (None, t)
      else case map_of t ip of
        Some a \<Rightarrow> if now < lockoutEnd a then (Some LockedOut, t) else (None, AList.update ip (forgive a) t)
      | None \<Rightarrow>
          if maxLoginAttemptsRecords \<le> length t \<and> \<not> hasReclaimableRecordLocked now t
          then (Some Saturated, t) else (None, t))"

text \<open>The record after one more failure of \<open>user\<close> at \<open>now\<close>; an invalid name is no name.\<close>

definition count_failure :: "security \<Rightarrow> time \<Rightarrow> string \<Rightarrow> loginAttempt \<Rightarrow> loginAttempt" where
  "count_failure cfg now user a =
     (let a = (if \<not> is_zero (lastFailed a) \<and> time_sub now (lastFailed a) > lockoutDuration cfg
               then a\<lparr>la_failures := 0, failedUser := [], otherFailures := False\<rparr> else a);
          user = (if ValidateUsername user then user else []);
          a = (if user = [] then a\<lparr>otherFailures := True\<rparr>
               else if la_failures a = 0 then a\<lparr>failedUser := user\<rparr>
               else if user \<noteq> failedUser a then a\<lparr>otherFailures := True\<rparr> else a);
          a = a\<lparr>la_failures := la_failures a + 1, lastFailed := now\<rparr>
      in if la_failures a \<ge> LoginMaxFailures cfg then a\<lparr>lockoutEnd := now + lockoutDuration cfg\<rparr> else a)"

text \<open>The room made for a new address: the table, or \<open>None\<close> when every record is an active lockout.\<close>

definition room_for :: "time \<Rightarrow> string \<Rightarrow> attempts \<Rightarrow> attempts option" where
  "room_for now ip t =
     (if map_of t ip = None \<and> maxLoginAttemptsRecords \<le> length t then evictOneRecordLocked now t else Some t)"

text \<open>
  The answer is whether the attempt is refused for saturation; \<open>now\<close> and \<open>later\<close> are the two
  readings of the clock. The second result says whether the lockout is announced.
\<close>

definition RecordLoginFailureFor :: "security \<Rightarrow> time \<Rightarrow> time \<Rightarrow> string \<Rightarrow> string \<Rightarrow> attempts \<Rightarrow>
    login_block option \<times> bool \<times> attempts" where
  "RecordLoginFailureFor cfg now later ip user t =
     (if LoginLockoutDuration cfg \<le> 0 then (None, False, t)
      else case room_for later ip t of
        None \<Rightarrow> (Some Saturated, False, t)
      | Some t \<Rightarrow>
          (let a = count_failure cfg now user (case map_of t ip of None \<Rightarrow> no_attempt | Some a \<Rightarrow> a)
           in (None, la_failures a = LoginMaxFailures cfg, AList.update ip a t)))"

definition keeps_record :: "string \<Rightarrow> loginAttempt \<Rightarrow> bool" where
  "keeps_record user a \<longleftrightarrow> otherFailures a \<or> (la_failures a > 0 \<and> failedUser a \<noteq> user)"

definition ClearLoginAttempt :: "security \<Rightarrow> string \<Rightarrow> string \<Rightarrow> attempts \<Rightarrow> attempts" where
  "ClearLoginAttempt cfg ip user t =
     (if LoginLockoutDuration cfg \<le> 0 then t
      else case map_of t ip of
        Some a \<Rightarrow> if keeps_record user a then t else AList.delete ip t
      | None \<Rightarrow> AList.delete ip t)"

section \<open>Attempts of many clients\<close>

text \<open>
  A request waits for the slot of its address until a deadline, then checks the lockout, checks the
  password, and gives the slot back after recording the outcome.
\<close>

datatype login_pc = LIdle | LWait string time | LCheck string | LPassword string | LDone string

fun slot :: "login_pc \<Rightarrow> string option" where
  "slot (LCheck ip) = Some ip"
| "slot (LPassword ip) = Some ip"
| "slot (LDone ip) = Some ip"
| "slot _ = None"

record login_sys =
  lg_now :: time
  lg_table :: attempts
  lg_inFlight :: "string set"
  lg_pc :: "nat \<Rightarrow> login_pc"

definition lg_move :: "login_sys \<Rightarrow> nat \<Rightarrow> login_pc \<Rightarrow> attempts \<Rightarrow> login_sys" where
  "lg_move s i pc t = s\<lparr>lg_pc := (lg_pc s)(i := pc), lg_table := t\<rparr>"

inductive login_step :: "security \<Rightarrow> login_sys \<Rightarrow> login_sys \<Rightarrow> bool" for cfg :: security where
  tick: "lg_now s \<le> now \<Longrightarrow> login_step cfg s (s\<lparr>lg_now := now\<rparr>)"
| reorder: "set t = set (lg_table s) \<Longrightarrow> distinct (map fst t) \<Longrightarrow> login_step cfg s (s\<lparr>lg_table := t\<rparr>)"
| cleanup: "login_step cfg s (s\<lparr>lg_table := dropExpired (lg_now s) (lg_table s)\<rparr>)"
| precheck: "CheckLoginAttempt cfg (lg_now s) ip (lg_table s) = (r, t) \<Longrightarrow> login_step cfg s (s\<lparr>lg_table := t\<rparr>)"
| enter: "lg_pc s i = LIdle \<Longrightarrow>
     login_step cfg s (lg_move s i (LWait ip (lg_now s + loginSlotWait)) (lg_table s))"
| admit: "lg_pc s i = LWait ip d \<Longrightarrow> ip \<notin> lg_inFlight s \<Longrightarrow>
     login_step cfg s ((lg_move s i (LCheck ip) (lg_table s))\<lparr>lg_inFlight := insert ip (lg_inFlight s)\<rparr>)"
| give_up: "lg_pc s i = LWait ip d \<Longrightarrow> ip \<in> lg_inFlight s \<Longrightarrow> d \<le> lg_now s \<Longrightarrow>
     login_step cfg s (lg_move s i LIdle (lg_table s))"
| allowed: "lg_pc s i = LCheck ip \<Longrightarrow> CheckLoginAttempt cfg (lg_now s) ip (lg_table s) = (None, t) \<Longrightarrow>
     login_step cfg s (lg_move s i (LPassword ip) t)"
| refused: "lg_pc s i = LCheck ip \<Longrightarrow> CheckLoginAttempt cfg (lg_now s) ip (lg_table s) = (Some b, t) \<Longrightarrow>
     login_step cfg s (lg_move s i (LDone ip) t)"
| failed: "lg_pc s i = LPassword ip \<Longrightarrow> lg_now s \<le> later \<Longrightarrow>
     RecordLoginFailureFor cfg (lg_now s) later ip user (lg_table s) = (r, n, t) \<Longrightarrow>
     login_step cfg s ((lg_move s i (LDone ip) t)\<lparr>lg_now := later\<rparr>)"
| succeeded: "lg_pc s i = LPassword ip \<Longrightarrow>
     login_step cfg s (lg_move s i (LDone ip) (ClearLoginAttempt cfg ip user (lg_table s)))"
| unanswered: "lg_pc s i = LPassword ip \<Longrightarrow> login_step cfg s (lg_move s i (LDone ip) (lg_table s))"
| give_back: "lg_pc s i = LDone ip \<Longrightarrow>
     login_step cfg s ((lg_move s i LIdle (lg_table s))\<lparr>lg_inFlight := lg_inFlight s - {ip}\<rparr>)"

definition login_init :: "login_sys \<Rightarrow> bool" where
  "login_init s \<longleftrightarrow> 0 < lg_now s \<and> lg_table s = [] \<and> lg_inFlight s = {} \<and> (\<forall>i. lg_pc s i = LIdle)"

text \<open>A positive lockout duration that fits a \<open>time.Duration\<close>, and the limit \<open>checkDefaultValue\<close> makes positive.\<close>

definition security_ok :: "security \<Rightarrow> bool" where
  "security_ok cfg \<longleftrightarrow> 0 < LoginLockoutDuration cfg \<and> LoginLockoutDuration cfg \<le> 9223372036 \<and>
     1 \<le> LoginMaxFailures cfg"

section \<open>The invariant\<close>

text \<open>A record is in lockout exactly when its failures have reached the limit.\<close>

definition attempt_ok :: "security \<Rightarrow> loginAttempt \<Rightarrow> bool" where
  "attempt_ok cfg a \<longleftrightarrow> 0 \<le> la_failures a \<and> la_failures a \<le> LoginMaxFailures cfg \<and> 0 \<le> lockoutEnd a \<and>
     (lockoutEnd a = 0 \<longleftrightarrow> la_failures a < LoginMaxFailures cfg)"

definition table_ok :: "security \<Rightarrow> attempts \<Rightarrow> bool" where
  "table_ok cfg t \<longleftrightarrow> length t \<le> maxLoginAttemptsRecords \<and> distinct (map fst t) \<and>
     (\<forall>(ip, a) \<in> set t. attempt_ok cfg a)"

definition unlocked :: "attempts \<Rightarrow> string \<Rightarrow> bool" where
  "unlocked t ip \<longleftrightarrow> (\<forall>a. map_of t ip = Some a \<longrightarrow> lockoutEnd a = 0)"

definition slots_ok :: "login_sys \<Rightarrow> bool" where
  "slots_ok s \<longleftrightarrow> lg_inFlight s = ran (slot \<circ> lg_pc s) \<and> inj_on (slot \<circ> lg_pc s) (dom (slot \<circ> lg_pc s))"

definition login_ok :: "security \<Rightarrow> login_sys \<Rightarrow> bool" where
  "login_ok cfg s \<longleftrightarrow> 0 < lg_now s \<and> table_ok cfg (lg_table s) \<and> slots_ok s \<and>
     (\<forall>i ip. lg_pc s i = LPassword ip \<longrightarrow> unlocked (lg_table s) ip)"

definition in_lockout :: "time \<Rightarrow> string \<Rightarrow> loginAttempt \<Rightarrow> attempts \<Rightarrow> bool" where
  "in_lockout now ip a t \<longleftrightarrow> map_of t ip = Some a \<and> 0 < now \<and> now < lockoutEnd a"

text \<open>The record of an address after failures at the given times for the given names.\<close>

definition fails :: "security \<Rightarrow> (time \<times> string) list \<Rightarrow> loginAttempt" where
  "fails cfg as = fold (\<lambda>(now, user). count_failure cfg now user) as no_attempt"

definition no_gap :: "security \<Rightarrow> (time \<times> string) list \<Rightarrow> bool" where
  "no_gap cfg as \<longleftrightarrow> (\<forall>(now, user) \<in> set as. 0 < now) \<and>
     successively (\<lambda>(t, _) (u, _). u - t \<le> lockoutDuration cfg) as"

definition name_of :: "string \<Rightarrow> string" where
  "name_of user = (if ValidateUsername user then user else [])"

definition one_name :: "(time \<times> string) list \<Rightarrow> bool" where
  "one_name as \<longleftrightarrow> name_of (snd (hd as)) \<noteq> [] \<and> (\<forall>(now, user) \<in> set as. name_of user = name_of (snd (hd as)))"

text \<open>A limit of one failure, a failed login of one client, and the lockout it leaves.\<close>

definition strict_cfg :: security where
  "strict_cfg = \<lparr>LoginLockoutDuration = 300, LoginMaxFailures = 1\<rparr>"

definition strict_record :: loginAttempt where
  "strict_record = \<lparr>la_failures = 1, lastFailed = 1, lockoutEnd = 1 + 300 * second,
     failedUser = ''bob'', otherFailures = False\<rparr>"

definition login_run :: "login_sys list" where
  "login_run =
     (let s0 = \<lparr>lg_now = 1, lg_table = [], lg_inFlight = {}, lg_pc = \<lambda>_. LIdle\<rparr>;
          s1 = lg_move s0 0 (LWait ''10.0.0.9'' (1 + loginSlotWait)) [];
          s2 = (lg_move s1 0 (LCheck ''10.0.0.9'') [])\<lparr>lg_inFlight := {''10.0.0.9''}\<rparr>;
          s3 = lg_move s2 0 (LPassword ''10.0.0.9'') [];
          s4 = (lg_move s3 0 (LDone ''10.0.0.9'') [(''10.0.0.9'', strict_record)])\<lparr>lg_now := 1\<rparr>
      in [s0, s1, s2, s3, s4])"

section \<open>Eviction\<close>

lemma oldest_unlocked_in:
  "oldest_unlocked now ip0 old t = ip0 \<or>
     (\<exists>a. (oldest_unlocked now ip0 old t, a) \<in> set t \<and> lockoutEnd a = 0)"
proof (induction t arbitrary: ip0 old)
  case (Cons p t)
  obtain ip a where p: "p = (ip, a)" by fastforce
  show ?case using Cons [of ip "lastFailed a"] Cons [of ip0 old] unfolding p by (auto simp: is_zero_def)
qed simp

lemma evict_cases:
  assumes "evictOneRecordLocked now t = Some t'"
  obtains (expired) ip a where "(ip, a) \<in> set t" "isExpiredLocked a now" "t' = dropExpired now t"
  | (oldest) ip a where "(ip, a) \<in> set t" "lockoutEnd a = 0" "t' = AList.delete ip t"
proof (cases "list_ex (\<lambda>(ip, a). isExpiredLocked a now) t")
  case True
  then obtain ip a where "(ip, a) \<in> set t" "isExpiredLocked a now" by (auto simp: list_ex_iff)
  with True assms that(1) show thesis by (simp add: evictOneRecordLocked_def)
next
  case False
  have "oldest_unlocked now [] 0 t \<noteq> []" and "t' = AList.delete (oldest_unlocked now [] 0 t) t"
    using False assms by (simp_all add: evictOneRecordLocked_def Let_def split: if_splits)
  with oldest_unlocked_in [of now "[]" 0 t] that(2) show thesis by metis
qed

lemma length_dropExpired:
  assumes "(ip, a) \<in> set t" and "isExpiredLocked a now"
  shows "length (dropExpired now t) < length t"
  using assms unfolding dropExpired_def by (intro length_filter_less) auto

interpretation web_logins: bounded_table maxLoginAttemptsRecords "evictOneRecordLocked now" for now
proof
  fix t t' assume e: "evictOneRecordLocked now t = Some t'"
  show "length t' < length t"
    using e by (cases rule: evict_cases) (auto intro!: length_dropExpired length_delete bexI [of _ "(_, _)"] simp: image_iff)
  show "set t' \<subseteq> set t"
    using e by (cases rule: evict_cases) (auto simp: dropExpired_def dest: set_delete [THEN subsetD])
  show "distinct (map fst t')" if "distinct (map fst t)"
    using e that by (cases rule: evict_cases) (simp_all add: dropExpired_def distinct_filter_fst distinct_delete)
qed

text \<open>A lockout that is in force is never evicted or cleaned up.\<close>

lemma in_lockout_active: "in_lockout now ip a t \<Longrightarrow> \<not> isExpiredLocked a now \<and> lockoutEnd a \<noteq> 0"
  by (auto simp: in_lockout_def isExpiredLocked_def is_zero_def)

lemma dropExpired_lockout:
  "distinct (map fst t) \<Longrightarrow> in_lockout now ip a t \<Longrightarrow> in_lockout now ip a (dropExpired now t)"
  using in_lockout_active [of now ip a t] by (simp add: in_lockout_def dropExpired_def map_of_filter_some)

lemma evict_lockout:
  assumes "distinct (map fst t)" and "in_lockout now ip a t" and "evictOneRecordLocked now t = Some t'"
  shows "in_lockout now ip a t'"
  using assms(3)
proof (cases rule: evict_cases)
  case (expired ip' a')
  then show ?thesis using assms(1,2) by (simp add: dropExpired_lockout)
next
  case (oldest ip' a')
  have "map_of t ip' = Some a'" using oldest(1) assms(1) by simp
  then have "ip' \<noteq> ip" using oldest(2) assms(2) in_lockout_active by (auto simp: in_lockout_def)
  then show ?thesis using oldest(3) assms(2) by (simp add: in_lockout_def map_of_delete)
qed

section \<open>The operations on the table\<close>

lemma lockoutDuration_ok:
  "security_ok cfg \<Longrightarrow> lockoutDuration cfg = LoginLockoutDuration cfg * second \<and> 0 < lockoutDuration cfg"
  by (simp add: security_ok_def lockoutDuration_def wrap64_def)

lemma table_ok_update:
  assumes "table_ok cfg t" and "attempt_ok cfg a" and "k \<in> fst ` set t"
  shows "table_ok cfg (AList.update k a t)"
  using assms all_entries_update [of t "\<lambda>_. attempt_ok cfg" k a]
  by (simp add: table_ok_def length_update distinct_update)

lemma table_ok_subset:
  assumes "table_ok cfg t" and "set t' \<subseteq> set t" and "length t' \<le> length t" and "distinct (map fst t')"
  shows "table_ok cfg t'"
  using assms by (auto simp: table_ok_def)

lemma dropExpired_ok: "table_ok cfg t \<Longrightarrow> table_ok cfg (dropExpired now t)"
  by (rule table_ok_subset) (auto simp: dropExpired_def table_ok_def distinct_filter_fst)

lemma delete_ok: "table_ok cfg t \<Longrightarrow> table_ok cfg (AList.delete k t)"
  by (rule table_ok_subset) (auto simp: table_ok_def distinct_delete length_delete_le dest: set_delete [THEN subsetD])

lemma table_ok_lookup: "table_ok cfg t \<Longrightarrow> map_of t ip = Some a \<Longrightarrow> attempt_ok cfg a"
  by (auto simp: table_ok_def dest: map_of_SomeD)

lemma forgive_ok: "security_ok cfg \<Longrightarrow> attempt_ok cfg a \<Longrightarrow> attempt_ok cfg (forgive a)"
  by (auto simp: forgive_def attempt_ok_def security_ok_def is_zero_def)

text \<open>A check keeps every other record, and after one that admits the address its record is unlocked.\<close>

lemma check_table:
  assumes "security_ok cfg" and "table_ok cfg t" and "CheckLoginAttempt cfg now ip t = (r, t')"
  shows "table_ok cfg t'" and "j \<noteq> ip \<Longrightarrow> map_of t' j = map_of t j"
    and "unlocked t j \<Longrightarrow> unlocked t' j" and "r = None \<Longrightarrow> unlocked t' ip"
    and "in_lockout now j a t \<Longrightarrow> in_lockout now j a t'"
proof -
  have d: "0 < LoginLockoutDuration cfg" using assms(1) by (simp add: security_ok_def)
  consider (same) "t' = t" "r = None \<Longrightarrow> map_of t ip = None"
    | (upd) b where "map_of t ip = Some b" "\<not> now < lockoutEnd b" "t' = AList.update ip (forgive b) t"
    using assms(3) d by (auto simp: CheckLoginAttempt_def split: option.splits if_splits)
  then have "table_ok cfg t' \<and> (j \<noteq> ip \<longrightarrow> map_of t' j = map_of t j) \<and> (unlocked t j \<longrightarrow> unlocked t' j) \<and>
      (r = None \<longrightarrow> unlocked t' ip) \<and> (in_lockout now j a t \<longrightarrow> in_lockout now j a t')"
  proof cases
    case upd
    have "ip \<in> fst ` set t" using upd(1) by (force dest: map_of_SomeD)
    then have ok: "table_ok cfg t'"
      using table_ok_update [OF assms(2) forgive_ok [OF assms(1) table_ok_lookup [OF assms(2) upd(1)]]] upd(3) by simp
    have f: "lockoutEnd (forgive b) = 0" by (simp add: forgive_def is_zero_def)
    have "map_of t' = (map_of t)(ip \<mapsto> forgive b)" using upd(3) by (simp add: map_of_update)
    then show ?thesis using upd(1,2) f ok by (auto simp: unlocked_def in_lockout_def)
  qed (use assms(2) in \<open>auto simp: unlocked_def\<close>)
  then show "table_ok cfg t'" "j \<noteq> ip \<Longrightarrow> map_of t' j = map_of t j"
    "unlocked t j \<Longrightarrow> unlocked t' j" "r = None \<Longrightarrow> unlocked t' ip"
    "in_lockout now j a t \<Longrightarrow> in_lockout now j a t'" by blast+
qed

lemma count_failure_ok:
  assumes "security_ok cfg" and "attempt_ok cfg a" and "lockoutEnd a = 0" and "0 < now"
  shows "attempt_ok cfg (count_failure cfg now user a)"
  using assms lockoutDuration_ok [OF assms(1)]
  by (auto simp: count_failure_def attempt_ok_def security_ok_def Let_def)

text \<open>Recording a failure keeps every other record, or evicts one that is not in lockout.\<close>

lemma record_table:
  assumes "security_ok cfg" and "table_ok cfg t" and "unlocked t ip" and "0 < now"
    and "RecordLoginFailureFor cfg now later ip user t = (r, n, t')"
  shows "table_ok cfg t'" and "j \<noteq> ip \<Longrightarrow> unlocked t j \<Longrightarrow> unlocked t' j"
    and "j \<noteq> ip \<Longrightarrow> in_lockout later j a t \<Longrightarrow> in_lockout later j a t'"
proof -
  have d: "0 < LoginLockoutDuration cfg" using assms(1) by (simp add: security_ok_def)
  have t: "length t \<le> maxLoginAttemptsRecords" "distinct (map fst t)" using assms(2) by (auto simp: table_ok_def)
  consider (same) "t' = t" | (upd) q where "room_for later ip t = Some q"
      "t' = AList.update ip (count_failure cfg now user (case map_of q ip of None \<Rightarrow> no_attempt | Some b \<Rightarrow> b)) q"
    using assms(5) d by (auto simp: RecordLoginFailureFor_def Let_def split: option.splits)
  then have "table_ok cfg t' \<and> (j \<noteq> ip \<longrightarrow> unlocked t j \<longrightarrow> unlocked t' j) \<and>
      (j \<noteq> ip \<longrightarrow> in_lockout later j a t \<longrightarrow> in_lockout later j a t')"
  proof cases
    case (upd q)
    define b where "b = (case map_of q ip of None \<Rightarrow> no_attempt | Some b \<Rightarrow> b)"
    have t': "t' = AList.update ip (count_failure cfg now user b) q" using upd(2) by (simp add: b_def)
    have q: "q = t \<and> (map_of t ip \<noteq> None \<or> length t < maxLoginAttemptsRecords) \<or> evictOneRecordLocked later t = Some q"
      using upd(1) by (auto simp: room_for_def split: if_splits)
    have sub: "set q \<subseteq> set t" "length q \<le> length t" "distinct (map fst q)"
      using q web_logins.evict_subset web_logins.evict_less web_logins.evict_distinct t(2) by (auto intro: less_imp_le)
    have qt: "map_of q j = Some c \<Longrightarrow> map_of t j = Some c" for j c
      using sub(1,3) t(2) by (auto simp: map_of_eq_Some_iff)
    have "attempt_ok cfg b \<and> lockoutEnd b = 0"
    proof (cases "map_of q ip")
      case None
      then show ?thesis using assms(1) by (simp add: b_def no_attempt_def attempt_ok_def security_ok_def)
    next
      case (Some c)
      then show ?thesis using qt [OF Some] assms(2,3) by (simp add: b_def table_ok_lookup unlocked_def)
    qed
    then have ok: "attempt_ok cfg (count_failure cfg now user b)" using assms(1,4) count_failure_ok by blast
    have all: "\<forall>(i, x) \<in> set q. attempt_ok cfg x" using sub(1) assms(2) by (auto simp: table_ok_def)
    have "table_ok cfg t'"
      unfolding table_ok_def t'
      using web_logins.insert_within(1,2) [OF t q] all_entries_update [of q "\<lambda>_. attempt_ok cfg", OF all ok] by simp
    moreover have "j \<noteq> ip \<longrightarrow> unlocked t j \<longrightarrow> unlocked t' j"
      using qt by (auto simp: unlocked_def t' map_of_update)
    moreover have "in_lockout later j a t \<Longrightarrow> in_lockout later j a q"
      using q t(2) evict_lockout by blast
    ultimately show ?thesis by (simp add: in_lockout_def t' map_of_update)
  qed (use assms(2) in auto)
  then show "table_ok cfg t'" "j \<noteq> ip \<Longrightarrow> unlocked t j \<Longrightarrow> unlocked t' j"
    "j \<noteq> ip \<Longrightarrow> in_lockout later j a t \<Longrightarrow> in_lockout later j a t'" by blast+
qed

lemma clear_table:
  shows "table_ok cfg t \<Longrightarrow> table_ok cfg (ClearLoginAttempt cfg ip user t)"
    and "j \<noteq> ip \<Longrightarrow> map_of (ClearLoginAttempt cfg ip user t) j = map_of t j"
    and "unlocked t j \<Longrightarrow> unlocked (ClearLoginAttempt cfg ip user t) j"
  by (auto simp: ClearLoginAttempt_def map_of_delete unlocked_def split: option.splits intro: delete_ok)

section \<open>The invariant is kept\<close>

lemma inj_upd_some: "inj_on f (dom f) \<Longrightarrow> b \<notin> ran f \<Longrightarrow> inj_on (f(i \<mapsto> b)) (dom (f(i \<mapsto> b)))"
  unfolding inj_on_def ran_def dom_def by (auto split: if_splits)

lemma inj_upd_none: "inj_on f (dom f) \<Longrightarrow> inj_on (f(i := None)) (dom (f(i := None)))"
  unfolding inj_on_def dom_def by auto

lemma ran_upd_none: "inj_on f (dom f) \<Longrightarrow> f i = Some b \<Longrightarrow> ran (f(i := None)) = ran f - {b}"
  unfolding inj_on_def dom_def ran_def by (auto split: if_splits) (metis option.inject)

lemma slot_upd: "slot \<circ> (f(i := pc)) = (slot \<circ> f)(i := slot pc)"
  by (simp add: fun_upd_comp)

lemma slots_same:
  assumes "slots_ok s" and "slot pc = slot (lg_pc s i)"
    and "lg_pc s' = (lg_pc s)(i := pc)" and "lg_inFlight s' = lg_inFlight s"
  shows "slots_ok s'"
proof -
  have "slot \<circ> lg_pc s' = slot \<circ> lg_pc s" unfolding assms(3) slot_upd using assms(2) by auto
  then show ?thesis using assms(1,4) by (simp add: slots_ok_def)
qed

lemma slots_taken:
  assumes "slots_ok s" and "slot (lg_pc s i) = None" and "slot pc = Some ip" and "ip \<notin> lg_inFlight s"
    and "lg_pc s' = (lg_pc s)(i := pc)" and "lg_inFlight s' = insert ip (lg_inFlight s)"
  shows "slots_ok s'"
proof -
  have "slot \<circ> lg_pc s' = (slot \<circ> lg_pc s)(i \<mapsto> ip)" unfolding assms(5) slot_upd using assms(3) by simp
  moreover have "(slot \<circ> lg_pc s) i = None" and "ip \<notin> ran (slot \<circ> lg_pc s)"
    using assms(1,2,4) by (simp_all add: slots_ok_def)
  ultimately show ?thesis
    using assms(1,6) inj_upd_some [of "slot \<circ> lg_pc s" ip i] ran_map_upd [of "slot \<circ> lg_pc s" i ip]
    unfolding slots_ok_def by simp
qed

lemma slots_freed:
  assumes "slots_ok s" and "slot (lg_pc s i) = Some ip" and "slot pc = None"
    and "lg_pc s' = (lg_pc s)(i := pc)" and "lg_inFlight s' = lg_inFlight s - {ip}"
  shows "slots_ok s'"
proof -
  have "slot \<circ> lg_pc s' = (slot \<circ> lg_pc s)(i := None)" unfolding assms(4) slot_upd using assms(3) by simp
  moreover have "(slot \<circ> lg_pc s) i = Some ip" using assms(2) by simp
  ultimately show ?thesis
    using assms(1,5) inj_upd_none [of "slot \<circ> lg_pc s" i] ran_upd_none [of "slot \<circ> lg_pc s" i ip]
    unfolding slots_ok_def by simp
qed

text \<open>The goroutine that holds a slot is the only one at that address.\<close>

lemma slot_alone:
  assumes "slots_ok s" and "slot (lg_pc s i) = Some ip" and "slot (lg_pc s j) = Some ip"
  shows "i = j"
  using assms by (auto simp: slots_ok_def dest: inj_onD [of _ _ i j])

lemma login_okD:
  assumes "login_ok cfg s"
  shows "0 < lg_now s" and "table_ok cfg (lg_table s)" and "slots_ok s"
    and "lg_pc s i = LPassword ip \<Longrightarrow> unlocked (lg_table s) ip"
  using assms by (auto simp: login_ok_def)

lemma login_frame:
  assumes "login_ok cfg s" and "0 < lg_now s'" and "table_ok cfg (lg_table s')" and "slots_ok s'"
    and "lg_pc s' = (lg_pc s)(i := pc)" and "\<And>ip. pc = LPassword ip \<Longrightarrow> unlocked (lg_table s') ip"
    and "\<And>j ip. j \<noteq> i \<Longrightarrow> lg_pc s j = LPassword ip \<Longrightarrow> unlocked (lg_table s) ip \<Longrightarrow> unlocked (lg_table s') ip"
  shows "login_ok cfg s'"
  using assms by (auto simp: login_ok_def)

lemma move_frame:
  assumes "login_ok cfg s" and "s' = lg_move s i pc t" and "slot pc = slot (lg_pc s i)" and "table_ok cfg t"
    and "\<And>ip. pc = LPassword ip \<Longrightarrow> unlocked t ip"
    and "\<And>j ip. unlocked (lg_table s) ip \<Longrightarrow> unlocked t ip"
  shows "login_ok cfg s'"
proof (rule login_frame [OF assms(1), where i = i and pc = pc])
  show "slots_ok s'" using assms(2,3)
    by (intro slots_same [OF login_okD(3) [OF assms(1)], where i = i and pc = pc]) (simp_all add: lg_move_def)
qed (use assms login_okD(1) [OF assms(1)] in \<open>simp_all add: lg_move_def\<close>)

lemma idle_frame:
  assumes "login_ok cfg s" and "lg_now s \<le> lg_now s'" and "table_ok cfg (lg_table s')"
    and "lg_pc s' = lg_pc s" and "lg_inFlight s' = lg_inFlight s"
    and "\<And>ip. unlocked (lg_table s) ip \<Longrightarrow> unlocked (lg_table s') ip"
  shows "login_ok cfg s'"
  using assms by (auto simp: login_ok_def slots_ok_def)

lemma reordered:
  assumes "distinct (map fst t)" and "distinct (map fst t')" and "set t' = set t"
  shows "length t' = length t" and "map_of t' = map_of t"
proof -
  show "length t' = length t" using assms by (metis distinct_card distinct_map)
  show "map_of t' = map_of t" using assms by (simp add: map_of_inject_set)
qed

lemma dropExpired_unlocked:
  "distinct (map fst t) \<Longrightarrow> unlocked t ip \<Longrightarrow> unlocked (dropExpired now t) ip"
  by (simp add: unlocked_def dropExpired_def map_of_filter_some)

lemma login_step_ok:
  assumes "security_ok cfg" and "login_step cfg s s'" and "login_ok cfg s"
  shows "login_ok cfg s'"
  using assms(2)
proof cases
  case (tick now)
  then show ?thesis using login_okD(2) [OF assms(3)] by (intro idle_frame [OF assms(3)]) simp_all
next
  case (reorder t)
  have d: "distinct (map fst (lg_table s))" using login_okD(2) [OF assms(3)] by (simp add: table_ok_def)
  note same = reordered [OF d reorder(3,2)]
  have "table_ok cfg t"
    by (rule table_ok_subset [OF login_okD(2) [OF assms(3)]]) (simp_all add: reorder(2,3) same)
  then show ?thesis using reorder(1) same(2)
    by (intro idle_frame [OF assms(3)]) (simp_all add: unlocked_def)
next
  case cleanup
  moreover have "distinct (map fst (lg_table s))" using login_okD(2) [OF assms(3)] by (simp add: table_ok_def)
  ultimately show ?thesis using login_okD(2) [OF assms(3)]
    by (intro idle_frame [OF assms(3)]) (simp_all add: dropExpired_ok dropExpired_unlocked)
next
  case (precheck ip r t)
  note c = check_table [OF assms(1) login_okD(2) [OF assms(3)] precheck(2)]
  show ?thesis using precheck(1) c(1,3) by (intro idle_frame [OF assms(3)]) simp_all
next
  case (enter i ip)
  then show ?thesis using login_okD(2) [OF assms(3)] by (intro move_frame [OF assms(3) enter(1)]) simp_all
next
  case (admit i ip d)
  have "slots_ok s'" using admit
    by (intro slots_taken [OF login_okD(3) [OF assms(3)], where i = i and pc = "LCheck ip"]) (simp_all add: lg_move_def)
  then show ?thesis using admit(1) login_okD(1,2) [OF assms(3)]
    by (intro login_frame [OF assms(3), where i = i and pc = "LCheck ip"]) (simp_all add: lg_move_def)
next
  case (give_up i ip d)
  then show ?thesis using login_okD(2) [OF assms(3)] by (intro move_frame [OF assms(3) give_up(1)]) simp_all
next
  case (allowed i ip t)
  note c = check_table [OF assms(1) login_okD(2) [OF assms(3)] allowed(3)]
  show ?thesis using allowed(2) c(1,3,4) by (intro move_frame [OF assms(3) allowed(1)]) simp_all
next
  case (refused i ip b t)
  note c = check_table [OF assms(1) login_okD(2) [OF assms(3)] refused(3)]
  show ?thesis using refused(2) c(1,3) by (intro move_frame [OF assms(3) refused(1)]) simp_all
next
  case (failed i ip later user r n t)
  note l = login_okD [OF assms(3)]
  note c = record_table [OF assms(1) l(2) l(4) [OF failed(2)] l(1) failed(4)]
  have "slots_ok s'" using failed(1,2) by (intro slots_same [OF l(3), where i = i]) (simp_all add: lg_move_def)
  moreover have "unlocked t q" if "j \<noteq> i" "lg_pc s j = LPassword q" "unlocked (lg_table s) q" for j q
    using c(2) that slot_alone [OF l(3), of i ip j] failed(2) by auto
  ultimately show ?thesis using failed(1,3) c(1) l(1)
    by (intro login_frame [OF assms(3), where i = i and pc = "LDone ip"]) (simp_all add: lg_move_def)
next
  case (succeeded i ip user)
  then show ?thesis using login_okD(2) [OF assms(3)] clear_table(1,3)
    by (intro move_frame [OF assms(3) succeeded(1)]) simp_all
next
  case (unanswered i ip)
  then show ?thesis using login_okD(2) [OF assms(3)] by (intro move_frame [OF assms(3) unanswered(1)]) simp_all
next
  case (give_back i ip)
  have "slots_ok s'" using give_back
    by (intro slots_freed [OF login_okD(3) [OF assms(3)], where i = i and pc = LIdle]) (simp_all add: lg_move_def)
  then show ?thesis using give_back(1) login_okD(1,2) [OF assms(3)]
    by (intro login_frame [OF assms(3), where i = i and pc = LIdle]) (simp_all add: lg_move_def)
qed

interpretation web_login: invariant_system login_init "login_step cfg" "\<lambda>s. security_ok cfg \<longrightarrow> login_ok cfg s" for cfg
proof
  fix s show "login_init s \<Longrightarrow> security_ok cfg \<longrightarrow> login_ok cfg s"
    by (simp add: login_init_def login_ok_def table_ok_def slots_ok_def ran_def dom_def)
qed (blast intro: login_step_ok)

lemma clock_mono: "login_step cfg s s' \<Longrightarrow> lg_now s \<le> lg_now s'"
  by (erule login_step.cases) (simp_all add: lg_move_def)

lemma lockout_later: "in_lockout now ip a t \<Longrightarrow> now \<le> later \<Longrightarrow> later < lockoutEnd a \<Longrightarrow> in_lockout later ip a t"
  by (simp add: in_lockout_def)

lemma lockout_no_check:
  assumes "login_ok cfg s" and "in_lockout (lg_now s) ip a (lg_table s)"
  shows "lg_pc s i \<noteq> LPassword ip"
  using login_okD(4) [OF assms(1)] assms(2) in_lockout_active [OF assms(2)] by (auto simp: in_lockout_def unlocked_def)

text \<open>A lockout lasts through any step that ends before it does.\<close>

lemma lockout_step:
  assumes "security_ok cfg" and "login_ok cfg s" and "login_step cfg s s'"
    and "in_lockout (lg_now s) ip a (lg_table s)" and "lg_now s' < lockoutEnd a"
  shows "in_lockout (lg_now s') ip a (lg_table s')"
proof -
  note l = login_okD [OF assms(2)]
  have d: "distinct (map fst (lg_table s))" using l(2) by (simp add: table_ok_def)
  note keep = lockout_later [OF assms(4) clock_mono [OF assms(3)] assms(5)]
  from assms(3) show ?thesis
  proof cases
    case (reorder t)
    then show ?thesis using assms(4) reordered(2) [OF d reorder(3,2)] by (simp add: in_lockout_def)
  next
    case cleanup
    then show ?thesis using dropExpired_lockout [OF d assms(4)] by simp
  next
    case (precheck q r t)
    then show ?thesis using check_table(5) [OF assms(1) l(2) precheck(2) assms(4)] by simp
  next
    case (allowed i q t)
    then show ?thesis using check_table(5) [OF assms(1) l(2) allowed(3) assms(4)] by (simp add: lg_move_def)
  next
    case (refused i q b t)
    then show ?thesis using check_table(5) [OF assms(1) l(2) refused(3) assms(4)] by (simp add: lg_move_def)
  next
    case (failed i q later user r n t)
    have "ip \<noteq> q" using lockout_no_check [OF assms(2,4)] failed(2) by blast
    moreover have "in_lockout later ip a (lg_table s)" using keep failed(1) by (simp add: lg_move_def)
    ultimately have "in_lockout later ip a t"
      using record_table(3) [OF assms(1) l(2) l(4) [OF failed(2)] l(1) failed(4)] by blast
    then show ?thesis using failed(1) by (simp add: lg_move_def)
  next
    case (succeeded i q user)
    have "ip \<noteq> q" using lockout_no_check [OF assms(2,4)] succeeded(2) by blast
    then show ?thesis using succeeded(1) assms(4) clear_table(2) by (simp add: lg_move_def in_lockout_def)
  qed (use keep in \<open>simp_all add: lg_move_def\<close>)
qed

lemma lockout_run:
  assumes "security_ok cfg" and "(login_step cfg)\<^sup>*\<^sup>* s t" and "login_ok cfg s"
    and "in_lockout (lg_now s) ip a (lg_table s)" and "lg_now t < lockoutEnd a"
  shows "login_ok cfg t \<and> in_lockout (lg_now t) ip a (lg_table t)"
  using assms(2,5)
proof (induction rule: rtranclp_induct)
  case base
  then show ?case using assms(3,4) by simp
next
  case (step u v)
  then have "lg_now u < lockoutEnd a" using clock_mono by fastforce
  with step show ?case using assms(1) login_step_ok lockout_step by blast
qed

section \<open>A series of failures\<close>

lemma count_failure_steady:
  assumes "security_ok cfg" and "lastFailed a = 0 \<or> now - lastFailed a \<le> lockoutDuration cfg"
  shows "la_failures (count_failure cfg now user a) = la_failures a + 1"
    and "lastFailed (count_failure cfg now user a) = now"
    and "lockoutEnd (count_failure cfg now user a) =
           (if la_failures a + 1 < LoginMaxFailures cfg then lockoutEnd a else now + lockoutDuration cfg)"
    and "failedUser (count_failure cfg now user a) =
           (if name_of user \<noteq> [] \<and> la_failures a = 0 then name_of user else failedUser a)"
    and "otherFailures (count_failure cfg now user a) \<longleftrightarrow> otherFailures a \<or> name_of user = [] \<or>
           (la_failures a \<noteq> 0 \<and> name_of user \<noteq> failedUser a)"
proof -
  have "lockoutDuration cfg < 2 ^ 63 - 1" and "- (2 ^ 63) < lockoutDuration cfg"
    using assms(1) lockoutDuration_ok [OF assms(1)] by (simp_all add: security_ok_def)
  then have f: "(\<not> is_zero (lastFailed a) \<and> time_sub now (lastFailed a) > lockoutDuration cfg) = False"
    using assms(2) time_sub_le [of "lockoutDuration cfg" now "lastFailed a"] by (auto simp: is_zero_def)
  show "la_failures (count_failure cfg now user a) = la_failures a + 1"
    "lastFailed (count_failure cfg now user a) = now"
    "lockoutEnd (count_failure cfg now user a) =
       (if la_failures a + 1 < LoginMaxFailures cfg then lockoutEnd a else now + lockoutDuration cfg)"
    "failedUser (count_failure cfg now user a) =
       (if name_of user \<noteq> [] \<and> la_failures a = 0 then name_of user else failedUser a)"
    "otherFailures (count_failure cfg now user a) \<longleftrightarrow> otherFailures a \<or> name_of user = [] \<or>
       (la_failures a \<noteq> 0 \<and> name_of user \<noteq> failedUser a)"
    unfolding count_failure_def f if_False by (simp_all add: Let_def name_of_def)
qed

lemma fails_snoc: "fails cfg (as @ [(now, user)]) = count_failure cfg now user (fails cfg as)"
  by (simp add: fails_def)

lemma no_gap_snoc:
  "no_gap cfg (as @ [(now, user)]) \<longleftrightarrow> no_gap cfg as \<and> 0 < now \<and>
     (as \<noteq> [] \<longrightarrow> now - fst (last as) \<le> lockoutDuration cfg)"
  by (cases "last as") (auto simp: no_gap_def successively_append_iff)

lemma fails_counted:
  assumes "security_ok cfg" and "no_gap cfg as"
  shows "la_failures (fails cfg as) = int (length as)
    \<and> lastFailed (fails cfg as) = (if as = [] then 0 else fst (last as))
    \<and> lockoutEnd (fails cfg as) = (if int (length as) < LoginMaxFailures cfg then 0
        else fst (last as) + lockoutDuration cfg)
    \<and> (as \<noteq> [] \<longrightarrow> (otherFailures (fails cfg as) \<longleftrightarrow> \<not> one_name as) \<and>
         (one_name as \<longrightarrow> failedUser (fails cfg as) = name_of (snd (hd as))))"
  using assms(2)
proof (induction as rule: rev_induct)
  case Nil
  then show ?case using assms(1) by (simp add: fails_def no_attempt_def security_ok_def)
next
  case (snoc x as)
  obtain now user where x: "x = (now, user)" by fastforce
  have g: "no_gap cfg as" "as \<noteq> [] \<longrightarrow> now - fst (last as) \<le> lockoutDuration cfg"
    using snoc.prems unfolding x no_gap_snoc by auto
  note IH = snoc.IH [OF g(1)]
  have "lastFailed (fails cfg as) = 0 \<or> now - lastFailed (fails cfg as) \<le> lockoutDuration cfg"
    using IH g(2) by auto
  note c = count_failure_steady [OF assms(1) this, of user]
  show ?case
  proof (cases "as = []")
    case True
    then show ?thesis using c IH assms(1) unfolding x fails_snoc
      by (auto simp: one_name_def fails_def no_attempt_def)
  next
    case False
    then have h: "hd (as @ [x]) = hd as" by simp
    have all: "one_name (as @ [x]) \<longleftrightarrow> one_name as \<and> name_of user = name_of (snd (hd as))"
      unfolding one_name_def h by (auto simp: x)
    have "one_name as \<Longrightarrow> name_of (snd (hd as)) \<noteq> []" by (simp add: one_name_def)
    then show ?thesis using c IH False unfolding all h by (auto simp: x fails_snoc)
  qed
qed

section \<open>Properties\<close>

lemma strict_failure: "count_failure strict_cfg 1 ''bob'' no_attempt = strict_record"
  by (simp add: count_failure_def strict_cfg_def no_attempt_def strict_record_def is_zero_def ValidateUsername_def
      alnum_def lockoutDuration_def wrap64_def Let_def)

lemma strict_simps [simp]:
  "LoginLockoutDuration strict_cfg = 300" "LoginMaxFailures strict_cfg = 1" "security_ok strict_cfg"
  "la_failures strict_record = 1" "lockoutEnd strict_record = 1 + 300 * second"
  by (simp_all add: strict_cfg_def security_ok_def strict_record_def)

lemma strict_recorded:
  "RecordLoginFailureFor strict_cfg 1 1 ''10.0.0.9'' ''bob'' [] = (None, True, [(''10.0.0.9'', strict_record)])"
  unfolding RecordLoginFailureFor_def room_for_def by (simp add: strict_failure Let_def)

lemma login_run_steps:
  "login_init (login_run ! 0)" "login_step strict_cfg (login_run ! 0) (login_run ! 1)"
  "login_step strict_cfg (login_run ! 1) (login_run ! 2)" "login_step strict_cfg (login_run ! 2) (login_run ! 3)"
  "login_step strict_cfg (login_run ! 3) (login_run ! 4)"
proof -
  show "login_init (login_run ! 0)" by (simp add: login_run_def login_init_def Let_def)
  show "login_step strict_cfg (login_run ! 0) (login_run ! 1)"
    using login_step.enter [of "login_run ! 0" 0 strict_cfg "''10.0.0.9''"]
    by (simp add: login_run_def Let_def lg_move_def)
  show "login_step strict_cfg (login_run ! 1) (login_run ! 2)"
    using login_step.admit [of "login_run ! 1" 0 "''10.0.0.9''" "1 + loginSlotWait" strict_cfg]
    by (simp add: login_run_def Let_def lg_move_def)
  show "login_step strict_cfg (login_run ! 2) (login_run ! 3)"
    using login_step.allowed [of "login_run ! 2" 0 "''10.0.0.9''" strict_cfg "[]"]
    by (simp add: login_run_def Let_def lg_move_def CheckLoginAttempt_def)
  show "login_step strict_cfg (login_run ! 3) (login_run ! 4)"
    using login_step.failed [of "login_run ! 3" 0 "''10.0.0.9''" 1 strict_cfg "''bob''" None True "[(''10.0.0.9'', strict_record)]"]
    by (simp add: login_run_def Let_def lg_move_def strict_recorded)
qed

lemma login_run_reachable: "reachable login_init (login_step strict_cfg) (login_run ! 4)"
proof -
  note more = reachable.more [where initial = login_init and step = "login_step strict_cfg"]
  have "reachable login_init (login_step strict_cfg) (login_run ! 0)"
    by (rule reachable.start) (rule login_run_steps(1))
  from more [OF more [OF more [OF more [OF this login_run_steps(2)] login_run_steps(3)] login_run_steps(4)]
      login_run_steps(5)] show ?thesis .
qed

text \<open>
  C14. A lockout is in force until its end. Once an address has a lockout, then whatever logins,
  failures, evictions, clean-ups and reorderings of the table follow, on this and any other address,
  as long as the clock has not reached the end of the lockout: the record is unchanged, no password
  check of that address is under way, and a check of the address answers that it is locked.
\<close>

theorem lockout_holds:
  assumes "security_ok cfg" and "reachable login_init (login_step cfg) s"
    and "map_of (lg_table s) ip = Some a" and "lg_now s < lockoutEnd a"
    and "(login_step cfg)\<^sup>*\<^sup>* s t" and "lg_now t < lockoutEnd a"
  shows "map_of (lg_table t) ip = Some a \<and> (\<forall>i. lg_pc t i \<noteq> LPassword ip) \<and>
    CheckLoginAttempt cfg (lg_now t) ip (lg_table t) = (Some LockedOut, lg_table t)"
proof -
  have ok: "login_ok cfg s" using web_login.reachable_inv [OF assms(2)] assms(1) by blast
  then have "in_lockout (lg_now s) ip a (lg_table s)"
    using assms(3,4) by (simp add: in_lockout_def login_ok_def)
  then have t: "login_ok cfg t" "in_lockout (lg_now t) ip a (lg_table t)"
    using lockout_run [OF assms(1,5) ok _ assms(6)] by blast+
  moreover have "CheckLoginAttempt cfg (lg_now t) ip (lg_table t) = (Some LockedOut, lg_table t)"
    using t(2) assms(1) by (simp add: CheckLoginAttempt_def in_lockout_def security_ok_def)
  ultimately show ?thesis using lockout_no_check by (auto simp: in_lockout_def)
qed

theorem lockout_holds_witness:
  "CheckLoginAttempt strict_cfg 100 ''10.0.0.9'' [(''10.0.0.9'', strict_record)] =
     (Some LockedOut, [(''10.0.0.9'', strict_record)])"
proof -
  have "login_step strict_cfg (login_run ! 4) ((login_run ! 4)\<lparr>lg_now := 100\<rparr>)"
    by (rule login_step.tick) (simp add: login_run_def Let_def)
  then have r: "(login_step strict_cfg)\<^sup>*\<^sup>* (login_run ! 4) ((login_run ! 4)\<lparr>lg_now := 100\<rparr>)" by (rule r_into_rtranclp)
  have l: "lg_table (login_run ! 4) = [(''10.0.0.9'', strict_record)]" "lg_now (login_run ! 4) = 1"
    by (simp_all add: login_run_def Let_def lg_move_def)
  have "security_ok strict_cfg" by (simp add: security_ok_def strict_cfg_def)
  from lockout_holds [OF this login_run_reachable _ _ r, where ip = "''10.0.0.9''" and a = strict_record]
  show ?thesis using l by (simp add: strict_record_def)
qed

text \<open>
  A series of failures from one address, none later than the lockout duration after the one
  before, is counted in full: the record has that many failures, and a lockout, which ends one
  lockout duration after the last failure, exactly when the limit has been reached.
\<close>

theorem failures_lead_to_lockout:
  assumes "security_ok cfg" and "no_gap cfg as" and "as \<noteq> []"
  shows "la_failures (fails cfg as) = int (length as) \<and>
    lockoutEnd (fails cfg as) = (if int (length as) < LoginMaxFailures cfg then 0
      else fst (last as) + LoginLockoutDuration cfg * second)"
  using fails_counted [OF assms(1,2)] lockoutDuration_ok [OF assms(1)] by simp

theorem failures_lead_to_lockout_witness:
  "lockoutEnd (fails strict_cfg [(1, ''bob'')]) = 1 + 300 * second"
proof -
  have "security_ok strict_cfg" and "no_gap strict_cfg [(1, ''bob'')]"
    by (simp_all add: security_ok_def strict_cfg_def no_gap_def)
  from failures_lead_to_lockout [OF this] show ?thesis by (simp add: strict_cfg_def)
qed

text \<open>
  A successful login of a user removes the failures of its address exactly when all of them were
  for that user: failures for another account, or for a name that is none, stay counted.
\<close>

theorem success_keeps_other_failures:
  assumes "security_ok cfg" and "no_gap cfg as" and "as \<noteq> []" and "ValidateUsername user"
    and "map_of t ip = Some (fails cfg as)"
  shows "map_of (ClearLoginAttempt cfg ip user t) ip =
    (if \<forall>(now, name) \<in> set as. name = user then None else Some (fails cfg as))"
proof -
  have u: "user \<noteq> []" "name_of user = user" using assms(4) by (auto simp: name_of_def ValidateUsername_def)
  have n: "name_of v = user \<longleftrightarrow> v = user" for v using u by (auto simp: name_of_def)
  have m: "hd as \<in> set as" using assms(3) by simp
  have "one_name as \<and> name_of (snd (hd as)) = user \<longleftrightarrow> (\<forall>(now, name) \<in> set as. name = user)"
  proof
    assume "one_name as \<and> name_of (snd (hd as)) = user"
    then have "\<forall>(now, name) \<in> set as. name_of name = user" unfolding one_name_def by blast
    then show "\<forall>(now, name) \<in> set as. name = user" by (simp only: n)
  next
    assume all: "\<forall>(now, name) \<in> set as. name = user"
    then have "snd (hd as) = user" using m by (cases "hd as") auto
    with all u show "one_name as \<and> name_of (snd (hd as)) = user" by (auto simp: one_name_def)
  qed
  moreover have "keeps_record user (fails cfg as) \<longleftrightarrow> \<not> (one_name as \<and> name_of (snd (hd as)) = user)"
    using fails_counted [OF assms(1,2)] assms(3) unfolding keeps_record_def by auto
  ultimately show ?thesis
    using assms(1,5) by (simp add: ClearLoginAttempt_def security_ok_def map_of_delete)
qed

theorem success_keeps_other_failures_witness:
  "map_of (ClearLoginAttempt strict_cfg ''10.0.0.9'' ''eve''
     [(''10.0.0.9'', fails strict_cfg [(1, ''bob''), (2, ''eve'')])]) ''10.0.0.9''
   = Some (fails strict_cfg [(1, ''bob''), (2, ''eve'')])"
proof -
  have "security_ok strict_cfg" and "no_gap strict_cfg [(1, ''bob''), (2, ''eve'')]"
    by (simp_all add: security_ok_def strict_cfg_def no_gap_def lockoutDuration_def wrap64_def)
  moreover have "ValidateUsername ''eve''" by (simp add: ValidateUsername_def alnum_def)
  ultimately show ?thesis
    using success_keeps_other_failures [where as = "[(1, ''bob''), (2, ''eve'')]" and user = "''eve''"
      and cfg = strict_cfg and ip = "''10.0.0.9''" and t = "[(''10.0.0.9'', fails strict_cfg [(1, ''bob''), (2, ''eve'')])]"]
    by simp
qed

text \<open>
  In every reachable state at most one request per address is between its admission and the end
  of its attempt, the table has at most 3000 records, and a request that is checking a password
  belongs to an address below the failure limit.
\<close>

theorem one_check_per_address:
  assumes "security_ok cfg" and "reachable login_init (login_step cfg) s"
  shows "(\<forall>i j ip. slot (lg_pc s i) = Some ip \<and> slot (lg_pc s j) = Some ip \<longrightarrow> i = j) \<and>
    length (lg_table s) \<le> maxLoginAttemptsRecords \<and>
    (\<forall>i ip a. lg_pc s i = LPassword ip \<and> map_of (lg_table s) ip = Some a \<longrightarrow>
       la_failures a < LoginMaxFailures cfg)"
proof -
  have ok: "login_ok cfg s" using web_login.reachable_inv [OF assms(2)] assms(1) by blast
  note l = login_okD [OF ok]
  have "la_failures a < LoginMaxFailures cfg" if "lg_pc s i = LPassword ip" "map_of (lg_table s) ip = Some a" for i ip a
    using l(4) [OF that(1)] table_ok_lookup [OF l(2) that(2)] that(2) by (simp add: unlocked_def attempt_ok_def)
  then show ?thesis using l(2) slot_alone [OF l(3)] by (auto simp: table_ok_def)
qed

theorem one_check_per_address_witness:
  "slot (lg_pc (login_run ! 4) 0) = Some ''10.0.0.9'' \<and>
   {j. slot (lg_pc (login_run ! 4) j) = Some ''10.0.0.9''} = {0}"
proof -
  have "security_ok strict_cfg" by (simp add: security_ok_def strict_cfg_def)
  moreover have "slot (lg_pc (login_run ! 4) 0) = Some ''10.0.0.9''" by (simp add: login_run_def Let_def lg_move_def)
  ultimately show ?thesis using one_check_per_address [OF _ login_run_reachable] by blast
qed

end
