(* ===== verification/Network_Trial.thy ===== *)
theory Network_Trial
  imports Prelude
begin

text \<open>
  Network changes on trial, \<open>service/network/trial.go\<close>: a change is applied at once and undone unless it is
  confirmed in time, also when the device loses power at any moment. What an operation does to the
  files is a program of single file commands, each of which may fail. The files have two copies: what
  the running system sees and what is on the card; only \<open>sync\<close> makes them equal, but a change may reach
  the card by itself at any time, in any order, and a power loss leaves what is on the card.
\<close>

section \<open>Records, files and commands\<close>

record trialRecord =
  Files :: "(string \<times> string option) list"
  Service :: string

datatype trial_file = NoRecord | Record trialRecord | Unusable

record disk =
  d_files :: "string \<Rightarrow> string option"
  d_trial :: trial_file

datatype cmd = WriteFile string string | RemoveFile string | WriteRecord trialRecord | RemoveRecord
  | Sync | Restart string

record trial =
  tr_id :: nat
  tr_token :: string
  tr_record :: trialRecord
  tr_timer :: bool
  tr_isApplied :: bool
  tr_reverting :: bool
  tr_retry :: bool

datatype outcome = Began trial | NotBegun | Kept | NotKept | Undone | NotUndone

text \<open>The next command, and how to go on when it succeeded or failed.\<close>

datatype program = Ret outcome | Do cmd "bool \<Rightarrow> program"

fun perform :: "cmd \<Rightarrow> disk \<Rightarrow> disk" where
  "perform (WriteFile p c) v = v\<lparr>d_files := (d_files v)(p := Some c)\<rparr>"
| "perform (RemoveFile p) v = v\<lparr>d_files := (d_files v)(p := None)\<rparr>"
| "perform (WriteRecord r) v = v\<lparr>d_trial := Record r\<rparr>"
| "perform RemoveRecord v = v\<lparr>d_trial := NoRecord\<rparr>"
| "perform Sync v = v"
| "perform (Restart s) v = v"

section \<open>The operations\<close>

definition wifiAPFiles :: "string list" where
  "wifiAPFiles = map (\<lambda>name. ''/etc/kvm/wifi.ap'' @ ''.'' @ name)
     [''enabled'', ''ssid'', ''pass'', ''band'', ''channel'', ''hidden'', ''subnet'', ''internet'', ''dns'']"

definition ethernetFiles :: "string list" where
  "ethernetFiles = [''/boot/eth.nodhcp'', ''/boot/eth.disabled'', ''/boot/eth.vlan'']"

definition trialPathAllowed :: "string \<Rightarrow> bool" where
  "trialPathAllowed p \<longleftrightarrow> p \<in> set ethernetFiles \<or> p \<in> set wifiAPFiles"

text \<open>The contents of the files, unless one of them cannot be read.\<close>

definition snapshotFiles :: "string set \<Rightarrow> string list \<Rightarrow> disk \<Rightarrow> (string \<times> string option) list option" where
  "snapshotFiles unreadable paths v =
     (if \<exists>p \<in> set paths. p \<in> unreadable \<and> d_files v p \<noteq> None then None
      else Some (map (\<lambda>p. (p, d_files v p)) paths))"

fun restoreFiles :: "(string \<times> string option) list \<Rightarrow> bool \<Rightarrow> (bool \<Rightarrow> program) \<Rightarrow> program" where
  "restoreFiles [] good k = k good"
| "restoreFiles ((p, None) # fs) good k = Do (RemoveFile p) (\<lambda>ok. restoreFiles fs (good \<and> ok) k)"
| "restoreFiles ((p, Some c) # fs) good k = Do (WriteFile p c) (\<lambda>ok. restoreFiles fs (good \<and> ok) k)"

definition trialRestarts :: "string \<Rightarrow> bool" where
  "trialRestarts service \<longleftrightarrow> service = ''ethernet'' \<or> service = ''wifi-ap''"

definition remove_synced :: "(bool \<Rightarrow> program) \<Rightarrow> program" where
  "remove_synced k = Do RemoveRecord (\<lambda>ok. if \<not> ok then k False else Do Sync k)"

definition restoreRecord :: "trialRecord \<Rightarrow> bool \<Rightarrow> (bool \<Rightarrow> program) \<Rightarrow> program" where
  "restoreRecord r restart k =
     restoreFiles (Files r) True (\<lambda>ok.
       if \<not> ok then k False
       else Do Sync (\<lambda>ok.
         if \<not> ok then k False
         else if restart \<and> trialRestarts (Service r)
         then Do (Restart (Service r)) (\<lambda>ok. if \<not> ok then k False else remove_synced k)
         else remove_synced k))"

definition finishRevert :: "trialRecord \<Rightarrow> bool \<Rightarrow> program" where
  "finishRevert r restart = restoreRecord r restart (\<lambda>ok. Ret (if ok then Undone else NotUndone))"

definition new_trial :: "nat \<Rightarrow> string \<Rightarrow> trialRecord \<Rightarrow> trial" where
  "new_trial i token r = \<lparr>tr_id = i, tr_token = token, tr_record = r, tr_timer = False,
     tr_isApplied = False, tr_reverting = False, tr_retry = False\<rparr>"

definition beginTrial :: "trial \<Rightarrow> program" where
  "beginTrial t =
     Do (WriteRecord (tr_record t)) (\<lambda>ok.
       if \<not> ok then Do RemoveRecord (\<lambda>_. Ret NotBegun)
       else Do Sync (\<lambda>ok. if ok then Ret (Began t) else Do RemoveRecord (\<lambda>_. Ret NotBegun)))"

definition may_confirm :: "string \<Rightarrow> trial option \<Rightarrow> bool" where
  "may_confirm token active =
     (case active of
        None \<Rightarrow> False
      | Some t \<Rightarrow> tr_timer t \<and> tr_isApplied t \<and> \<not> tr_reverting t \<and> token = tr_token t)"

definition confirmTrial :: "trialRecord \<Rightarrow> program" where
  "confirmTrial r =
     Do RemoveRecord (\<lambda>ok.
       if \<not> ok then Ret NotKept
       else Do Sync (\<lambda>ok. if ok then Ret Kept else Do (WriteRecord r) (\<lambda>_. Ret NotKept)))"

datatype trial_error = ErrTrialPending | ErrTrialUndoing

definition trialIdle :: "trial option \<Rightarrow> disk \<Rightarrow> trial_error option" where
  "trialIdle active v =
     (if active \<noteq> None then Some ErrTrialPending
      else if d_trial v \<noteq> NoRecord then Some ErrTrialUndoing else None)"

text \<open>What a server that starts does about the record it finds: nothing, undo the change, or set the record aside.\<close>

definition pending_trial :: "trialRecord \<Rightarrow> trial" where
  "pending_trial r = (new_trial 0 [] r)\<lparr>tr_reverting := True\<rparr>"

datatype boot = NothingPending | Undo trial program | MoveAside

definition RestorePendingTrial :: "disk \<Rightarrow> boot" where
  "RestorePendingTrial v =
     (case d_trial v of
        NoRecord \<Rightarrow> NothingPending
      | Record r \<Rightarrow>
          if list_all (\<lambda>(p, c). trialPathAllowed p) (Files r)
          then Undo (pending_trial r) (finishRevert r True) else MoveAside
      | Unusable \<Rightarrow> MoveAside)"

section \<open>The device\<close>

text \<open>
  \<open>n_workers\<close> is the counter of \<open>internal/networktrial\<close> and \<open>n_restarts\<close> the trials whose restart is
  still running. \<open>n_good\<close> is kept for the specification only: for each file, the contents the owner
  has agreed to. A file has one of them unless a confirmation was attempted or a change was made
  without a trial, and then again from the next completed sync.
\<close>

record net =
  n_vol :: disk
  n_dur :: disk
  n_active :: "trial option"
  n_job :: "program option"
  n_workers :: nat
  n_restarts :: "nat list"
  n_fresh :: nat
  n_booting :: bool
  n_good :: "string \<Rightarrow> string option set"

definition CheckIdle :: "net \<Rightarrow> bool" where
  "CheckIdle s \<longleftrightarrow> n_workers s = 0 \<and> d_trial (n_vol s) = NoRecord"

definition exactly :: "disk \<Rightarrow> string \<Rightarrow> string option set" where
  "exactly v p = {d_files v p}"

definition also_current :: "net \<Rightarrow> string \<Rightarrow> string option set" where
  "also_current s p = n_good s p \<union> {d_files (n_vol s) p, d_files (n_dur s) p}"

text \<open>How the trial state goes on when a program has ended.\<close>

fun settle :: "outcome \<Rightarrow> net \<Rightarrow> net" where
  "settle (Began t) s = s\<lparr>n_active := Some t\<rparr>"
| "settle NotBegun s = s\<lparr>n_workers := n_workers s - 1\<rparr>"
| "settle Kept s = s\<lparr>n_active := None, n_workers := n_workers s - 1, n_good := exactly (n_vol s)\<rparr>"
| "settle NotKept s = s"
| "settle Undone s = s\<lparr>n_active := None, n_workers := n_workers s - 1, n_good := exactly (n_vol s)\<rparr>"
| "settle NotUndone s = s\<lparr>n_active := map_option (\<lambda>t. t\<lparr>tr_retry := True\<rparr>) (n_active s)\<rparr>"

text \<open>\<open>start\<close> arms the timer and the restart that applies the change is under way.\<close>

definition start :: "trial \<Rightarrow> net \<Rightarrow> net" where
  "start t s = s\<lparr>n_active := Some (t\<lparr>tr_timer := True\<rparr>), n_workers := Suc (n_workers s),
     n_restarts := tr_id t # n_restarts s\<rparr>"

definition restarted :: "nat \<Rightarrow> net \<Rightarrow> net" where
  "restarted i s = s\<lparr>n_active := map_option (\<lambda>t. if tr_id t = i then t\<lparr>tr_isApplied := True\<rparr> else t) (n_active s)\<rparr>"

definition restart_over :: "nat \<Rightarrow> net \<Rightarrow> net" where
  "restart_over i s = s\<lparr>n_workers := n_workers s - 1, n_restarts := remove1 i (n_restarts s)\<rparr>"

text \<open>\<open>revertTrial\<close>: only the active trial, and only once.\<close>

definition revertTrial :: "trial \<Rightarrow> bool \<Rightarrow> net \<Rightarrow> net" where
  "revertTrial t restart s =
     (if n_active s \<noteq> Some t \<or> tr_reverting t then s
      else s\<lparr>n_active := Some (t\<lparr>tr_reverting := True, tr_timer := False\<rparr>),
        n_job := Some (finishRevert (tr_record t) restart)\<rparr>)"

datatype event = Owner | Device

inductive net_step :: "event \<Rightarrow> net \<Rightarrow> net \<Rightarrow> bool" where
  begin_trial: "n_job s = None \<Longrightarrow> \<not> n_booting s \<Longrightarrow> trialIdle (n_active s) (n_vol s) = None \<Longrightarrow>
     paths \<in> {ethernetFiles, wifiAPFiles} \<Longrightarrow> snapshotFiles bad paths (n_vol s) = Some fs \<Longrightarrow>
     net_step Device s (s\<lparr>n_job := Some (beginTrial (new_trial (n_fresh s) token \<lparr>Files = fs, Service = service\<rparr>)),
       n_workers := Suc (n_workers s), n_fresh := Suc (n_fresh s)\<rparr>)"
| change: "n_job s = None \<Longrightarrow> n_active s = Some t \<Longrightarrow> \<not> tr_timer t \<Longrightarrow> \<not> tr_reverting t \<Longrightarrow>
     p \<in> fst ` set (Files (tr_record t)) \<Longrightarrow>
     net_step Device s (s\<lparr>n_vol := (n_vol s)\<lparr>d_files := (d_files (n_vol s))(p := c)\<rparr>\<rparr>)"
| torn: "n_job s = None \<Longrightarrow> n_active s = Some t \<Longrightarrow> \<not> tr_timer t \<Longrightarrow> \<not> tr_reverting t \<Longrightarrow>
     p \<in> fst ` set (Files (tr_record t)) \<Longrightarrow>
     net_step Device s (s\<lparr>n_dur := (n_dur s)\<lparr>d_files := (d_files (n_dur s))(p := c)\<rparr>\<rparr>)"
| start_trial: "n_job s = None \<Longrightarrow> n_active s = Some t \<Longrightarrow> \<not> tr_timer t \<Longrightarrow> \<not> tr_reverting t \<Longrightarrow>
     net_step Device s (start t s)"
| restart_ok: "i \<in> set (n_restarts s) \<Longrightarrow> net_step Device s (restart_over i (restarted i s))"
| restart_failed: "i \<in> set (n_restarts s) \<Longrightarrow> n_job s = None \<Longrightarrow> n_active s = Some t \<Longrightarrow> tr_id t = i \<Longrightarrow>
     net_step Device s (restart_over i (revertTrial t True s))"
| restart_late: "i \<in> set (n_restarts s) \<Longrightarrow> net_step Device s (restart_over i s)"
| timeout: "n_job s = None \<Longrightarrow> n_active s = Some t \<Longrightarrow> tr_timer t \<Longrightarrow> net_step Device s (revertTrial t True s)"
| abandon: "n_job s = None \<Longrightarrow> n_active s = Some t \<Longrightarrow> \<not> tr_timer t \<Longrightarrow> net_step Device s (revertTrial t False s)"
| retry: "n_job s = None \<Longrightarrow> n_active s = Some t \<Longrightarrow> tr_reverting t \<Longrightarrow> tr_retry t \<Longrightarrow>
     net_step Device s (s\<lparr>n_active := Some (t\<lparr>tr_retry := False\<rparr>), n_job := Some (finishRevert (tr_record t) True)\<rparr>)"
| confirm: "n_job s = None \<Longrightarrow> n_active s = Some t \<Longrightarrow> may_confirm token (n_active s) \<Longrightarrow>
     net_step Owner s (s\<lparr>n_job := Some (confirmTrial (tr_record t)), n_good := also_current s\<rparr>)"
| direct: "n_job s = None \<Longrightarrow> \<not> n_booting s \<Longrightarrow> trialIdle (n_active s) (n_vol s) = None \<Longrightarrow>
     net_step Owner s (s\<lparr>n_vol := (n_vol s)\<lparr>d_files := (d_files (n_vol s))(p := c)\<rparr>,
       n_good := (n_good s)(p := insert c (n_good s p))\<rparr>)"
| direct_sync: "n_job s = None \<Longrightarrow> \<not> n_booting s \<Longrightarrow> trialIdle (n_active s) (n_vol s) = None \<Longrightarrow>
     net_step Owner s (s\<lparr>n_dur := n_vol s, n_good := exactly (n_vol s)\<rparr>)"
| runs: "n_job s = Some (Do c k) \<Longrightarrow>
     net_step Device s (s\<lparr>n_job := Some (k ok), n_vol := (if ok then perform c (n_vol s) else n_vol s),
       n_dur := (if ok \<and> c = Sync then n_vol s else n_dur s)\<rparr>)"
| finished: "n_job s = Some (Ret r) \<Longrightarrow> net_step Device s (settle r (s\<lparr>n_job := None\<rparr>))"
| reaches_card: "net_step Device s (s\<lparr>n_dur := (n_dur s)\<lparr>d_files := (d_files (n_dur s))(p := d_files (n_vol s) p)\<rparr>\<rparr>)"
| record_reaches_card: "net_step Device s (s\<lparr>n_dur := (n_dur s)\<lparr>d_trial := d_trial (n_vol s)\<rparr>\<rparr>)"
| power_loss: "net_step Device s (s\<lparr>n_vol := n_dur s, n_active := None, n_job := None, n_workers := 0,
       n_restarts := [], n_booting := True\<rparr>)"
| boot_idle: "n_booting s \<Longrightarrow> RestorePendingTrial (n_vol s) = NothingPending \<Longrightarrow>
     net_step Device s (s\<lparr>n_booting := False\<rparr>)"
| boot_undo: "n_booting s \<Longrightarrow> RestorePendingTrial (n_vol s) = Undo t prog \<Longrightarrow>
     net_step Device s (s\<lparr>n_booting := False, n_active := Some t, n_job := Some prog, n_workers := Suc (n_workers s)\<rparr>)"
| boot_aside: "n_booting s \<Longrightarrow> RestorePendingTrial (n_vol s) = MoveAside \<Longrightarrow>
     net_step Device s (s\<lparr>n_booting := False, n_vol := (if ok then (n_vol s)\<lparr>d_trial := NoRecord\<rparr> else n_vol s)\<rparr>)"

text \<open>The device when first set up: nothing on trial and everything on the card.\<close>

definition net_init :: "net \<Rightarrow> bool" where
  "net_init s \<longleftrightarrow> n_dur s = n_vol s \<and> d_trial (n_vol s) = NoRecord \<and> n_active s = None \<and> n_job s = None \<and>
     n_workers s = 0 \<and> n_restarts s = [] \<and> n_good s = exactly (n_vol s)"

section \<open>Specification\<close>

text \<open>What a restart makes of a file: the recorded contents if it is in the record.\<close>

definition undone :: "trial_file \<Rightarrow> string \<Rightarrow> string option \<Rightarrow> string option" where
  "undone T p x = (case T of Record r \<Rightarrow> (case map_of (Files r) p of Some y \<Rightarrow> y | None \<Rightarrow> x) | _ \<Rightarrow> x)"

definition recovered :: "disk \<Rightarrow> string \<Rightarrow> string option" where
  "recovered d p = undone (d_trial d) p (d_files d p)"

definition record_ok :: "trialRecord \<Rightarrow> bool" where
  "record_ok r \<longleftrightarrow> distinct (map fst (Files r)) \<and> list_all (\<lambda>(p, c). trialPathAllowed p) (Files r)"

text \<open>Whatever mixture of the two copies is on the card, a restart leads to agreed contents.\<close>

definition disks_ok :: "(string \<Rightarrow> string option set) \<Rightarrow> disk \<Rightarrow> disk \<Rightarrow> bool" where
  "disks_ok g v d \<longleftrightarrow> (\<forall>T \<in> {d_trial v, d_trial d}. (\<forall>r. T = Record r \<longrightarrow> record_ok r) \<and>
     (\<forall>p. \<forall>x \<in> {d_files v p, d_files d p}. undone T p x \<in> g p))"

definition mixes :: "disk \<Rightarrow> disk \<Rightarrow> disk \<Rightarrow> bool" where
  "mixes v d d' \<longleftrightarrow> d_trial d' \<in> {d_trial d, d_trial v} \<and> (\<forall>p. d_files d' p \<in> {d_files d p, d_files v p})"

text \<open>A program keeps the disks safe at every command, whatever fails and whatever reaches the card
  meanwhile, and its end meets \<open>Q\<close>.\<close>

primrec safe :: "(string \<Rightarrow> string option set) \<Rightarrow> (outcome \<Rightarrow> disk \<Rightarrow> disk \<Rightarrow> bool) \<Rightarrow> program \<Rightarrow> disk \<Rightarrow> disk \<Rightarrow> bool" where
  "safe g Q (Ret r) = (\<lambda>v d. \<forall>d'. mixes v d d' \<longrightarrow> disks_ok g v d' \<and> Q r v d')"
| "safe g Q (Do c k) = (\<lambda>v d. \<forall>d'. mixes v d d' \<longrightarrow> disks_ok g v d' \<and>
     safe g Q (k False) v d' \<and> safe g Q (k True) (perform c v) (if c = Sync then v else d'))"

definition agreed :: "(string \<Rightarrow> string option set) \<Rightarrow> trialRecord \<Rightarrow> bool" where
  "agreed g r \<longleftrightarrow> record_ok r \<and> (\<forall>(p, y) \<in> set (Files r). y \<in> g p)"

definition record_of :: "trial \<Rightarrow> disk \<Rightarrow> bool" where
  "record_of t v \<longleftrightarrow> d_trial v \<in> {NoRecord, Record (tr_record t)}"

fun ends :: "trial option \<Rightarrow> (string \<Rightarrow> string option set) \<Rightarrow> outcome \<Rightarrow> disk \<Rightarrow> disk \<Rightarrow> bool" where
  "ends a g (Began t) v d \<longleftrightarrow> a = None \<and> agreed g (tr_record t) \<and>
     d_trial v = Record (tr_record t) \<and> d_trial d = Record (tr_record t)"
| "ends a g NotBegun v d \<longleftrightarrow> a = None"
| "ends a g Kept v d \<longleftrightarrow> a \<noteq> None \<and> d = v \<and> d_trial v = NoRecord"
| "ends a g NotKept v d \<longleftrightarrow> (\<exists>t. a = Some t \<and> tr_timer t \<and> record_of t v)"
| "ends a g Undone v d \<longleftrightarrow> a \<noteq> None \<and> d = v \<and> d_trial v = NoRecord"
| "ends a g NotUndone v d \<longleftrightarrow> (\<exists>t. a = Some t \<and> tr_reverting t \<and> record_of t v)"

text \<open>Between its record and its start, a trial's record is on the card, before any of its changes.\<close>

definition trial_ok :: "net \<Rightarrow> trial \<Rightarrow> bool" where
  "trial_ok s t \<longleftrightarrow> agreed (n_good s) (tr_record t) \<and>
     (n_job s = None \<longrightarrow> record_of t (n_vol s) \<and>
        (\<not> tr_timer t \<and> \<not> tr_reverting t \<longrightarrow>
           d_trial (n_vol s) = Record (tr_record t) \<and> d_trial (n_dur s) = Record (tr_record t)))"

definition net_ok :: "net \<Rightarrow> bool" where
  "net_ok s \<longleftrightarrow> disks_ok (n_good s) (n_vol s) (n_dur s) \<and>
     (\<forall>t. n_active s = Some t \<longrightarrow> trial_ok s t) \<and>
     (\<forall>pr. n_job s = Some pr \<longrightarrow> safe (n_good s) (ends (n_active s) (n_good s)) pr (n_vol s) (n_dur s)) \<and>
     (n_booting s \<longrightarrow> n_active s = None \<and> n_job s = None) \<and>
     n_workers s = of_bool (n_active s \<noteq> None \<or> n_job s \<noteq> None) + length (n_restarts s)"

definition net_any :: "net \<Rightarrow> net \<Rightarrow> bool" where
  "net_any s t \<longleftrightarrow> (\<exists>e. net_step e s t)"

text \<open>A program that runs without a failure.\<close>

primrec run :: "program \<Rightarrow> disk \<Rightarrow> disk \<Rightarrow> outcome \<times> disk \<times> disk" where
  "run (Ret r) = (\<lambda>v d. (r, v, d))"
| "run (Do c k) = (\<lambda>v d. run (k True) (perform c v) (if c = Sync then v else d))"

definition advance :: "net \<Rightarrow> net" where
  "advance s =
     (case n_job s of
        None \<Rightarrow> s
      | Some (Ret r) \<Rightarrow> settle r (s\<lparr>n_job := None\<rparr>)
      | Some (Do c k) \<Rightarrow> s\<lparr>n_job := Some (k True), n_vol := perform c (n_vol s),
          n_dur := (if c = Sync then n_vol s else n_dur s)\<rparr>)"

text \<open>A device with a static address, and a trial of another one that ends in a power loss.\<close>

definition eth_disk :: disk where
  "eth_disk = \<lparr>d_files = [''/boot/eth.nodhcp'' \<mapsto> ''old''], d_trial = NoRecord\<rparr>"

definition eth_device :: net where
  "eth_device = \<lparr>n_vol = eth_disk, n_dur = eth_disk, n_active = None, n_job = None, n_workers = 0, n_restarts = [],
     n_fresh = 0, n_booting = False, n_good = exactly eth_disk\<rparr>"

definition eth_trial :: trial where
  "eth_trial = new_trial 0 ''t'' \<lparr>Files = [(''/boot/eth.nodhcp'', Some ''old''), (''/boot/eth.disabled'', None),
     (''/boot/eth.vlan'', None)], Service = ''ethernet''\<rparr>"

definition eth_begun :: net where
  "eth_begun = eth_device\<lparr>n_job := Some (beginTrial eth_trial), n_workers := 1, n_fresh := 1\<rparr>"

definition eth_changed :: net where
  "eth_changed = (let s = advance (advance (advance eth_begun))
     in s\<lparr>n_vol := (n_vol s)\<lparr>d_files := (d_files (n_vol s))(''/boot/eth.nodhcp'' := Some ''new'')\<rparr>\<rparr>)"


section \<open>Disks\<close>

lemma mixes_refl [simp]: "mixes v d d"
  by (simp add: mixes_def)

lemma mixes_trans: "mixes v d d' \<Longrightarrow> mixes v d' d'' \<Longrightarrow> mixes v d d''"
  unfolding mixes_def by (metis insert_iff singletonD)

lemma mixes_self [simp]: "mixes v v d \<longleftrightarrow> d = v"
  by (cases v; cases d) (auto simp: mixes_def)

lemma disks_ok_mixes: "disks_ok g v d \<Longrightarrow> mixes v d d' \<Longrightarrow> disks_ok g v d'"
  unfolding disks_ok_def mixes_def by (metis insert_iff singletonD)

lemma safe_mixes: "safe g Q pr v d \<Longrightarrow> mixes v d d' \<Longrightarrow> safe g Q pr v d'"
  by (cases pr) (auto dest: mixes_trans)

lemma safe_disks: "safe g Q pr v d \<Longrightarrow> disks_ok g v d"
  by (cases pr) auto

lemma undone_simps [simp]:
  "undone NoRecord p x = x" "undone Unusable p x = x"
  "undone (Record r) p x = (case map_of (Files r) p of Some y \<Rightarrow> y | None \<Rightarrow> x)"
  by (simp_all add: undone_def)

lemma disks_ok_sync: "disks_ok g v d \<Longrightarrow> disks_ok g v v"
  by (simp add: disks_ok_def)

lemma disks_ok_dur: "disks_ok g v d \<Longrightarrow> disks_ok g d d"
  by (simp add: disks_ok_def)

lemma disks_ok_mono: "disks_ok g v d \<Longrightarrow> (\<And>p. g p \<subseteq> g' p) \<Longrightarrow> disks_ok g' v d"
  unfolding disks_ok_def by blast

text \<open>A file may take agreed contents; a record of agreed contents may be written over none; and
  the record may go when both copies of every file are agreed.\<close>

lemma put_ok:
  assumes "disks_ok g v d" and "c \<in> g p"
  shows "disks_ok g (v\<lparr>d_files := (d_files v)(p := c)\<rparr>) d"
proof -
  have "undone T q x \<in> g q" if "T \<in> {d_trial v, d_trial d}" "x \<in> {((d_files v)(p := c)) q, d_files d q}" for T q x
  proof (cases "x = c \<and> q = p")
    case True
    have "undone T p (d_files v p) \<in> g p" using assms(1) that(1) by (auto simp: disks_ok_def)
    then show ?thesis using True assms(2) by (auto simp: undone_def split: trial_file.splits option.splits)
  next
    case False
    then show ?thesis using assms(1) that by (auto simp: disks_ok_def split: if_splits)
  qed
  then show ?thesis using assms(1) by (simp add: disks_ok_def)
qed

lemma no_record_agreed: "disks_ok g v d \<Longrightarrow> d_trial v = NoRecord \<Longrightarrow> d_files v p \<in> g p \<and> d_files d p \<in> g p"
  by (simp add: disks_ok_def)

lemma agreed_lookup: "agreed g r \<Longrightarrow> map_of (Files r) p = Some y \<Longrightarrow> y \<in> g p"
  by (auto simp: agreed_def dest: map_of_SomeD)

lemma record_put_ok:
  assumes "disks_ok g v d" and "agreed g r" and "\<And>p. d_files v p \<in> g p \<and> d_files d p \<in> g p"
  shows "disks_ok g (v\<lparr>d_trial := Record r\<rparr>) d"
  using assms agreed_lookup [OF assms(2)] by (auto simp: disks_ok_def agreed_def split: option.splits)

lemma record_gone_ok:
  assumes "disks_ok g v d" and "\<And>p. d_files v p \<in> g p \<and> d_files d p \<in> g p"
  shows "disks_ok g (v\<lparr>d_trial := NoRecord\<rparr>) d"
  using assms by (auto simp: disks_ok_def)

text \<open>A program is safe when the disks are, and both ways on from its command are.\<close>

lemma safe_Ret: "disks_ok g v d \<Longrightarrow> (\<And>d'. mixes v d d' \<Longrightarrow> Q r v d') \<Longrightarrow> safe g Q (Ret r) v d"
  by (auto intro: disks_ok_mixes)

lemma safe_Do:
  assumes "disks_ok g v d"
    and "\<And>d'. disks_ok g v d' \<Longrightarrow> mixes v d d' \<Longrightarrow> safe g Q (k False) v d'"
    and "\<And>d'. disks_ok g v d' \<Longrightarrow> mixes v d d' \<Longrightarrow> safe g Q (k True) (perform c v) (if c = Sync then v else d')"
  shows "safe g Q (Do c k) v d"
  using assms(2,3) disks_ok_mixes [OF assms(1)] by simp

section \<open>The programs are safe\<close>

lemma safe_restoreFiles:
  assumes "\<forall>(p, y) \<in> set fs. y \<in> g p" and "disks_ok g v d" and "distinct (map fst fs)"
    and "\<And>ok v' d'. disks_ok g v' d' \<Longrightarrow> d_trial v' = d_trial v \<Longrightarrow>
       (\<And>q. q \<notin> fst ` set fs \<Longrightarrow> d_files v' q = d_files v q) \<Longrightarrow>
       (ok \<Longrightarrow> good \<and> (\<forall>(p, y) \<in> set fs. d_files v' p = y)) \<Longrightarrow> safe g Q (k ok) v' d'"
  shows "safe g Q (restoreFiles fs good k) v d"
  using assms
proof (induction fs arbitrary: v d good)
  case Nil
  then show ?case by simp
next
  case (Cons f fs)
  obtain p y where f: "f = (p, y)" by fastforce
  define c where "c = (case y of None \<Rightarrow> RemoveFile p | Some x \<Rightarrow> WriteFile p x)"
  have prog: "restoreFiles (f # fs) good k = Do c (\<lambda>ok. restoreFiles fs (good \<and> ok) k)"
    and c: "c \<noteq> Sync" "perform c v = v\<lparr>d_files := (d_files v)(p := y)\<rparr>"
    by (auto simp: f c_def split: option.splits)
  have p: "p \<notin> fst ` set fs" "y \<in> g p" using Cons.prems(1,3) by (auto simp: f)
  show ?case unfolding prog
  proof (rule safe_Do)
    fix d' assume d': "disks_ok g v d'"
    show "safe g Q (restoreFiles fs (good \<and> False) k) v d'"
    proof (rule Cons.IH)
      show "safe g Q (k ok) v' d''" if "disks_ok g v' d''" "d_trial v' = d_trial v"
        "\<And>q. q \<notin> fst ` set fs \<Longrightarrow> d_files v' q = d_files v q"
        "ok \<Longrightarrow> (good \<and> False) \<and> (\<forall>(p, y) \<in> set fs. d_files v' p = y)" for ok v' d''
        using that by (intro Cons.prems(4)) auto
    qed (use Cons.prems(1,3) d' in auto)
    show "safe g Q (restoreFiles fs (good \<and> True) k) (perform c v) (if c = Sync then v else d')"
    proof (rule Cons.IH)
      show "disks_ok g (perform c v) (if c = Sync then v else d')"
        using put_ok [OF d' p(2)] c by simp
      show "safe g Q (k ok) v' d''" if "disks_ok g v' d''" "d_trial v' = d_trial (perform c v)"
        "\<And>q. q \<notin> fst ` set fs \<Longrightarrow> d_files v' q = d_files (perform c v) q"
        "ok \<Longrightarrow> (good \<and> True) \<and> (\<forall>(p, y) \<in> set fs. d_files v' p = y)" for ok v' d''
        using that(1,2,4) that(3) [of p] that(3) p(1) c(2) by (intro Cons.prems(4)) (auto simp: f)
    qed (use Cons.prems(1,3) in auto)
  qed (use Cons.prems(2) in auto)
qed

lemma mixes_trial: "mixes v d d' \<Longrightarrow> d_trial v = T \<Longrightarrow> d_trial d = T \<Longrightarrow> d_trial d' = T"
  by (auto simp: mixes_def)

lemma mixes_files: "mixes v d d' \<Longrightarrow> (\<And>p. d_files v p \<in> g p \<and> d_files d p \<in> g p) \<Longrightarrow> d_files d' p \<in> g p"
  unfolding mixes_def by (metis insert_iff singletonD)

lemma safe_remove_synced:
  assumes "disks_ok g v d" and "\<And>p. d_files v p \<in> g p \<and> d_files d p \<in> g p"
    and "\<And>v' d'. disks_ok g v' d' \<Longrightarrow> d_trial v' \<in> {NoRecord, d_trial v} \<Longrightarrow> safe g Q (k False) v' d'"
    and "safe g Q (k True) (v\<lparr>d_trial := NoRecord\<rparr>) (v\<lparr>d_trial := NoRecord\<rparr>)"
  shows "safe g Q (remove_synced k) v d"
  unfolding remove_synced_def
proof (rule safe_Do)
  fix d' assume d: "disks_ok g v d'" "mixes v d d'"
  show "safe g Q (if \<not> False then k False else Do Sync k) v d'" using assms(3) d(1) by simp
  let ?v = "v\<lparr>d_trial := NoRecord\<rparr>"
  have ok: "disks_ok g ?v d'" using d assms(2) mixes_files [OF d(2) assms(2)] by (intro record_gone_ok) auto
  have "safe g Q (Do Sync k) ?v d'" using assms(3,4) by (intro safe_Do [OF ok]) auto
  then show "safe g Q (if \<not> True then k False else Do Sync k) (perform RemoveRecord v) (if RemoveRecord = Sync then v else d')"
    by simp
qed (rule assms(1))

lemma safe_finishRevert:
  assumes "disks_ok g v d" and "agreed g (tr_record t)" and "record_of t v" and "tr_reverting t"
  shows "safe g (ends (Some t) g) (finishRevert (tr_record t) restart) v d"
  unfolding finishRevert_def restoreRecord_def
proof (rule safe_restoreFiles)
  let ?r = "tr_record t" and ?k = "\<lambda>ok. Ret (if ok then Undone else NotUndone)"
  show "\<forall>(p, y) \<in> set (Files ?r). y \<in> g p" and "distinct (map fst (Files ?r))"
    using assms(2) by (auto simp: agreed_def record_ok_def)
  have failed: "safe g (ends (Some t) g) (?k False) v' d'" if "disks_ok g v' d'" "record_of t v'" for v' d'
    using that assms(4) by (intro safe_Ret) auto
  fix ok v' d'
  assume d': "disks_ok g v' d'" and T: "d_trial v' = d_trial v"
    and done': "ok \<Longrightarrow> True \<and> (\<forall>(p, y) \<in> set (Files ?r). d_files v' p = y)"
  have rv: "record_of t v'" using assms(3) T by (simp add: record_of_def)
  have remove: "safe g (ends (Some t) g) (remove_synced ?k) v' d''"
    if "ok" "disks_ok g v' d''" "mixes v' v' d''" for d''
  proof -
    have files: "d_files v' p \<in> g p" for p
    proof (cases "map_of (Files ?r) p")
      case None
      then have "undone (d_trial v') p (d_files v' p) = d_files v' p" using rv by (auto simp: record_of_def)
      then show ?thesis using d' by (metis disks_ok_def insertI1)
    next
      case (Some y)
      then show ?thesis using done' [OF that(1)] agreed_lookup [OF assms(2) Some] by (auto dest: map_of_SomeD)
    qed
    have d'': "d'' = v'" using that(3) by simp
    show ?thesis
    proof (rule safe_remove_synced [OF that(2)])
      show "d_files v' p \<in> g p \<and> d_files d'' p \<in> g p" for p using files d'' by simp
      show "safe g (ends (Some t) g) (?k False) u e" if "disks_ok g u e" "d_trial u \<in> {NoRecord, d_trial v'}" for u e
        using that rv by (intro failed) (auto simp: record_of_def)
      have "disks_ok g (v'\<lparr>d_trial := NoRecord\<rparr>) (v'\<lparr>d_trial := NoRecord\<rparr>)"
        using files by (auto simp: disks_ok_def)
      then show "safe g (ends (Some t) g) (?k True) (v'\<lparr>d_trial := NoRecord\<rparr>) (v'\<lparr>d_trial := NoRecord\<rparr>)"
        by (intro safe_Ret) auto
    qed
  qed
  have synced: "disks_ok g v' v'" using d' by (rule disks_ok_sync)
  have restarting: "safe g (ends (Some t) g)
      (Do (Restart (Service ?r)) (\<lambda>ok. if \<not> ok then ?k False else remove_synced ?k)) v' v'" if ok
    using remove [OF that] failed rv by (intro safe_Do [OF synced]) auto
  have final: "safe g (ends (Some t) g)
      (Do Sync (\<lambda>ok. if \<not> ok then ?k False
         else if restart \<and> trialRestarts (Service ?r)
         then Do (Restart (Service ?r)) (\<lambda>ok. if \<not> ok then ?k False else remove_synced ?k)
         else remove_synced ?k)) v' d'" if ok
    using restarting [OF that] remove [OF that synced] failed rv by (intro safe_Do [OF d']) auto
  show "safe g (ends (Some t) g) (if \<not> ok then ?k False
      else Do Sync (\<lambda>ok. if \<not> ok then ?k False
         else if restart \<and> trialRestarts (Service ?r)
         then Do (Restart (Service ?r)) (\<lambda>ok. if \<not> ok then ?k False else remove_synced ?k)
         else remove_synced ?k)) v' d'"
    using final failed [OF d' rv] by simp
qed (rule assms(1))

lemma safe_beginTrial:
  assumes "disks_ok g v d" and "agreed g (tr_record t)" and "d_trial v = NoRecord"
  shows "safe g (ends None g) (beginTrial t) v d"
proof -
  have removing: "safe g (ends None g) (Do RemoveRecord (\<lambda>_. Ret NotBegun)) v' d'"
    if "disks_ok g v' d'" "\<And>p. d_files v' p \<in> g p \<and> d_files d' p \<in> g p" for v' d'
  proof (rule safe_Do [OF that(1)])
    fix e assume e: "disks_ok g v' e" "mixes v' d' e"
    show "safe g (ends None g) (Ret NotBegun) v' e" using e(1) by (intro safe_Ret) auto
    have "disks_ok g (v'\<lparr>d_trial := NoRecord\<rparr>) e"
      using e(1) that(2) mixes_files [OF e(2) that(2)] by (intro record_gone_ok) auto
    then show "safe g (ends None g) (Ret NotBegun) (perform RemoveRecord v') (if RemoveRecord = Sync then v' else e)"
      by (intro safe_Ret) auto
  qed
  note files = no_record_agreed [OF assms(1,3)]
  show ?thesis unfolding beginTrial_def
  proof (rule safe_Do [OF assms(1)])
    fix d' assume d': "disks_ok g v d'" "mixes v d d'"
    have files': "d_files v p \<in> g p \<and> d_files d' p \<in> g p" for p
      using files mixes_files [OF d'(2) files] by simp
    show "safe g (ends None g) (if \<not> False then Do RemoveRecord (\<lambda>_. Ret NotBegun)
       else Do Sync (\<lambda>ok. if ok then Ret (Began t) else Do RemoveRecord (\<lambda>_. Ret NotBegun))) v d'"
      using removing [OF d'(1) files'] by simp
    let ?v = "v\<lparr>d_trial := Record (tr_record t)\<rparr>"
    have ok: "disks_ok g ?v d'" by (rule record_put_ok [OF d'(1) assms(2) files'])
    have "safe g (ends None g) (Do Sync (\<lambda>ok. if ok then Ret (Began t) else Do RemoveRecord (\<lambda>_. Ret NotBegun))) ?v d'"
    proof (rule safe_Do [OF ok])
      fix e assume e: "disks_ok g ?v e" "mixes ?v d' e"
      have "d_files ?v p \<in> g p \<and> d_files e p \<in> g p" for p using mixes_files [OF e(2), of g p] files' by simp
      then show "safe g (ends None g) (if False then Ret (Began t) else Do RemoveRecord (\<lambda>_. Ret NotBegun)) ?v e"
        using removing [OF e(1)] by simp
      show "safe g (ends None g) (if True then Ret (Began t) else Do RemoveRecord (\<lambda>_. Ret NotBegun))
          (perform Sync ?v) (if Sync = Sync then ?v else e)"
        using disks_ok_sync [OF e(1)] assms(2) by simp
    qed
    then show "safe g (ends None g) (if \<not> True then Do RemoveRecord (\<lambda>_. Ret NotBegun)
       else Do Sync (\<lambda>ok. if ok then Ret (Began t) else Do RemoveRecord (\<lambda>_. Ret NotBegun)))
       (perform (WriteRecord (tr_record t)) v) (if WriteRecord (tr_record t) = Sync then v else d')"
      by simp
  qed
qed

lemma safe_confirmTrial:
  assumes "disks_ok g v d" and "agreed g (tr_record t)" and "record_of t v" and "tr_timer t"
    and "\<And>p. d_files v p \<in> g p \<and> d_files d p \<in> g p"
  shows "safe g (ends (Some t) g) (confirmTrial (tr_record t)) v d"
proof -
  have failed: "safe g (ends (Some t) g) (Ret NotKept) v' d'" if "disks_ok g v' d'" "record_of t v'" for v' d'
    using that assms(4) by (intro safe_Ret) auto
  show ?thesis unfolding confirmTrial_def
  proof (rule safe_Do [OF assms(1)])
    fix d' assume d': "disks_ok g v d'" "mixes v d d'"
    have files: "d_files v p \<in> g p \<and> d_files d' p \<in> g p" for p
      using assms(5) mixes_files [OF d'(2) assms(5)] by simp
    show "safe g (ends (Some t) g) (if \<not> False then Ret NotKept
        else Do Sync (\<lambda>ok. if ok then Ret Kept else Do (WriteRecord (tr_record t)) (\<lambda>_. Ret NotKept))) v d'"
      using failed [OF d'(1) assms(3)] by simp
    let ?v = "v\<lparr>d_trial := NoRecord\<rparr>"
    have ok: "disks_ok g ?v d'" by (rule record_gone_ok [OF d'(1) files])
    have "safe g (ends (Some t) g) (Do Sync (\<lambda>ok. if ok then Ret Kept else Do (WriteRecord (tr_record t)) (\<lambda>_. Ret NotKept))) ?v d'"
    proof (rule safe_Do [OF ok])
      fix e assume e: "disks_ok g ?v e" "mixes ?v d' e"
      have files': "d_files ?v p \<in> g p \<and> d_files f p \<in> g p" if "mixes ?v e f" for p f
        using mixes_files [OF mixes_trans [OF e(2) that], of g p] files by simp
      have "safe g (ends (Some t) g) (Do (WriteRecord (tr_record t)) (\<lambda>_. Ret NotKept)) ?v e"
      proof (rule safe_Do [OF e(1)])
        fix f assume f: "disks_ok g ?v f" "mixes ?v e f"
        show "safe g (ends (Some t) g) (Ret NotKept) ?v f" by (rule failed [OF f(1)]) (simp add: record_of_def)
        have "disks_ok g (?v\<lparr>d_trial := Record (tr_record t)\<rparr>) f"
          by (rule record_put_ok [OF f(1) assms(2) files' [OF f(2)]])
        then show "safe g (ends (Some t) g) (Ret NotKept) (perform (WriteRecord (tr_record t)) ?v)
            (if WriteRecord (tr_record t) = Sync then ?v else f)"
          by (intro failed) (simp_all add: record_of_def)
      qed
      then show "safe g (ends (Some t) g) (if False then Ret Kept else Do (WriteRecord (tr_record t)) (\<lambda>_. Ret NotKept)) ?v e"
        by simp
      show "safe g (ends (Some t) g) (if True then Ret Kept else Do (WriteRecord (tr_record t)) (\<lambda>_. Ret NotKept))
          (perform Sync ?v) (if Sync = Sync then ?v else e)"
        using disks_ok_sync [OF e(1)] by simp
    qed
    then show "safe g (ends (Some t) g) (if \<not> True then Ret NotKept
        else Do Sync (\<lambda>ok. if ok then Ret Kept else Do (WriteRecord (tr_record t)) (\<lambda>_. Ret NotKept)))
        (perform RemoveRecord v) (if RemoveRecord = Sync then v else d')"
      by simp
  qed
qed

section \<open>The invariant is kept\<close>

lemma net_okD:
  assumes "net_ok s"
  shows "disks_ok (n_good s) (n_vol s) (n_dur s)"
    and "n_active s = Some t \<Longrightarrow> trial_ok s t"
    and "n_job s = Some pr \<Longrightarrow> safe (n_good s) (ends (n_active s) (n_good s)) pr (n_vol s) (n_dur s)"
    and "n_booting s \<Longrightarrow> n_active s = None \<and> n_job s = None"
    and "n_workers s = of_bool (n_active s \<noteq> None \<or> n_job s \<noteq> None) + length (n_restarts s)"
  using assms by (auto simp: net_ok_def)

lemma applied_same:
  "ends (map_option (\<lambda>t. if tr_id t = i then t\<lparr>tr_isApplied := True\<rparr> else t) a) g r v d = ends a g r v d"
  by (cases r; cases a) (auto simp: record_of_def)

lemma applied_ends:
  "ends (map_option (\<lambda>t. if tr_id t = i then t\<lparr>tr_isApplied := True\<rparr> else t) a) g = ends a g"
  by (intro ext) (rule applied_same)

lemma trial_ok_idle:
  assumes "trial_ok s t" and "n_job s = None" and "\<not> tr_timer t" and "\<not> tr_reverting t"
  shows "d_trial (n_vol s) = Record (tr_record t)" and "d_trial (n_dur s) = Record (tr_record t)"
  using assms by (auto simp: trial_ok_def)

text \<open>While both copies have the record, a file in it may have any contents.\<close>

lemma covered_ok:
  assumes "disks_ok g v d" and "d_trial v = Record r" and "d_trial d = Record r" and "p \<in> fst ` set (Files r)"
  shows "disks_ok g (v\<lparr>d_files := (d_files v)(p := c)\<rparr>) d" and "disks_ok g v (d\<lparr>d_files := (d_files d)(p := c)\<rparr>)"
proof -
  obtain y where y: "map_of (Files r) p = Some y" using assms(4) by (metis map_of_eq_None_iff option.exhaust)
  have yg: "y \<in> g p" using assms(1) y by (auto simp: disks_ok_def assms(2) dest: spec [of _ p])
  show "disks_ok g (v\<lparr>d_files := (d_files v)(p := c)\<rparr>) d" "disks_ok g v (d\<lparr>d_files := (d_files d)(p := c)\<rparr>)"
    using assms(1-3) y yg unfolding disks_ok_def by auto
qed

lemma snapshot_agreed:
  assumes "disks_ok g v d" and "d_trial v = NoRecord" and "snapshotFiles bad paths v = Some fs"
    and "paths \<in> {ethernetFiles, wifiAPFiles}"
  shows "agreed g \<lparr>Files = fs, Service = service\<rparr>"
proof -
  have fs: "fs = map (\<lambda>p. (p, d_files v p)) paths" using assms(3) by (simp add: snapshotFiles_def split: if_splits)
  have "distinct ethernetFiles" "distinct wifiAPFiles" by (simp_all add: ethernetFiles_def wifiAPFiles_def)
  then have "distinct (map fst fs)" using assms(4) by (auto simp: fs comp_def)
  moreover have "list_all (\<lambda>(p, c). trialPathAllowed p) fs"
    using assms(4) by (auto simp: fs list_all_iff trialPathAllowed_def)
  ultimately show ?thesis
    using no_record_agreed [OF assms(1,2)] by (auto simp: agreed_def record_ok_def fs)
qed

lemma revert_ok:
  assumes "net_ok s" and "n_job s = None" and "n_active s = Some t"
  shows "net_ok (revertTrial t restart s)"
proof (cases "tr_reverting t")
  case True
  then show ?thesis using assms(1,3) by (simp add: revertTrial_def)
next
  case False
  let ?t = "t\<lparr>tr_reverting := True, tr_timer := False\<rparr>"
  note ok = net_okD [OF assms(1)]
  have t: "agreed (n_good s) (tr_record ?t)" "record_of ?t (n_vol s)"
    using ok(2) [OF assms(3)] assms(2) by (auto simp: trial_ok_def record_of_def)
  have "safe (n_good s) (ends (Some ?t) (n_good s)) (finishRevert (tr_record ?t) restart) (n_vol s) (n_dur s)"
    by (rule safe_finishRevert [OF ok(1) t]) simp
  moreover have "revertTrial t restart s =
      s\<lparr>n_active := Some ?t, n_job := Some (finishRevert (tr_record t) restart)\<rparr>"
    using False assms(3) by (simp add: revertTrial_def)
  ultimately show ?thesis using ok assms t(1) by (auto simp: net_ok_def trial_ok_def)
qed

lemma restart_over_ok: "net_ok s \<Longrightarrow> i \<in> set (n_restarts s) \<Longrightarrow> net_ok (restart_over i s)"
  by (auto simp: net_ok_def restart_over_def trial_ok_def length_remove1 dest: length_pos_if_in_set)

lemma restarted_ok: "net_ok s \<Longrightarrow> net_ok (restarted i s)"
  by (auto simp: net_ok_def restarted_def applied_ends trial_ok_def record_of_def split: if_splits)

lemma settle_ok:
  assumes "net_ok s" and "n_job s = Some (Ret r)"
  shows "net_ok (settle r (s\<lparr>n_job := None\<rparr>))"
    and "n_good (settle r (s\<lparr>n_job := None\<rparr>)) p \<subseteq> n_good s p"
proof -
  note ok = net_okD [OF assms(1)]
  have e: "ends (n_active s) (n_good s) r (n_vol s) (n_dur s)" using ok(3) [OF assms(2)] by simp
  have same: "disks_ok (exactly v) v v" if "d_trial v = NoRecord" for v
    using that by (simp add: disks_ok_def exactly_def)
  have v: "d_files (n_vol s) p \<in> n_good s p" if "d_trial (n_vol s) = NoRecord"
    using no_record_agreed [OF ok(1) that] by simp
  show "net_ok (settle r (s\<lparr>n_job := None\<rparr>))"
    using ok(1,2,4,5) e assms(2) same by (cases r) (auto simp: net_ok_def trial_ok_def record_of_def agreed_def)
  show "n_good (settle r (s\<lparr>n_job := None\<rparr>)) p \<subseteq> n_good s p"
    using e v by (cases r) (auto simp: exactly_def)
qed

lemma restarts_same [simp]:
  "n_restarts (revertTrial t restart s) = n_restarts s" "n_restarts (restarted i s) = n_restarts s"
  by (simp_all add: revertTrial_def restarted_def)

lemma also_current_ok:
  assumes "net_ok s"
  shows "disks_ok (also_current s) (n_vol s) (n_dur s)" and "n_good s p \<subseteq> also_current s p"
  using net_okD(1) [OF assms] by (auto simp: also_current_def intro: disks_ok_mono)

lemma confirm_ok:
  assumes "net_ok s" and "n_job s = None" and "n_active s = Some t" and "may_confirm token (n_active s)"
  shows "net_ok (s\<lparr>n_job := Some (confirmTrial (tr_record t)), n_good := also_current s\<rparr>)"
proof -
  note ok = net_okD [OF assms(1)]
  have t: "agreed (also_current s) (tr_record t)" "record_of t (n_vol s)"
    using ok(2) [OF assms(3)] assms(2) by (auto simp: trial_ok_def agreed_def also_current_def)
  have "tr_timer t" using assms(3,4) by (simp add: may_confirm_def)
  with t have "safe (also_current s) (ends (Some t) (also_current s)) (confirmTrial (tr_record t)) (n_vol s) (n_dur s)"
    by (intro safe_confirmTrial also_current_ok(1) [OF assms(1)]) (auto simp: also_current_def)
  then show ?thesis
    using ok t(1) assms(2,3) also_current_ok(1) [OF assms(1)] by (auto simp: net_ok_def trial_ok_def)
qed

lemma begin_ok:
  assumes "net_ok s" and "n_job s = None" and "\<not> n_booting s" and "trialIdle (n_active s) (n_vol s) = None"
    and "agreed (n_good s) (tr_record t)"
  shows "net_ok (s\<lparr>n_job := Some (beginTrial t), n_workers := Suc (n_workers s), n_fresh := f\<rparr>)"
proof -
  note ok = net_okD [OF assms(1)]
  have idle: "n_active s = None" "d_trial (n_vol s) = NoRecord"
    using assms(4) by (auto simp: trialIdle_def split: if_splits)
  then show ?thesis
    using ok assms(2,3) safe_beginTrial [OF ok(1) assms(5) idle(2)] by (auto simp: net_ok_def)
qed

lemma card_step_ok:
  assumes "net_ok s" and "mixes (n_vol s) (n_dur s) d"
  shows "net_ok (s\<lparr>n_dur := d\<rparr>)"
proof -
  note ok = net_okD [OF assms(1)]
  have "trial_ok (s\<lparr>n_dur := d\<rparr>) t" if "n_active s = Some t" for t
    using ok(2) [OF that] mixes_trial [OF assms(2)] by (auto simp: trial_ok_def)
  then show ?thesis
    using ok disks_ok_mixes [OF ok(1) assms(2)] safe_mixes [OF _ assms(2)] by (auto simp: net_ok_def)
qed

lemma change_ok:
  assumes "net_ok s" and "n_job s = None" and "n_active s = Some t" and "\<not> tr_timer t" and "\<not> tr_reverting t"
    and "p \<in> fst ` set (Files (tr_record t))"
  shows "net_ok (s\<lparr>n_vol := (n_vol s)\<lparr>d_files := (d_files (n_vol s))(p := c)\<rparr>\<rparr>)"
    and "net_ok (s\<lparr>n_dur := (n_dur s)\<lparr>d_files := (d_files (n_dur s))(p := c)\<rparr>\<rparr>)"
proof -
  note ok = net_okD [OF assms(1)]
  note both = trial_ok_idle [OF ok(2) [OF assms(3)] assms(2,4,5)]
  note cover = covered_ok [OF ok(1) both assms(6), of c]
  show "net_ok (s\<lparr>n_vol := (n_vol s)\<lparr>d_files := (d_files (n_vol s))(p := c)\<rparr>\<rparr>)"
    "net_ok (s\<lparr>n_dur := (n_dur s)\<lparr>d_files := (d_files (n_dur s))(p := c)\<rparr>\<rparr>)"
    using ok cover assms(2,3) by (auto simp: net_ok_def trial_ok_def record_of_def)
qed

lemma start_ok:
  assumes "net_ok s" and "n_job s = None" and "n_active s = Some t"
  shows "net_ok (start t s)"
  using net_okD [OF assms(1)] assms(2,3) by (auto simp: net_ok_def start_def trial_ok_def record_of_def)

lemma retry_ok:
  assumes "net_ok s" and "n_job s = None" and "n_active s = Some t" and "tr_reverting t"
  shows "net_ok (s\<lparr>n_active := Some (t\<lparr>tr_retry := False\<rparr>), n_job := Some (finishRevert (tr_record t) True)\<rparr>)"
proof -
  note ok = net_okD [OF assms(1)]
  let ?t = "t\<lparr>tr_retry := False\<rparr>"
  have t: "agreed (n_good s) (tr_record ?t)" "record_of ?t (n_vol s)"
    using ok(2) [OF assms(3)] assms(2) by (auto simp: trial_ok_def record_of_def)
  have "safe (n_good s) (ends (Some ?t) (n_good s)) (finishRevert (tr_record ?t) True) (n_vol s) (n_dur s)"
    by (rule safe_finishRevert [OF ok(1) t]) (simp add: assms(4))
  then show ?thesis using ok assms(2,3) t(1) by (auto simp: net_ok_def trial_ok_def)
qed

lemma boot_undo_ok:
  assumes "net_ok s" and "n_booting s" and "RestorePendingTrial (n_vol s) = Undo t prog"
  shows "net_ok (s\<lparr>n_booting := False, n_active := Some t, n_job := Some prog, n_workers := Suc (n_workers s)\<rparr>)"
proof -
  note ok = net_okD [OF assms(1)]
  obtain r where r: "d_trial (n_vol s) = Record r" "t = pending_trial r" "prog = finishRevert r True"
    using assms(3) by (auto simp: RestorePendingTrial_def split: trial_file.splits if_splits)
  have y: "y \<in> n_good s p" if "map_of (Files r) p = Some y" for p y
    using ok(1) that by (auto simp: disks_ok_def r(1) dest: spec [of _ p])
  have "record_ok r" using ok(1) by (simp add: disks_ok_def r(1))
  with y have ag: "agreed (n_good s) r" by (auto simp: agreed_def record_ok_def)
  have "safe (n_good s) (ends (Some t) (n_good s)) (finishRevert (tr_record t) True) (n_vol s) (n_dur s)"
    using ok(1) ag r by (intro safe_finishRevert) (simp_all add: pending_trial_def new_trial_def record_of_def)
  then show ?thesis
    using ok assms(2) r(2,3) ag by (auto simp: net_ok_def trial_ok_def pending_trial_def new_trial_def)
qed

lemma boot_aside_ok:
  assumes "net_ok s" and "n_booting s" and "RestorePendingTrial (n_vol s) = MoveAside"
  shows "net_ok (s\<lparr>n_booting := False, n_vol := (if ok then (n_vol s)\<lparr>d_trial := NoRecord\<rparr> else n_vol s)\<rparr>)"
proof -
  note i = net_okD [OF assms(1)]
  have "d_trial (n_vol s) = Unusable"
    using assms(3) i(1) by (auto simp: RestorePendingTrial_def disks_ok_def record_ok_def split: trial_file.splits if_splits)
  then have "disks_ok (n_good s) ((n_vol s)\<lparr>d_trial := NoRecord\<rparr>) (n_dur s)"
    using i(1) by (auto simp: disks_ok_def)
  then show ?thesis using i assms(2) by (auto simp: net_ok_def)
qed

lemma net_step_ok: "net_step e s s' \<Longrightarrow> net_ok s \<Longrightarrow> net_ok s'"
proof (induction rule: net_step.induct)
  case (begin_trial s paths bad fs token service)
  have "d_trial (n_vol s) = NoRecord" using begin_trial(3) by (simp add: trialIdle_def split: if_splits)
  then have "agreed (n_good s) \<lparr>Files = fs, Service = service\<rparr>"
    using snapshot_agreed [OF net_okD(1) [OF begin_trial.prems] _ begin_trial(5,4)] by simp
  then show ?case using begin_trial by (intro begin_ok) (simp_all add: new_trial_def)
next
  case (direct s p c)
  have g: "disks_ok ((n_good s)(p := insert c (n_good s p))) (n_vol s) (n_dur s)"
    by (rule disks_ok_mono [OF net_okD(1) [OF direct.prems]]) auto
  have "disks_ok ((n_good s)(p := insert c (n_good s p))) ((n_vol s)\<lparr>d_files := (d_files (n_vol s))(p := c)\<rparr>) (n_dur s)"
    by (rule put_ok [OF g]) simp
  then show ?case using direct by (auto simp: net_ok_def trialIdle_def split: if_splits)
next
  case (direct_sync s)
  then have "disks_ok (exactly (n_vol s)) (n_vol s) (n_vol s)"
    by (simp add: disks_ok_def exactly_def trialIdle_def split: if_splits)
  then show ?case using direct_sync by (auto simp: net_ok_def trialIdle_def split: if_splits)
next
  case (runs s c k ok)
  then have "safe (n_good s) (ends (n_active s) (n_good s)) (k ok)
      (if ok then perform c (n_vol s) else n_vol s) (if ok \<and> c = Sync then n_vol s else n_dur s)"
    using net_okD(3) [OF runs.prems runs.hyps] by (cases ok) (auto dest: spec [of _ "n_dur s"])
  then show ?case using runs net_okD [OF runs.prems] safe_disks by (auto simp: net_ok_def trial_ok_def)
next
  case (reaches_card s p)
  then show ?case by (intro card_step_ok) (simp_all add: mixes_def)
next
  case (record_reaches_card s)
  then show ?case by (intro card_step_ok) (simp_all add: mixes_def)
next
  case (power_loss s)
  then show ?case using disks_ok_dur [OF net_okD(1) [OF power_loss]] by (simp add: net_ok_def)
next
  case (boot_idle s)
  then show ?case by (simp add: net_ok_def trial_ok_def)
next
  case (boot_aside s ok)
  then show ?case by (intro boot_aside_ok)
qed (simp_all add: change_ok start_ok restart_over_ok restarts_same restarted_ok revert_ok retry_ok confirm_ok
    settle_ok(1) boot_undo_ok)


interpretation net: invariant_system net_init net_any net_ok
proof
  fix s show "net_init s \<Longrightarrow> net_ok s" by (simp add: net_init_def net_ok_def disks_ok_def exactly_def)
qed (auto simp: net_any_def intro: net_step_ok)



section \<open>Properties\<close>


lemma eth_changed_simp:
  "n_vol eth_changed = eth_disk\<lparr>d_files := [''/boot/eth.nodhcp'' \<mapsto> ''new''], d_trial := Record (tr_record eth_trial)\<rparr>"
  "n_dur eth_changed = eth_disk\<lparr>d_trial := Record (tr_record eth_trial)\<rparr>"
  "n_active eth_changed = Some eth_trial" "n_job eth_changed = None"
  by (simp_all add: eth_changed_def eth_begun_def eth_device_def advance_def beginTrial_def Let_def eth_disk_def)



lemma restored_cons:
  "(\<lambda>q. case map_of (rev ((p, c) # fs)) q of Some y \<Rightarrow> y | None \<Rightarrow> f q) =
   (\<lambda>q. case map_of (rev fs) q of Some y \<Rightarrow> y | None \<Rightarrow> (f(p := c)) q)"
  by (auto simp: fun_eq_iff map_add_def split: option.splits)

lemma run_restoreFiles:
  "run (restoreFiles fs good k) v d =
     run (k good) (v\<lparr>d_files := \<lambda>p. case map_of (rev fs) p of Some y \<Rightarrow> y | None \<Rightarrow> d_files v p\<rparr>) d"
proof (induction fs good k arbitrary: v rule: restoreFiles.induct)
  case (1 good k)
  then show ?case by simp
next
  case (2 p fs good k)
  then show ?case unfolding restored_cons using 2 [of True] by (simp cong: option.case_cong)
next
  case (3 p c fs good k)
  then show ?case unfolding restored_cons using 3 [of True] by (simp cong: option.case_cong)
qed

text \<open>
  When no command fails, undoing a change ends: the files have the recorded contents, all others
  are as they were, the record is gone, and the card has all of it.
\<close>

theorem undo_completes:
  assumes "distinct (map fst (Files r))" and "d_trial v = Record r"
  shows "run (finishRevert r restart) v d = (Undone, \<lparr>d_files = recovered v, d_trial = NoRecord\<rparr>,
    \<lparr>d_files = recovered v, d_trial = NoRecord\<rparr>)"
proof -
  have "map_of (rev (Files r)) = map_of (Files r)" using assms(1) by (subst map_of_inject_set) (simp_all flip: rev_map)
  then have "(\<lambda>p. case map_of (rev (Files r)) p of Some y \<Rightarrow> y | None \<Rightarrow> d_files v p) = recovered v"
    by (auto simp: recovered_def assms(2) fun_eq_iff)
  then show ?thesis
    by (cases v) (auto simp: finishRevert_def restoreRecord_def run_restoreFiles remove_synced_def)
qed

theorem undo_completes_witness:
  "run (finishRevert (tr_record eth_trial) True) (n_vol eth_changed) eth_disk =
    (Undone, \<lparr>d_files = recovered (n_vol eth_changed), d_trial = NoRecord\<rparr>,
     \<lparr>d_files = recovered (n_vol eth_changed), d_trial = NoRecord\<rparr>)"
  by (rule undo_completes) (simp_all add: eth_changed_simp eth_trial_def new_trial_def)

text \<open>
  A shutdown that \<open>CheckIdle\<close> lets through cannot cut into a network change: no trial is active,
  none is being recorded, confirmed or undone, no restart of the network is running, and there is no record.
\<close>

theorem shutdown_waits:
  assumes "reachable net_init net_any s" and "CheckIdle s"
  shows "n_active s = None \<and> n_job s = None \<and> n_restarts s = [] \<and> d_trial (n_vol s) = NoRecord"
  using net_okD(5) [OF net.reachable_inv [OF assms(1)]] assms(2) by (auto simp: CheckIdle_def split: if_splits)

theorem shutdown_waits_witness: "n_active eth_device = None \<and> n_job eth_device = None"
proof -
  have "net_init eth_device" by (simp add: net_init_def eth_device_def eth_disk_def)
  then have r: "reachable net_init net_any eth_device" by (rule reachable.start)
  have "CheckIdle eth_device" by (simp add: CheckIdle_def eth_device_def eth_disk_def)
  from shutdown_waits [OF r this] show ?thesis by blast
qed

end
