(* ===== verification/Hid_Layout.thy ===== *)
theory Hid_Layout
  imports Prelude
begin

text \<open>
  The keyboard layouts of \<open>service/hid/paste.go\<close>: the key and the modifiers that type a character on a
  host with a given layout. A \<open>rune\<close> is its code point; a Go map is an association list, and an
  assignment to a key replaces its entry.
\<close>

section \<open>Layouts\<close>

type_synonym rune = int

datatype Char = Char (Modifiers: int) (Code: int)

type_synonym layout = "(rune \<times> Char) list"

definition charMap :: layout where
  "charMap = [
    (97, Char 0 4), (98, Char 0 5), (99, Char 0 6), (100, Char 0 7), (101, Char 0 8), (102, Char 0 9),
    (103, Char 0 10), (104, Char 0 11), (105, Char 0 12), (106, Char 0 13), (107, Char 0 14),
    (108, Char 0 15), (109, Char 0 16), (110, Char 0 17), (111, Char 0 18), (112, Char 0 19),
    (113, Char 0 20), (114, Char 0 21), (115, Char 0 22), (116, Char 0 23), (117, Char 0 24),
    (118, Char 0 25), (119, Char 0 26), (120, Char 0 27), (121, Char 0 28), (122, Char 0 29), (65, Char 2 4),
    (66, Char 2 5), (67, Char 2 6), (68, Char 2 7), (69, Char 2 8), (70, Char 2 9), (71, Char 2 10),
    (72, Char 2 11), (73, Char 2 12), (74, Char 2 13), (75, Char 2 14), (76, Char 2 15), (77, Char 2 16),
    (78, Char 2 17), (79, Char 2 18), (80, Char 2 19), (81, Char 2 20), (82, Char 2 21), (83, Char 2 22),
    (84, Char 2 23), (85, Char 2 24), (86, Char 2 25), (87, Char 2 26), (88, Char 2 27), (89, Char 2 28),
    (90, Char 2 29), (49, Char 0 30), (50, Char 0 31), (51, Char 0 32), (52, Char 0 33), (53, Char 0 34),
    (54, Char 0 35), (55, Char 0 36), (56, Char 0 37), (57, Char 0 38), (48, Char 0 39), (33, Char 2 30),
    (64, Char 2 31), (35, Char 2 32), (36, Char 2 33), (37, Char 2 34), (94, Char 2 35), (38, Char 2 36),
    (42, Char 2 37), (40, Char 2 38), (41, Char 2 39), (10, Char 0 40), (9, Char 0 43), (32, Char 0 44),
    (45, Char 0 45), (61, Char 0 46), (91, Char 0 47), (93, Char 0 48), (92, Char 0 49), (59, Char 0 51),
    (39, Char 0 52), (96, Char 0 53), (44, Char 0 54), (46, Char 0 55), (47, Char 0 56), (95, Char 2 45),
    (43, Char 2 46), (123, Char 2 47), (125, Char 2 48), (124, Char 2 49), (58, Char 2 51), (34, Char 2 52),
    (126, Char 2 53), (60, Char 2 54), (62, Char 2 55), (63, Char 2 56)]"

definition german :: layout where
  "german = [
    (121, Char 0 29), (89, Char 2 29), (122, Char 0 28), (90, Char 2 28), (228, Char 0 52), (196, Char 2 52),
    (246, Char 0 51), (214, Char 2 51), (252, Char 0 47), (220, Char 2 47), (223, Char 0 45),
    (94, Char 0 53), (47, Char 2 36), (40, Char 2 37), (38, Char 2 35), (41, Char 2 38), (96, Char 2 46),
    (34, Char 2 31), (63, Char 2 45), (123, Char 64 36), (91, Char 64 37), (93, Char 64 38),
    (125, Char 64 39), (92, Char 64 45), (64, Char 64 20), (43, Char 0 48), (42, Char 2 48),
    (126, Char 64 48), (35, Char 0 49), (39, Char 2 49), (60, Char 0 100), (62, Char 2 100),
    (124, Char 64 100), (59, Char 2 54), (58, Char 2 55), (45, Char 0 56), (95, Char 2 56), (180, Char 0 46),
    (176, Char 2 53), (167, Char 2 32), (8364, Char 64 8), (178, Char 64 31), (179, Char 64 32)]"

definition french :: layout where
  "french = [
    (97, Char 0 20), (65, Char 2 20), (113, Char 0 4), (81, Char 2 4), (122, Char 0 26), (90, Char 2 26),
    (119, Char 0 29), (87, Char 2 29), (109, Char 0 51), (77, Char 2 51), (49, Char 2 30), (50, Char 2 31),
    (51, Char 2 32), (52, Char 2 33), (53, Char 2 34), (54, Char 2 35), (55, Char 2 36), (56, Char 2 37),
    (57, Char 2 38), (48, Char 2 39), (38, Char 0 30), (233, Char 0 31), (34, Char 0 32), (39, Char 0 33),
    (40, Char 0 34), (45, Char 0 35), (232, Char 0 36), (95, Char 0 37), (231, Char 0 38), (224, Char 0 39),
    (41, Char 0 45), (176, Char 2 45), (94, Char 0 47), (168, Char 2 47), (36, Char 0 48), (163, Char 2 48),
    (42, Char 0 49), (181, Char 2 49), (249, Char 0 52), (37, Char 2 52), (44, Char 0 16), (63, Char 2 16),
    (59, Char 0 54), (46, Char 2 54), (58, Char 0 55), (47, Char 2 55), (33, Char 0 56), (167, Char 2 56),
    (126, Char 64 31), (35, Char 64 32), (123, Char 64 33), (91, Char 64 34), (124, Char 64 35),
    (96, Char 64 36), (92, Char 64 37), (93, Char 64 45), (125, Char 64 46), (64, Char 64 39),
    (8364, Char 64 8)]"

definition spanish :: layout where
  "spanish = [
    (241, Char 0 51), (209, Char 2 51), (231, Char 0 49), (199, Char 2 49), (96, Char 0 47), (94, Char 2 47),
    (180, Char 0 52), (168, Char 2 52), (225, Char 0 52), (233, Char 0 52), (237, Char 0 52),
    (243, Char 0 52), (250, Char 0 52), (193, Char 0 52), (201, Char 0 52), (205, Char 0 52),
    (211, Char 0 52), (218, Char 0 52), (252, Char 2 52), (220, Char 2 52), (186, Char 0 53),
    (170, Char 2 53), (92, Char 64 53), (33, Char 2 30), (124, Char 64 30), (34, Char 2 31),
    (64, Char 64 31), (183, Char 2 32), (35, Char 64 32), (36, Char 2 33), (126, Char 64 33),
    (37, Char 2 34), (38, Char 2 35), (172, Char 64 35), (47, Char 2 36), (40, Char 2 37), (41, Char 2 38),
    (61, Char 2 39), (39, Char 0 45), (63, Char 2 45), (161, Char 0 46), (191, Char 2 46), (91, Char 64 47),
    (43, Char 0 48), (42, Char 2 48), (93, Char 64 48), (123, Char 64 52), (125, Char 64 49),
    (60, Char 0 100), (62, Char 2 100), (44, Char 0 54), (59, Char 2 54), (46, Char 0 55), (58, Char 2 55),
    (45, Char 0 56), (95, Char 2 56), (8364, Char 64 8)]"

definition spanishDeadKeyContinuationMap :: layout where
  "spanishDeadKeyContinuationMap = [
    (225, Char 0 4), (233, Char 0 8), (237, Char 0 12), (243, Char 0 18), (250, Char 0 24), (193, Char 2 4),
    (201, Char 2 8), (205, Char 2 12), (211, Char 2 18), (218, Char 2 24), (252, Char 0 24),
    (220, Char 2 24), (180, Char 0 44), (168, Char 0 44), (96, Char 0 44), (94, Char 0 44)]"

definition assign_all :: "layout \<Rightarrow> layout \<Rightarrow> layout" where
  "assign_all keys m = fold (\<lambda>(c, k). AList.update c k) keys m"

definition applySpanishLayout :: "layout \<Rightarrow> layout" where
  "applySpanishLayout m = assign_all spanish m"

definition LangueSwitch :: "layout \<Rightarrow> string \<Rightarrow> layout" where
  "LangueSwitch base lang =
     (if lang = ''de'' then assign_all german base
      else if lang = ''fr'' then assign_all french base
      else if lang = ''es'' then applySpanishLayout base
      else base)"

text \<open>The second key that some characters of the Spanish layout need after a dead key.\<close>

definition followMap :: "string \<Rightarrow> layout" where
  "followMap lang = (if lang = ''es'' then spanishDeadKeyContinuationMap else [])"

text \<open>The keys that type a character: one, or a dead key and the key after it.\<close>

definition keystrokes :: "string \<Rightarrow> rune \<Rightarrow> Char list option" where
  "keystrokes lang c =
     (case map_of (LangueSwitch charMap lang) c of
        None \<Rightarrow> None
      | Some k \<Rightarrow> Some (k # (case map_of (followMap lang) c of None \<Rightarrow> [] | Some f \<Rightarrow> [f])))"

definition all_strokes :: "string \<Rightarrow> (rune \<times> Char list) list" where
  "all_strokes lang = map (\<lambda>(c, k). (c, k # (case map_of (followMap lang) c of None \<Rightarrow> [] | Some f \<Rightarrow> [f])))
     (LangueSwitch charMap lang)"

definition key_ok :: "Char \<Rightarrow> bool" where
  "key_ok k \<longleftrightarrow> 0 \<le> Modifiers k \<and> Modifiers k < 256 \<and> 0 < Code k \<and> Code k < 256"

text \<open>Two characters that the host cannot tell apart.\<close>

definition typed_alike :: "string \<Rightarrow> rune \<Rightarrow> rune \<Rightarrow> bool" where
  "typed_alike lang c d \<longleftrightarrow> c \<noteq> d \<and> keystrokes lang c \<noteq> None \<and> keystrokes lang c = keystrokes lang d"

section \<open>Lemmas\<close>

lemma keystrokes_all: "keystrokes lang c = map_of (all_strokes lang) c"
proof -
  have "map_of (map (\<lambda>(c, k). (c, f c k)) xs) c = map_option (f c) (map_of xs c)" for f :: "rune \<Rightarrow> Char \<Rightarrow> Char list" and xs
    by (induction xs) auto
  from this [of "\<lambda>c k. k # (case map_of (followMap lang) c of None \<Rightarrow> [] | Some f \<Rightarrow> [f])"]
  show ?thesis by (simp add: keystrokes_def all_strokes_def split: option.splits)
qed

lemma distinct_values_inj:
  assumes "distinct (map snd xs)" and "map_of xs c = Some k" and "map_of xs d = Some k"
  shows "c = d"
  using assms by (metis distinct_map inj_onD map_of_SomeD prod.inject snd_conv)

text \<open>When all values but those of some keys are distinct, only those keys can share a value.\<close>

lemma shared_values:
  assumes "distinct (map snd (filter (\<lambda>(c, _). c \<notin> set S) xs))"
    and "map_of xs c = Some k" and "map_of xs d = Some k" and "c \<noteq> d"
  shows "c \<in> set S \<or> d \<in> set S"
proof (rule ccontr)
  assume "\<not> ?thesis"
  then have "(c, k) \<in> set (filter (\<lambda>(c, _). c \<notin> set S) xs)" "(d, k) \<in> set (filter (\<lambda>(c, _). c \<notin> set S) xs)"
    using assms(2,3) by (auto dest: map_of_SomeD)
  with assms(1,4) show False by (metis distinct_map inj_onD prod.inject snd_conv)
qed

lemma strokes_other: "lang \<notin> {''de'', ''fr'', ''es''} \<Longrightarrow> all_strokes lang = all_strokes []"
  by (simp add: all_strokes_def LangueSwitch_def followMap_def)

lemma distinct_strokes:
  "distinct (map snd (all_strokes []))" "distinct (map snd (all_strokes ''es''))"
  "distinct (map snd (filter (\<lambda>(c, _). c \<notin> set [61]) (all_strokes ''de'')))"
  "distinct (map snd (filter (\<lambda>(c, _). c \<notin> set [60, 62]) (all_strokes ''fr'')))"
  by code_simp+

lemma shared_de: "map fst (filter (\<lambda>(c, k). k = [Char 0 46]) (all_strokes ''de'')) = [61, 180]"
  by code_simp

lemma shared_fr: "map fst (filter (\<lambda>(c, k). k = [Char 2 54]) (all_strokes ''fr'')) = [46, 60]"
  by code_simp

lemma shared_fr': "map fst (filter (\<lambda>(c, k). k = [Char 2 55]) (all_strokes ''fr'')) = [47, 62]"
  by code_simp

lemma stroke_61: "map_of (all_strokes ''de'') 61 = Some [Char 0 46]" by code_simp
lemma stroke_180: "map_of (all_strokes ''de'') 180 = Some [Char 0 46]" by code_simp
lemma stroke_60: "map_of (all_strokes ''fr'') 60 = Some [Char 2 54]" by code_simp
lemma stroke_62: "map_of (all_strokes ''fr'') 62 = Some [Char 2 55]" by code_simp
lemma stroke_46: "map_of (all_strokes ''fr'') 46 = Some [Char 2 54]" by code_simp
lemma stroke_47: "map_of (all_strokes ''fr'') 47 = Some [Char 2 55]" by code_simp

lemma stroke_keys:
  assumes "map fst (filter (\<lambda>(c, k). k = v) xs) = cs" and "map_of xs c = Some v"
  shows "c \<in> set cs"
proof -
  have "(c, v) \<in> set (filter (\<lambda>(c, k). k = v) xs)" using map_of_SomeD [OF assms(2)] by simp
  then show ?thesis using assms(1) by (metis fst_conv image_eqI set_map)
qed

lemma all_keys_ok:
  "list_all (\<lambda>(c, k). key_ok k) charMap" "list_all (\<lambda>(c, k). key_ok k) (LangueSwitch charMap ''de'')"
  "list_all (\<lambda>(c, k). key_ok k) (LangueSwitch charMap ''fr'')"
  "list_all (\<lambda>(c, k). key_ok k) (LangueSwitch charMap ''es'')"
  "list_all (\<lambda>(c, k). key_ok k) spanishDeadKeyContinuationMap"
  by code_simp+

lemma layout_keys_ok: "list_all (\<lambda>(c, k). key_ok k) (LangueSwitch charMap lang)"
proof (cases "lang \<in> {''de'', ''fr'', ''es''}")
  case True
  then show ?thesis using all_keys_ok(2-4) by auto
next
  case False
  then have "LangueSwitch charMap lang = charMap" by (simp add: LangueSwitch_def)
  then show ?thesis using all_keys_ok(1) by simp
qed

lemma layout_key_ok: "map_of (LangueSwitch charMap lang) c = Some k \<Longrightarrow> key_ok k"
  using layout_keys_ok [of lang] by (auto simp: list_all_iff dest: map_of_SomeD)

lemma follow_key_ok: "map_of (followMap lang) c = Some k \<Longrightarrow> key_ok k"
  using all_keys_ok(5) by (auto simp: followMap_def list_all_iff split: if_splits dest!: map_of_SomeD)

lemma typed_alikeE:
  assumes "typed_alike lang c d"
  obtains k where "map_of (all_strokes lang) c = Some k" "map_of (all_strokes lang) d = Some k" "c \<noteq> d"
proof -
  have "c \<noteq> d" "map_of (all_strokes lang) c \<noteq> None" "map_of (all_strokes lang) d = map_of (all_strokes lang) c"
    using assms unfolding typed_alike_def keystrokes_all by metis+
  then show thesis using that by (metis option.exhaust)
qed

lemma typed_alikeI:
  "map_of (all_strokes lang) c = Some k \<Longrightarrow> map_of (all_strokes lang) d = Some k \<Longrightarrow> c \<noteq> d \<Longrightarrow> typed_alike lang c d"
  by (simp only: typed_alike_def keystrokes_all) simp

section \<open>Properties\<close>

lemma german_alike: "typed_alike ''de'' c d \<longleftrightarrow> {c, d} = {61, 180}"
proof
  assume "typed_alike ''de'' c d"
  then obtain k where k: "map_of (all_strokes ''de'') c = Some k" "map_of (all_strokes ''de'') d = Some k" "c \<noteq> d"
    by (rule typed_alikeE)
  have "c = 61 \<or> d = 61" using shared_values [OF distinct_strokes(3) k] by simp
  then have "k = [Char 0 46]" using k(1,2) stroke_61 by (metis option.inject)
  then have "c \<in> {61, 180}" "d \<in> {61, 180}" using k(1,2) stroke_keys [OF shared_de] by simp_all
  with k(3) show "{c, d} = {61, 180}" by blast
next
  assume "{c, d} = {61, 180}"
  then have "c = 61 \<and> d = 180 \<or> c = 180 \<and> d = 61" by (simp add: doubleton_eq_iff)
  then show "typed_alike ''de'' c d" using stroke_61 stroke_180 by (elim disjE conjE) (simp_all add: typed_alikeI)
qed

lemma french_alike: "typed_alike ''fr'' c d \<longleftrightarrow> {c, d} = {60, 46} \<or> {c, d} = {62, 47}"
proof
  assume "typed_alike ''fr'' c d"
  then obtain k where k: "map_of (all_strokes ''fr'') c = Some k" "map_of (all_strokes ''fr'') d = Some k" "c \<noteq> d"
    by (rule typed_alikeE)
  have "c \<in> {60, 62} \<or> d \<in> {60, 62}" using shared_values [OF distinct_strokes(4) k] by simp
  then have "k = [Char 2 54] \<or> k = [Char 2 55]" using k(1,2) stroke_60 stroke_62
    by (metis insertE option.inject singletonD)
  then show "{c, d} = {60, 46} \<or> {c, d} = {62, 47}"
  proof
    assume "k = [Char 2 54]"
    then have "c \<in> {46, 60}" "d \<in> {46, 60}" using k(1,2) stroke_keys [OF shared_fr] by simp_all
    with k(3) show ?thesis by blast
  next
    assume "k = [Char 2 55]"
    then have "c \<in> {47, 62}" "d \<in> {47, 62}" using k(1,2) stroke_keys [OF shared_fr'] by simp_all
    with k(3) show ?thesis by blast
  qed
next
  assume "{c, d} = {60, 46} \<or> {c, d} = {62, 47}"
  then have "c = 60 \<and> d = 46 \<or> c = 46 \<and> d = 60 \<or> c = 62 \<and> d = 47 \<or> c = 47 \<and> d = 62"
    by (simp add: doubleton_eq_iff)
  then show "typed_alike ''fr'' c d" using stroke_60 stroke_62 stroke_46 stroke_47
    by (elim disjE conjE) (simp_all add: typed_alikeI)
qed

text \<open>
  C18. No layout types two characters with the same keys, except that the German layout types the equals
  sign (61) as the acute accent (180), and the French layout types the less-than sign (60) as the full
  stop (46) and the greater-than sign (62) as the slash (47).
\<close>

theorem layout_collisions:
  "typed_alike lang c d \<longleftrightarrow> lang = ''de'' \<and> {c, d} = {61, 180} \<or>
     lang = ''fr'' \<and> ({c, d} = {60, 46} \<or> {c, d} = {62, 47})"
proof -
  have "\<not> typed_alike lang c d" if "lang \<notin> {''de'', ''fr''}"
  proof -
    have "distinct (map snd (all_strokes lang))"
      using that distinct_strokes(1,2) strokes_other [of lang] by (cases "lang = ''es''") auto
    then show ?thesis by (metis distinct_values_inj typed_alikeE)
  qed
  moreover have "lang = ''de'' \<or> lang = ''fr'' \<or> lang \<notin> {''de'', ''fr''}" by blast
  ultimately show ?thesis using german_alike [of c d] french_alike [of c d] by (elim disjE) simp_all
qed

end
