(* ===== verification/Hid_Reports.thy ===== *)
theory Hid_Reports
  imports Prelude
begin

text \<open>
  What the keyboard and the mice of the USB gadget report to the host, \<open>service/hid\<close>: the two goroutines
  that write the queued reports (\<open>keyboard.go\<close>, \<open>mouse.go\<close>) and the release of everything
  (\<open>release.go\<close>). A report whose write failed may still have reached the host. \<open>drained\<close> is how many
  of the following reports are in the queue when a failure drains it.
\<close>

section \<open>Reports\<close>

datatype write_result = Written | Lost | Unsure

text \<open>A write that a reservation guards may also be refused.\<close>

datatype run_result = Refused | Ran write_result

definition run_ok :: "run_result \<Rightarrow> bool" where
  "run_ok r \<longleftrightarrow> r = Ran Written"

definition received :: "run_result \<Rightarrow> bytes \<Rightarrow> bytes \<Rightarrow> bytes" where
  "received r report old = (if r = Ran Written \<or> r = Ran Unsure then report else old)"

definition keyboardReleaseReport :: bytes where
  "keyboardReleaseReport = [0, 0, 0, 0, 0, 0, 0, 0]"

definition relativeMouseReleaseReport :: bytes where
  "relativeMouseReleaseReport = replicate 5 0"

definition absoluteMouseReleaseReport :: "bytes \<Rightarrow> bytes" where
  "absoluteMouseReleaseReport position =
     (if length position \<ge> 5 then 0 # take 4 (drop 1 position) @ [0, 0] else replicate 7 0)"

definition keyboardReportActive :: "bytes \<Rightarrow> bool" where
  "keyboardReportActive report \<longleftrightarrow> length report = 8 \<and> (report ! 0 \<noteq> 0 \<or> list_ex (\<lambda>k. k \<noteq> 0) (drop 2 report))"

definition buttons :: "bytes \<Rightarrow> bool" where
  "buttons report \<longleftrightarrow> report \<noteq> [] \<and> report ! 0 \<noteq> 0"

definition NormalizeMouseReport :: "bytes \<Rightarrow> bytes" where
  "NormalizeMouseReport report = (if length report = 4 \<or> length report = 6 then report @ [0] else report)"

section \<open>The keyboard queue\<close>

record QueuedReport =
  q_data :: bytes
  q_run :: run_result
  q_cleanup :: run_result
  q_other :: run_result
  q_drained :: nat

text \<open>The host's keyboard, the goroutine's flag, and what each report completed with.\<close>

record keyboard =
  kb_host :: bytes
  kb_active :: bool
  kb_completed :: "bool list"

definition keyboard_event :: "QueuedReport \<Rightarrow> keyboard \<Rightarrow> keyboard" where
  "keyboard_event e s =
     (if length (q_data e) \<noteq> 8 then s\<lparr>kb_completed := kb_completed s @ [False]\<rparr>
      else
        let s = s\<lparr>kb_host := received (q_run e) (q_data e) (kb_host s)\<rparr> in
        if run_ok (q_run e)
        then s\<lparr>kb_active := keyboardReportActive (q_data e), kb_completed := kb_completed s @ [True]\<rparr>
        else
          let s = s\<lparr>kb_completed := kb_completed s @ replicate (q_drained e) False @ [False],
                    kb_host := received (q_cleanup e) keyboardReleaseReport (kb_host s)\<rparr>
          in if run_ok (q_cleanup e) then s\<lparr>kb_active := False\<rparr>
             else s\<lparr>kb_active := kb_active s \<or> keyboardReportActive (q_data e)\<rparr>)"

definition keyboard_failed :: "QueuedReport \<Rightarrow> bool" where
  "keyboard_failed e \<longleftrightarrow> length (q_data e) = 8 \<and> \<not> run_ok (q_run e)"

function keyboardReports :: "QueuedReport list \<Rightarrow> keyboard \<Rightarrow> keyboard" where
  "keyboardReports [] s = s"
| "keyboardReports (e # es) s =
     (let d = (if keyboard_failed e then min (q_drained e) (length es) else 0) in
      keyboardReports (drop d es) (keyboard_event (e\<lparr>q_drained := d\<rparr>) s))"
  by pat_completeness auto
termination
  by (relation "measure (\<lambda>(es, s). length es)") auto

text \<open>The queue is closed: a key that may be down is released.\<close>

definition keyboard_close :: "run_result \<Rightarrow> keyboard \<Rightarrow> keyboard" where
  "keyboard_close r s =
     (if \<not> kb_active s then s else s\<lparr>kb_host := received r keyboardReleaseReport (kb_host s)\<rparr>)"

section \<open>The mouse queue\<close>

record mouse =
  ms_rel :: bytes
  ms_abs :: bytes
  ms_relActive :: bool
  ms_absActive :: bool
  ms_absRelease :: bytes
  ms_completed :: "bool list"

definition release_rel :: "run_result \<Rightarrow> mouse \<Rightarrow> mouse" where
  "release_rel r s =
     (let s = s\<lparr>ms_rel := received r relativeMouseReleaseReport (ms_rel s)\<rparr>
      in if run_ok r then s\<lparr>ms_relActive := False\<rparr> else s)"

definition release_abs :: "run_result \<Rightarrow> bytes \<Rightarrow> mouse \<Rightarrow> mouse" where
  "release_abs r report s =
     (let s = s\<lparr>ms_abs := received r report (ms_abs s)\<rparr>
      in if run_ok r then s\<lparr>ms_absActive := False\<rparr> else s)"

text \<open>\<open>cleanupFailure\<close>, with the results of its two releases.\<close>

definition note_pressed :: "bytes \<Rightarrow> mouse \<Rightarrow> mouse" where
  "note_pressed data s =
     (if length data = 5 \<and> data ! 0 \<noteq> 0 then s\<lparr>ms_relActive := True\<rparr>
      else if length data = 7 \<and> data ! 0 \<noteq> 0
      then s\<lparr>ms_absActive := True, ms_absRelease := absoluteMouseReleaseReport data\<rparr> else s)"

definition cleanupFailure :: "bytes \<Rightarrow> nat \<Rightarrow> run_result \<Rightarrow> run_result \<Rightarrow> mouse \<Rightarrow> mouse" where
  "cleanupFailure data drained r1 r2 s =
     (let s = note_pressed data s;
          s = (if ms_relActive s \<or> length data = 5 then release_rel r1 s else s);
          s = (if ms_absActive s \<or> length data = 7
               then release_abs r2 (if length data = 7 then absoluteMouseReleaseReport data else ms_absRelease s) s
               else s)
      in s\<lparr>ms_completed := ms_completed s @ replicate drained False @ [False]\<rparr>)"

text \<open>A report for one mouse first releases the buttons of the other; \<open>q_other\<close> is how that went.\<close>

definition relative_event :: "QueuedReport \<Rightarrow> run_result \<Rightarrow> bytes \<Rightarrow> mouse \<Rightarrow> mouse" where
  "relative_event e r2 data s =
     (let s' = (if ms_absActive s then release_abs (q_other e) (ms_absRelease s) s else s) in
      if ms_absActive s \<and> \<not> run_ok (q_other e) then cleanupFailure data (q_drained e) (q_cleanup e) r2 s'
      else let s = s'\<lparr>ms_rel := received (q_run e) data (ms_rel s')\<rparr> in
        if \<not> run_ok (q_run e) then cleanupFailure data (q_drained e) (q_cleanup e) r2 s
        else s\<lparr>ms_relActive := data ! 0 \<noteq> 0, ms_completed := ms_completed s @ [True]\<rparr>)"

definition absolute_event :: "QueuedReport \<Rightarrow> run_result \<Rightarrow> bytes \<Rightarrow> mouse \<Rightarrow> mouse" where
  "absolute_event e r2 data s =
     (let s' = (if ms_relActive s then release_rel (q_other e) s else s) in
      if ms_relActive s \<and> \<not> run_ok (q_other e) then cleanupFailure data (q_drained e) (q_cleanup e) r2 s'
      else let s = s'\<lparr>ms_abs := received (q_run e) data (ms_abs s')\<rparr> in
        if \<not> run_ok (q_run e) then cleanupFailure data (q_drained e) (q_cleanup e) r2 s
        else s\<lparr>ms_absRelease := absoluteMouseReleaseReport data, ms_absActive := data ! 0 \<noteq> 0,
               ms_completed := ms_completed s @ [True]\<rparr>)"

definition mouse_event :: "QueuedReport \<Rightarrow> run_result \<Rightarrow> mouse \<Rightarrow> mouse" where
  "mouse_event e r2 s =
     (let data = NormalizeMouseReport (q_data e) in
      if length data = 5 then relative_event e r2 data s
      else if length data = 7 then absolute_event e r2 data s
      else s\<lparr>ms_completed := ms_completed s @ [False]\<rparr>)"

definition mouse_failed :: "QueuedReport \<Rightarrow> mouse \<Rightarrow> bool" where
  "mouse_failed e s \<longleftrightarrow>
     (let n = length (NormalizeMouseReport (q_data e)) in
      n = 5 \<and> (ms_absActive s \<and> \<not> run_ok (q_other e) \<or> \<not> run_ok (q_run e)) \<or>
      n = 7 \<and> (ms_relActive s \<and> \<not> run_ok (q_other e) \<or> \<not> run_ok (q_run e)))"

text \<open>Each report comes with the result of the second release a failure makes.\<close>

function mouseReports :: "(QueuedReport \<times> run_result) list \<Rightarrow> mouse \<Rightarrow> mouse" where
  "mouseReports [] s = s"
| "mouseReports ((e, r2) # es) s =
     (let d = (if mouse_failed e s then min (q_drained e) (length es) else 0) in
      mouseReports (drop d es) (mouse_event (e\<lparr>q_drained := d\<rparr>) r2 s))"
  by pat_completeness auto
termination
  by (relation "measure (\<lambda>(es, s). length es)") auto

definition mouse_close :: "run_result \<Rightarrow> run_result \<Rightarrow> mouse \<Rightarrow> mouse" where
  "mouse_close r1 r2 s =
     (let s = (if ms_relActive s then s\<lparr>ms_rel := received r1 relativeMouseReleaseReport (ms_rel s)\<rparr> else s)
      in if ms_absActive s then s\<lparr>ms_abs := received r2 (ms_absRelease s) (ms_abs s)\<rparr> else s)"

section \<open>Releasing everything\<close>

record hid_host =
  hh_keyboard :: bytes
  hh_rel :: bytes
  hh_abs :: bytes

definition releaseAllHIDState :: "write_result \<Rightarrow> write_result \<Rightarrow> write_result \<Rightarrow> hid_host \<Rightarrow> bool \<times> hid_host" where
  "releaseAllHIDState w1 w2 w3 h =
     (w1 = Written \<and> w2 = Written \<and> w3 = Written,
      h\<lparr>hh_keyboard := received (Ran w1) keyboardReleaseReport (hh_keyboard h),
        hh_rel := received (Ran w2) relativeMouseReleaseReport (hh_rel h),
        hh_abs := received (Ran w3) (absoluteMouseReleaseReport []) (hh_abs h)\<rparr>)"

section \<open>Specification\<close>

definition new_keyboard :: keyboard where
  "new_keyboard = \<lparr>kb_host = keyboardReleaseReport, kb_active = False, kb_completed = []\<rparr>"

definition new_mouse :: mouse where
  "new_mouse = \<lparr>ms_rel = relativeMouseReleaseReport, ms_abs = absoluteMouseReleaseReport [], ms_relActive = False,
     ms_absActive = False, ms_absRelease = absoluteMouseReleaseReport [], ms_completed = []\<rparr>"

text \<open>The flag covers whatever the host may see as held.\<close>

definition keyboard_ok :: "keyboard \<Rightarrow> bool" where
  "keyboard_ok s \<longleftrightarrow> (keyboardReportActive (kb_host s) \<longrightarrow> kb_active s)"

definition mouse_ok :: "mouse \<Rightarrow> bool" where
  "mouse_ok s \<longleftrightarrow> (buttons (ms_rel s) \<longrightarrow> ms_relActive s) \<and> (buttons (ms_abs s) \<longrightarrow> ms_absActive s) \<and>
     \<not> buttons (ms_absRelease s)"

section \<open>Lemmas\<close>

lemma release_inactive [simp]:
  "\<not> keyboardReportActive keyboardReleaseReport" "\<not> buttons relativeMouseReleaseReport"
  "\<not> buttons (absoluteMouseReleaseReport p)"
  by (simp_all add: keyboardReportActive_def keyboardReleaseReport_def buttons_def relativeMouseReleaseReport_def
      absoluteMouseReleaseReport_def)

lemma received_simps [simp]:
  "received (Ran Written) b old = b" "received (Ran Unsure) b old = b" "received (Ran Lost) b old = old"
  "received Refused b old = old"
  by (simp_all add: received_def)

lemma received_cases: "received r b old = b \<or> received r b old = old \<and> \<not> run_ok r"
  by (simp add: received_def run_ok_def)

lemma run_ok_received: "run_ok r \<Longrightarrow> received r b old = b"
  by (simp add: run_ok_def)

lemma keyboard_event_ok: "keyboard_ok s \<Longrightarrow> keyboard_ok (keyboard_event e s)"
  using received_cases [of "q_run e" "q_data e" "kb_host s"]
    received_cases [of "q_cleanup e" keyboardReleaseReport "received (q_run e) (q_data e) (kb_host s)"]
  by (auto simp: keyboard_ok_def keyboard_event_def Let_def run_ok_received)

lemma keyboardReports_ok: "keyboard_ok s \<Longrightarrow> keyboard_ok (keyboardReports es s)"
  by (induction es s rule: keyboardReports.induct) (auto simp: Let_def keyboard_event_ok)

lemma release_rel_ok: "mouse_ok s \<Longrightarrow> mouse_ok (release_rel r s)"
  using received_cases [of r relativeMouseReleaseReport "ms_rel s"]
  by (auto simp: mouse_ok_def release_rel_def Let_def)

lemma release_abs_ok: "mouse_ok s \<Longrightarrow> \<not> buttons b \<Longrightarrow> mouse_ok (release_abs r b s)"
  using received_cases [of r b "ms_abs s"] by (auto simp: mouse_ok_def release_abs_def Let_def)

lemma note_pressed_ok: "mouse_ok s \<Longrightarrow> mouse_ok (note_pressed data s)"
  by (auto simp: mouse_ok_def note_pressed_def)

lemma completed_ok: "mouse_ok (s\<lparr>ms_completed := c\<rparr>) = mouse_ok s"
  by (simp add: mouse_ok_def)

lemma absRelease_idle: "mouse_ok s \<Longrightarrow> \<not> buttons (ms_absRelease s)"
  by (simp add: mouse_ok_def)

lemma cleanupFailure_ok: "mouse_ok (note_pressed data s) \<Longrightarrow> mouse_ok (cleanupFailure data n r1 r2 s)"
  unfolding cleanupFailure_def Let_def completed_ok
  by (auto intro!: release_abs_ok release_rel_ok absRelease_idle)

text \<open>A report that failed may have pressed a button, which the cleanup takes into account.\<close>

lemma buttons_of: "length data = 5 \<or> length data = 7 \<Longrightarrow> buttons data \<longleftrightarrow> data ! 0 \<noteq> 0"
  by (auto simp: buttons_def)

lemma sent_rel_ok:
  "mouse_ok s \<Longrightarrow> length data = 5 \<Longrightarrow> mouse_ok (note_pressed data (s\<lparr>ms_rel := received r data (ms_rel s)\<rparr>))"
  using received_cases [of r data "ms_rel s"] by (auto simp: mouse_ok_def note_pressed_def buttons_of)

lemma sent_abs_ok:
  "mouse_ok s \<Longrightarrow> length data = 7 \<Longrightarrow> mouse_ok (note_pressed data (s\<lparr>ms_abs := received r data (ms_abs s)\<rparr>))"
  using received_cases [of r data "ms_abs s"] by (auto simp: mouse_ok_def note_pressed_def buttons_of)

lemma relative_event_ok:
  assumes "mouse_ok s" and "length data = 5"
  shows "mouse_ok (relative_event e r2 data s)"
proof -
  let ?s = "if ms_absActive s then release_abs (q_other e) (ms_absRelease s) s else s"
  have s: "mouse_ok ?s" using assms(1) release_abs_ok absRelease_idle by auto
  have "mouse_ok ((?s\<lparr>ms_rel := data\<rparr>)\<lparr>ms_relActive := data ! 0 \<noteq> 0, ms_completed := c\<rparr>)" for c
    using s assms(2) by (auto simp: mouse_ok_def buttons_of)
  then show ?thesis
    using s sent_rel_ok [OF s assms(2)] note_pressed_ok [OF s]
    by (auto simp: relative_event_def Let_def run_ok_received intro!: cleanupFailure_ok)
qed

lemma absolute_event_ok:
  assumes "mouse_ok s" and "length data = 7"
  shows "mouse_ok (absolute_event e r2 data s)"
proof -
  let ?s = "if ms_relActive s then release_rel (q_other e) s else s"
  have s: "mouse_ok ?s" using assms(1) release_rel_ok by auto
  have "mouse_ok ((?s\<lparr>ms_abs := data\<rparr>)\<lparr>ms_absRelease := absoluteMouseReleaseReport data,
      ms_absActive := data ! 0 \<noteq> 0, ms_completed := c\<rparr>)" for c
    using s assms(2) by (auto simp: mouse_ok_def buttons_of)
  then show ?thesis
    using s sent_abs_ok [OF s assms(2)] note_pressed_ok [OF s]
    by (auto simp: absolute_event_def Let_def run_ok_received intro!: cleanupFailure_ok)
qed

lemma mouseReports_ok: "mouse_ok s \<Longrightarrow> mouse_ok (mouseReports es s)"
proof (induction es s rule: mouseReports.induct)
  case (2 e r2 es s)
  then show ?case
    by (auto simp: Let_def mouse_event_def relative_event_ok absolute_event_ok completed_ok)
qed simp

section \<open>Properties\<close>

text \<open>
  C16. No key and no mouse button stays pressed on the host. Whatever reports a browser queued, and
  whichever of their writes failed, were refused by the reservation or reached the host although they
  failed: when the queue is closed and its last releases are written, the host's keyboard shows no key and
  both mice show no button, and a goroutine that sends no release knows that nothing is held.
\<close>

theorem nothing_stays_pressed:
  assumes "run_ok r" and "run_ok r1" and "run_ok r2"
  shows "\<not> keyboardReportActive (kb_host (keyboard_close r (keyboardReports es new_keyboard))) \<and>
    \<not> buttons (ms_rel (mouse_close r1 r2 (mouseReports ms new_mouse))) \<and>
    \<not> buttons (ms_abs (mouse_close r1 r2 (mouseReports ms new_mouse)))"
proof -
  have k: "keyboard_ok (keyboardReports es new_keyboard)"
    by (rule keyboardReports_ok) (simp add: keyboard_ok_def new_keyboard_def)
  have m: "mouse_ok (mouseReports ms new_mouse)"
    by (rule mouseReports_ok) (simp add: mouse_ok_def new_mouse_def)
  show ?thesis
    using k m assms by (auto simp: keyboard_close_def mouse_close_def keyboard_ok_def mouse_ok_def run_ok_def Let_def)
qed

theorem nothing_stays_pressed_witness:
  "kb_host (keyboardReports [\<lparr>q_data = [0, 0, 4, 0, 0, 0, 0, 0], q_run = Ran Unsure, q_cleanup = Refused,
       q_other = Refused, q_drained = 0\<rparr>] new_keyboard) = [0, 0, 4, 0, 0, 0, 0, 0] \<and>
   \<not> keyboardReportActive (kb_host (keyboard_close (Ran Written) (keyboardReports
      [\<lparr>q_data = [0, 0, 4, 0, 0, 0, 0, 0], q_run = Ran Unsure, q_cleanup = Refused,
        q_other = Refused, q_drained = 0\<rparr>] new_keyboard)))"
proof
  have "run_ok (Ran Written)" by (simp add: run_ok_def)
  then show "\<not> keyboardReportActive (kb_host (keyboard_close (Ran Written) (keyboardReports
      [\<lparr>q_data = [0, 0, 4, 0, 0, 0, 0, 0], q_run = Ran Unsure, q_cleanup = Refused,
        q_other = Refused, q_drained = 0\<rparr>] new_keyboard)))"
    using nothing_stays_pressed by blast
qed (simp add: run_ok_def keyboard_event_def keyboard_failed_def Let_def)

end
