(* ===== verification/Hid_Typing.thy ===== *)
theory Hid_Typing
  imports Hid_Layout Hid_Reports
begin

text \<open>
  Text and key sequences that the server types on the host by itself: \<open>Paste\<close> of \<open>service/hid/paste.go\<close> and
  \<open>SendSequence\<close> of \<open>service/hid/sequence.go\<close>. Both press keys only while their request holds input control
  and end with a release. The environment answers the writes, the ownership checks and the checks of the
  request's context in order; \<open>ty_n\<close> counts its answers.
\<close>

section \<open>Guarded writes\<close>

record answers =
  an_refused :: bool
  an_owns :: bool
  an_write :: write_result
  an_cancelled :: bool

type_synonym env = "nat \<Rightarrow> answers"

datatype typing_error = ErrRefused | ErrWrite | ErrInputOwnerChanged | ErrCancelled | ErrTooLong | ErrDuration | ErrBusy
  | ErrUnknownKey | ErrDelay | ErrUnknownSequence

text \<open>The log has each report that reached the host, and whether the request held control then.\<close>

record typing =
  ty_host :: bytes
  ty_pressed :: bool
  ty_log :: "(bytes \<times> bool) list"
  ty_n :: nat

definition isKeyboardRelease :: "bytes \<Rightarrow> bool" where
  "isKeyboardRelease report \<longleftrightarrow> report ! 0 = 0 \<and> report ! 2 = 0"

definition WriteKeyboardReport :: "answers \<Rightarrow> bytes \<Rightarrow> typing \<Rightarrow> bool \<times> typing" where
  "WriteKeyboardReport a report s =
     (if length report \<noteq> 8 then (False, s)
      else if an_write a = Lost then (False, s)
      else (an_write a = Written, s\<lparr>ty_host := report, ty_log := ty_log s @ [(report, an_owns a)]\<rparr>))"

text \<open>\<open>writeKeyboardReport\<close> of a paste and \<open>write\<close> of a sequence: a press needs ownership, and a release
  goes out only after a press.\<close>

definition writeKeyboardReport :: "env \<Rightarrow> bytes \<Rightarrow> typing \<Rightarrow> typing_error option \<times> typing" where
  "writeKeyboardReport env report s =
     (let a = env (ty_n s); s = s\<lparr>ty_n := Suc (ty_n s)\<rparr> in
      if an_refused a then (Some ErrRefused, s)
      else if isKeyboardRelease report then
        if \<not> ty_pressed s then (None, s)
        else (case WriteKeyboardReport a report s of
                (True, s) \<Rightarrow> (None, s\<lparr>ty_pressed := False\<rparr>)
              | (False, s) \<Rightarrow> (Some ErrWrite, s))
      else if \<not> an_owns a then (Some ErrInputOwnerChanged, s)
      else (case WriteKeyboardReport a report (s\<lparr>ty_pressed := True\<rparr>) of
              (True, s) \<Rightarrow> (None, s)
            | (False, s) \<Rightarrow> (Some ErrWrite, s)))"

text \<open>A look at the request's context, or a wait that its end interrupts.\<close>

definition context_check :: "env \<Rightarrow> typing \<Rightarrow> typing_error option \<times> typing" where
  "context_check env s =
     ((if an_cancelled (env (ty_n s)) then Some ErrCancelled else None), s\<lparr>ty_n := Suc (ty_n s)\<rparr>)"

definition andThen :: "typing_error option \<times> typing \<Rightarrow> (typing \<Rightarrow> typing_error option \<times> typing) \<Rightarrow>
    typing_error option \<times> typing" where
  "andThen r f = (case r of (None, s) \<Rightarrow> f s | (Some e, s) \<Rightarrow> (Some e, s))"

section \<open>Paste\<close>

abbreviation defaultPasteDelay :: duration where "defaultPasteDelay \<equiv> 30 * millisecond"
abbreviation maxPasteDuration :: duration where "maxPasteDuration \<equiv> 25 * second"
abbreviation maxPasteContentRunes :: int where "maxPasteContentRunes \<equiv> 833"

definition keyUp :: bytes where
  "keyUp = [0, 0, 0, 0, 0, 0, 0, 0]"

definition keyDown :: "Char \<Rightarrow> bytes" where
  "keyDown k = [word_of_int (Modifiers k), 0, word_of_int (Code k), 0, 0, 0, 0, 0]"

definition press :: "env \<Rightarrow> Char \<Rightarrow> typing \<Rightarrow> typing_error option \<times> typing" where
  "press env k s =
     andThen (writeKeyboardReport env (keyDown k) s) (\<lambda>s.
       andThen (writeKeyboardReport env keyUp s) (context_check env))"

fun paste_loop :: "env \<Rightarrow> layout \<Rightarrow> layout \<Rightarrow> rune list \<Rightarrow> typing \<Rightarrow> typing_error option \<times> typing" where
  "paste_loop env lay follow [] s = (None, s)"
| "paste_loop env lay follow (c # cs) s =
     andThen (context_check env s) (\<lambda>s.
       case map_of lay c of
         None \<Rightarrow> paste_loop env lay follow cs s
       | Some k \<Rightarrow>
           andThen (press env k s) (\<lambda>s.
             case map_of follow c of
               None \<Rightarrow> paste_loop env lay follow cs s
             | Some f \<Rightarrow> andThen (press env f s) (paste_loop env lay follow cs)))"

definition typeableKeys :: "layout \<Rightarrow> layout \<Rightarrow> rune list \<Rightarrow> int" where
  "typeableKeys lay follow cs =
     sum_list (map (\<lambda>c. if map_of lay c = None then 0 else if map_of follow c = None then 1 else 2) cs)"

text \<open>The answer, after the last release. \<open>reserved\<close> is whether the keyboard could be reserved.\<close>

definition Paste :: "env \<Rightarrow> bool \<Rightarrow> string \<Rightarrow> rune list \<Rightarrow> typing \<Rightarrow> typing_error option \<times> typing" where
  "Paste env reserved lang content s =
     (let lay = LangueSwitch charMap lang; follow = followMap lang in
      if int (length content) > maxPasteContentRunes then (Some ErrTooLong, s)
      else if typeableKeys lay follow content * defaultPasteDelay > maxPasteDuration then (Some ErrDuration, s)
      else if \<not> reserved then (Some ErrBusy, s)
      else case paste_loop env lay follow content s of
        (err, s) \<Rightarrow>
          (case (if err = None then context_check env s else (err, s)) of
             (err, s) \<Rightarrow> (err, snd (writeKeyboardReport env keyUp s))))"

section \<open>Key sequences\<close>

record SequenceReq =
  sq_sequence :: string
  sq_key :: string
  sq_delayMs :: int

record sequenceStep =
  st_report :: bytes
  st_hold :: duration
  st_pause :: duration

definition sysrqKeys :: "(string \<times> byte) list" where
  "sysrqKeys = [(''b'', 0x05), (''c'', 0x06), (''d'', 0x07), (''e'', 0x08), (''f'', 0x09), (''h'', 0x0b), (''i'', 0x0c),
     (''j'', 0x0d), (''k'', 0x0e), (''l'', 0x0f), (''m'', 0x10), (''n'', 0x11), (''o'', 0x12), (''p'', 0x13),
     (''q'', 0x14), (''r'', 0x15), (''s'', 0x16), (''t'', 0x17), (''u'', 0x18), (''v'', 0x19), (''w'', 0x1a),
     (''z'', 0x1d), (''0'', 0x27), (''1'', 0x1e), (''2'', 0x1f), (''3'', 0x20), (''4'', 0x21), (''5'', 0x22),
     (''6'', 0x23), (''7'', 0x24), (''8'', 0x25), (''9'', 0x26)]"

definition reisub :: "string list" where
  "reisub = [''r'', ''e'', ''i'', ''s'', ''u'', ''b'']"

abbreviation sequenceHold :: duration where "sequenceHold \<equiv> 100 * millisecond"
abbreviation defaultReisubDelay :: duration where "defaultReisubDelay \<equiv> 5 * second"
abbreviation minReisubDelay :: duration where "minReisubDelay \<equiv> second"
abbreviation maxReisubDelay :: duration where "maxReisubDelay \<equiv> 30 * second"

abbreviation hidModifierCtrlLeft :: byte where "hidModifierCtrlLeft \<equiv> 0x01"
abbreviation hidModifierAltLeft :: byte where "hidModifierAltLeft \<equiv> 0x04"
abbreviation hidKeyPrintScreen :: byte where "hidKeyPrintScreen \<equiv> 0x46"
abbreviation hidKeyDelete :: byte where "hidKeyDelete \<equiv> 0x4c"

definition keyboardReport :: "byte \<Rightarrow> byte list \<Rightarrow> bytes" where
  "keyboardReport modifiers keys = take 8 ([modifiers, 0] @ keys @ replicate 6 0)"

definition step :: "bytes \<Rightarrow> duration \<Rightarrow> duration \<Rightarrow> sequenceStep" where
  "step report hold pause = \<lparr>st_report = report, st_hold = hold, st_pause = pause\<rparr>"

definition sysrqSteps :: "byte \<Rightarrow> duration \<Rightarrow> sequenceStep list" where
  "sysrqSteps key pause =
     [step (keyboardReport hidModifierAltLeft []) sequenceHold 0,
      step (keyboardReport hidModifierAltLeft [hidKeyPrintScreen]) sequenceHold 0,
      step (keyboardReport hidModifierAltLeft [hidKeyPrintScreen, key]) sequenceHold 0,
      step (keyboardReport hidModifierAltLeft [hidKeyPrintScreen]) sequenceHold 0,
      step (keyboardReport 0 []) 0 pause]"

definition reisubDelay :: "int \<Rightarrow> duration option" where
  "reisubDelay ms =
     (if ms = 0 then Some defaultReisubDelay
      else let delay = wrap64 (ms * millisecond) in
        if delay < minReisubDelay \<or> delay > maxReisubDelay then None else Some delay)"

text \<open>A missing key of the Go map reads as zero.\<close>

definition sysrqCode :: "string \<Rightarrow> byte" where
  "sysrqCode key = (case map_of sysrqKeys key of None \<Rightarrow> 0 | Some c \<Rightarrow> c)"

definition reisubSteps :: "duration \<Rightarrow> sequenceStep list" where
  "reisubSteps delay =
     concat (map (\<lambda>i. sysrqSteps (sysrqCode (reisub ! i)) (if i = length reisub - 1 then 0 else delay))
       [0..<length reisub])"

definition buildSequence :: "SequenceReq \<Rightarrow> typing_error + sequenceStep list" where
  "buildSequence req =
     (if sq_sequence req = ''ctrl-alt-del'' then
        Inr [step (keyboardReport (hidModifierCtrlLeft OR hidModifierAltLeft) [hidKeyDelete]) sequenceHold 0,
             step (keyboardReport 0 []) 0 0]
      else if sq_sequence req = ''sysrq'' then
        (case map_of sysrqKeys (sq_key req) of
           None \<Rightarrow> Inl ErrUnknownKey
         | Some code \<Rightarrow> Inr (sysrqSteps code 0))
      else if sq_sequence req = ''reisub'' then
        (case reisubDelay (sq_delayMs req) of None \<Rightarrow> Inl ErrDelay | Some delay \<Rightarrow> Inr (reisubSteps delay))
      else Inl ErrUnknownSequence)"

definition sequenceDuration :: "sequenceStep list \<Rightarrow> duration" where
  "sequenceDuration steps = sum_list (map (\<lambda>t. st_hold t + st_pause t) steps)"

definition wait :: "env \<Rightarrow> duration \<Rightarrow> typing \<Rightarrow> typing_error option \<times> typing" where
  "wait env d s = (if d > 0 then context_check env s else (None, s))"

fun sequence_loop :: "env \<Rightarrow> sequenceStep list \<Rightarrow> typing \<Rightarrow> typing_error option \<times> typing" where
  "sequence_loop env [] s = (None, s)"
| "sequence_loop env (t # ts) s =
     andThen (context_check env s) (\<lambda>s.
       andThen (writeKeyboardReport env (st_report t) s) (\<lambda>s.
         andThen (wait env (st_hold t) s) (\<lambda>s.
           andThen (wait env (st_pause t) s) (sequence_loop env ts))))"

definition runSequence :: "env \<Rightarrow> sequenceStep list \<Rightarrow> typing \<Rightarrow> typing_error option \<times> typing" where
  "runSequence env steps s =
     (case sequence_loop env steps s of
        (err, s) \<Rightarrow>
          (case writeKeyboardReport env (keyboardReport 0 []) s of
             (releaseErr, s) \<Rightarrow> ((if err = None then releaseErr else err), s)))"

text \<open>One sequence at a time.\<close>

record sequenceRun =
  sr_running :: bool
  sr_sequence :: string
  sr_startedAt :: time
  sr_duration :: duration
  sr_lastResult :: "(string \<times> typing_error option) option"

definition begin_run :: "time \<Rightarrow> string \<Rightarrow> duration \<Rightarrow> sequenceRun \<Rightarrow> bool \<times> sequenceRun" where
  "begin_run now sequence duration r =
     (if sr_running r then (False, r)
      else (True, r\<lparr>sr_running := True, sr_sequence := sequence, sr_startedAt := now, sr_duration := duration\<rparr>))"

definition end_run :: "typing_error option \<Rightarrow> sequenceRun \<Rightarrow> sequenceRun" where
  "end_run err r = r\<lparr>sr_lastResult := Some (sr_sequence r, err), sr_running := False\<rparr>"

text \<open>Whether a sequence goes on although another session took input control: only REISUB.\<close>

definition owned_env :: "string \<Rightarrow> env \<Rightarrow> env" where
  "owned_env sequence env = (if sequence = ''reisub'' then (\<lambda>n. env n\<lparr>an_owns := True\<rparr>) else env)"

definition SendSequence :: "env \<Rightarrow> time \<Rightarrow> bool \<Rightarrow> SequenceReq \<Rightarrow> sequenceRun \<Rightarrow> typing \<Rightarrow>
    typing_error option \<times> sequenceRun \<times> typing" where
  "SendSequence env now reserved req r s =
     (case buildSequence req of
        Inl e \<Rightarrow> (Some e, r, s)
      | Inr steps \<Rightarrow>
          (case begin_run now (sq_sequence req) (sequenceDuration steps) r of
             (False, r) \<Rightarrow> (Some ErrBusy, r, s)
           | (True, r) \<Rightarrow>
               if \<not> reserved then (Some ErrBusy, end_run (Some ErrBusy) r, s)
               else (case runSequence (owned_env (sq_sequence req) env) steps s of
                       (err, s) \<Rightarrow> (err, end_run err r, s))))"

section \<open>Specification\<close>

text \<open>Without a press of its own, the request has left the host's keyboard as it was, or released it.\<close>

definition typing_ok :: "bytes \<Rightarrow> typing \<Rightarrow> bool" where
  "typing_ok h s \<longleftrightarrow> (\<not> ty_pressed s \<longrightarrow> ty_host s = h \<or> ty_host s = keyUp) \<and>
     (\<forall>(r, owns) \<in> set (ty_log s). owns \<or> r = keyUp)"


definition sendable :: "bytes \<Rightarrow> bool" where
  "sendable r \<longleftrightarrow> length r = 8 \<and> (isKeyboardRelease r \<longrightarrow> r = keyUp)"

text \<open>Every write succeeds and nobody interferes.\<close>

definition undisturbed :: "env \<Rightarrow> bool" where
  "undisturbed env \<longleftrightarrow> (\<forall>n. \<not> an_refused (env n) \<and> an_owns (env n) \<and> an_write (env n) = Written \<and> \<not> an_cancelled (env n))"

definition strokes_of :: "string \<Rightarrow> rune \<Rightarrow> bytes list" where
  "strokes_of lang c = (case keystrokes lang c of None \<Rightarrow> [] | Some ks \<Rightarrow> concat (map (\<lambda>k. [keyDown k, keyUp]) ks))"

definition typed :: "typing \<Rightarrow> bytes list" where
  "typed s = map fst (ty_log s)"

text \<open>What a sequence sends when all goes well, given whether a key is down: a release only after a press.\<close>

fun sent :: "bool \<Rightarrow> bytes list \<Rightarrow> bytes list" where
  "sent down [] = []"
| "sent down (r # rs) = (if isKeyboardRelease r \<and> \<not> down then sent False rs else r # sent (\<not> isKeyboardRelease r) rs)"

definition calm :: env where
  "calm = (\<lambda>_. \<lparr>an_refused = False, an_owns = True, an_write = Written, an_cancelled = False\<rparr>)"

definition at_rest :: typing where
  "at_rest = \<lparr>ty_host = keyUp, ty_pressed = False, ty_log = [], ty_n = 0\<rparr>"

section \<open>Lemmas\<close>

lemma andThen_simps [simp]: "andThen (None, s) f = f s" "andThen (Some e, s) f = (Some e, s)"
  by (simp_all add: andThen_def)


lemma context_check_ok [simp]: "typing_ok h (snd (context_check env s)) = typing_ok h s"
  by (simp add: context_check_def typing_ok_def)

lemma wait_ok [simp]: "typing_ok h (snd (wait env d s)) = typing_ok h s"
  by (simp add: wait_def)






lemma keyUp_sendable [simp]: "sendable keyUp" "isKeyboardRelease keyUp"
  by (simp_all add: sendable_def keyUp_def isKeyboardRelease_def)

lemma byte_nonzero:
  assumes "0 < i" and "i < 256"
  shows "(word_of_int i :: byte) \<noteq> 0"
proof
  assume "(word_of_int i :: byte) = 0"
  then have "uint (word_of_int i :: byte) = 0" by simp
  then have "take_bit 8 i = 0" by (simp add: uint_word_of_int_eq)
  then show False using assms by (simp add: take_bit_int_eq_self)
qed

lemma keyDown_press: "key_ok k \<Longrightarrow> length (keyDown k) = 8 \<and> \<not> isKeyboardRelease (keyDown k)"
  by (simp add: keyDown_def isKeyboardRelease_def key_ok_def byte_nonzero)





lemma write_undisturbed:
  assumes "undisturbed env" and "length r = 8"
  shows "writeKeyboardReport env r s =
     (None, if isKeyboardRelease r \<and> \<not> ty_pressed s then s\<lparr>ty_n := Suc (ty_n s)\<rparr>
            else s\<lparr>ty_n := Suc (ty_n s), ty_host := r, ty_log := ty_log s @ [(r, True)],
                   ty_pressed := \<not> isKeyboardRelease r\<rparr>)"
  using assms by (auto simp: undisturbed_def writeKeyboardReport_def WriteKeyboardReport_def Let_def)

lemma check_undisturbed: "undisturbed env \<Longrightarrow> context_check env s = (None, s\<lparr>ty_n := Suc (ty_n s)\<rparr>)"
  by (simp add: undisturbed_def context_check_def)

lemma press_undisturbed:
  assumes "undisturbed env" and "key_ok k"
  shows "\<exists>s'. press env k s = (None, s') \<and> typed s' = typed s @ [keyDown k, keyUp] \<and> \<not> ty_pressed s'"
  using assms by (simp add: press_def write_undisturbed check_undisturbed keyDown_press typed_def keyUp_def [THEN arg_cong [where f = length], simplified])

lemma paste_loop_undisturbed:
  assumes "undisturbed env" and "\<not> ty_pressed s"
  shows "\<exists>s'. paste_loop env (LangueSwitch charMap lang) (followMap lang) cs s = (None, s') \<and>
     typed s' = typed s @ concat (map (strokes_of lang) cs) \<and> \<not> ty_pressed s'"
  using assms(2)
proof (induction cs arbitrary: s)
  case (Cons c cs)
  let ?s = "s\<lparr>ty_n := Suc (ty_n s)\<rparr>"
  have s: "\<not> ty_pressed ?s" "typed ?s = typed s" using Cons.prems by (simp_all add: typed_def)
  show ?case
  proof (cases "map_of (LangueSwitch charMap lang) c")
    case None
    then show ?thesis using Cons.IH [OF s(1)] s(2) assms(1)
      by (simp add: check_undisturbed strokes_of_def keystrokes_def)
  next
    case k: (Some k)
    obtain s1 where s1: "press env k ?s = (None, s1)" "typed s1 = typed s @ [keyDown k, keyUp]" "\<not> ty_pressed s1"
      using press_undisturbed [OF assms(1) layout_key_ok [OF k], of ?s] s(2) by auto
    show ?thesis
    proof (cases "map_of (followMap lang) c")
      case None
      then show ?thesis using Cons.IH [OF s1(3)] s1 k assms(1)
        by (simp add: check_undisturbed strokes_of_def keystrokes_def)
    next
      case f: (Some f)
      obtain s2 where s2: "press env f s1 = (None, s2)" "typed s2 = typed s1 @ [keyDown f, keyUp]" "\<not> ty_pressed s2"
        using press_undisturbed [OF assms(1) follow_key_ok [OF f], of s1] by auto
      then show ?thesis using Cons.IH [OF s2(3)] s1 k f assms(1)
        by (simp add: check_undisturbed strokes_of_def keystrokes_def)
    qed
  qed
qed simp

lemma sequence_loop_undisturbed:
  assumes "undisturbed env" and "list_all (\<lambda>t. length (st_report t) = 8) ts"
  shows "\<exists>s'. sequence_loop env ts s = (None, s') \<and> typed s' = typed s @ sent (ty_pressed s) (map st_report ts) \<and>
     ty_pressed s' = (if ts = [] then ty_pressed s else \<not> isKeyboardRelease (st_report (last ts)))"
  using assms(2)
proof (induction ts arbitrary: s)
  case (Cons t ts)
  let ?w = "snd (writeKeyboardReport env (st_report t) (s\<lparr>ty_n := Suc (ty_n s)\<rparr>))"
  have waits: "wait env d s = (None, if d > 0 then s\<lparr>ty_n := Suc (ty_n s)\<rparr> else s)" for d s
    using assms(1) by (simp add: wait_def check_undisturbed)
  have "length (st_report t) = 8" and ts: "list_all (\<lambda>t. length (st_report t) = 8) ts" using Cons.prems by simp_all
  then obtain s1 where s1: "sequence_loop env (t # ts) s = sequence_loop env ts s1"
      "typed s1 = typed s @ sent (ty_pressed s) [st_report t]"
      "ty_pressed s1 = (\<not> isKeyboardRelease (st_report t))"
    using assms(1) by (auto simp: check_undisturbed write_undisturbed waits typed_def)
  have all: "sent (ty_pressed s) (map st_report (t # ts)) =
      sent (ty_pressed s) [st_report t] @ sent (\<not> isKeyboardRelease (st_report t)) (map st_report ts)"
    by auto
  obtain s' where "sequence_loop env ts s1 = (None, s')"
      "typed s' = typed s1 @ sent (ty_pressed s1) (map st_report ts)"
      "ty_pressed s' = (if ts = [] then ty_pressed s1 else \<not> isKeyboardRelease (st_report (last ts)))"
    using Cons.IH [OF ts, of s1] by blast
  then show ?case unfolding all s1(1) using s1(2,3) by (intro exI [of _ s']) (simp split: if_splits)
qed simp

lemma length_keyUp [simp]: "length keyUp = 8"
  by (simp add: keyUp_def)

lemma keyboardReport_release: "keyboardReport 0 [] = keyUp"
  by (simp add: keyboardReport_def keyUp_def eval_nat_numeral)

lemma keyboardReport_press:
  assumes "m \<noteq> 0"
  shows "length (keyboardReport m ks) = 8 \<and> \<not> isKeyboardRelease (keyboardReport m ks)"
  using assms by (simp add: keyboardReport_def isKeyboardRelease_def)

lemma sysrq_reports:
  "list_all (\<lambda>t. sendable (st_report t)) (sysrqSteps key pause)"
  "sent down (map st_report (sysrqSteps key pause) @ rs) = map st_report (sysrqSteps key pause) @ sent False rs"
  "st_report (last (sysrqSteps key pause)) = keyUp"
  "sequenceDuration (sysrqSteps key pause) = 4 * sequenceHold + pause"
  by (simp_all add: sysrqSteps_def step_def sendable_def keyboardReport_press keyboardReport_release sequenceDuration_def)

lemma reisub_steps:
  "reisubSteps d = sysrqSteps 0x15 d @ sysrqSteps 0x08 d @ sysrqSteps 0x0c d @ sysrqSteps 0x16 d @ sysrqSteps 0x18 d @
     sysrqSteps 0x05 0"
  by (simp add: reisubSteps_def reisub_def sysrqCode_def sysrqKeys_def upt_rec)

lemma sequenceDuration_append: "sequenceDuration (xs @ ys) = sequenceDuration xs + sequenceDuration ys"
  by (simp add: sequenceDuration_def)

text \<open>The three kinds of sequence.\<close>

lemma build_cases:
  assumes "buildSequence req = Inr steps"
  obtains (cad) "sq_sequence req = ''ctrl-alt-del''"
      "steps = [step (keyboardReport (hidModifierCtrlLeft OR hidModifierAltLeft) [hidKeyDelete]) sequenceHold 0,
         step keyUp 0 0]"
  | (sysrq) code where "sq_sequence req = ''sysrq''" "steps = sysrqSteps code 0"
  | (reisub) delay where "sq_sequence req = ''reisub''" "steps = reisubSteps delay"
      "minReisubDelay \<le> delay" "delay \<le> maxReisubDelay"
  using assms that
  by (auto simp: buildSequence_def reisubDelay_def keyboardReport_release Let_def split: if_splits option.splits)

lemma build_facts:
  assumes "buildSequence req = Inr steps"
  shows "list_all (\<lambda>t. sendable (st_report t)) steps \<and> sent False (map st_report steps) = map st_report steps \<and>
    st_report (last steps) = keyUp \<and> 0 < sequenceDuration steps \<and> sequenceDuration steps \<le> 153 * second"
  using assms
proof (cases rule: build_cases)
  case cad
  then show ?thesis
    by (simp add: step_def sendable_def keyboardReport_press sequenceDuration_def)
next
  case (sysrq code)
  then show ?thesis using sysrq_reports(1,3) [of code 0] sysrq_reports(2) [of False code 0 "[]"] sysrq_reports(4) [of code 0] by simp
next
  case (reisub delay)
  have "last (reisubSteps delay) = last (sysrqSteps 0x05 0)" by (simp add: reisub_steps sysrqSteps_def)
  moreover have "sequenceDuration (reisubSteps delay) = 24 * sequenceHold + 5 * delay"
    by (simp add: reisub_steps sequenceDuration_append sysrq_reports(4))
  ultimately show ?thesis using reisub(2,3,4)
    by (simp add: reisub_steps sysrq_reports(1,2,3) sysrq_reports(2) [of _ _ _ "[]", simplified])
qed

section \<open>Properties\<close>

text \<open>
  What is pasted is what is typed. A paste that is accepted and not disturbed sends exactly the
  keystrokes of its characters in the chosen layout, in order, each key released before the next one is
  pressed, skips the characters the layout does not have, and leaves no key down.
\<close>

theorem paste_types_content:
  assumes "undisturbed env" and "\<not> ty_pressed s" and "int (length content) \<le> maxPasteContentRunes"
    and "typeableKeys (LangueSwitch charMap lang) (followMap lang) content * defaultPasteDelay \<le> maxPasteDuration"
  shows "\<exists>s'. Paste env True lang content s = (None, s') \<and>
    typed s' = typed s @ concat (map (strokes_of lang) content) \<and> \<not> ty_pressed s'"
proof -
  obtain s1 where s1: "paste_loop env (LangueSwitch charMap lang) (followMap lang) content s = (None, s1)"
      "typed s1 = typed s @ concat (map (strokes_of lang) content)" "\<not> ty_pressed s1"
    using paste_loop_undisturbed [OF assms(1,2)] by blast
  then show ?thesis
    using assms(1,3,4)
    by (simp add: Paste_def Let_def check_undisturbed write_undisturbed typed_def)
qed

theorem paste_types_content_witness:
  "\<exists>s'. Paste calm True ''de'' [122, 65] at_rest = (None, s') \<and>
     typed s' = concat (map (strokes_of ''de'') [122, 65])"
proof -
  have "undisturbed calm" and "\<not> ty_pressed at_rest" and "typed at_rest = []"
    by (simp_all add: undisturbed_def calm_def at_rest_def typed_def)
  moreover have "typeableKeys (LangueSwitch charMap ''de'') (followMap ''de'') [122, 65] * defaultPasteDelay \<le> maxPasteDuration"
    by (simp add: typeableKeys_def followMap_def)
  ultimately show ?thesis using paste_types_content [where content = "[122, 65]" and lang = "''de''"] by fastforce
qed



text \<open>
  Every sequence that can be built takes more than no time and at most 153 seconds, ends with all keys up, and
  undisturbed is sent report by report; REISUB sends R, E, I, S, U and B, in this order.
\<close>

theorem sequence_well_formed:
  assumes "buildSequence req = Inr steps" and "undisturbed env" and "\<not> ty_pressed s"
  shows "st_report (last steps) = keyUp \<and> 0 < sequenceDuration steps \<and> sequenceDuration steps \<le> 153 * second \<and>
    fst (runSequence env steps s) = None \<and> typed (snd (runSequence env steps s)) = typed s @ map st_report steps \<and>
    (sq_sequence req = ''reisub'' \<longrightarrow>
       map (\<lambda>i. st_report (steps ! (5 * i + 2)) ! 3) [0, 1, 2, 3, 4, 5] = [0x15, 0x08, 0x0c, 0x16, 0x18, 0x05])"
proof -
  note f = build_facts [OF assms(1)]
  then have "list_all (\<lambda>t. length (st_report t) = 8) steps" by (auto simp: list_all_iff sendable_def)
  then obtain s1 where s1: "sequence_loop env steps s = (None, s1)" "typed s1 = typed s @ map st_report steps" "\<not> ty_pressed s1"
    using sequence_loop_undisturbed [OF assms(2), of steps s] f assms(3) by (auto split: if_splits)
  have "fst (runSequence env steps s) = None" "typed (snd (runSequence env steps s)) = typed s @ map st_report steps"
    using s1 assms(2) by (simp_all add: runSequence_def keyboardReport_release write_undisturbed typed_def)
  moreover have "map (\<lambda>i. st_report (steps ! (5 * i + 2)) ! 3) [0, 1, 2, 3, 4, 5] = [0x15, 0x08, 0x0c, 0x16, 0x18, 0x05]"
    if "sq_sequence req = ''reisub''"
    using assms(1)
  proof (cases rule: build_cases)
    case (reisub delay)
    then show ?thesis by (simp add: reisub_steps sysrqSteps_def step_def keyboardReport_def)
  qed (use that in simp_all)
  ultimately show ?thesis using f by blast
qed

theorem sequence_well_formed_witness:
  "\<exists>steps. buildSequence \<lparr>sq_sequence = ''reisub'', sq_key = [], sq_delayMs = 2000\<rparr> = Inr steps \<and>
     fst (runSequence calm steps at_rest) = None \<and> sequenceDuration steps \<le> 153 * second"
proof -
  have b: "buildSequence \<lparr>sq_sequence = ''reisub'', sq_key = [], sq_delayMs = 2000\<rparr> = Inr (reisubSteps (2 * second))"
    by (simp add: buildSequence_def reisubDelay_def wrap64_def)
  have "undisturbed calm" and "\<not> ty_pressed at_rest" by (simp_all add: undisturbed_def calm_def at_rest_def)
  from sequence_well_formed [OF b this] b show ?thesis by blast
qed

end
