(* ===== verification/Session_Lock.thy ===== *)
theory Session_Lock
  imports Prelude
begin

text \<open>
  The lock that lets one PicoClaw session control the host, \<open>service/picoclaw/session_lock.go\<close>. Every
  method takes \<open>l.mu\<close>, so each is one function of the lock and the time it reads.
\<close>

section \<open>The lock\<close>

abbreviation sessionLockDuration :: duration where "sessionLockDuration \<equiv> 30 * minute"

record SessionLock =
  ownerSessionID :: string
  acquiredAt :: time
  expiresAt :: time

datatype lock_error = ErrSessionIDInvalid | ErrLockHeld string

definition unlocked :: SessionLock where
  "unlocked = \<lparr>ownerSessionID = [], acquiredAt = 0, expiresAt = 0\<rparr>"

definition clearExpiredLocked :: "time \<Rightarrow> SessionLock \<Rightarrow> SessionLock" where
  "clearExpiredLocked now l =
     (if ownerSessionID l = [] then l
      else if is_zero (expiresAt l) \<or> now < expiresAt l then l
      else unlocked)"

definition acquire :: "time \<Rightarrow> string \<Rightarrow> SessionLock \<Rightarrow> (lock_error + bool) \<times> SessionLock" where
  "acquire now i l =
     (if i = [] then (Inl ErrSessionIDInvalid, l)
      else let l = clearExpiredLocked now l in
        if ownerSessionID l = [] \<or> ownerSessionID l = i
        then (Inr (ownerSessionID l = []),
              l\<lparr>ownerSessionID := i, acquiredAt := (if is_zero (acquiredAt l) then now else acquiredAt l),
                expiresAt := now + sessionLockDuration\<rparr>)
        else (Inl (ErrLockHeld (ownerSessionID l)), l))"

definition Ensure :: "time \<Rightarrow> string \<Rightarrow> SessionLock \<Rightarrow> lock_error option \<times> SessionLock" where
  "Ensure now i l = (case acquire now i l of (Inl e, l) \<Rightarrow> (Some e, l) | (Inr _, l) \<Rightarrow> (None, l))"

definition Renew :: "time \<Rightarrow> string \<Rightarrow> SessionLock \<Rightarrow> bool \<times> SessionLock" where
  "Renew now i l =
     (if i = [] \<or> ownerSessionID l \<noteq> i then (False, l)
      else (True, l\<lparr>expiresAt := now + sessionLockDuration\<rparr>))"

definition Release :: "string \<Rightarrow> SessionLock \<Rightarrow> bool \<times> SessionLock" where
  "Release i l =
     (if ownerSessionID l = [] then (True, l)
      else if i \<noteq> [] \<and> ownerSessionID l \<noteq> i then (False, l)
      else (True, unlocked))"

definition ReleaseOwned :: "time \<Rightarrow> string \<Rightarrow> SessionLock \<Rightarrow> bool \<times> SessionLock" where
  "ReleaseOwned now i l =
     (if i = [] then (False, l)
      else let l = clearExpiredLocked now l in
        if ownerSessionID l \<noteq> i then (False, l) else (True, unlocked))"

definition Owner :: "time \<Rightarrow> SessionLock \<Rightarrow> string \<times> SessionLock" where
  "Owner now l = (let l = clearExpiredLocked now l in (ownerSessionID l, l))"

definition BlocksManualInput :: "time \<Rightarrow> SessionLock \<Rightarrow> bool \<times> SessionLock" where
  "BlocksManualInput now l = (let l = clearExpiredLocked now l in (ownerSessionID l \<noteq> [], l))"

section \<open>The specification: a lease with an end\<close>






text \<open>Calls of other sessions; the forced release with an empty session is not one of them.\<close>

datatype lock_call = CallEnsure string | CallRenew string | CallRelease string | CallReleaseOwned string
  | CallOwner | CallBlocks

fun caller :: "lock_call \<Rightarrow> string option" where
  "caller (CallEnsure i) = Some i"
| "caller (CallRenew i) = Some i"
| "caller (CallRelease i) = Some i"
| "caller (CallReleaseOwned i) = Some i"
| "caller CallOwner = None"
| "caller CallBlocks = None"

fun call :: "time \<Rightarrow> lock_call \<Rightarrow> SessionLock \<Rightarrow> SessionLock" where
  "call now (CallEnsure i) l = snd (Ensure now i l)"
| "call now (CallRenew i) l = snd (Renew now i l)"
| "call now (CallRelease i) l = snd (Release i l)"
| "call now (CallReleaseOwned i) l = snd (ReleaseOwned now i l)"
| "call now CallOwner l = snd (Owner now l)"
| "call now CallBlocks l = snd (BlocksManualInput now l)"

definition foreign :: "string \<Rightarrow> lock_call \<Rightarrow> bool" where
  "foreign i c \<longleftrightarrow> caller c \<noteq> Some i \<and> c \<noteq> CallRelease []"

definition calls :: "(time \<times> lock_call) list \<Rightarrow> SessionLock \<Rightarrow> SessionLock" where
  "calls cs l = fold (\<lambda>(now, c). call now c) cs l"

section \<open>Lemmas\<close>


lemma clearExpired_held: "now < expiresAt l \<Longrightarrow> clearExpiredLocked now l = l"
  by (simp add: clearExpiredLocked_def)



lemma foreign_call:
  assumes "ownerSessionID l = i" and "i \<noteq> []" and "now < expiresAt l" and "foreign i c"
  shows "call now c l = l"
  using assms clearExpired_held [OF assms(3)]
  by (cases c) (auto simp: foreign_def Ensure_def acquire_def Renew_def Release_def ReleaseOwned_def Owner_def
      BlocksManualInput_def Let_def)

lemma foreign_calls:
  assumes "ownerSessionID l = i" and "i \<noteq> []" and "\<forall>(now, c) \<in> set cs. now < expiresAt l \<and> foreign i c"
  shows "calls cs l = l"
  using assms(3) by (induction cs) (auto simp: calls_def foreign_call [OF assms(1,2)])

section \<open>Properties\<close>



text \<open>
  A session that has acquired the lock keeps it for 30 minutes against all others: whatever other
  sessions call meanwhile, short of the forced release, the lock is unchanged, and each of them that
  asks for it is told who holds it.
\<close>

theorem lock_is_exclusive:
  assumes "acquire t i l = (Inr b, l')" and "\<forall>(now, c) \<in> set cs. now < t + sessionLockDuration \<and> foreign i c"
    and "now < t + sessionLockDuration" and "j \<noteq> i" and "j \<noteq> []"
  shows "calls cs l' = l' \<and> ownerSessionID l' = i \<and> Ensure now j (calls cs l') = (Some (ErrLockHeld i), l')"
proof -
  have l': "ownerSessionID l' = i" "expiresAt l' = t + sessionLockDuration" "i \<noteq> []"
    using assms(1) by (auto simp: acquire_def Let_def split: if_splits)
  moreover have "calls cs l' = l'" using foreign_calls [OF l'(1) l'(3), of cs] assms(2) l'(2) by auto
  ultimately show ?thesis
    using assms(3-5) by (simp add: Ensure_def acquire_def clearExpired_held Let_def)
qed

end
