(* ===== verification/Input_Ownership.thy ===== *)
theory Input_Ownership
  imports Bounded_Table
begin

text \<open>
  Which browser tab, or add-on, may send manual input: the websocket manager of \<open>service/ws/manager.go\<close>.
  Ownership changes are serialised by \<open>controlMutex\<close>; between the two critical sections of a take-over
  from an add-on, requests still ask \<open>AllowsInputLease\<close> and the add-on may still release. Sockets and
  clients are numbered; \<open>now\<close> is the clock of \<open>RemoveClient\<close>.
\<close>

section \<open>The manager\<close>

record wsClient =
  c_viewOnly :: bool
  c_controlEnabled :: bool
  c_inputLease :: string
  c_lastMessage :: time
  c_revoked :: nat
  c_told :: "(bool \<times> string) list"

record Manager =
  m_clients :: "(nat \<times> nat) list"
  m_controller :: "nat option"
  m_externalLease :: string
  m_externalRelease :: bool
  m_externalCleanup :: bool
  m_client :: "nat \<Rightarrow> wsClient"



text \<open>The control status goes to the page with the lease only when control is enabled.\<close>

definition setControlEnabled :: "nat \<Rightarrow> bool \<Rightarrow> Manager \<Rightarrow> Manager" where
  "setControlEnabled c enabled m =
     m\<lparr>m_client := (m_client m)(c := (m_client m c)\<lparr>c_controlEnabled := enabled,
        c_told := c_told (m_client m c) @ [(enabled, if enabled then c_inputLease (m_client m c) else [])]\<rparr>)\<rparr>"

definition revokeInput :: "nat \<Rightarrow> Manager \<Rightarrow> Manager" where
  "revokeInput c m = m\<lparr>m_client := (m_client m)(c := (m_client m c)\<lparr>c_revoked := Suc (c_revoked (m_client m c))\<rparr>)\<rparr>"





definition registered :: "nat \<Rightarrow> Manager \<Rightarrow> bool" where
  "registered c m \<longleftrightarrow> c \<in> snd ` set (m_clients m)"

definition viewOnly :: "nat \<Rightarrow> bool \<Rightarrow> Manager \<Rightarrow> Manager" where
  "viewOnly c b m = m\<lparr>m_client := (m_client m)(c := (m_client m c)\<lparr>c_viewOnly := b\<rparr>)\<rparr>"








section \<open>Sessions of many tabs\<close>




section \<open>The invariant\<close>

text \<open>Every page that was told that it has control was told its own lease.\<close>

definition told_ok :: "wsClient \<Rightarrow> bool" where
  "told_ok c \<longleftrightarrow> (\<forall>(b, l) \<in> set (c_told c). (b \<longrightarrow> l = c_inputLease c) \<and> (\<not> b \<longrightarrow> l = []))"


section \<open>Held input\<close>

text \<open>
  \<open>hold_lease.go\<close>: a page that opted in must send a keepalive while it holds a key or a button; without
  one, a timer releases everything. Only the timer of the current generation acts. The three flags are the
  keyboard, the relative and the absolute mouse.
\<close>

abbreviation holdReleaseTimeout :: duration where "holdReleaseTimeout \<equiv> 300 * millisecond"

record holdLease =
  h_enabled :: bool
  h_closed :: bool
  h_held :: "bool list"
  h_generation :: "64 word"
  h_timer :: "(64 word \<times> time) option"

definition new_hold :: holdLease where
  "new_hold = \<lparr>h_enabled = False, h_closed = False, h_held = [False, False, False], h_generation = 0, h_timer = None\<rparr>"

definition armHeldInputLocked :: "time \<Rightarrow> holdLease \<Rightarrow> holdLease" where
  "armHeldInputLocked now h =
     (let h = h\<lparr>h_generation := h_generation h + 1, h_timer := None\<rparr> in
      if h_closed h \<or> \<not> h_enabled h \<or> h_held h = [False, False, False] then h
      else h\<lparr>h_timer := Some (h_generation h, now + holdReleaseTimeout)\<rparr>)"

definition keepHeldInputAlive :: "time \<Rightarrow> holdLease \<Rightarrow> holdLease" where
  "keepHeldInputAlive now h = armHeldInputLocked now (h\<lparr>h_enabled := True\<rparr>)"

definition noteHeldInputLocked :: "time \<Rightarrow> nat \<Rightarrow> bool \<Rightarrow> holdLease \<Rightarrow> holdLease" where
  "noteHeldInputLocked now kind held h =
     (if kind \<ge> length (h_held h) then h else armHeldInputLocked now (h\<lparr>h_held := (h_held h)[kind := held]\<rparr>))"

text \<open>The first result is whether the hardware state is released; that needs ownership.\<close>

definition expireHeldInput :: "time \<Rightarrow> 64 word \<Rightarrow> bool \<Rightarrow> holdLease \<Rightarrow> bool \<times> holdLease" where
  "expireHeldInput now generation canControl h =
     (if h_closed h \<or> generation \<noteq> h_generation h \<or> h_held h = [False, False, False] then (False, h)
      else (canControl, armHeldInputLocked now (h\<lparr>h_held := [False, False, False]\<rparr>)))"

definition stopHeldInputWatch :: "time \<Rightarrow> holdLease \<Rightarrow> holdLease" where
  "stopHeldInputWatch now h = armHeldInputLocked now (h\<lparr>h_closed := True, h_held := [False, False, False]\<rparr>)"

inductive hold_step :: "holdLease \<Rightarrow> holdLease \<Rightarrow> bool" where
  keepalive: "hold_step h (keepHeldInputAlive now h)"
| records: "hold_step h (noteHeldInputLocked now kind held h)"
| expires: "hold_step h (snd (expireHeldInput now g b h))"
| stops: "hold_step h (stopHeldInputWatch now h)"

text \<open>The timer of the current generation runs exactly while an opted-in page holds something.\<close>

definition hold_ok :: "holdLease \<Rightarrow> bool" where
  "hold_ok h \<longleftrightarrow> length (h_held h) = 3 \<and>
     (h_timer h \<noteq> None \<longleftrightarrow> \<not> h_closed h \<and> h_enabled h \<and> h_held h \<noteq> [False, False, False]) \<and>
     (\<forall>g t. h_timer h = Some (g, t) \<longrightarrow> g = h_generation h)"


section \<open>The operations keep the invariant\<close>

lemma set_enabled [simp]:
  "m_clients (setControlEnabled c b m) = m_clients m" "m_controller (setControlEnabled c b m) = m_controller m"
  "m_externalLease (setControlEnabled c b m) = m_externalLease m"
  "m_externalRelease (setControlEnabled c b m) = m_externalRelease m"
  "m_externalCleanup (setControlEnabled c b m) = m_externalCleanup m"
  "registered d (setControlEnabled c b m) = registered d m"
  "c_controlEnabled (m_client (setControlEnabled c b m) d) = (if d = c then b else c_controlEnabled (m_client m d))"
  "c_inputLease (m_client (setControlEnabled c b m) d) = c_inputLease (m_client m d)"
  by (simp_all add: setControlEnabled_def registered_def)

lemma revoke_simps [simp]:
  "m_clients (revokeInput c m) = m_clients m" "m_controller (revokeInput c m) = m_controller m"
  "m_externalLease (revokeInput c m) = m_externalLease m"
  "m_externalRelease (revokeInput c m) = m_externalRelease m"
  "m_externalCleanup (revokeInput c m) = m_externalCleanup m"
  "registered d (revokeInput c m) = registered d m"
  "c_controlEnabled (m_client (revokeInput c m) d) = c_controlEnabled (m_client m d)"
  "told_ok (m_client (revokeInput c m) d) = told_ok (m_client m d)"
  by (simp_all add: revokeInput_def registered_def told_ok_def)

lemma view_simps [simp]:
  "m_clients (viewOnly c b m) = m_clients m" "m_controller (viewOnly c b m) = m_controller m"
  "m_externalLease (viewOnly c b m) = m_externalLease m"
  "m_externalRelease (viewOnly c b m) = m_externalRelease m"
  "m_externalCleanup (viewOnly c b m) = m_externalCleanup m"
  "registered d (viewOnly c b m) = registered d m"
  "c_controlEnabled (m_client (viewOnly c b m) d) = c_controlEnabled (m_client m d)"
  "told_ok (m_client (viewOnly c b m) d) = told_ok (m_client m d)"
  by (simp_all add: viewOnly_def registered_def told_ok_def)

lemma told_enabled [simp]:
  "told_ok (m_client m d) \<Longrightarrow> told_ok (m_client (setControlEnabled c b m) d)"
  by (auto simp: setControlEnabled_def told_ok_def)

lemma registered_upd [simp]:
  "registered d (m\<lparr>m_controller := x\<rparr>) = registered d m" "registered d (m\<lparr>m_externalCleanup := y\<rparr>) = registered d m"
  "registered d (m\<lparr>m_externalLease := z, m_externalRelease := w\<rparr>) = registered d m"
  "registered d (m\<lparr>m_externalLease := z, m_externalRelease := w, m_externalCleanup := y\<rparr>) = registered d m"
  by (simp_all add: registered_def)











lemma arm_ok: "length (h_held h) = 3 \<Longrightarrow> hold_ok (armHeldInputLocked now h)"
  by (auto simp: hold_ok_def armHeldInputLocked_def Let_def)

lemma hold_ok_three: "hold_ok h \<Longrightarrow> length (h_held h) = 3"
  by (simp add: hold_ok_def)

lemma hold_step_ok: "hold_step h h' \<Longrightarrow> hold_ok h \<Longrightarrow> hold_ok h'"
  by (induction rule: hold_step.induct)
     (auto simp: noteHeldInputLocked_def expireHeldInput_def keepHeldInputAlive_def stopHeldInputWatch_def
        hold_ok_three intro!: arm_ok)

interpretation held: invariant_system "\<lambda>h. h = new_hold" hold_step hold_ok
proof
  fix h show "h = new_hold \<Longrightarrow> hold_ok h" by (simp add: new_hold_def hold_ok_def)
qed (rule hold_step_ok)

section \<open>Properties\<close>



text \<open>
  A page that opted in and holds a key or a button always has the timer of its current generation
  running; when that fires and the page still has control, everything is released and nothing counts as
  held. A timer of an earlier generation does nothing.
\<close>

theorem held_input_expires:
  assumes "reachable (\<lambda>h. h = new_hold) hold_step h"
  shows "(h_enabled h \<and> \<not> h_closed h \<and> h_held h \<noteq> [False, False, False] \<longrightarrow>
      (\<exists>t. h_timer h = Some (h_generation h, t)) \<and>
      fst (expireHeldInput now (h_generation h) canControl h) = canControl \<and>
      h_held (snd (expireHeldInput now (h_generation h) canControl h)) = [False, False, False]) \<and>
    (g \<noteq> h_generation h \<longrightarrow> expireHeldInput now g canControl h = (False, h))"
proof -
  have ok: "hold_ok h" using assms by (rule held.reachable_inv)
  show ?thesis
    using ok by (cases "h_timer h") (auto simp: hold_ok_def expireHeldInput_def armHeldInputLocked_def Let_def)
qed

theorem held_input_expires_witness:
  "fst (expireHeldInput 9 2 True (noteHeldInputLocked 6 0 True (keepHeldInputAlive 5 new_hold)))"
proof -
  have "reachable (\<lambda>h. h = new_hold) hold_step new_hold" by (rule reachable.start) simp
  then have "reachable (\<lambda>h. h = new_hold) hold_step (keepHeldInputAlive 5 new_hold)"
    by (rule reachable.more) (rule hold_step.keepalive)
  then have "reachable (\<lambda>h. h = new_hold) hold_step (noteHeldInputLocked 6 0 True (keepHeldInputAlive 5 new_hold))"
    by (rule reachable.more) (rule hold_step.records)
  from held_input_expires [OF this, of 9 True] show ?thesis
    by (simp add: noteHeldInputLocked_def keepHeldInputAlive_def armHeldInputLocked_def new_hold_def Let_def)
qed

end
