(* ===== verification/Recovery_Policy.thy ===== *)
theory Recovery_Policy
  imports Go_Strings Account_Store "HOL-Library.Char_ord" "HOL-Library.List_Lexorder"
begin

text \<open>
  What a settings archive may contain and what a recovery may touch: \<open>recovery/policy.go\<close>, the checks of
  \<open>recovery/engine.go\<close> and the encrypted archive of \<open>recovery/archive.go\<close>. Contents of files are byte strings.
  YAML, JSON and the cipher are arguments: \<open>codecs\<close> and \<open>cipher\<close>.
\<close>

section \<open>Files, archives and plans\<close>

abbreviation MaxArchive :: nat where "MaxArchive \<equiv> 4194304"
abbreviation MaxData :: nat where "MaxData \<equiv> 2097152"
abbreviation MaxFile :: nat where "MaxFile \<equiv> 524288"
abbreviation MaxFiles :: nat where "MaxFiles \<equiv> 1024"

record recovery_file =
  f_path :: string
  f_data :: string
  f_mode :: "32 word"

record Archive =
  a_format :: int
  a_version :: string
  a_board :: string
  a_created :: time
  a_files :: "recovery_file list"
  a_packages :: "string list"
  a_rootHash :: string

record Options =
  op_action :: string
  op_mode :: string
  op_keepUsers :: bool
  op_keepApps :: bool

record Change =
  ch_path :: string
  ch_before :: "recovery_file option"
  ch_after :: "recovery_file option"

record Plan =
  pl_rollingBack :: bool
  pl_started :: bool
  pl_options :: Options
  pl_changes :: "Change list"
  pl_removePackages :: "string list"
  pl_world :: string

datatype recovery_error = ErrAction | ErrArchiveRequired | ErrFormat | ErrTooLarge | ErrRootHash | ErrEntry string
  | ErrAccounts | ErrServerConfig | ErrPackages | ErrIncompatible | ErrRestoreMode | ErrBoard | ErrIO | ErrYaml
  | PanicNilMap | ErrNoShadow | ErrNoRoot | ErrNoWorld | ErrWorldEntry | ErrNoRelease | ErrJournal | ErrManyChanges
  | ErrDestination | ErrFile | ErrDataSize | ErrPackageReset | ErrNoInventory | ErrPending | ErrSettingsChanged
  | ErrWorldChanged | ErrJournalSize | ErrRollback | ErrPassword | ErrNotArchive | ErrDamaged | ErrManifest

text \<open>\<open>YamlNil\<close> is a document without a mapping, which leaves Go's map nil.\<close>

datatype yaml_out = YamlErr | YamlNil | YamlMap string

record codecs =
  yaml_ports :: "string \<Rightarrow> (int \<times> int) option"
  yaml_secured :: "string \<Rightarrow> yaml_out"
  json_accounts :: "string \<Rightarrow> database option"
  json_plan_size :: "Plan \<Rightarrow> nat"
  plan_token :: "Plan \<Rightarrow> string"

section \<open>Destinations\<close>

definition settings :: "string list" where
  "settings =
    [''etc/kvm/frame_detect'', ''etc/kvm/encoder_codec'', ''etc/kvm/input-region.json'', ''etc/kvm/leader-key'',
     ''etc/kvm/mouse-jiggler'', ''etc/kvm/oled_sleep'', ''etc/kvm/oled_layout'', ''etc/kvm/memory.conf'', ''etc/kvm/GOMEMLIMIT'',
     ''etc/kvm/web-title'', ''etc/kvm/update-check.disabled'', ''etc/kvm/cpufreq'', ''etc/kvm/cpufreq.boot'',
     ''etc/kvm/monitor_resolution'', ''etc/kvm/monitor_portrait'',
     ''etc/kvm/monitor_portrait_resolution'', ''etc/kvm/monitor_edid_sha256'',
     ''etc/kvm/shortcuts.json'', ''etc/kvm/server.yaml'', ''etc/kvm/ssh_stop'', ''etc/kvm/mdns_disabled'',
     ''etc/kvm/hevc_vi_direct'', ''etc/kvm/hdmi_disable'', ''etc/kvm/hdmi_idle_timeout'', ''etc/kvm/atx'', ''etc/kvm/screen-text-off'',
     ''etc/kvm/mcp.json'', ''etc/kvm/ai-control.mode'', ''etc/kvm/autostart.list'',
     ''etc/kvm/wifi.ssid'', ''etc/kvm/wifi.pass'', ''etc/kvm/wifi.disabled'', ''etc/kvm/wifi.band_preference'',
     ''etc/kvm/usb-before-rustdesk.json'',
     ''etc/kvm/picoclaw-runtime.json'', ''etc/kvm/pwd'',
     ''kvmapp/kvm/fps'', ''kvmapp/kvm/qlty'', ''kvmapp/kvm/res'', ''kvmapp/kvm/type'',
     ''kvmapp/kvm/transport'', ''kvmapp/kvm/mjpeg_chroma'', ''kvmapp/kvm/ap.pass'',
     ''boot/hostname.prefix'', ''boot/eth.mac'', ''boot/eth.disabled'', ''boot/eth.nodhcp'', ''boot/eth.vlan'', ''boot/hostname'',
     ''boot/wifi.ssid'', ''boot/wifi.pass'', ''boot/wifi.disabled'', ''boot/resolv.conf'',
     ''boot/resolv.conf.manual.bak'', ''boot/sshd_config'',
     ''etc/kvm/cron/crontabs/root'', ''etc/kvm/cache/wol'', ''etc/hostname'', ''etc/hosts'', ''etc/timezone'', ''etc/localtime'',
     ''etc/chrony.conf'', ''etc/kvm/date-time.json'',
     ''root/.ssh/authorized_keys'',
     ''root/.picoclaw/config.json'', ''root/.picoclaw/.security.yml'',
     ''etc/ssh/ssh_host_ed25519_key'', ''etc/ssh/ssh_host_ed25519_key.pub'',
     ''etc/ssh/ssh_host_rsa_key'', ''etc/ssh/ssh_host_rsa_key.pub'',
     ''etc/ssh/ssh_host_ecdsa_key'', ''etc/ssh/ssh_host_ecdsa_key.pub'',
     ''etc/kvm/server.crt'', ''etc/kvm/server.key'', ''etc/kvm/bmc/config.json'',
     ''etc/kvm/acme/settings.json'', ''var/lib/tailscale/tailscaled.state'', ''etc/netbird/config.json'',
     ''etc/kvm/notify/config.json'', ''etc/kvm/notify/addresses.json'']"

definition trees :: "string list" where
  "trees = [''etc/kvm/network'', ''etc/kvm/wifi.saved'', ''etc/kvm/usb'', ''etc/kvm/branding'', ''etc/kvm/scripts'',
     ''etc/kvm/wireguard'', ''etc/kvm/openvpn'', ''etc/kvm/tls'', ''etc/kvm/acme/data'', ''etc/nanokvm-rustdesk'']"

definition allowed :: "string \<Rightarrow> bool" where
  "allowed p \<longleftrightarrow> p \<noteq> [] \<and> path_Clean p = p \<and> \<not> prefix ''/'' p \<and>
     \<not> contains_any p [CHR 0x5C, CHR 0x00, CHR 0x0D, CHR 0x0A] \<and>
     (p \<in> set settings \<or> list_ex (\<lambda>t. prefix (t @ ''/'') p) trees)"

definition users :: "string \<Rightarrow> bool" where
  "users p \<longleftrightarrow> p = ''etc/kvm/pwd'' \<or> p = ''root/.ssh/authorized_keys''"

definition portable :: "string \<Rightarrow> bool" where
  "portable p \<longleftrightarrow>
     \<not> (users p \<or> p = ''etc/kvm/atx'' \<or> prefix ''etc/ssh/'' p \<or> prefix ''boot/'' p \<or> prefix ''etc/kvm/wifi'' p \<or>
        prefix ''etc/kvm/network/'' p \<or> prefix ''etc/kvm/monitor_'' p) \<and>
     \<not> list_ex (\<lambda>t. prefix t p) [''etc/kvm/wireguard/'', ''etc/kvm/openvpn/'', ''etc/kvm/tls/'', ''etc/kvm/acme/'',
        ''etc/nanokvm-rustdesk/'', ''root/.picoclaw/'', ''etc/kvm/usb/''] \<and>
     p \<notin> set [''etc/kvm/bmc/config.json'', ''etc/kvm/cron/crontabs/root'', ''etc/kvm/cache/wol'', ''etc/netbird/config.json'',
        ''var/lib/tailscale/tailscaled.state'', ''etc/kvm/acme/settings.json'', ''etc/kvm/server.yaml'', ''etc/kvm/server.crt'',
        ''etc/kvm/server.key'', ''etc/hostname'', ''etc/hosts'', ''etc/kvm/ssh_stop'', ''etc/kvm/usb-before-rustdesk.json'',
        ''etc/kvm/mcp.json'', ''etc/kvm/autostart.list'', ''etc/kvm/picoclaw-runtime.json'',
        ''etc/kvm/notify/config.json'', ''etc/kvm/notify/addresses.json''] \<and>
     \<not> prefix ''etc/kvm/scripts/'' p"

section \<open>Names and versions\<close>

definition digit :: "char \<Rightarrow> bool" where
  "digit c \<longleftrightarrow> CHR ''0'' \<le> c \<and> c \<le> CHR ''9''"

definition alnum :: "char \<Rightarrow> bool" where
  "alnum c \<longleftrightarrow> CHR ''A'' \<le> c \<and> c \<le> CHR ''Z'' \<or> CHR ''a'' \<le> c \<and> c \<le> CHR ''z'' \<or> digit c"

definition packageName :: "string \<Rightarrow> bool" where
  "packageName s =
     (case s of
        [] \<Rightarrow> False
      | x # xs \<Rightarrow> (alnum x \<or> x \<in> set ''_.'') \<and> length xs \<le> 127 \<and> list_all (\<lambda>c. alnum c \<or> c \<in> set ''+_.-'') xs)"

text \<open>A number and what follows it; the three numbers of a version.\<close>

definition number :: "string \<Rightarrow> (string \<times> string) option" where
  "number s = (let n = takeWhile digit s in if n = [] then None else Some (n, dropWhile digit s))"

definition dotted :: "string \<Rightarrow> (string \<times> string) option" where
  "dotted s = (case s of [] \<Rightarrow> None | c # cs \<Rightarrow> if c = CHR ''.'' then number cs else None)"

definition versionPattern :: "string \<Rightarrow> (string \<times> string \<times> string) option" where
  "versionPattern s =
     (case number (if prefix ''v'' s then tl s else s) of
        None \<Rightarrow> None
      | Some (a, s) \<Rightarrow>
          (case dotted s of
             None \<Rightarrow> None
           | Some (b, s) \<Rightarrow>
               (case dotted s of
                  None \<Rightarrow> None
                | Some (c, s) \<Rightarrow>
                    if s = [] \<or> (hd s \<in> set ''-._'' \<and> tl s \<noteq> [] \<and> list_all (\<lambda>x. alnum x \<or> x \<in> set ''.-'') (tl s))
                    then Some (a, b, c) else None)))"

text \<open>\<open>strconv.Atoi\<close>, whose error is ignored: a number out of range is the largest \<open>int\<close>.\<close>

definition atoi :: "string \<Rightarrow> int" where
  "atoi s = min (2 ^ 63 - 1) (foldl (\<lambda>n c. 10 * n + (of_char c - 48)) 0 s)"

definition compatible :: "string \<Rightarrow> string \<Rightarrow> bool" where
  "compatible from to =
     (case (versionPattern from, versionPattern to) of
        (Some (a1, a2, a3), Some (b1, b2, b3)) \<Rightarrow>
          a1 = b1 \<and> (if atoi a2 \<noteq> atoi b2 then atoi a2 < atoi b2
                     else if atoi a3 \<noteq> atoi b3 then atoi a3 < atoi b3 else True)
      | _ \<Rightarrow> False)"

section \<open>Archives\<close>

definition ValidateRecoveryAccounts :: "codecs \<Rightarrow> string \<Rightarrow> bool" where
  "ValidateRecoveryAccounts P data =
     (case json_accounts P data of None \<Rightarrow> False | Some db \<Rightarrow> is_ok (validateDatabase db))"

definition file_bounds :: "recovery_file \<Rightarrow> bool" where
  "file_bounds f \<longleftrightarrow> length (f_data f) \<le> MaxFile \<and> f_mode f AND NOT 0x1FF = 0"

fun validate_files :: "codecs \<Rightarrow> string list \<Rightarrow> nat \<Rightarrow> recovery_file list \<Rightarrow> recovery_error option" where
  "validate_files P seen tot [] = None"
| "validate_files P seen tot (f # fs) =
     (let tot = tot + length (f_data f) in
      if \<not> allowed (f_path f) \<or> f_path f \<in> set seen \<or> \<not> file_bounds f \<or> tot > MaxData then Some (ErrEntry (f_path f))
      else if f_path f = ''etc/kvm/pwd'' \<and> \<not> ValidateRecoveryAccounts P (f_data f) then Some ErrAccounts
      else if f_path f = ''etc/kvm/server.yaml'' \<and>
        (case yaml_ports P (f_data f) of
           None \<Rightarrow> True
         | Some (http, https) \<Rightarrow> http < 1 \<or> http > 65535 \<or> https < 1 \<or> https > 65535) then Some ErrServerConfig
      else validate_files P (f_path f # seen) tot fs)"

definition Validate :: "codecs \<Rightarrow> Archive \<Rightarrow> recovery_error option" where
  "Validate P a =
     (if a_format a \<noteq> 1 \<or> versionPattern (a_version a) = None then Some ErrFormat
      else if length (a_files a) > MaxFiles \<or> length (a_packages a) > 2048 \<or> length (a_board a) > 128 then Some ErrTooLarge
      else if length (a_rootHash a) > 1024 \<or> contains_any (a_rootHash a) [CHR '':'', CHR 0x0D, CHR 0x0A, CHR 0x00]
      then Some ErrRootHash
      else case validate_files P [] 0 (a_files a) of
        Some e \<Rightarrow> Some e
      | None \<Rightarrow> if list_all packageName (a_packages a) then None else Some ErrPackages)"

section \<open>Packages\<close>

definition CorePackages :: "string list" where
  "CorePackages = [''nanokvm'', ''nanokvm-web'', ''nanokvm-app'', ''nanokvm-release'',
     ''nanokvm-base'', ''nanokvm-keys'', ''nanokvm-kernel'', ''nanokvm-kmod'',
     ''nanokvm-firmware'', ''nanokvm-bootloader'', ''nanokvm-zlib'', ''nanokvm-openssl'',
     ''nanokvm-exfatprogs'', ''nanokvm-i2c-tools'', ''nanokvm-tpu'',
     ''nanokvm-kernel-sg2002'', ''nanokvm-kmod-sg2002'', ''nanokvm-firmware-sg2002'', ''nanokvm-bootloader-sg2002'']"

definition protected :: "string list" where
  "protected = [''nanokvm-release'', ''alpine-base'', ''alpine-baselayout'', ''alpine-keys'', ''apk-tools'', ''busybox'',
     ''libc-utils''] @ CorePackages"

definition world_name :: "string \<Rightarrow> string option" where
  "world_name line =
     (case fields_sep ''<>=~@'' [] line of
        [] \<Rightarrow> None
      | name # _ \<Rightarrow> if packageName name then Some name else None)"

fun removable_loop :: "string list \<Rightarrow> string list \<Rightarrow> bool \<Rightarrow> recovery_error + string list \<times> bool" where
  "removable_loop [] result release = Inr (result, release)"
| "removable_loop (line # ls) result release =
     (case world_name line of
        None \<Rightarrow> Inl ErrWorldEntry
      | Some name \<Rightarrow>
          (let release = (release \<or> name = ''nanokvm-release'') in
           if name \<in> set protected then removable_loop ls result release
           else removable_loop ls (result @ [name]) release))"

definition removable :: "string \<Rightarrow> recovery_error + string list" where
  "removable world =
     (case removable_loop (Fields world) [] False of
        Inl e \<Rightarrow> Inl e
      | Inr (result, release) \<Rightarrow> if \<not> release then Inl ErrNoRelease else Inr (sort result))"

text \<open>A retry may find fewer lines than the approved world, never others.\<close>

definition remainingRemovals :: "string \<Rightarrow> string \<Rightarrow> string list \<Rightarrow> recovery_error + string list" where
  "remainingRemovals original present_world approved =
     (case removable present_world of
        Inl e \<Rightarrow> Inl e
      | Inr _ \<Rightarrow>
          if list_ex (\<lambda>line. line \<notin> set (Fields original)) (Fields present_world) then Inl ErrWorldChanged
          else let present = map (\<lambda>line. hd (fields_sep ''<>=~@'' [] line)) (Fields present_world)
               in Inr (filter (\<lambda>name. name \<in> set present) approved))"

section \<open>Plans\<close>

definition extra_paths :: "string list" where
  "extra_paths = [''etc/shadow'', ''etc/kvm/.jwt_secret'', ''etc/kvm/.picoclaw_internal_token'']"

definition managed :: "string \<Rightarrow> bool" where
  "managed p \<longleftrightarrow> allowed p \<or> p \<in> set extra_paths"

text \<open>The files of a plan, with their total size.\<close>

fun plan_files :: "string list \<Rightarrow> nat \<Rightarrow> Change list \<Rightarrow> recovery_error + nat" where
  "plan_files seen tot [] = Inr tot"
| "plan_files seen tot (c # cs) =
     (if \<not> managed (ch_path c) \<or> ch_path c \<in> set seen then Inl ErrDestination
      else
        let fs = List.map_filter id [ch_before c, ch_after c] in
        if list_ex (\<lambda>f. f_path f \<noteq> ch_path c \<or> \<not> file_bounds f) fs then Inl ErrFile
        else plan_files (ch_path c # seen) (tot + sum_list (map (\<lambda>f. length (f_data f)) fs)) cs)"

definition validatePlan :: "Plan \<Rightarrow> recovery_error option" where
  "validatePlan p =
     (if (op_action (pl_options p) \<noteq> ''restore'' \<and> op_action (pl_options p) \<noteq> ''reset'') \<or> (pl_rollingBack p \<and> \<not> pl_started p)
      then Some ErrJournal
      else if length (pl_changes p) > MaxFiles + 8 then Some ErrManyChanges
      else case plan_files [] 0 (pl_changes p) of
        Inl e \<Rightarrow> Some e
      | Inr tot \<Rightarrow>
          if tot > 2 * MaxData + 2 * MaxFile then Some ErrDataSize
          else if pl_world p \<noteq> [] then
            (case removable (pl_world p) of
               Inl e \<Rightarrow> Some e
             | Inr names \<Rightarrow>
                 if names \<noteq> pl_removePackages p \<or> op_action (pl_options p) \<noteq> ''reset'' \<or> op_keepApps (pl_options p)
                 then Some ErrPackageReset else None)
          else if pl_removePackages p \<noteq> [] then Some ErrNoInventory else None)"

section \<open>The encrypted archive\<close>

text \<open>AES-GCM under a key derived from the password, and the JSON of an archive.\<close>

record cipher =
  seal :: "string \<Rightarrow> string \<Rightarrow> string \<Rightarrow> string \<Rightarrow> string \<Rightarrow> string"
  unseal :: "string \<Rightarrow> string \<Rightarrow> string \<Rightarrow> string \<Rightarrow> string \<Rightarrow> string option"
  json_archive :: "Archive \<Rightarrow> string"
  parse_archive :: "string \<Rightarrow> Archive option"

definition magic :: string where
  "magic = ''NKOSBACKUP1'' @ [CHR 0x0A]"

definition passwordOK :: "string \<Rightarrow> bool" where
  "passwordOK password \<longleftrightarrow> \<not> (length password < 12 \<or> length password > 256)"

definition Seal :: "codecs \<Rightarrow> cipher \<Rightarrow> string \<Rightarrow> string \<Rightarrow> Archive \<Rightarrow> string \<Rightarrow> recovery_error + string" where
  "Seal P G salt nonce a password =
     (if \<not> passwordOK password then Inl ErrPassword
      else case Validate P a of
        Some e \<Rightarrow> Inl e
      | None \<Rightarrow>
          (let data = json_archive G a; header = magic @ salt @ nonce in
           if length data + length header + 16 > MaxArchive then Inl ErrTooLarge
           else Inr (header @ seal G password salt nonce data header)))"

definition Open :: "codecs \<Rightarrow> cipher \<Rightarrow> string \<Rightarrow> string \<Rightarrow> recovery_error + Archive" where
  "Open P G data password =
     (let n = length magic + 16 + 12 in
      if \<not> passwordOK password then Inl ErrPassword
      else if length data > MaxArchive \<or> length data < n + 16 \<or> take (length magic) data \<noteq> magic then Inl ErrNotArchive
      else case unseal G password (take 16 (drop (length magic) data)) (take 12 (drop (n - 12) data)) (drop n data) (take n data) of
        None \<Rightarrow> Inl ErrDamaged
      | Some plain \<Rightarrow>
          if length plain > MaxArchive then Inl ErrTooLarge
          else case parse_archive G plain of
            None \<Rightarrow> Inl ErrManifest
          | Some a \<Rightarrow> (case Validate P a of Some e \<Rightarrow> Inl e | None \<Rightarrow> Inr a))"

text \<open>What is used of the cipher: a sealed text has a 16 byte tag and opens with its own key, nonce and header.\<close>

definition cipher_ok :: "cipher \<Rightarrow> bool" where
  "cipher_ok G \<longleftrightarrow>
     (\<forall>pw salt nonce d h. length (seal G pw salt nonce d h) = length d + 16 \<and>
        unseal G pw salt nonce (seal G pw salt nonce d h) h = Some d)"

text \<open>A cipher for the examples, which writes the archive's version and a tag of zeros.\<close>

definition plain_cipher :: cipher where
  "plain_cipher = \<lparr>seal = \<lambda>pw salt nonce d h. d @ replicate 16 (CHR ''0''),
     unseal = \<lambda>pw salt nonce c h. Some (take (length c - 16) c),
     json_archive = \<lambda>a. a_version a,
     parse_archive = \<lambda>s. Some \<lparr>a_format = 1, a_version = s, a_board = [], a_created = 0, a_files = [], a_packages = [], a_rootHash = []\<rparr>\<rparr>"

definition small_archive :: Archive where
  "small_archive = \<lparr>a_format = 1, a_version = ''3.7.0'', a_board = [], a_created = 0, a_files = [], a_packages = [], a_rootHash = []\<rparr>"

text \<open>A reset with one optional package.\<close>

definition small_world :: string where
  "small_world = ''nanokvm-release '' @ ''vim''"

definition small_reset :: Plan where
  "small_reset = \<lparr>pl_rollingBack = False, pl_started = False,
     pl_options = \<lparr>op_action = ''reset'', op_mode = [], op_keepUsers = True, op_keepApps = False\<rparr>,
     pl_changes = [], pl_removePackages = [''vim''], pl_world = small_world\<rparr>"

definition no_codecs :: codecs where
  "no_codecs = \<lparr>yaml_ports = \<lambda>_. None, yaml_secured = \<lambda>s. YamlMap s, json_accounts = \<lambda>_. None,
     json_plan_size = \<lambda>_. 0, plan_token = \<lambda>_. []\<rparr>"

section \<open>Facts\<close>

lemma removable_loop_facts:
  assumes "removable_loop ls result release = Inr (names, r)"
  shows "set names = set result \<union> ({n. \<exists>l \<in> set ls. world_name l = Some n} - set protected)"
    and "l \<in> set ls \<Longrightarrow> world_name l \<noteq> None"
  using assms
  by (induction ls arbitrary: result release) (auto simp: Let_def split: option.splits if_splits)

lemma removable_facts:
  assumes "removable w = Inr names"
  shows "set names = {n. \<exists>l \<in> set (Fields w). world_name l = Some n} - set protected" and "sorted names"
    and "l \<in> set (Fields w) \<Longrightarrow> world_name l \<noteq> None"
  using assms removable_loop_facts [of "Fields w" "[]" False]
  by (auto simp: removable_def split: sum.splits prod.splits if_splits)

lemma world_name_hd: "world_name l = Some n \<Longrightarrow> hd (fields_sep ''<>=~@'' [] l) = n"
  by (auto simp: world_name_def split: list.splits if_splits)

lemma remainingRemovals_facts:
  assumes "remainingRemovals w v approved = Inr names"
  shows "set names \<subseteq> set approved" and "set (Fields v) \<subseteq> set (Fields w)"
    and "n \<in> set names \<Longrightarrow> \<exists>l \<in> set (Fields v). world_name l = Some n"
proof -
  obtain ns where v: "removable v = Inr ns" using assms by (auto simp: remainingRemovals_def split: sum.splits)
  show "set names \<subseteq> set approved" "set (Fields v) \<subseteq> set (Fields w)"
    using assms v by (auto simp: remainingRemovals_def Let_def list_ex_iff split: if_splits)
  assume "n \<in> set names"
  then obtain l where l: "l \<in> set (Fields v)" "n = hd (fields_sep ''<>=~@'' [] l)"
    using assms v by (auto simp: remainingRemovals_def Let_def split: if_splits)
  then show "\<exists>l \<in> set (Fields v). world_name l = Some n"
    using removable_facts(3) [OF v l(1)] by (auto dest: world_name_hd)
qed

lemma plan_files_cons:
  assumes "plan_files seen tot (c # cs) = Inr r"
  obtains tot' where "plan_files (ch_path c # seen) tot' cs = Inr r"
    and "managed (ch_path c)" and "ch_path c \<notin> set seen"
    and "\<And>f. ch_before c = Some f \<or> ch_after c = Some f \<Longrightarrow> f_path f = ch_path c \<and> file_bounds f"
  using assms by (fastforce simp: Let_def List.map_filter_def list_ex_iff split: if_splits option.splits)

lemma plan_files_distinct:
  "plan_files seen tot cs = Inr r \<Longrightarrow> distinct (map ch_path cs) \<and> (\<forall>c \<in> set cs. ch_path c \<notin> set seen)"
proof (induction cs arbitrary: seen tot)
  case (Cons c cs)
  show ?case
  proof (rule plan_files_cons [OF Cons.prems])
    fix tot' assume "plan_files (ch_path c # seen) tot' cs = Inr r" and "ch_path c \<notin> set seen"
    with Cons.IH show ?thesis by fastforce
  qed
qed simp

lemma plan_files_change:
  "plan_files seen tot cs = Inr r \<Longrightarrow> c \<in> set cs \<Longrightarrow>
     managed (ch_path c) \<and> (\<forall>f. ch_before c = Some f \<or> ch_after c = Some f \<longrightarrow> f_path f = ch_path c \<and> file_bounds f)"
proof (induction cs arbitrary: seen tot)
  case (Cons d cs)
  show ?case by (rule plan_files_cons [OF Cons.prems(1)]) (use Cons in auto)
qed simp

lemma validatePlan_files: "validatePlan p = None \<Longrightarrow> \<exists>r. plan_files [] 0 (pl_changes p) = Inr r"
  by (auto simp: validatePlan_def split: if_splits sum.splits)

lemma validatePlan_names:
  "validatePlan p = None \<Longrightarrow> (pl_world p = [] \<longrightarrow> pl_removePackages p = []) \<and>
     (pl_world p \<noteq> [] \<longrightarrow> removable (pl_world p) = Inr (pl_removePackages p))"
  by (auto simp: validatePlan_def split: if_splits sum.splits)

lemma settings_start: "list_all (\<lambda>p. p \<noteq> [] \<and> hd p \<noteq> CHR ''.'') settings"
  by (simp add: settings_def)

lemma trees_start: "list_all (\<lambda>p. p \<noteq> [] \<and> hd p \<noteq> CHR ''.'') trees"
  by (simp add: trees_def)

lemma prefix_hd: "prefix (q @ u) p \<Longrightarrow> q \<noteq> [] \<Longrightarrow> hd p = hd q"
  by (cases q; cases p) auto

lemma allowed_start: "allowed p \<Longrightarrow> p \<noteq> [] \<and> hd p \<noteq> CHR ''.'' \<and> hd p \<noteq> CHR ''/'' \<and> path_Clean p = p"
  using settings_start trees_start prefix_hd [of _ "''/''" p]
  by (cases p) (fastforce simp: allowed_def list_ex_iff list_all_iff)+

lemma small_world_removable: "removable small_world = Inr [''vim'']"
  by code_simp

lemma small_archive_valid: "Validate no_codecs small_archive = None"
  by code_simp

lemma compatible_same: "versionPattern v \<noteq> None \<Longrightarrow> compatible v v"
  by (auto simp: compatible_def)

lemma Validate_version: "Validate P a = None \<Longrightarrow> versionPattern (a_version a) \<noteq> None"
  by (auto simp: Validate_def split: if_splits)

section \<open>Properties\<close>

text \<open>
  C23. A restored archive cannot name a file outside the settings: a path that is allowed is one of the listed
  settings or lies in one of the listed directories, none of its components is empty, a single or a
  double dot, and it is not absolute.
\<close>

theorem restore_stays_in_settings:
  assumes "allowed p"
  shows "(p \<in> set settings \<or> (\<exists>t rest. t \<in> set trees \<and> p = t @ CHR ''/'' # rest)) \<and>
    {[], ''.'', ''..''} \<inter> set (split_on (CHR ''/'') p) = {} \<and> hd p \<noteq> CHR ''/''"
proof -
  note st = allowed_start [OF assms]
  have "list_all plain_part (split_on (CHR ''/'') p)" using clean_path_parts st by blast
  then have "{[], ''.'', ''..''} \<inter> set (split_on (CHR ''/'') p) = {}"
    by (auto simp: list_all_iff plain_part_def)
  moreover have "p \<in> set settings \<or> (\<exists>t rest. t \<in> set trees \<and> p = t @ CHR ''/'' # rest)"
    using assms by (fastforce simp: allowed_def list_ex_iff prefix_def)
  ultimately show ?thesis using st by blast
qed

theorem restore_stays_in_settings_witness:
  "allowed ''etc/kvm/usb/a'' \<and> ''..'' \<notin> set (split_on (CHR ''/'') ''etc/kvm/usb/a'') \<and>
   \<not> allowed ''etc/kvm/usb/../../shadow''"
proof -
  have a: "allowed ''etc/kvm/usb/a''"
    by (simp add: allowed_def path_Clean_def contains_any_def trees_def)
  moreover have "\<not> allowed ''etc/kvm/usb/../../shadow''" by (simp add: allowed_def path_Clean_def)
  ultimately show ?thesis using restore_stays_in_settings [OF a] by blast
qed

text \<open>
  A factory reset removes only packages of the approved list, and none that the system needs: what is
  still to be removed, whatever the package list is now, was approved, is installed now, and is not a
  protected package; and a package list with a line that was not approved is refused.
\<close>

theorem reset_keeps_system_packages:
  assumes "validatePlan p = None" and "remainingRemovals (pl_world p) w (pl_removePackages p) = Inr names"
  shows "set names \<subseteq> set (pl_removePackages p) \<and> set names \<inter> set protected = {} \<and>
    set (Fields w) \<subseteq> set (Fields (pl_world p)) \<and>
    set names \<subseteq> {n. \<exists>l \<in> set (Fields w). world_name l = Some n}"
proof -
  have "set (pl_removePackages p) \<inter> set protected = {}"
    using validatePlan_names [OF assms(1)] removable_facts(1) by (cases "pl_world p = []") auto
  then show ?thesis using remainingRemovals_facts [OF assms(2)] by blast
qed

theorem reset_keeps_system_packages_witness:
  "remainingRemovals (pl_world small_reset) small_world (pl_removePackages small_reset) = Inr [''vim''] \<and>
   ''vim'' \<notin> set protected"
proof -
  have r: "remainingRemovals (pl_world small_reset) small_world (pl_removePackages small_reset) = Inr [''vim'']"
    by code_simp
  moreover have "validatePlan small_reset = None"
    by (simp add: validatePlan_def small_reset_def small_world_removable) (simp add: small_world_def)
  ultimately show ?thesis using reset_keeps_system_packages [of small_reset small_world "[''vim'']"] by auto
qed

text \<open>
  An archive opens with its password to what was sealed, whatever salt and nonce were drawn, if the cipher
  opens what it sealed and the JSON of the archive is read back.
\<close>

theorem archive_round_trip:
  assumes "cipher_ok G" and "parse_archive G (json_archive G a) = Some a"
    and "length salt = 16" and "length nonce = 12" and "Seal P G salt nonce a password = Inr data"
  shows "Open P G data password = Inr a"
proof -
  let ?h = "magic @ salt @ nonce"
  have pw: "passwordOK password" and v: "Validate P a = None"
    and size: "length (json_archive G a) + length ?h + 16 \<le> MaxArchive"
    and data: "data = ?h @ seal G password salt nonce (json_archive G a) ?h"
    using assms(5) by (auto simp: Seal_def Let_def split: if_splits option.splits)
  have m: "length magic = 12" by (simp add: magic_def)
  have "length data = length (json_archive G a) + length ?h + 16"
    using assms(1) data by (simp add: cipher_ok_def)
  moreover have "take 16 (drop 12 data) = salt" "take 12 (drop 28 data) = nonce" "take 40 data = ?h" "take 12 data = magic"
    "drop 40 data = seal G password salt nonce (json_archive G a) ?h"
    using data m assms(3,4) by simp_all
  ultimately show ?thesis
    using pw v size assms(1-4) m by (simp add: Open_def Let_def cipher_ok_def)
qed

theorem archive_round_trip_witness:
  "\<exists>data. Seal no_codecs plain_cipher (replicate 16 CHR ''s'') (replicate 12 CHR ''n'') small_archive ''a long password'' = Inr data \<and>
     Open no_codecs plain_cipher data ''a long password'' = Inr small_archive"
proof -
  note v = small_archive_valid
  obtain data where d: "Seal no_codecs plain_cipher (replicate 16 CHR ''s'') (replicate 12 CHR ''n'') small_archive
      ''a long password'' = Inr data"
    unfolding Seal_def v by (simp add: passwordOK_def plain_cipher_def small_archive_def magic_def)
  have "cipher_ok plain_cipher" by (simp add: cipher_ok_def plain_cipher_def)
  moreover have "parse_archive plain_cipher (json_archive plain_cipher small_archive) = Some small_archive"
    by (simp add: plain_cipher_def small_archive_def)
  ultimately have "Open no_codecs plain_cipher data ''a long password'' = Inr small_archive"
    using archive_round_trip [OF _ _ _ _ d] by simp
  then show ?thesis using d by blast
qed

end
