(* ===== verification/Recovery_Engine.thy ===== *)
theory Recovery_Engine
  imports Recovery_Policy
begin

text \<open>
  Backup, restore and factory reset: \<open>recovery/engine.go\<close> with the file operations of \<open>recovery/filesystem.go\<close>
  and the boot command of \<open>recovery/boot.go\<close>. A device has two copies of its files, what the running system sees and
  what is on the card. A write makes a new file, syncs it, renames it and syncs the directory: it may fail
  before or after the rename, and power may be lost meanwhile. What was not synced may reach the card at any
  time, file by file. Each operation consumes an event of the environment that says what happens to it.

  The scratch files of \<open>write\<close> and empty directories are left out; a link at \<open>etc/localtime\<close> counts as the
  file it points to; a mode is the permission bits (on the FAT partition \<open>boot/\<close> modes are not stored).
\<close>

section \<open>Files\<close>

datatype node = Regular string "32 word" | Special

type_synonym nodes = "string \<Rightarrow> node option"

record Engine =
  e_version :: string
  e_board :: string
  e_universe :: "string list"

record Preview =
  pv_token :: string
  pv_changed :: "string list"
  pv_skipped :: "string list"
  pv_removePackages :: "string list"
  pv_packages :: "string list"
  pv_version :: string

definition read_node :: "nodes \<Rightarrow> string \<Rightarrow> recovery_error + recovery_file option" where
  "read_node fs name =
     (case fs name of
        None \<Rightarrow> Inr None
      | Some Special \<Rightarrow> Inl ErrIO
      | Some (Regular d m) \<Rightarrow>
          if length d > MaxFile then Inl ErrIO else Inr (Some \<lparr>f_path = name, f_data = d, f_mode = m\<rparr>))"

definition under_tree :: "string \<Rightarrow> bool" where
  "under_tree p \<longleftrightarrow> list_ex (\<lambda>t. prefix (t @ ''/'') p) trees"

text \<open>The directories on the way from a tree to a file in it.\<close>

definition dirs_below :: "string \<Rightarrow> string list" where
  "dirs_below p = filter (\<lambda>q. prefix (q @ ''/'') p \<and> under_tree q) (map (\<lambda>n. take n p) [0..<length p])"

fun read_all :: "nodes \<Rightarrow> nat \<Rightarrow> string list \<Rightarrow> recovery_error + recovery_file list" where
  "read_all fs tot [] = Inr []"
| "read_all fs tot (n # ns) =
     (case read_node fs n of
        Inl e \<Rightarrow> Inl e
      | Inr None \<Rightarrow> read_all fs tot ns
      | Inr (Some f) \<Rightarrow>
          if tot + length (f_data f) > MaxData then Inl ErrTooLarge
          else (case read_all fs (tot + length (f_data f)) ns of Inl e \<Rightarrow> Inl e | Inr r \<Rightarrow> Inr (f # r)))"

text \<open>The names a walk can meet are those of \<open>e_universe\<close>.\<close>

definition inventory :: "Engine \<Rightarrow> nodes \<Rightarrow> recovery_error + recovery_file list" where
  "inventory E fs =
     (let found = filter (\<lambda>p. under_tree p \<and> fs p \<noteq> None) (e_universe E);
          dirs = remdups (concat (map dirs_below found))
      in if length found + length dirs > MaxFiles \<or> length settings + length found > MaxFiles \<or>
            list_ex (\<lambda>q. count_list q (CHR ''/'') > 12) dirs then Inl ErrTooLarge
         else read_all fs 0 (sort (settings @ found)))"

section \<open>Snapshot\<close>

fun world_names :: "string list \<Rightarrow> recovery_error + string list" where
  "world_names [] = Inr []"
| "world_names (line # ls) =
     (case world_name line of
        None \<Rightarrow> Inl ErrWorldEntry
      | Some n \<Rightarrow> (case world_names ls of Inl e \<Rightarrow> Inl e | Inr ns \<Rightarrow> Inr (n # ns)))"

definition newline :: char where "newline = CHR 0x0A"

definition root_hash :: "string \<Rightarrow> string" where
  "root_hash shadow =
     foldl (\<lambda>h line. let fields = split_on (CHR '':'') line in
              if length fields > 1 \<and> hd fields = ''root'' then fields ! 1 else h) [] (split_on newline shadow)"

definition Snapshot :: "codecs \<Rightarrow> Engine \<Rightarrow> time \<Rightarrow> nodes \<Rightarrow> recovery_error + Archive" where
  "Snapshot P E now fs =
     (case inventory E fs of
        Inl e \<Rightarrow> Inl e
      | Inr files \<Rightarrow>
          (case read_node fs ''etc/apk/world'' of
             Inl e \<Rightarrow> Inl e
           | Inr world \<Rightarrow>
               (case (case world of None \<Rightarrow> Inr [] | Some w \<Rightarrow> world_names (Fields (f_data w))) of
                  Inl e \<Rightarrow> Inl e
                | Inr names \<Rightarrow>
                    (case read_node fs ''etc/shadow'' of
                       Inl e \<Rightarrow> Inl e
                     | Inr shadow \<Rightarrow>
                         (let a = \<lparr>a_format = 1, a_version = e_version E, a_board = e_board E, a_created = now, a_files = files,
                                a_packages = names, a_rootHash = (case shadow of None \<Rightarrow> [] | Some f \<Rightarrow> root_hash (f_data f))\<rparr>
                          in case Validate P a of Some e \<Rightarrow> Inl e | None \<Rightarrow> Inr a)))))"

section \<open>Prepare\<close>

type_synonym desired = "(string \<times> recovery_file option) list"

definition prepare_check :: "codecs \<Rightarrow> Engine \<Rightarrow> Archive option \<Rightarrow> Options \<Rightarrow> recovery_error option" where
  "prepare_check P E a opt =
     (if op_action opt \<noteq> ''restore'' \<and> op_action opt \<noteq> ''reset'' then Some ErrAction
      else if op_action opt = ''restore'' then
        (case a of
           None \<Rightarrow> Some ErrArchiveRequired
         | Some a \<Rightarrow>
             (case Validate P a of
                Some e \<Rightarrow> Some e
              | None \<Rightarrow>
                  if \<not> compatible (a_version a) (e_version E) then Some ErrIncompatible
                  else if op_mode opt \<noteq> ''device'' \<and> op_mode opt \<noteq> ''migrate'' then Some ErrRestoreMode
                  else if op_mode opt = ''device'' \<and> (a_board a = [] \<or> a_board a \<noteq> e_board E) then Some ErrBoard
                  else None))
      else None)"

definition kept :: "Options \<Rightarrow> string \<Rightarrow> bool" where
  "kept opt p \<longleftrightarrow>
     op_action opt = ''reset'' \<and> op_keepUsers opt \<and> (users p \<or> p = ''etc/kvm/ssh_stop'' \<or> prefix ''etc/ssh/'' p) \<or>
     op_action opt = ''restore'' \<and> op_mode opt = ''migrate'' \<and> \<not> portable p"

definition put :: "string \<Rightarrow> string \<Rightarrow> 32 word \<Rightarrow> desired \<Rightarrow> desired" where
  "put name data m d = AList.update name (Some \<lparr>f_path = name, f_data = data, f_mode = m\<rparr>) d"

definition desired_current :: "Options \<Rightarrow> recovery_file list \<Rightarrow> desired" where
  "desired_current opt files =
     fold (\<lambda>f d. if kept opt (f_path f) then d else AList.update (f_path f) None d) files []"

definition restored_mode :: "string \<Rightarrow> 32 word" where
  "restored_mode p =
     (if prefix ''etc/kvm/scripts/'' p then 0x1C0
      else if p \<in> set [''etc/hosts'', ''etc/hostname'', ''etc/timezone'', ''etc/localtime'', ''etc/chrony.conf''] then 0x1A4
      else 0x180)"

definition desired_archive :: "Options \<Rightarrow> recovery_file list \<Rightarrow> desired \<Rightarrow> desired" where
  "desired_archive opt files d =
     fold (\<lambda>f d. if op_mode opt = ''migrate'' \<and> \<not> portable (f_path f) then d
                 else AList.update (f_path f) (Some (f\<lparr>f_mode := restored_mode (f_path f)\<rparr>)) d) files d"

definition skipped_files :: "Options \<Rightarrow> recovery_file list \<Rightarrow> string list" where
  "skipped_files opt files = filter (\<lambda>p. op_mode opt = ''migrate'' \<and> \<not> portable p) (map f_path files)"

text \<open>The layout marker, the device's own server configuration in a migration, and the secrets.\<close>

definition desired_secrets :: "Options \<Rightarrow> recovery_file option \<Rightarrow> desired \<Rightarrow> desired" where
  "desired_secrets opt cfg d =
     (let device = (op_action opt = ''reset'' \<or> op_mode opt = ''device'');
          d = (if device then put ''etc/kvm/usb/.layout-v1'' (''1'' @ [newline]) 0x180 d else d);
          d = (case cfg of None \<Rightarrow> d | Some f \<Rightarrow> AList.update (f_path f) (Some f) d);
          d = AList.update ''etc/kvm/.jwt_secret'' None d
      in if device then AList.update ''etc/kvm/.picoclaw_internal_token'' None d else d)"

definition secure_server :: "codecs \<Rightarrow> desired \<Rightarrow> recovery_error + desired" where
  "secure_server P d =
     (case map_of d ''etc/kvm/server.yaml'' of
        Some (Some f) \<Rightarrow>
          (case yaml_secured P (f_data f) of
             YamlErr \<Rightarrow> Inl ErrYaml
           | YamlNil \<Rightarrow> Inl PanicNilMap
           | YamlMap s \<Rightarrow> Inr (AList.update ''etc/kvm/server.yaml'' (Some (f\<lparr>f_data := s\<rparr>)) d))
      | _ \<Rightarrow> Inr d)"

definition own_cron_line :: "string \<Rightarrow> bool" where
  "own_cron_line line \<longleftrightarrow>
     prefix ''# nanokvm-apk-index-refresh '' line \<or>
     (let fields = Fields line in
      length fields = 7 \<and> fields ! 5 = ''/usr/sbin/nkos-update'' \<and> fields ! 6 = ''refresh-indexes'')"

definition chrony_default :: string where
  "chrony_default = ''pool pool.ntp.org iburst'' @ newline # ''driftfile /var/lib/chrony/drift'' @ newline #
     ''makestep 1.0 3'' @ newline # ''rtcsync'' @ newline # ''port 0'' @ newline # ''cmdport 0'' @ newline #
     ''bindcmdaddress /run/chrony/chronyd.sock'' @ [newline]"

definition reset_defaults :: "Options \<Rightarrow> nodes \<Rightarrow> desired \<Rightarrow> recovery_error + desired" where
  "reset_defaults opt fs d =
     (case read_node fs ''etc/kvm/cron/crontabs/root'' of
        Inl e \<Rightarrow> Inl e
      | Inr cron \<Rightarrow>
          (let d = (case cron of
                      None \<Rightarrow> d
                    | Some f \<Rightarrow> put ''etc/kvm/cron/crontabs/root''
                        (join_with newline (filter (\<lambda>l. \<not> own_cron_line l) (split_on newline (f_data f)))) 0x180 d);
               d = put ''etc/hostname'' (''nanokvm'' @ [newline]) 0x1A4 d;
               d = put ''etc/hosts'' (''127.0.0.1 localhost nanokvm'' @ newline # ''::1 localhost'' @ [newline]) 0x1A4 d;
               d = put ''etc/timezone'' (''UTC'' @ [newline]) 0x1A4 d
           in case fs ''usr/share/zoneinfo/UTC'' of
                Some (Regular tz m) \<Rightarrow>
                  (let d = put ''etc/localtime'' tz 0x1A4 d; d = put ''etc/chrony.conf'' chrony_default 0x1A4 d
                   in Inr (if op_keepUsers opt then d else put ''etc/kvm/ssh_stop'' [] 0x180 d))
              | _ \<Rightarrow> Inl ErrIO))"

definition is_root_line :: "string \<Rightarrow> bool" where
  "is_root_line line \<longleftrightarrow> (let fields = split_on (CHR '':'') line in length fields \<ge> 2 \<and> hd fields = ''root'')"

definition root_shadow :: "string \<Rightarrow> string \<Rightarrow> recovery_error + string" where
  "root_shadow hash shadow =
     (let ls = split_on newline shadow in
      if \<not> list_ex is_root_line ls then Inl ErrNoRoot
      else Inr (join_with newline (map (\<lambda>line. if is_root_line line
        then join_with (CHR '':'') ((split_on (CHR '':'') line)[1 := hash]) else line) ls)))"

definition desired_root :: "Archive option \<Rightarrow> Options \<Rightarrow> nodes \<Rightarrow> desired \<Rightarrow> recovery_error + desired" where
  "desired_root a opt fs d =
     (if (op_action opt = ''reset'' \<and> \<not> op_keepUsers opt) \<or>
         (op_action opt = ''restore'' \<and> op_mode opt = ''device'' \<and> (case a of None \<Rightarrow> False | Some a \<Rightarrow> a_rootHash a \<noteq> []))
      then case read_node fs ''etc/shadow'' of
          Inl e \<Rightarrow> Inl e
        | Inr None \<Rightarrow> Inl ErrNoShadow
        | Inr (Some f) \<Rightarrow>
            (case root_shadow (case a of None \<Rightarrow> ''!'' | Some a \<Rightarrow> a_rootHash a) (f_data f) of
               Inl e \<Rightarrow> Inl e
             | Inr s \<Rightarrow> Inr (put ''etc/shadow'' s 0x180 d))
      else Inr d)"

definition prepare_world :: "Options \<Rightarrow> nodes \<Rightarrow> recovery_error + string \<times> string list" where
  "prepare_world opt fs =
     (if op_action opt = ''reset'' \<and> \<not> op_keepApps opt
      then case read_node fs ''etc/apk/world'' of
          Inl e \<Rightarrow> Inl e
        | Inr None \<Rightarrow> Inl ErrNoWorld
        | Inr (Some w) \<Rightarrow> (case removable (f_data w) of Inl e \<Rightarrow> Inl e | Inr names \<Rightarrow> Inr (f_data w, names))
      else Inr ([], []))"

text \<open>What the desired files are in the end: the steps above in their order.\<close>

definition prepare_desired ::
    "codecs \<Rightarrow> Engine \<Rightarrow> nodes \<Rightarrow> Archive option \<Rightarrow> Options \<Rightarrow> recovery_error + desired" where
  "prepare_desired P E fs a opt =
     (case inventory E fs of
        Inl e \<Rightarrow> Inl e
      | Inr now_files \<Rightarrow>
          (let d = desired_current opt now_files;
               d = (case a of Some a \<Rightarrow> if op_action opt = ''restore'' then desired_archive opt (a_files a) d else d | None \<Rightarrow> d)
           in case (if op_action opt = ''restore'' \<and> op_mode opt = ''migrate'' then read_node fs ''etc/kvm/server.yaml'' else Inr None) of
                Inl e \<Rightarrow> Inl e
              | Inr cfg \<Rightarrow>
                  (case secure_server P (desired_secrets opt cfg d) of
                     Inl e \<Rightarrow> Inl e
                   | Inr d \<Rightarrow>
                       (case (if op_action opt = ''reset'' then reset_defaults opt fs d else Inr d) of
                          Inl e \<Rightarrow> Inl e
                        | Inr d \<Rightarrow> desired_root a opt fs d))))"

fun plan_changes :: "nodes \<Rightarrow> desired \<Rightarrow> string list \<Rightarrow> recovery_error + Change list" where
  "plan_changes fs d [] = Inr []"
| "plan_changes fs d (n # ns) =
     (case read_node fs n of
        Inl e \<Rightarrow> Inl e
      | Inr before \<Rightarrow>
          (let after = (case map_of d n of None \<Rightarrow> None | Some x \<Rightarrow> x) in
           case plan_changes fs d ns of
             Inl e \<Rightarrow> Inl e
           | Inr cs \<Rightarrow> Inr (if before = None \<and> after = None then cs
               else \<lparr>ch_path = n, ch_before = before, ch_after = after\<rparr> # cs)))"

definition changed_file :: "Change \<Rightarrow> bool" where
  "changed_file c =
     (case (ch_before c, ch_after c) of
        (Some b, Some a) \<Rightarrow> f_data b \<noteq> f_data a \<or> f_mode b \<noteq> f_mode a
      | _ \<Rightarrow> True)"

definition Prepare ::
    "codecs \<Rightarrow> Engine \<Rightarrow> nodes \<Rightarrow> Archive option \<Rightarrow> Options \<Rightarrow> recovery_error + Plan \<times> Preview" where
  "Prepare P E fs a opt =
     (case prepare_check P E a opt of
        Some e \<Rightarrow> Inl e
      | None \<Rightarrow>
          (case prepare_desired P E fs a opt of
             Inl e \<Rightarrow> Inl e
           | Inr d \<Rightarrow>
               (case prepare_world opt fs of
                  Inl e \<Rightarrow> Inl e
                | Inr (world, names) \<Rightarrow>
                    (case plan_changes fs d (sort (map fst d)) of
                       Inl e \<Rightarrow> Inl e
                     | Inr cs \<Rightarrow>
                         (let p = \<lparr>pl_rollingBack = False, pl_started = False, pl_options = opt, pl_changes = cs,
                                pl_removePackages = names, pl_world = world\<rparr>;
                              restoring = (op_action opt = ''restore'')
                          in Inr (p, \<lparr>pv_token = plan_token P p, pv_changed = map ch_path (filter changed_file cs),
                                pv_skipped = (case a of Some a \<Rightarrow> if restoring then skipped_files opt (a_files a) else [] | None \<Rightarrow> []),
                                pv_removePackages = names,
                                pv_packages = (case a of Some a \<Rightarrow> if restoring then a_packages a else [] | None \<Rightarrow> []),
                                pv_version = (case a of Some a \<Rightarrow> if restoring then a_version a else [] | None \<Rightarrow> [])\<rparr>))))))"

section \<open>The device\<close>

datatype journal = NoJournal | Journal Plan | Corrupt

datatype Status = Complete | Failed

record store =
  s_node :: nodes
  s_pending :: journal
  s_status :: "Status option"
  s_retired :: bool

datatype outcome = Good | Bad | Unsynced | Lost bool

record event =
  ev_out :: outcome
  ev_flush :: "string \<Rightarrow> bool"
  ev_flush_pending :: bool
  ev_flush_status :: bool

type_synonym env = "nat \<Rightarrow> event"

record dev =
  d_live :: store
  d_card :: store
  d_n :: nat

datatype 'a res = Val 'a | Err recovery_error | Crash

type_synonym 'a action = "dev \<Rightarrow> 'a res \<times> dev"

definition ret :: "'a \<Rightarrow> 'a action" where "ret x d = (Val x, d)"

definition raise :: "recovery_error \<Rightarrow> 'a action" where "raise e d = (Err e, d)"

definition andThen :: "'a action \<Rightarrow> ('a \<Rightarrow> 'b action) \<Rightarrow> 'b action" where
  "andThen m k d = (case m d of (Val x, d) \<Rightarrow> k x d | (Err e, d) \<Rightarrow> (Err e, d) | (Crash, d) \<Rightarrow> (Crash, d))"

definition onErr :: "'a action \<Rightarrow> (recovery_error \<Rightarrow> 'a action) \<Rightarrow> 'a action" where
  "onErr m h d = (case m d of (Err e, d) \<Rightarrow> h e d | r \<Rightarrow> r)"

text \<open>The error of an action as a value.\<close>

definition caught :: "unit action \<Rightarrow> recovery_error option action" where
  "caught m = onErr (andThen m (\<lambda>_. ret None)) (\<lambda>e. ret (Some e))"

definition flushed :: "event \<Rightarrow> store \<Rightarrow> store \<Rightarrow> store" where
  "flushed ev l c =
     c\<lparr>s_node := (\<lambda>p. if ev_flush ev p then s_node l p else s_node c p),
       s_pending := (if ev_flush_pending ev then s_pending l else s_pending c),
       s_retired := (if ev_flush_pending ev then s_retired l else s_retired c),
       s_status := (if ev_flush_status ev then s_status l else s_status c)\<rparr>"

definition tick :: "env \<Rightarrow> dev \<Rightarrow> event \<times> dev" where
  "tick env d = (let ev = env (d_n d) in (ev, d\<lparr>d_card := flushed ev (d_live d) (d_card d), d_n := Suc (d_n d)\<rparr>))"

definition look :: "env \<Rightarrow> store action" where
  "look env d =
     (case tick env d of (ev, d) \<Rightarrow>
        (case ev_out ev of Good \<Rightarrow> (Val (d_live d), d) | Lost _ \<Rightarrow> (Crash, d) | _ \<Rightarrow> (Err ErrIO, d)))"

text \<open>One synced change of one file.\<close>

definition commit :: "env \<Rightarrow> (store \<Rightarrow> store) \<Rightarrow> unit action" where
  "commit env upd d =
     (case tick env d of (ev, d) \<Rightarrow>
        (case ev_out ev of
           Good \<Rightarrow> (Val (), d\<lparr>d_live := upd (d_live d), d_card := upd (d_card d)\<rparr>)
         | Bad \<Rightarrow> (Err ErrIO, d)
         | Unsynced \<Rightarrow> (Err ErrIO, d\<lparr>d_live := upd (d_live d)\<rparr>)
         | Lost b \<Rightarrow> (Crash, if b then d\<lparr>d_card := upd (d_card d)\<rparr> else d)))"

definition node_of :: "recovery_file option \<Rightarrow> node option" where
  "node_of v = map_option (\<lambda>f. Regular (f_data f) (f_mode f)) v"

definition safe_name :: "string \<Rightarrow> bool" where
  "safe_name name \<longleftrightarrow> \<not> (name = [] \<or> path_Clean name \<noteq> name \<or> prefix ''/'' name \<or> prefix ''../'' name)"

definition write_file :: "env \<Rightarrow> string \<Rightarrow> recovery_file option \<Rightarrow> unit action" where
  "write_file env name v d =
     (if \<not> safe_name name \<or> s_node (d_live d) name = Some Special then (Err ErrIO, d)
      else if v = None \<and> s_node (d_live d) name = None then (Val (), d)
      else commit env (\<lambda>s. s\<lparr>s_node := (s_node s)(name := node_of v)\<rparr>) d)"

definition write_pending :: "env \<Rightarrow> journal \<Rightarrow> unit action" where
  "write_pending env j = commit env (\<lambda>s. s\<lparr>s_pending := j\<rparr>)"

definition write_status :: "env \<Rightarrow> Status \<Rightarrow> unit action" where
  "write_status env st = commit env (\<lambda>s. s\<lparr>s_status := Some st\<rparr>)"

definition retirePending :: "env \<Rightarrow> unit action" where
  "retirePending env = commit env (\<lambda>s. s\<lparr>s_pending := NoJournal, s_retired := True\<rparr>)"

section \<open>Stage and Resume\<close>

definition Stage :: "codecs \<Rightarrow> env \<Rightarrow> Plan \<Rightarrow> unit action" where
  "Stage P env p =
     andThen (look env) (\<lambda>s.
       if s_pending s \<noteq> NoJournal then raise ErrPending
       else case validatePlan p of
         Some e \<Rightarrow> raise e
       | None \<Rightarrow>
           if list_ex (\<lambda>c. case read_node (s_node s) (ch_path c) of Inl _ \<Rightarrow> True | Inr f \<Rightarrow> f \<noteq> ch_before c) (pl_changes p)
           then raise ErrSettingsChanged
           else if json_plan_size P p > 2 * MaxArchive then raise ErrJournalSize
           else write_pending env (Journal p))"

text \<open>The final state of the settings before anything is touched, for a restore.\<close>

fun recapture :: "nodes \<Rightarrow> Change list \<Rightarrow> recovery_error + Change list" where
  "recapture fs [] = Inr []"
| "recapture fs (c # cs) =
     (case read_node fs (ch_path c) of
        Inl e \<Rightarrow> Inl e
      | Inr f \<Rightarrow> (case recapture fs cs of Inl e \<Rightarrow> Inl e | Inr r \<Rightarrow> Inr (c\<lparr>ch_before := f\<rparr> # r)))"

definition appended :: "Plan \<Rightarrow> recovery_file list \<Rightarrow> Change list" where
  "appended p files =
     map (\<lambda>f. \<lparr>ch_path = f_path f, ch_before = Some f, ch_after = None\<rparr>)
       (filter (\<lambda>f. \<not> (f_path f \<in> ch_path ` set (pl_changes p) \<or>
          (op_mode (pl_options p) = ''migrate'' \<and> \<not> portable (f_path f)))) files)"

definition renewed :: "codecs \<Rightarrow> Engine \<Rightarrow> nodes \<Rightarrow> Plan \<Rightarrow> recovery_error + Plan" where
  "renewed P E fs p =
     (if op_action (pl_options p) = ''reset''
      then (case Prepare P E fs None (pl_options p) of
              Inl e \<Rightarrow> Inl e
            | Inr (q, _) \<Rightarrow> Inr (q\<lparr>pl_world := pl_world p, pl_removePackages := pl_removePackages p\<rparr>))
      else (case recapture fs (pl_changes p) of
              Inl e \<Rightarrow> Inl e
            | Inr cs \<Rightarrow> (case inventory E fs of Inl e \<Rightarrow> Inl e | Inr files \<Rightarrow> Inr (p\<lparr>pl_changes := cs @ appended p files\<rparr>))))"

definition refresh :: "codecs \<Rightarrow> Engine \<Rightarrow> nodes \<Rightarrow> Plan \<Rightarrow> recovery_error + Plan" where
  "refresh P E fs p =
     (case renewed P E fs p of
        Inl e \<Rightarrow> Inl e
      | Inr q \<Rightarrow>
          (case (if op_action (pl_options q) = ''reset'' \<and> \<not> op_keepApps (pl_options q)
                 then (case read_node fs ''etc/apk/world'' of
                         Inl e \<Rightarrow> Some e
                       | Inr None \<Rightarrow> Some ErrNoWorld
                       | Inr (Some w) \<Rightarrow> if f_data w \<noteq> pl_world q then Some ErrWorldChanged else None)
                 else None) of
             Some e \<Rightarrow> Inl e
           | None \<Rightarrow>
               (let q = q\<lparr>pl_started := True\<rparr> in case validatePlan q of Some e \<Rightarrow> Inl e | None \<Rightarrow> Inr q)))"

definition abandon :: "env \<Rightarrow> unit action" where
  "abandon env = andThen (write_status env Failed) (\<lambda>_. retirePending env)"

text \<open>The part before anything is touched; no plan means that the recovery was abandoned.\<close>

definition start_plan :: "codecs \<Rightarrow> Engine \<Rightarrow> env \<Rightarrow> Plan \<Rightarrow> Plan action" where
  "start_plan P E env p =
     (case validatePlan p of
        Some e \<Rightarrow> raise e
      | None \<Rightarrow>
          if pl_started p then ret p
          else andThen (look env) (\<lambda>s.
            case refresh P E (s_node s) p of
              Inl e \<Rightarrow> raise e
            | Inr q \<Rightarrow> andThen (write_pending env (Journal q)) (\<lambda>_. ret q)))"

definition begin_plan :: "codecs \<Rightarrow> Engine \<Rightarrow> env \<Rightarrow> Plan \<Rightarrow> Plan option action" where
  "begin_plan P E env p =
     (let start = andThen (start_plan P E env p) (\<lambda>q. ret (Some q)) in
      if \<not> pl_started p \<and> \<not> pl_rollingBack p
      then onErr start (\<lambda>e. andThen (abandon env) (\<lambda>_. ret None))
      else start)"

fun apply_changes :: "env \<Rightarrow> (Change \<Rightarrow> recovery_file option) \<Rightarrow> Change list \<Rightarrow> unit action" where
  "apply_changes env f [] = ret ()"
| "apply_changes env f (c # cs) = andThen (write_file env (ch_path c) (f c)) (\<lambda>_. apply_changes env f cs)"

definition remove_packages :: "env \<Rightarrow> (string list \<Rightarrow> unit action) \<Rightarrow> Plan \<Rightarrow> recovery_error option action" where
  "remove_packages env remove p =
     (if pl_rollingBack p then ret (Some ErrRollback)
      else if op_action (pl_options p) = ''reset'' \<and> \<not> op_keepApps (pl_options p)
      then andThen (look env) (\<lambda>s.
        case read_node (s_node s) ''etc/apk/world'' of
          Inl e \<Rightarrow> raise e
        | Inr None \<Rightarrow> raise ErrNoWorld
        | Inr (Some w) \<Rightarrow>
            (case remainingRemovals (pl_world p) (f_data w) (pl_removePackages p) of
               Inl e \<Rightarrow> ret (Some e)
             | Inr names \<Rightarrow> caught (remove names)))
      else ret None)"

definition rollback :: "env \<Rightarrow> Plan \<Rightarrow> unit action" where
  "rollback env p =
     andThen (if pl_rollingBack p then ret () else write_pending env (Journal (p\<lparr>pl_rollingBack := True\<rparr>)))
       (\<lambda>_. apply_changes env ch_before (pl_changes p))"

definition finish :: "env \<Rightarrow> Status \<Rightarrow> unit action" where
  "finish env st = andThen (write_status env st) (\<lambda>_. write_pending env NoJournal)"

definition execute :: "env \<Rightarrow> (string list \<Rightarrow> unit action) \<Rightarrow> Plan \<Rightarrow> unit action" where
  "execute env remove p =
     andThen (remove_packages env remove p) (\<lambda>err.
       andThen (case err of None \<Rightarrow> caught (apply_changes env ch_after (pl_changes p)) | Some e \<Rightarrow> ret (Some e)) (\<lambda>err.
         case err of
           None \<Rightarrow> finish env Complete
         | Some e \<Rightarrow> andThen (rollback env p) (\<lambda>_. finish env Failed)))"

definition Resume :: "codecs \<Rightarrow> Engine \<Rightarrow> env \<Rightarrow> (string list \<Rightarrow> unit action) \<Rightarrow> unit action" where
  "Resume P E env remove =
     andThen (look env) (\<lambda>s.
       case s_pending s of
         NoJournal \<Rightarrow> ret ()
       | Corrupt \<Rightarrow> raise ErrJournal
       | Journal p \<Rightarrow>
           andThen (begin_plan P E env p) (\<lambda>q. case q of None \<Rightarrow> ret () | Some q \<Rightarrow> execute env remove q))"

section \<open>Boot\<close>

text \<open>\<open>apk\<close> deletes packages; the files of the acme.sh program are deleted in the reverse order of the walk.\<close>

fun delete_files :: "env \<Rightarrow> string list \<Rightarrow> unit action" where
  "delete_files env [] = ret ()"
| "delete_files env (p # ps) = andThen (write_file env p None) (\<lambda>_. delete_files env ps)"

definition removeACMEBinaries :: "Engine \<Rightarrow> env \<Rightarrow> unit action" where
  "removeACMEBinaries E env d =
     delete_files env (rev (filter (\<lambda>p. prefix ''etc/kvm/acme/bin/'' p \<and> s_node (d_live d) p \<noteq> None) (e_universe E))) d"

definition boot_remove :: "Engine \<Rightarrow> env \<Rightarrow> (string list \<Rightarrow> unit action) \<Rightarrow> string list \<Rightarrow> unit action" where
  "boot_remove E env apk names =
     andThen (if names \<noteq> [] then apk names else ret ()) (\<lambda>_.
       andThen (write_file env ''usr/bin/picoclaw'' None) (\<lambda>_. removeACMEBinaries E env))"

definition Boot :: "codecs \<Rightarrow> Engine \<Rightarrow> env \<Rightarrow> (string list \<Rightarrow> unit action) \<Rightarrow> unit action" where
  "Boot P E env apk d =
     (if s_pending (d_live d) = NoJournal then (Val (), d) else Resume P E env (boot_remove E env apk) d)"

text \<open>
  A start of the device: anything not yet synced may have reached the card before the power went, the
  system sees what is on the card, and \<open>Boot\<close> runs.
\<close>

definition power_cycle :: "event \<Rightarrow> dev \<Rightarrow> dev" where
  "power_cycle ev d = (let c = flushed ev (d_live d) (d_card d) in d\<lparr>d_live := c, d_card := c\<rparr>)"

definition start_up :: "codecs \<Rightarrow> Engine \<Rightarrow> (string list \<Rightarrow> unit action) \<Rightarrow> event \<Rightarrow> env \<Rightarrow> dev \<Rightarrow> dev" where
  "start_up P E apk ev env d = snd (Boot P E env apk (power_cycle ev d))"

end
