(* ===== verification/Recovery_Safety.thy ===== *)
theory Recovery_Safety
  imports Recovery_Engine
begin

text \<open>
  A restore or a factory reset is all or nothing: whatever fails and whenever power is lost, over any number of
  starts, the settings end as they were before or as planned, and the journal stays until then.
\<close>

section \<open>Specification\<close>

text \<open>What the settings become when a plan is carried out, from the contents \<open>n0\<close> they had.\<close>

definition target :: "Plan \<Rightarrow> nodes \<Rightarrow> nodes" where
  "target p n0 q =
     (case map_of (map (\<lambda>c. (ch_path c, node_of (ch_after c))) (pl_changes p)) q of Some x \<Rightarrow> x | None \<Rightarrow> n0 q)"

definition goal :: "codecs \<Rightarrow> Engine \<Rightarrow> nodes \<Rightarrow> Plan \<Rightarrow> nodes" where
  "goal P E n0 p0 = (case refresh P E n0 p0 of Inl _ \<Rightarrow> n0 | Inr p \<Rightarrow> target p n0)"

definition rolled :: "Plan \<Rightarrow> Plan" where
  "rolled p = p\<lparr>pl_rollingBack := True\<rparr>"

definition running :: "codecs \<Rightarrow> Engine \<Rightarrow> nodes \<Rightarrow> Plan \<Rightarrow> journal set" where
  "running P E n0 p0 = (case refresh P E n0 p0 of Inl _ \<Rightarrow> {} | Inr p \<Rightarrow> {Journal p, Journal (rolled p)})"

definition settled :: "nodes \<Rightarrow> nodes \<Rightarrow> store \<Rightarrow> bool" where
  "settled n0 g s \<longleftrightarrow>
     s_status s = Some Complete \<and> (\<forall>q. managed q \<longrightarrow> s_node s q = g q) \<or>
     s_status s = Some Failed \<and> (\<forall>q. managed q \<longrightarrow> s_node s q = n0 q)"

definition store_ok :: "codecs \<Rightarrow> Engine \<Rightarrow> nodes \<Rightarrow> Plan \<Rightarrow> store \<Rightarrow> bool" where
  "store_ok P E n0 p0 s \<longleftrightarrow>
     s_pending s = Journal p0 \<and> s_node s = n0 \<or>
     s_pending s \<in> running P E n0 p0 \<and> (\<forall>q. managed q \<longrightarrow> s_node s q \<in> {n0 q, goal P E n0 p0 q}) \<or>
     s_pending s = NoJournal \<and> settled n0 (goal P E n0 p0) s"

text \<open>What may be on the card when the power goes.\<close>

definition mixed :: "dev \<Rightarrow> store \<Rightarrow> bool" where
  "mixed d m \<longleftrightarrow> (\<forall>q. s_node m q \<in> {s_node (d_live d) q, s_node (d_card d) q}) \<and>
     s_pending m \<in> {s_pending (d_live d), s_pending (d_card d)} \<and>
     s_status m \<in> {s_status (d_live d), s_status (d_card d)}"

definition dev_ok :: "codecs \<Rightarrow> Engine \<Rightarrow> nodes \<Rightarrow> Plan \<Rightarrow> dev \<Rightarrow> bool" where
  "dev_ok P E n0 p0 d \<longleftrightarrow> (\<forall>m. mixed d m \<longrightarrow> store_ok P E n0 p0 m)"

text \<open>
  An action that leaves the files \<open>M\<close>, the journal, or the status alone; things may still reach the card.
\<close>

definition same_nodes :: "(string \<Rightarrow> bool) \<Rightarrow> dev \<Rightarrow> dev \<Rightarrow> bool" where
  "same_nodes M d d' \<longleftrightarrow> (\<forall>q. M q \<longrightarrow> s_node (d_live d') q = s_node (d_live d) q \<and>
     s_node (d_card d') q \<in> {s_node (d_card d) q, s_node (d_live d) q})"

definition same_pending :: "dev \<Rightarrow> dev \<Rightarrow> bool" where
  "same_pending d d' \<longleftrightarrow> s_pending (d_live d') = s_pending (d_live d) \<and>
     s_pending (d_card d') \<in> {s_pending (d_card d), s_pending (d_live d)}"

definition same_status :: "dev \<Rightarrow> dev \<Rightarrow> bool" where
  "same_status d d' \<longleftrightarrow> s_status (d_live d') = s_status (d_live d) \<and>
     s_status (d_card d') \<in> {s_status (d_card d), s_status (d_live d)}"

definition quiet :: "dev \<Rightarrow> dev \<Rightarrow> bool" where
  "quiet d d' \<longleftrightarrow> same_nodes managed d d' \<and> same_pending d d' \<and> same_status d d'"

definition harmless :: "(string list \<Rightarrow> unit action) \<Rightarrow> bool" where
  "harmless remove \<longleftrightarrow> (\<forall>names d. quiet d (snd (remove names d)))"

text \<open>What an action leads to: \<open>Q\<close> for its value, \<open>R\<close> after an error, \<open>C\<close> after a power loss.\<close>

definition leads :: "'a action \<Rightarrow> ('a \<Rightarrow> dev \<Rightarrow> bool) \<Rightarrow> (dev \<Rightarrow> bool) \<Rightarrow> (dev \<Rightarrow> bool) \<Rightarrow> dev \<Rightarrow> bool" where
  "leads m Q R C d = (case m d of (Val x, d') \<Rightarrow> Q x d' | (Err e, d') \<Rightarrow> R d' | (Crash, d') \<Rightarrow> C d')"

definition pend_in :: "journal set \<Rightarrow> dev \<Rightarrow> bool" where
  "pend_in S d \<longleftrightarrow> s_pending (d_live d) \<in> S \<and> s_pending (d_card d) \<in> S"

definition status_in :: "Status option set \<Rightarrow> dev \<Rightarrow> bool" where
  "status_in S d \<longleftrightarrow> s_status (d_live d) \<in> S \<and> s_status (d_card d) \<in> S"

definition node_in :: "(string \<Rightarrow> node option set) \<Rightarrow> dev \<Rightarrow> bool" where
  "node_in A d \<longleftrightarrow> (\<forall>q. managed q \<longrightarrow> s_node (d_live d) q \<in> A q \<and> s_node (d_card d) q \<in> A q)"

definition untouched :: "nodes \<Rightarrow> dev \<Rightarrow> bool" where
  "untouched n0 d \<longleftrightarrow> s_node (d_live d) = n0 \<and> s_node (d_card d) = n0"

text \<open>Where the copies differ, the running system has the new contents.\<close>

definition ahead :: "nodes \<Rightarrow> dev \<Rightarrow> bool" where
  "ahead g d \<longleftrightarrow> (\<forall>q. managed q \<longrightarrow> s_node (d_live d) q = s_node (d_card d) q \<or> s_node (d_live d) q = g q)"

definition agree :: "dev \<Rightarrow> bool" where
  "agree d \<longleftrightarrow> (\<forall>q. managed q \<longrightarrow> s_node (d_live d) q = s_node (d_card d) q)"

text \<open>Both copies of these files are done.\<close>

definition both :: "string set \<Rightarrow> nodes \<Rightarrow> dev \<Rightarrow> bool" where
  "both D h d \<longleftrightarrow> (\<forall>q \<in> D. s_node (d_live d) q = h q \<and> s_node (d_card d) q = h q)"

text \<open>A device on which a plan is staged, and the starts of that device.\<close>

definition staged :: "nodes \<Rightarrow> Plan \<Rightarrow> dev \<Rightarrow> bool" where
  "staged n0 p0 d \<longleftrightarrow> d_card d = d_live d \<and> s_node (d_live d) = n0 \<and> s_pending (d_live d) = Journal p0"

definition starts :: "codecs \<Rightarrow> Engine \<Rightarrow> (string list \<Rightarrow> unit action) \<Rightarrow> dev \<Rightarrow> dev \<Rightarrow> bool" where
  "starts P E apk d d' \<longleftrightarrow> (\<exists>ev env. d' = start_up P E apk ev env d)"

text \<open>A remover that always succeeds.\<close>

definition removes :: "(string list \<Rightarrow> unit action) \<Rightarrow> bool" where
  "removes remove \<longleftrightarrow> harmless remove \<and> (\<forall>names d. fst (remove names d) = Val ())"

text \<open>An empty device on which a host name is restored, for the examples.\<close>

definition no_apk :: "string list \<Rightarrow> unit action" where
  "no_apk names d = (Val (), d)"

definition name_plan :: Plan where
  "name_plan = \<lparr>pl_rollingBack = False, pl_started = False,
     pl_options = \<lparr>op_action = ''restore'', op_mode = ''device'', op_keepUsers = False, op_keepApps = False\<rparr>,
     pl_changes = [\<lparr>ch_path = ''etc/hostname'', ch_before = None,
       ch_after = Some \<lparr>f_path = ''etc/hostname'', f_data = ''kvm'', f_mode = 0x1A4\<rparr>\<rparr>],
     pl_removePackages = [], pl_world = []\<rparr>"

definition small_engine :: Engine where
  "small_engine = \<lparr>e_version = ''3.7.0'', e_board = ''cube'', e_universe = []\<rparr>"

definition empty_device :: dev where
  "empty_device = (let s = \<lparr>s_node = (\<lambda>_. None), s_pending = Journal name_plan, s_status = None, s_retired = False\<rparr>
     in \<lparr>d_live = s, d_card = s, d_n = 0\<rparr>)"

definition quiet_event :: "outcome \<Rightarrow> event" where
  "quiet_event x = \<lparr>ev_out = x, ev_flush = (\<lambda>_. False), ev_flush_pending = False, ev_flush_status = False\<rparr>"

definition migration :: Options where
  "migration = \<lparr>op_action = ''restore'', op_mode = ''migrate'', op_keepUsers = False, op_keepApps = False\<rparr>"

definition secret_only :: nodes where
  "secret_only = [''etc/kvm/.jwt_secret'' \<mapsto> Regular ''s'' 0x180]"

text \<open>Power is lost while the host name is written.\<close>

definition interrupted :: env where
  "interrupted k = quiet_event (if k = 3 then Lost False else Good)"

section \<open>Actions\<close>

lemma leads_ret [simp]: "leads (ret x) Q R C = Q x"
  by (rule ext) (simp add: leads_def ret_def)

lemma leads_raise [simp]: "leads (raise e) Q R C = R"
  by (rule ext) (simp add: leads_def raise_def)

lemma leads_andThen [simp]: "leads (andThen m k) Q R C = leads m (\<lambda>x. leads (k x) Q R C) R C"
  by (rule ext) (auto simp: leads_def andThen_def split: prod.splits res.splits)

lemma leads_onErr: "leads m Q (\<lambda>d. \<forall>e. leads (h e) Q R C d) C d \<Longrightarrow> leads (onErr m h) Q R C d"
  by (auto simp: leads_def onErr_def split: prod.splits res.splits)

lemma leads_caught: "leads m (\<lambda>_. Q None) (\<lambda>d. \<forall>e. Q (Some e) d) C d \<Longrightarrow> leads (caught m) Q R C d"
  unfolding caught_def by (rule leads_onErr) simp

lemma leads_mono:
  "leads m Q R C d \<Longrightarrow> (\<And>x d'. Q x d' \<Longrightarrow> Q' x d') \<Longrightarrow> (\<And>d'. R d' \<Longrightarrow> R' d') \<Longrightarrow> (\<And>d'. C d' \<Longrightarrow> C' d') \<Longrightarrow> leads m Q' R' C' d"
  by (auto simp: leads_def split: prod.splits res.splits)

lemma leads_snd: "leads m (\<lambda>_. I) I I d \<Longrightarrow> I (snd (m d))"
  by (auto simp: leads_def split: prod.splits res.splits)

lemma same_refl [simp]: "same_nodes M d d" "same_pending d d" "same_status d d" "quiet d d"
  by (simp_all add: same_nodes_def same_pending_def same_status_def quiet_def)

lemma same_nodes_trans: "same_nodes M d d' \<Longrightarrow> same_nodes M d' d'' \<Longrightarrow> same_nodes M d d''"
  unfolding same_nodes_def by (metis insert_iff singletonD)

lemma same_trans:
  "same_pending d d' \<Longrightarrow> same_pending d' d'' \<Longrightarrow> same_pending d d''"
  "same_status d d' \<Longrightarrow> same_status d' d'' \<Longrightarrow> same_status d d''"
  by (auto simp: same_pending_def same_status_def)

lemma quiet_trans: "quiet d d' \<Longrightarrow> quiet d' d'' \<Longrightarrow> quiet d d''"
  unfolding quiet_def by (blast intro: same_nodes_trans same_trans)

lemma same_nodes_keeps:
  "same_nodes managed d d' \<Longrightarrow> node_in A d \<Longrightarrow> node_in A d'"
  "same_nodes managed d d' \<Longrightarrow> ahead g d \<Longrightarrow> ahead g d'"
  "same_nodes managed d d' \<Longrightarrow> agree d \<Longrightarrow> agree d'"
  unfolding same_nodes_def node_in_def ahead_def agree_def by (metis insert_iff singletonD)+

lemma same_all_keeps:
  "same_nodes (\<lambda>_. True) d d' \<Longrightarrow> same_nodes M d d'"
  "same_nodes (\<lambda>_. True) d d' \<Longrightarrow> untouched n0 d \<Longrightarrow> untouched n0 d'"
  by (auto simp: same_nodes_def untouched_def fun_eq_iff)

lemma same_pending_keeps: "same_pending d d' \<Longrightarrow> pend_in S d \<Longrightarrow> pend_in S d'"
  by (auto simp: same_pending_def pend_in_def)

lemma same_status_keeps: "same_status d d' \<Longrightarrow> status_in S d \<Longrightarrow> status_in S d'"
  by (auto simp: same_status_def status_in_def)

lemmas keeps = same_nodes_keeps same_all_keeps same_pending_keeps same_status_keeps

lemma tick_same:
  "tick env d = (ev, d') \<Longrightarrow> same_nodes M d d' \<and> same_pending d d' \<and> same_status d d'"
  by (auto simp: tick_def Let_def same_nodes_def same_pending_def same_status_def flushed_def)

text \<open>One event: nothing changes, or one of the copies, or both.\<close>

lemma commit_leads:
  assumes "\<And>d'. same_nodes (\<lambda>_. True) d d' \<Longrightarrow> same_pending d d' \<Longrightarrow> same_status d d' \<Longrightarrow>
      Q (d'\<lparr>d_live := upd (d_live d'), d_card := upd (d_card d')\<rparr>) \<and> R d' \<and> R (d'\<lparr>d_live := upd (d_live d')\<rparr>) \<and>
      C d' \<and> C (d'\<lparr>d_card := upd (d_card d')\<rparr>)"
  shows "leads (commit env upd) (\<lambda>_. Q) R C d"
proof -
  obtain ev d' where t: "tick env d = (ev, d')" by fastforce
  show ?thesis using assms [of d'] tick_same [OF t]
    by (auto simp: leads_def commit_def t split: outcome.splits)
qed

lemma look_leads:
  assumes "\<And>d'. same_nodes (\<lambda>_. True) d d' \<Longrightarrow> same_pending d d' \<Longrightarrow> same_status d d' \<Longrightarrow> Q (d_live d') d' \<and> R d' \<and> C d'"
  shows "leads (look env) Q R C d"
proof -
  obtain ev d' where t: "tick env d = (ev, d')" by fastforce
  show ?thesis using assms [of d'] tick_same [OF t]
    by (auto simp: leads_def look_def t split: outcome.splits)
qed

text \<open>A change of the journal, and of the status.\<close>

lemma pending_leads:
  assumes "pend_in S d" and "upd = (\<lambda>s. s\<lparr>s_pending := j\<rparr>) \<or> upd = (\<lambda>s. s\<lparr>s_pending := j, s_retired := True\<rparr>)"
  shows "leads (commit env upd)
     (\<lambda>_ d'. pend_in {j} d' \<and> same_nodes (\<lambda>_. True) d d' \<and> same_status d d')
     (\<lambda>d'. pend_in (insert j S) d' \<and> same_nodes (\<lambda>_. True) d d' \<and> same_status d d')
     (\<lambda>d'. pend_in (insert j S) d' \<and> same_nodes (\<lambda>_. True) d d' \<and> same_status d d') d"
  by (rule commit_leads) (use assms in \<open>auto simp: same_nodes_def same_pending_def same_status_def pend_in_def\<close>)

lemma status_leads:
  "status_in S d \<Longrightarrow> leads (write_status env st)
     (\<lambda>_ d'. status_in {Some st} d' \<and> same_nodes (\<lambda>_. True) d d' \<and> same_pending d d')
     (\<lambda>d'. same_nodes (\<lambda>_. True) d d' \<and> same_pending d d') (\<lambda>d'. same_nodes (\<lambda>_. True) d d' \<and> same_pending d d') d"
  unfolding write_status_def
  by (rule commit_leads) (auto simp: same_nodes_def same_pending_def same_status_def status_in_def)

text \<open>A write of a file: what it does to that file, and to the others nothing.\<close>

lemma file_leads:
  fixes d q v
  defines "N \<equiv> \<lambda>d'. same_nodes (\<lambda>p. p \<noteq> q) d d' \<and> same_pending d d' \<and> same_status d d'"
    and "l \<equiv> s_node (d_live d) q" and "c \<equiv> s_node (d_card d) q" and "x \<equiv> node_of v"
  shows "leads (write_file env q v)
    (\<lambda>_ d'. N d' \<and> s_node (d_live d') q = x \<and> (s_node (d_card d') q = x \<or> x = None \<and> l = None \<and> s_node (d_card d') q = c))
    (\<lambda>d'. N d' \<and> s_node (d_live d') q \<in> {l, x} \<and> s_node (d_card d') q \<in> {c, l})
    (\<lambda>d'. N d' \<and> s_node (d_live d') q = l \<and> s_node (d_card d') q \<in> {c, l, x}) d"
proof (cases "\<not> safe_name q \<or> l = Some Special \<or> v = None \<and> l = None")
  case True
  then show ?thesis by (auto simp: leads_def write_file_def N_def l_def c_def x_def node_of_def)
next
  case False
  then have "write_file env q v d = commit env (\<lambda>s. s\<lparr>s_node := (s_node s)(q := x)\<rparr>) d"
    by (auto simp: write_file_def l_def x_def)
  then have eq: "leads (write_file env q v) Q R C d = leads (commit env (\<lambda>s. s\<lparr>s_node := (s_node s)(q := x)\<rparr>)) Q R C d"
    for Q R C by (simp add: leads_def)
  show ?thesis unfolding eq
    by (rule commit_leads) (auto simp: N_def l_def c_def same_nodes_def same_pending_def same_status_def)
qed

section \<open>Plans\<close>

lemma read_node_of:
  "read_node fs n = Inr f \<Longrightarrow> node_of f = fs n"
  "read_node fs n = Inr (Some g) \<Longrightarrow> f_path g = n"
  by (auto simp: read_node_def node_of_def split: option.splits node.splits if_splits)

lemma plan_changes_before: "plan_changes fs d ns = Inr cs \<Longrightarrow> c \<in> set cs \<Longrightarrow> node_of (ch_before c) = fs (ch_path c)"
proof (induction ns arbitrary: cs)
  case (Cons n ns)
  then obtain b r where "read_node fs n = Inr b" "plan_changes fs d ns = Inr r"
    by (auto simp: Let_def split: sum.splits)
  with Cons show ?case by (auto simp: Let_def read_node_of split: if_splits)
qed simp

lemma recapture_before: "recapture fs cs = Inr r \<Longrightarrow> c \<in> set r \<Longrightarrow> node_of (ch_before c) = fs (ch_path c)"
  by (induction cs arbitrary: r) (auto simp: read_node_of split: sum.splits)

lemma read_all_files: "read_all fs tot ns = Inr r \<Longrightarrow> f \<in> set r \<Longrightarrow> node_of (Some f) = fs (f_path f)"
proof (induction ns arbitrary: tot r)
  case (Cons n ns)
  then show ?case by (auto simp: read_node_of split: sum.splits option.splits if_splits)
qed simp

lemma inventory_files: "inventory E fs = Inr r \<Longrightarrow> f \<in> set r \<Longrightarrow> node_of (Some f) = fs (f_path f)"
  by (auto simp: inventory_def Let_def dest: read_all_files split: if_splits)

lemma Prepare_before:
  "Prepare P E fs a opt = Inr (q, v) \<Longrightarrow> c \<in> set (pl_changes q) \<Longrightarrow> node_of (ch_before c) = fs (ch_path c)"
  unfolding Prepare_def
  by (auto simp: Let_def plan_changes_before split: sum.splits option.splits prod.splits)

lemma renewed_before:
  assumes "renewed P E fs p = Inr q" and "c \<in> set (pl_changes q)"
  shows "node_of (ch_before c) = fs (ch_path c)"
proof (cases "op_action (pl_options p) = ''reset''")
  case True
  then show ?thesis using assms by (auto simp: renewed_def dest!: Prepare_before split: sum.splits)
next
  case False
  then obtain cs files where r: "recapture fs (pl_changes p) = Inr cs" "inventory E fs = Inr files"
      "pl_changes q = cs @ appended p files"
    using assms(1) by (auto simp: renewed_def split: sum.splits)
  then show ?thesis using assms(2) recapture_before [OF r(1)] inventory_files [OF r(2)] by (auto simp: appended_def)
qed

lemma refresh_facts:
  assumes "refresh P E fs p = Inr q"
  shows "pl_started q" and "validatePlan q = None" and "c \<in> set (pl_changes q) \<Longrightarrow> node_of (ch_before c) = fs (ch_path c)"
    and "c \<in> set (pl_changes q) \<Longrightarrow> managed (ch_path c)"
    and "c \<in> set (pl_changes q) \<Longrightarrow> target q fs (ch_path c) = node_of (ch_after c)"
proof -
  obtain r where r: "renewed P E fs p = Inr r" "q = r\<lparr>pl_started := True\<rparr>" "validatePlan q = None"
    using assms by (auto simp: refresh_def Let_def split: sum.splits option.splits if_splits)
  then show "pl_started q" "validatePlan q = None" by simp_all
  show "c \<in> set (pl_changes q) \<Longrightarrow> node_of (ch_before c) = fs (ch_path c)"
    using renewed_before [OF r(1)] r(2) by simp
  obtain t where t: "plan_files [] 0 (pl_changes q) = Inr t" using validatePlan_files [OF r(3)] by blast
  show "c \<in> set (pl_changes q) \<Longrightarrow> managed (ch_path c)" using plan_files_change [OF t] by blast
  have "distinct (map fst (map (\<lambda>c. (ch_path c, node_of (ch_after c))) (pl_changes q)))"
    using plan_files_distinct [OF t] by (simp add: comp_def)
  then show "c \<in> set (pl_changes q) \<Longrightarrow> target q fs (ch_path c) = node_of (ch_after c)"
    by (auto simp: target_def intro!: map_of_eq_Some_iff [THEN iffD2, THEN arg_cong [where f = "case_option _ _"], THEN trans])
qed

lemma target_other: "q \<notin> ch_path ` set (pl_changes p) \<Longrightarrow> target p n0 q = n0 q"
  by (auto simp: target_def image_iff split: option.splits dest!: map_of_SomeD)

section \<open>Safe states\<close>

lemma dev_ok_untouched:
  "untouched n0 d \<Longrightarrow> pend_in (insert (Journal p0) (running P E n0 p0)) d \<Longrightarrow> dev_ok P E n0 p0 d"
  by (auto simp: dev_ok_def mixed_def store_ok_def untouched_def pend_in_def fun_eq_iff)

lemma dev_ok_between:
  "node_in (\<lambda>q. {n0 q, goal P E n0 p0 q}) d \<Longrightarrow> pend_in (running P E n0 p0) d \<Longrightarrow> dev_ok P E n0 p0 d"
  unfolding dev_ok_def mixed_def store_ok_def pend_in_def node_in_def by (metis insert_iff singletonD)

lemma dev_ok_ended:
  assumes "node_in (\<lambda>q. {h q}) d" and "pend_in (insert NoJournal (running P E n0 p0)) d" and "status_in {Some st} d"
    and "st = Complete \<and> h = goal P E n0 p0 \<or> st = Failed \<and> h = n0"
  shows "dev_ok P E n0 p0 d"
proof -
  have "store_ok P E n0 p0 m" if "mixed d m" for m
  proof -
    have m: "s_status m = Some st" "\<forall>q. managed q \<longrightarrow> s_node m q = h q" "s_pending m \<in> insert NoJournal (running P E n0 p0)"
      using that assms(1-3) unfolding mixed_def status_in_def node_in_def pend_in_def by (metis insert_iff singletonD)+
    then show ?thesis using assms(4) by (auto simp: store_ok_def settled_def)
  qed
  then show ?thesis by (simp add: dev_ok_def)
qed

lemma dev_ok_abandoned:
  assumes "untouched n0 d" and "pend_in (insert NoJournal (insert (Journal p0) (running P E n0 p0))) d"
    and "status_in {Some Failed} d"
  shows "dev_ok P E n0 p0 d"
proof -
  have "store_ok P E n0 p0 m" if "mixed d m" for m
    using that assms unfolding mixed_def untouched_def pend_in_def status_in_def
    by (auto simp: store_ok_def settled_def fun_eq_iff)
  then show ?thesis by (simp add: dev_ok_def)
qed

section \<open>The loops\<close>

text \<open>
  Writing the files of a plan, to the planned contents or back: \<open>h\<close> is what they become, \<open>I\<close> holds
  before and between the writes, and \<open>J\<close> after a failed one.
\<close>

lemma changes_lead:
  assumes tidy: "\<And>d q. I d \<Longrightarrow> node_in A d \<Longrightarrow> managed q \<Longrightarrow> h q = None \<Longrightarrow> s_node (d_live d) q = None \<Longrightarrow> s_node (d_card d) q = None"
    and go_on: "\<And>d d' q. I d \<Longrightarrow> same_nodes (\<lambda>p. p \<noteq> q) d d' \<Longrightarrow> s_node (d_live d') q = s_node (d_card d') q \<Longrightarrow> I d'"
    and fails: "\<And>d d' q. I d \<Longrightarrow> same_nodes (\<lambda>p. p \<noteq> q) d d' \<Longrightarrow> s_node (d_live d') q \<in> {s_node (d_live d) q, h q} \<Longrightarrow>
       s_node (d_card d') q \<in> {s_node (d_card d) q, s_node (d_live d) q} \<Longrightarrow> J d'"
    and A: "\<And>q. h q \<in> A q"
    and cs: "\<And>c. c \<in> set cs \<Longrightarrow> node_of (f c) = h (ch_path c) \<and> managed (ch_path c)"
    and pre: "node_in A d" "pend_in S d" "I d" "both D h d"
  shows "leads (apply_changes env f cs)
     (\<lambda>_ d'. node_in A d' \<and> pend_in S d' \<and> both (D \<union> ch_path ` set cs) h d')
     (\<lambda>d'. node_in A d' \<and> pend_in S d' \<and> J d') (\<lambda>d'. node_in A d' \<and> pend_in S d') d"
  using cs pre
proof (induction cs arbitrary: d D)
  case Nil
  then show ?case by simp
next
  case (Cons c cs)
  let ?q = "ch_path c"
  have c: "node_of (f c) = h ?q" "managed ?q" using Cons.prems(1) by simp_all
  have node: "node_in A d'" if "same_nodes (\<lambda>p. p \<noteq> ?q) d d'" "s_node (d_live d') ?q \<in> {s_node (d_live d) ?q, s_node (d_card d) ?q, h ?q}"
      "s_node (d_card d') ?q \<in> {s_node (d_live d) ?q, s_node (d_card d) ?q, h ?q}" for d'
    unfolding node_in_def
  proof (intro allI impI)
    fix p assume p: "managed p"
    then have "s_node (d_live d) p \<in> A p" "s_node (d_card d) p \<in> A p" using Cons.prems(2) by (simp_all add: node_in_def)
    then show "s_node (d_live d') p \<in> A p \<and> s_node (d_card d') p \<in> A p"
      using that A [of p] by (cases "p = ?q") (auto simp: same_nodes_def)
  qed
  have next': "leads (apply_changes env f cs)
      (\<lambda>_ d'. node_in A d' \<and> pend_in S d' \<and> both (D \<union> ch_path ` set (c # cs)) h d')
      (\<lambda>d'. node_in A d' \<and> pend_in S d' \<and> J d') (\<lambda>d'. node_in A d' \<and> pend_in S d') d'"
    if s: "same_nodes (\<lambda>p. p \<noteq> ?q) d d'" "same_pending d d'" "s_node (d_live d') ?q = h ?q" "s_node (d_card d') ?q = h ?q" for d'
  proof -
    have "both (insert ?q D) h d'"
      using Cons.prems(5) s(1,3,4) by (auto simp: both_def same_nodes_def) (metis insert_iff singletonD)+
    then have "leads (apply_changes env f cs)
      (\<lambda>_ d'. node_in A d' \<and> pend_in S d' \<and> both (insert ?q D \<union> ch_path ` set cs) h d')
      (\<lambda>d'. node_in A d' \<and> pend_in S d' \<and> J d') (\<lambda>d'. node_in A d' \<and> pend_in S d') d'"
      using Cons.prems(1) node [OF s(1)] s(3,4) keeps(6) [OF s(2) Cons.prems(3)] go_on [OF Cons.prems(4) s(1)]
      by (intro Cons.IH) auto
    then show ?thesis by simp
  qed
  show ?case
    unfolding apply_changes.simps leads_andThen
  proof (rule leads_mono [OF file_leads])
    fix x d'
    assume *: "(same_nodes (\<lambda>p. p \<noteq> ?q) d d' \<and> same_pending d d' \<and> same_status d d') \<and>
        s_node (d_live d') ?q = node_of (f c) \<and> (s_node (d_card d') ?q = node_of (f c) \<or>
          node_of (f c) = None \<and> s_node (d_live d) ?q = None \<and> s_node (d_card d') ?q = s_node (d_card d) ?q)"
    then have "s_node (d_card d') ?q = h ?q" using tidy [OF Cons.prems(4) Cons.prems(2) c(2)] c(1) by auto
    with * c(1) show "leads (apply_changes env f cs)
      (\<lambda>_ d'. node_in A d' \<and> pend_in S d' \<and> both (D \<union> ch_path ` set (c # cs)) h d')
      (\<lambda>d'. node_in A d' \<and> pend_in S d' \<and> J d') (\<lambda>d'. node_in A d' \<and> pend_in S d') d'" by (intro next') auto
  qed (use node keeps(6) [OF _ Cons.prems(3)] fails [OF Cons.prems(4)] c(1) in auto)
qed

section \<open>The phases\<close>

lemma untouched_nodes: "untouched n0 d \<Longrightarrow> node_in (\<lambda>q. {n0 q}) d \<and> agree d"
  by (auto simp: untouched_def node_in_def agree_def)

lemma node_in_mono: "node_in A d \<Longrightarrow> (\<And>q. A q \<subseteq> B q) \<Longrightarrow> node_in B d"
  unfolding node_in_def by blast

lemma pend_in_mono: "pend_in S d \<Longrightarrow> S \<subseteq> T \<Longrightarrow> pend_in T d"
  by (auto simp: pend_in_def)

lemma finish_ok:
  assumes "node_in (\<lambda>q. {h q}) d" and "pend_in (running P E n0 p0) d"
    and h: "st = Complete \<and> h = goal P E n0 p0 \<or> st = Failed \<and> h = n0"
  shows "leads (finish env st) (\<lambda>_. dev_ok P E n0 p0) (dev_ok P E n0 p0) (dev_ok P E n0 p0) d"
  unfolding finish_def leads_andThen
proof (rule leads_mono [OF status_leads [of UNIV]])
  have between: "dev_ok P E n0 p0 d'" if "same_nodes (\<lambda>_. True) d d' \<and> same_pending d d'" for d'
    using that keeps(1) [OF keeps(4) assms(1)] keeps(6) [OF _ assms(2)] h
    by (intro dev_ok_between) (auto intro: node_in_mono)
  show "dev_ok P E n0 p0 d'" if "same_nodes (\<lambda>_. True) d d' \<and> same_pending d d'" for d' using between [OF that] .
  show "dev_ok P E n0 p0 d'" if "same_nodes (\<lambda>_. True) d d' \<and> same_pending d d'" for d' using between [OF that] .
  show "status_in UNIV d" by (simp add: status_in_def)
  fix x d' assume d': "status_in {Some st} d' \<and> same_nodes (\<lambda>_. True) d d' \<and> same_pending d d'"
  then have n: "node_in (\<lambda>q. {h q}) d'" and p: "pend_in (running P E n0 p0) d'"
    using keeps(1) [OF keeps(4) assms(1)] keeps(6) [OF _ assms(2)] by auto
  have ended: "dev_ok P E n0 p0 e" if "pend_in (insert NoJournal (running P E n0 p0)) e" "same_nodes (\<lambda>_. True) d' e" "same_status d' e" for e
    using that d' keeps(1) [OF keeps(4) n] keeps(7) by (intro dev_ok_ended [OF _ _ _ h]) auto
  show "leads (write_pending env NoJournal) (\<lambda>_. dev_ok P E n0 p0) (dev_ok P E n0 p0) (dev_ok P E n0 p0) d'"
    unfolding write_pending_def
    by (rule leads_mono [OF pending_leads [OF p]]) (auto intro: ended pend_in_mono)
qed

lemma rollback_ok:
  assumes p: "refresh P E n0 p0 = Inr p" and q: "q = p \<or> q = rolled p"
    and pre: "node_in (\<lambda>q. {n0 q, goal P E n0 p0 q}) d" "ahead (goal P E n0 p0) d" "pend_in {Journal q} d"
  shows "leads (rollback env q) (\<lambda>_ d'. node_in (\<lambda>q. {n0 q}) d' \<and> pend_in (running P E n0 p0) d')
    (dev_ok P E n0 p0) (dev_ok P E n0 p0) d"
proof -
  let ?A = "\<lambda>q. {n0 q, goal P E n0 p0 q}" and ?R = "running P E n0 p0"
  note ok = dev_ok_between [of n0 P E p0]
  have cs: "pl_changes q = pl_changes p" using q by (auto simp: rolled_def)
  have run: "Journal q \<in> ?R" "Journal (q\<lparr>pl_rollingBack := True\<rparr>) \<in> ?R"
    using p q by (auto simp: running_def rolled_def)
  have goal: "goal P E n0 p0 = target p n0" by (simp add: goal_def p)
  have loop: "leads (apply_changes env ch_before (pl_changes q)) (\<lambda>_ d'. node_in (\<lambda>q. {n0 q}) d' \<and> pend_in ?R d')
      (dev_ok P E n0 p0) (dev_ok P E n0 p0) d'"
    if d': "node_in ?A d'" "ahead (goal P E n0 p0) d'" "pend_in ?R d'" for d'
  proof (rule leads_mono [OF changes_lead [where I = "ahead (goal P E n0 p0)" and J = "\<lambda>_. True" and A = ?A and h = n0 and S = ?R and D = "{}"]])
    show "s_node (d_card e) q = None" if "ahead (goal P E n0 p0) e" "node_in ?A e" "managed q" "n0 q = None" "s_node (d_live e) q = None" for e q
      using that unfolding ahead_def node_in_def by (metis insert_iff singletonD)
    show "ahead (goal P E n0 p0) e'" if "ahead (goal P E n0 p0) e" "same_nodes (\<lambda>p. p \<noteq> q) e e'"
        "s_node (d_live e') q = s_node (d_card e') q" for e e' q
      using that unfolding ahead_def same_nodes_def by (metis insert_iff singletonD)
    show "node_of (ch_before c) = n0 (ch_path c) \<and> managed (ch_path c)" if "c \<in> set (pl_changes q)" for c
      using that refresh_facts(3,4) [OF p] cs by simp
    fix x e assume e: "node_in ?A e \<and> pend_in ?R e \<and> both ({} \<union> ch_path ` set (pl_changes q)) n0 e"
    show "node_in (\<lambda>q. {n0 q}) e \<and> pend_in ?R e"
      using e target_other [of _ p n0] cs goal unfolding node_in_def both_def by (metis Un_empty_left insert_iff singletonD singletonI)
  qed (use d' ok in \<open>auto simp: both_def\<close>)
  show ?thesis
  proof (cases "pl_rollingBack q")
    case True
    then show ?thesis using loop [of d] pre pend_in_mono [OF pre(3)] run by (simp add: rollback_def)
  next
    case False
    have "leads (write_pending env (Journal (q\<lparr>pl_rollingBack := True\<rparr>)))
        (\<lambda>_. leads (apply_changes env ch_before (pl_changes q)) (\<lambda>_ d'. node_in (\<lambda>q. {n0 q}) d' \<and> pend_in ?R d')
           (dev_ok P E n0 p0) (dev_ok P E n0 p0)) (dev_ok P E n0 p0) (dev_ok P E n0 p0) d"
      unfolding write_pending_def
    proof (rule leads_mono [OF pending_leads [OF pre(3)]])
      fix x d' assume "pend_in {Journal (q\<lparr>pl_rollingBack := True\<rparr>)} d' \<and> same_nodes (\<lambda>_. True) d d' \<and> same_status d d'"
      then show "leads (apply_changes env ch_before (pl_changes q)) (\<lambda>_ d'. node_in (\<lambda>q. {n0 q}) d' \<and> pend_in ?R d')
           (dev_ok P E n0 p0) (dev_ok P E n0 p0) d'"
        using keeps(1) [OF keeps(4) pre(1)] keeps(2) [OF keeps(4) pre(2)] run(2)
        by (intro loop) (auto intro: pend_in_mono)
    qed (use keeps(1) [OF keeps(4) pre(1)] run in \<open>auto intro!: ok intro: pend_in_mono\<close>)
    then show ?thesis using False by (simp add: rollback_def)
  qed
qed

lemma forward_ok:
  assumes p: "refresh P E n0 p0 = Inr p" and q: "q = p \<or> q = rolled p"
    and pre: "node_in (\<lambda>q. {n0 q, goal P E n0 p0 q}) d" "agree d" "pend_in {Journal q} d"
  shows "leads (apply_changes env ch_after (pl_changes q))
    (\<lambda>_ d'. node_in (\<lambda>q. {goal P E n0 p0 q}) d' \<and> pend_in {Journal q} d')
    (\<lambda>d'. node_in (\<lambda>q. {n0 q, goal P E n0 p0 q}) d' \<and> ahead (goal P E n0 p0) d' \<and> pend_in {Journal q} d')
    (\<lambda>d'. node_in (\<lambda>q. {n0 q, goal P E n0 p0 q}) d' \<and> pend_in {Journal q} d') d"
proof -
  let ?g = "goal P E n0 p0"
  let ?A = "\<lambda>q. {n0 q, ?g q}"
  have cs: "pl_changes q = pl_changes p" using q by (auto simp: rolled_def)
  have goal: "?g = target p n0" by (simp add: goal_def p)
  show ?thesis
  proof (rule leads_mono [OF changes_lead [where I = agree and J = "ahead ?g" and A = ?A and h = ?g and S = "{Journal q}" and D = "{}"]])
    show "s_node (d_card e) q = None" if "agree e" "managed q" "s_node (d_live e) q = None" for e q
      using that unfolding agree_def by metis
    show "agree e'" if "agree e" "same_nodes (\<lambda>p. p \<noteq> q) e e'" "s_node (d_live e') q = s_node (d_card e') q" for e e' q
      using that unfolding agree_def same_nodes_def by (metis insert_iff singletonD)
    show "ahead ?g e'" if "agree e" "same_nodes (\<lambda>p. p \<noteq> q) e e'" "s_node (d_live e') q \<in> {s_node (d_live e) q, ?g q}"
        "s_node (d_card e') q \<in> {s_node (d_card e) q, s_node (d_live e) q}" for e e' q
      using that unfolding agree_def ahead_def same_nodes_def by (metis insert_iff singletonD)
    show "node_of (ch_after c) = ?g (ch_path c) \<and> managed (ch_path c)" if "c \<in> set (pl_changes q)" for c
      using that refresh_facts(4,5) [OF p] cs goal by simp
    fix x e assume e: "node_in ?A e \<and> pend_in {Journal q} e \<and> both ({} \<union> ch_path ` set (pl_changes q)) ?g e"
    show "node_in (\<lambda>q. {?g q}) e \<and> pend_in {Journal q} e"
      using e target_other [of _ p n0] cs goal unfolding node_in_def both_def by (metis Un_empty_left insert_iff singletonD singletonI)
  qed (use pre in \<open>auto simp: both_def\<close>)
qed

lemma quiet_all: "same_nodes (\<lambda>_. True) d d' \<Longrightarrow> same_pending d d' \<Longrightarrow> same_status d d' \<Longrightarrow> quiet d d'"
  by (simp add: quiet_def keeps(4))

lemma remove_quiet:
  assumes "harmless remove"
  shows "leads (remove_packages env remove q) (\<lambda>_. quiet d) (quiet d) (quiet d) d"
proof -
  have r: "leads (caught (remove names)) (\<lambda>_. quiet d) (quiet d) (quiet d) d'" if "quiet d d'" for names d'
  proof (rule leads_caught)
    have "quiet d (snd (remove names d'))" using assms that by (auto simp: harmless_def intro: quiet_trans)
    then show "leads (remove names) (\<lambda>_. quiet d) (\<lambda>d'. \<forall>e. quiet d d') (quiet d) d'"
      by (auto simp: leads_def split: prod.splits res.splits)
  qed
  show ?thesis
    by (auto simp: remove_packages_def intro!: look_leads quiet_all r split: sum.splits option.splits)
qed

lemma execute_ok:
  assumes p: "refresh P E n0 p0 = Inr p" and q: "q = p \<or> q = rolled p" and "harmless remove"
    and pre: "node_in (\<lambda>q. {n0 q, goal P E n0 p0 q}) d" "agree d" "pend_in {Journal q} d"
  shows "leads (execute env remove q) (\<lambda>_. dev_ok P E n0 p0) (dev_ok P E n0 p0) (dev_ok P E n0 p0) d"
proof -
  let ?A = "\<lambda>q. {n0 q, goal P E n0 p0 q}" and ?R = "running P E n0 p0"
  have run: "Journal q \<in> ?R" using p q by (auto simp: running_def)
  have between: "dev_ok P E n0 p0 d'" if "node_in ?A d'" "pend_in {Journal q} d'" for d'
    using that run by (intro dev_ok_between) (auto intro: pend_in_mono)
  have undo: "leads (rollback env q) (\<lambda>_. leads (finish env Failed) (\<lambda>_. dev_ok P E n0 p0) (dev_ok P E n0 p0) (dev_ok P E n0 p0))
      (dev_ok P E n0 p0) (dev_ok P E n0 p0) d'"
    if "node_in ?A d'" "ahead (goal P E n0 p0) d'" "pend_in {Journal q} d'" for d'
    by (rule leads_mono [OF rollback_ok [OF p q that]]) (auto intro: finish_ok)
  have go: "leads (case err of None \<Rightarrow> caught (apply_changes env ch_after (pl_changes q)) | Some e \<Rightarrow> ret (Some e))
      (\<lambda>err. leads (case err of None \<Rightarrow> finish env Complete | Some e \<Rightarrow> andThen (rollback env q) (\<lambda>_. finish env Failed))
        (\<lambda>_. dev_ok P E n0 p0) (dev_ok P E n0 p0) (dev_ok P E n0 p0)) (dev_ok P E n0 p0) (dev_ok P E n0 p0) d'"
    if d': "node_in ?A d'" "agree d'" "pend_in {Journal q} d'" for err d'
  proof (cases err)
    case None
    have "leads (caught (apply_changes env ch_after (pl_changes q)))
      (\<lambda>err. leads (case err of None \<Rightarrow> finish env Complete | Some e \<Rightarrow> andThen (rollback env q) (\<lambda>_. finish env Failed))
        (\<lambda>_. dev_ok P E n0 p0) (dev_ok P E n0 p0) (dev_ok P E n0 p0)) (dev_ok P E n0 p0) (dev_ok P E n0 p0) d'"
      by (rule leads_caught, rule leads_mono [OF forward_ok [OF p q d']])
         (use run in \<open>auto intro: finish_ok undo between pend_in_mono\<close>)
    then show ?thesis using None by simp
  next
    case (Some e)
    have "ahead (goal P E n0 p0) d'" using d'(2) by (simp add: ahead_def agree_def)
    then show ?thesis using Some undo d' by simp
  qed
  show ?thesis unfolding execute_def leads_andThen
  proof (rule leads_mono [OF remove_quiet [OF assms(3)]])
    fix err d' assume "quiet d d'"
    then have "node_in ?A d'" "agree d'" "pend_in {Journal q} d'"
      using keeps(1) [OF _ pre(1)] keeps(3) [OF _ pre(2)] keeps(6) [OF _ pre(3)] by (auto simp: quiet_def)
    then show "leads (case err of None \<Rightarrow> caught (apply_changes env ch_after (pl_changes q)) | Some e \<Rightarrow> ret (Some e))
      (\<lambda>err. leads (case err of None \<Rightarrow> finish env Complete | Some e \<Rightarrow> andThen (rollback env q) (\<lambda>_. finish env Failed))
        (\<lambda>_. dev_ok P E n0 p0) (dev_ok P E n0 p0) (dev_ok P E n0 p0)) (dev_ok P E n0 p0) (dev_ok P E n0 p0) d'"
      by (rule go)
  qed (auto simp: quiet_def intro!: between keeps(1) [OF _ pre(1)] keeps(6) [OF _ pre(3)])
qed

lemma abandon_ok:
  assumes "untouched n0 d" and "pend_in (insert (Journal p0) (running P E n0 p0)) d"
  shows "leads (abandon env) (\<lambda>_. dev_ok P E n0 p0) (dev_ok P E n0 p0) (dev_ok P E n0 p0) d"
  unfolding abandon_def leads_andThen
proof (rule leads_mono [OF status_leads [of UNIV]])
  show "status_in UNIV d" by (simp add: status_in_def)
  fix x d' assume d': "status_in {Some Failed} d' \<and> same_nodes (\<lambda>_. True) d d' \<and> same_pending d d'"
  then have u: "untouched n0 d'" and p: "pend_in (insert (Journal p0) (running P E n0 p0)) d'"
    using keeps(5) [OF _ assms(1)] keeps(6) [OF _ assms(2)] by auto
  have ended: "dev_ok P E n0 p0 e" if "pend_in (insert NoJournal (insert (Journal p0) (running P E n0 p0))) e"
      "same_nodes (\<lambda>_. True) d' e" "same_status d' e" for e
    using that d' keeps(5) [OF _ u] keeps(7) by (intro dev_ok_abandoned) auto
  show "leads (retirePending env) (\<lambda>_. dev_ok P E n0 p0) (dev_ok P E n0 p0) (dev_ok P E n0 p0) d'"
    unfolding retirePending_def
    by (rule leads_mono [OF pending_leads [OF p]]) (auto intro: ended pend_in_mono)
qed (use keeps(5) [OF _ assms(1)] keeps(6) [OF _ assms(2)] in \<open>auto intro: dev_ok_untouched\<close>)

lemma start_plan_ok:
  fixes P E n0 p0
  assumes "untouched n0 d" and "pend_in {Journal p0} d" and "\<not> pl_started p0"
  defines "X \<equiv> \<lambda>d'. untouched n0 d' \<and> pend_in (insert (Journal p0) (running P E n0 p0)) d'"
  shows "leads (start_plan P E env p0) (\<lambda>q d'. refresh P E n0 p0 = Inr q \<and> untouched n0 d' \<and> pend_in {Journal q} d') X X d"
proof -
  have x: "X d'" if "untouched n0 d'" "pend_in S d'" "S \<subseteq> insert (Journal p0) (running P E n0 p0)" for S d'
    using that by (auto simp: X_def intro: pend_in_mono)
  have wr: "leads (write_pending env (Journal q)) (\<lambda>_ d'. refresh P E n0 p0 = Inr q \<and> untouched n0 d' \<and> pend_in {Journal q} d') X X d'"
    if q: "refresh P E n0 p0 = Inr q" and d': "untouched n0 d'" "pend_in {Journal p0} d'" for q d'
    unfolding write_pending_def
    by (rule leads_mono [OF pending_leads [OF d'(2)]]) (use q keeps(5) [OF _ d'(1)] in \<open>auto simp: running_def intro: x\<close>)
  have "leads (look env) (\<lambda>s. leads (case refresh P E (s_node s) p0 of Inl e \<Rightarrow> raise e
      | Inr q \<Rightarrow> andThen (write_pending env (Journal q)) (\<lambda>_. ret q))
      (\<lambda>q d'. refresh P E n0 p0 = Inr q \<and> untouched n0 d' \<and> pend_in {Journal q} d') X X) X X d"
  proof (rule look_leads)
    fix d' assume s: "same_nodes (\<lambda>_. True) d d'" "same_pending d d'"
    have u: "untouched n0 d'" and p: "pend_in {Journal p0} d'" using keeps(5) [OF s(1) assms(1)] keeps(6) [OF s(2) assms(2)] .
    have n: "s_node (d_live d') = n0" using u by (simp add: untouched_def)
    have "X d'" using x [OF u p] by simp
    then show "leads (case refresh P E (s_node (d_live d')) p0 of Inl e \<Rightarrow> raise e
      | Inr q \<Rightarrow> andThen (write_pending env (Journal q)) (\<lambda>_. ret q))
      (\<lambda>q d'. refresh P E n0 p0 = Inr q \<and> untouched n0 d' \<and> pend_in {Journal q} d') X X d' \<and> X d' \<and> X d'"
      using wr [OF _ u p] by (auto simp: n split: sum.splits)
  qed
  moreover have "X d" using x [OF assms(1,2)] by simp
  ultimately show ?thesis using assms(3) by (simp add: start_plan_def split: option.splits)
qed

lemma begin_plan_ok:
  assumes "untouched n0 d" and "pend_in {Journal p0} d" and "\<not> pl_started p0"
  shows "leads (begin_plan P E env p0)
    (\<lambda>r d'. case r of None \<Rightarrow> dev_ok P E n0 p0 d' | Some q \<Rightarrow> refresh P E n0 p0 = Inr q \<and> untouched n0 d' \<and> pend_in {Journal q} d')
    (dev_ok P E n0 p0) (dev_ok P E n0 p0) d"
proof -
  note start = start_plan_ok [OF assms]
  show ?thesis
  proof (cases "pl_rollingBack p0")
    case True
    then show ?thesis using assms(3)
      by (auto simp: begin_plan_def intro!: leads_mono [OF start] dev_ok_untouched)
  next
    case False
    have "leads (onErr (andThen (start_plan P E env p0) (\<lambda>q. ret (Some q))) (\<lambda>e. andThen (abandon env) (\<lambda>_. ret None)))
      (\<lambda>r d'. case r of None \<Rightarrow> dev_ok P E n0 p0 d' | Some q \<Rightarrow> refresh P E n0 p0 = Inr q \<and> untouched n0 d' \<and> pend_in {Journal q} d')
      (dev_ok P E n0 p0) (dev_ok P E n0 p0) d"
      by (rule leads_onErr, unfold leads_andThen leads_ret, rule leads_mono [OF start])
         (auto intro: abandon_ok dev_ok_untouched)
    then show ?thesis using False assms(3) by (simp add: begin_plan_def)
  qed
qed

lemma Resume_ok:
  assumes "harmless remove" and "\<not> pl_started p0" and "store_ok P E n0 p0 (d_live d)" and "d_card d = d_live d"
  shows "dev_ok P E n0 p0 (snd (Resume P E env remove d))"
proof (rule leads_snd, unfold Resume_def leads_andThen, rule look_leads)
  let ?ok = "dev_ok P E n0 p0"
  fix d' assume s: "same_nodes (\<lambda>_. True) d d'" "same_pending d d'" "same_status d d'"
  then have same: "s_node (d_live d') = s_node (d_live d)" "s_node (d_card d') = s_node (d_live d)"
      "s_pending (d_live d') = s_pending (d_live d)" "s_pending (d_card d') = s_pending (d_live d)"
      "s_status (d_live d') = s_status (d_live d)" "s_status (d_card d') = s_status (d_live d)"
    using assms(4) by (auto simp: same_nodes_def same_pending_def same_status_def fun_eq_iff)
  have "store_ok P E n0 p0 m = store_ok P E n0 p0 (d_live d)" if "mixed d' m" for m
    using that same by (auto simp: mixed_def store_ok_def settled_def fun_eq_iff)
  then have ok: "?ok d'" using assms(3) by (simp add: dev_ok_def)
  have "leads (begin_plan P E env p) (\<lambda>q. leads (case q of None \<Rightarrow> ret () | Some q \<Rightarrow> execute env remove q) (\<lambda>_. ?ok) ?ok ?ok) ?ok ?ok d'"
    if p: "s_pending (d_live d) = Journal p" for p
  proof -
    consider "p = p0" "s_node (d_live d) = n0"
      | r where "refresh P E n0 p0 = Inr r" "p = r \<or> p = rolled r" "\<forall>q. managed q \<longrightarrow> s_node (d_live d) q \<in> {n0 q, goal P E n0 p0 q}"
      using assms(3) p by (auto simp: store_ok_def running_def split: sum.splits)
    then show ?thesis
    proof cases
      case 1
      then have "untouched n0 d'" "pend_in {Journal p0} d'" using same p by (auto simp: untouched_def pend_in_def)
      then show ?thesis unfolding 1(1)
        by (rule leads_mono [OF begin_plan_ok [OF _ _ assms(2)]])
           (auto split: option.splits dest: untouched_nodes intro!: execute_ok [OF _ _ assms(1)] intro: node_in_mono)
    next
      case 2
      have "pl_started p" using 2(1,2) refresh_facts(1) by (auto simp: rolled_def)
      moreover have "leads (execute env remove p) (\<lambda>_. ?ok) ?ok ?ok d'"
        using 2(3) same p
        by (intro execute_ok [OF 2(1,2) assms(1)]) (auto simp: node_in_def agree_def pend_in_def)
      ultimately show ?thesis using ok by (auto simp: begin_plan_def start_plan_def split: option.splits)
    qed
  qed
  then show "leads (case s_pending (d_live d') of NoJournal \<Rightarrow> ret () | Journal p \<Rightarrow> andThen (begin_plan P E env p)
      (\<lambda>q. case q of None \<Rightarrow> ret () | Some q \<Rightarrow> execute env remove q) | Corrupt \<Rightarrow> raise ErrJournal) (\<lambda>_. ?ok) ?ok ?ok d' \<and> ?ok d' \<and> ?ok d'"
    using ok same(3) by (auto split: journal.splits)
qed

section \<open>Starting the device\<close>

lemma unmanaged_programs: "\<not> managed ''usr/bin/picoclaw''" "prefix ''etc/kvm/acme/bin/'' q \<Longrightarrow> \<not> managed q"
  by (auto simp: managed_def allowed_def settings_def trees_def extra_paths_def prefix_def)

lemma unmanaged_write:
  assumes "\<not> managed q" and "quiet d d'"
  shows "leads (write_file env q v) (\<lambda>_. quiet d) (quiet d) (quiet d) d'"
proof -
  have "quiet d e" if "same_nodes (\<lambda>p. p \<noteq> q) d' e" "same_pending d' e" "same_status d' e" for e
  proof -
    have "same_nodes managed d' e" using that(1) assms(1) by (auto simp: same_nodes_def)
    then show ?thesis using that assms(2) by (auto simp: quiet_def intro: same_nodes_trans same_trans)
  qed
  then show ?thesis by (intro leads_mono [OF file_leads]) auto
qed

lemma delete_quiet:
  "list_all (\<lambda>q. \<not> managed q) ps \<Longrightarrow> quiet d d' \<Longrightarrow> leads (delete_files env ps) (\<lambda>_. quiet d) (quiet d) (quiet d) d'"
proof (induction ps arbitrary: d')
  case (Cons q ps)
  then show ?case by (auto intro!: leads_mono [OF unmanaged_write])
qed simp

lemma boot_remove_harmless:
  assumes "harmless apk"
  shows "harmless (boot_remove E env apk)"
  unfolding harmless_def
proof (intro allI)
  fix names d
  have acme: "leads (removeACMEBinaries E env) (\<lambda>_. quiet d) (quiet d) (quiet d) d'" if "quiet d d'" for d'
  proof -
    have "leads (delete_files env (rev (filter (\<lambda>p. prefix ''etc/kvm/acme/bin/'' p \<and> s_node (d_live d') p \<noteq> None) (e_universe E))))
      (\<lambda>_. quiet d) (quiet d) (quiet d) d'"
      using that unmanaged_programs(2) by (intro delete_quiet) (auto simp: list_all_iff)
    then show ?thesis by (simp add: leads_def removeACMEBinaries_def)
  qed
  have pico: "leads (write_file env ''usr/bin/picoclaw'' None)
      (\<lambda>_. leads (removeACMEBinaries E env) (\<lambda>_. quiet d) (quiet d) (quiet d)) (quiet d) (quiet d) d'" if "quiet d d'" for d'
    by (rule leads_mono [OF unmanaged_write [OF unmanaged_programs(1) that]]) (auto intro: acme)
  have "leads (apk names) (\<lambda>_. quiet d) (quiet d) (quiet d) d"
    using assms by (auto simp: harmless_def leads_def split: prod.splits res.splits) (metis snd_conv)+
  then have "leads (if names \<noteq> [] then apk names else ret ()) (\<lambda>_. quiet d) (quiet d) (quiet d) d" by simp
  then have "leads (boot_remove E env apk names) (\<lambda>_. quiet d) (quiet d) (quiet d) d"
    unfolding boot_remove_def leads_andThen by (rule leads_mono) (auto intro: pico)
  then show "quiet d (snd (boot_remove E env apk names d))" by (rule leads_snd)
qed

lemma power_cycle_mixed: "mixed d (d_live (power_cycle ev d)) \<and> d_card (power_cycle ev d) = d_live (power_cycle ev d)"
  by (simp add: power_cycle_def Let_def mixed_def flushed_def)

lemma start_up_ok:
  assumes "harmless apk" and "\<not> pl_started p0" and "dev_ok P E n0 p0 d"
  shows "dev_ok P E n0 p0 (start_up P E apk ev env d)"
proof -
  let ?d = "power_cycle ev d"
  have s: "store_ok P E n0 p0 (d_live ?d)" "d_card ?d = d_live ?d"
    using assms(3) power_cycle_mixed [of d ev] by (auto simp: dev_ok_def)
  have "dev_ok P E n0 p0 ?d"
  proof -
    have "store_ok P E n0 p0 m = store_ok P E n0 p0 (d_live ?d)" if "mixed ?d m" for m
      using that s(2) by (auto simp: mixed_def store_ok_def settled_def fun_eq_iff)
    then show ?thesis using s(1) by (simp add: dev_ok_def)
  qed
  then show ?thesis
    using Resume_ok [OF boot_remove_harmless [OF assms(1)] assms(2) s]
    by (simp add: start_up_def Boot_def)
qed

interpretation recovering: invariant_system "staged n0 p0" "starts P E apk"
  "\<lambda>d. harmless apk \<and> \<not> pl_started p0 \<longrightarrow> dev_ok P E n0 p0 d" for n0 p0 P E apk
proof
  fix d assume "staged n0 p0 d"
  then show "harmless apk \<and> \<not> pl_started p0 \<longrightarrow> dev_ok P E n0 p0 d"
    by (auto simp: staged_def untouched_def pend_in_def intro!: dev_ok_untouched)
next
  fix d d'
  show "starts P E apk d d' \<Longrightarrow> harmless apk \<and> \<not> pl_started p0 \<longrightarrow> dev_ok P E n0 p0 d \<Longrightarrow>
    harmless apk \<and> \<not> pl_started p0 \<longrightarrow> dev_ok P E n0 p0 d'"
    by (auto simp: starts_def intro: start_up_ok)
qed

section \<open>A recovery that is not disturbed\<close>

lemma good_commit:
  assumes "\<And>k. ev_out (env k) = Good"
    and "\<And>d'. same_nodes (\<lambda>_. True) d d' \<Longrightarrow> same_pending d d' \<Longrightarrow> same_status d d' \<Longrightarrow>
      Q (d'\<lparr>d_live := upd (d_live d'), d_card := upd (d_card d')\<rparr>)"
  shows "leads (commit env upd) (\<lambda>_. Q) R C d"
proof -
  obtain ev d' where t: "tick env d = (ev, d')" by fastforce
  then have "ev_out ev = Good" using assms(1) by (auto simp: tick_def Let_def)
  then show ?thesis using assms(2) [of d'] tick_same [OF t] by (simp add: leads_def commit_def t)
qed

lemma good_look:
  assumes "\<And>k. ev_out (env k) = Good"
    and "\<And>d'. same_nodes (\<lambda>_. True) d d' \<Longrightarrow> same_pending d d' \<Longrightarrow> same_status d d' \<Longrightarrow> Q (d_live d') d'"
  shows "leads (look env) Q R C d"
proof -
  obtain ev d' where t: "tick env d = (ev, d')" by fastforce
  then have "ev_out ev = Good" using assms(1) by (auto simp: tick_def Let_def)
  then show ?thesis using assms(2) [of d'] tick_same [OF t] by (simp add: leads_def look_def t)
qed

lemma safe_managed: "managed q \<Longrightarrow> safe_name q"
proof -
  have "safe_name p" if "p \<in> set extra_paths" for p
    using that by (auto simp: extra_paths_def safe_name_def path_Clean_def)
  moreover have "safe_name q" if "allowed q"
    using allowed_start [OF that] by (cases q) (auto simp: safe_name_def)
  ultimately show "managed q \<Longrightarrow> safe_name q" by (auto simp: managed_def)
qed

lemma good_file:
  assumes "\<And>k. ev_out (env k) = Good" and "managed q" and "agree d" and "s_node (d_live d) q \<noteq> Some Special"
  shows "leads (write_file env q v) (\<lambda>_ d'. same_nodes (\<lambda>p. p \<noteq> q) d d' \<and> same_pending d d' \<and>
    s_node (d_live d') q = node_of v \<and> s_node (d_card d') q = node_of v) R C d"
proof (cases "v = None \<and> s_node (d_live d) q = None")
  case True
  then show ?thesis using assms(2-4) safe_managed by (simp add: leads_def write_file_def agree_def node_of_def)
next
  case False
  then have "write_file env q v d = commit env (\<lambda>s. s\<lparr>s_node := (s_node s)(q := node_of v)\<rparr>) d"
    using assms(4) safe_managed [OF assms(2)] by (auto simp: write_file_def)
  then have eq: "leads (write_file env q v) Q R C d = leads (commit env (\<lambda>s. s\<lparr>s_node := (s_node s)(q := node_of v)\<rparr>)) Q R C d"
    for Q by (simp add: leads_def)
  show ?thesis unfolding eq
    by (rule good_commit [OF assms(1)]) (auto simp: same_nodes_def same_pending_def)
qed

lemma good_changes:
  assumes good: "\<And>k. ev_out (env k) = Good"
    and "\<And>c. c \<in> set cs \<Longrightarrow> managed (ch_path c) \<and> node_of (f c) = h (ch_path c)"
    and "node_in A d" "agree d" "pend_in S d" "both D h d"
    and A: "\<And>q. h q \<in> A q" "\<And>c. c \<in> set cs \<Longrightarrow> Some Special \<notin> A (ch_path c)"
  shows "leads (apply_changes env f cs) (\<lambda>_ d'. node_in A d' \<and> pend_in S d' \<and> both (D \<union> ch_path ` set cs) h d')
    (\<lambda>_. False) (\<lambda>_. False) d"
  using assms(2-6) A(2)
proof (induction cs arbitrary: d D)
  case (Cons c cs)
  let ?q = "ch_path c"
  have q: "managed ?q" "node_of (f c) = h ?q" using Cons.prems(1) by simp_all
  have "s_node (d_live d) ?q \<noteq> Some Special" using Cons.prems(2,6) q(1) unfolding node_in_def by (metis list.set_intros(1))
  note w = good_file [OF good q(1) Cons.prems(3) this]
  show ?case unfolding apply_changes.simps leads_andThen
  proof (rule leads_mono [OF w])
    fix x d' assume d': "same_nodes (\<lambda>p. p \<noteq> ?q) d d' \<and> same_pending d d' \<and>
      s_node (d_live d') ?q = node_of (f c) \<and> s_node (d_card d') ?q = node_of (f c)"
    have n: "node_in A d'" unfolding node_in_def
    proof (intro allI impI)
      fix p assume "managed p"
      then show "s_node (d_live d') p \<in> A p \<and> s_node (d_card d') p \<in> A p"
        using d' q(2) A(1) [of p] Cons.prems(2) by (cases "p = ?q") (auto simp: same_nodes_def node_in_def)
    qed
    have "agree d'" using d' Cons.prems(3) unfolding agree_def same_nodes_def by (metis insert_iff singletonD)
    moreover have "both (insert ?q D) h d'"
      using Cons.prems(5) d' q(2) by (auto simp: both_def same_nodes_def) (metis insert_iff singletonD)+
    ultimately have "leads (apply_changes env f cs)
      (\<lambda>_ d'. node_in A d' \<and> pend_in S d' \<and> both (insert ?q D \<union> ch_path ` set cs) h d') (\<lambda>_. False) (\<lambda>_. False) d'"
      using Cons.prems(1,6) n keeps(6) [OF _ Cons.prems(4)] d' by (intro Cons.IH) auto
    then show "leads (apply_changes env f cs)
      (\<lambda>_ d'. node_in A d' \<and> pend_in S d' \<and> both (D \<union> ch_path ` set (c # cs)) h d') (\<lambda>_. False) (\<lambda>_. False) d'"
      by simp
  qed simp_all
qed simp

lemma good_finish:
  assumes good: "\<And>k. ev_out (env k) = Good" and n: "node_in A d"
  shows "leads (finish env st) (\<lambda>_ d'. node_in A d' \<and> pend_in {NoJournal} d' \<and> status_in {Some st} d') (\<lambda>_. False) (\<lambda>_. False) d"
  unfolding finish_def leads_andThen write_status_def write_pending_def
proof (rule good_commit [OF good])
  fix d' assume s: "same_nodes (\<lambda>_. True) d d'"
  let ?d = "d'\<lparr>d_live := (d_live d')\<lparr>s_status := Some st\<rparr>, d_card := (d_card d')\<lparr>s_status := Some st\<rparr>\<rparr>"
  have n': "node_in A ?d" using keeps(1) [OF keeps(4) [OF s] n] by (simp add: node_in_def)
  show "leads (commit env (\<lambda>s. s\<lparr>s_pending := NoJournal\<rparr>)) (\<lambda>_ d'. node_in A d' \<and> pend_in {NoJournal} d' \<and> status_in {Some st} d')
      (\<lambda>_. False) (\<lambda>_. False) ?d"
  proof (rule good_commit [OF good])
    fix e assume e: "same_nodes (\<lambda>_. True) ?d e" "same_status ?d e"
    have "node_in A e" using keeps(1) [OF keeps(4) [OF e(1)] n'] .
    moreover have "status_in {Some st} e" using keeps(7) [OF e(2), of "{Some st}"] by (simp add: status_in_def)
    ultimately show "node_in A (e\<lparr>d_live := (d_live e)\<lparr>s_pending := NoJournal\<rparr>, d_card := (d_card e)\<lparr>s_pending := NoJournal\<rparr>\<rparr>) \<and>
      pend_in {NoJournal} (e\<lparr>d_live := (d_live e)\<lparr>s_pending := NoJournal\<rparr>, d_card := (d_card e)\<lparr>s_pending := NoJournal\<rparr>\<rparr>) \<and>
      status_in {Some st} (e\<lparr>d_live := (d_live e)\<lparr>s_pending := NoJournal\<rparr>, d_card := (d_card e)\<lparr>s_pending := NoJournal\<rparr>\<rparr>)"
      by (simp add: node_in_def pend_in_def status_in_def)
  qed
qed

lemma refresh_keeps:
  assumes "refresh P E n0 p0 = Inr p"
  shows "pl_options p = pl_options p0" and "pl_world p = pl_world p0" and "\<not> pl_rollingBack p0 \<Longrightarrow> \<not> pl_rollingBack p"
    and "op_action (pl_options p) = ''reset'' \<and> \<not> op_keepApps (pl_options p) \<Longrightarrow>
      \<exists>w. read_node n0 ''etc/apk/world'' = Inr (Some w) \<and> f_data w = pl_world p"
proof -
  obtain r where r: "renewed P E n0 p0 = Inr r" "p = r\<lparr>pl_started := True\<rparr>"
    and w: "op_action (pl_options r) = ''reset'' \<and> \<not> op_keepApps (pl_options r) \<Longrightarrow>
      \<exists>w. read_node n0 ''etc/apk/world'' = Inr (Some w) \<and> f_data w = pl_world r"
    using assms by (fastforce simp: refresh_def Let_def split: sum.splits option.splits if_splits)
  have "pl_options r = pl_options p0 \<and> pl_world r = pl_world p0 \<and> (\<not> pl_rollingBack p0 \<longrightarrow> \<not> pl_rollingBack r)"
    using r(1) by (auto simp: renewed_def Prepare_def Let_def split: if_splits sum.splits option.splits prod.splits)
  then show "pl_options p = pl_options p0" "pl_world p = pl_world p0" "\<not> pl_rollingBack p0 \<Longrightarrow> \<not> pl_rollingBack p"
    using r(2) by auto
  show "\<exists>w. read_node n0 ''etc/apk/world'' = Inr (Some w) \<and> f_data w = pl_world p"
    if "op_action (pl_options p) = ''reset'' \<and> \<not> op_keepApps (pl_options p)"
    using that w r(2) by simp
qed

lemma remaining_all:
  "removable w = Inr names \<Longrightarrow> \<exists>r. remainingRemovals w w approved = Inr r"
  by (auto simp: remainingRemovals_def list_ex_iff Let_def)

lemma good_remove:
  assumes good: "\<And>k. ev_out (env k) = Good" and p: "refresh P E n0 p0 = Inr p" and "removes remove" and "\<not> pl_rollingBack p"
    and "op_action (pl_options p) = ''reset'' \<and> \<not> op_keepApps (pl_options p) \<Longrightarrow> pl_world p \<noteq> []" and u: "untouched n0 d"
  shows "leads (remove_packages env remove p) (\<lambda>err d'. err = None \<and> quiet d d') (\<lambda>_. False) (\<lambda>_. False) d"
proof (cases "op_action (pl_options p) = ''reset'' \<and> \<not> op_keepApps (pl_options p)")
  case True
  obtain w where w: "read_node n0 ''etc/apk/world'' = Inr (Some w)" "f_data w = pl_world p" using refresh_keeps(4) [OF p True] by blast
  have "removable (pl_world p) = Inr (pl_removePackages p)"
    using validatePlan_names [OF refresh_facts(2) [OF p]] assms(5) [OF True] by simp
  then obtain names where names: "remainingRemovals (pl_world p) (pl_world p) (pl_removePackages p) = Inr names"
    using remaining_all by blast
  have "leads (look env) (\<lambda>s. leads (case read_node (s_node s) ''etc/apk/world'' of
        Inl e \<Rightarrow> raise e | Inr None \<Rightarrow> raise ErrNoWorld
      | Inr (Some w) \<Rightarrow> (case remainingRemovals (pl_world p) (f_data w) (pl_removePackages p) of
           Inl e \<Rightarrow> ret (Some e) | Inr names \<Rightarrow> caught (remove names)))
      (\<lambda>err d'. err = None \<and> quiet d d') (\<lambda>_. False) (\<lambda>_. False)) (\<lambda>_. False) (\<lambda>_. False) d"
  proof (rule good_look [OF good])
    fix d' assume s: "same_nodes (\<lambda>_. True) d d'" "same_pending d d'" "same_status d d'"
    have n: "s_node (d_live d') = n0" using keeps(5) [OF s(1) u] by (simp add: untouched_def)
    obtain d'' where d'': "remove names d' = (Val (), d'')" "quiet d' d''"
      using assms(3) by (cases "remove names d'") (auto simp: removes_def harmless_def, metis fst_conv snd_conv)
    have "quiet d d''" using quiet_trans [OF quiet_all [OF s] d''(2)] .
    then show "leads (case read_node (s_node (d_live d')) ''etc/apk/world'' of
        Inl e \<Rightarrow> raise e | Inr None \<Rightarrow> raise ErrNoWorld
      | Inr (Some w) \<Rightarrow> (case remainingRemovals (pl_world p) (f_data w) (pl_removePackages p) of
           Inl e \<Rightarrow> ret (Some e) | Inr names \<Rightarrow> caught (remove names)))
      (\<lambda>err d'. err = None \<and> quiet d d') (\<lambda>_. False) (\<lambda>_. False) d'"
      using d''(1) names w n by (simp add: leads_def caught_def onErr_def andThen_def ret_def)
  qed
  then show ?thesis using True assms(4) by (simp add: remove_packages_def)
next
  case False
  then show ?thesis using assms(4) by (auto simp: remove_packages_def)
qed

lemma good_execute:
  assumes good: "\<And>k. ev_out (env k) = Good" and p: "refresh P E n0 p0 = Inr p" and "removes remove" and "\<not> pl_rollingBack p"
    and "op_action (pl_options p) = ''reset'' \<and> \<not> op_keepApps (pl_options p) \<Longrightarrow> pl_world p \<noteq> []"
    and u: "untouched n0 d" and j: "pend_in {Journal p} d"
  shows "leads (execute env remove p) (\<lambda>_ d'. node_in (\<lambda>q. {target p n0 q}) d' \<and> pend_in {NoJournal} d' \<and> status_in {Some Complete} d')
    (\<lambda>_. False) (\<lambda>_. False) d"
  unfolding execute_def leads_andThen
proof (rule leads_mono [OF good_remove [OF good p assms(3-5) u]])
  let ?A = "\<lambda>q. {n0 q, target p n0 q}"
  fix err :: "recovery_error option" and d' assume d': "err = None \<and> quiet d d'"
  have n: "node_in ?A d" "agree d" using untouched_nodes [OF u] by (auto intro: node_in_mono)
  have d'': "node_in ?A d'" "agree d'" "pend_in {Journal p} d'"
    using d' keeps(1) [OF _ n(1)] keeps(3) [OF _ n(2)] keeps(6) [OF _ j] by (auto simp: quiet_def)
  have special: "Some Special \<notin> ?A (ch_path c)" if "c \<in> set (pl_changes p)" for c
    using refresh_facts(3,5) [OF p that] by (auto simp: node_of_def) (metis node.distinct(1) option.inject option.distinct(1) option.case_eq_if not_None_eq map_option_eq_Some)+
  have run: "leads (apply_changes env ch_after (pl_changes p))
    (\<lambda>_ e. node_in ?A e \<and> pend_in {Journal p} e \<and> both ({} \<union> ch_path ` set (pl_changes p)) (target p n0) e) (\<lambda>_. False) (\<lambda>_. False) d'"
    by (rule good_changes [OF good]) (use d'' special refresh_facts(4,5) [OF p] in \<open>auto simp: both_def\<close>)
  have "leads (caught (apply_changes env ch_after (pl_changes p)))
    (\<lambda>err e. err = None \<and> node_in (\<lambda>q. {target p n0 q}) e) (\<lambda>_. False) (\<lambda>_. False) d'"
  proof (rule leads_caught, rule leads_mono [OF run])
    fix x e assume e: "node_in ?A e \<and> pend_in {Journal p} e \<and> both ({} \<union> ch_path ` set (pl_changes p)) (target p n0) e"
    then show "None = None \<and> node_in (\<lambda>q. {target p n0 q}) e"
      using target_other [of _ p n0] unfolding node_in_def both_def by (metis Un_empty_left insert_iff singletonD singletonI)
  qed simp_all
  then have "leads (caught (apply_changes env ch_after (pl_changes p)))
    (\<lambda>err. leads (case err of None \<Rightarrow> finish env Complete | Some e \<Rightarrow> andThen (rollback env p) (\<lambda>_. finish env Failed))
      (\<lambda>_ d'. node_in (\<lambda>q. {target p n0 q}) d' \<and> pend_in {NoJournal} d' \<and> status_in {Some Complete} d') (\<lambda>_. False) (\<lambda>_. False))
    (\<lambda>_. False) (\<lambda>_. False) d'"
    by (rule leads_mono) (auto intro: good_finish [OF good])
  then show "leads (case err of None \<Rightarrow> caught (apply_changes env ch_after (pl_changes p)) | Some e \<Rightarrow> ret (Some e))
    (\<lambda>err. leads (case err of None \<Rightarrow> finish env Complete | Some e \<Rightarrow> andThen (rollback env p) (\<lambda>_. finish env Failed))
      (\<lambda>_ d'. node_in (\<lambda>q. {target p n0 q}) d' \<and> pend_in {NoJournal} d' \<and> status_in {Some Complete} d') (\<lambda>_. False) (\<lambda>_. False))
    (\<lambda>_. False) (\<lambda>_. False) d'"
    using d' by simp
qed simp_all

lemma good_begin:
  assumes good: "\<And>k. ev_out (env k) = Good" and p: "refresh P E n0 p0 = Inr p" and "validatePlan p0 = None" and "\<not> pl_started p0"
    and u: "untouched n0 d"
  shows "leads (begin_plan P E env p0) (\<lambda>r d'. r = Some p \<and> untouched n0 d' \<and> pend_in {Journal p} d') (\<lambda>_. False) (\<lambda>_. False) d"
proof -
  have rb: "\<not> pl_rollingBack p0" using assms(3,4) by (auto simp: validatePlan_def split: if_splits)
  have "leads (look env) (\<lambda>s. leads (case refresh P E (s_node s) p0 of Inl e \<Rightarrow> raise e
      | Inr q \<Rightarrow> andThen (write_pending env (Journal q)) (\<lambda>_. ret q))
      (\<lambda>r d'. r = p \<and> untouched n0 d' \<and> pend_in {Journal p} d') (\<lambda>_. False) (\<lambda>_. False)) (\<lambda>_. False) (\<lambda>_. False) d"
  proof (rule good_look [OF good])
    fix d' assume s: "same_nodes (\<lambda>_. True) d d'"
    have u': "untouched n0 d'" using keeps(5) [OF s u] .
    have "leads (write_pending env (Journal p)) (\<lambda>_ e. untouched n0 e \<and> pend_in {Journal p} e) (\<lambda>_. False) (\<lambda>_. False) d'"
      unfolding write_pending_def
      by (rule good_commit [OF good]) (use keeps(5) [OF _ u'] in \<open>auto simp: untouched_def pend_in_def\<close>)
    then show "leads (case refresh P E (s_node (d_live d')) p0 of Inl e \<Rightarrow> raise e
      | Inr q \<Rightarrow> andThen (write_pending env (Journal q)) (\<lambda>_. ret q))
      (\<lambda>r d'. r = p \<and> untouched n0 d' \<and> pend_in {Journal p} d') (\<lambda>_. False) (\<lambda>_. False) d'"
      using u' p by (simp add: untouched_def)
  qed
  then have "leads (start_plan P E env p0) (\<lambda>r d'. r = p \<and> untouched n0 d' \<and> pend_in {Journal p} d') (\<lambda>_. False) (\<lambda>_. False) d"
    using assms(3,4) by (simp add: start_plan_def)
  then have "leads (andThen (start_plan P E env p0) (\<lambda>q. ret (Some q)))
      (\<lambda>r d'. r = Some p \<and> untouched n0 d' \<and> pend_in {Journal p} d') (\<lambda>_. False) (\<lambda>_. False) d"
    unfolding leads_andThen by (rule leads_mono) auto
  then show ?thesis using assms(4) rb by (auto simp: begin_plan_def intro!: leads_onErr elim: leads_mono)
qed

section \<open>What Prepare plans\<close>

lemma plan_changes_after:
  "plan_changes fs d ns = Inr cs \<Longrightarrow> c \<in> set cs \<Longrightarrow>
     ch_path c \<in> set ns \<and> ch_after c = (case map_of d (ch_path c) of None \<Rightarrow> None | Some x \<Rightarrow> x)"
  by (induction ns arbitrary: cs) (auto simp: Let_def split: sum.splits if_splits)

lemma plan_changes_all:
  "plan_changes fs d ns = Inr cs \<Longrightarrow> n \<in> set ns \<Longrightarrow> fs n \<noteq> None \<Longrightarrow> \<exists>c \<in> set cs. ch_path c = n"
proof (induction ns arbitrary: cs)
  case (Cons m ns)
  then obtain b r where b: "read_node fs m = Inr b" and r: "plan_changes fs d ns = Inr r"
    by (auto simp: Let_def split: sum.splits)
  have "b \<noteq> None" if "m = n" using read_node_of(1) [OF b] that Cons.prems(3) by (auto simp: node_of_def)
  then show ?case using Cons.IH [OF r] Cons.prems b r by (auto simp: Let_def)
qed simp

lemma Prepare_desired:
  assumes "Prepare P E fs a opt = Inr (p, v)"
  obtains d where "prepare_desired P E fs a opt = Inr d" and "plan_changes fs d (sort (map fst d)) = Inr (pl_changes p)"
  using assms unfolding Prepare_def by (auto simp: Let_def split: sum.splits option.splits prod.splits)

lemma put_other: "n \<noteq> m \<Longrightarrow> map_of (put m x k d) n = map_of d n"
  by (simp add: put_def update_conv')

lemma desired_current_keys: "kept opt n \<Longrightarrow> map_of (desired_current opt files) n = None"
proof -
  assume k: "kept opt n"
  have "map_of (fold (\<lambda>f d. if kept opt (f_path f) then d else AList.update (f_path f) None d) files d) n = map_of d n" for d :: desired
    using k by (induction files arbitrary: d) (auto simp: update_conv')
  then show "map_of (desired_current opt files) n = None" by (simp add: desired_current_def)
qed

lemma desired_current_none: "n \<notin> f_path ` set files \<Longrightarrow> map_of (desired_current opt files) n = None"
proof -
  assume n: "n \<notin> f_path ` set files"
  have "map_of (fold (\<lambda>f d. if kept opt (f_path f) then d else AList.update (f_path f) None d) files d) n = map_of d n" for d :: desired
    using n by (induction files arbitrary: d) (auto simp: update_conv')
  then show "map_of (desired_current opt files) n = None" by (simp add: desired_current_def)
qed

lemma read_all_names: "read_all fs tot ns = Inr r \<Longrightarrow> f_path ` set r \<subseteq> set ns"
proof (induction ns arbitrary: tot r)
  case (Cons n ns)
  then show ?case by (fastforce simp: read_node_of split: sum.splits option.splits if_splits)
qed simp

lemma shadow_not_listed: "inventory E fs = Inr r \<Longrightarrow> ''etc/shadow'' \<notin> f_path ` set r"
proof -
  assume "inventory E fs = Inr r"
  then have "f_path ` set r \<subseteq> set settings \<union> {p. under_tree p}"
    by (auto simp: inventory_def Let_def split: if_splits dest!: read_all_names)
  moreover have "''etc/shadow'' \<notin> set settings" "\<not> under_tree ''etc/shadow''"
    by (simp_all add: settings_def under_tree_def trees_def)
  ultimately show "''etc/shadow'' \<notin> f_path ` set r" by blast
qed

lemma desired_archive_keys:
  "op_mode opt = ''migrate'' \<Longrightarrow> \<not> portable n \<Longrightarrow> map_of (desired_archive opt files d) n = map_of d n"
  unfolding desired_archive_def by (induction files arbitrary: d) (auto simp: update_conv')

lemma secure_server_keys:
  assumes "secure_server P d = Inr d'"
  shows "n \<noteq> ''etc/kvm/server.yaml'' \<Longrightarrow> map_of d' n = map_of d n"
    and "map_of d ''etc/kvm/server.yaml'' = Some (Some f) \<Longrightarrow>
      \<exists>s. yaml_secured P (f_data f) = YamlMap s \<and> map_of d' ''etc/kvm/server.yaml'' = Some (Some (f\<lparr>f_data := s\<rparr>))"
    and "map_of d ''etc/kvm/server.yaml'' = None \<Longrightarrow> map_of d' ''etc/kvm/server.yaml'' = None"
  using assms by (auto simp: secure_server_def update_conv' split: option.splits yaml_out.splits)

lemma reset_defaults_keys:
  assumes "reset_defaults opt fs d = Inr d'"
    and "n \<notin> {''etc/kvm/cron/crontabs/root'', ''etc/hostname'', ''etc/hosts'', ''etc/timezone'', ''etc/localtime'', ''etc/chrony.conf''}"
    and "n = ''etc/kvm/ssh_stop'' \<Longrightarrow> op_keepUsers opt"
  shows "map_of d' n = map_of d n"
proof -
  obtain cron where cron: "read_node fs ''etc/kvm/cron/crontabs/root'' = Inr cron"
    using assms(1) by (cases "read_node fs ''etc/kvm/cron/crontabs/root''") (simp_all add: reset_defaults_def)
  obtain tz m where tz: "fs ''usr/share/zoneinfo/UTC'' = Some (Regular tz m)"
    using assms(1) unfolding reset_defaults_def cron
    by (cases "fs ''usr/share/zoneinfo/UTC''") (simp_all add: Let_def split: node.splits)
  have ne: "n \<noteq> ''etc/kvm/cron/crontabs/root''" "n \<noteq> ''etc/hostname''" "n \<noteq> ''etc/hosts''" "n \<noteq> ''etc/timezone''"
    "n \<noteq> ''etc/localtime''" "n \<noteq> ''etc/chrony.conf''" using assms(2) by simp_all
  show ?thesis
  proof (cases "op_keepUsers opt")
    case True
    then show ?thesis using assms(1) unfolding reset_defaults_def cron tz sum.case option.case node.case Let_def sum.inject
      by (cases cron) (auto simp: put_other ne)
  next
    case False
    then have "n \<noteq> ''etc/kvm/ssh_stop''" using assms(3) by blast
    then show ?thesis
      using False assms(1) unfolding reset_defaults_def cron tz sum.case option.case node.case Let_def sum.inject
      by (cases cron) (auto simp: put_other ne)
  qed
qed

lemma desired_root_keys:
  "desired_root a opt fs d = Inr d' \<Longrightarrow> n \<noteq> ''etc/shadow'' \<or> \<not> ((op_action opt = ''reset'' \<and> \<not> op_keepUsers opt) \<or>
     (op_action opt = ''restore'' \<and> op_mode opt = ''device'')) \<Longrightarrow> map_of d' n = map_of d n"
  by (auto simp: desired_root_def put_def update_conv' split: sum.splits option.splits if_splits)

lemma jwt_facts: "portable ''etc/kvm/.jwt_secret''" "\<not> portable ''etc/kvm/server.yaml''"
  by (simp_all add: portable_def users_def)

lemma prepare_steps:
  assumes "prepare_desired P E fs a opt = Inr d"
  obtains files cfg d0 d2 d3 where "inventory E fs = Inr files"
    and "d0 = (case a of Some a \<Rightarrow> if op_action opt = ''restore'' then desired_archive opt (a_files a) (desired_current opt files)
             else desired_current opt files | None \<Rightarrow> desired_current opt files)"
    and "(if op_action opt = ''restore'' \<and> op_mode opt = ''migrate'' then read_node fs ''etc/kvm/server.yaml'' else Inr None) = Inr cfg"
    and "secure_server P (desired_secrets opt cfg d0) = Inr d2"
    and "(if op_action opt = ''reset'' then reset_defaults opt fs d2 else Inr d2) = Inr d3"
    and "desired_root a opt fs d3 = Inr d"
  using assms unfolding prepare_desired_def Let_def by (auto split: sum.splits)

lemma desired_secrets_keys:
  "map_of (desired_secrets opt cfg d0) ''etc/kvm/.jwt_secret'' = Some None"
  "n \<notin> {''etc/kvm/.jwt_secret'', ''etc/kvm/usb/.layout-v1'', ''etc/kvm/.picoclaw_internal_token''} \<Longrightarrow>
   (\<And>f. cfg = Some f \<Longrightarrow> n \<noteq> f_path f) \<Longrightarrow> map_of (desired_secrets opt cfg d0) n = map_of d0 n"
  "cfg = Some f \<Longrightarrow> f_path f = ''etc/kvm/server.yaml'' \<Longrightarrow> map_of (desired_secrets opt cfg d0) ''etc/kvm/server.yaml'' = Some (Some f)"
  by (auto simp: desired_secrets_def Let_def put_def update_conv' split: option.splits)

lemma desired_secrets_migrate:
  "op_action opt = ''restore'' \<Longrightarrow> op_mode opt = ''migrate'' \<Longrightarrow> n \<noteq> ''etc/kvm/.jwt_secret'' \<Longrightarrow>
   (\<And>f. cfg = Some f \<Longrightarrow> n \<noteq> f_path f) \<Longrightarrow> map_of (desired_secrets opt cfg d0) n = map_of d0 n"
  by (auto simp: desired_secrets_def Let_def update_conv' split: option.splits)

lemma desired_jwt:
  assumes "prepare_desired P E fs a opt = Inr d"
  shows "map_of d ''etc/kvm/.jwt_secret'' = Some None"
proof (rule prepare_steps [OF assms])
  fix files cfg d0 d2 d3
  assume s: "secure_server P (desired_secrets opt cfg d0) = Inr d2"
    "(if op_action opt = ''reset'' then reset_defaults opt fs d2 else Inr d2) = Inr d3" "desired_root a opt fs d3 = Inr d"
  have "map_of d ''etc/kvm/.jwt_secret'' = map_of d3 ''etc/kvm/.jwt_secret''" using desired_root_keys [OF s(3)] by simp
  also have "\<dots> = map_of d2 ''etc/kvm/.jwt_secret''"
    using s(2) reset_defaults_keys [of opt fs d2 d3 "''etc/kvm/.jwt_secret''"] by (auto split: if_splits)
  also have "\<dots> = Some None" using secure_server_keys(1) [OF s(1)] desired_secrets_keys(1) by simp
  finally show ?thesis .
qed

lemma desired_migrate:
  assumes "prepare_desired P E fs a opt = Inr d" and m: "op_action opt = ''restore''" "op_mode opt = ''migrate''" "\<not> portable n"
    and "map_of d n = Some x"
  shows "n = ''etc/kvm/server.yaml'' \<and> (\<exists>f s. read_node fs n = Inr (Some f) \<and> yaml_secured P (f_data f) = YamlMap s \<and> x = Some (f\<lparr>f_data := s\<rparr>))"
proof (rule prepare_steps [OF assms(1)])
  fix files cfg d0 d2 d3
  assume s: "d0 = (case a of Some a \<Rightarrow> if op_action opt = ''restore'' then desired_archive opt (a_files a) (desired_current opt files)
             else desired_current opt files | None \<Rightarrow> desired_current opt files)"
    "(if op_action opt = ''restore'' \<and> op_mode opt = ''migrate'' then read_node fs ''etc/kvm/server.yaml'' else Inr None) = Inr cfg"
    "secure_server P (desired_secrets opt cfg d0) = Inr d2"
    "(if op_action opt = ''reset'' then reset_defaults opt fs d2 else Inr d2) = Inr d3" "desired_root a opt fs d3 = Inr d"
  have cfg: "read_node fs ''etc/kvm/server.yaml'' = Inr cfg" using s(2) m by simp
  have d0: "map_of d0 n = None"
    using s(1) m desired_current_keys [of opt n] desired_archive_keys [OF m(2,3)] by (auto simp: kept_def split: option.splits)
  have "map_of d n = map_of d3 n" using desired_root_keys [OF s(5)] m by simp
  also have "\<dots> = map_of d2 n" using s(4) m by simp
  finally have d2: "map_of d2 n = Some x" using assms(5) by simp
  show ?thesis
  proof (cases "n = ''etc/kvm/server.yaml''")
    case False
    have "map_of d2 n = map_of (desired_secrets opt cfg d0) n" using secure_server_keys(1) [OF s(3) False] .
    also have "\<dots> = map_of d0 n"
    proof (rule desired_secrets_migrate [OF m(1,2)])
      show "n \<noteq> f_path f" if "cfg = Some f" for f using read_node_of(2) cfg that False by blast
      show "n \<noteq> ''etc/kvm/.jwt_secret''" using m(3) jwt_facts(1) by auto
    qed
    finally show ?thesis using d0 d2 by simp
  next
    case True
    show ?thesis
    proof (cases cfg)
      case None
      then have "map_of (desired_secrets opt cfg d0) n = map_of d0 n" using True by (intro desired_secrets_keys(2)) auto
      then show ?thesis using True d0 d2 secure_server_keys(3) [OF s(3)] by simp
    next
      case (Some f)
      then have "map_of (desired_secrets opt cfg d0) ''etc/kvm/server.yaml'' = Some (Some f)"
        using read_node_of(2) cfg by (intro desired_secrets_keys(3)) auto
      then show ?thesis using True Some cfg d2 secure_server_keys(2) [OF s(3)] by fastforce
    qed
  qed
qed

text \<open>The accounts, the root password and the SSH settings of the device.\<close>

lemma desired_keep_users:
  assumes "prepare_desired P E fs a opt = Inr d" and m: "op_action opt = ''reset''" "op_keepUsers opt"
    and n: "users n \<or> n = ''etc/kvm/ssh_stop'' \<or> prefix ''etc/ssh/'' n \<or> n = ''etc/shadow''"
  shows "map_of d n = None"
proof (rule prepare_steps [OF assms(1)])
  fix files cfg d0 d2 d3
  assume inv: "inventory E fs = Inr files" and s: "d0 = (case a of Some a \<Rightarrow> if op_action opt = ''restore'' then desired_archive opt (a_files a) (desired_current opt files)
             else desired_current opt files | None \<Rightarrow> desired_current opt files)"
    "(if op_action opt = ''restore'' \<and> op_mode opt = ''migrate'' then read_node fs ''etc/kvm/server.yaml'' else Inr None) = Inr cfg"
    "secure_server P (desired_secrets opt cfg d0) = Inr d2"
    "(if op_action opt = ''reset'' then reset_defaults opt fs d2 else Inr d2) = Inr d3" "desired_root a opt fs d3 = Inr d"
  have ne: "n \<notin> {''etc/kvm/.jwt_secret'', ''etc/kvm/usb/.layout-v1'', ''etc/kvm/.picoclaw_internal_token'', ''etc/kvm/server.yaml'',
      ''etc/kvm/cron/crontabs/root'', ''etc/hostname'', ''etc/hosts'', ''etc/timezone'', ''etc/localtime'', ''etc/chrony.conf''}"
    using n by (auto simp: users_def)
  have "map_of d n = map_of d3 n" using desired_root_keys [OF s(5)] m by simp
  also have "\<dots> = map_of d2 n" using s(4) m ne by (intro reset_defaults_keys [of opt fs]) auto
  also have "\<dots> = map_of (desired_secrets opt cfg d0) n" using secure_server_keys(1) [OF s(3)] ne by simp
  also have "\<dots> = map_of d0 n" using s(2) m ne by (intro desired_secrets_keys(2)) auto
  also have "\<dots> = map_of (desired_current opt files) n" using s(1) m by (simp split: option.splits)
  also have "\<dots> = None"
    using n m desired_current_keys [of opt n files] desired_current_none [OF shadow_not_listed [OF inv]] by (auto simp: kept_def)
  finally show ?thesis .
qed

text \<open>The example.\<close>

lemma no_files_read: "(\<And>n. n \<in> set ns \<Longrightarrow> fs n = None) \<Longrightarrow> read_all fs tot ns = Inr []"
  by (induction ns) (simp_all add: read_node_def)

lemma settings_count: "length settings \<le> MaxFiles"
  by (simp add: settings_def)

lemma name_managed: "managed ''etc/hostname''"
  by (simp add: managed_def allowed_def path_Clean_def contains_any_def settings_def)

lemma name_plan_valid: "validatePlan name_plan = None" "validatePlan (name_plan\<lparr>pl_started := True\<rparr>) = None"
  by (simp_all add: validatePlan_def name_plan_def List.map_filter_def name_managed file_bounds_def)

lemma name_plan_refresh: "refresh no_codecs small_engine (\<lambda>_. None) name_plan = Inr (name_plan\<lparr>pl_started := True\<rparr>)"
proof -
  have "inventory small_engine (\<lambda>_. None) = Inr []"
    using settings_count by (simp add: inventory_def small_engine_def no_files_read)
  then have "renewed no_codecs small_engine (\<lambda>_. None) name_plan = Inr name_plan"
    by (simp add: renewed_def name_plan_def read_node_def appended_def)
  moreover have "op_action (pl_options name_plan) = ''restore''" by (simp add: name_plan_def)
  ultimately show ?thesis by (simp add: refresh_def name_plan_valid Let_def)
qed

lemma migration_checked: "prepare_check no_codecs small_engine (Some small_archive) migration = None"
proof -
  have "compatible (a_version small_archive) (e_version small_engine)"
    using compatible_same [OF Validate_version [OF small_archive_valid]] by (simp add: small_engine_def small_archive_def)
  then show ?thesis by (simp add: prepare_check_def small_archive_valid migration_def)
qed

lemma migration_plan:
  "\<exists>p v. Prepare no_codecs small_engine secret_only (Some small_archive) migration = Inr (p, v) \<and>
     pl_changes p = [\<lparr>ch_path = ''etc/kvm/.jwt_secret'',
       ch_before = Some \<lparr>f_path = ''etc/kvm/.jwt_secret'', f_data = ''s'', f_mode = 0x180\<rparr>, ch_after = None\<rparr>]"
proof -
  have "''etc/kvm/.jwt_secret'' \<notin> set settings" by (simp add: settings_def)
  then have "read_all secret_only 0 (sort settings) = Inr []"
    by (intro no_files_read) (auto simp: secret_only_def)
  then have inv: "inventory small_engine secret_only = Inr []"
    using settings_count by (simp add: inventory_def small_engine_def)
  have "prepare_desired no_codecs small_engine secret_only (Some small_archive) migration = Inr [(''etc/kvm/.jwt_secret'', None)]"
    unfolding prepare_desired_def inv sum.case
    by (simp add: migration_def desired_current_def desired_archive_def small_archive_def
        read_node_def secret_only_def desired_secrets_def secure_server_def desired_root_def)
  moreover have "prepare_world migration secret_only = Inr ([], [])" by (simp add: prepare_world_def migration_def)
  moreover have "read_node secret_only ''etc/kvm/.jwt_secret'' =
      Inr (Some \<lparr>f_path = ''etc/kvm/.jwt_secret'', f_data = ''s'', f_mode = 0x180\<rparr>)"
    by (simp add: read_node_def secret_only_def)
  ultimately show ?thesis by (simp add: Prepare_def migration_checked Let_def)
qed

section \<open>Properties\<close>

text \<open>
  C21. A restore or a factory reset is all or nothing. Over any number of starts of a device with a staged plan,
  whatever writes and syncs fail, whatever reaches the card by itself and whenever power is lost: while the
  journal is there, every setting has its old or its planned contents; when the journal is gone, either the
  status is complete and all settings are as planned, or it is failed and all are as they were. This also holds of
  whatever a power loss at that moment would leave. The package manager may fail, but leaves the settings alone.
\<close>

theorem recovery_all_or_nothing:
  assumes "harmless apk" and "\<not> pl_started p0" and "reachable (staged n0 p0) (starts P E apk) d" and "mixed d s"
  shows "(s_pending s = NoJournal \<longrightarrow> settled n0 (goal P E n0 p0) s) \<and>
    (s_pending s \<noteq> NoJournal \<longrightarrow> (\<forall>q. managed q \<longrightarrow> s_node s q \<in> {n0 q, goal P E n0 p0 q}))"
proof -
  have "dev_ok P E n0 p0 d" using recovering.reachable_inv [OF assms(3)] assms(1,2) by blast
  then have "store_ok P E n0 p0 s" using assms(4) by (simp add: dev_ok_def)
  then show ?thesis by (auto simp: store_ok_def running_def split: sum.splits)
qed

theorem recovery_all_or_nothing_witness:
  "s_node (d_live (start_up no_codecs small_engine no_apk (quiet_event Good) interrupted empty_device)) ''etc/hostname''
     \<in> {None, goal no_codecs small_engine (\<lambda>_. None) name_plan ''etc/hostname''}"
proof -
  let ?d = "start_up no_codecs small_engine no_apk (quiet_event Good) interrupted empty_device"
  have "staged (\<lambda>_. None) name_plan empty_device" by (simp add: staged_def empty_device_def Let_def)
  then have "reachable (staged (\<lambda>_. None) name_plan) (starts no_codecs small_engine no_apk) empty_device"
    by (rule reachable.start)
  moreover have "starts no_codecs small_engine no_apk empty_device ?d" unfolding starts_def by blast
  ultimately have r: "reachable (staged (\<lambda>_. None) name_plan) (starts no_codecs small_engine no_apk) ?d"
    by (rule reachable.more)
  have "harmless no_apk" by (simp add: harmless_def no_apk_def)
  moreover have "\<not> pl_started name_plan" by (simp add: name_plan_def)
  moreover have "mixed ?d (d_live ?d)" by (simp add: mixed_def)
  ultimately show ?thesis
    using name_managed recovery_all_or_nothing [OF _ _ r, of "d_live ?d"] unfolding settled_def by blast
qed

text \<open>
  C22. An undisturbed recovery completes at the first start: without failures, and if the packages can be
  removed, \<open>Resume\<close> returns, the journal is gone, the status is complete, and on both the running system and the card
  every setting is as planned.
\<close>

theorem recovery_completes:
  assumes "\<forall>k. ev_out (env k) = Good" and "removes remove" and "staged n0 p0 d"
    and "validatePlan p0 = None" and "\<not> pl_started p0" and "refresh P E n0 p0 = Inr p"
    and "op_action (pl_options p0) = ''reset'' \<and> \<not> op_keepApps (pl_options p0) \<longrightarrow> pl_world p0 \<noteq> []"
  shows "\<exists>d'. Resume P E env remove d = (Val (), d') \<and>
    s_pending (d_live d') = NoJournal \<and> s_pending (d_card d') = NoJournal \<and>
    s_status (d_live d') = Some Complete \<and> s_status (d_card d') = Some Complete \<and>
    (\<forall>q. managed q \<longrightarrow> s_node (d_live d') q = target p n0 q \<and> s_node (d_card d') q = target p n0 q)"
proof -
  note good = assms(1) [rule_format]
  let ?Q = "\<lambda>_ d'. node_in (\<lambda>q. {target p n0 q}) d' \<and> pend_in {NoJournal} d' \<and> status_in {Some Complete} d'"
  have rb: "\<not> pl_rollingBack p"
    using assms(4,5) refresh_keeps(3) [OF assms(6)] by (auto simp: validatePlan_def split: if_splits)
  have w: "op_action (pl_options p) = ''reset'' \<and> \<not> op_keepApps (pl_options p) \<Longrightarrow> pl_world p \<noteq> []"
    using assms(7) refresh_keeps(1,2) [OF assms(6)] by simp
  have "leads (Resume P E env remove) ?Q (\<lambda>_. False) (\<lambda>_. False) d"
    unfolding Resume_def leads_andThen
  proof (rule good_look [OF good])
    fix d' assume s: "same_nodes (\<lambda>_. True) d d'" "same_pending d d'"
    have u: "untouched n0 d'" using keeps(5) [OF s(1)] assms(3) by (simp add: untouched_def staged_def)
    have j: "s_pending (d_live d') = Journal p0" using s(2) assms(3) by (simp add: same_pending_def staged_def)
    have "leads (begin_plan P E env p0) (\<lambda>q. leads (case q of None \<Rightarrow> ret () | Some q \<Rightarrow> execute env remove q) ?Q (\<lambda>_. False) (\<lambda>_. False))
        (\<lambda>_. False) (\<lambda>_. False) d'"
      by (rule leads_mono [OF good_begin [OF good assms(6,4,5) u]])
         (use good_execute [OF good assms(6,2) rb w] in auto)
    then show "leads (case s_pending (d_live d') of NoJournal \<Rightarrow> ret () | Journal p \<Rightarrow> andThen (begin_plan P E env p)
        (\<lambda>q. case q of None \<Rightarrow> ret () | Some q \<Rightarrow> execute env remove q) | Corrupt \<Rightarrow> raise ErrJournal) ?Q (\<lambda>_. False) (\<lambda>_. False) d'"
      using j by simp
  qed
  then show ?thesis
    by (auto simp: leads_def node_in_def pend_in_def status_in_def split: prod.splits res.splits)
qed

theorem recovery_completes_witness:
  "\<exists>d'. Resume no_codecs small_engine (\<lambda>_. quiet_event Good) no_apk empty_device = (Val (), d') \<and>
     s_node (d_card d') ''etc/hostname'' = Some (Regular ''kvm'' 0x1A4)"
proof -
  have "removes no_apk" by (simp add: removes_def harmless_def no_apk_def)
  moreover have "staged (\<lambda>_. None) name_plan empty_device" by (simp add: staged_def empty_device_def Let_def)
  moreover have "\<not> pl_started name_plan" "op_action (pl_options name_plan) = ''restore''" by (simp_all add: name_plan_def)
  moreover have "target (name_plan\<lparr>pl_started := True\<rparr>) (\<lambda>_. None) ''etc/hostname'' = Some (Regular ''kvm'' 0x1A4)"
    by (simp add: target_def name_plan_def node_of_def)
  ultimately show ?thesis
    using recovery_completes [OF _ _ _ name_plan_valid(1) _ name_plan_refresh, of "\<lambda>_. quiet_event Good" no_apk empty_device] name_managed
    by (auto simp: quiet_event_def)
qed

text \<open>
  What \<open>Prepare\<close> plans respects the choices: every web session is revoked, as the signing secret goes if
  it is there; a migration touches no file that is not portable except the server's own configuration, which
  is rewritten from the device's own copy; and a reset that keeps the users touches neither the accounts,
  nor the root password, nor the SSH settings and keys.
\<close>

theorem prepare_respects_choices:
  assumes "Prepare P E fs a opt = Inr (p, v)" and "c \<in> set (pl_changes p)"
  shows "(ch_path c = ''etc/kvm/.jwt_secret'' \<longrightarrow> ch_after c = None) \<and>
    (fs ''etc/kvm/.jwt_secret'' \<noteq> None \<longrightarrow> ''etc/kvm/.jwt_secret'' \<in> ch_path ` set (pl_changes p)) \<and>
    (op_action opt = ''restore'' \<and> op_mode opt = ''migrate'' \<and> \<not> portable (ch_path c) \<longrightarrow>
       ch_path c = ''etc/kvm/server.yaml'' \<and>
       (\<exists>f s. read_node fs (ch_path c) = Inr (Some f) \<and> yaml_secured P (f_data f) = YamlMap s \<and> ch_after c = Some (f\<lparr>f_data := s\<rparr>))) \<and>
    (op_action opt = ''reset'' \<and> op_keepUsers opt \<longrightarrow>
       \<not> users (ch_path c) \<and> ch_path c \<noteq> ''etc/shadow'' \<and> ch_path c \<noteq> ''etc/kvm/ssh_stop'' \<and> \<not> prefix ''etc/ssh/'' (ch_path c))"
proof (rule Prepare_desired [OF assms(1)])
  fix d assume d: "prepare_desired P E fs a opt = Inr d" and cs: "plan_changes fs d (sort (map fst d)) = Inr (pl_changes p)"
  have "ch_path c \<in> fst ` set d" using plan_changes_after [OF cs assms(2)] by auto
  then obtain x where x: "map_of d (ch_path c) = Some x" by (metis map_of_eq_None_iff not_None_eq)
  then have after: "ch_after c = x" using plan_changes_after [OF cs assms(2)] by simp
  have "''etc/kvm/.jwt_secret'' \<in> fst ` set d" using desired_jwt [OF d] by (metis map_of_eq_None_iff option.distinct(1))
  then have jwt: "fs ''etc/kvm/.jwt_secret'' \<noteq> None \<longrightarrow> ''etc/kvm/.jwt_secret'' \<in> ch_path ` set (pl_changes p)"
    using plan_changes_all [OF cs, of "''etc/kvm/.jwt_secret''"] by (force simp: image_iff)
  have keep: "\<not> users (ch_path c) \<and> ch_path c \<noteq> ''etc/shadow'' \<and> ch_path c \<noteq> ''etc/kvm/ssh_stop'' \<and> \<not> prefix ''etc/ssh/'' (ch_path c)"
    if "op_action opt = ''reset''" "op_keepUsers opt"
    using desired_keep_users [OF d that, of "ch_path c"] x by auto
  show ?thesis
    using jwt keep desired_jwt [OF d] desired_migrate [OF d _ _ _ x] x after by auto
qed

theorem prepare_respects_choices_witness:
  "\<exists>p v c. Prepare no_codecs small_engine secret_only (Some small_archive) migration = Inr (p, v) \<and>
     c \<in> set (pl_changes p) \<and> ch_path c = ''etc/kvm/.jwt_secret'' \<and> ch_after c = None"
proof -
  obtain p v c where p: "Prepare no_codecs small_engine secret_only (Some small_archive) migration = Inr (p, v)"
    "c \<in> set (pl_changes p)" "ch_path c = ''etc/kvm/.jwt_secret''"
    using migration_plan by fastforce
  then show ?thesis using prepare_respects_choices [OF p(1,2)] by blast
qed

end
