(* ===== verification/Web_Sessions.thy ===== *)
theory Web_Sessions
  imports Account_Safety Bounded_Table Go_Strings
begin

text \<open>
  Web requests and running sessions: \<open>middleware/jwt.go\<close> and \<open>middleware/session.go\<close>. The first part is the decision on
  one request, from the headers to the principal; JSON web tokens are an argument \<open>jwt\<close>. The second part is
  the registry of running requests with the goroutine that rechecks them, as a system of steps under the
  registry's lock. Whether the peer is a trusted proxy is a field of the request.
\<close>

section \<open>Requests\<close>

record web_conf =
  Authentication :: string
  Proto :: string
  RefreshTokenDuration :: int
  SecretKey :: string

record http_request =
  hr_host :: string
  hr_tls :: bool
  hr_trusted :: bool
  hr_forwardedHost :: string
  hr_forwardedProto :: string
  hr_authorization :: string
  hr_cookies :: "(string \<times> string) list"
  hr_method :: string
  hr_path :: string

record Principal =
  pr_username :: string
  pr_role :: Role
  pr_mustChangePassword :: bool

record Token =
  t_username :: string
  t_version :: "64 word"
  t_subject :: string
  t_issuedAt :: time
  t_expiresAt :: time

record jwt =
  jwt_sign :: "string \<Rightarrow> Token \<Rightarrow> string option"
  jwt_parse :: "string \<Rightarrow> time \<Rightarrow> string \<Rightarrow> Token option"

definition CookieName :: string where "CookieName = ''nano-kvm-token''"
definition HTTPCookieName :: string where "HTTPCookieName = ''nano-kvm-token-http''"

definition singleForwardedValue :: "string \<Rightarrow> string" where
  "singleForwardedValue v = (if CHR '','' \<in> set v then [] else trim_space v)"

definition validForwardedHost :: "string \<Rightarrow> string" where
  "validForwardedHost host =
     (if host = [] \<or> contains_any host (''/?#@ '' @ [CHR 0x09, CHR 0x0D, CHR 0x0A]) then [] else host)"

definition ExternalRequestAddress :: "web_conf \<Rightarrow> http_request \<Rightarrow> string \<times> string" where
  "ExternalRequestAddress conf rq =
     (let scheme = (if to_lower (Proto conf) \<noteq> ''https'' then ''http'' else ''https'');
          scheme = (if hr_tls rq then ''https'' else scheme)
      in if \<not> hr_trusted rq then (hr_host rq, scheme)
         else let fh = validForwardedHost (singleForwardedValue (hr_forwardedHost rq));
                  fp = to_lower (singleForwardedValue (hr_forwardedProto rq))
              in (if fh \<noteq> [] then fh else hr_host rq, if fp = ''http'' \<or> fp = ''https'' then fp else scheme))"

definition SessionCookieName :: "web_conf \<Rightarrow> http_request \<Rightarrow> string" where
  "SessionCookieName conf rq = (if snd (ExternalRequestAddress conf rq) = ''https'' then CookieName else HTTPCookieName)"

text \<open>The token, and whether the caller supplied an \<open>Authorization\<close> header.\<close>

definition bearerToken :: "string \<Rightarrow> string \<times> bool" where
  "bearerToken header =
     (if header = [] then ([], False)
      else if length header \<le> 7 \<or> to_lower (take 7 header) \<noteq> ''bearer '' then ([], True)
      else let token = trim_space (drop 7 header) in
        if token = [] \<or> contains_any token ('' '' @ [CHR 0x09, CHR 0x0D, CHR 0x0A]) then ([], True) else (token, True))"

definition cookieToken :: "web_conf \<Rightarrow> http_request \<Rightarrow> string option" where
  "cookieToken conf rq =
     (let name = SessionCookieName conf rq in
      case map_of (hr_cookies rq) name of
        Some v \<Rightarrow> Some v
      | None \<Rightarrow> if name = HTTPCookieName then map_of (hr_cookies rq) CookieName else None)"

definition ParseJWT :: "web_conf \<Rightarrow> jwt \<Rightarrow> time \<Rightarrow> string \<Rightarrow> Token option" where
  "ParseJWT conf J now s =
     (case jwt_parse J (SecretKey conf) now s of
        None \<Rightarrow> None
      | Some c \<Rightarrow> if t_username c = [] \<or> t_subject c \<noteq> t_username c \<or> t_version c = 0 then None else Some c)"

text \<open>\<open>jwt.NewNumericDate\<close> keeps whole seconds.\<close>

definition numeric_date :: "time \<Rightarrow> time" where
  "numeric_date t = t div second * second"

definition GenerateJWT :: "web_conf \<Rightarrow> jwt \<Rightarrow> time \<Rightarrow> string \<Rightarrow> 64 word \<Rightarrow> string option" where
  "GenerateJWT conf J now username version =
     jwt_sign J (SecretKey conf) \<lparr>t_username = username, t_version = version, t_subject = username,
       t_issuedAt = numeric_date now, t_expiresAt = numeric_date (now + wrap64 (RefreshTokenDuration conf * second))\<rparr>"

definition supplied :: "web_conf \<Rightarrow> http_request \<Rightarrow> string option" where
  "supplied conf rq =
     (case bearerToken (hr_authorization rq) of
        (token, True) \<Rightarrow> Some token
      | (_, False) \<Rightarrow> cookieToken conf rq)"

definition authenticate ::
    "web_conf \<Rightarrow> jwt \<Rightarrow> passwords \<Rightarrow> store_env \<Rightarrow> time \<Rightarrow> http_request \<Rightarrow> Store \<Rightarrow> (Principal \<times> Token option) option \<times> Store" where
  "authenticate conf J pw e now rq s =
     (if Authentication conf = ''disable''
      then (Some (\<lparr>pr_username = ''admin'', pr_role = RoleAdmin, pr_mustChangePassword = False\<rparr>, None), s)
      else case supplied conf rq of
        None \<Rightarrow> (None, s)
      | Some raw \<Rightarrow>
          if raw = [] then (None, s)
          else case ParseJWT conf J now raw of
            None \<Rightarrow> (None, s)
          | Some token \<Rightarrow>
              (case ValidateToken pw e (t_username token) (t_version token) s of
                 (Inl _, s) \<Rightarrow> (None, s)
               | (Inr u, s) \<Rightarrow>
                   (Some (\<lparr>pr_username = u_name u, pr_role = u_role u, pr_mustChangePassword = MustChangePassword u\<rparr>, Some token), s)))"






section \<open>Running sessions\<close>

record session =
  ss_username :: string
  ss_version :: "64 word"
  ss_store :: bool

text \<open>Session numbers are unbounded here; \<open>nextID\<close> is 64 bits wide.\<close>

record sessionRegistry =
  nextID :: nat
  byUserID :: "(string \<times> (nat \<times> session) list) list"
  watching :: bool

definition sessions_of :: "string \<Rightarrow> sessionRegistry \<Rightarrow> (nat \<times> session) list" where
  "sessions_of u r = (case map_of (byUserID r) u of None \<Rightarrow> [] | Some m \<Rightarrow> m)"

definition all_sessions :: "sessionRegistry \<Rightarrow> (nat \<times> session) list" where
  "all_sessions r = concat (map snd (byUserID r))"

text \<open>The number of the session, whether a watcher is started, and the registry.\<close>

definition register :: "session \<Rightarrow> sessionRegistry \<Rightarrow> nat \<times> bool \<times> sessionRegistry" where
  "register entry r =
     (let n = Suc (nextID r); u = ss_username entry; start = (\<not> watching r \<and> ss_store entry)
      in (n, start, r\<lparr>nextID := n, byUserID := AList.update u (AList.update n entry (sessions_of u r)) (byUserID r),
            watching := (watching r \<or> start)\<rparr>))"

definition unregister :: "nat \<Rightarrow> session \<Rightarrow> sessionRegistry \<Rightarrow> sessionRegistry" where
  "unregister n entry r =
     (let u = ss_username entry; m = AList.delete n (sessions_of u r)
      in r\<lparr>byUserID := (if m = [] then AList.delete u (byUserID r) else AList.update u m (byUserID r))\<rparr>)"

definition revoke :: "string \<Rightarrow> sessionRegistry \<Rightarrow> (nat \<times> session) list \<times> sessionRegistry" where
  "revoke u r = (sessions_of u r, r\<lparr>byUserID := AList.delete u (byUserID r)\<rparr>)"

type_synonym token_key = "string \<times> 64 word"

definition key_of :: "session \<Rightarrow> token_key" where
  "key_of e = (ss_username e, ss_version e)"

text \<open>One entry of a recheck: whether it is cancelled, and the answers so far.\<close>

definition recheck_entry ::
    "(token_key \<Rightarrow> bool) \<Rightarrow> session \<Rightarrow> (token_key \<times> bool) list \<Rightarrow> bool \<times> (token_key \<times> bool) list" where
  "recheck_entry accepted e seen =
     (if \<not> ss_store e then (False, seen)
      else case map_of seen (key_of e) of
        Some ok \<Rightarrow> (\<not> ok, seen)
      | None \<Rightarrow> (\<not> accepted (key_of e), (key_of e, accepted (key_of e)) # seen))"

datatype watcher = Ticking | Asking "(nat \<times> session) list" "(token_key \<times> bool) list" | Closing

datatype request_pc = NoRequest | Authed session | Running nat session

text \<open>
  \<open>w_revoked\<close> are the sessions taken from the registry by \<open>revoke\<close> that are still to be cancelled, and
  \<open>w_accepted\<close> is what the account store answers at the moment.
\<close>

record web_sys =
  w_reg :: sessionRegistry
  w_accepted :: "token_key \<Rightarrow> bool"
  w_watchers :: "watcher list"
  w_cancelled :: "nat set"
  w_revoked :: "(nat \<times> session) set"
  w_req :: "nat \<Rightarrow> request_pc"

inductive web_step :: "web_sys \<Rightarrow> web_sys \<Rightarrow> bool" where
  enters: "w_req s i = NoRequest \<Longrightarrow> ss_store e \<longrightarrow> w_accepted s (key_of e) \<Longrightarrow>
     web_step s (s\<lparr>w_req := (w_req s)(i := Authed e)\<rparr>)"
| registers: "w_req s i = Authed e \<Longrightarrow> register e (w_reg s) = (n, start, r) \<Longrightarrow>
     web_step s (s\<lparr>w_req := (w_req s)(i := Running n e), w_reg := r,
       w_watchers := w_watchers s @ (if start then [Ticking] else [])\<rparr>)"
| ends: "w_req s i = Running n e \<Longrightarrow>
     web_step s (s\<lparr>w_req := (w_req s)(i := NoRequest), w_reg := unregister n e (w_reg s), w_cancelled := insert n (w_cancelled s)\<rparr>)"
| expires: "w_req s i = Running n e \<Longrightarrow> web_step s (s\<lparr>w_cancelled := insert n (w_cancelled s)\<rparr>)"
| accounts: "web_step s (s\<lparr>w_accepted := f\<rparr>)"
| revokes: "revoke u (w_reg s) = (es, r) \<Longrightarrow> web_step s (s\<lparr>w_reg := r, w_revoked := w_revoked s \<union> set es\<rparr>)"
| cancels: "(n, e) \<in> w_revoked s \<Longrightarrow>
     web_step s (s\<lparr>w_revoked := w_revoked s - {(n, e)}, w_cancelled := insert n (w_cancelled s)\<rparr>)"
| tick: "w_watchers s = ws1 @ Ticking # ws2 \<Longrightarrow> set xs = set (all_sessions (w_reg s)) \<Longrightarrow>
     web_step s (s\<lparr>w_watchers := ws1 @ Asking xs [] # ws2\<rparr>)"
| asks: "w_watchers s = ws1 @ Asking ((n, e) # xs) seen # ws2 \<Longrightarrow> recheck_entry (w_accepted s) e seen = (bad, seen') \<Longrightarrow>
     web_step s (s\<lparr>w_watchers := ws1 @ Asking xs seen' # ws2,
       w_cancelled := (if bad then insert n (w_cancelled s) else w_cancelled s)\<rparr>)"
| pass_over: "w_watchers s = ws1 @ Asking [] seen # ws2 \<Longrightarrow>
     web_step s (s\<lparr>w_watchers := ws1 @ Closing # ws2\<rparr>)"
| goes_on: "w_watchers s = ws1 @ Closing # ws2 \<Longrightarrow> byUserID (w_reg s) \<noteq> [] \<Longrightarrow>
     web_step s (s\<lparr>w_watchers := ws1 @ Ticking # ws2\<rparr>)"
| stops: "w_watchers s = ws1 @ Closing # ws2 \<Longrightarrow> byUserID (w_reg s) = [] \<Longrightarrow>
     web_step s (s\<lparr>w_watchers := ws1 @ ws2, w_reg := (w_reg s)\<lparr>watching := False\<rparr>\<rparr>)"

definition web_init :: "web_sys \<Rightarrow> bool" where
  "web_init s \<longleftrightarrow> byUserID (w_reg s) = [] \<and> \<not> watching (w_reg s) \<and> w_watchers s = [] \<and> w_revoked s = {} \<and>
     (\<forall>i. w_req s i = NoRequest)"

section \<open>The invariant\<close>

definition inner_ok :: "nat \<Rightarrow> string \<Rightarrow> (nat \<times> session) list \<Rightarrow> bool" where
  "inner_ok k u m \<longleftrightarrow> m \<noteq> [] \<and> distinct (map fst m) \<and> (\<forall>n e. (n, e) \<in> set m \<longrightarrow> ss_username e = u \<and> n \<le> k)"

definition registry_ok :: "sessionRegistry \<Rightarrow> bool" where
  "registry_ok r \<longleftrightarrow> distinct (map fst (byUserID r)) \<and> (\<forall>(u, m) \<in> set (byUserID r). inner_ok (nextID r) u m)"

definition listed :: "nat \<Rightarrow> session \<Rightarrow> sessionRegistry \<Rightarrow> bool" where
  "listed n e r \<longleftrightarrow> (n, e) \<in> set (sessions_of (ss_username e) r)"

definition web_ok :: "web_sys \<Rightarrow> bool" where
  "web_ok s \<longleftrightarrow> registry_ok (w_reg s) \<and>
     length (w_watchers s) = of_bool (watching (w_reg s)) \<and>
     (\<forall>n e. listed n e (w_reg s) \<and> ss_store e \<longrightarrow> watching (w_reg s)) \<and>
     (\<forall>i n e. w_req s i = Running n e \<longrightarrow> n \<le> nextID (w_reg s) \<and>
        (n \<in> w_cancelled s \<or> listed n e (w_reg s) \<or> (n, e) \<in> w_revoked s)) \<and>
     (\<forall>i j n d e. w_req s i = Running n d \<and> w_req s j = Running n e \<longrightarrow> i = j)"

text \<open>Steps during which a condition holds.\<close>

inductive steps_while :: "(web_sys \<Rightarrow> bool) \<Rightarrow> web_sys \<Rightarrow> web_sys \<Rightarrow> bool" for P where
  here: "steps_while P s s"
| on: "steps_while P s t \<Longrightarrow> web_step t u \<Longrightarrow> P u \<Longrightarrow> steps_while P s u"

text \<open>What is used of the token library: a token signed with a key is printable text and is
  read back with that key until it expires.\<close>

definition graphic :: "string \<Rightarrow> bool" where
  "graphic x \<longleftrightarrow> list_all (\<lambda>c. 32 < (of_char c :: nat) \<and> (of_char c :: nat) < 127) x"

definition jwt_ok :: "jwt \<Rightarrow> bool" where
  "jwt_ok J \<longleftrightarrow> (\<forall>k c s now. jwt_sign J k c = Some s \<longrightarrow> s \<noteq> [] \<and> graphic s \<and> jwt_parse J k now s = (if now < t_expiresAt c then Some c else None))"

section \<open>Concrete values\<close>

definition conf0 :: web_conf where
  "conf0 = \<lparr>Authentication = ''enable'', Proto = ''http'', RefreshTokenDuration = 60, SecretKey = ''k''\<rparr>"

definition claims0 :: Token where
  "claims0 = \<lparr>t_username = ''admin'', t_version = 7, t_subject = ''admin'', t_issuedAt = 0, t_expiresAt = minute\<rparr>"

definition jwt0 :: jwt where
  "jwt0 = \<lparr>jwt_sign = (\<lambda>k c. if k = ''k'' \<and> c = claims0 then Some ''t'' else None),
     jwt_parse = (\<lambda>k now s. if k = ''k'' \<and> s = ''t'' \<and> now < minute then Some claims0 else None)\<rparr>"

definition request0 :: http_request where
  "request0 = \<lparr>hr_host = ''nanokvm'', hr_tls = False, hr_trusted = False, hr_forwardedHost = [], hr_forwardedProto = [],
     hr_authorization = ''Bearer t'', hr_cookies = [], hr_method = ''GET'', hr_path = ''/api/vm/info''\<rparr>"

definition entry0 :: session where
  "entry0 = \<lparr>ss_username = ''admin'', ss_version = 7, ss_store = True\<rparr>"

text \<open>A server with one session, then with the account gone, and the pass of the watcher that follows.\<close>

definition web0 :: web_sys where
  "web0 = \<lparr>w_reg = \<lparr>nextID = 0, byUserID = [], watching = False\<rparr>, w_accepted = (\<lambda>_. True), w_watchers = [],
     w_cancelled = {}, w_revoked = {}, w_req = (\<lambda>_. NoRequest)\<rparr>"

definition web1 :: web_sys where
  "web1 = web0\<lparr>w_req := (\<lambda>_. NoRequest)(0 := Authed entry0)\<rparr>"

definition web2 :: web_sys where
  "web2 = web1\<lparr>w_req := (\<lambda>_. NoRequest)(0 := Running 1 entry0), w_watchers := [Ticking],
     w_reg := \<lparr>nextID = 1, byUserID = [(''admin'', [(1, entry0)])], watching = True\<rparr>\<rparr>"

definition web3 :: web_sys where
  "web3 = web2\<lparr>w_accepted := (\<lambda>_. False)\<rparr>"

definition web4 :: web_sys where
  "web4 = web3\<lparr>w_watchers := [Asking [(1, entry0)] []]\<rparr>"

definition web5 :: web_sys where
  "web5 = web4\<lparr>w_watchers := [Asking [] [(key_of entry0, False)]], w_cancelled := {1}\<rparr>"

section \<open>The registry\<close>

lemma sessions_of_update:
  "sessions_of u (r\<lparr>byUserID := AList.update v m (byUserID r)\<rparr>) = (if u = v then m else sessions_of u r)"
  by (simp add: sessions_of_def update_conv')

lemma sessions_of_delete:
  "sessions_of u (r\<lparr>byUserID := AList.delete v (byUserID r)\<rparr>) = (if u = v then [] else sessions_of u r)"
  by (simp add: sessions_of_def delete_conv')

lemma registry_entry:
  assumes "registry_ok r"
  shows "map_of (byUserID r) u = Some m \<longleftrightarrow> (u, m) \<in> set (byUserID r)" and "(u, m) \<in> set (byUserID r) \<Longrightarrow> inner_ok (nextID r) u m"
  using assms by (auto simp: registry_ok_def)

lemma registry_update:
  assumes "registry_ok r" and "inner_ok k u m" and "nextID r \<le> k"
  shows "registry_ok (r\<lparr>nextID := k, byUserID := AList.update u m (byUserID r), watching := w\<rparr>)"
proof -
  have "inner_ok k v x" if "(v, x) \<in> set (AList.update u m (byUserID r))" for v x
  proof -
    have "map_of (AList.update u m (byUserID r)) v = Some x"
      using that assms(1) by (simp add: registry_ok_def distinct_update)
    then have "v = u \<and> x = m \<or> (v, x) \<in> set (byUserID r)" by (auto simp: update_conv' split: if_splits dest: map_of_SomeD)
    then show ?thesis using assms(2,3) registry_entry(2) [OF assms(1)] by (fastforce simp: inner_ok_def)
  qed
  then show ?thesis using assms(1) by (auto simp: registry_ok_def distinct_update)
qed

lemma registry_delete:
  "registry_ok r \<Longrightarrow> registry_ok (r\<lparr>byUserID := AList.delete u (byUserID r)\<rparr>)"
  using distinct_delete [of "byUserID r" u] set_delete [of u "byUserID r"] by (auto simp: registry_ok_def)

lemma sessions_of_ok:
  assumes "registry_ok r"
  shows "distinct (map fst (sessions_of u r))" and "(n, e) \<in> set (sessions_of u r) \<Longrightarrow> ss_username e = u \<and> n \<le> nextID r"
proof -
  have "sessions_of u r = [] \<or> inner_ok (nextID r) u (sessions_of u r)"
    using registry_entry [OF assms] by (auto simp: sessions_of_def split: option.splits)
  then show "distinct (map fst (sessions_of u r))" "(n, e) \<in> set (sessions_of u r) \<Longrightarrow> ss_username e = u \<and> n \<le> nextID r"
    by (auto simp: inner_ok_def)
qed

lemma all_listed: "registry_ok r \<Longrightarrow> (n, e) \<in> set (all_sessions r) \<longleftrightarrow> listed n e r"
proof
  assume r: "registry_ok r" and "(n, e) \<in> set (all_sessions r)"
  then obtain u m where m: "(u, m) \<in> set (byUserID r)" "(n, e) \<in> set m" by (auto simp: all_sessions_def)
  then have "ss_username e = u" "map_of (byUserID r) u = Some m"
    using registry_entry [OF r] by (auto simp: inner_ok_def)
  then show "listed n e r" using m(2) by (simp add: listed_def sessions_of_def)
next
  assume "listed n e r"
  then show "(n, e) \<in> set (all_sessions r)"
    by (cases "map_of (byUserID r) (ss_username e)") (force simp: listed_def sessions_of_def all_sessions_def dest: map_of_SomeD)+
qed

lemma no_session: "registry_ok r \<Longrightarrow> byUserID r = [] \<Longrightarrow> \<not> listed n e r"
  by (simp add: listed_def sessions_of_def)

lemma set_update_new: "n \<notin> fst ` set xs \<Longrightarrow> set (AList.update n e xs) = insert (n, e) (set xs)"
  by (induction xs) auto

lemma register_ok:
  assumes "registry_ok r" and "register e r = (n, start, r')"
  shows "registry_ok r'" and "n = Suc (nextID r)" and "nextID r' = n" and "start \<longleftrightarrow> \<not> watching r \<and> ss_store e"
    and "watching r' \<longleftrightarrow> watching r \<or> start" and "listed m d r' \<longleftrightarrow> listed m d r \<or> m = n \<and> d = e"
proof -
  let ?u = "ss_username e"
  have r': "r' = r\<lparr>nextID := n, byUserID := AList.update ?u (AList.update n e (sessions_of ?u r)) (byUserID r), watching := (watching r \<or> start)\<rparr>"
    and n: "n = Suc (nextID r)" and s: "start \<longleftrightarrow> \<not> watching r \<and> ss_store e"
    using assms(2) by (auto simp: register_def Let_def)
  note ok = sessions_of_ok [OF assms(1)]
  have new: "n \<notin> fst ` set (sessions_of ?u r)" using ok(2) n by fastforce
  then have upd: "set (AList.update n e (sessions_of ?u r)) = insert (n, e) (set (sessions_of ?u r))" by (rule set_update_new)
  have "inner_ok n ?u (AList.update n e (sessions_of ?u r))"
    using ok n upd by (auto simp: inner_ok_def distinct_update update_nonempty dest!: ok(2))
  then show "registry_ok r'" unfolding r' using n by (intro registry_update [OF assms(1)]) auto
  show "listed m d r' \<longleftrightarrow> listed m d r \<or> m = n \<and> d = e"
    unfolding listed_def r' using upd by (auto simp: sessions_of_def update_conv' split: option.splits if_splits)
qed (use assms(2) in \<open>auto simp: register_def Let_def\<close>)

lemma unregister_ok:
  assumes "registry_ok r"
  shows "registry_ok (unregister n e r)" and "nextID (unregister n e r) = nextID r" and "watching (unregister n e r) = watching r"
    and "listed m d (unregister n e r) \<longleftrightarrow> listed m d r \<and> \<not> (m = n \<and> ss_username d = ss_username e)"
proof -
  let ?u = "ss_username e"
  let ?m = "AList.delete n (sessions_of ?u r)"
  note ok = sessions_of_ok [OF assms]
  have m: "set ?m = {(k, d). (k, d) \<in> set (sessions_of ?u r) \<and> k \<noteq> n}" by (auto simp: AList.delete_eq)
  have "?m = [] \<or> inner_ok (nextID r) ?u ?m" using ok m by (auto simp: inner_ok_def distinct_delete)
  then show "registry_ok (unregister n e r)"
    using registry_delete [OF assms] registry_update [OF assms, of "nextID r" ?u ?m "watching r"]
    by (auto simp: unregister_def Let_def)
  show "listed m' d (unregister n e r) \<longleftrightarrow> listed m' d r \<and> \<not> (m' = n \<and> ss_username d = ss_username e)" for m'
  proof (cases "ss_username d = ?u")
    case True
    have "sessions_of ?u (unregister n e r) = ?m"
      by (simp add: unregister_def Let_def sessions_of_update sessions_of_delete)
    then show ?thesis using True m by (auto simp: listed_def)
  next
    case False
    then have "sessions_of (ss_username d) (unregister n e r) = sessions_of (ss_username d) r"
      by (simp add: unregister_def Let_def sessions_of_update sessions_of_delete)
    then show ?thesis using False by (simp add: listed_def)
  qed
qed (simp_all add: unregister_def Let_def)

lemma revoke_ok:
  assumes "registry_ok r" and "revoke u r = (es, r')"
  shows "registry_ok r'" and "nextID r' = nextID r" and "watching r' = watching r"
    and "listed n e r' \<longleftrightarrow> listed n e r \<and> ss_username e \<noteq> u"
    and "(n, e) \<in> set es \<longleftrightarrow> listed n e r \<and> ss_username e = u"
proof -
  have r': "r' = r\<lparr>byUserID := AList.delete u (byUserID r)\<rparr>" and es: "es = sessions_of u r"
    using assms(2) by (auto simp: revoke_def)
  show "registry_ok r'" unfolding r' by (rule registry_delete [OF assms(1)])
  show "listed n e r' \<longleftrightarrow> listed n e r \<and> ss_username e \<noteq> u" by (simp add: r' listed_def sessions_of_delete)
  show "(n, e) \<in> set es \<longleftrightarrow> listed n e r \<and> ss_username e = u"
    using sessions_of_ok(2) [OF assms(1)] by (auto simp: es listed_def)
qed (use assms(2) in \<open>auto simp: revoke_def\<close>)


section \<open>The system of sessions\<close>

lemma web_ok_init: "web_init s \<Longrightarrow> web_ok s"
  by (auto simp: web_init_def web_ok_def registry_ok_def listed_def sessions_of_def)

text \<open>The parts of the invariant, to be used and shown one at a time.\<close>

lemma web_okD:
  assumes "web_ok s"
  shows "registry_ok (w_reg s)" and "length (w_watchers s) = of_bool (watching (w_reg s))"
    and "listed n e (w_reg s) \<Longrightarrow> ss_store e \<Longrightarrow> watching (w_reg s)"
    and "w_req s i = Running n e \<Longrightarrow> n \<le> nextID (w_reg s)"
    and "w_req s i = Running n e \<Longrightarrow> n \<in> w_cancelled s \<or> listed n e (w_reg s) \<or> (n, e) \<in> w_revoked s"
    and "w_req s i = Running n d \<Longrightarrow> w_req s j = Running n e \<Longrightarrow> i = j"
  using assms unfolding web_ok_def by (simp, simp, metis, metis, metis, metis)

lemma web_okI:
  assumes "registry_ok (w_reg s)" and "length (w_watchers s) = of_bool (watching (w_reg s))"
    and "\<And>n e. listed n e (w_reg s) \<Longrightarrow> ss_store e \<Longrightarrow> watching (w_reg s)"
    and "\<And>i n e. w_req s i = Running n e \<Longrightarrow> n \<le> nextID (w_reg s)"
    and "\<And>i n e. w_req s i = Running n e \<Longrightarrow> n \<in> w_cancelled s \<or> listed n e (w_reg s) \<or> (n, e) \<in> w_revoked s"
    and "\<And>i j n d e. w_req s i = Running n d \<Longrightarrow> w_req s j = Running n e \<Longrightarrow> i = j"
  shows "web_ok s"
  unfolding web_ok_def using assms by metis

lemma web_ok_registers:
  assumes "web_ok s" and "register e (w_reg s) = (n, start, r)"
  shows "web_ok (s\<lparr>w_req := (w_req s)(i := Running n e), w_reg := r, w_watchers := w_watchers s @ (if start then [Ticking] else [])\<rparr>)"
proof -
  note ok = web_okD [OF assms(1)]
  note reg = register_ok [OF ok(1) assms(2)]
  have fresh: "w_req s j \<noteq> Running n d" for j d using ok(4) [of j n d] reg(2) by auto
  show ?thesis
  proof (rule web_okI, goal_cases)
    case 2
    then show ?case using ok(2) reg(4,5) by simp
  next
    case (3 m d)
    then show ?case using ok(3) [of m d] reg(4,5,6) by auto
  next
    case (4 j m d)
    then show ?case using ok(4) [of j m d] reg(2,3) by (auto split: if_splits)
  next
    case (5 j m d)
    then show ?case using ok(5) [of j m d] reg(6) by (auto split: if_splits)
  next
    case (6 j k m d f)
    then show ?case using ok(6) [of j m d k f] fresh by (auto split: if_splits)
  qed (simp add: reg(1))
qed

lemma web_ok_ends:
  assumes "web_ok s" and "w_req s i = Running n e"
  shows "web_ok (s\<lparr>w_req := (w_req s)(i := NoRequest), w_reg := unregister n e (w_reg s), w_cancelled := insert n (w_cancelled s)\<rparr>)"
proof -
  note ok = web_okD [OF assms(1)]
  note un = unregister_ok [OF ok(1), where n = n and e = e]
  show ?thesis
  proof (rule web_okI, goal_cases)
    case (3 m d)
    then show ?case using ok(3) [of m d] un(3,4) by auto
  next
    case (4 j m d)
    then show ?case using ok(4) [of j m d] un(2) by (auto split: if_splits)
  next
    case (5 j m d)
    then show ?case using ok(5) [of j m d] un(4) by (auto split: if_splits)
  next
    case (6 j k m d f)
    then show ?case using ok(6) [of j m d k f] by (auto split: if_splits)
  qed (use un ok(2) in auto)
qed

lemma web_step_ok:
  assumes "web_step s t" and "web_ok s"
  shows "web_ok t"
  using assms
proof cases
  case (registers i e n start r)
  then show ?thesis using web_ok_registers [OF assms(2)] by blast
next
  case (ends i n e)
  then show ?thesis using web_ok_ends [OF assms(2)] by blast
next
  case (revokes u es r)
  note ok = web_okD [OF assms(2)]
  note rv = revoke_ok [OF ok(1) revokes(2)]
  show ?thesis unfolding revokes(1)
  proof (rule web_okI, goal_cases)
    case (3 m d)
    then show ?case using ok(3) [of m d] rv(3,4) by auto
  next
    case (4 j m d)
    then show ?case using ok(4) [of j m d] rv(2) by auto
  next
    case (5 j m d)
    then show ?case using ok(5) [of j m d] rv(4,5) by auto
  next
    case (6 j k m d f)
    then show ?case using ok(6) [of j m d k f] by auto
  qed (use rv(1,3) ok(2) in auto)
next
  case (stops ws1 ws2)
  have ok: "registry_ok (w_reg s)" and w: "length (w_watchers s) = of_bool (watching (w_reg s))"
    using assms(2) by (auto simp: web_ok_def)
  have "watching (w_reg s)" "ws1 = []" "ws2 = []" using w stops(2) by (auto simp: of_bool_def split: if_splits)
  then show ?thesis using assms(2) no_session [OF ok stops(3)] stops(3) unfolding stops(1)
    by (auto simp: web_ok_def registry_ok_def listed_def sessions_of_def)
qed (auto simp: web_ok_def)

interpretation web: invariant_system web_init web_step web_ok
  by unfold_locales (use web_ok_init web_step_ok in blast)+

lemma watcher_alone:
  assumes "web_ok s" and "w_watchers s = ws1 @ w # ws2"
  shows "ws1 = [] \<and> ws2 = []"
  using assms by (auto simp: web_ok_def of_bool_def split: if_splits)

text \<open>During a pass a session that is refused is cancelled or still ahead, and was not answered before as accepted.\<close>

lemma pass_keeps:
  assumes "steps_while (\<lambda>u. \<not> w_accepted u (key_of e) \<and> (\<exists>ys seen. w_watchers u = [Asking ys seen])) s t"
    and "w_watchers s = [Asking xs []]" and "(n, e) \<in> set xs" and "\<not> w_accepted s (key_of e)" and "ss_store e"
  shows "\<not> w_accepted t (key_of e) \<and> (\<exists>ys seen. w_watchers t = [Asking ys seen] \<and> map_of seen (key_of e) \<noteq> Some True \<and>
     (n \<in> w_cancelled t \<or> (n, e) \<in> set ys))"
  using assms
proof (induction rule: steps_while.induct)
  case (on s t u)
  then obtain ys seen where t: "w_watchers t = [Asking ys seen]" "map_of seen (key_of e) \<noteq> Some True"
    "n \<in> w_cancelled t \<or> (n, e) \<in> set ys" "\<not> w_accepted t (key_of e)" by blast
  from on.hyps(3) obtain zs seen2 where u: "w_watchers u = [Asking zs seen2]" "\<not> w_accepted u (key_of e)" by blast
  from on.hyps(2) show ?case
  proof cases
    case (asks ws1 m d rest seen1 ws2 bad seen')
    then have eq: "ys = (m, d) # rest" "seen1 = seen" "ws1 = []" "ws2 = []" using t(1) by (auto simp: Cons_eq_append_conv)
    have "map_of seen' (key_of e) \<noteq> Some True" and "d = e \<Longrightarrow> bad"
      using asks(3) t(2,4) eq on.prems by (auto simp: recheck_entry_def split: if_splits option.splits)
    then show ?thesis using asks(1) eq t(3,4) by auto
  qed (use t u in \<open>auto simp: Cons_eq_append_conv\<close>)
qed auto


section \<open>One request\<close>

text \<open>Without faults the account store accepts the token of an enabled user.\<close>

lemma validate_token_complete:
  assumes "token_ok s n v" and "cache_ok s" and "\<not> se_statFails e" and "\<not> se_readFails e"
  obtains u t us where "ValidateToken pw e n v s = (Inr u, t)" and "current s = Some us" and "u \<in> set us" and "u_name u = n"
proof -
  obtain us u where us: "current s = Some us" "u \<in> set us" "u_name u = n" "Enabled u" "TokenVersion u = v"
    using assms(1) by (auto simp: token_ok_def)
  obtain db t where rd: "readLocked e s = (RDb db, t)"
    using us(1) assms(3,4)
    by (fastforce simp: readLocked_def read_file_def current_def split: account_file.splits sum.splits option.splits prod.splits)
  then have l: "loadLocked pw e False s = (Inr db, t)" by (simp add: loadLocked_def)
  have "Users db = us" by (rule load_current(1) [OF l assms(2) us(1)])
  moreover have "distinct (map u_name us)" using current_valid [OF us(1)] by (simp add: valid_users_def)
  ultimately have "findUser (Users db) n = Some u" using us by (simp add: findUser_iff)
  then show ?thesis using l us that by (simp add: ValidateToken_def Get_def)
qed


text \<open>A token without blanks is read back from the header.\<close>

lemma ws_runes_not_graphic: "list_all (\<lambda>r. \<not> graphic r) ws_runes"
  by code_simp

lemma trim_graphic:
  assumes "graphic x"
  shows "trim_space x = x"
proof -
  have bad: "\<not> prefix r y" if "q \<in> set ws_runes" and "set r = set q" and "set y = set x" for r q y
  proof
    assume "prefix r y"
    then have "set q \<subseteq> set x" using that(2,3) set_mono_prefix by blast
    then have "graphic q" using assms by (auto simp: graphic_def list_all_iff)
    then show False using ws_runes_not_graphic that(1) by (simp add: list_all_iff)
  qed
  have "strip ws_runes x = x" by (rule strip_stop) (use bad in blast)
  moreover have "\<not> prefix (rev q) (rev x)" if "q \<in> set ws_runes" for q using bad [OF that, of "rev q" "rev x"] by simp
  then have "strip (map rev ws_runes) (rev x) = rev x" by (intro strip_stop) auto
  ultimately show ?thesis by (simp add: trim_space_def trim_left_def trim_right_def)
qed


lemma bearer_read:
  assumes "graphic x" and "x \<noteq> []"
  shows "bearerToken (''Bearer '' @ x) = (x, True)"
proof -
  have "\<not> contains_any x ('' '' @ [CHR 0x09, CHR 0x0D, CHR 0x0A])"
    using assms(1) by (auto simp: contains_any_def graphic_def list_ex_iff list_all_iff)
  moreover have "to_lower ''Bearer '' = ''bearer ''" by code_simp
  ultimately show ?thesis using assms trim_graphic [OF assms(1)] by (simp add: bearerToken_def)
qed

lemma jwt0_ok: "jwt_ok jwt0"
proof -
  have "graphic ''t''" by (simp add: graphic_def)
  then show ?thesis by (auto simp: jwt_ok_def jwt0_def claims0_def split: if_splits)
qed

lemma owner_token: "token_ok two_users ''admin'' 7"
  unfolding token_ok_def two_users_current by (intro exI [of _ "[owner, guest]"] exI [of _ owner]) (simp add: owner_def)



lemma reachable_web3: "reachable web_init web_step web2" "reachable web_init web_step web3"
proof -
  have r0: "reachable web_init web_step web0" by (intro reachable.start) (simp add: web_init_def web0_def)
  have "web_step web0 web1" using web_step.enters [of web0 0 entry0] by (simp add: web1_def web0_def)
  with r0 have r1: "reachable web_init web_step web1" by (rule reachable.more)
  have "web_step web1 web2"
    using web_step.registers [of web1 0 entry0 1 True "w_reg web2"]
    by (simp add: web1_def web2_def web0_def register_def sessions_of_def entry0_def)
  with r1 show r2: "reachable web_init web_step web2" by (rule reachable.more)
  have "web_step web2 web3" unfolding web3_def by (rule web_step.accounts)
  with r2 show "reachable web_init web_step web3" by (rule reachable.more)
qed

section \<open>Properties\<close>



text \<open>
  A token made by \<open>GenerateJWT\<close> for a user of the account file opens the server: sent as a bearer token
  before it expires, while the account is enabled and its token version unchanged, \<open>authenticate\<close> accepts it
  as that user.
\<close>

theorem login_token_accepted:
  assumes "jwt_ok J" and "GenerateJWT conf J issued n v = Some raw" and "token_ok s n v" and "n \<noteq> []" and "v \<noteq> 0"
    and "now < numeric_date (issued + wrap64 (RefreshTokenDuration conf * second))"
    and "store_ok s" and "\<not> se_statFails e" and "\<not> se_readFails e" and "Authentication conf \<noteq> ''disable''"
    and "hr_authorization rq = ''Bearer '' @ raw"
  shows "\<exists>p c t. authenticate conf J pw e now rq s = (Some (p, Some c), t) \<and> pr_username p = n \<and> t_version c = v \<and> t_expiresAt c > now"
proof -
  obtain c where sg: "jwt_sign J (SecretKey conf) c = Some raw" and c: "t_username c = n" "t_subject c = n" "t_version c = v"
    "t_expiresAt c = numeric_date (issued + wrap64 (RefreshTokenDuration conf * second))"
    using assms(2) unfolding GenerateJWT_def by (metis Token.select_convs)
  then have raw: "raw \<noteq> []" "graphic raw" and "jwt_parse J (SecretKey conf) now raw = Some c"
    using assms(1,6) unfolding jwt_ok_def by metis+
  then have "ParseJWT conf J now raw = Some c" using c assms(4,5) by (simp add: ParseJWT_def)
  moreover have "supplied conf rq = Some raw" using bearer_read [OF raw(2,1)] assms(11) by (simp add: supplied_def)
  moreover obtain u t where "ValidateToken pw e n v s = (Inr u, t)" "u_name u = n"
    using validate_token_complete [OF assms(3) _ assms(8,9)] assms(7) unfolding store_ok_def by metis
  ultimately show ?thesis using c raw assms(6,10) by (simp add: authenticate_def)
qed

theorem login_token_accepted_witness:
  "\<exists>p c t. authenticate conf0 jwt0 plain_passwords calm second request0 two_users = (Some (p, Some c), t) \<and> pr_username p = ''admin''"
proof -
  have g: "GenerateJWT conf0 jwt0 0 ''admin'' 7 = Some ''t''"
    by (simp add: GenerateJWT_def conf0_def jwt0_def claims0_def numeric_date_def wrap64_def)
  have x: "second < numeric_date (0 + wrap64 (RefreshTokenDuration conf0 * second))"
    by (simp add: conf0_def numeric_date_def wrap64_def )
  have "\<exists>p c t. authenticate conf0 jwt0 plain_passwords calm second request0 two_users = (Some (p, Some c), t) \<and>
      pr_username p = ''admin'' \<and> t_version c = 7 \<and> t_expiresAt c > second"
    by (rule login_token_accepted [OF jwt0_ok g owner_token _ _ x two_users_ok(2)])
      (simp_all add: calm_def conf0_def request0_def)
  then show ?thesis by blast
qed

text \<open>
  In every state of the server a running request is cancelled, or taken out by a revocation and about to be cancelled,
  or listed in the registry under its user; and if it was authenticated by an account store and is listed,
  exactly one watcher is at work.
\<close>

theorem running_sessions_watched:
  assumes "reachable web_init web_step s" and "w_req s i = Running n e"
  shows "n \<in> w_cancelled s \<or> (n, e) \<in> w_revoked s \<or>
     listed n e (w_reg s) \<and> (ss_store e \<longrightarrow> (\<exists>w. w_watchers s = [w]))"
proof -
  note ok = web_okD [OF web.reachable_inv [OF assms(1)]]
  have "\<exists>w. w_watchers s = [w]" if "listed n e (w_reg s)" and "ss_store e"
    using ok(2) ok(3) [OF that] by (simp add: length_Suc_conv)
  then show ?thesis using ok(5) [OF assms(2)] by blast
qed

theorem running_sessions_watched_witness:
  "w_req web2 0 = Running 1 entry0 \<and> listed 1 entry0 (w_reg web2) \<and> (\<exists>w. w_watchers web2 = [w])"
  using running_sessions_watched [OF reachable_web3(1), of 0 1 entry0]
  by (simp add: web2_def web1_def web0_def entry0_def)

text \<open>
  C25. A session whose token the account store refuses during a whole pass of the watcher is cancelled when the
  pass ends, whatever else happens meanwhile: other requests come and go, are revoked or expire, and the
  accounts change.
\<close>

theorem recheck_ends_refused:
  assumes "reachable web_init web_step s" and "listed n e (w_reg s)" and "ss_store e"
    and "web_step s s1" and "w_watchers s = [Ticking]" and "w_watchers s1 = [Asking xs []]" and "\<not> w_accepted s1 (key_of e)"
    and "steps_while (\<lambda>u. \<not> w_accepted u (key_of e) \<and> (\<exists>ys seen. w_watchers u = [Asking ys seen])) s1 t"
    and "w_watchers t = [Asking [] seen]"
  shows "n \<in> w_cancelled t"
proof -
  note ok = web_okD [OF web.reachable_inv [OF assms(1)]]
  have "set xs = set (all_sessions (w_reg s))" using assms(4)
    by cases (use assms(5,6) in \<open>auto simp: Cons_eq_append_conv split: if_splits\<close>)
  then have "(n, e) \<in> set xs" using all_listed [OF ok(1)] assms(2) by simp
  from pass_keeps [OF assms(8,6) this assms(7,3)] assms(9) show ?thesis by auto
qed

theorem recheck_ends_refused_witness: "web_step web3 web4 \<and> web_step web4 web5 \<and> 1 \<in> w_cancelled web5"
proof -
  have s34: "web_step web3 web4"
    using web_step.tick [of web3 "[]" "[]" "[(1, entry0)]"]
    by (simp add: web4_def web3_def web2_def all_sessions_def)
  have s45: "web_step web4 web5"
    using web_step.asks [of web4 "[]" 1 entry0 "[]" "[]" "[]" True "[(key_of entry0, False)]"]
    by (simp add: web5_def web4_def web3_def recheck_entry_def entry0_def web2_def web1_def web0_def)
  have "steps_while (\<lambda>u. \<not> w_accepted u (key_of entry0) \<and> (\<exists>ys seen. w_watchers u = [Asking ys seen])) web4 web5"
    by (rule steps_while.on [OF steps_while.here s45]) (simp add: web5_def web4_def web3_def)
  moreover have "listed 1 entry0 (w_reg web3)" by (simp add: web3_def web2_def listed_def sessions_of_def entry0_def)
  ultimately have "1 \<in> w_cancelled web5"
    using s34 by (intro recheck_ends_refused [OF reachable_web3(2)])
      (simp_all add: web5_def web4_def web3_def web2_def entry0_def)
  with s34 s45 show ?thesis by blast
qed

end
