(* ===== verification/Go_Lines.thy ===== *)
theory Go_Lines
  imports Go_Strings
begin

text \<open>
  Lines of printable text, as the settings files of the server hold them: what \<open>strings.TrimSpace\<close> keeps of
  a value written with a line break after it, hexadecimal numbers as \<open>fmt\<close> reads and prints them, and the
  small functions of \<open>strings\<close> on prefixes and suffixes.
\<close>

definition printable :: "string \<Rightarrow> bool" where
  "printable v \<longleftrightarrow> list_all (\<lambda>c. 32 \<le> (of_char c :: nat) \<and> (of_char c :: nat) \<le> 126) v"

definition newline :: char where "newline = CHR 0x0A"

text \<open>Without a space at either end.\<close>

definition tight :: "string \<Rightarrow> bool" where
  "tight v \<longleftrightarrow> v = [] \<or> hd v \<noteq> CHR '' '' \<and> last v \<noteq> CHR '' ''"

definition trim_suffix :: "string \<Rightarrow> string \<Rightarrow> string" where
  "trim_suffix s x = (if suffix x s then take (length s - length x) s else s)"

definition trim_prefix :: "string \<Rightarrow> string \<Rightarrow> string" where
  "trim_prefix s x = (if prefix x s then drop (length x) s else s)"

text \<open>\<open>strings.Cut\<close> at a character.\<close>

definition cut :: "char \<Rightarrow> string \<Rightarrow> string \<times> string \<times> bool" where
  "cut c s = (if c \<in> set s then (takeWhile (\<lambda>x. x \<noteq> c) s, tl (dropWhile (\<lambda>x. x \<noteq> c) s), True) else (s, [], False))"

definition contains :: "string \<Rightarrow> string \<Rightarrow> bool" where
  "contains s x \<longleftrightarrow> sublist x s"

fun decimal :: "nat \<Rightarrow> string \<Rightarrow> nat" where
  "decimal acc [] = acc"
| "decimal acc (c # cs) = decimal (10 * acc + (of_char c - 48)) cs"

definition is_digit :: "char \<Rightarrow> bool" where
  "is_digit c \<longleftrightarrow> 48 \<le> (of_char c :: nat) \<and> (of_char c :: nat) \<le> 57"

text \<open>
  \<open>strconv.ParseInt\<close> with base 10 and 64 bits, and \<open>strconv.Atoi\<close>: the number and whether there was no error.
  A number out of range is the nearest one.
\<close>

definition ParseInt :: "string \<Rightarrow> int \<times> bool" where
  "ParseInt s =
     (let neg = (s \<noteq> [] \<and> hd s = CHR ''-'');
          body = (if s \<noteq> [] \<and> hd s \<in> {CHR ''+'', CHR ''-''} then tl s else s);
          n = int (decimal 0 body)
      in if body = [] \<or> \<not> list_all is_digit body then (0, False)
         else if neg then (if n > 2 ^ 63 then (- (2 ^ 63), False) else (- n, True))
         else if n \<ge> 2 ^ 63 then (2 ^ 63 - 1, False) else (n, True))"

definition hex_digit :: "char \<Rightarrow> nat option" where
  "hex_digit c =
     (let n = (of_char c :: nat) in
      if 48 \<le> n \<and> n \<le> 57 then Some (n - 48)
      else if 97 \<le> n \<and> n \<le> 102 then Some (n - 87)
      else if 65 \<le> n \<and> n \<le> 70 then Some (n - 55) else None)"

definition hex_char :: "nat \<Rightarrow> char" where
  "hex_char n = ''0123456789abcdef'' ! n"

fun hex_value :: "nat \<Rightarrow> string \<Rightarrow> nat" where
  "hex_value acc [] = acc"
| "hex_value acc (c # cs) = hex_value (16 * acc + (case hex_digit c of Some d \<Rightarrow> d | None \<Rightarrow> 0)) cs"

text \<open>The verb \<open>%04x\<close> on a 16-bit number.\<close>

definition hex4 :: "nat \<Rightarrow> string" where
  "hex4 n = [hex_char (n div 4096 mod 16), hex_char (n div 256 mod 16), hex_char (n div 16 mod 16), hex_char (n mod 16)]"

section \<open>Trimming\<close>

lemma ws_runes_ends:
  "list_all (\<lambda>r. r \<noteq> [] \<and> (hd r = CHR '' '' \<or> \<not> printable [hd r]) \<and> (last r = CHR '' '' \<or> \<not> printable [last r])) ws_runes"
  by code_simp

lemma rune_first:
  assumes "r \<in> set ws_runes" and "prefix r v" and "printable v" and "v \<noteq> []"
  shows "hd v = CHR '' ''"
proof -
  have r: "r \<noteq> []" "hd r = CHR '' '' \<or> \<not> printable [hd r]" using ws_runes_ends assms(1) by (auto simp: list_all_iff)
  then have "hd v = hd r" using assms(2) by (auto simp: prefix_def)
  moreover have "printable [hd v]" using assms(3,4) by (cases v) (auto simp: printable_def)
  ultimately show ?thesis using r(2) by auto
qed

lemma rune_last:
  assumes "r \<in> set ws_runes" and "prefix (rev r) (rev v)" and "printable v" and "v \<noteq> []"
  shows "last v = CHR '' ''"
proof -
  have r: "r \<noteq> []" "last r = CHR '' '' \<or> \<not> printable [last r]" using ws_runes_ends assms(1) by (auto simp: list_all_iff)
  obtain z where "rev v = rev r @ z" using assms(2) by (auto simp: prefix_def)
  then have "v = rev z @ r" by (metis rev_append rev_rev_ident)
  then have "last v = last r" using r(1) by simp
  moreover have "printable [last v]" using assms(3,4) by (auto simp: printable_def list_all_iff)
  ultimately show ?thesis using r(2) by auto
qed

lemma strip_suffix: "suffix (strip rs s) s"
proof (induction rs s rule: strip.induct)
  case (1 rs s)
  show ?case
  proof (cases "find (\<lambda>r. r \<noteq> [] \<and> prefix r s) rs")
    case None
    then show ?thesis by (subst strip.simps) simp
  next
    case (Some r)
    then have "suffix (strip rs (drop (length r) s)) (drop (length r) s)" by (rule 1)
    then show ?thesis using Some by (subst strip.simps) (simp add: suffix_order.trans [OF _ suffix_drop])
  qed
qed

lemma trim_right_prefix: "prefix (trim_right s) s"
  using strip_suffix [of "map rev ws_runes" "rev s"] by (simp add: trim_right_def suffix_to_prefix)

lemma set_trim: "set (trim_space s) \<subseteq> set s"
proof -
  have "set (trim_space s) \<subseteq> set (trim_left s)"
    using set_mono_prefix[OF trim_right_prefix] by (simp add: trim_space_def)
  also have "\<dots> \<subseteq> set s" using set_mono_suffix[OF strip_suffix] by (simp add: trim_left_def)
  finally show ?thesis .
qed

lemma set_join: "x \<in> set (join_with c ps) \<Longrightarrow> x = c \<or> (\<exists>p \<in> set ps. x \<in> set p)"
  by (induction ps rule: join_with.induct) auto

lemma split_on_subset: "l \<in> set (split_on c s) \<Longrightarrow> set l \<subseteq> set s"
proof (induction s arbitrary: l)
  case (Cons x xs)
  then show ?case using split_on_nonempty[of c xs] by (fastforce split: if_splits list.splits)
qed simp

lemma space_rune: "[CHR '' ''] \<in> set ws_runes" "[CHR '' ''] \<in> set (map rev ws_runes)"
  by (simp_all add: ws_runes_def)

lemma trim_tight: "tight (trim_space s)"
proof -
  let ?x = "trim_left s" and ?y = "trim_space s"
  have "\<not> prefix [CHR '' ''] ?x" unfolding trim_left_def by (rule strip_done [OF space_rune(1)]) simp
  moreover have "prefix ?y ?x" using trim_right_prefix by (simp add: trim_space_def)
  ultimately have "?y \<noteq> [] \<Longrightarrow> hd ?y \<noteq> CHR '' ''" by (cases ?y) (auto simp: prefix_def)
  moreover have "\<not> prefix [CHR '' ''] (rev ?y)"
    unfolding trim_space_def trim_right_def rev_rev_ident by (rule strip_done [OF space_rune(2)]) simp
  then have "?y \<noteq> [] \<Longrightarrow> last ?y \<noteq> CHR '' ''" by (cases ?y rule: rev_cases) auto
  ultimately show ?thesis by (auto simp: tight_def)
qed

lemma strip_tight:
  assumes "printable v" and "tight v"
  shows "strip ws_runes v = v" and "strip (map rev ws_runes) (rev v) = rev v"
proof -
  have "\<not> prefix r v \<and> \<not> prefix (rev r) (rev v)" if "r \<in> set ws_runes" for r
  proof (cases "v = []")
    case True
    then show ?thesis using that ws_runes_ends by (auto simp: list_all_iff)
  next
    case False
    then show ?thesis using rune_first [OF that] rune_last [OF that] assms by (auto simp: tight_def)
  qed
  then show "strip ws_runes v = v" "strip (map rev ws_runes) (rev v) = rev v" by (auto intro!: strip_stop)
qed

lemma trim_id: "printable v \<Longrightarrow> trim_space v = v \<longleftrightarrow> tight v"
  using trim_tight [of v] strip_tight [of v] by (auto simp: trim_space_def trim_left_def trim_right_def)

text \<open>The line break after a value is trimmed and nothing else.\<close>

lemma newline_rune:
  "find (\<lambda>r. r \<noteq> [] \<and> prefix r (newline # x)) (map rev ws_runes) = Some [newline]"
  "find (\<lambda>r. r \<noteq> [] \<and> prefix r (newline # x)) ws_runes = Some [newline]"
  by (simp_all add: ws_runes_def newline_def)

lemma trim_line:
  assumes "printable v" and "tight v"
  shows "trim_space (v @ [newline]) = v"
proof (cases "v = []")
  case True
  have "strip ws_runes [newline] = []" by (subst strip.simps) (simp add: newline_rune strip_tight(1) [of "[]", simplified] printable_def tight_def)
  moreover have "trim_right [] = []" by (simp add: trim_right_def strip_tight(2) [of "[]", simplified] printable_def tight_def)
  ultimately show ?thesis using True by (simp add: trim_space_def trim_left_def)
next
  case False
  have "\<not> prefix r (v @ [newline])" if r: "r \<in> set ws_runes" for r
  proof
    assume p: "prefix r (v @ [newline])"
    have "r \<noteq> []" "hd r = CHR '' '' \<or> \<not> printable [hd r]" using ws_runes_ends r by (auto simp: list_all_iff)
    moreover have "hd r = hd v" using p False \<open>r \<noteq> []\<close> by (cases v) (auto simp: prefix_def Cons_eq_append_conv append_eq_Cons_conv)
    moreover have "printable [hd v]" using assms(1) False by (cases v) (auto simp: printable_def)
    ultimately show False using assms(2) False by (auto simp: tight_def)
  qed
  then have "trim_left (v @ [newline]) = v @ [newline]" unfolding trim_left_def by (intro strip_stop) auto
  moreover have "strip (map rev ws_runes) (newline # rev v) = rev v"
    by (subst strip.simps) (simp add: newline_rune strip_tight(2) [OF assms])
  ultimately show ?thesis by (simp add: trim_space_def trim_right_def)
qed

section \<open>Hexadecimal numbers\<close>

lemma hex_char_digit: "n < 16 \<Longrightarrow> hex_digit (hex_char n) = Some n"
proof -
  have "list_all (\<lambda>n. hex_digit (hex_char n) = Some n) [0..<16]" by code_simp
  then show "n < 16 \<Longrightarrow> hex_digit (hex_char n) = Some n" by (simp add: list_all_iff)
qed

lemma hex4_value: "n < 65536 \<Longrightarrow> hex_value 0 (hex4 n) = n"
proof -
  assume n: "n < 65536"
  have d: "n div 256 = n div 16 div 16" "n div 4096 = n div 16 div 16 div 16" by (simp_all add: div_mult2_eq [symmetric])
  have "n div 16 div 16 div 16 < 16" using n by (simp add: div_mult2_eq [symmetric] less_mult_imp_div_less)
  note top = this hex_char_digit [OF this] mod_less [OF this]
  show "hex_value 0 (hex4 n) = n"
    using mult_div_mod_eq [of 16 n] mult_div_mod_eq [of 16 "n div 16"] mult_div_mod_eq [of 16 "n div 16 div 16"]
    unfolding hex4_def d top(3) by (simp add: hex_char_digit top(2))
qed

lemma hex_char_printable: "n < 16 \<Longrightarrow> printable [hex_char n] \<and> hex_char n \<noteq> CHR '' '' \<and> lower_char (hex_char n) = hex_char n"
proof -
  have "list_all (\<lambda>n. printable [hex_char n] \<and> hex_char n \<noteq> CHR '' '' \<and> lower_char (hex_char n) = hex_char n) [0..<16]"
    by code_simp
  then show "n < 16 \<Longrightarrow> printable [hex_char n] \<and> hex_char n \<noteq> CHR '' '' \<and> lower_char (hex_char n) = hex_char n"
    by (simp add: list_all_iff)
qed

lemma hex_value_bound: "hex_value acc cs < 16 ^ length cs * Suc acc"
proof (induction cs arbitrary: acc)
  case (Cons c cs)
  define d where "d = (case hex_digit c of Some d \<Rightarrow> d | None \<Rightarrow> 0)"
  have "d < 16" by (auto simp: d_def hex_digit_def Let_def split: option.splits if_splits)
  then have "16 ^ length cs * Suc (16 * acc + d) \<le> 16 ^ length cs * (16 * Suc acc)" by (intro mult_le_mono2) simp
  then have "hex_value (16 * acc + d) cs < 16 ^ length cs * (16 * Suc acc)" by (rule less_le_trans [OF Cons])
  then show ?case by (simp add: d_def [symmetric] algebra_simps)
qed simp

end
