(* ===== verification/Usb_Identity.thy ===== *)
theory Usb_Identity
  imports Go_Lines
begin

text \<open>
  The names the device shows to the computer: the USB identity of \<open>service/vm/usb_identity.go\<close> and the SCSI
  names of \<open>internal/storageidentity\<close>, their checks, and the files of the USB flags directory that keep them. A
  directory is a function from names to contents; \<open>None\<close> is a file that is missing or cannot be read.
\<close>

type_synonym flags_dir = "string \<Rightarrow> string option"

section \<open>USB identity\<close>

record usbIdentity =
  VendorID :: string
  ProductID :: string
  Manufacturer :: string
  Product :: string
  SerialNumber :: string

definition defaultUSBIdentity :: usbIdentity where
  "defaultUSBIdentity = \<lparr>VendorID = ''0x3346'', ProductID = ''0x1009'', Manufacturer = ''sipeed'', Product = ''NanoKVM'', SerialNumber = []\<rparr>"

definition zeroUSBIdentity :: usbIdentity where
  "zeroUSBIdentity = \<lparr>VendorID = [], ProductID = [], Manufacturer = [], Product = [], SerialNumber = []\<rparr>"

definition maxUSBStringLength :: nat where "maxUSBStringLength = 126"

definition usbIDPattern :: "string \<Rightarrow> bool" where
  "usbIDPattern v \<longleftrightarrow>
     3 \<le> length v \<and> length v \<le> 6 \<and> hd v = CHR ''0'' \<and> v ! 1 \<in> {CHR ''x'', CHR ''X''} \<and>
     list_all (\<lambda>c. hex_digit c \<noteq> None) (drop 2 v)"

definition serial_char :: "char \<Rightarrow> bool" where
  "serial_char c \<longleftrightarrow>
     (let n = (of_char c :: nat) in
      48 \<le> n \<and> n \<le> 57 \<or> 65 \<le> n \<and> n \<le> 90 \<or> 97 \<le> n \<and> n \<le> 122 \<or> c \<in> {CHR ''.'', CHR ''_'', CHR ''-''})"

definition usbSerialPattern :: "string \<Rightarrow> bool" where
  "usbSerialPattern v \<longleftrightarrow> v \<noteq> [] \<and> length v \<le> 126 \<and> list_all serial_char v"

definition normalizeUSBID :: "string \<Rightarrow> string option" where
  "normalizeUSBID value =
     (let v = trim_space value in
      if \<not> usbIDPattern v then None
      else let n = hex_value 0 (drop 2 (to_lower v)) in
        if n = 0 then None else Some (''0x'' @ hex4 n))"

definition validUSBString :: "string \<Rightarrow> bool" where
  "validUSBString v \<longleftrightarrow> \<not> (v = [] \<or> length v > maxUSBStringLength) \<and> printable v \<and> trim_space v = v"

definition normalized :: "usbIdentity \<Rightarrow> usbIdentity" where
  "normalized i =
     \<lparr>VendorID = (case normalizeUSBID (VendorID i) of Some v \<Rightarrow> v | None \<Rightarrow> VendorID defaultUSBIdentity),
      ProductID = (case normalizeUSBID (ProductID i) of Some v \<Rightarrow> v | None \<Rightarrow> ProductID defaultUSBIdentity),
      Manufacturer = (if Manufacturer i \<noteq> [] then Manufacturer i else Manufacturer defaultUSBIdentity),
      Product = (if Product i \<noteq> [] then Product i else Product defaultUSBIdentity),
      SerialNumber = SerialNumber i\<rparr>"

text \<open>The answer of \<open>validate\<close> is whether it returns no error.\<close>

definition validate_identity :: "usbIdentity \<Rightarrow> bool" where
  "validate_identity i \<longleftrightarrow>
     (VendorID i \<noteq> [] \<longrightarrow> normalizeUSBID (VendorID i) \<noteq> None) \<and>
     (ProductID i \<noteq> [] \<longrightarrow> normalizeUSBID (ProductID i) \<noteq> None) \<and>
     (Manufacturer i \<noteq> [] \<longrightarrow> validUSBString (Manufacturer i)) \<and>
     (Product i \<noteq> [] \<longrightarrow> validUSBString (Product i)) \<and>
     (SerialNumber i \<noteq> [] \<longrightarrow> usbSerialPattern (SerialNumber i))"

definition isDefault :: "usbIdentity \<Rightarrow> bool" where
  "isDefault i \<longleftrightarrow> normalized i = defaultUSBIdentity"

text \<open>A request without an identity, or one that is checked as typed.\<close>

definition identityFromRequest :: "usbIdentity option \<Rightarrow> usbIdentity option" where
  "identityFromRequest req =
     (case req of
        None \<Rightarrow> Some zeroUSBIdentity
      | Some raw \<Rightarrow> if validate_identity raw then Some (normalized raw) else None)"

text \<open>The value of each file, \<open>None\<close> for one to remove.\<close>

definition set_value :: "string \<Rightarrow> string \<Rightarrow> string option" where
  "set_value value fallback = (if value = fallback then None else Some value)"

definition identity_files :: "usbIdentity \<Rightarrow> (string \<times> string option) list" where
  "identity_files i =
     (let n = normalized i; d = defaultUSBIdentity in
      [(''usb.vid'', set_value (VendorID n) (VendorID d)), (''usb.pid'', set_value (ProductID n) (ProductID d)),
       (''usb.manufacturer'', set_value (Manufacturer n) (Manufacturer d)), (''usb.product'', set_value (Product n) (Product d)),
       (''usb.serialnumber'', set_value (SerialNumber n) [])])"

definition read_trimmed :: "flags_dir \<Rightarrow> string \<Rightarrow> string" where
  "read_trimmed d name = (case d name of None \<Rightarrow> [] | Some x \<Rightarrow> trim_space x)"

definition or_empty :: "bool \<Rightarrow> string \<Rightarrow> string" where
  "or_empty ok v = (if ok then v else [])"

definition readUSBIdentity :: "flags_dir \<Rightarrow> usbIdentity" where
  "readUSBIdentity d =
     (let vid = read_trimmed d ''usb.vid''; pid = read_trimmed d ''usb.pid''; man = read_trimmed d ''usb.manufacturer'';
          prod = read_trimmed d ''usb.product''; ser = read_trimmed d ''usb.serialnumber''
      in normalized \<lparr>VendorID = or_empty (normalizeUSBID vid \<noteq> None) vid, ProductID = or_empty (normalizeUSBID pid \<noteq> None) pid,
           Manufacturer = or_empty (validUSBString man) man, Product = or_empty (validUSBString prod) prod,
           SerialNumber = or_empty (usbSerialPattern ser) ser\<rparr>)"

text \<open>The serial number without a setting: the second field of the chip's file, without underscores.\<close>

definition chipSerialNumber :: "string option \<Rightarrow> string" where
  "chipSerialNumber data =
     (case data of
        None \<Rightarrow> ''0123456789ABCDEF''
      | Some x \<Rightarrow>
          (let fields = Fields x in
           if length fields < 2 then ''0123456789ABCDEF''
           else let uid = filter (\<lambda>c. c \<noteq> CHR ''_'') (fields ! 1) in
             if length uid \<ge> 12 then uid else ''0123456789ABCDEF''))"

section \<open>Storage identity\<close>

record Identity =
  Vendor :: string
  ImageName :: string
  Setup :: string
  UserName :: string

definition Defaults :: Identity where
  "Defaults = \<lparr>Vendor = ''NanoKVM'', ImageName = [], Setup = ''Setup Disk'', UserName = ''User Disk''\<rparr>"

definition Files :: "string list" where
  "Files = [''usb.storage.vendor'', ''usb.storage.image'', ''usb.storage.setup'', ''usb.storage.user'']"

definition valid_field :: "string \<Rightarrow> nat \<Rightarrow> bool" where
  "valid_field s limit \<longleftrightarrow> length s \<le> limit \<and> trim_space s = s \<and> printable s"

definition ValidateIdentity :: "Identity \<Rightarrow> bool" where
  "ValidateIdentity i \<longleftrightarrow> valid_field (Vendor i) 8 \<and> valid_field (ImageName i) 16 \<and> valid_field (Setup i) 16 \<and> valid_field (UserName i) 16"

definition Normalized :: "Identity \<Rightarrow> Identity" where
  "Normalized i =
     \<lparr>Vendor = (if Vendor i = [] then Vendor Defaults else Vendor i), ImageName = ImageName i,
      Setup = (if Setup i = [] then Setup Defaults else Setup i),
      UserName = (if UserName i = [] then UserName Defaults else UserName i)\<rparr>"

definition FileValues :: "Identity \<Rightarrow> (string \<times> string option) list" where
  "FileValues i =
     (let n = Normalized i in
      zip Files [set_value (Vendor n) (Vendor Defaults), set_value (ImageName n) (ImageName Defaults),
        set_value (Setup n) (Setup Defaults), set_value (UserName n) (UserName Defaults)])"

definition read_field :: "flags_dir \<Rightarrow> string \<Rightarrow> nat \<Rightarrow> string" where
  "read_field d name limit =
     (case d name of
        None \<Rightarrow> []
      | Some x \<Rightarrow> let s = trim_suffix (take (limit + 2) x) [newline] in if valid_field s limit then s else [])"

definition ReadIdentity :: "flags_dir \<Rightarrow> Identity" where
  "ReadIdentity d =
     Normalized \<lparr>Vendor = read_field d (Files ! 0) 8, ImageName = read_field d (Files ! 1) 16,
       Setup = read_field d (Files ! 2) 16, UserName = read_field d (Files ! 3) 16\<rparr>"

text \<open>The verb \<open>%-8s\<close>: spaces after the value up to the width.\<close>

definition pad :: "nat \<Rightarrow> string \<Rightarrow> string" where
  "pad n s = s @ replicate (n - length s) (CHR '' '')"

definition Inquiry :: "Identity \<Rightarrow> string \<Rightarrow> string" where
  "Inquiry i kind =
     (let n = Normalized i;
          image = (\<lambda>dflt. if ImageName n = [] then dflt else ImageName n);
          product = (if kind = ''setup'' then Setup n else if kind = ''user'' then UserName n
            else if kind = ''cdrom'' then image ''USB CD/DVD-ROM'' else if kind = ''remote'' then image ''Remote ISO''
            else image ''USB Mass Storage'')
      in pad 8 (Vendor n) @ pad 16 product @ ''0520'')"

section \<open>What is written\<close>

text \<open>A value of the flags directory is a line; a missing value is a missing file.\<close>

definition as_file :: "string option \<Rightarrow> string option" where
  "as_file v = map_option (\<lambda>x. x @ [newline]) v"

section \<open>Lemmas\<close>

lemma serial_char_printable: "serial_char c \<Longrightarrow> printable [c] \<and> c \<noteq> CHR '' ''"
  by (auto simp: serial_char_def printable_def Let_def)

lemma serial_text: "usbSerialPattern v \<Longrightarrow> printable v \<and> tight v"
proof -
  assume v: "usbSerialPattern v"
  then have c: "serial_char c" if "c \<in> set v" for c using that by (simp add: usbSerialPattern_def list_all_iff)
  have "v \<noteq> []" using v by (simp add: usbSerialPattern_def)
  then have "tight v" using c serial_char_printable by (auto simp: tight_def)
  moreover have "printable v" using c serial_char_printable by (auto simp: printable_def list_all_iff)
  ultimately show ?thesis by simp
qed

lemma usb_string_text: "validUSBString v \<Longrightarrow> printable v \<and> tight v"
  using trim_id [of v] by (auto simp: validUSBString_def)

lemma field_text: "valid_field v n \<Longrightarrow> printable v \<and> tight v"
  using trim_id [of v] by (auto simp: valid_field_def)

text \<open>The canonical form of an ID is text, and its own canonical form.\<close>

lemma usb_id_text: "n < 65536 \<Longrightarrow> printable (''0x'' @ hex4 n) \<and> tight (''0x'' @ hex4 n)"
proof -
  assume "n < 65536"
  have c: "printable [hex_char (k mod 16)] \<and> hex_char (k mod 16) \<noteq> CHR '' ''" for k using hex_char_printable [of "k mod 16"] by simp
  then show "printable (''0x'' @ hex4 n) \<and> tight (''0x'' @ hex4 n)" by (simp add: hex4_def printable_def tight_def)
qed

lemma usb_id_pattern: "usbIDPattern (''0x'' @ hex4 n)"
  using hex_char_digit by (simp add: usbIDPattern_def hex4_def)

lemma to_lower_hex4: "to_lower (''0x'' @ hex4 n) = ''0x'' @ hex4 n"
proof -
  have "lower_char (hex_char (k mod 16)) = hex_char (k mod 16)" for k using hex_char_printable [of "k mod 16"] by simp
  moreover have "lower_char (CHR ''0'') = CHR ''0''" "lower_char (CHR ''x'') = CHR ''x''" by code_simp+
  ultimately show ?thesis by (simp add: to_lower_def hex4_def)
qed

lemma normalize_hex4: "n < 65536 \<Longrightarrow> n \<noteq> 0 \<Longrightarrow> normalizeUSBID (''0x'' @ hex4 n) = Some (''0x'' @ hex4 n)"
proof -
  assume n: "n < 65536" "n \<noteq> 0"
  have t: "trim_space (''0x'' @ hex4 n) = ''0x'' @ hex4 n" using usb_id_text [OF n(1)] trim_id by blast
  have "hex_value 0 (drop 2 (''0x'' @ hex4 n)) = n" using hex4_value [OF n(1)] by simp
  then show "normalizeUSBID (''0x'' @ hex4 n) = Some (''0x'' @ hex4 n)"
    unfolding normalizeUSBID_def Let_def t to_lower_hex4 using usb_id_pattern [of n] n(2) by simp
qed

lemma normalize_id:
  assumes "normalizeUSBID v = Some w"
  obtains n where "w = ''0x'' @ hex4 n" and "n < 65536" and "n \<noteq> 0"
proof -
  let ?v = "trim_space v" and ?n = "hex_value 0 (drop 2 (to_lower (trim_space v)))"
  have w: "w = ''0x'' @ hex4 ?n" "?n \<noteq> 0" "usbIDPattern ?v" using assms by (auto simp: normalizeUSBID_def Let_def split: if_splits)
  have "length (drop 2 (to_lower ?v)) \<le> 4" using w(3) by (auto simp: usbIDPattern_def to_lower_def)
  then have "(16::nat) ^ length (drop 2 (to_lower ?v)) \<le> 16 ^ 4" by (intro power_increasing) auto
  then have "?n < 65536" using hex_value_bound [of 0 "drop 2 (to_lower ?v)"] by simp
  with w that show ?thesis by blast
qed

lemma normalize_again: "normalizeUSBID v = Some w \<Longrightarrow> normalizeUSBID w = Some w"
  using normalize_hex4 by (auto elim!: normalize_id)

lemma normalize_text: "normalizeUSBID v = Some w \<Longrightarrow> printable w \<and> tight w"
  using usb_id_text by (auto elim!: normalize_id)

lemma default_ids: "normalizeUSBID ''0x3346'' = Some ''0x3346''" "normalizeUSBID ''0x1009'' = Some ''0x1009''"
proof -
  have "hex4 13126 = ''3346''" "hex4 4105 = ''1009''" by (simp_all add: hex4_def hex_char_def)
  then show "normalizeUSBID ''0x3346'' = Some ''0x3346''" "normalizeUSBID ''0x1009'' = Some ''0x1009''"
    using normalize_hex4 [of 13126] normalize_hex4 [of 4105] by simp_all
qed

lemma normalize_empty: "normalizeUSBID [] = None"
proof -
  have "trim_space [] = []" by (subst trim_id) (simp_all add: printable_def tight_def)
  then show ?thesis by (simp add: normalizeUSBID_def usbIDPattern_def)
qed

text \<open>A canonical identity: its own normal form, and each of its values survives a file.\<close>

lemma normalized_again: "normalized (normalized i) = normalized i"
  by (auto simp: normalized_def defaultUSBIdentity_def default_ids normalize_again split: option.splits)

lemma normalized_valid: "validate_identity i \<Longrightarrow> validate_identity (normalized i)"
proof -
  have "validUSBString ''sipeed''" "validUSBString ''NanoKVM''"
    by (simp_all add: validUSBString_def maxUSBStringLength_def trim_id printable_def tight_def)
  then show "validate_identity i \<Longrightarrow> validate_identity (normalized i)"
    by (auto simp: validate_identity_def normalized_def defaultUSBIdentity_def default_ids dest: normalize_again split: option.splits if_splits)
qed

lemma read_written:
  assumes "d name = as_file (set_value v dflt)" and "printable v" and "tight v"
  shows "read_trimmed d name = (if v = dflt then [] else v)"
  using assms trim_line [of v] by (simp add: read_trimmed_def as_file_def set_value_def)

lemma map_of_at: "distinct (map fst xs) \<Longrightarrow> (k, v) \<in> set xs \<Longrightarrow> map_of xs k = Some v"
  by simp

text \<open>The identity files: written for a valid identity, they are read back as its normal form.\<close>

lemma read_normal:
  assumes "normalizeUSBID (VendorID n) = Some (VendorID n)" and "normalizeUSBID (ProductID n) = Some (ProductID n)"
    and "validUSBString (Manufacturer n)" and "validUSBString (Product n)" and "SerialNumber n = [] \<or> usbSerialPattern (SerialNumber n)"
    and "d ''usb.vid'' = as_file (set_value (VendorID n) (VendorID defaultUSBIdentity))"
    and "d ''usb.pid'' = as_file (set_value (ProductID n) (ProductID defaultUSBIdentity))"
    and "d ''usb.manufacturer'' = as_file (set_value (Manufacturer n) (Manufacturer defaultUSBIdentity))"
    and "d ''usb.product'' = as_file (set_value (Product n) (Product defaultUSBIdentity))"
    and "d ''usb.serialnumber'' = as_file (set_value (SerialNumber n) [])"
  shows "readUSBIdentity d = n"
proof -
  let ?D = defaultUSBIdentity
  have ser: "printable (SerialNumber n)" "tight (SerialNumber n)"
    using assms(5) serial_text by (auto simp: printable_def tight_def)
  have rd: "read_trimmed d ''usb.vid'' = (if VendorID n = VendorID ?D then [] else VendorID n)"
    "read_trimmed d ''usb.pid'' = (if ProductID n = ProductID ?D then [] else ProductID n)"
    "read_trimmed d ''usb.manufacturer'' = (if Manufacturer n = Manufacturer ?D then [] else Manufacturer n)"
    "read_trimmed d ''usb.product'' = (if Product n = Product ?D then [] else Product n)"
    "read_trimmed d ''usb.serialnumber'' = (if SerialNumber n = [] then [] else SerialNumber n)"
    using normalize_text [OF assms(1)] normalize_text [OF assms(2)] usb_string_text [OF assms(3)] usb_string_text [OF assms(4)] ser
      read_written assms(6-10) by blast+
  have "\<not> validUSBString []" "\<not> usbSerialPattern []" by (simp_all add: validUSBString_def usbSerialPattern_def)
  then show ?thesis
    unfolding readUSBIdentity_def Let_def rd using assms(1-5) normalize_empty
    by (intro usbIdentity.equality) (auto simp: or_empty_def normalized_def)
qed

text \<open>The identity files: written for a valid identity, they are read back as its normal form.\<close>

lemma identity_round_trip:
  assumes "validate_identity i" and d: "\<And>name v. (name, v) \<in> set (identity_files i) \<Longrightarrow> d name = as_file v"
  shows "readUSBIdentity d = normalized i"
proof (rule read_normal)
  note v = normalized_valid [OF assms(1)]
  show "normalizeUSBID (VendorID (normalized i)) = Some (VendorID (normalized i))"
    "normalizeUSBID (ProductID (normalized i)) = Some (ProductID (normalized i))"
    by (auto simp: normalized_def defaultUSBIdentity_def default_ids dest: normalize_again split: option.splits)
  have "Manufacturer (normalized i) \<noteq> []" "Product (normalized i) \<noteq> []" by (simp_all add: normalized_def defaultUSBIdentity_def)
  then show "validUSBString (Manufacturer (normalized i))" "validUSBString (Product (normalized i))"
    "SerialNumber (normalized i) = [] \<or> usbSerialPattern (SerialNumber (normalized i))"
    using v by (auto simp: validate_identity_def)
qed (rule d, simp add: identity_files_def Let_def)+

text \<open>The same of the storage names.\<close>

lemma field_round_trip:
  assumes "d name = as_file (set_value v dflt)" and "valid_field v limit"
  shows "read_field d name limit = (if v = dflt then [] else v)"
proof -
  have "length v \<le> limit" using assms(2) by (simp add: valid_field_def)
  then have "take (limit + 2) (v @ [newline]) = v @ [newline]" by simp
  moreover have "trim_suffix (v @ [newline]) [newline] = v" by (simp add: trim_suffix_def)
  ultimately show ?thesis using assms by (simp add: read_field_def as_file_def set_value_def)
qed

lemma defaults_valid: "valid_field ''NanoKVM'' 8" "valid_field ''Setup Disk'' 16" "valid_field ''User Disk'' 16" "valid_field [] 16"
proof -
  have "printable ''NanoKVM''" "printable ''Setup Disk''" "printable ''User Disk''" "printable []" by (simp_all add: printable_def)
  then show "valid_field ''NanoKVM'' 8" "valid_field ''Setup Disk'' 16" "valid_field ''User Disk'' 16" "valid_field [] 16"
    by (simp_all add: valid_field_def trim_id tight_def)
qed

lemma Normalized_valid: "ValidateIdentity i \<Longrightarrow> ValidateIdentity (Normalized i)"
  by (simp add: ValidateIdentity_def Normalized_def Defaults_def defaults_valid)

lemma storage_round_trip:
  assumes "ValidateIdentity i" and d: "\<And>name v. (name, v) \<in> set (FileValues i) \<Longrightarrow> d name = as_file v"
  shows "ReadIdentity d = Normalized i"
proof -
  let ?n = "Normalized i"
  note v = Normalized_valid [OF assms(1), unfolded ValidateIdentity_def]
  have "d (Files ! 0) = as_file (set_value (Vendor ?n) (Vendor Defaults))" "d (Files ! 1) = as_file (set_value (ImageName ?n) (ImageName Defaults))"
    "d (Files ! 2) = as_file (set_value (Setup ?n) (Setup Defaults))" "d (Files ! 3) = as_file (set_value (UserName ?n) (UserName Defaults))"
    by (rule d, simp add: FileValues_def Let_def Files_def)+
  then have "read_field d (Files ! 0) 8 = (if Vendor ?n = Vendor Defaults then [] else Vendor ?n)"
    "read_field d (Files ! 1) 16 = (if ImageName ?n = ImageName Defaults then [] else ImageName ?n)"
    "read_field d (Files ! 2) 16 = (if Setup ?n = Setup Defaults then [] else Setup ?n)"
    "read_field d (Files ! 3) 16 = (if UserName ?n = UserName Defaults then [] else UserName ?n)"
    using v field_round_trip by blast+
  then show ?thesis unfolding ReadIdentity_def by (auto simp: Normalized_def Defaults_def)
qed

text \<open>The inquiry strings have the 28 bytes the protocol gives them.\<close>

lemma inquiry_length: "ValidateIdentity i \<Longrightarrow> length (Inquiry i kind) = 28"
  by (simp add: Inquiry_def Let_def pad_def Normalized_def Defaults_def ValidateIdentity_def valid_field_def)

end
