(* ===== verification/Usb_Composition.thy ===== *)
theory Usb_Composition
  imports Usb_Identity
begin

text \<open>
  The functions the device offers over USB: \<open>service/vm/virtual-device.go\<close>, \<open>service/vm/usb-composition.go\<close> and
  \<open>service/vm/remote-access-usb.go\<close>. A composition is kept as flag files; a change stops the gadget, rewrites
  the flags, starts the gadget and checks it, and puts everything back if a step fails.

  The files are a function from paths to permissions and contents. The init script, which sets up the gadget
  from the flags, and the outcome of every file operation are answers of the environment, in order; \<open>us_n\<close>
  counts them.
\<close>

section \<open>Compositions\<close>

definition ModeNormal :: string where "ModeNormal = ''normal''"
definition ModeHidOnly :: string where "ModeHidOnly = ''hid-only''"

record usbComposition =
  uc_mode :: string
  uc_keyboard :: bool
  uc_relative :: bool
  uc_absolute :: bool
  uc_network :: bool
  uc_disk :: bool
  uc_serial :: bool
  uc_audio :: bool
  uc_identity :: usbIdentity
  uc_storageIdentity :: Identity
  uc_userDisk :: bool

definition usbInEndpointLimit :: nat where "usbInEndpointLimit = 6"
definition usbOutEndpointLimit :: nat where "usbOutEndpointLimit = 7"

definition usbEndpointCosts :: "(string \<times> nat \<times> nat) list" where
  "usbEndpointCosts =
     [(''hid'', 3, 3), (''keyboard'', 1, 1), (''relative'', 1, 1), (''absolute'', 1, 1), (''network'', 2, 1),
      (''disk'', 1, 1), (''serial'', 2, 1), (''audio'', 0, 1)]"

definition devices :: "usbComposition \<Rightarrow> (string \<times> bool) list" where
  "devices s =
     [(''keyboard'', uc_keyboard s), (''relative'', uc_relative s), (''absolute'', uc_absolute s), (''network'', uc_network s),
      (''disk'', uc_disk s), (''serial'', uc_serial s), (''audio'', uc_audio s)]"

definition endpointUsage :: "usbComposition \<Rightarrow> nat \<times> nat" where
  "endpointUsage s =
     foldl (\<lambda>(i, j) (device, on). if on then (case map_of usbEndpointCosts device of Some (a, b) \<Rightarrow> (i + a, j + b) | None \<Rightarrow> (i, j)) else (i, j))
       (0, 0) (devices s)"

definition fitsEndpointBudget :: "usbComposition \<Rightarrow> bool" where
  "fitsEndpointBudget s \<longleftrightarrow> fst (endpointUsage s) \<le> usbInEndpointLimit \<and> snd (endpointUsage s) \<le> usbOutEndpointLimit"

datatype usb_error = ErrMode | ErrHidOnly | ErrBudget | ErrNeedsDisk | ErrStorageIdentity | ErrIdentity
  | ErrUserDiskBusy | ErrUserDiskMissing | ErrAudio | ErrGetty | ErrDir | ErrScript | ErrSnapshot | ErrInstall | ErrRun
  | ErrWrite | ErrVerify | ErrMounts

definition validate :: "usbComposition \<Rightarrow> usb_error option" where
  "validate s =
     (if uc_mode s \<noteq> ModeNormal \<and> uc_mode s \<noteq> ModeHidOnly then Some ErrMode
      else if uc_mode s = ModeHidOnly \<and> (uc_network s \<or> uc_disk s \<or> uc_audio s) then Some ErrHidOnly
      else if \<not> fitsEndpointBudget s then Some ErrBudget
      else if uc_userDisk s \<and> \<not> uc_disk s then Some ErrNeedsDisk
      else if \<not> ValidateIdentity (uc_storageIdentity s) then Some ErrStorageIdentity
      else if \<not> validate_identity (uc_identity s) then Some ErrIdentity else None)"

definition enabled :: "string \<Rightarrow> usbComposition \<Rightarrow> bool" where
  "enabled device s =
     (if device = ''network'' then uc_network s else if device = ''disk'' then uc_disk s
      else if device = ''audio'' then uc_audio s else if device = ''serial'' then uc_serial s else False)"

definition with_device :: "string \<Rightarrow> bool \<Rightarrow> usbComposition \<Rightarrow> usbComposition" where
  "with_device device on s =
     (if device = ''network'' then s\<lparr>uc_network := on\<rparr> else if device = ''disk'' then s\<lparr>uc_disk := on\<rparr>
      else if device = ''audio'' then (if on then s\<lparr>uc_audio := on, uc_mode := ModeNormal\<rparr> else s\<lparr>uc_audio := on\<rparr>)
      else if device = ''serial'' then s\<lparr>uc_serial := on\<rparr> else s)"

definition remoteAccessDefaults :: "bool \<Rightarrow> usbComposition \<Rightarrow> usbComposition" where
  "remoteAccessDefaults withAudio s =
     (let s = s\<lparr>uc_keyboard := True, uc_relative := True, uc_absolute := True\<rparr>
      in if withAudio then s\<lparr>uc_audio := True, uc_mode := ModeNormal\<rparr> else s)"

definition empty_composition :: "usbComposition \<Rightarrow> bool" where
  "empty_composition s \<longleftrightarrow>
     \<not> uc_keyboard s \<and> \<not> uc_relative s \<and> \<not> uc_absolute s \<and> \<not> uc_network s \<and> \<not> uc_disk s \<and> \<not> uc_serial s \<and> \<not> uc_audio s"

section \<open>The gadget\<close>

text \<open>
  The directory of the gadget: which links its configuration has and their targets (\<open>None\<close> when it cannot
  be listed), which directories exist, and the contents of its files.
\<close>

record gadget =
  ga_linked :: "string \<Rightarrow> bool"
  ga_targets :: "string list option"
  ga_exists :: "string \<Rightarrow> bool"
  ga_file :: "string \<Rightarrow> string option"

definition modeMap :: "(string \<times> string) list" where
  "modeMap =
     [(''0x0510'', ModeNormal), (''0x0511'', ModeNormal), (''0x0623'', ModeHidOnly), (''0x0624'', ModeHidOnly),
      (''0x0710'', ModeNormal), (''0x0711'', ModeNormal), (''0x0720'', ModeHidOnly), (''0x0721'', ModeHidOnly)]"

definition getMode :: "gadget \<Rightarrow> string option" where
  "getMode g =
     (case ga_file g ''bcdDevice'' of
        None \<Rightarrow> None
      | Some x \<Rightarrow>
          (case map_of modeMap (trim_space x) of
             None \<Rightarrow> None
           | Some mode \<Rightarrow>
               if mode = ModeHidOnly then
                 (case ga_targets g of
                    None \<Rightarrow> None
                  | Some ts \<Rightarrow>
                      if list_ex (\<lambda>t. prefix ''rndis.'' t \<or> prefix ''ncm.'' t \<or> prefix ''mass_storage.'' t \<or> prefix ''uac1.'' t) ts
                      then Some ModeNormal else Some mode)
               else Some mode))"

definition gadgetIdentityAt :: "gadget \<Rightarrow> usbIdentity option" where
  "gadgetIdentityAt g =
     (case (ga_file g ''idVendor'', ga_file g ''idProduct'', ga_file g ''strings/0x409/manufacturer'', ga_file g ''strings/0x409/product'') of
        (Some v, Some p, Some m, Some n) \<Rightarrow>
          Some (normalized \<lparr>VendorID = trim_space v, ProductID = trim_space p, Manufacturer = trim_space m,
            Product = trim_space n, SerialNumber = []\<rparr>)
      | _ \<Rightarrow> None)"

definition gadgetSerialNumberAt :: "gadget \<Rightarrow> string" where
  "gadgetSerialNumberAt g = (case ga_file g ''strings/0x409/serialnumber'' of None \<Rightarrow> [] | Some x \<Rightarrow> trim_space x)"

definition lun :: "string \<Rightarrow> string" where
  "lun n = ''functions/mass_storage.disk0/lun.'' @ n"

definition DevicePath :: string where "DevicePath = ''/dev/nbd0''"

text \<open>The kind of the first LUN, \<open>None\<close> when it cannot be read.\<close>

definition first_kind :: "gadget \<Rightarrow> string option" where
  "first_kind g =
     (case ga_file g (lun ''0/cdrom'') of
        None \<Rightarrow> None
      | Some c \<Rightarrow>
          if trim_space c \<noteq> ''1'' then Some ''disk''
          else (case ga_file g (lun ''0/file'') of
                  None \<Rightarrow> None
                | Some b \<Rightarrow> if trim_space b = DevicePath then Some ''remote'' else Some ''cdrom''))"

definition inquiry_matches :: "gadget \<Rightarrow> Identity \<Rightarrow> string \<Rightarrow> string \<Rightarrow> bool" where
  "inquiry_matches g i n kind =
     (case ga_file g (lun n @ ''/inquiry_string'') of None \<Rightarrow> False | Some x \<Rightarrow> trim_suffix x [newline] = Inquiry i kind)"

definition verifyStorageIdentityAt :: "gadget \<Rightarrow> Identity \<Rightarrow> bool" where
  "verifyStorageIdentityAt g i \<longleftrightarrow>
     (case first_kind g of None \<Rightarrow> False | Some kind \<Rightarrow> inquiry_matches g i ''0'' kind) \<and>
     (ga_exists g (lun ''1'') \<longrightarrow> inquiry_matches g i ''1'' ''setup'') \<and>
     (ga_exists g (lun ''2'') \<longrightarrow> inquiry_matches g i ''2'' ''user'')"

definition verifyUSBCompositionAt :: "gadget \<Rightarrow> usbComposition \<Rightarrow> bool" where
  "verifyUSBCompositionAt g s =
     (case ga_file g ''UDC'' of
        None \<Rightarrow> False
      | Some udc \<Rightarrow>
          (let bound = (trim_space udc \<noteq> []) in
           if bound = empty_composition s then False
           else if ga_linked g ''hid.GS0'' \<noteq> uc_keyboard s \<or> ga_linked g ''hid.GS1'' \<noteq> uc_relative s \<or>
             ga_linked g ''hid.GS2'' \<noteq> uc_absolute s \<or> ga_linked g ''mass_storage.disk0'' \<noteq> uc_disk s \<or>
             ga_linked g ''acm.GS0'' \<noteq> uc_serial s \<or> ga_linked g ''uac1.audio0'' \<noteq> uc_audio s \<or>
             (ga_linked g ''rndis.usb0'' \<or> ga_linked g ''ncm.usb0'') \<noteq> uc_network s then False
           else if uc_disk s \<and> \<not> (verifyStorageIdentityAt g (uc_storageIdentity s) \<and> ga_exists g (lun ''2'') = uc_userDisk s) then False
           else if bound then
             (case gadgetIdentityAt g of
                None \<Rightarrow> False
              | Some presented \<Rightarrow>
                  let want = normalized (uc_identity s) in
                  presented = want\<lparr>SerialNumber := []\<rparr> \<and>
                  (SerialNumber want \<noteq> [] \<longrightarrow> gadgetSerialNumberAt g = SerialNumber want))
           else True))"

section \<open>Files\<close>

datatype usb_path = Flag string | Script | Marker

text \<open>\<open>None\<close> is a file that does not exist; the snapshot of a file is the file.\<close>

type_synonym usbFileSnapshot = "(nat \<times> string) option"

datatype io_fault = Fine | Early | Late

record usb_answer =
  ua_fault :: io_fault
  ua_gadget :: gadget
  ua_script :: "nat \<times> string"
  ua_disk :: bool

type_synonym usb_env = "nat \<Rightarrow> usb_answer"

record usb_sys =
  us_files :: "usb_path \<Rightarrow> usbFileSnapshot"
  us_gadget :: gadget
  us_n :: nat

definition put_file :: "usb_path \<Rightarrow> usbFileSnapshot \<Rightarrow> usb_sys \<Rightarrow> usb_sys" where
  "put_file p f s = s\<lparr>us_files := (us_files s)(p := f)\<rparr>"

definition tick :: "usb_sys \<Rightarrow> usb_sys" where
  "tick s = s\<lparr>us_n := Suc (us_n s)\<rparr>"

definition snapshotUSBFile :: "usb_env \<Rightarrow> usb_path \<Rightarrow> usb_sys \<Rightarrow> (usb_error + usbFileSnapshot) \<times> usb_sys" where
  "snapshotUSBFile env p s =
     ((if ua_fault (env (us_n s)) = Fine then Inr (us_files s p) else Inl ErrSnapshot), tick s)"

text \<open>A fault comes before the file is replaced or removed, or after it, when the directory is synced.\<close>

definition writeUSBFile :: "usb_env \<Rightarrow> usb_path \<Rightarrow> usbFileSnapshot \<Rightarrow> usb_sys \<Rightarrow> usb_error option \<times> usb_sys" where
  "writeUSBFile env p f s =
     (if f = None \<and> us_files s p = None then (None, s)
      else case ua_fault (env (us_n s)) of
        Fine \<Rightarrow> (None, put_file p f (tick s))
      | Early \<Rightarrow> (Some ErrWrite, tick s)
      | Late \<Rightarrow> (Some ErrWrite, put_file p f (tick s)))"

definition InstallModeScript :: "usb_env \<Rightarrow> string \<Rightarrow> usb_sys \<Rightarrow> usb_error option \<times> usb_sys" where
  "InstallModeScript env mode s =
     (if mode \<noteq> ModeHidOnly \<and> mode \<noteq> ModeNormal then (Some ErrInstall, s)
      else if ua_fault (env (us_n s)) \<noteq> Fine then (Some ErrInstall, tick s)
      else (None, put_file Script (Some (ua_script (env (us_n s)))) (tick s)))"

text \<open>A run of the init script leaves the gadget as the environment says.\<close>

definition run_script :: "usb_env \<Rightarrow> usb_sys \<Rightarrow> usb_error option \<times> usb_sys" where
  "run_script env s =
     ((if ua_fault (env (us_n s)) = Fine then None else Some ErrRun), (tick s)\<lparr>us_gadget := ua_gadget (env (us_n s))\<rparr>)"

text \<open>A step of another component that may fail: the sound, the console, the lock of the user disk.\<close>

definition other_step :: "usb_env \<Rightarrow> usb_error \<Rightarrow> usb_sys \<Rightarrow> usb_error option \<times> usb_sys" where
  "other_step env err s = ((if ua_fault (env (us_n s)) = Fine then None else Some err), tick s)"

text \<open>\<open>LockUserDiskForComposition\<close>: the image is in use, or the mounts cannot be read.\<close>

definition lock_user_disk :: "usb_env \<Rightarrow> usb_sys \<Rightarrow> usb_error option \<times> usb_sys" where
  "lock_user_disk env s =
     ((case ua_fault (env (us_n s)) of Fine \<Rightarrow> None | Early \<Rightarrow> Some ErrUserDiskBusy | Late \<Rightarrow> Some ErrMounts), tick s)"

definition usbCompositionFlags :: "string list" where
  "usbCompositionFlags =
     [''usb.rndis0'', ''usb.ncm'', ''usb.disk0'', ''usb.acm'', ''usb.audio'', ''disable_hid'', ''usb.disable_keyboard'',
      ''usb.disable_relative'', ''usb.disable_absolute'', ''usb.vid'', ''usb.pid'', ''usb.manufacturer'', ''usb.product'',
      ''usb.serialnumber'', ''usb.userdisk''] @ Files"

definition UserDiskImagePath :: string where
  "UserDiskImagePath = ''/data/.nanokvm/user-disk.img''"

definition contentFiles :: "usbComposition \<Rightarrow> (string \<times> string option) list" where
  "contentFiles s =
     identity_files (uc_identity s) @ FileValues (uc_storageIdentity s) @
     [(''usb.userdisk'', if uc_userDisk s then Some UserDiskImagePath else None)]"

definition flag_values :: "usbComposition \<Rightarrow> (string \<times> bool) list" where
  "flag_values s =
     [(''usb.rndis0'', False), (''usb.ncm'', uc_network s), (''usb.disk0'', uc_disk s), (''usb.acm'', uc_serial s),
      (''usb.audio'', uc_audio s), (''disable_hid'', \<not> uc_keyboard s \<and> \<not> uc_relative s \<and> \<not> uc_absolute s),
      (''usb.disable_keyboard'', \<not> uc_keyboard s), (''usb.disable_relative'', \<not> uc_relative s),
      (''usb.disable_absolute'', \<not> uc_absolute s)]"

section \<open>Apply\<close>

definition usb_paths :: "usb_path list" where
  "usb_paths = map Flag usbCompositionFlags @ [Script]"

fun snapshot_all ::
    "usb_env \<Rightarrow> usb_path list \<Rightarrow> (usb_path \<Rightarrow> usbFileSnapshot) \<Rightarrow> usb_sys \<Rightarrow> (usb_error + (usb_path \<Rightarrow> usbFileSnapshot)) \<times> usb_sys" where
  "snapshot_all env [] before s = (Inr before, s)"
| "snapshot_all env (p # ps) before s =
     (case snapshotUSBFile env p s of
        (Inl err, s) \<Rightarrow> (Inl err, s)
      | (Inr f, s) \<Rightarrow> snapshot_all env ps (before(p := f)) s)"

fun write_all :: "usb_env \<Rightarrow> (usb_path \<Rightarrow> usbFileSnapshot) \<Rightarrow> usb_path list \<Rightarrow> usb_sys \<Rightarrow> bool \<times> usb_sys" where
  "write_all env before [] s = (True, s)"
| "write_all env before (p # ps) s =
     (case writeUSBFile env p (before p) s of
        (err, s) \<Rightarrow> (case write_all env before ps s of (ok, s) \<Rightarrow> (err = None \<and> ok, s)))"

text \<open>Whether everything could be put back.\<close>

definition rollback :: "usb_env \<Rightarrow> usbComposition \<Rightarrow> (usb_path \<Rightarrow> usbFileSnapshot) \<Rightarrow> bool \<Rightarrow> usb_sys \<Rightarrow> bool \<times> usb_sys" where
  "rollback env current before stopped s =
     (case (if stopped then run_script env s else (None, s)) of
        (err1, s) \<Rightarrow>
          (case write_all env before usb_paths s of
             (ok, s) \<Rightarrow>
               if stopped then
                 (case run_script env s of
                    (Some _, s) \<Rightarrow> (False, s)
                  | (None, s) \<Rightarrow> (err1 = None \<and> ok \<and> verifyUSBCompositionAt (us_gadget s) current, s))
               else (err1 = None \<and> ok, s)))"

text \<open>What is to be written for one name: nothing, or a file.\<close>

definition flag_change ::
    "usbComposition \<Rightarrow> (usb_path \<Rightarrow> usbFileSnapshot) \<Rightarrow> string \<Rightarrow> usbFileSnapshot option" where
  "flag_change candidate before name =
     (case map_of (contentFiles candidate) name of
        Some value \<Rightarrow>
          (let want = map_option (\<lambda>v. (420, v @ [newline])) value in
           if map_option snd want = map_option snd (before (Flag name)) then None else Some want)
      | None \<Rightarrow>
          (let on = (map_of (flag_values candidate) name = Some True) in
           if on = (before (Flag name) \<noteq> None) then None
           else Some (if on then Some (420, []) else None)))"

fun write_flags ::
    "usb_env \<Rightarrow> usbComposition \<Rightarrow> (usb_path \<Rightarrow> usbFileSnapshot) \<Rightarrow> string list \<Rightarrow> usb_sys \<Rightarrow> usb_error option \<times> usb_sys" where
  "write_flags env candidate before [] s = (None, s)"
| "write_flags env candidate before (name # names) s =
     (case flag_change candidate before name of
        None \<Rightarrow> write_flags env candidate before names s
      | Some f \<Rightarrow>
          (case writeUSBFile env (Flag name) f s of
             (Some err, s) \<Rightarrow> (Some err, s)
           | (None, s) \<Rightarrow> write_flags env candidate before names s))"

text \<open>The last part is whether the configuration from before is in place again.\<close>

datatype usb_outcome = Applied | Failed usb_error bool

definition fails :: "usb_env \<Rightarrow> usbComposition \<Rightarrow> (usb_path \<Rightarrow> usbFileSnapshot) \<Rightarrow> bool \<Rightarrow> usb_error \<Rightarrow> usb_sys \<Rightarrow> usb_outcome \<times> usb_sys" where
  "fails env current before stopped err s =
     (case rollback env current before stopped s of (ok, s) \<Rightarrow> (Failed err ok, s))"

definition apply_stopped ::
    "usb_env \<Rightarrow> usbComposition \<Rightarrow> usbComposition \<Rightarrow> (usb_path \<Rightarrow> usbFileSnapshot) \<Rightarrow> usb_sys \<Rightarrow> usb_outcome \<times> usb_sys" where
  "apply_stopped env current candidate before s =
     (case write_flags env candidate before usbCompositionFlags s of
        (Some err, s) \<Rightarrow> fails env current before True err s
      | (None, s) \<Rightarrow>
          (case run_script env s of
             (Some err, s) \<Rightarrow> fails env current before True err s
           | (None, s) \<Rightarrow>
               if verifyUSBCompositionAt (us_gadget s) candidate then (Applied, s)
               else fails env current before True ErrVerify s))"

definition apply_snapshot ::
    "usb_env \<Rightarrow> usbComposition \<Rightarrow> usbComposition \<Rightarrow> (usb_path \<Rightarrow> usbFileSnapshot) \<Rightarrow> usb_sys \<Rightarrow> usb_outcome \<times> usb_sys" where
  "apply_snapshot env current candidate before s =
     (case InstallModeScript env (uc_mode candidate) s of
        (Some err, s) \<Rightarrow> fails env current before False err s
      | (None, s) \<Rightarrow>
          (case run_script env s of
             (Some err, s) \<Rightarrow> fails env current before True err s
           | (None, s) \<Rightarrow> apply_stopped env current candidate before s))"

definition apply_composition :: "usb_env \<Rightarrow> usbComposition \<Rightarrow> usbComposition \<Rightarrow> usb_sys \<Rightarrow> usb_outcome \<times> usb_sys" where
  "apply_composition env current candidate s =
     (case validate candidate of
        Some err \<Rightarrow> (Failed err True, s)
      | None \<Rightarrow>
          if current = candidate then (Applied, s)
          else case other_step env ErrDir s of
            (Some err, s) \<Rightarrow> (Failed err True, s)
          | (None, s) \<Rightarrow>
              (case other_step env ErrScript s of
                 (Some err, s) \<Rightarrow> (Failed err True, s)
               | (None, s) \<Rightarrow>
                   (case snapshot_all env usb_paths (\<lambda>_. None) s of
                      (Inl err, s) \<Rightarrow> (Failed err True, s)
                    | (Inr before, s) \<Rightarrow> apply_snapshot env current candidate before s)))"

definition applyLiveUSBComposition :: "usb_env \<Rightarrow> usbComposition \<Rightarrow> usbComposition \<Rightarrow> usb_sys \<Rightarrow> usb_outcome \<times> usb_sys" where
  "applyLiveUSBComposition env current candidate s =
     (if current = candidate then (Applied, s)
      else let attach = (uc_userDisk current \<or> uc_userDisk candidate) in
        case (if attach then lock_user_disk env s else (None, s)) of
          (Some err, s) \<Rightarrow> (Failed err True, s)
        | (None, s) \<Rightarrow>
            if attach \<and> uc_userDisk candidate \<and> \<not> ua_disk (env (us_n s)) then (Failed ErrUserDiskMissing True, s)
            else case other_step env ErrAudio s of
              (Some err, s) \<Rightarrow> (Failed err True, s)
            | (None, s) \<Rightarrow>
                (case (if uc_serial candidate \<and> \<not> uc_serial current then other_step env ErrGetty s else (None, s)) of
                   (Some err, s) \<Rightarrow> (Failed err True, s)
                 | (None, s) \<Rightarrow> apply_composition env current candidate s))"

section \<open>Reading the composition\<close>

definition flags_of_files :: "(usb_path \<Rightarrow> usbFileSnapshot) \<Rightarrow> flags_dir" where
  "flags_of_files fs name = map_option snd (fs (Flag name))"

definition flagged :: "(usb_path \<Rightarrow> usbFileSnapshot) \<Rightarrow> string \<Rightarrow> bool" where
  "flagged fs name \<longleftrightarrow> fs (Flag name) \<noteq> None"

definition userDiskFlagged :: "flags_dir \<Rightarrow> bool" where
  "userDiskFlagged d = (case d ''usb.userdisk'' of None \<Rightarrow> False | Some x \<Rightarrow> trim_space x = UserDiskImagePath)"

definition getUSBComposition :: "usb_sys \<Rightarrow> usbComposition" where
  "getUSBComposition s =
     (let mode = (case getMode (us_gadget s) of None \<Rightarrow> ModeNormal | Some m \<Rightarrow> m); fs = us_files s;
          hidEnabled = (\<not> flagged fs ''disable_hid'');
          networkEnabled = (flagged fs ''usb.rndis0'' \<or> flagged fs ''usb.ncm'') \<and> mode \<noteq> ModeHidOnly;
          diskEnabled = flagged fs ''usb.disk0'' \<and> mode \<noteq> ModeHidOnly
      in \<lparr>uc_mode = mode, uc_keyboard = hidEnabled \<and> \<not> flagged fs ''usb.disable_keyboard'',
          uc_relative = hidEnabled \<and> \<not> flagged fs ''usb.disable_relative'',
          uc_absolute = hidEnabled \<and> \<not> flagged fs ''usb.disable_absolute'', uc_network = networkEnabled,
          uc_disk = diskEnabled, uc_serial = flagged fs ''usb.acm'',
          uc_audio = mode \<noteq> ModeHidOnly \<and> flagged fs ''usb.audio'',
          uc_identity = readUSBIdentity (flags_of_files fs), uc_storageIdentity = ReadIdentity (flags_of_files fs),
          uc_userDisk = diskEnabled \<and> userDiskFlagged (flags_of_files fs)\<rparr>)"

section \<open>Requests\<close>

record usb_request =
  ur_composition :: usbComposition
  ur_identity :: "usbIdentity option"
  ur_storageIdentity :: "Identity option"
  ur_userDisk :: "bool option"
  ur_revision :: string

datatype usb_reply = ReplyOk | ReplyErr int

definition zeroIdentity :: Identity where
  "zeroIdentity = \<lparr>Vendor = [], ImageName = [], Setup = [], UserName = []\<rparr>"

text \<open>The composition a request asks for, with what it leaves out taken from the current one.\<close>

definition request_candidate :: "usb_request \<Rightarrow> usbIdentity \<Rightarrow> usbComposition" where
  "request_candidate rq i =
     (ur_composition rq)\<lparr>uc_identity := i, uc_userDisk := False,
       uc_storageIdentity := (case ur_storageIdentity rq of Some x \<Rightarrow> Normalized x | None \<Rightarrow> zeroIdentity)\<rparr>"

definition completed :: "usb_request \<Rightarrow> usbComposition \<Rightarrow> usbComposition \<Rightarrow> usbComposition" where
  "completed rq current c =
     (let c = (if ur_identity rq = None then c\<lparr>uc_identity := uc_identity current\<rparr> else c);
          c = (if ur_storageIdentity rq = None then c\<lparr>uc_storageIdentity := uc_storageIdentity current\<rparr> else c);
          disk = (case ur_userDisk rq of Some b \<Rightarrow> b | None \<Rightarrow> uc_userDisk current)
      in c\<lparr>uc_userDisk := disk \<and> uc_disk c\<rparr>)"

definition SetUSBComposition ::
    "usb_env \<Rightarrow> (usbComposition \<Rightarrow> string) \<Rightarrow> usb_request \<Rightarrow> usb_sys \<Rightarrow> usb_reply \<times> usb_sys" where
  "SetUSBComposition env revision rq s =
     (case identityFromRequest (ur_identity rq) of
        None \<Rightarrow> (ReplyErr (- 4), s)
      | Some i \<Rightarrow>
          if validate (request_candidate rq i) \<noteq> None then (ReplyErr (- 4), s)
          else let current = getUSBComposition s; c = completed rq current (request_candidate rq i) in
            if uc_userDisk c \<and> \<not> ua_disk (env (us_n s)) then (ReplyErr (- 4), s)
            else if revision current \<noteq> ur_revision rq then (ReplyErr (- 5), s)
            else case applyLiveUSBComposition env current c s of
              (Applied, s) \<Rightarrow> (ReplyOk, s)
            | (Failed err _, s) \<Rightarrow>
                (ReplyErr (if err = ErrUserDiskBusy then - 6 else if err = ErrUserDiskMissing then - 4 else - 3), s))"

definition UpdateVirtualDevice :: "usb_env \<Rightarrow> string \<Rightarrow> usb_sys \<Rightarrow> usb_reply \<times> usb_sys" where
  "UpdateVirtualDevice env device s =
     (if device \<notin> {''network'', ''disk'', ''serial'', ''audio''} then (ReplyErr (- 2), s)
      else let current = getUSBComposition s; c = with_device device (\<not> enabled device current) current in
        if validate c \<noteq> None then (ReplyErr (- 4), s)
        else case applyLiveUSBComposition env current c s of
          (Applied, s) \<Rightarrow> (ReplyOk, s)
        | (Failed _ _, s) \<Rightarrow> (ReplyErr (- 3), s))"


section \<open>The RustDesk preset\<close>

record usbFlags =
  f_mode :: string
  f_keyboard :: bool
  f_relative :: bool
  f_absolute :: bool
  f_network :: bool
  f_disk :: bool
  f_serial :: bool
  f_audio :: bool
  f_userDisk :: bool

definition flagsOf :: "usbComposition \<Rightarrow> usbFlags" where
  "flagsOf s = \<lparr>f_mode = uc_mode s, f_keyboard = uc_keyboard s, f_relative = uc_relative s, f_absolute = uc_absolute s,
     f_network = uc_network s, f_disk = uc_disk s, f_serial = uc_serial s, f_audio = uc_audio s, f_userDisk = uc_userDisk s\<rparr>"

definition with_identity :: "usbFlags \<Rightarrow> usbIdentity \<Rightarrow> usbComposition" where
  "with_identity f i = \<lparr>uc_mode = f_mode f, uc_keyboard = f_keyboard f, uc_relative = f_relative f, uc_absolute = f_absolute f,
     uc_network = f_network f, uc_disk = f_disk f, uc_serial = f_serial f, uc_audio = f_audio f, uc_identity = i,
     uc_storageIdentity = zeroIdentity, uc_userDisk = f_userDisk f\<rparr>"

record remoteAccessMarker =
  Before :: usbFlags
  AppliedFlags :: usbFlags

text \<open>The JSON form of a marker.\<close>

record marker_json =
  mj_marshal :: "remoteAccessMarker \<Rightarrow> string"
  mj_unmarshal :: "string \<Rightarrow> remoteAccessMarker option"

definition readRemoteAccessMarker :: "usb_env \<Rightarrow> marker_json \<Rightarrow> usb_sys \<Rightarrow> remoteAccessMarker option \<times> usb_sys" where
  "readRemoteAccessMarker env J s =
     ((if ua_fault (env (us_n s)) \<noteq> Fine then None
       else case us_files s Marker of None \<Rightarrow> None | Some (_, data) \<Rightarrow> mj_unmarshal J data), tick s)"

definition writeRemoteAccessMarker :: "usb_env \<Rightarrow> marker_json \<Rightarrow> remoteAccessMarker \<Rightarrow> usb_sys \<Rightarrow> usb_error option \<times> usb_sys" where
  "writeRemoteAccessMarker env J m s = writeUSBFile env Marker (Some (420, mj_marshal J m @ [newline])) s"

definition remoteAccessProfile :: "bool \<Rightarrow> usbComposition \<Rightarrow> usbComposition" where
  "remoteAccessProfile withAudio s =
     \<lparr>uc_mode = ModeNormal, uc_keyboard = True, uc_relative = True, uc_absolute = True, uc_network = False, uc_disk = True,
      uc_serial = False, uc_audio = withAudio, uc_identity = uc_identity s, uc_storageIdentity = uc_storageIdentity s,
      uc_userDisk = uc_disk s \<and> uc_userDisk s\<rparr>"

type_synonym usb_apply = "usbComposition \<Rightarrow> usb_sys \<Rightarrow> usb_outcome \<times> usb_sys"

definition applyWithRemoteAccessMarker ::
    "usb_env \<Rightarrow> marker_json \<Rightarrow> usb_apply \<Rightarrow> remoteAccessMarker \<Rightarrow> usbComposition \<Rightarrow> usb_sys \<Rightarrow> usb_outcome \<times> usb_sys" where
  "applyWithRemoteAccessMarker env J app m candidate s =
     (case snapshotUSBFile env Marker s of
        (Inl err, s) \<Rightarrow> (Failed err True, s)
      | (Inr previous, s) \<Rightarrow>
          (case writeRemoteAccessMarker env J m s of
             (Some err, s) \<Rightarrow> (Failed err True, s)
           | (None, s) \<Rightarrow>
               (case app candidate s of
                  (Applied, s) \<Rightarrow> (Applied, s)
                | (Failed err ok, s) \<Rightarrow>
                    (case writeUSBFile env Marker previous s of
                       (Some _, s) \<Rightarrow> (Failed err False, s)
                     | (None, s) \<Rightarrow> (Failed err ok, s)))))"

definition enableRemoteAccessUSB ::
    "usb_env \<Rightarrow> marker_json \<Rightarrow> usb_apply \<Rightarrow> usbComposition \<Rightarrow> bool \<Rightarrow> usb_sys \<Rightarrow> usb_outcome \<times> usb_sys" where
  "enableRemoteAccessUSB env J app current withAudio s =
     (let candidate = remoteAccessProfile withAudio current in
      case validate candidate of
        Some err \<Rightarrow> (Failed err True, s)
      | None \<Rightarrow>
          (case readRemoteAccessMarker env J s of
             (m, s) \<Rightarrow>
               let before = (case m of Some m \<Rightarrow> if flagsOf current \<noteq> AppliedFlags m then flagsOf current else Before m | None \<Rightarrow> flagsOf current)
               in applyWithRemoteAccessMarker env J app \<lparr>Before = before, AppliedFlags = flagsOf candidate\<rparr> candidate s))"

definition followRemoteAccessMarker ::
    "usb_env \<Rightarrow> marker_json \<Rightarrow> usb_apply \<Rightarrow> usbComposition \<Rightarrow> usbComposition \<Rightarrow> usb_sys \<Rightarrow> usb_outcome \<times> usb_sys" where
  "followRemoteAccessMarker env J app current candidate s =
     (case readRemoteAccessMarker env J s of
        (None, s) \<Rightarrow> app candidate s
      | (Some m, s) \<Rightarrow>
          if flagsOf current \<noteq> AppliedFlags m then app candidate s
          else applyWithRemoteAccessMarker env J app (m\<lparr>AppliedFlags := flagsOf candidate\<rparr>) candidate s)"

definition remove_marker :: "usb_env \<Rightarrow> usb_sys \<Rightarrow> usb_outcome \<times> usb_sys" where
  "remove_marker env s =
     (if ua_fault (env (us_n s)) \<noteq> Fine then (Failed ErrWrite True, tick s) else (Applied, put_file Marker None (tick s)))"

definition restoreRemoteAccessUSB :: "usb_env \<Rightarrow> marker_json \<Rightarrow> usb_apply \<Rightarrow> usbComposition \<Rightarrow> usb_sys \<Rightarrow> usb_outcome \<times> usb_sys" where
  "restoreRemoteAccessUSB env J app current s =
     (case readRemoteAccessMarker env J s of
        (None, s) \<Rightarrow> if us_files s Marker = None then (Applied, s) else remove_marker env s
      | (Some m, s) \<Rightarrow>
          if flagsOf current = AppliedFlags m then
            let b = (with_identity (Before m) (uc_identity current))\<lparr>uc_storageIdentity := uc_storageIdentity current\<rparr> in
            case validate b of
              Some err \<Rightarrow> (Failed err True, s)
            | None \<Rightarrow> (case app b s of (Applied, s) \<Rightarrow> remove_marker env s | (Failed err ok, s) \<Rightarrow> (Failed err ok, s))
          else remove_marker env s)"

definition EnsureRemoteAccessUSB :: "usb_env \<Rightarrow> marker_json \<Rightarrow> bool \<Rightarrow> usb_sys \<Rightarrow> usb_outcome \<times> usb_sys" where
  "EnsureRemoteAccessUSB env J withAudio s =
     (let current = getUSBComposition s; candidate = remoteAccessDefaults withAudio current in
      case validate candidate of
        Some err \<Rightarrow> (Failed err True, s)
      | None \<Rightarrow>
          if current = candidate then
            (if verifyUSBCompositionAt (us_gadget s) candidate then (Applied, s) else (Failed ErrVerify True, s))
          else followRemoteAccessMarker env J (applyLiveUSBComposition env current) current candidate s)"

definition EnableRemoteAccessUSB :: "usb_env \<Rightarrow> marker_json \<Rightarrow> bool \<Rightarrow> usb_sys \<Rightarrow> usb_outcome \<times> usb_sys" where
  "EnableRemoteAccessUSB env J withAudio s =
     (let current = getUSBComposition s in
      enableRemoteAccessUSB env J
        (\<lambda>c s. if current = c
           then (if verifyUSBCompositionAt (us_gadget s) c then (Applied, s) else (Failed ErrVerify True, s))
           else applyLiveUSBComposition env current c s)
        current withAudio s)"

definition RestoreUSBAfterRemoteAccess :: "usb_env \<Rightarrow> marker_json \<Rightarrow> usb_sys \<Rightarrow> usb_outcome \<times> usb_sys" where
  "RestoreUSBAfterRemoteAccess env J s =
     (let current = getUSBComposition s in
      restoreRemoteAccessUSB env J
        (\<lambda>b s. applyLiveUSBComposition env current
           (if uc_userDisk b \<and> \<not> ua_disk (env (us_n s)) then b\<lparr>uc_userDisk := False\<rparr> else b) s)
        current s)"

end
