(* ===== verification/Usb_Safety.thy ===== *)
theory Usb_Safety
  imports Usb_Composition
begin

text \<open>
  What a change of the USB functions guarantees: a change that succeeds is the composition the server reads
  back and the gadget shows; one that fails and reports no failed restoration has left every file as it was;
  and turning RustDesk on and off again gives the composition from before.
\<close>

section \<open>Settled files and concrete values\<close>

definition flag_settled :: "usbComposition \<Rightarrow> string \<Rightarrow> usbFileSnapshot \<Rightarrow> bool" where
  "flag_settled c name f \<longleftrightarrow>
     (case map_of (contentFiles c) name of
        Some v \<Rightarrow> map_option snd f = as_file v
      | None \<Rightarrow> (f \<noteq> None) = (map_of (flag_values c) name = Some True))"

text \<open>What is used of the JSON library: a marker is read back as it was written.\<close>

definition marker_json_ok :: "marker_json \<Rightarrow> remoteAccessMarker \<Rightarrow> bool" where
  "marker_json_ok J m \<longleftrightarrow> mj_unmarshal J (mj_marshal J m @ [newline]) = Some m"

definition faultless :: "usb_env \<Rightarrow> usbComposition \<Rightarrow> bool" where
  "faultless env c \<longleftrightarrow> (\<forall>n. ua_fault (env n) = Fine \<and> ua_disk (env n) \<and> verifyUSBCompositionAt (ua_gadget (env n)) c)"

definition plain_composition :: usbComposition where
  "plain_composition = \<lparr>uc_mode = ModeNormal, uc_keyboard = True, uc_relative = True, uc_absolute = True, uc_network = False,
     uc_disk = False, uc_serial = False, uc_audio = False, uc_identity = defaultUSBIdentity, uc_storageIdentity = Defaults, uc_userDisk = False\<rparr>"

text \<open>A gadget that shows a composition of normal mode with the factory names.\<close>

definition shown :: "usbComposition \<Rightarrow> gadget" where
  "shown c = \<lparr>ga_linked = (\<lambda>l. l = ''hid.GS0'' \<and> uc_keyboard c \<or> l = ''hid.GS1'' \<and> uc_relative c \<or> l = ''hid.GS2'' \<and> uc_absolute c \<or>
       l = ''mass_storage.disk0'' \<and> uc_disk c \<or> l = ''acm.GS0'' \<and> uc_serial c),
     ga_targets = None, ga_exists = (\<lambda>_. False),
     ga_file = map_of [(''bcdDevice'', ''0x0510''), (''UDC'', ''usb0''), (''idVendor'', ''0x3346''), (''idProduct'', ''0x1009''),
       (''strings/0x409/manufacturer'', ''sipeed''), (''strings/0x409/product'', ''NanoKVM''),
       (lun ''0/cdrom'', ''0''), (lun ''0/inquiry_string'', Inquiry Defaults ''disk'')]\<rparr>"

definition quiet :: "gadget \<Rightarrow> usb_env" where
  "quiet g = (\<lambda>_. \<lparr>ua_fault = Fine, ua_gadget = g, ua_script = (493, ''S03usbdev''), ua_disk = True\<rparr>)"

definition usb0 :: usb_sys where
  "usb0 = \<lparr>us_files = (\<lambda>_. None), us_gadget = shown plain_composition, us_n = 0\<rparr>"

definition with_serial :: usbComposition where
  "with_serial = plain_composition\<lparr>uc_serial := True\<rparr>"

definition serial_request :: usb_request where
  "serial_request = \<lparr>ur_composition = with_serial, ur_identity = None, ur_storageIdentity = None, ur_userDisk = None, ur_revision = ''r''\<rparr>"

text \<open>A JSON library that knows the one marker of this example.\<close>

definition one_marker :: marker_json where
  "one_marker = \<lparr>mj_marshal = (\<lambda>_. ''m''),
     mj_unmarshal = (\<lambda>x. if x = ''m'' @ [newline]
        then Some \<lparr>Before = flagsOf plain_composition, AppliedFlags = flagsOf (remoteAccessProfile False plain_composition)\<rparr> else None)\<rparr>"


section \<open>File operations\<close>

lemma tick_simps [simp]: "us_files (tick s) = us_files s" "us_gadget (tick s) = us_gadget s"
  by (simp_all add: tick_def)

lemma put_file_simps [simp]:
  "us_files (put_file p f s) = (us_files s)(p := f)" "us_gadget (put_file p f s) = us_gadget s"
  by (simp_all add: put_file_def)

lemma usb_write_ok:
  assumes "writeUSBFile env p f s = (None, t)"
  shows "us_files t = (us_files s)(p := f)" and "us_gadget t = us_gadget s"
  using assms by (auto simp: writeUSBFile_def split: if_splits io_fault.splits)

lemma write_off:
  assumes "writeUSBFile env p f s = (r, t)"
  shows "q \<noteq> p \<Longrightarrow> us_files t q = us_files s q" and "us_gadget t = us_gadget s"
  using assms by (auto simp: writeUSBFile_def split: if_splits io_fault.splits)

lemma run_files: "run_script env s = (r, t) \<Longrightarrow> us_files t = us_files s"
  by (auto simp: run_script_def)

lemma other_files: "other_step env e s = (r, t) \<Longrightarrow> us_files t = us_files s \<and> us_gadget t = us_gadget s"
  by (auto simp: other_step_def)

lemma lock_files: "lock_user_disk env s = (r, t) \<Longrightarrow> us_files t = us_files s \<and> us_gadget t = us_gadget s"
  by (auto simp: lock_user_disk_def)

lemma install_off:
  assumes "InstallModeScript env m s = (r, t)"
  shows "q \<noteq> Script \<Longrightarrow> us_files t q = us_files s q" and "us_gadget t = us_gadget s"
  using assms by (auto simp: InstallModeScript_def split: if_splits)

lemma snapshot_all_ok:
  assumes "snapshot_all env ps b s = (r, t)"
  shows "us_files t = us_files s" and "us_gadget t = us_gadget s"
    and "r = Inr before \<Longrightarrow> p \<in> set ps \<Longrightarrow> before p = us_files s p"
    and "r = Inr before \<Longrightarrow> p \<notin> set ps \<Longrightarrow> before p = b p"
proof -
  have "us_files t = us_files s \<and> us_gadget t = us_gadget s \<and>
     (\<forall>before p. r = Inr before \<longrightarrow> (p \<in> set ps \<longrightarrow> before p = us_files s p) \<and> (p \<notin> set ps \<longrightarrow> before p = b p))"
    using assms
  proof (induction ps arbitrary: b s)
    case (Cons q ps)
    show ?case
    proof (cases "ua_fault (env (us_n s)) = Fine")
      case True
      then have "snapshot_all env ps (b(q := us_files s q)) (tick s) = (r, t)" using Cons.prems by (simp add: snapshotUSBFile_def)
      from Cons.IH [OF this] show ?thesis by (simp only: tick_simps fun_upd_apply set_simps insert_iff) metis
    next
      case False
      then show ?thesis using Cons.prems by (auto simp: snapshotUSBFile_def)
    qed
  qed auto
  then show "us_files t = us_files s" "us_gadget t = us_gadget s"
    "r = Inr before \<Longrightarrow> p \<in> set ps \<Longrightarrow> before p = us_files s p" "r = Inr before \<Longrightarrow> p \<notin> set ps \<Longrightarrow> before p = b p"
    by blast+
qed





lemma write_flags_off: "write_flags env c b ns s = (r, t) \<Longrightarrow> p \<notin> Flag ` set ns \<Longrightarrow> us_files t p = us_files s p"
  by (induction ns arbitrary: s) (auto split: prod.splits option.splits dest!: write_off(1) [where q = p])

section \<open>A change that fails\<close>

lemma flags_in_paths: "Flag ` set usbCompositionFlags \<subseteq> set usb_paths" "Script \<in> set usb_paths" "Marker \<notin> set usb_paths"
  by (auto simp: usb_paths_def)


lemma fails_not_applied: "fst (fails env current b stopped err s) \<noteq> Applied"
  by (auto simp: fails_def split: prod.splits)





section \<open>A change that succeeds\<close>

lemma change_settles:
  "flag_settled c name (case flag_change c b name of None \<Rightarrow> b (Flag name) | Some f \<Rightarrow> f)"
proof (cases "map_of (contentFiles c) name")
  case None
  then show ?thesis by (simp add: flag_settled_def flag_change_def Let_def)
next
  case (Some v)
  have "map_option snd (map_option (\<lambda>v. (420::nat, v @ [newline])) v) = as_file v" by (cases v) (auto simp: as_file_def)
  then show ?thesis using Some by (auto simp: flag_settled_def flag_change_def Let_def)
qed

lemma write_flags_settles:
  assumes "write_flags env c b ns s = (None, t)" and "distinct ns" and "\<And>n. n \<in> set ns \<Longrightarrow> us_files s (Flag n) = b (Flag n)"
    and "n \<in> set ns"
  shows "flag_settled c n (us_files t (Flag n))"
  using assms
proof (induction ns arbitrary: s)
  case (Cons m ns)
  obtain s1 where w: "write_flags env c b ns s1 = (None, t)"
    and s1: "us_files s1 (Flag m) = (case flag_change c b m of None \<Rightarrow> b (Flag m) | Some f \<Rightarrow> f)"
    and keep: "\<And>k. k \<noteq> m \<Longrightarrow> us_files s1 (Flag k) = us_files s (Flag k)"
  proof (cases "flag_change c b m")
    case None
    then show ?thesis using Cons.prems(1) Cons.prems(3) [of m] that [of s] by simp
  next
    case (Some f)
    then obtain s1 where s1: "writeUSBFile env (Flag m) f s = (None, s1)" "write_flags env c b ns s1 = (None, t)"
      using Cons.prems(1) by (auto split: prod.splits option.splits)
    then show ?thesis using that [of s1] usb_write_ok(1) [OF s1(1)] Some by simp
  qed
  show ?case
  proof (cases "n = m")
    case True
    have "Flag m \<notin> Flag ` set ns" using Cons.prems(2) by auto
    then have "us_files t (Flag m) = us_files s1 (Flag m)" using write_flags_off [OF w] by simp
    then show ?thesis using s1 change_settles [of c m b] True by simp
  next
    case False
    then have n: "n \<in> set ns" using Cons.prems(4) by simp
    have "us_files s1 (Flag k) = b (Flag k)" if "k \<in> set ns" for k
    proof -
      have "k \<noteq> m" using that Cons.prems(2) by auto
      then show ?thesis using keep Cons.prems(3) [of k] that by simp
    qed
    then show ?thesis using Cons.IH [OF w] Cons.prems(2) n by simp
  qed
qed simp

lemma flags_distinct: "distinct usbCompositionFlags"
  by (simp add: usbCompositionFlags_def Files_def)

lemma content_distinct: "distinct (map fst (contentFiles c))"
  by (simp add: contentFiles_def identity_files_def FileValues_def Files_def Let_def)

lemma content_listed: "fst ` set (contentFiles c) \<subseteq> set usbCompositionFlags"
  by (simp add: contentFiles_def identity_files_def FileValues_def Files_def usbCompositionFlags_def Let_def)

lemma image_text: "printable UserDiskImagePath" "tight UserDiskImagePath"
  by (simp_all add: UserDiskImagePath_def printable_def tight_def)

text \<open>Settled files are read back as the composition.\<close>

lemma settled_read:
  assumes v: "validate c = None" and f: "\<And>n. n \<in> set usbCompositionFlags \<Longrightarrow> flag_settled c n (us_files t (Flag n))"
    and m: "getMode (us_gadget t) = Some (uc_mode c)"
  shows "getUSBComposition t = c\<lparr>uc_identity := normalized (uc_identity c), uc_storageIdentity := Normalized (uc_storageIdentity c)\<rparr>"
proof -
  let ?d = "flags_of_files (us_files t)"
  have content: "?d n = as_file x" if "(n, x) \<in> set (contentFiles c)" for n x
  proof -
    have "map_of (contentFiles c) n = Some x" using content_distinct that by (rule map_of_at)
    moreover have "n \<in> set usbCompositionFlags" using content_listed that by force
    ultimately show ?thesis using f [of n] by (simp add: flag_settled_def flags_of_files_def)
  qed
  have vi: "validate_identity (uc_identity c)" "ValidateIdentity (uc_storageIdentity c)"
    using v by (auto simp: validate_def split: if_splits)
  have ids: "readUSBIdentity ?d = normalized (uc_identity c)" "ReadIdentity ?d = Normalized (uc_storageIdentity c)"
    by (rule identity_round_trip [OF vi(1)], rule content, simp add: contentFiles_def,
        rule storage_round_trip [OF vi(2)], rule content, simp add: contentFiles_def)
  have "?d ''usb.userdisk'' = as_file (if uc_userDisk c then Some UserDiskImagePath else None)"
    by (rule content) (simp add: contentFiles_def)
  then have disk: "userDiskFlagged ?d = uc_userDisk c"
    using trim_line [OF image_text] by (simp add: userDiskFlagged_def as_file_def)
  have flag: "flagged (us_files t) n = (map_of (flag_values c) n = Some True)"
    if "n \<in> set usbCompositionFlags" and "n \<notin> fst ` set (contentFiles c)" for n
    using f [OF that(1)] that(2) map_of_eq_None_iff [of "contentFiles c" n] by (simp add: flag_settled_def flagged_def)
  have flags: "flagged (us_files t) ''usb.rndis0'' = False" "flagged (us_files t) ''usb.ncm'' = uc_network c"
    "flagged (us_files t) ''usb.disk0'' = uc_disk c" "flagged (us_files t) ''usb.acm'' = uc_serial c"
    "flagged (us_files t) ''usb.audio'' = uc_audio c"
    "flagged (us_files t) ''disable_hid'' = (\<not> uc_keyboard c \<and> \<not> uc_relative c \<and> \<not> uc_absolute c)"
    "flagged (us_files t) ''usb.disable_keyboard'' = (\<not> uc_keyboard c)" "flagged (us_files t) ''usb.disable_relative'' = (\<not> uc_relative c)"
    "flagged (us_files t) ''usb.disable_absolute'' = (\<not> uc_absolute c)"
    by (subst flag, simp add: usbCompositionFlags_def, simp add: contentFiles_def identity_files_def FileValues_def Files_def Let_def, simp add: flag_values_def)+
  have "uc_mode c = ModeHidOnly \<Longrightarrow> \<not> uc_network c \<and> \<not> uc_disk c \<and> \<not> uc_audio c" "uc_userDisk c \<Longrightarrow> uc_disk c"
    using v by (auto simp: validate_def split: if_splits)
  then show ?thesis
    unfolding getUSBComposition_def Let_def m option.case flags ids disk by (intro usbComposition.equality) auto
qed

lemma applied_settles:
  assumes "apply_composition env current c s = (Applied, t)" and "current \<noteq> c"
  shows "validate c = None" and "n \<in> set usbCompositionFlags \<Longrightarrow> flag_settled c n (us_files t (Flag n))"
    and "verifyUSBCompositionAt (us_gadget t) c" and "p \<notin> set usb_paths \<Longrightarrow> us_files t p = us_files s p"
proof -
  show v: "validate c = None" using assms(1) by (auto simp: apply_composition_def split: option.splits)
  obtain s1 s2 s3 b where o1: "other_step env ErrDir s = (None, s1)" and o2: "other_step env ErrScript s1 = (None, s2)"
    and sn: "snapshot_all env usb_paths (\<lambda>_. None) s2 = (Inr b, s3)" and a: "apply_snapshot env current c b s3 = (Applied, t)"
    using assms v by (auto simp: apply_composition_def split: prod.splits option.splits sum.splits)
  note f = other_files [OF o1] other_files [OF o2] snapshot_all_ok(1) [OF sn]
  have nf: "fails env current b st err x \<noteq> (Applied, t)" for st err x
    using fails_not_applied [of env current b st err x] by (cases "fails env current b st err x") auto
  obtain s4 s5 where i: "InstallModeScript env (uc_mode c) s3 = (None, s4)" and r: "run_script env s4 = (None, s5)"
    and a5: "apply_stopped env current c b s5 = (Applied, t)"
    using a nf by (auto simp: apply_snapshot_def split: prod.splits option.splits)
  obtain s6 where w: "write_flags env c b usbCompositionFlags s5 = (None, s6)" and r6: "run_script env s6 = (None, t)"
    and ver: "verifyUSBCompositionAt (us_gadget t) c"
    using a5 nf by (auto simp: apply_stopped_def split: prod.splits option.splits if_splits)
  have "us_files s5 (Flag k) = b (Flag k)" if "k \<in> set usbCompositionFlags" for k
  proof -
    have "b (Flag k) = us_files s2 (Flag k)" using snapshot_all_ok(3) [OF sn refl, of "Flag k"] that by (simp add: usb_paths_def)
    then show ?thesis using run_files [OF r] install_off(1) [OF i, of "Flag k"] f by simp
  qed
  from write_flags_settles [OF w flags_distinct this] run_files [OF r6]
  show "n \<in> set usbCompositionFlags \<Longrightarrow> flag_settled c n (us_files t (Flag n))" by simp
  show "verifyUSBCompositionAt (us_gadget t) c" by (rule ver)
  show "us_files t p = us_files s p" if "p \<notin> set usb_paths"
  proof -
    have "p \<notin> Flag ` set usbCompositionFlags" using that flags_in_paths(1) by fast
    moreover have "p \<noteq> Script" using that flags_in_paths(2) by metis
    ultimately show ?thesis
      using write_flags_off [OF w] run_files [OF r6] run_files [OF r] install_off(1) [OF i, of p] f by simp
  qed
qed


section \<open>The live change\<close>

text \<open>What comes before the change itself touches neither the files nor the gadget.\<close>

lemma live_steps:
  assumes "applyLiveUSBComposition env current c s = (r, t)" and "current \<noteq> c"
  obtains s1 where "us_files s1 = us_files s" and "us_gadget s1 = us_gadget s" and "apply_composition env current c s1 = (r, t)"
  | err where "r = Failed err True" and "us_files t = us_files s" and "us_gadget t = us_gadget s"
proof -
  note prepared = that(1) and refused = that(2)
  define attach where "attach = (uc_userDisk current \<or> uc_userDisk c)"
  obtain r1 s1 where l: "(if attach then lock_user_disk env s else (None, s)) = (r1, s1)" by fastforce
  obtain r2 s2 where o2: "other_step env ErrAudio s1 = (r2, s2)" by fastforce
  obtain r3 s3 where o3: "(if uc_serial c \<and> \<not> uc_serial current then other_step env ErrGetty s2 else (None, s2)) = (r3, s3)" by fastforce
  have f1: "us_files s1 = us_files s" "us_gadget s1 = us_gadget s" using l lock_files by (auto split: if_splits)
  have f2: "us_files s2 = us_files s" "us_gadget s2 = us_gadget s" using other_files [OF o2] f1 by auto
  have f3: "us_files s3 = us_files s" "us_gadget s3 = us_gadget s" using o3 other_files f2 by (auto split: if_splits)
  note eq = assms(1) [unfolded applyLiveUSBComposition_def attach_def [symmetric] Let_def]
  show ?thesis
  proof (cases "r1 \<noteq> None \<or> attach \<and> uc_userDisk c \<and> \<not> ua_disk (env (us_n s1))")
    case True
    then show ?thesis using eq assms(2) l refused f1 by (cases r1) auto
  next
    case False
    show ?thesis
    proof (cases "r2 = None \<and> r3 = None")
      case True
      then have "apply_composition env current c s3 = (r, t)" using eq assms(2) l o2 o3 False by (auto split: if_splits)
      then show ?thesis by (rule prepared [OF f3])
    next
      case False2: False
      then show ?thesis using eq assms(2) l o2 o3 False refused f2 f3 by (cases r2; cases r3) auto
    qed
  qed
qed


lemma live_applied:
  assumes "applyLiveUSBComposition env current c s = (Applied, t)" and "current \<noteq> c"
  shows "validate c = None" and "n \<in> set usbCompositionFlags \<Longrightarrow> flag_settled c n (us_files t (Flag n))"
    and "verifyUSBCompositionAt (us_gadget t) c" and "p \<notin> set usb_paths \<Longrightarrow> us_files t p = us_files s p"
proof -
  obtain s1 where s1: "us_files s1 = us_files s" "apply_composition env current c s1 = (Applied, t)"
    using assms by (cases rule: live_steps) auto
  note ap = applied_settles [OF s1(2) assms(2)]
  show "validate c = None" "n \<in> set usbCompositionFlags \<Longrightarrow> flag_settled c n (us_files t (Flag n))"
    "verifyUSBCompositionAt (us_gadget t) c" "p \<notin> set usb_paths \<Longrightarrow> us_files t p = us_files s p"
    using ap s1(1) by simp_all
qed

lemma Normalized_again: "Normalized (Normalized i) = Normalized i"
  by (simp add: Normalized_def Defaults_def)

text \<open>A composition as the server reads it is in normal form.\<close>

lemma read_canonical:
  "normalized (uc_identity (getUSBComposition s)) = uc_identity (getUSBComposition s)"
  "Normalized (uc_storageIdentity (getUSBComposition s)) = uc_storageIdentity (getUSBComposition s)"
  by (simp_all add: getUSBComposition_def Let_def readUSBIdentity_def ReadIdentity_def normalized_again Normalized_again)

text \<open>A change that succeeds is read back.\<close>

lemma live_read_back:
  assumes "applyLiveUSBComposition env (getUSBComposition s) c s = (Applied, t)" and "getMode (us_gadget t) = Some (uc_mode c)"
  shows "getUSBComposition t = c\<lparr>uc_identity := normalized (uc_identity c), uc_storageIdentity := Normalized (uc_storageIdentity c)\<rparr>"
proof (cases "getUSBComposition s = c")
  case True
  then have "t = s" using assms(1) by (simp add: applyLiveUSBComposition_def)
  then show ?thesis using True read_canonical [of s] by simp
next
  case False
  note ap = live_applied [OF assms(1) False]
  show ?thesis by (rule settled_read [OF ap(1) ap(2) assms(2)])
qed


section \<open>RustDesk\<close>

lemma composition_cong:
  "(\<And>n. us_files t (Flag n) = us_files s (Flag n)) \<Longrightarrow> us_gadget t = us_gadget s \<Longrightarrow> getUSBComposition t = getUSBComposition s"
  by (simp add: getUSBComposition_def flagged_def flags_of_files_def [abs_def] Let_def)

lemma profile_canonical:
  "c = remoteAccessProfile a (getUSBComposition s) \<Longrightarrow>
     c\<lparr>uc_identity := normalized (uc_identity c), uc_storageIdentity := Normalized (uc_storageIdentity c)\<rparr> = c"
  using read_canonical [of s] by (simp add: remoteAccessProfile_def)

lemma before_again:
  "(with_identity (flagsOf c) (uc_identity c))\<lparr>uc_storageIdentity := uc_storageIdentity c\<rparr> = c"
  by (simp add: with_identity_def flagsOf_def)

lemma marker_written:
  assumes "writeRemoteAccessMarker env J m s = (None, t)"
  shows "us_files t = (us_files s)(Marker := Some (420, mj_marshal J m @ [newline]))" and "us_gadget t = us_gadget s"
  using usb_write_ok assms by (auto simp: writeRemoteAccessMarker_def)

text \<open>Turning RustDesk on: the marker holds the composition from before and the preset, which is in place.\<close>

lemma enable_applied:
  assumes "EnableRemoteAccessUSB env J withAudio s = (Applied, t)" and "us_files s Marker = None" and "getMode (us_gadget t) = Some ModeNormal"
  defines "cur \<equiv> getUSBComposition s"
  defines "cand \<equiv> remoteAccessProfile withAudio cur"
  shows "getUSBComposition t = cand"
    and "us_files t Marker = Some (420, mj_marshal J \<lparr>Before = flagsOf cur, AppliedFlags = flagsOf cand\<rparr> @ [newline])"
proof -
  let ?m = "\<lparr>Before = flagsOf cur, AppliedFlags = flagsOf cand\<rparr>"
  obtain s2 where w: "writeRemoteAccessMarker env J ?m (tick (tick s)) = (None, s2)"
    and app: "(if cur = cand then (if verifyUSBCompositionAt (us_gadget s2) cand then (Applied, s2) else (Failed ErrVerify True, s2))
       else applyLiveUSBComposition env cur cand s2) = (Applied, t)"
    using assms(1,2) unfolding cand_def cur_def
    by (auto simp: EnableRemoteAccessUSB_def enableRemoteAccessUSB_def applyWithRemoteAccessMarker_def readRemoteAccessMarker_def
        snapshotUSBFile_def Let_def split: option.splits if_splits prod.splits sum.splits usb_outcome.splits)
  note mw = marker_written [OF w]
  have same: "getUSBComposition s2 = cur" unfolding cur_def using mw by (intro composition_cong) auto
  show "getUSBComposition t = cand"
  proof (cases "cur = cand")
    case True
    then show ?thesis using app same by (simp split: if_splits)
  next
    case False
    then have "applyLiveUSBComposition env (getUSBComposition s2) cand s2 = (Applied, t)" using app same by simp
    moreover have "getMode (us_gadget t) = Some (uc_mode cand)" using assms(3) by (simp add: cand_def remoteAccessProfile_def)
    ultimately show ?thesis using live_read_back [of env s2 cand t] profile_canonical [of cand withAudio s] by (simp add: cand_def cur_def)
  qed
  show "us_files t Marker = Some (420, mj_marshal J ?m @ [newline])"
  proof (cases "cur = cand")
    case True
    then show ?thesis using app mw by (simp split: if_splits)
  next
    case False
    then have "us_files t Marker = us_files s2 Marker" using app live_applied(4) [of env cur cand s2 t Marker] flags_in_paths(3) by simp
    then show ?thesis using mw by simp
  qed
qed

text \<open>Turning it off while the preset is in place: the composition of the marker.\<close>

lemma restore_applied:
  assumes "RestoreUSBAfterRemoteAccess env J t = (Applied, u)"
    and "marker_json_ok J \<lparr>Before = flagsOf c, AppliedFlags = flagsOf (getUSBComposition t)\<rparr>" and "ua_fault (env (us_n t)) = Fine"
    and "us_files t Marker = Some (k, mj_marshal J \<lparr>Before = flagsOf c, AppliedFlags = flagsOf (getUSBComposition t)\<rparr> @ [newline])"
    and "uc_identity (getUSBComposition t) = uc_identity c" and "uc_storageIdentity (getUSBComposition t) = uc_storageIdentity c"
    and "uc_userDisk c \<Longrightarrow> ua_disk (env (Suc (us_n t)))" and "getMode (us_gadget u) = Some (uc_mode c)"
    and canon: "normalized (uc_identity c) = uc_identity c" "Normalized (uc_storageIdentity c) = uc_storageIdentity c"
  shows "getUSBComposition u = c" and "us_files u Marker = None"
proof -
  let ?cur = "getUSBComposition t"
  have rd: "readRemoteAccessMarker env J t = (Some \<lparr>Before = flagsOf c, AppliedFlags = flagsOf ?cur\<rparr>, tick t)"
    using assms(2-4) by (simp add: readRemoteAccessMarker_def marker_json_ok_def)
  have b: "(with_identity (flagsOf c) (uc_identity ?cur))\<lparr>uc_storageIdentity := uc_storageIdentity ?cur\<rparr> = c"
    using before_again [of c] assms(5,6) by simp
  have n: "us_n (tick t) = Suc (us_n t)" by (simp add: tick_def)
  have disk: "(if uc_userDisk c \<and> \<not> ua_disk (env (Suc (us_n t))) then c\<lparr>uc_userDisk := False\<rparr> else c) = c" using assms(7) by auto
  have "(case validate c of
      Some err \<Rightarrow> (Failed err True, tick t)
    | None \<Rightarrow> (case applyLiveUSBComposition env ?cur c (tick t) of
         (Applied, s) \<Rightarrow> remove_marker env s | (Failed err ok, s) \<Rightarrow> (Failed err ok, s))) = (Applied, u)"
    using assms(1) unfolding RestoreUSBAfterRemoteAccess_def restoreRemoteAccessUSB_def Let_def rd prod.case option.case
      remoteAccessMarker.select_convs b n disk by simp
  then obtain u1 where app: "applyLiveUSBComposition env ?cur c (tick t) = (Applied, u1)" and rm: "remove_marker env u1 = (Applied, u)"
    by (auto split: option.splits usb_outcome.splits prod.splits)
  have u: "us_files u = (us_files u1)(Marker := None)" "us_gadget u = us_gadget u1"
    using rm by (auto simp: remove_marker_def split: if_splits)
  have "getUSBComposition (tick t) = ?cur" by (rule composition_cong) simp_all
  then have "getUSBComposition u1 = c\<lparr>uc_identity := normalized (uc_identity c), uc_storageIdentity := Normalized (uc_storageIdentity c)\<rparr>"
    using live_read_back [of env "tick t" c u1] app assms(8) u(2) by simp
  moreover have "getUSBComposition u = getUSBComposition u1" using u by (intro composition_cong) auto
  ultimately show "getUSBComposition u = c" using canon by simp
  show "us_files u Marker = None" using u by simp
qed


section \<open>Without faults\<close>

lemma quiet_steps:
  assumes "faultless env c"
  shows "snapshotUSBFile env p s = (Inr (us_files s p), tick s)"
    and "other_step env e s = (None, tick s)" and "lock_user_disk env s = (None, tick s)"
    and "run_script env s = (None, (tick s)\<lparr>us_gadget := ua_gadget (env (us_n s))\<rparr>)"
    and "\<exists>t. writeUSBFile env p f s = (None, t)"
    and "validate d = None \<Longrightarrow> \<exists>t. InstallModeScript env (uc_mode d) s = (None, t)"
  using assms
  by (auto simp: faultless_def snapshotUSBFile_def other_step_def lock_user_disk_def run_script_def writeUSBFile_def InstallModeScript_def
      validate_def split: if_splits)

lemma quiet_snapshots: "faultless env c \<Longrightarrow> \<exists>before t. snapshot_all env ps b s = (Inr before, t)"
  by (induction ps arbitrary: b s) (simp_all add: quiet_steps(1))

lemma quiet_flags: "faultless env c \<Longrightarrow> \<exists>t. write_flags env d b ns s = (None, t)"
proof (induction ns arbitrary: s)
  case (Cons n ns)
  show ?case
  proof (cases "flag_change d b n")
    case None
    then show ?thesis using Cons by simp
  next
    case (Some f)
    obtain t where "writeUSBFile env (Flag n) f s = (None, t)" using quiet_steps(5) [OF Cons.prems] by blast
    then show ?thesis using Some Cons.IH [OF Cons.prems, of t] by simp
  qed
qed simp

lemma quiet_apply:
  assumes q: "faultless env c" and "validate c = None" and "current \<noteq> c"
  shows "\<exists>t n. apply_composition env current c s = (Applied, t) \<and> us_gadget t = ua_gadget (env n)"
proof -
  obtain before s1 where sn: "snapshot_all env usb_paths (\<lambda>_. None) (tick (tick s)) = (Inr before, s1)"
    using quiet_snapshots [OF q] by blast
  obtain s2 where i: "InstallModeScript env (uc_mode c) s1 = (None, s2)" using quiet_steps(6) [OF q assms(2)] by blast
  let ?s3 = "(tick s2)\<lparr>us_gadget := ua_gadget (env (us_n s2))\<rparr>"
  obtain s4 where w: "write_flags env c before usbCompositionFlags ?s3 = (None, s4)" using quiet_flags [OF q] by blast
  let ?t = "(tick s4)\<lparr>us_gadget := ua_gadget (env (us_n s4))\<rparr>"
  have "verifyUSBCompositionAt (ua_gadget (env (us_n s4))) c" using q by (simp add: faultless_def)
  then have "apply_composition env current c s = (Applied, ?t)"
    using assms(2,3) sn i w quiet_steps(2,4) [OF q]
    by (simp add: apply_composition_def apply_snapshot_def apply_stopped_def)
  then show ?thesis by force
qed

lemma quiet_live:
  assumes q: "faultless env c" and "validate c = None" and "current \<noteq> c"
  shows "\<exists>t n. applyLiveUSBComposition env current c s = (Applied, t) \<and> us_gadget t = ua_gadget (env n)"
proof -
  have d: "ua_disk (env n)" for n using q by (simp add: faultless_def)
  show ?thesis
    using quiet_apply [OF q assms(2,3)] assms(3) d
    by (simp add: applyLiveUSBComposition_def Let_def quiet_steps(2,3) [OF q])
qed

section \<open>The example\<close>

lemma trim_plain: "printable v \<Longrightarrow> tight v \<Longrightarrow> trim_space v = v"
  by (simp add: trim_id)

lemma default_normal: "normalized defaultUSBIdentity = defaultUSBIdentity" "Normalized Defaults = Defaults"
  "validate_identity defaultUSBIdentity" "ValidateIdentity Defaults"
proof -
  have "validUSBString ''sipeed''" "validUSBString ''NanoKVM''"
    by (simp_all add: validUSBString_def maxUSBStringLength_def trim_plain printable_def tight_def)
  then show "normalized defaultUSBIdentity = defaultUSBIdentity" "Normalized Defaults = Defaults"
    "validate_identity defaultUSBIdentity" "ValidateIdentity Defaults"
    by (simp_all add: normalized_def defaultUSBIdentity_def default_ids Normalized_def Defaults_def validate_identity_def
        ValidateIdentity_def defaults_valid)
qed

lemma shown_mode: "getMode (shown c) = Some ModeNormal"
  by (simp add: getMode_def shown_def modeMap_def trim_plain printable_def tight_def ModeNormal_def ModeHidOnly_def)

lemma shown_identity: "gadgetIdentityAt (shown c) = Some defaultUSBIdentity"
proof -
  have "normalized \<lparr>VendorID = ''0x3346'', ProductID = ''0x1009'', Manufacturer = ''sipeed'', Product = ''NanoKVM'', SerialNumber = []\<rparr> = defaultUSBIdentity"
    using default_normal(1) by (simp add: defaultUSBIdentity_def)
  then show ?thesis by (simp add: gadgetIdentityAt_def shown_def lun_def trim_plain printable_def tight_def)
qed

lemma shown_disk: "verifyStorageIdentityAt (shown c) Defaults"
proof -
  have "last (Inquiry Defaults ''disk'') \<noteq> newline" by (simp add: Inquiry_def Let_def newline_def)
  then have "\<not> suffix [newline] (Inquiry Defaults ''disk'')" by (auto simp: suffix_def)
  then show ?thesis
    by (simp add: verifyStorageIdentityAt_def first_kind_def inquiry_matches_def shown_def lun_def trim_plain printable_def tight_def trim_suffix_def)
qed

lemma shown_verified:
  assumes "uc_identity c = defaultUSBIdentity" and "uc_storageIdentity c = Defaults" and "\<not> uc_userDisk c" and "\<not> uc_audio c"
    and "\<not> uc_network c" and "uc_keyboard c"
  shows "verifyUSBCompositionAt (shown c) c"
proof -
  have udc: "ga_file (shown c) ''UDC'' = Some ''usb0''" "trim_space ''usb0'' = ''usb0''" "gadgetSerialNumberAt (shown c) = []"
    by (simp_all add: shown_def lun_def gadgetSerialNumberAt_def trim_plain printable_def tight_def)
  have "\<not> empty_composition c" using assms(6) by (simp add: empty_composition_def)
  moreover have "ga_linked (shown c) ''hid.GS0'' = uc_keyboard c" "ga_linked (shown c) ''hid.GS1'' = uc_relative c"
    "ga_linked (shown c) ''hid.GS2'' = uc_absolute c" "ga_linked (shown c) ''mass_storage.disk0'' = uc_disk c"
    "ga_linked (shown c) ''acm.GS0'' = uc_serial c" "\<not> ga_linked (shown c) ''uac1.audio0''" "\<not> ga_linked (shown c) ''rndis.usb0''"
    "\<not> ga_linked (shown c) ''ncm.usb0''" "\<not> ga_exists (shown c) (lun ''2'')"
    by (simp_all add: shown_def)
  moreover have "defaultUSBIdentity\<lparr>SerialNumber := []\<rparr> = defaultUSBIdentity" "SerialNumber defaultUSBIdentity = []"
    by (simp_all add: defaultUSBIdentity_def)
  ultimately show ?thesis
    using assms shown_disk [of c] shown_identity [of c] default_normal(1) udc by (simp add: verifyUSBCompositionAt_def Let_def)
qed


lemma usb0_read: "getUSBComposition usb0 = plain_composition"
proof -
  have "v = None" if "(name, v) \<in> set (identity_files defaultUSBIdentity)" for name v
    using that unfolding identity_files_def default_normal(1) Let_def set_value_def by (auto simp: defaultUSBIdentity_def)
  then have "readUSBIdentity (flags_of_files (\<lambda>_. None)) = normalized defaultUSBIdentity"
    by (intro identity_round_trip [OF default_normal(3)]) (auto simp: as_file_def flags_of_files_def)
  moreover have "ReadIdentity (flags_of_files (\<lambda>_. None)) = Normalized Defaults"
    by (rule storage_round_trip [OF default_normal(4)])
      (auto simp: FileValues_def Files_def default_normal set_value_def as_file_def flags_of_files_def)
  ultimately show ?thesis
    by (simp add: getUSBComposition_def usb0_def shown_mode flagged_def plain_composition_def default_normal userDiskFlagged_def
        flags_of_files_def Let_def ModeNormal_def ModeHidOnly_def)
qed

lemma example_fields:
  "uc_serial with_serial" "\<not> uc_serial plain_composition" "\<not> uc_userDisk with_serial" "\<not> uc_userDisk plain_composition"
  "plain_composition \<noteq> with_serial" "uc_mode with_serial = ModeNormal" "uc_mode plain_composition = ModeNormal"
  by (simp_all add: with_serial_def plain_composition_def)

lemma plain_valid:
  "validate plain_composition = None" "validate with_serial = None" "validate (remoteAccessProfile False plain_composition) = None"
  by (simp_all add: validate_def with_serial_def plain_composition_def remoteAccessProfile_def fitsEndpointBudget_def endpointUsage_def
      devices_def usbEndpointCosts_def usbInEndpointLimit_def usbOutEndpointLimit_def default_normal ModeNormal_def ModeHidOnly_def)

lemma quiet_faultless:
  assumes "uc_identity c = defaultUSBIdentity" and "uc_storageIdentity c = Defaults" and "\<not> uc_userDisk c" and "\<not> uc_audio c"
    and "\<not> uc_network c" and "uc_keyboard c"
  shows "faultless (quiet (shown c)) c"
  using shown_verified [OF assms] by (simp add: faultless_def quiet_def)

section \<open>Properties\<close>

text \<open>
  C26. \<open>SetUSBComposition\<close> that answers success has brought about exactly what was asked for: the request named the
  composition in place, the one the server reads afterwards is the requested one with the parts the request
  left out kept and the names in their canonical form, it fits the endpoints of the controller, and the
  gadget was checked to show it. The script is taken to leave the device number of the mode.
\<close>

theorem usb_change_takes_effect:
  assumes "SetUSBComposition env revision rq s = (ReplyOk, t)" and "identityFromRequest (ur_identity rq) = Some i"
    and "c = completed rq (getUSBComposition s) (request_candidate rq i)" and "getMode (us_gadget t) = Some (uc_mode c)"
  shows "revision (getUSBComposition s) = ur_revision rq \<and>
     getUSBComposition t = c\<lparr>uc_identity := normalized (uc_identity c), uc_storageIdentity := Normalized (uc_storageIdentity c)\<rparr> \<and>
     (c = getUSBComposition s \<or> verifyUSBCompositionAt (us_gadget t) c \<and> fst (endpointUsage c) \<le> 6 \<and> snd (endpointUsage c) \<le> 7)"
proof -
  have rev: "revision (getUSBComposition s) = ur_revision rq"
    and app: "applyLiveUSBComposition env (getUSBComposition s) c s = (Applied, t)"
    using assms(1,2) unfolding assms(3)
    by (auto simp: SetUSBComposition_def Let_def split: if_splits prod.splits usb_outcome.splits)
  have "verifyUSBCompositionAt (us_gadget t) c \<and> fst (endpointUsage c) \<le> 6 \<and> snd (endpointUsage c) \<le> 7" if "c \<noteq> getUSBComposition s"
    using live_applied(1,3) [OF app] that
    by (auto simp: validate_def fitsEndpointBudget_def usbInEndpointLimit_def usbOutEndpointLimit_def split: if_splits)
  then show ?thesis using rev live_read_back [OF app assms(4)] by blast
qed

theorem usb_change_takes_effect_witness:
  "\<exists>t. SetUSBComposition (quiet (shown with_serial)) (\<lambda>_. ''r'') serial_request usb0 = (ReplyOk, t) \<and> getUSBComposition t = with_serial"
proof -
  let ?env = "quiet (shown with_serial)" and ?revision = "\<lambda>_. ''r''"
  have c: "completed serial_request plain_composition (request_candidate serial_request zeroUSBIdentity) = with_serial"
    by (simp add: completed_def request_candidate_def serial_request_def with_serial_def plain_composition_def)
  have v: "validate (request_candidate serial_request zeroUSBIdentity) = None"
  proof -
    have "ValidateIdentity zeroIdentity" "validate_identity zeroUSBIdentity"
      by (simp_all add: ValidateIdentity_def zeroIdentity_def valid_field_def trim_plain printable_def tight_def validate_identity_def zeroUSBIdentity_def)
    then show ?thesis
      by (simp add: validate_def request_candidate_def serial_request_def with_serial_def plain_composition_def fitsEndpointBudget_def
          endpointUsage_def devices_def usbEndpointCosts_def usbInEndpointLimit_def usbOutEndpointLimit_def ModeNormal_def ModeHidOnly_def)
  qed
  have rq: "ur_identity serial_request = None" "ur_revision serial_request = ''r''" by (simp_all add: serial_request_def)
  have q: "faultless ?env with_serial" by (rule quiet_faultless) (simp_all add: with_serial_def plain_composition_def)
  from quiet_live [OF q plain_valid(2) example_fields(5)] obtain t n where
    t: "applyLiveUSBComposition ?env plain_composition with_serial usb0 = (Applied, t)" and g: "us_gadget t = ua_gadget (?env n)" by blast
  have "SetUSBComposition ?env ?revision serial_request usb0 = (ReplyOk, t)"
    using t v c rq by (simp add: SetUSBComposition_def usb0_read identityFromRequest_def example_fields Let_def)
  moreover have "getMode (us_gadget t) = Some (uc_mode with_serial)"
    using g by (simp add: quiet_def shown_mode with_serial_def plain_composition_def)
  ultimately have "getUSBComposition t = with_serial\<lparr>uc_identity := normalized (uc_identity with_serial),
      uc_storageIdentity := Normalized (uc_storageIdentity with_serial)\<rparr>"
    using usb_change_takes_effect [of ?env ?revision serial_request usb0 t zeroUSBIdentity with_serial] c usb0_read
    by (simp add: identityFromRequest_def serial_request_def)
  then have "getUSBComposition t = with_serial" by (simp add: with_serial_def plain_composition_def default_normal)
  with \<open>SetUSBComposition ?env ?revision serial_request usb0 = (ReplyOk, t)\<close> show ?thesis by blast
qed





text \<open>
  Turning RustDesk on and off again gives back the composition from before with its names, and removes the
  marker, if nobody changed the composition meanwhile.
\<close>

theorem rustdesk_puts_back:
  assumes "EnableRemoteAccessUSB env J withAudio s = (Applied, t)" and "us_files s Marker = None"
    and "getMode (us_gadget t) = Some ModeNormal"
    and "marker_json_ok J \<lparr>Before = flagsOf (getUSBComposition s), AppliedFlags = flagsOf (remoteAccessProfile withAudio (getUSBComposition s))\<rparr>"
    and "RestoreUSBAfterRemoteAccess env' J t = (Applied, u)" and "ua_fault (env' (us_n t)) = Fine"
    and "uc_userDisk (getUSBComposition s) \<Longrightarrow> ua_disk (env' (Suc (us_n t)))"
    and "getMode (us_gadget u) = Some (uc_mode (getUSBComposition s))"
  shows "getUSBComposition t = remoteAccessProfile withAudio (getUSBComposition s) \<and>
     getUSBComposition u = getUSBComposition s \<and> us_files u Marker = None"
proof -
  note en = enable_applied [OF assms(1-3)]
  have id: "uc_identity (getUSBComposition t) = uc_identity (getUSBComposition s)"
    "uc_storageIdentity (getUSBComposition t) = uc_storageIdentity (getUSBComposition s)"
    unfolding en(1) by (simp_all add: remoteAccessProfile_def)
  note rs = restore_applied [OF assms(5) _ assms(6) _ id assms(7,8) read_canonical]
  show ?thesis using rs assms(4) en by simp
qed


theorem rustdesk_puts_back_witness:
  "\<exists>t u. EnableRemoteAccessUSB (quiet (shown (remoteAccessProfile False plain_composition))) one_marker False usb0 = (Applied, t) \<and>
     RestoreUSBAfterRemoteAccess (quiet (shown plain_composition)) one_marker t = (Applied, u) \<and>
     getUSBComposition t = remoteAccessProfile False plain_composition \<and> getUSBComposition u = plain_composition"
proof -
  let ?P = "remoteAccessProfile False plain_composition" and ?C = plain_composition
  let ?e1 = "quiet (shown ?P)" and ?e2 = "quiet (shown ?C)"
  let ?m = "\<lparr>Before = flagsOf ?C, AppliedFlags = flagsOf ?P\<rparr>"
  have ne: "?C \<noteq> ?P" by (simp add: plain_composition_def remoteAccessProfile_def)
  have q1: "faultless ?e1 ?P" by (rule quiet_faultless) (simp_all add: plain_composition_def remoteAccessProfile_def)
  have q2: "faultless ?e2 ?C" by (rule quiet_faultless) (simp_all add: plain_composition_def)
  have J: "marker_json_ok one_marker ?m" by (simp add: marker_json_ok_def one_marker_def)
  obtain s2 where w: "writeRemoteAccessMarker ?e1 one_marker ?m (tick (tick usb0)) = (None, s2)"
    using quiet_steps(5) [OF q1] unfolding writeRemoteAccessMarker_def by blast
  obtain t n where t: "applyLiveUSBComposition ?e1 ?C ?P s2 = (Applied, t)" "us_gadget t = ua_gadget (?e1 n)"
    using quiet_live [OF q1 plain_valid(3) ne] by blast
  have rd: "readRemoteAccessMarker ?e1 one_marker usb0 = (None, tick usb0)"
    by (simp add: readRemoteAccessMarker_def usb0_def)
  have en: "EnableRemoteAccessUSB ?e1 one_marker False usb0 = (Applied, t)"
    using rd w t(1) ne plain_valid(3)
    by (simp add: EnableRemoteAccessUSB_def enableRemoteAccessUSB_def applyWithRemoteAccessMarker_def usb0_read quiet_steps(1) [OF q1] Let_def)
  have m: "us_files usb0 Marker = None" "getMode (us_gadget t) = Some ModeNormal"
    using t(2) by (simp_all add: usb0_def quiet_def shown_mode)
  note ap = enable_applied [OF en m, unfolded usb0_read]
  obtain u1 k where u1: "applyLiveUSBComposition ?e2 ?P ?C (tick t) = (Applied, u1)" "us_gadget u1 = ua_gadget (?e2 k)"
    using quiet_live [OF q2 plain_valid(1) ne [symmetric]] by blast
  define u where "u = put_file Marker None (tick u1)"
  have rd2: "readRemoteAccessMarker ?e2 one_marker t = (Some ?m, tick t)"
    using ap(2) J by (simp add: readRemoteAccessMarker_def marker_json_ok_def quiet_def)
  have "(with_identity (flagsOf ?C) (uc_identity ?P))\<lparr>uc_storageIdentity := uc_storageIdentity ?P\<rparr> = ?C"
    using before_again [of ?C] by (simp add: remoteAccessProfile_def)
  then have re: "RestoreUSBAfterRemoteAccess ?e2 one_marker t = (Applied, u)"
    using rd2 u1(1) plain_valid(1) ap(1) example_fields(4)
    by (simp add: RestoreUSBAfterRemoteAccess_def restoreRemoteAccessUSB_def remove_marker_def u_def quiet_def Let_def)
  have "getMode (us_gadget u) = Some (uc_mode ?C)" using u1(2) by (simp add: u_def quiet_def shown_mode example_fields)
  then have "getUSBComposition t = ?P \<and> getUSBComposition u = ?C \<and> us_files u Marker = None"
    using rustdesk_puts_back [OF en m _ re, unfolded usb0_read] J by (simp add: quiet_def)
  then show ?thesis using en re by blast
qed

end
