(* ===== verification/Update_Apply.thy ===== *)
theory Update_Apply
  imports Go_Lines "HOL-Library.AList"
begin

text \<open>
  Bringing a package update into effect: \<open>cmd/nkos-apply-updates/main.go\<close>. Before a transaction of the package
  manager the hook records every running service with the files it uses; after it, a worker restarts those
  whose files changed, in the order of OpenRC, and lists what needs a reboot.

  A \<open>machine\<close> is what the program can see at one moment: processes, records of OpenRC and files. The worker looks
  several times, so it gets a machine for each turn.
\<close>

section \<open>What is seen\<close>

record stamp =
  sm_inode :: nat
  sm_device :: nat
  sm_size :: int
  sm_modified :: int
  sm_mode :: nat

record process =
  ps_PID :: int
  ps_Exe :: string
  ps_Arg0 :: string
  ps_Name :: string
  ps_Identity :: string
  ps_Maps :: "string list"

record target =
  tg_Name :: string
  tg_Kind :: string
  tg_Paths :: "string list"
  tg_Trees :: "string list"
  tg_Before :: "string \<Rightarrow> stamp option"
  tg_PIDs :: "(int \<times> string) list"

text \<open>
  \<open>mc_stat\<close> is \<open>None\<close> for what cannot be read and for directories; \<open>mc_walk\<close> lists the files below a directory;
  \<open>mc_started\<close> are the services OpenRC has started and \<open>mc_records\<close> its daemon records of a service.
\<close>

record machine =
  mc_procs :: "process list"
  mc_started :: "string list"
  mc_records :: "string \<Rightarrow> string list"
  mc_file :: "string \<Rightarrow> string option"
  mc_stat :: "string \<Rightarrow> stamp option"
  mc_walk :: "string \<Rightarrow> string list"
  mc_identity :: "int \<Rightarrow> string"

definition read_or_empty :: "machine \<Rightarrow> string \<Rightarrow> string" where
  "read_or_empty M p = (case mc_file M p of None \<Rightarrow> [] | Some x \<Rightarrow> x)"

definition fingerprint :: "machine \<Rightarrow> string list \<Rightarrow> string list \<Rightarrow> string \<Rightarrow> stamp option" where
  "fingerprint M paths trees =
     (\<lambda>p. if p \<in> set paths \<or> list_ex (\<lambda>t. p \<in> set (mc_walk M t)) trees then mc_stat M p else None)"

definition addProcess :: "process \<Rightarrow> target \<Rightarrow> target" where
  "addProcess p t = t\<lparr>tg_Paths := tg_Paths t @ [ps_Exe p] @ ps_Maps p, tg_PIDs := AList.update (ps_PID p) (ps_Identity p) (tg_PIDs t)\<rparr>"

definition add_matching :: "(process \<Rightarrow> bool) \<Rightarrow> process list \<Rightarrow> target \<Rightarrow> target" where
  "add_matching P ps t = fold addProcess (filter P ps) t"

text \<open>A decimal number in a process directory's name.\<close>

fun digits :: "nat \<Rightarrow> string" where
  "digits n = (if n < 10 then [] else digits (n div 10)) @ [char_of (48 + n mod 10)]"

declare digits.simps [simp del]

definition show_int :: "int \<Rightarrow> string" where
  "show_int i = (if i < 0 then CHR ''-'' # digits (nat (- i)) else digits (nat i))"

fun config_argument :: "string \<Rightarrow> string list \<Rightarrow> bool" where
  "config_argument path (a # b # args) = (a = ''--config'' \<and> b = path \<or> config_argument path (b # args))"
| "config_argument path _ = False"

definition managedVPN :: "machine \<Rightarrow> int \<Rightarrow> bool" where
  "managedVPN M pid =
     (case mc_file M ''/etc/kvm/openvpn/active'' of
        None \<Rightarrow> False
      | Some b \<Rightarrow>
          (let i = trim_space b in
           if i = [] \<or> contains_any i (''/. '' @ [CHR 0x5C, CHR 0x09, CHR 0x0A]) then False
           else case mc_file M (''/run/nkos-openvpn/'' @ i @ ''.pid'') of
             None \<Rightarrow> False
           | Some b \<Rightarrow>
               if fst (ParseInt (trim_space b)) \<noteq> pid then False
               else case mc_file M (''/proc/'' @ show_int pid @ ''/cmdline'') of
                 None \<Rightarrow> False
               | Some b \<Rightarrow> config_argument (''/etc/kvm/openvpn/'' @ i @ ''.ovpn'') (split_on (CHR 0x00) b)))"

section \<open>Gathering the targets\<close>

definition new_target :: "string \<Rightarrow> string \<Rightarrow> string list \<Rightarrow> string list \<Rightarrow> target" where
  "new_target name kind paths trees =
     \<lparr>tg_Name = name, tg_Kind = kind, tg_Paths = paths, tg_Trees = trees, tg_Before = (\<lambda>_. None), tg_PIDs = []\<rparr>"

definition stamped :: "machine \<Rightarrow> target \<Rightarrow> target" where
  "stamped M t = t\<lparr>tg_Before := fingerprint M (tg_Paths t) (tg_Trees t)\<rparr>"

text \<open>The fields of a daemon record and the paths in it.\<close>

fun record_lines :: "string list \<Rightarrow> (string \<times> string) list \<Rightarrow> string list \<Rightarrow> (string \<times> string) list \<times> string list" where
  "record_lines [] values paths = (values, paths)"
| "record_lines (line # lines) values paths =
     (case cut (CHR ''='') line of
        (k, v, ok) \<Rightarrow>
          if \<not> ok then record_lines lines values paths
          else record_lines lines (AList.update k v values)
            (if k = ''exec'' \<or> prefix ''argv_'' k \<and> prefix ''/etc/'' v then paths @ [v] else paths))"

definition value_of :: "(string \<times> string) list \<Rightarrow> string \<Rightarrow> string" where
  "value_of values k = (case map_of values k of None \<Rightarrow> [] | Some v \<Rightarrow> v)"

definition gather_record :: "machine \<Rightarrow> string \<Rightarrow> target \<Rightarrow> target" where
  "gather_record M b t =
     (case record_lines (split_on newline b) [] [] of
        (values, paths) \<Rightarrow>
          let t = t\<lparr>tg_Paths := tg_Paths t @ paths\<rparr>; ex = value_of values ''exec'';
              pid = fst (ParseInt (trim_space (read_or_empty M (value_of values ''pidfile''))))
          in add_matching (\<lambda>p. pid > 1 \<and> ps_PID p = pid \<or> pid = 0 \<and> ex \<noteq> [] \<and> (ps_Exe p = ex \<or> ps_Arg0 p = ex)) (mc_procs M) t)"

definition legacy :: "string \<Rightarrow> string" where
  "legacy n = ''/usr/libexec/nanokvm/legacy/'' @ n"

definition reboot_services :: "string list" where
  "reboot_services = [''nanokvm-board'', ''nanokvm-modules'', ''nanokvm-storage'', ''nanokvm-usb'', ''dbus'', ''udev'', ''udev-trigger'',
     ''devfs'', ''sysfs'', ''procfs'', ''root'', ''localmount'', ''hwclock'', ''sysctl'', ''modules'', ''hwdrivers'', ''bootmisc'', ''hostname'']"

text \<open>\<open>appRuntimePaths\<close> is the server binary and the three directories; the web page is read on every request.\<close>

definition special :: "machine \<Rightarrow> string \<Rightarrow> target \<Rightarrow> target" where
  "special M name t =
     (if name = ''nanokvm-app'' then
        add_matching (\<lambda>p. ps_Name p = ''NanoKVM-Server'' \<or> ps_Name p = ''kvm_system'') (mc_procs M)
          (t\<lparr>tg_Paths := tg_Paths t @ [''/kvmapp/server/NanoKVM-Server'', legacy ''S95nanokvm'', ''/usr/sbin/nanokvm_update_edid''],
             tg_Trees := [''/kvmapp/server/dl_lib'', ''/kvmapp/kvm_system'', ''/kvmapp/system/init.d'', ''/usr/share/nanokvm/edid'']\<rparr>)
      else if name = ''nanokvm-network'' then
        add_matching (\<lambda>p. ps_Name p = ''wpa_supplicant'' \<or> ps_Name p = ''udhcpc'') (mc_procs M)
          (t\<lparr>tg_Paths := tg_Paths t @ map legacy [''S25wifimod'', ''S30eth'', ''S30wifi'']\<rparr>)
      else if name = ''nanokvm-policy'' then
        t\<lparr>tg_Paths := tg_Paths t @ map legacy [''S29qdisc'', ''S34mssclamp'', ''S38memory'', ''S49persistent-cron'', ''S94hwcrypto'']\<rparr>
      else if name = ''nanokvm-watchdog'' then
        t\<lparr>tg_Paths := tg_Paths t @ [legacy ''S13nanokvm-watchdog''], tg_Kind := ''reboot''\<rparr>
      else if name \<in> set reboot_services then t\<lparr>tg_Kind := ''reboot''\<rparr>
      else t)"

definition base_name :: "string \<Rightarrow> string" where
  "base_name p = (let parts = filter (\<lambda>x. x \<noteq> []) (split_on (CHR ''/'') p) in if p = [] then ''.'' else if parts = [] then ''/'' else last parts)"

definition gather_service :: "machine \<Rightarrow> string \<Rightarrow> target" where
  "gather_service M name =
     (let records = mc_records M name;
          t = new_target name ''service'' [''/etc/init.d/'' @ name, ''/etc/conf.d/'' @ name] [];
          t = special M name (fold (gather_record M) records t);
          t = (if records = [] \<and> \<not> prefix ''nanokvm-'' name then
                 let t = add_matching (\<lambda>p. ps_Name p = name \<or> base_name (ps_Arg0 p) = name) (mc_procs M) t
                 in if tg_PIDs t = [] then t\<lparr>tg_Kind := ''reboot''\<rparr> else t
               else t)
      in stamped M t)"

definition gather_legacy :: "machine \<Rightarrow> string \<times> string \<times> string \<Rightarrow> target list \<Rightarrow> target list" where
  "gather_legacy M sp ts =
     (case sp of (name, comm, script) \<Rightarrow>
        if list_ex (\<lambda>t. tg_Name t = name) ts then ts
        else let t = add_matching (\<lambda>p. ps_Name p = comm) (mc_procs M) (new_target name ''legacy'' [legacy script] [])
          in if tg_PIDs t = [] then ts else ts @ [stamped M t])"

definition gather_vpn :: "machine \<Rightarrow> target list" where
  "gather_vpn M =
     (let t = add_matching (\<lambda>p. ps_Name p = ''openvpn'' \<and> managedVPN M (ps_PID p)) (mc_procs M)
            (new_target ''openvpn'' ''openvpn'' [''/usr/sbin/openvpn''] [])
      in if tg_PIDs t = [] then [] else [stamped M t])"

definition system_targets :: "target list" where
  "system_targets =
     [new_target ''kernel boot payload'' ''reboot'' [] [''/usr/lib/nanokvm/boot''],
      new_target ''bootloader'' ''reboot'' [] [''/usr/lib/nanokvm/bootloader''],
      new_target ''kernel modules and device firmware'' ''reboot'' [] [''/lib/modules'', ''/lib/firmware'', ''/usr/share/fw_vcodec''],
      new_target ''core runtime'' ''reboot'' [''/bin/busybox'', ''/sbin/init'', ''/sbin/openrc'', ''/sbin/openrc-run''] []]"

definition gather :: "machine \<Rightarrow> target list" where
  "gather M =
     (let ts = map (gather_service M) (mc_started M);
          ts = fold (gather_legacy M) [(''tailscaled'', ''tailscaled'', ''S98tailscaled''), (''dnsmasq'', ''dnsmasq'', ''S80dnsmasq''),
            (''picoclaw'', ''picoclaw'', ''S96picoclaw'')] ts
      in ts @ gather_vpn M @ map (stamped M) system_targets @
         map (\<lambda>p. stamped M (addProcess p (new_target ''PID 1 libraries'' ''reboot'' [] []))) (filter (\<lambda>p. ps_PID p = 1) (mc_procs M)))"

section \<open>Planning\<close>

definition changed :: "machine \<Rightarrow> target \<Rightarrow> bool" where
  "changed M t \<longleftrightarrow> tg_Before t \<noteq> fingerprint M (tg_Paths t) (tg_Trees t)"

definition running :: "machine \<Rightarrow> target \<Rightarrow> bool" where
  "running M t =
     (if tg_Kind t = ''service'' then tg_Name t \<in> set (mc_started M)
      else list_ex (\<lambda>(pid, i). i \<noteq> [] \<and> mc_identity M pid = i) (tg_PIDs t))"

definition vpn_notice :: string where
  "vpn_notice = ''OpenVPN: application stopped; reconnect profile manually''"

fun plan_loop ::
    "machine \<Rightarrow> bool \<Rightarrow> target list \<Rightarrow> target list \<Rightarrow> string list \<Rightarrow> bool \<Rightarrow> target list \<times> string list \<times> bool" where
  "plan_loop M app [] todo deferred need = (todo, deferred, need)"
| "plan_loop M app (t # ts) todo deferred need =
     (if \<not> changed M t then plan_loop M app ts todo deferred need
      else if tg_Kind t = ''reboot'' \<or> tg_Kind t = ''firmware'' then plan_loop M app ts todo (deferred @ [tg_Name t]) need
      else if tg_Kind t = ''openvpn'' \<and> \<not> app then plan_loop M app ts todo (deferred @ [vpn_notice]) need
      else if running M t then plan_loop M app ts (todo @ [t]) deferred (need \<or> tg_Kind t = ''openvpn'')
      else plan_loop M app ts todo deferred need)"

definition is_app :: "target \<Rightarrow> bool" where
  "is_app t \<longleftrightarrow> tg_Name t = ''nanokvm-app''"

definition plan :: "machine \<Rightarrow> target list \<Rightarrow> target list \<times> string list" where
  "plan M ts =
     (case plan_loop M (list_ex (\<lambda>t. is_app t \<and> running M t) ts) ts [] [] False of
        (todo, deferred, need) \<Rightarrow>
          (if need \<and> \<not> list_ex is_app todo then todo @ filter (\<lambda>t. is_app t \<and> running M t) ts else todo, deferred))"

definition rank :: "(string \<times> nat) list \<Rightarrow> target \<Rightarrow> nat" where
  "rank order t =
     (if tg_Kind t = ''openvpn'' then 0
      else case map_of order (tg_Name t) of Some n \<Rightarrow> n | None \<Rightarrow> length order + 1)"

text \<open>\<open>sort.SliceStable\<close>.\<close>

definition orderTargets :: "(string \<times> nat) list \<Rightarrow> target list \<Rightarrow> target list" where
  "orderTargets order todo = sort_key (rank order) todo"

text \<open>The service list of OpenRC: the number of a name is its place, counted when it is written.\<close>

fun order_lines :: "string list \<Rightarrow> (string \<times> nat) list \<Rightarrow> (string \<times> nat) list" where
  "order_lines [] r = r"
| "order_lines (line # lines) r =
     (case cut (CHR ''='') line of
        (name, _, ok) \<Rightarrow> order_lines lines (if ok then AList.update (trim_space name) (length r + 1) r else r))"

definition openRCOrder :: "string option \<Rightarrow> (string \<times> nat) list option" where
  "openRCOrder out =
     (case out of
        None \<Rightarrow> None
      | Some b \<Rightarrow> (let r = order_lines (split_on newline b) [] in if r = [] then None else Some r))"

definition renewedByOpenRC :: "machine \<Rightarrow> string \<Rightarrow> (int \<times> string) list \<Rightarrow> bool" where
  "renewedByOpenRC M name before =
     (if before = [] then False
      else if list_ex (\<lambda>(pid, i). i \<noteq> [] \<and> mc_identity M pid = i) before then False
      else list_ex (\<lambda>t. tg_Name t = name \<and> tg_PIDs t \<noteq> []) (gather M))"

section \<open>Applying\<close>

record report =
  rp_State :: string
  rp_Restarted :: "string list"
  rp_Deferred :: "string list"
  rp_Failed :: "string list"

text \<open>
  One turn of the worker: whether the wait for OpenRC ended in time, the machine it then sees, and the results
  of the commands it may run (for a legacy script the stop and the start).
\<close>

record turn =
  tn_wait :: bool
  tn_machine :: machine
  tn_first :: bool
  tn_second :: bool

definition commands_ok :: "turn \<Rightarrow> target \<Rightarrow> bool" where
  "commands_ok n t \<longleftrightarrow> (if tg_Kind t = ''legacy'' then tn_first n \<and> tn_second n
     else if tg_Kind t = ''service'' \<or> tg_Kind t = ''openvpn'' then tn_first n else True)"

definition apply_one :: "(string \<Rightarrow> (int \<times> string) list) \<Rightarrow> turn \<Rightarrow> target \<Rightarrow> report \<Rightarrow> report" where
  "apply_one baseline n t r =
     (if tg_Kind t = ''service'' \<and> \<not> tn_wait n then r\<lparr>rp_Failed := rp_Failed r @ [tg_Name t]\<rparr>
      else if \<not> running (tn_machine n) t then r
      else if tg_Kind t = ''service'' \<and> renewedByOpenRC (tn_machine n) (tg_Name t) (baseline (tg_Name t))
      then r\<lparr>rp_Restarted := rp_Restarted r @ [tg_Name t]\<rparr>
      else if commands_ok n t then r\<lparr>rp_Restarted := rp_Restarted r @ [tg_Name t]\<rparr>
      else r\<lparr>rp_Failed := rp_Failed r @ [tg_Name t]\<rparr>)"

fun apply_turns :: "(string \<Rightarrow> (int \<times> string) list) \<Rightarrow> (nat \<Rightarrow> turn) \<Rightarrow> nat \<Rightarrow> target list \<Rightarrow> report \<Rightarrow> report" where
  "apply_turns baseline turns i [] r = r"
| "apply_turns baseline turns i (t # ts) r = apply_turns baseline turns (Suc i) ts (apply_one baseline (turns i) t r)"

definition baseline_of :: "machine \<Rightarrow> string \<Rightarrow> (int \<times> string) list" where
  "baseline_of M name = (case map_of (rev (map (\<lambda>t. (tg_Name t, tg_PIDs t)) (gather M))) name of None \<Rightarrow> [] | Some p \<Rightarrow> p)"

text \<open>\<open>noted\<close> is whether the list of what needs a reboot could be written.\<close>

definition apply_updates ::
    "machine \<Rightarrow> string option \<Rightarrow> machine \<Rightarrow> (nat \<Rightarrow> turn) \<Rightarrow> bool \<Rightarrow> target list \<Rightarrow> report" where
  "apply_updates M out M1 turns noted s =
     (case plan M s of
        (todo, deferred) \<Rightarrow>
          let r = \<lparr>rp_State = ''applied'', rp_Restarted = [], rp_Deferred = deferred, rp_Failed = []\<rparr> in
          case openRCOrder out of
            None \<Rightarrow> r\<lparr>rp_State := ''failed'', rp_Failed := [''cannot obtain OpenRC dependency order'']\<rparr>
          | Some order \<Rightarrow>
              let r = apply_turns (baseline_of M1) turns 0 (orderTargets order todo) r;
                  r = (if rp_Deferred r \<noteq> [] \<and> \<not> noted then r\<lparr>rp_Failed := rp_Failed r @ [''/run/reboot-required.pkgs'']\<rparr> else r)
              in if rp_Failed r \<noteq> [] then r\<lparr>rp_State := ''failed''\<rparr>
                 else if rp_Deferred r \<noteq> [] then r\<lparr>rp_State := ''reboot-required''\<rparr> else r)"

section \<open>The hook\<close>

text \<open>
  The files of the hook under \<open>/run\<close>, and the locks: whether a recovery is pending and OpenRC runs, and whether
  another instance holds the lock.
\<close>

record hook =
  hk_snapshot :: "target list option"
  hk_pending :: bool
  hk_result :: "report option"
  hk_workers :: nat

datatype hook_error = ErrLock | ErrPending | ErrIO | ErrNoSnapshot | ErrFailed

definition pre_commit :: "machine \<Rightarrow> bool \<Rightarrow> bool \<Rightarrow> hook \<Rightarrow> hook_error option \<times> hook" where
  "pre_commit M locked wr h =
     (if locked then (Some ErrLock, h)
      else if hk_pending h then (Some ErrPending, h)
      else if \<not> wr then (Some ErrIO, h)
      else (None, h\<lparr>hk_snapshot := Some (gather M)\<rparr>))"

text \<open>The writes of the marker and the result, and the start of the worker, may fail.\<close>

definition post_commit :: "bool \<Rightarrow> bool \<Rightarrow> bool \<Rightarrow> bool \<Rightarrow> hook \<Rightarrow> hook_error option \<times> hook" where
  "post_commit locked w1 w2 st h =
     (if locked then (Some ErrLock, h)
      else if hk_snapshot h = None then (None, h)
      else if \<not> w1 then (Some ErrIO, h)
      else let h = h\<lparr>hk_pending := True\<rparr> in
        if \<not> w2 then (Some ErrIO, h)
        else let h = h\<lparr>hk_result := Some \<lparr>rp_State = ''pending'', rp_Restarted = [], rp_Deferred = [], rp_Failed = []\<rparr>\<rparr> in
          if \<not> st then (Some ErrIO, h) else (None, h\<lparr>hk_workers := Suc (hk_workers h)\<rparr>))"

definition apply_hook ::
    "bool \<Rightarrow> machine \<Rightarrow> string option \<Rightarrow> machine \<Rightarrow> (nat \<Rightarrow> turn) \<Rightarrow> bool \<Rightarrow> bool \<Rightarrow> hook \<Rightarrow> hook_error option \<times> hook" where
  "apply_hook locked M out M1 turns noted wr h =
     (if locked then (Some ErrLock, h)
      else case hk_snapshot h of
        None \<Rightarrow> (Some ErrNoSnapshot, h)
      | Some s \<Rightarrow>
          (let r = apply_updates M out M1 turns noted s in
           if \<not> wr then (Some ErrIO, h)
           else (if rp_Failed r \<noteq> [] then Some ErrFailed else None, h\<lparr>hk_result := Some r, hk_snapshot := None, hk_pending := False\<rparr>)))"


section \<open>Concrete values\<close>

text \<open>A machine with one service whose binary is replaced, and a VPN that needs the application.\<close>

definition st0 :: stamp where
  "st0 = \<lparr>sm_inode = 1, sm_device = 1, sm_size = 10, sm_modified = 0, sm_mode = 493\<rparr>"

definition sshd :: process where
  "sshd = \<lparr>ps_PID = 40, ps_Exe = ''/usr/sbin/sshd'', ps_Arg0 = ''sshd'', ps_Name = ''sshd'', ps_Identity = ''7'', ps_Maps = []\<rparr>"

definition machine0 :: machine where
  "machine0 = \<lparr>mc_procs = [sshd], mc_started = [''sshd''], mc_records = (\<lambda>_. []), mc_file = (\<lambda>_. None),
     mc_stat = (\<lambda>p. if p = ''/usr/sbin/sshd'' then Some st0 else None), mc_walk = (\<lambda>_. []), mc_identity = (\<lambda>_. ''7'')\<rparr>"

definition machine1 :: machine where
  "machine1 = machine0\<lparr>mc_stat := (\<lambda>p. if p = ''/usr/sbin/sshd'' then Some (st0\<lparr>sm_inode := 2\<rparr>) else None)\<rparr>"

definition sshd_target :: target where
  "sshd_target = \<lparr>tg_Name = ''sshd'', tg_Kind = ''service'', tg_Paths = [''/etc/init.d/sshd'', ''/etc/conf.d/sshd'', ''/usr/sbin/sshd''],
     tg_Trees = [], tg_Before = fingerprint machine0 [''/etc/init.d/sshd'', ''/etc/conf.d/sshd'', ''/usr/sbin/sshd''] [], tg_PIDs = [(40, ''7'')]\<rparr>"

definition good_turn :: "nat \<Rightarrow> turn" where
  "good_turn = (\<lambda>_. \<lparr>tn_wait = True, tn_machine = machine1, tn_first = True, tn_second = True\<rparr>)"

section \<open>Lemmas\<close>

lemma plan_loop_todo:
  "plan_loop M app ts todo deferred need = (todo', deferred', need') \<Longrightarrow>
     todo' = todo @ filter (\<lambda>t. changed M t \<and> tg_Kind t \<noteq> ''reboot'' \<and> tg_Kind t \<noteq> ''firmware'' \<and>
       \<not> (tg_Kind t = ''openvpn'' \<and> \<not> app) \<and> running M t) ts"
proof (induction ts arbitrary: todo deferred need)
  case (Cons t ts)
  then show ?case by (cases "changed M t"; cases "tg_Kind t = ''reboot''"; cases "tg_Kind t = ''firmware''"; cases "tg_Kind t = ''openvpn''"; cases app; cases "running M t"; simp; fastforce)
qed simp


lemma plan_loop_need:
  "plan_loop M app ts todo deferred need = (todo', deferred', need') \<Longrightarrow>
     need' \<longleftrightarrow> need \<or> (\<exists>t \<in> set ts. changed M t \<and> tg_Kind t = ''openvpn'' \<and> app \<and> running M t)"
proof (induction ts arbitrary: todo deferred need)
  case (Cons t ts)
  then show ?case by (cases "changed M t"; cases "tg_Kind t = ''reboot''"; cases "tg_Kind t = ''firmware''"; cases "tg_Kind t = ''openvpn''"; cases app; cases "running M t"; simp; fastforce)
qed simp

text \<open>The plan without its loop.\<close>

lemma plan_sound:
  assumes "plan M ts = (todo, deferred)" and "t \<in> set todo"
  shows "t \<in> set ts" and "running M t" and "changed M t \<and> tg_Kind t \<noteq> ''reboot'' \<and> tg_Kind t \<noteq> ''firmware'' \<or> is_app t"
proof -
  obtain todo0 need where l: "plan_loop M (list_ex (\<lambda>t. is_app t \<and> running M t) ts) ts [] [] False = (todo0, deferred, need)"
    and todo: "todo = (if need \<and> \<not> list_ex is_app todo0 then todo0 @ filter (\<lambda>t. is_app t \<and> running M t) ts else todo0)"
    using assms(1) by (auto simp: plan_def split: prod.splits)
  show "t \<in> set ts" "running M t" "changed M t \<and> tg_Kind t \<noteq> ''reboot'' \<and> tg_Kind t \<noteq> ''firmware'' \<or> is_app t"
    using assms(2) plan_loop_todo [OF l] unfolding todo by (auto split: if_splits)
qed


lemma apply_one_grows:
  "set (rp_Restarted r) \<subseteq> set (rp_Restarted (apply_one b n t r))" "set (rp_Failed r) \<subseteq> set (rp_Failed (apply_one b n t r))"
  "rp_Deferred (apply_one b n t r) = rp_Deferred r"
  by (auto simp: apply_one_def)

lemma apply_turns_grows:
  "set (rp_Restarted r) \<subseteq> set (rp_Restarted (apply_turns b turns i ts r)) \<and> set (rp_Failed r) \<subseteq> set (rp_Failed (apply_turns b turns i ts r)) \<and>
     rp_Deferred (apply_turns b turns i ts r) = rp_Deferred r"
proof (induction ts arbitrary: i r)
  case (Cons t ts)
  then show ?case using apply_one_grows [where b = b and n = "turns i" and t = t and r = r] by fastforce
qed simp


lemma turns_sound:
  "name \<in> set (rp_Restarted (apply_turns b turns i ts r)) \<Longrightarrow>
     name \<in> set (rp_Restarted r) \<or> (\<exists>k < length ts. tg_Name (ts ! k) = name \<and> running (tn_machine (turns (i + k))) (ts ! k))"
proof (induction ts arbitrary: i r)
  case (Cons t ts)
  let ?r = "apply_one b (turns i) t r"
  from Cons.prems have "name \<in> set (rp_Restarted (apply_turns b turns (Suc i) ts ?r))" by simp
  from Cons.IH [OF this] show ?case
  proof
    assume "name \<in> set (rp_Restarted ?r)"
    then show ?thesis by (force simp: apply_one_def split: if_splits)
  next
    assume "\<exists>k < length ts. tg_Name (ts ! k) = name \<and> running (tn_machine (turns (Suc i + k))) (ts ! k)"
    then obtain k where "k < length ts" "tg_Name (ts ! k) = name" "running (tn_machine (turns (Suc i + k))) (ts ! k)" by blast
    then show ?thesis by (intro disjI2 exI [of _ "Suc k"]) simp
  qed
qed simp


text \<open>The application is a service in every snapshot.\<close>

lemma add_matching_keeps: "tg_Name (add_matching P ps t) = tg_Name t" "tg_Kind (add_matching P ps t) = tg_Kind t"
proof -
  have "tg_Name (fold addProcess qs t) = tg_Name t \<and> tg_Kind (fold addProcess qs t) = tg_Kind t" for qs
    by (induction qs arbitrary: t) (auto simp: addProcess_def)
  then show "tg_Name (add_matching P ps t) = tg_Name t" "tg_Kind (add_matching P ps t) = tg_Kind t"
    by (simp_all add: add_matching_def)
qed

lemma gather_record_keeps: "tg_Name (fold (gather_record M) bs t) = tg_Name t" "tg_Kind (fold (gather_record M) bs t) = tg_Kind t"
proof -
  have "tg_Name (gather_record M b t) = tg_Name t \<and> tg_Kind (gather_record M b t) = tg_Kind t" for b t
    by (simp add: gather_record_def add_matching_keeps Let_def split: prod.splits)
  then have "tg_Name (fold (gather_record M) bs t) = tg_Name t \<and> tg_Kind (fold (gather_record M) bs t) = tg_Kind t"
    by (induction bs arbitrary: t) auto
  then show "tg_Name (fold (gather_record M) bs t) = tg_Name t" "tg_Kind (fold (gather_record M) bs t) = tg_Kind t" by auto
qed

lemma special_name: "tg_Name (special M name t) = tg_Name t"
  by (simp add: special_def add_matching_keeps)

lemma service_name: "tg_Name (gather_service M name) = name"
  by (simp add: gather_service_def stamped_def Let_def add_matching_keeps special_name gather_record_keeps new_target_def)

lemma service_app: "tg_Kind (gather_service M ''nanokvm-app'') = ''service''"
  by (simp add: gather_service_def stamped_def Let_def special_def add_matching_keeps gather_record_keeps new_target_def)

lemma gather_app:
  assumes "t \<in> set (gather M)" and "is_app t"
  shows "tg_Kind t = ''service''"
proof -
  have leg: "is_app t \<Longrightarrow> t \<in> set (gather_legacy M (name, comm, script) ts) \<Longrightarrow> name \<noteq> ''nanokvm-app'' \<Longrightarrow> t \<in> set ts" for name comm script ts
    by (auto simp: gather_legacy_def is_app_def stamped_def add_matching_keeps new_target_def Let_def split: if_splits)
  have leg3: "t \<in> set (fold (gather_legacy M) [(''tailscaled'', ''tailscaled'', ''S98tailscaled''), (''dnsmasq'', ''dnsmasq'', ''S80dnsmasq''),
      (''picoclaw'', ''picoclaw'', ''S96picoclaw'')] ts) \<Longrightarrow> t \<in> set ts" for ts
    by (simp only: fold_simps id_apply) (drule leg [OF assms(2)], simp)+
  from assms(1) consider "t \<in> gather_service M ` set (mc_started M)" | "t \<in> set (gather_vpn M)" | "t \<in> stamped M ` set system_targets"
    | p where "t = stamped M (addProcess p (new_target ''PID 1 libraries'' ''reboot'' [] []))"
    unfolding gather_def Let_def set_append using leg3 [of "map (gather_service M) (mc_started M)"] by (auto simp del: fold_simps)
  then show ?thesis
  proof cases
    case 1
    then show ?thesis using assms(2) service_app by (auto simp: is_app_def service_name)
  next
    case 2
    then show ?thesis using assms(2) by (auto simp: gather_vpn_def is_app_def stamped_def add_matching_keeps new_target_def Let_def split: if_splits)
  next
    case 3
    then show ?thesis using assms(2) by (auto simp: system_targets_def is_app_def stamped_def new_target_def)
  next
    case 4
    then show ?thesis using assms(2) by (simp add: is_app_def stamped_def addProcess_def new_target_def)
  qed
qed

lemma order_members: "set (orderTargets order todo) = set todo"
  by (simp add: orderTargets_def)

text \<open>The report of a run for which OpenRC gave an order.\<close>

lemma report_parts:
  assumes "r = apply_updates M out M1 turns noted s" and "openRCOrder out = Some order" and "plan M s = (todo, deferred)"
  defines "r0 \<equiv> apply_turns (baseline_of M1) turns 0 (orderTargets order todo)
    \<lparr>rp_State = ''applied'', rp_Restarted = [], rp_Deferred = deferred, rp_Failed = []\<rparr>"
  shows "rp_Restarted r = rp_Restarted r0" and "set (rp_Failed r0) \<subseteq> set (rp_Failed r)" and "rp_Deferred r = deferred"
    and "rp_State r = ''applied'' \<longleftrightarrow> rp_Failed r = [] \<and> rp_Deferred r = []"
proof -
  have st: "rp_State r0 = ''applied''"
  proof -
    have "rp_State (apply_turns b turns i ts x) = rp_State x" for b i ts x
      by (induction ts arbitrary: i x) (simp_all add: apply_one_def)
    then show ?thesis by (simp add: r0_def)
  qed
  have d: "rp_Deferred r0 = deferred" using apply_turns_grows [of _ "baseline_of M1" turns 0 "orderTargets order todo"] by (simp add: r0_def)
  define r1 where "r1 = (if rp_Deferred r0 \<noteq> [] \<and> \<not> noted then r0\<lparr>rp_Failed := rp_Failed r0 @ [''/run/reboot-required.pkgs'']\<rparr> else r0)"
  have r: "r = (if rp_Failed r1 \<noteq> [] then r1\<lparr>rp_State := ''failed''\<rparr>
      else if rp_Deferred r1 \<noteq> [] then r1\<lparr>rp_State := ''reboot-required''\<rparr> else r1)"
    using assms(1-3) by (simp add: apply_updates_def Let_def r1_def r0_def [symmetric])
  have r1: "rp_Restarted r1 = rp_Restarted r0" "set (rp_Failed r0) \<subseteq> set (rp_Failed r1)" "rp_Deferred r1 = deferred" "rp_State r1 = ''applied''"
    using d st by (auto simp: r1_def)
  show "rp_Restarted r = rp_Restarted r0" "set (rp_Failed r0) \<subseteq> set (rp_Failed r)" "rp_Deferred r = deferred"
    "rp_State r = ''applied'' \<longleftrightarrow> rp_Failed r = [] \<and> rp_Deferred r = []"
    unfolding r using r1 by (cases "rp_Failed r1 = []"; cases "rp_Deferred r1 = []"; simp)+
qed

lemma gather0: "gather machine0 = sshd_target # map (stamped machine0) system_targets"
proof -
  have b: "base_name ''sshd'' = ''sshd''" by code_simp
  have "gather_service machine0 ''sshd'' = sshd_target"
    using b by (simp add: gather_service_def machine0_def special_def reboot_services_def add_matching_def addProcess_def new_target_def
        stamped_def sshd_target_def sshd_def Let_def)
  then show ?thesis
    by (simp add: gather_def gather_legacy_def gather_vpn_def add_matching_def machine0_def [THEN arg_cong, of mc_procs]
        machine0_def [THEN arg_cong, of mc_started] sshd_def new_target_def Let_def)
qed

lemma system_unchanged: "t \<in> set system_targets \<Longrightarrow> \<not> changed machine1 (stamped machine0 t)"
proof -
  have "fingerprint machine1 ps ts = fingerprint machine0 ps ts" if "''/usr/sbin/sshd'' \<notin> set ps" for ps ts
    using that by (intro ext) (simp add: fingerprint_def machine0_def machine1_def list_ex_iff)
  moreover assume "t \<in> set system_targets"
  then have "''/usr/sbin/sshd'' \<notin> set (tg_Paths t)" by (auto simp: system_targets_def new_target_def)
  ultimately show ?thesis by (simp add: changed_def stamped_def)
qed

lemma plan_loop_unchanged: "(\<And>t. t \<in> set ts \<Longrightarrow> \<not> changed M t) \<Longrightarrow> plan_loop M app ts todo d n = (todo, d, n)"
  by (induction ts) auto

lemma sshd_changed: "changed machine1 sshd_target"
proof -
  have "tg_Before sshd_target ''/usr/sbin/sshd'' \<noteq> fingerprint machine1 (tg_Paths sshd_target) (tg_Trees sshd_target) ''/usr/sbin/sshd''"
    by (simp add: sshd_target_def fingerprint_def machine0_def machine1_def st0_def)
  then show ?thesis by (auto simp: changed_def)
qed

lemma sshd_running: "running machine1 sshd_target"
  by (simp add: running_def sshd_target_def machine1_def machine0_def)

section \<open>Properties\<close>



text \<open>
  The worker restarts nothing else: what it restarts was in the snapshot taken before the update, was running
  when the work was planned and when its turn came, is not one of the components that only a reboot renews,
  and has changed files or is the application, which an updated VPN needs.
\<close>

theorem update_restarts_only_changed:
  assumes "s = gather M0" and "openRCOrder out = Some order" and "name \<in> set (rp_Restarted (apply_updates M out M1 turns noted s))"
  shows "\<exists>t \<in> set s. tg_Name t = name \<and> running M t \<and> tg_Kind t \<notin> {''reboot'', ''firmware''} \<and> (changed M t \<or> name = ''nanokvm-app'') \<and>
     (\<exists>k. running (tn_machine (turns k)) t)"
proof -
  obtain todo deferred where p: "plan M s = (todo, deferred)" by fastforce
  note rp = report_parts [OF refl assms(2) p]
  let ?L = "orderTargets order todo"
  have "name \<in> set (rp_Restarted (apply_turns (baseline_of M1) turns 0 ?L
      \<lparr>rp_State = ''applied'', rp_Restarted = [], rp_Deferred = deferred, rp_Failed = []\<rparr>))"
    using assms(3) unfolding rp(1) .
  from turns_sound [OF this] obtain k where k: "k < length ?L" "tg_Name (?L ! k) = name" "running (tn_machine (turns k)) (?L ! k)"
    unfolding report.select_convs add_0 by auto
  then have t: "?L ! k \<in> set todo" using order_members [of order todo] nth_mem [OF k(1)] by blast
  note ps = plan_sound [OF p t]
  have "tg_Kind (?L ! k) \<notin> {''reboot'', ''firmware''}"
  proof (cases "is_app (?L ! k)")
    case True
    then have "tg_Kind (?L ! k) = ''service''" using ps(1) gather_app assms(1) by blast
    then show ?thesis by simp
  next
    case False
    then show ?thesis using ps(3) by blast
  qed
  then show ?thesis using ps k unfolding is_app_def by blast
qed


theorem update_restarts_only_changed_witness:
  "''sshd'' \<in> set (rp_Restarted (apply_updates machine1 (Some ''sshd=started'') machine1 good_turn True (gather machine0))) \<and>
     (\<exists>t \<in> set (gather machine0). tg_Name t = ''sshd'' \<and> changed machine1 t \<and> tg_Kind t \<notin> {''reboot'', ''firmware''})"
proof -
  have o1: "openRCOrder (Some ''sshd=started'') = Some [(''sshd'', 1)]" by code_simp
  have k: "tg_Kind sshd_target = ''service''" "tg_Name sshd_target = ''sshd''" by (simp_all add: sshd_target_def)
  have "plan machine1 (gather machine0) = ([sshd_target], [])"
  proof -
    have "plan_loop machine1 app (map (stamped machine0) system_targets) [sshd_target] [] False = ([sshd_target], [], False)" for app
      by (rule plan_loop_unchanged) (use system_unchanged in auto)
    then show ?thesis unfolding gather0 plan_def using sshd_changed sshd_running k by simp
  qed
  then have r: "''sshd'' \<in> set (rp_Restarted (apply_updates machine1 (Some ''sshd=started'') machine1 good_turn True (gather machine0)))"
    using o1 sshd_running k by (simp add: apply_updates_def orderTargets_def apply_one_def good_turn_def commands_ok_def Let_def)
  from update_restarts_only_changed [OF refl o1 r] r show ?thesis by auto
qed

end
