(* ===== verification/Image_Transfer.thy ===== *)
theory Image_Transfer
  imports Go_Lines
begin

text \<open>
  Images for the virtual drive: \<open>service/download\<close> and the guard of \<open>service/storage/image_guard.go\<close>. An upload
  from the browser, a download by URL and the continuation of an interrupted download write to a hidden
  temporary file and publish it only when every check has passed. Contents are byte strings, the hash is an
  argument, and what the network and the disk do is given by the environment.
\<close>

datatype transfer_error = ErrSpace | ErrRead | ErrWrite | ErrSHA256Mismatch | ErrCanceled | ErrStatus | ErrRange | ErrIncomplete
  | ErrFormat | ErrInUse | ErrName | ErrSum | ErrTemp | ErrURL | ErrPath | ErrValidator | ErrForm | ErrTransfer | ErrStat

datatype downloadStatus = Idle | InProgress | Success | DlFailed | ChecksumFailed

section \<open>Names and checks\<close>

definition name_char :: "char \<Rightarrow> bool" where
  "name_char c \<longleftrightarrow>
     (let n = (of_char c :: nat) in
      48 \<le> n \<and> n \<le> 57 \<or> 65 \<le> n \<and> n \<le> 90 \<or> 97 \<le> n \<and> n \<le> 122 \<or> c \<in> {CHR ''.'', CHR ''_'', CHR ''-''})"

text \<open>\<open>filepath.Base\<close>: the last component of a path.\<close>

definition path_base :: "string \<Rightarrow> string" where
  "path_base p = (let parts = filter (\<lambda>x. x \<noteq> []) (split_on (CHR ''/'') p) in if p = [] then ''.'' else if parts = [] then ''/'' else last parts)"

definition validateImageFilename :: "string list \<Rightarrow> string \<Rightarrow> bool" where
  "validateImageFilename exts f \<longleftrightarrow>
     f \<noteq> [] \<and> path_base f = f \<and> \<not> contains f ''..'' \<and> list_ex (\<lambda>x. suffix x (to_lower f)) exts \<and>
     f \<noteq> [] \<and> list_all name_char f"

definition validateRemoteImageFilename :: "string \<Rightarrow> bool" where
  "validateRemoteImageFilename f = validateImageFilename [''.iso'', ''.img''] f"

text \<open>\<open>hex.DecodeString\<close>.\<close>

fun hex_decode :: "string \<Rightarrow> string option" where
  "hex_decode [] = Some []"
| "hex_decode [_] = None"
| "hex_decode (a # b # cs) =
     (case (hex_digit a, hex_digit b, hex_decode cs) of
        (Some x, Some y, Some r) \<Rightarrow> Some (char_of (16 * x + y) # r)
      | _ \<Rightarrow> None)"


text \<open>\<open>Inr None\<close> is a transfer without a checksum.\<close>

definition parseSHA256 :: "string \<Rightarrow> transfer_error + string option" where
  "parseSHA256 v =
     (let v = trim_space v in
      if v = [] then Inr None
      else case hex_decode v of
        None \<Rightarrow> Inl ErrSum
      | Some s \<Rightarrow> if length s \<noteq> 32 then Inl ErrSum else Inr (Some s))"

definition strongETag :: "string \<Rightarrow> bool" where
  "strongETag s \<longleftrightarrow> length s \<ge> 2 \<and> hd s = CHR 0x22 \<and> last s = CHR 0x22 \<and> \<not> contains_any s [CHR 0x0D, CHR 0x0A]"

definition temp_name :: "string \<Rightarrow> string \<Rightarrow> bool" where
  "temp_name p name \<longleftrightarrow>
     prefix p name \<and> (let d = drop (length p) name in d \<noteq> [] \<and> list_all is_digit d \<and> decimal 0 d < 2 ^ 32)"

definition imageTransferTemp :: "string \<Rightarrow> bool" where
  "imageTransferTemp name \<longleftrightarrow> temp_name ''.nanokvm-upload-'' name \<or> temp_name ''.nanokvm-download-'' name"

text \<open>The volume descriptors from sector 16 on; \<open>None\<close> is a read past the end.\<close>

definition descriptor :: "string \<Rightarrow> nat \<Rightarrow> string option" where
  "descriptor img i = (let off = 0x8001 + i * 2048 in if off + 5 \<le> length img then Some (take 5 (drop off img)) else None)"

primrec optical_from :: "nat \<Rightarrow> nat \<Rightarrow> bool \<Rightarrow> string \<Rightarrow> bool" where
  "optical_from 0 i udf img = False"
| "optical_from (Suc n) i udf img =
     (case descriptor img i of
        None \<Rightarrow> False
      | Some d \<Rightarrow>
          if d = ''CD001'' then True
          else if d = ''BEA01'' then optical_from n (Suc i) True img
          else if d = ''NSR02'' \<or> d = ''NSR03'' then udf
          else if d = ''BOOT2'' \<or> d = ''CDW02'' then optical_from n (Suc i) udf img
          else False)"

definition opticalImage :: "string \<Rightarrow> bool" where
  "opticalImage img = optical_from 32 0 False img"

definition validateUploadedImage :: "string \<Rightarrow> string \<Rightarrow> bool" where
  "validateUploadedImage img name =
     (if suffix ''.img'' (to_lower name) then length img \<ge> 512 \<and> length img mod 512 = 0 else opticalImage img)"

section \<open>Space\<close>

definition imageFreeReserve :: "64 word" where "imageFreeReserve = 134217728"

text \<open>The blocks available times their size, in 64 bits; \<open>None\<close> is not enough space.\<close>

definition fileImageBudget :: "64 word \<Rightarrow> 64 word \<Rightarrow> int option" where
  "fileImageBudget bavail bsize =
     (let available = bavail * bsize in
      if available \<le> imageFreeReserve then None
      else Some (min (uint (available - imageFreeReserve)) (2 ^ 63 - 2)))"

text \<open>
  \<open>io.Copy\<close> through the writer with a budget: the chunks the source gives and whether it ends without an
  error; \<open>wr i\<close> is \<open>Some k\<close> if the write of chunk \<open>i\<close> fails after \<open>k\<close> bytes.
\<close>

fun copy_within :: "(nat \<Rightarrow> nat option) \<Rightarrow> nat \<Rightarrow> nat \<Rightarrow> string list \<Rightarrow> bool \<Rightarrow> string \<Rightarrow> transfer_error option \<times> string" where
  "copy_within wr i left [] ok out = (if ok then None else Some ErrRead, out)"
| "copy_within wr i left (c # cs) ok out =
     (let p = take left c in
      case wr i of
        Some k \<Rightarrow> (Some ErrWrite, out @ take k p)
      | None \<Rightarrow> if length c > left then (Some ErrSpace, out @ p)
                else copy_within wr (Suc i) (left - length c) cs ok (out @ p))"

definition copyImage ::
    "(string \<Rightarrow> string) \<Rightarrow> (nat \<Rightarrow> nat option) \<Rightarrow> nat \<Rightarrow> string list \<Rightarrow> bool \<Rightarrow> string option \<Rightarrow> transfer_error option \<times> string" where
  "copyImage sha wr left cs ok expected =
     (case copy_within wr 0 left cs ok [] of
        (Some e, out) \<Rightarrow> (Some e, out)
      | (None, out) \<Rightarrow>
          (case expected of
             None \<Rightarrow> (None, out)
           | Some h \<Rightarrow> (if sha out \<noteq> h then Some ErrSHA256Mismatch else None, out)))"

section \<open>The guard\<close>

datatype stat_result = Absent | StatErr | Inode nat

datatype read_result = Missing | ReadErr | Content string

text \<open>
  The LUNs of the storage function with the file each presents (\<open>None\<close> when the directory cannot be read,
  an empty list when there is none), the boot markers, and the inodes of paths.
\<close>

record media =
  md_luns :: "read_result list option"
  md_markers :: "read_result list"
  md_stat :: "string \<Rightarrow> stat_result"

definition differentImage :: "media \<Rightarrow> string \<Rightarrow> string \<Rightarrow> bool" where
  "differentImage M path backing =
     (if backing = [] then True
      else if to_lower (path_Clean path) = to_lower (path_Clean backing) then False
      else case md_stat M path of
        Absent \<Rightarrow> True
      | StatErr \<Rightarrow> False
      | Inode a \<Rightarrow> (case md_stat M backing of Absent \<Rightarrow> True | StatErr \<Rightarrow> False | Inode b \<Rightarrow> a \<noteq> b))"

definition imageUnused :: "media \<Rightarrow> string \<Rightarrow> bool" where
  "imageUnused M path =
     (case md_luns M of
        None \<Rightarrow> False
      | Some ls \<Rightarrow>
          list_all (\<lambda>l. case l of Content d \<Rightarrow> differentImage M path (trim_space d) | _ \<Rightarrow> False) ls \<and>
          list_all (\<lambda>m. case m of Content d \<Rightarrow> differentImage M path (trim_space d) | Missing \<Rightarrow> True | ReadErr \<Rightarrow> False) (md_markers M))"

definition imageDirectory :: string where "imageDirectory = ''/data''"

definition JoinWithin :: "string \<Rightarrow> string \<Rightarrow> string option" where
  "JoinWithin dir name =
     (let d = path_Clean dir; p = path_Clean (path_Clean (d @ ''/'' @ name)) in if prefix (d @ ''/'') p then Some p else None)"

text \<open>The path the image is published under; the rename itself may fail.\<close>

definition installImage :: "media \<Rightarrow> bool \<Rightarrow> string \<Rightarrow> transfer_error + string" where
  "installImage M renamed filename =
     (if \<not> validateRemoteImageFilename filename then Inl ErrName
      else case JoinWithin imageDirectory filename of
        None \<Rightarrow> Inl ErrName
      | Some p \<Rightarrow> if \<not> imageUnused M p then Inl ErrInUse else if \<not> renamed then Inl ErrWrite else Inr p)"

section \<open>Uploads\<close>

record upload_part =
  up_form :: string
  up_filename :: string
  up_chunks :: "string list"
  up_ok :: bool

text \<open>What the disk answers during an upload.\<close>

record upload_env =
  ue_dir :: bool
  ue_budget :: "int option"
  ue_multipart :: bool
  ue_temp :: bool
  ue_budget2 :: "int option"
  ue_write :: "nat \<Rightarrow> nat option"
  ue_close :: bool
  ue_media :: media
  ue_rename :: bool

text \<open>The state the transfer ends in, and what it published.\<close>

type_synonym transfer_result = "downloadStatus \<times> (string \<times> string) option"

definition upload_part_file :: "(string \<Rightarrow> string) \<Rightarrow> upload_env \<Rightarrow> string option \<Rightarrow> upload_part \<Rightarrow> transfer_result" where
  "upload_part_file sha E expected p =
     (if \<not> validateRemoteImageFilename (up_filename p) \<or> \<not> ue_temp E then (DlFailed, None)
      else case ue_budget2 E of
        None \<Rightarrow> (DlFailed, None)
      | Some b \<Rightarrow>
          (case copyImage sha (ue_write E) (nat b) (up_chunks p) (up_ok p) expected of
             (Some ErrSHA256Mismatch, _) \<Rightarrow> (ChecksumFailed, None)
           | (Some _, _) \<Rightarrow> (DlFailed, None)
           | (None, img) \<Rightarrow>
               if \<not> ue_close E \<or> \<not> validateUploadedImage img (up_filename p) then (DlFailed, None)
               else case installImage (ue_media E) (ue_rename E) (up_filename p) of
                 Inl _ \<Rightarrow> (DlFailed, None)
               | Inr path \<Rightarrow> (Idle, Some (path, img))))"

text \<open>The parts of the form until the end or the first error, which end the upload alike.\<close>

fun upload_parts :: "(string \<Rightarrow> string) \<Rightarrow> upload_env \<Rightarrow> string option \<Rightarrow> upload_part list \<Rightarrow> transfer_result" where
  "upload_parts sha E expected [] = (DlFailed, None)"
| "upload_parts sha E expected (p # ps) =
     (if up_form p \<noteq> ''file'' then upload_parts sha E expected ps else upload_part_file sha E expected p)"

text \<open>The body of \<open>DownloadImageFile\<close> after the transfer has begun.\<close>

definition upload :: "(string \<Rightarrow> string) \<Rightarrow> upload_env \<Rightarrow> string option \<Rightarrow> int \<Rightarrow> upload_part list \<Rightarrow> transfer_result" where
  "upload sha E expected contentLength parts =
     (if \<not> ue_dir E then (DlFailed, None)
      else case ue_budget E of
        None \<Rightarrow> (DlFailed, None)
      | Some b \<Rightarrow>
          if contentLength > (if b < (2 ^ 63 - 1) - 65536 then b + 65536 else b) then (DlFailed, None)
          else if \<not> ue_multipart E then (DlFailed, None)
          else upload_parts sha E expected parts)"

section \<open>Downloads\<close>









record imageResume =
  ir_URL :: string
  ir_Path :: string
  ir_Filename :: string
  ir_SHA256 :: string
  ir_ETag :: string
  ir_Total :: int









text \<open>\<open>url_ok\<close> is the check of the parsed address, which is library code.\<close>

definition loadImageResume :: "(string \<Rightarrow> bool) \<Rightarrow> imageResume \<Rightarrow> transfer_error option" where
  "loadImageResume url_ok job =
     (if \<not> url_ok (ir_URL job) then Some ErrURL
      else if \<not> prefix (imageDirectory @ ''/'') (ir_Path job) \<or> CHR ''/'' \<in> set (drop (length imageDirectory + 1) (ir_Path job)) \<or>
        \<not> prefix ''.nanokvm-download-'' (path_base (ir_Path job)) \<or> \<not> imageTransferTemp (path_base (ir_Path job)) \<or>
        path_Clean (ir_Path job) \<noteq> ir_Path job then Some ErrPath
      else if \<not> validateRemoteImageFilename (ir_Filename job) then Some ErrName
      else case parseSHA256 (ir_SHA256 job) of
        Inl e \<Rightarrow> Some e
      | Inr _ \<Rightarrow> if \<not> strongETag (ir_ETag job) \<or> ir_Total job \<le> 0 then Some ErrValidator else None)"



text \<open>
  The clean-up at the start: the path of the partial file that will be continued, with the size of the file there
  (\<open>None\<close> if there is no regular file), and the entries of the image directory with whether each is a regular file.
  \<open>removed\<close> is whether a removal works.
\<close>

definition kept_partial :: "(string \<Rightarrow> bool) \<Rightarrow> imageResume option \<Rightarrow> int option \<Rightarrow> string" where
  "kept_partial url_ok job sz =
     (case (job, sz) of
        (Some j, Some n) \<Rightarrow> if loadImageResume url_ok j = None \<and> n > 0 \<and> n < ir_Total j then ir_Path j else []
      | _ \<Rightarrow> [])"

definition cleanupImageTransfers :: "media \<Rightarrow> string \<Rightarrow> (string \<times> bool) list \<Rightarrow> (string \<Rightarrow> bool) \<Rightarrow> string list" where
  "cleanupImageTransfers M keep entries removed =
     filter (\<lambda>path. path \<noteq> keep \<and> imageUnused M path \<and> removed path)
       (map (\<lambda>(name, regular). imageDirectory @ ''/'' @ name) (filter (\<lambda>(name, regular). imageTransferTemp name \<and> regular) entries))"

section \<open>The one transfer\<close>

text \<open>
  The service's record of its transfer. \<open>dl_done\<close> is the channel of the transfer that runs, a number here;
  \<open>dl_sentinel\<close> is the file other programs look for.
\<close>

record Service =
  dl_done :: "nat option"
  dl_status :: downloadStatus
  dl_file :: string
  dl_progress :: "int \<times> int"
  dl_sentinel :: bool

text \<open>\<open>opened\<close> and \<open>closed\<close> are whether the sentinel could be created and closed.\<close>

definition beginDownload :: "nat \<Rightarrow> string \<Rightarrow> bool \<Rightarrow> bool \<Rightarrow> Service \<Rightarrow> bool \<times> Service" where
  "beginDownload done file opened closed s =
     (if dl_done s \<noteq> None \<or> dl_sentinel s \<or> \<not> opened then (False, s)
      else if \<not> closed then (False, s)
      else (True, \<lparr>dl_done = Some done, dl_status = InProgress, dl_file = file, dl_progress = (0, 0), dl_sentinel = True\<rparr>))"

definition setDownloadFile :: "nat \<Rightarrow> string \<Rightarrow> Service \<Rightarrow> Service" where
  "setDownloadFile done file s = (if dl_done s = Some done then s\<lparr>dl_file := file\<rparr> else s)"

definition setDownloadProgress :: "nat \<Rightarrow> int \<times> int \<Rightarrow> Service \<Rightarrow> Service" where
  "setDownloadProgress done p s = (if dl_done s = Some done then s\<lparr>dl_progress := p\<rparr> else s)"

definition finishDownload :: "nat \<Rightarrow> downloadStatus \<Rightarrow> Service \<Rightarrow> Service" where
  "finishDownload done st s =
     (if dl_done s \<noteq> Some done then s
      else \<lparr>dl_done = None, dl_status = st, dl_file = [], dl_progress = (0, 0), dl_sentinel = False\<rparr>)"

definition NewService :: Service where
  "NewService = \<lparr>dl_done = None, dl_status = Idle, dl_file = [], dl_progress = (0, 0), dl_sentinel = False\<rparr>"

text \<open>The service with the workers that run, by their channels; channels are never used twice.\<close>

record dl_sys =
  ds_service :: Service
  ds_workers :: "nat set"
  ds_next :: nat

inductive dl_step :: "dl_sys \<Rightarrow> dl_sys \<Rightarrow> bool" where
  begins: "beginDownload (ds_next s) file opened closed (ds_service s) = (True, v) \<Longrightarrow>
     dl_step s (s\<lparr>ds_service := v, ds_workers := insert (ds_next s) (ds_workers s), ds_next := Suc (ds_next s)\<rparr>)"
| refused: "beginDownload (ds_next s) file opened closed (ds_service s) = (False, v) \<Longrightarrow>
     dl_step s (s\<lparr>ds_service := v, ds_next := Suc (ds_next s)\<rparr>)"
| names: "w \<in> ds_workers s \<Longrightarrow> dl_step s (s\<lparr>ds_service := setDownloadFile w file (ds_service s)\<rparr>)"
| reports: "w \<in> ds_workers s \<Longrightarrow> dl_step s (s\<lparr>ds_service := setDownloadProgress w p (ds_service s)\<rparr>)"
| finishes: "w \<in> ds_workers s \<Longrightarrow> st \<noteq> InProgress \<Longrightarrow>
     dl_step s (s\<lparr>ds_service := finishDownload w st (ds_service s), ds_workers := ds_workers s - {w}\<rparr>)"

definition dl_init :: "dl_sys \<Rightarrow> bool" where
  "dl_init s \<longleftrightarrow> ds_service s = NewService \<and> ds_workers s = {}"

definition dl_ok :: "dl_sys \<Rightarrow> bool" where
  "dl_ok s \<longleftrightarrow>
     (case dl_done (ds_service s) of
        None \<Rightarrow> ds_workers s = {} \<and> dl_status (ds_service s) \<noteq> InProgress \<and> \<not> dl_sentinel (ds_service s) \<and> dl_file (ds_service s) = []
      | Some w \<Rightarrow> ds_workers s = {w} \<and> dl_status (ds_service s) = InProgress \<and> dl_sentinel (ds_service s))"

section \<open>Concrete values\<close>








section \<open>Lemmas\<close>















text \<open>The service.\<close>

lemma dl_step_ok: "dl_step s t \<Longrightarrow> dl_ok s \<Longrightarrow> dl_ok t"
  by (induction rule: dl_step.induct)
    (auto simp: dl_ok_def beginDownload_def setDownloadFile_def setDownloadProgress_def finishDownload_def split: if_splits option.splits)

interpretation transfers: invariant_system dl_init dl_step dl_ok
proof unfold_locales
  show "dl_init s \<Longrightarrow> dl_ok s" for s by (simp add: dl_init_def dl_ok_def NewService_def)
qed (rule dl_step_ok)


text \<open>The clean-up leaves the partial file that can be continued, everything a drive presents and every file that is not a transfer's.\<close>

lemma cleanup_spares:
  assumes "p \<in> set (cleanupImageTransfers M (kept_partial url_ok job sz) entries removed)"
  shows "\<exists>n. p = ''/data/'' @ n \<and> imageTransferTemp n" and "imageUnused M p"
    and "job = Some j \<Longrightarrow> loadImageResume url_ok j = None \<Longrightarrow> sz = Some n \<Longrightarrow> n > 0 \<Longrightarrow> n < ir_Total j \<Longrightarrow> p \<noteq> ir_Path j"
  using assms by (auto simp: cleanupImageTransfers_def kept_partial_def imageDirectory_def)

lemma temp_name_split: "temp_name p n \<Longrightarrow> \<exists>d. n = p @ d \<and> d \<noteq> [] \<and> list_all is_digit d"
  by (auto simp: temp_name_def prefix_def Let_def)

lemma temp_is_no_image: "imageTransferTemp n \<Longrightarrow> \<not> validateRemoteImageFilename n"
proof
  assume t: "imageTransferTemp n" and v: "validateRemoteImageFilename n"
  from t obtain p d where d: "n = p @ d" "d \<noteq> []" "list_all is_digit d"
    unfolding imageTransferTemp_def by (blast dest: temp_name_split)
  from v have "\<exists>x. suffix (x @ [CHR ''o'']) (to_lower n) \<or> suffix (x @ [CHR ''g'']) (to_lower n)"
    by (auto simp: validateRemoteImageFilename_def validateImageFilename_def intro: exI [of _ "''.is''"] exI [of _ "''.im''"])
  then have "last (to_lower n) \<in> {CHR ''o'', CHR ''g''}" by (auto simp: suffix_def)
  moreover have "is_digit (last n)" using d by (simp add: list_all_iff)
  ultimately show False using d(1,2) by (auto simp: to_lower_def last_map is_digit_def lower_char_def split: if_splits)
qed

section \<open>Properties\<close>





text \<open>
  There is never more than one image transfer: the service says that one is in progress exactly while a worker
  runs, the file other programs look for exists exactly then, and no other worker can change what is shown.
\<close>

theorem one_image_transfer:
  assumes "reachable dl_init dl_step s"
  shows "(dl_status (ds_service s) = InProgress \<longleftrightarrow> (\<exists>w. ds_workers s = {w} \<and> dl_done (ds_service s) = Some w)) \<and>
     (dl_sentinel (ds_service s) \<longleftrightarrow> ds_workers s \<noteq> {}) \<and> (\<forall>v w. v \<in> ds_workers s \<and> w \<in> ds_workers s \<longrightarrow> v = w)"
  using transfers.reachable_inv [OF assms] by (auto simp: dl_ok_def split: option.splits)

theorem one_image_transfer_witness:
  "\<exists>s. reachable dl_init dl_step s \<and> dl_status (ds_service s) = InProgress \<and> dl_sentinel (ds_service s) \<and> ds_workers s = {0}"
proof -
  let ?v = "\<lparr>dl_done = Some 0, dl_status = InProgress, dl_file = ''a.img'', dl_progress = (0, 0), dl_sentinel = True\<rparr>"
  let ?s = "\<lparr>ds_service = NewService, ds_workers = {}, ds_next = 0\<rparr>"
  have "dl_step ?s (?s\<lparr>ds_service := ?v, ds_workers := insert (ds_next ?s) (ds_workers ?s), ds_next := Suc (ds_next ?s)\<rparr>)"
    by (rule dl_step.begins [of _ "''a.img''" True True]) (simp add: beginDownload_def NewService_def)
  then have "reachable dl_init dl_step \<lparr>ds_service = ?v, ds_workers = {0}, ds_next = 1\<rparr>"
    using reachable.more [OF reachable.start, of dl_init ?s dl_step] by (simp add: dl_init_def)
  from this one_image_transfer [OF this] show ?thesis by (intro exI [of _ "\<lparr>ds_service = ?v, ds_workers = {0}, ds_next = 1\<rparr>"]) auto
qed

end
