(* ===== verification/Bit_Stream.thy ===== *)
theory Bit_Stream
  imports Prelude "HOL-Library.State_Monad" "HOL-Library.Sublist"
begin

text \<open>
  Bits inside the parameter sets of a video stream: the bit reader and the bit writer of
  \<open>service/stream/hevc_parameter_sets.go\<close> with their Exp-Golomb codes, the escape bytes of a NAL unit, and the
  search for start codes of \<open>internal/annexb\<close>. The reader is the state of a monad, as the source passes one
  reader through every call; a byte is an \<open>8 word\<close> and the numbers read are 32 bits wide.
\<close>

unbundle bit_operations_syntax

section \<open>The reader\<close>

record bitReader =
  br_data :: bytes
  br_pos :: nat
  br_failed :: bool

type_synonym 'a reading = "(bitReader, 'a) state"

definition bit_at :: "bytes \<Rightarrow> nat \<Rightarrow> 32 word" where
  "bit_at d p = and (ucast (drop_bit (7 - p mod 8) (d ! (p div 8)))) 1"

definition read_bit :: "32 word reading" where
  "read_bit = State (\<lambda>r.
     if br_pos r \<ge> length (br_data r) * 8 then (0, r\<lparr>br_failed := True\<rparr>)
     else (bit_at (br_data r) (br_pos r), r\<lparr>br_pos := br_pos r + 1\<rparr>))"

primrec read_bits_from :: "32 word \<Rightarrow> nat \<Rightarrow> 32 word reading" where
  "read_bits_from v 0 = State_Monad.return v"
| "read_bits_from v (Suc n) = do { b \<leftarrow> read_bit; read_bits_from (or (push_bit 1 v) b) n }"

definition read_bits :: "nat \<Rightarrow> 32 word reading" where
  "read_bits n = read_bits_from 0 n"

definition skip :: "nat \<Rightarrow> unit reading" where
  "skip n = State (\<lambda>r.
     let p = br_pos r + n in ((), r\<lparr>br_pos := p, br_failed := br_failed r \<or> p > length (br_data r) * 8\<rparr>))"

definition failed :: "bool reading" where
  "failed = State (\<lambda>r. (br_failed r, r))"

definition position :: "nat reading" where
  "position = State (\<lambda>r. (br_pos r, r))"

definition fail :: "unit reading" where
  "fail = State (\<lambda>r. ((), r\<lparr>br_failed := True\<rparr>))"

text \<open>The zeros before the one, of which there may be \<open>k\<close> more; \<open>None\<close> is a failure.\<close>

primrec ue_zeros :: "nat \<Rightarrow> nat \<Rightarrow> nat option reading" where
  "ue_zeros zeros 0 = do { b \<leftarrow> read_bit; if b = 0 then do { fail; State_Monad.return None } else State_Monad.return (Some zeros) }"
| "ue_zeros zeros (Suc k) =
     do { b \<leftarrow> read_bit; f \<leftarrow> failed;
          if b = 0 then (if f then do { fail; State_Monad.return None } else ue_zeros (Suc zeros) k)
          else State_Monad.return (Some zeros) }"

definition read_ue :: "32 word reading" where
  "read_ue =
     do { z \<leftarrow> ue_zeros 0 31;
          case z of None \<Rightarrow> State_Monad.return 0
          | Some zeros \<Rightarrow> do { v \<leftarrow> read_bits zeros; State_Monad.return ((push_bit zeros 1 - 1) + v) } }"

text \<open>The signed code; only its length matters to the callers, who drop the number.\<close>

definition read_se :: "32 word reading" where
  "read_se =
     do { v \<leftarrow> read_ue;
          State_Monad.return (if and v 1 = 1 then word_of_int (let x = sint (v + 1) in sgn x * (\<bar>x\<bar> div 2)) else - (v div 2)) }"

text \<open>\<open>lastSetBit\<close>: the position of the last one, \<open>None\<close> for \<open>-1\<close>.\<close>

primrec lowest_bit :: "8 word \<Rightarrow> nat \<Rightarrow> nat \<Rightarrow> nat option" where
  "lowest_bit x 0 i = None"
| "lowest_bit x (Suc k) i = (if and x (push_bit i 1) \<noteq> 0 then Some i else lowest_bit x k (Suc i))"

primrec last_set_from :: "bytes \<Rightarrow> nat \<Rightarrow> nat option" where
  "last_set_from b 0 = None"
| "last_set_from b (Suc i) =
     (if b ! i \<noteq> 0 then (case lowest_bit (b ! i) 8 0 of Some k \<Rightarrow> Some (i * 8 + 7 - k) | None \<Rightarrow> last_set_from b i)
      else last_set_from b i)"

definition lastSetBit :: "bytes \<Rightarrow> nat option" where
  "lastSetBit b = last_set_from b (length b)"

section \<open>The writer\<close>

record bitWriter =
  bw_data :: bytes
  bw_n :: nat

definition new_writer :: bitWriter where
  "new_writer = \<lparr>bw_data = [], bw_n = 0\<rparr>"

definition put_bit :: "bool \<Rightarrow> bitWriter \<Rightarrow> bitWriter" where
  "put_bit b w =
     (let d = (if bw_n w mod 8 = 0 then bw_data w @ [0] else bw_data w);
          i = bw_n w div 8
      in \<lparr>bw_data = (if b then d[i := or (d ! i) (push_bit (7 - bw_n w mod 8) 1)] else d), bw_n = bw_n w + 1\<rparr>)"

primrec put :: "32 word \<Rightarrow> nat \<Rightarrow> bitWriter \<Rightarrow> bitWriter" where
  "put v 0 w = w"
| "put v (Suc i) w = put v i (put_bit (and (drop_bit i v) 1 = 1) w)"

text \<open>How often a number can be halved before it is at most one.\<close>

function halvings :: "32 word \<Rightarrow> nat" where
  "halvings x = (if x > 1 then Suc (halvings (drop_bit 1 x)) else 0)"
  by auto
termination
proof (relation "measure unat")
  show "(drop_bit 1 x, x) \<in> measure unat" if "x > 1" for x :: "32 word"
    using that by (simp add: drop_bit_eq_div word_less_nat_alt unat_div)
qed simp

declare halvings.simps [simp del]

definition put_ue :: "32 word \<Rightarrow> bitWriter \<Rightarrow> bitWriter" where
  "put_ue v w = (let v = v + 1; n = halvings v in put v (n + 1) (put 0 n w))"

primrec copy_bits :: "bytes \<Rightarrow> nat \<Rightarrow> nat \<Rightarrow> bitWriter \<Rightarrow> bitWriter" where
  "copy_bits src from 0 w = w"
| "copy_bits src from (Suc k) w = copy_bits src (Suc from) k (put (bit_at src from) 1 w)"

definition copyBits :: "bytes \<Rightarrow> nat \<Rightarrow> nat \<Rightarrow> bitWriter \<Rightarrow> bitWriter" where
  "copyBits src from to w = copy_bits src from (to - from) w"

section \<open>Escape bytes and start codes\<close>

primrec unescape_from :: "nat \<Rightarrow> bytes \<Rightarrow> bytes" where
  "unescape_from zeros [] = []"
| "unescape_from zeros (x # xs) =
     (if zeros \<ge> 2 \<and> x = 3 then unescape_from 0 xs else x # unescape_from (if x = 0 then Suc zeros else 0) xs)"

definition hevcUnescape :: "bytes \<Rightarrow> bytes" where
  "hevcUnescape b = unescape_from 0 b"

primrec escape_from :: "nat \<Rightarrow> bytes \<Rightarrow> bytes" where
  "escape_from zeros [] = []"
| "escape_from zeros (x # xs) =
     (if zeros \<ge> 2 \<and> x \<le> 3 then 3 # x # escape_from (if x = 0 then 1 else 0) xs
      else x # escape_from (if x = 0 then Suc zeros else 0) xs)"

definition hevcEscape :: "bytes \<Rightarrow> bytes" where
  "hevcEscape b = escape_from 0 b"

text \<open>\<open>annexb.Index\<close>: the first start code, \<open>None\<close> for \<open>-1\<close>.\<close>

fun annexb_index :: "bytes \<Rightarrow> nat option" where
  "annexb_index [] = None"
| "annexb_index (x # xs) = (if prefix [0, 0, 1] (x # xs) then Some 0 else map_option Suc (annexb_index xs))"

section \<open>Bits\<close>

text \<open>The bits of a byte and of a word of \<open>n\<close> bits, the highest first.\<close>

definition word_bits :: "'a::len word \<Rightarrow> nat \<Rightarrow> bool list" where
  "word_bits v n = map (\<lambda>i. bit v (n - 1 - i)) [0..<n]"

definition bits :: "bytes \<Rightarrow> bool list" where
  "bits d = concat (map (\<lambda>b. word_bits b 8) d)"

text \<open>A writer is the list of the bits written to it, as long as the rest of its last byte is zero.\<close>

definition written :: "bitWriter \<Rightarrow> bool list" where
  "written w = take (bw_n w) (bits (bw_data w))"

definition writer_ok :: "bitWriter \<Rightarrow> bool" where
  "writer_ok w \<longleftrightarrow> length (bw_data w) = (bw_n w + 7) div 8 \<and> list_all Not (drop (bw_n w) (bits (bw_data w)))"

text \<open>The Exp-Golomb code of a number.\<close>

definition ue_code :: "32 word \<Rightarrow> bool list" where
  "ue_code v = replicate (halvings (v + 1)) False @ word_bits (v + 1) (halvings (v + 1) + 1)"

text \<open>
  What every program over the reader does: it leaves the data alone, moves forward, never takes back a failure
  and, while it has not failed, is within the data and depends on no bit behind its position.
\<close>

definition reads :: "'a reading \<Rightarrow> bool" where
  "reads m \<longleftrightarrow> (\<forall>r a r'. run_state m r = (a, r') \<longrightarrow>
     br_data r' = br_data r \<and> br_pos r \<le> br_pos r' \<and> (br_failed r \<longrightarrow> br_failed r') \<and>
     (\<not> br_failed r' \<longrightarrow> br_pos r \<le> length (br_data r) * 8 \<longrightarrow> br_pos r' \<le> length (br_data r) * 8 \<and>
        (\<forall>d. br_pos r' \<le> length d * 8 \<and> take (br_pos r') (bits d) = take (br_pos r') (bits (br_data r)) \<longrightarrow>
          run_state m (r\<lparr>br_data := d\<rparr>) = (a, r'\<lparr>br_data := d\<rparr>))))"

named_theorems reads_intros \<open>programs over the bit reader\<close>

text \<open>A NAL unit that contains no start code, nor the beginning of one at its end.\<close>

definition closed_nal :: "bytes \<Rightarrow> bool" where
  "closed_nal n \<longleftrightarrow> annexb_index n = None \<and> (n = [] \<or> last n \<noteq> 0)"

section \<open>Lemmas\<close>

lemma length_word_bits [simp]: "length (word_bits v n) = n"
  by (simp add: word_bits_def)

lemma word_bits_nth: "i < n \<Longrightarrow> word_bits v n ! i = bit v (n - 1 - i)"
  by (simp add: word_bits_def)

lemma word_bits_Suc: "word_bits v (Suc n) = bit v n # word_bits v n"
proof (rule nth_equalityI)
  show "word_bits v (Suc n) ! i = (bit v n # word_bits v n) ! i" if "i < length (word_bits v (Suc n))" for i
    using that by (cases i) (auto simp: word_bits_nth)
qed simp

lemma word_bits_0 [simp]: "word_bits v 0 = []"
  by (simp add: word_bits_def)

lemma bits_Nil [simp]: "bits [] = []"
  and bits_Cons [simp]: "bits (b # d) = word_bits b 8 @ bits d"
  and bits_append [simp]: "bits (d @ e) = bits d @ bits e"
  by (simp_all add: bits_def)

lemma length_bits [simp]: "length (bits d) = length d * 8"
  by (induction d) simp_all

lemma bits_nth: "p < length d * 8 \<Longrightarrow> bits d ! p = bit (d ! (p div 8)) (7 - p mod 8)"
proof (induction d arbitrary: p)
  case (Cons b d)
  show ?case
  proof (cases "p < 8")
    case True
    then show ?thesis by (simp add: nth_append word_bits_nth)
  next
    case False
    then have "bits d ! (p - 8) = bit (d ! ((p - 8) div 8)) (7 - (p - 8) mod 8)" using Cons by (intro Cons.IH) simp
    moreover have "p div 8 = Suc ((p - 8) div 8)" "p mod 8 = (p - 8) mod 8" using False by (simp_all add: le_div_geq le_mod_geq)
    ultimately show ?thesis using False by (simp add: nth_append)
  qed
qed simp

lemma bit_at_bits: "p < length d * 8 \<Longrightarrow> bit_at d p = of_bool (bits d ! p)"
proof -
  assume p: "p < length d * 8"
  have "bit_at d p = of_bool (bit (d ! (p div 8)) (7 - p mod 8))"
    unfolding bit_at_def by (rule bit_word_eqI) (auto simp: bit_simps)
  then show ?thesis by (simp add: bits_nth [OF p])
qed

text \<open>The writer.\<close>

lemma bits_update:
  assumes "i < length d" and "k < 8" and "\<not> bits d ! (i * 8 + k)"
  shows "bits (d[i := or (d ! i) (push_bit (7 - k) 1)]) = (bits d)[i * 8 + k := True]"
proof (rule nth_equalityI)
  show "length (bits (d[i := or (d ! i) (push_bit (7 - k) 1)])) = length ((bits d)[i * 8 + k := True])" by simp
  fix p assume "p < length (bits (d[i := or (d ! i) (push_bit (7 - k) 1)]))"
  then have p: "p < length d * 8" by simp
  show "bits (d[i := or (d ! i) (push_bit (7 - k) 1)]) ! p = (bits d)[i * 8 + k := True] ! p"
  proof (cases "p div 8 = i")
    case True
    then have "p = i * 8 + p mod 8" by (metis div_mult_mod_eq)
    moreover have "p mod 8 < 8" by simp
    ultimately have e: "p = i * 8 + k \<longleftrightarrow> p mod 8 = k" "7 - p mod 8 = 7 - k \<longleftrightarrow> p mod 8 = k" using assms(2) by linarith+
    have "bits (d[i := or (d ! i) (push_bit (7 - k) 1)]) ! p = bit (or (d ! i) (push_bit (7 - k) 1)) (7 - p mod 8)"
      using p True assms(1) by (subst bits_nth) auto
    also have "\<dots> \<longleftrightarrow> bit (d ! i) (7 - p mod 8) \<or> p mod 8 = k" using e(2) by (auto simp: bit_simps)
    also have "\<dots> \<longleftrightarrow> (bits d)[i * 8 + k := True] ! p" using p True e(1) by (auto simp: bits_nth nth_list_update)
    finally show ?thesis by blast
  next
    case False
    then have "p \<noteq> i * 8 + k" using assms(2) by auto
    then show ?thesis using p False by (simp add: bits_nth nth_list_update)
  qed
qed

lemma zero_byte: "word_bits (0 :: 8 word) 8 = replicate 8 False"
  by (simp add: word_bits_def map_replicate_const)

lemma put_bit_ok:
  assumes "writer_ok w"
  shows "writer_ok (put_bit b w)" and "written (put_bit b w) = written w @ [b]" and "bw_n (put_bit b w) = Suc (bw_n w)"
proof -
  define n where "n = bw_n w"
  define d where "d = (if n mod 8 = 0 then bw_data w @ [0] else bw_data w)"
  have len: "length (bw_data w) = (n + 7) div 8" and z: "list_all Not (drop n (bits (bw_data w)))"
    using assms by (simp_all add: writer_ok_def n_def)
  have n8: "n = n div 8 * 8 + n mod 8" and m8: "n mod 8 < 8" by simp_all
  have seven: "(n + 7) div 8 = n div 8 + of_bool (n mod 8 \<noteq> 0)"
  proof -
    have "(n + 7) div 8 = (n div 8 * 8 + (n mod 8 + 7)) div 8" using n8 by simp
    also have "\<dots> = n div 8 + (n mod 8 + 7) div 8" by (simp only: div_mult_self3 [of 8, simplified] add.commute)
    also have "(n mod 8 + 7) div 8 = of_bool (n mod 8 \<noteq> 0)" using m8 by (intro div_nat_eqI) auto
    finally show ?thesis .
  qed
  have ld: "length d = n div 8 + 1"
    using len seven by (simp add: d_def)
  have td: "take n (bits d) = written w \<and> list_all Not (drop n (bits d))"
  proof (cases "n mod 8 = 0")
    case True
    then have "length (bw_data w) * 8 = n" using len seven n8 by simp
    then show ?thesis using True z by (simp add: d_def written_def n_def [symmetric] zero_byte list_all_iff)
  next
    case False
    then show ?thesis using z by (simp add: d_def written_def n_def [symmetric])
  qed
  have nl: "n < length (bits d)" using ld n8 m8 by simp
  have nb: "\<not> bits d ! n" using td nl by (auto simp: list_all_iff Cons_nth_drop_Suc [symmetric])
  define e where "e = (if b then d[n div 8 := or (d ! (n div 8)) (push_bit (7 - n mod 8) 1)] else d)"
  have be: "bits e = (bits d)[n := b]"
  proof (cases b)
    case True
    then show ?thesis using bits_update [of "n div 8" d "n mod 8"] ld nb n8 by (simp add: e_def)
  next
    case False
    then show ?thesis using nb list_update_id [of "bits d" n] by (simp add: e_def)
  qed
  have pw: "put_bit b w = \<lparr>bw_data = e, bw_n = n + 1\<rparr>"
    by (simp add: put_bit_def n_def [symmetric] d_def [symmetric] e_def Let_def)
  show "bw_n (put_bit b w) = Suc (bw_n w)" by (simp add: pw n_def)
  have le: "length e = length d" by (simp add: e_def)
  show "writer_ok (put_bit b w)"
    using td le ld nl by (auto simp: pw writer_ok_def be drop_update_cancel Cons_nth_drop_Suc [symmetric] list_all_iff)
  show "written (put_bit b w) = written w @ [b]"
    using td nl by (simp add: pw written_def be take_Suc_conv_app_nth)
qed

lemma put_bits_ok:
  assumes "writer_ok w" and "n \<le> 32"
  shows "writer_ok (put v n w)" and "written (put v n w) = written w @ word_bits v n"
proof -
  have "writer_ok (put v n w) \<and> written (put v n w) = written w @ word_bits v n" using assms
  proof (induction n arbitrary: w)
    case (Suc n)
    have "(and (drop_bit n v) 1 = 1) = bit v n" by (simp add: and_one_eq mod_2_eq_odd bit_iff_odd_drop_bit)
    then show ?case using Suc.IH [of "put_bit (bit v n) w"] Suc.prems put_bit_ok [OF Suc.prems(1)] by (simp add: word_bits_Suc)
  qed simp
  then show "writer_ok (put v n w)" and "written (put v n w) = written w @ word_bits v n" by blast+
qed

lemma halvings_range: "x > 0 \<Longrightarrow> 2 ^ halvings x \<le> unat x \<and> unat x < 2 * 2 ^ halvings x"
proof (induction x rule: halvings.induct)
  case (1 x)
  show ?case
  proof (cases "x > 1")
    case True
    then have u: "unat x > 1" by (simp add: word_less_nat_alt)
    have h: "unat (drop_bit 1 x) = unat x div 2" by (simp add: drop_bit_eq_div unat_div)
    then have "drop_bit 1 x > 0" using u by (simp add: word_less_nat_alt)
    from 1(1) [OF True this] h have "2 ^ halvings (drop_bit 1 x) \<le> unat x div 2" "unat x div 2 < 2 * 2 ^ halvings (drop_bit 1 x)" by simp_all
    moreover have "halvings x = Suc (halvings (drop_bit 1 x))" using True by (subst halvings.simps) simp
    ultimately show ?thesis by (simp only: power_Suc) linarith
  next
    case False
    then have "unat x = 1" using 1(2) by (simp add: word_less_nat_alt not_less)
    then show ?thesis using False by (subst (1 2) halvings.simps) simp
  qed
qed

lemma halvings_bound: "halvings x \<le> 31"
proof (cases "x > 0")
  case True
  have "unat x < 2 ^ 32" using unsigned_less [of x] by simp
  then have "2 ^ halvings x < (2 :: nat) ^ 32" using halvings_range [OF True] by linarith
  then show ?thesis using power_less_imp_less_exp [of "2 :: nat" "halvings x" 32] by simp
next
  case False
  then have "x = 0" using word_gt_0 by blast
  then show ?thesis by (subst halvings.simps) simp
qed

lemma word_bits_zero: "word_bits 0 n = replicate n False"
  by (simp add: word_bits_def map_replicate_const)

lemma put_ue_ok:
  assumes "writer_ok w"
  shows "writer_ok (put_ue v w)" and "written (put_ue v w) = written w @ ue_code v"
  using put_bits_ok [OF assms, of "halvings (v + 1)" 0] put_bits_ok [of "put 0 (halvings (v + 1)) w" "halvings (v + 1) + 1" "v + 1"]
    halvings_bound [of "v + 1"]
  by (simp_all add: put_ue_def Let_def ue_code_def word_bits_zero)

lemma copy_bits_ok:
  assumes "writer_ok w" and "from + k \<le> length src * 8"
  shows "writer_ok (copy_bits src from k w) \<and> written (copy_bits src from k w) = written w @ take k (drop from (bits src))"
  using assms
proof (induction k arbitrary: "from" w)
  case (Suc k)
  then have "from < length src * 8" by simp
  then have "word_bits (bit_at src from) 1 = [bits src ! from]" "drop from (bits src) = bits src ! from # drop (Suc from) (bits src)"
    by (simp_all add: bit_at_bits word_bits_Suc Cons_nth_drop_Suc)
  then show ?case using Suc.IH [of "put (bit_at src from) 1 w" "Suc from"] Suc.prems put_bits_ok [OF Suc.prems(1), of 1 "bit_at src from"] by simp
qed simp

lemma copyBits_ok:
  assumes "writer_ok w" and "from \<le> to" and "to \<le> length src * 8"
  shows "writer_ok (copyBits src from to w)" and "written (copyBits src from to w) = written w @ take (to - from) (drop from (bits src))"
  using copy_bits_ok [of w "from" "to - from" src] assms by (simp_all add: copyBits_def)

lemma new_writer_ok [simp]: "writer_ok new_writer" "written new_writer = []"
  by (simp_all add: new_writer_def writer_ok_def written_def)

lemmas writer_rules = put_bits_ok put_ue_ok copyBits_ok

text \<open>The reader.\<close>

lemma reads_return [reads_intros]: "reads (State_Monad.return x)"
  by (simp add: reads_def)

lemma run_bind: "run_state (m \<bind> k) r = (case run_state m r of (a, r') \<Rightarrow> run_state (k a) r')"
  by (simp add: State_Monad.bind_def)

lemma reads_bind [reads_intros]:
  assumes m: "reads m" and k: "\<And>a. reads (k a)"
  shows "reads (m \<bind> k)"
  unfolding reads_def
proof (intro allI impI)
  fix r b r'' assume run: "run_state (m \<bind> k) r = (b, r'')"
  obtain a r' where r1: "run_state m r = (a, r')" by fastforce
  then have r2: "run_state (k a) r' = (b, r'')" using run by (simp add: run_bind)
  note M = m [unfolded reads_def, rule_format, OF r1] and K = k [of a, unfolded reads_def, rule_format, OF r2]
  show "br_data r'' = br_data r \<and> br_pos r \<le> br_pos r'' \<and> (br_failed r \<longrightarrow> br_failed r'') \<and>
     (\<not> br_failed r'' \<longrightarrow> br_pos r \<le> length (br_data r) * 8 \<longrightarrow> br_pos r'' \<le> length (br_data r) * 8 \<and>
        (\<forall>d. br_pos r'' \<le> length d * 8 \<and> take (br_pos r'') (bits d) = take (br_pos r'') (bits (br_data r)) \<longrightarrow>
          run_state (m \<bind> k) (r\<lparr>br_data := d\<rparr>) = (b, r''\<lparr>br_data := d\<rparr>)))"
  proof (intro conjI impI allI)
    show "br_data r'' = br_data r" "br_pos r \<le> br_pos r''" using M K by auto
    show "br_failed r \<Longrightarrow> br_failed r''" using M K by blast
    assume nf: "\<not> br_failed r''" and p: "br_pos r \<le> length (br_data r) * 8"
    then have nf': "\<not> br_failed r'" using K by blast
    then show "br_pos r'' \<le> length (br_data r) * 8" using M K p nf by auto
    fix d assume d: "br_pos r'' \<le> length d * 8 \<and> take (br_pos r'') (bits d) = take (br_pos r'') (bits (br_data r))"
    have le: "br_pos r' \<le> br_pos r''" using K by blast
    have "take (br_pos r') (bits d) = take (br_pos r') (bits (br_data r))"
      using d le by (metis min.absorb1 take_take)
    then have "run_state m (r\<lparr>br_data := d\<rparr>) = (a, r'\<lparr>br_data := d\<rparr>)" using M nf' p d le by auto
    moreover have "run_state (k a) (r'\<lparr>br_data := d\<rparr>) = (b, r''\<lparr>br_data := d\<rparr>)" using M K nf nf' p d by auto
    ultimately show "run_state (m \<bind> k) (r\<lparr>br_data := d\<rparr>) = (b, r''\<lparr>br_data := d\<rparr>)" by (simp add: run_bind)
  qed
qed

lemma reads_read_bit [reads_intros]: "reads read_bit"
  unfolding reads_def
proof (intro allI impI)
  fix r a r' assume run: "run_state read_bit r = (a, r')"
  show "br_data r' = br_data r \<and> br_pos r \<le> br_pos r' \<and> (br_failed r \<longrightarrow> br_failed r') \<and>
     (\<not> br_failed r' \<longrightarrow> br_pos r \<le> length (br_data r) * 8 \<longrightarrow> br_pos r' \<le> length (br_data r) * 8 \<and>
        (\<forall>d. br_pos r' \<le> length d * 8 \<and> take (br_pos r') (bits d) = take (br_pos r') (bits (br_data r)) \<longrightarrow>
          run_state read_bit (r\<lparr>br_data := d\<rparr>) = (a, r'\<lparr>br_data := d\<rparr>)))"
  proof (cases "br_pos r \<ge> length (br_data r) * 8")
    case True
    then show ?thesis using run by (auto simp: read_bit_def)
  next
    case False
    then have eq: "a = bit_at (br_data r) (br_pos r)" "r' = r\<lparr>br_pos := br_pos r + 1\<rparr>" using run by (auto simp: read_bit_def)
    have "run_state read_bit (r\<lparr>br_data := d\<rparr>) = (a, r'\<lparr>br_data := d\<rparr>)"
      if "br_pos r' \<le> length d * 8" and t: "take (br_pos r') (bits d) = take (br_pos r') (bits (br_data r))" for d
    proof -
      have lt: "br_pos r < length d * 8" using that(1) eq(2) by simp
      have "bits d ! br_pos r = bits (br_data r) ! br_pos r"
        using arg_cong [OF t, of "\<lambda>x. x ! br_pos r"] eq(2) by simp
      then have "bit_at d (br_pos r) = a" using eq(1) lt False by (simp add: bit_at_bits)
      then show ?thesis using lt eq(2) by (simp add: read_bit_def)
    qed
    then show ?thesis using eq(2) False by auto
  qed
qed

lemma reads_skip [reads_intros]: "reads (skip n)"
  by (auto simp: reads_def skip_def Let_def)

lemma reads_fail [reads_intros]: "reads fail"
  by (auto simp: reads_def fail_def)

lemma reads_position [reads_intros]: "reads position"
  by (auto simp: reads_def position_def)

lemma reads_if [reads_intros]: "reads m \<Longrightarrow> reads n \<Longrightarrow> reads (if b then m else n)"
  by simp

lemma reads_option [reads_intros]: "reads m \<Longrightarrow> (\<And>x. reads (k x)) \<Longrightarrow> reads (case v of None \<Rightarrow> m | Some x \<Rightarrow> k x)"
  by (cases v) simp_all

lemma reads_failed [reads_intros]: "reads failed"
  by (auto simp: reads_def failed_def)

lemma reads_bits_from: "reads (read_bits_from v n)"
  by (induction n arbitrary: v) (auto intro!: reads_intros)

lemma reads_bits [reads_intros]: "reads (read_bits n)"
  by (simp add: read_bits_def reads_bits_from)

lemma reads_ue_zeros: "reads (ue_zeros z k)"
  by (induction k arbitrary: z) (auto intro!: reads_intros)

lemma reads_ue [reads_intros]: "reads read_ue"
  unfolding read_ue_def by (auto intro!: reads_intros reads_ue_zeros)

lemma reads_se [reads_intros]: "reads read_se"
  unfolding read_se_def by (auto intro!: reads_intros)

text \<open>Reading what is there.\<close>

lemma run_read_bit:
  "drop (br_pos r) (bits (br_data r)) = b # rest \<Longrightarrow> run_state read_bit r = (of_bool b, r\<lparr>br_pos := Suc (br_pos r)\<rparr>)"
proof -
  assume d: "drop (br_pos r) (bits (br_data r)) = b # rest"
  then have lt: "br_pos r < length (br_data r) * 8" by (metis drop_all length_bits list.distinct(1) not_le_imp_less)
  moreover have "bits (br_data r) ! br_pos r = b" using d lt by (metis Cons_nth_drop_Suc length_bits list.inject)
  ultimately show ?thesis by (simp add: read_bit_def bit_at_bits)
qed

lemma drop_step: "drop p xs = y # ys \<Longrightarrow> drop (Suc p) xs = ys"
  by (metis drop_Suc list.sel(3) tl_drop)

lemma run_bits_from:
  "drop (br_pos r) (bits (br_data r)) = word_bits v n @ rest \<Longrightarrow>
   run_state (read_bits_from u n) r = (or (push_bit n u) (take_bit n v), r\<lparr>br_pos := br_pos r + n\<rparr>)"
proof (induction n arbitrary: u r)
  case (Suc n)
  let ?r = "r\<lparr>br_pos := Suc (br_pos r)\<rparr>" and ?u = "or (push_bit 1 u) (of_bool (bit v n))"
  have d: "drop (br_pos r) (bits (br_data r)) = bit v n # word_bits v n @ rest" using Suc.prems by (simp add: word_bits_Suc)
  have "run_state (read_bits_from ?u n) ?r = (or (push_bit n ?u) (take_bit n v), ?r\<lparr>br_pos := br_pos ?r + n\<rparr>)"
    using drop_step [OF d] by (intro Suc.IH) simp
  moreover have "or (push_bit n ?u) (take_bit n v) = or (push_bit (Suc n) u) (take_bit (Suc n) v)"
    by (rule bit_word_eqI) (auto simp: bit_simps less_Suc_eq)
  ultimately show ?case using run_read_bit [OF d] by (simp add: run_bind)
qed simp

lemma run_bits:
  assumes "drop (br_pos r) (bits (br_data r)) = word_bits v n @ rest"
  shows "run_state (read_bits n) r = (take_bit n v, r\<lparr>br_pos := br_pos r + n\<rparr>)"
  using run_bits_from [OF assms, of 0] by (simp add: read_bits_def)

lemma run_zeros:
  "drop (br_pos r) (bits (br_data r)) = replicate n False @ True # rest \<Longrightarrow> n \<le> k \<Longrightarrow> \<not> br_failed r \<Longrightarrow>
   run_state (ue_zeros z k) r = (Some (z + n), r\<lparr>br_pos := br_pos r + n + 1\<rparr>)"
proof (induction n arbitrary: z k r)
  case 0
  then show ?case using run_read_bit [of r True rest] by (cases k) (simp_all add: run_bind failed_def)
next
  case (Suc n)
  let ?r = "r\<lparr>br_pos := Suc (br_pos r)\<rparr>"
  obtain j where k: "k = Suc j" "n \<le> j" using Suc.prems(2) by (cases k) auto
  have d: "drop (br_pos r) (bits (br_data r)) = False # replicate n False @ True # rest" using Suc.prems(1) by simp
  have "run_state (ue_zeros (Suc z) j) ?r = (Some (Suc z + n), ?r\<lparr>br_pos := br_pos ?r + n + 1\<rparr>)"
    using drop_step [OF d] k Suc.prems(3) by (intro Suc.IH) auto
  then show ?case using run_read_bit [OF d] k(1) Suc.prems(3) by (simp add: run_bind failed_def)
qed

lemma top_bit: "v \<noteq> 0 \<Longrightarrow> bit v (halvings v) \<and> v = push_bit (halvings v) 1 + take_bit (halvings v) (v :: 32 word)"
proof
  assume v: "v \<noteq> 0"
  let ?n = "halvings v"
  have u: "2 ^ ?n \<le> unat v" "unat v < 2 * 2 ^ ?n" using halvings_range [of v] v by (simp_all add: word_gt_0)
  then have q: "unat v div 2 ^ ?n = 1" by (intro div_nat_eqI) simp_all
  have "bit (unat v) ?n \<longleftrightarrow> bit v ?n" by (simp add: bit_unsigned_iff)
  then have "bit v ?n \<longleftrightarrow> odd (unat v div 2 ^ ?n)" by (simp add: bit_iff_odd)
  then show b: "bit v ?n" using q by simp
  have "unat v = 2 ^ ?n + unat v mod 2 ^ ?n" using q div_mult_mod_eq [of "unat v" "2 ^ ?n"] by simp
  moreover have "unat (take_bit ?n v) = unat v mod 2 ^ ?n" by (simp only: unsigned_take_bit_eq) (simp add: take_bit_eq_mod)
  moreover have "unat (push_bit ?n (1 :: 32 word)) = 2 ^ ?n"
    using halvings_bound [of v] by (simp only: unsigned_push_bit_eq take_bit_push_bit) (simp add: push_bit_eq_mult)
  ultimately have "unat v = unat (push_bit ?n 1 :: 32 word) + unat (take_bit ?n v)" by simp
  then have "(of_nat (unat v) :: 32 word) = of_nat (unat (push_bit ?n 1 :: 32 word) + unat (take_bit ?n v))" by (rule arg_cong)
  then show "v = push_bit ?n 1 + take_bit ?n v" by (simp only: of_nat_add of_nat_unat ucast_id)
qed

lemma run_ue:
  assumes "drop (br_pos r) (bits (br_data r)) = ue_code v @ rest" and "\<not> br_failed r" and "v \<noteq> - 1"
  shows "run_state read_ue r = (v, r\<lparr>br_pos := br_pos r + length (ue_code v)\<rparr>)"
proof -
  let ?n = "halvings (v + 1)"
  have v: "v + 1 \<noteq> 0" using assms(3) by (simp add: eq_neg_iff_add_eq_0)
  have d: "drop (br_pos r) (bits (br_data r)) = replicate ?n False @ True # word_bits (v + 1) ?n @ rest"
    using assms(1) top_bit [OF v] by (simp add: ue_code_def word_bits_Suc)
  let ?r = "r\<lparr>br_pos := br_pos r + ?n + 1\<rparr>"
  have z: "run_state (ue_zeros 0 31) r = (Some ?n, ?r)" using run_zeros [OF d _ assms(2), of 31 0] halvings_bound by simp
  have "drop (br_pos ?r) (bits (br_data ?r)) = word_bits (v + 1) ?n @ rest"
    using arg_cong [OF d, of "drop (?n + 1)"] by (simp add: add.commute)
  from run_bits [OF this] have "run_state (read_bits ?n) ?r = (take_bit ?n (v + 1), ?r\<lparr>br_pos := br_pos ?r + ?n\<rparr>)" by simp
  moreover have "push_bit ?n 1 - 1 + take_bit ?n (v + 1) = v" using top_bit [OF v] by (simp add: algebra_simps)
  ultimately show ?thesis using z by (simp add: read_ue_def run_bind ue_code_def algebra_simps)
qed

lemma bits_from_value: "run_state (read_bits_from u n) r = (v, r') \<Longrightarrow> \<exists>x. v = or (push_bit n u) (take_bit n x)"
proof (induction n arbitrary: u r)
  case 0
  then show ?case by (auto intro: exI [of _ 0])
next
  case (Suc n)
  obtain b r1 where b: "run_state read_bit r = (b, r1)" by fastforce
  have "b = 0 \<or> b = 1" using b by (auto simp: read_bit_def bit_at_def and_one_eq mod_2_eq_odd split: if_splits)
  then have b1: "b = of_bool (odd b)" by auto
  obtain x where x: "v = or (push_bit n (or (push_bit 1 u) b)) (take_bit n x)"
    using Suc.IH [of "or (push_bit 1 u) b" r1] Suc.prems b by (auto simp: run_bind)
  have "v = or (push_bit (Suc n) u) (take_bit (Suc n) (or (push_bit n (of_bool (odd b))) (take_bit n x)))"
    unfolding x by (subst b1, rule bit_word_eqI) (auto simp: bit_simps less_Suc_eq)
  then show ?case by blast
qed

lemma zeros_bound: "run_state (ue_zeros z k) r = (Some n, r') \<Longrightarrow> n \<le> z + k"
  by (induction k arbitrary: z r) (fastforce simp: run_bind split: prod.splits if_splits)+

lemma ue_not_max: "run_state read_ue r = (v, r') \<Longrightarrow> v \<noteq> - 1"
proof -
  assume run: "run_state read_ue r = (v, r')"
  obtain z r1 where z: "run_state (ue_zeros 0 31) r = (z, r1)" by fastforce
  show ?thesis
  proof (cases z)
    case None
    then show ?thesis using run z by (auto simp: read_ue_def run_bind)
  next
    case (Some n)
    then have n: "n \<le> 31" using z zeros_bound by fastforce
    obtain w where w: "run_state (read_bits n) r1 = (w, r')" "v = push_bit n 1 - 1 + w"
      using run z Some by (auto simp: read_ue_def run_bind split: prod.splits)
    obtain x where x: "w = take_bit n x" using w(1) bits_from_value [of 0 n r1 w r'] by (auto simp: read_bits_def)
    have p: "unat (push_bit n (1 :: 32 word)) = 2 ^ n"
      using n by (simp only: unsigned_push_bit_eq take_bit_push_bit) (simp add: push_bit_eq_mult)
    have t: "unat w < 2 ^ n" unfolding x by (simp only: unsigned_take_bit_eq) (simp add: take_bit_eq_mod)
    have "(2 :: nat) ^ n \<le> 2 ^ 31" using n by (intro power_increasing) simp_all
    then have "unat (push_bit n (1 :: 32 word)) + unat w < 2 ^ LENGTH(32)" using p t by simp
    then have "unat (push_bit n 1 + w) = 2 ^ n + unat w" using p by (simp only: unat_add_lem [THEN iffD1])
    then have "push_bit n 1 + w \<noteq> 0" by auto
    then show ?thesis using w(2) by (simp add: algebra_simps eq_neg_iff_add_eq_0)
  qed
qed

lemma lowest_bit_Some: "lowest_bit x k i = Some j \<Longrightarrow> i \<le> j \<and> j < i + k \<and> bit x j \<and> (\<forall>m. i \<le> m \<and> m < j \<longrightarrow> \<not> bit x m)"
proof (induction k arbitrary: i)
  case (Suc k)
  note t = bit_iff_and_push_bit_not_eq_0 [of x i, symmetric]
  show ?case
  proof (cases "bit x i")
    case False
    then have "Suc i \<le> j \<and> j < Suc i + k \<and> bit x j \<and> (\<forall>m. Suc i \<le> m \<and> m < j \<longrightarrow> \<not> bit x m)" using Suc.IH [of "Suc i"] Suc.prems t by simp
    then show ?thesis using False by (auto simp: Suc_le_eq nat_less_le)
  qed (use Suc t in auto)
qed simp

lemma lowest_bit_None: "lowest_bit x k i = None \<Longrightarrow> i \<le> j \<Longrightarrow> j < i + k \<Longrightarrow> \<not> bit x j"
proof (induction k arbitrary: i)
  case (Suc k)
  note t = bit_iff_and_push_bit_not_eq_0 [of x i, symmetric]
  show ?case using Suc t by (cases "i = j") (auto split: if_splits)
qed simp

lemma last_set_from_Some:
  "last_set_from b n = Some p \<Longrightarrow> n \<le> length b \<Longrightarrow> p < n * 8 \<and> bits b ! p \<and> (\<forall>q. p < q \<and> q < n * 8 \<longrightarrow> \<not> bits b ! q)"
proof (induction n)
  case (Suc n)
  have nth: "bits b ! (n * 8 + k) = bit (b ! n) (7 - k)" if "k < 8" for k using that Suc.prems(2) by (subst bits_nth) simp_all
  show ?case
  proof (cases "lowest_bit (b ! n) 8 0")
    case None
    have z: "\<not> bits b ! (n * 8 + k)" if "k < 8" for k using nth [OF that] lowest_bit_None [OF None, of "7 - k"] by simp
    have "last_set_from b n = Some p" using Suc.prems(1) None by (simp split: if_splits)
    then have "p < n * 8 \<and> bits b ! p \<and> (\<forall>q. p < q \<and> q < n * 8 \<longrightarrow> \<not> bits b ! q)" using Suc by simp
    moreover have "\<not> bits b ! q" if "n * 8 \<le> q" "q < Suc n * 8" for q using z [of "q - n * 8"] that by simp
    ultimately show ?thesis by (auto simp: not_less [symmetric] intro: less_trans [of p "n * 8"] dest: leI)
  next
    case (Some k)
    note l = lowest_bit_Some [OF Some]
    have k: "k < 8" using l by simp
    have "b ! n \<noteq> 0" using l by auto
    then have p: "p = n * 8 + (7 - k)" using Suc.prems(1) Some l by simp
    have "\<not> bits b ! q" if "p < q" "q < Suc n * 8" for q
    proof -
      have "bits b ! (n * 8 + (q - n * 8)) = bit (b ! n) (7 - (q - n * 8))" using that p by (intro nth) simp
      moreover have "7 - (q - n * 8) < k" using that k unfolding p by simp
      ultimately show ?thesis using l that p by simp
    qed
    moreover have "bits b ! p" using nth [of "7 - k"] l p by simp
    ultimately show ?thesis using p by simp
  qed
qed simp

lemma last_set_from_None: "last_set_from b n = None \<Longrightarrow> n \<le> length b \<Longrightarrow> q < n * 8 \<Longrightarrow> \<not> bits b ! q"
proof (induction n)
  case (Suc n)
  have z: "\<not> bits b ! q" if q: "n * 8 \<le> q"
  proof -
    have "\<not> bit (b ! n) (7 - q mod 8)"
      using Suc.prems(1) lowest_bit_None [of "b ! n" 8 0 "7 - q mod 8"] by (auto split: if_splits option.splits)
    moreover have "q div 8 = n" using q Suc.prems(3) by (intro div_nat_eqI) simp_all
    moreover have "q < length b * 8" using Suc.prems(2,3) by (meson less_le_trans mult_le_mono1)
    ultimately show ?thesis by (simp add: bits_nth)
  qed
  show ?case
  proof (cases "n * 8 \<le> q")
    case False
    then show ?thesis using Suc by (auto split: if_splits option.splits)
  qed (rule z)
qed simp

lemma last_set_bit:
  assumes "bits b = xs @ True # ys" and "list_all Not ys"
  shows "lastSetBit b = Some (length xs)"
proof -
  have len: "length b * 8 = length xs + Suc (length ys)" using arg_cong [OF assms(1), of length] by simp
  have nth: "bits b ! length xs" "\<And>q. length xs < q \<Longrightarrow> q < length b * 8 \<Longrightarrow> \<not> bits b ! q"
    using assms(2) len by (auto simp: assms(1) nth_append list_all_length nth_Cons split: nat.splits)
  show ?thesis
  proof (cases "lastSetBit b")
    case None
    then show ?thesis using last_set_from_None [of b "length b" "length xs"] nth(1) len by (simp add: lastSetBit_def)
  next
    case (Some p)
    then have "p < length b * 8" "bits b ! p" "\<not> (p < length xs)"
      using last_set_from_Some [of b "length b" p] nth(1) len by (auto simp: lastSetBit_def)
    then show ?thesis using nth(2) [of p] Some by fastforce
  qed
qed

lemma last_set_bound: "lastSetBit b = Some p \<Longrightarrow> p < length b * 8"
  using last_set_from_Some [of b "length b" p] by (simp add: lastSetBit_def)

lemma writer_last: "writer_ok w \<Longrightarrow> written w = xs @ [True] \<Longrightarrow> lastSetBit (bw_data w) = Some (length xs)"
  using last_set_bit [of "bw_data w" xs "drop (bw_n w) (bits (bw_data w))"] append_take_drop_id [of "bw_n w" "bits (bw_data w)"]
  by (simp add: writer_ok_def written_def)

text \<open>Escape bytes: what is escaped can be read back, and contains no start code.\<close>

lemma unescape_escape_from: "unescape_from z (escape_from z xs) = xs"
  by (induction xs arbitrary: z) auto

lemma unescape_escape [simp]: "hevcUnescape (hevcEscape b) = b"
  by (simp add: hevcUnescape_def hevcEscape_def unescape_escape_from)

lemma index_nonzero [simp]: "x \<noteq> 0 \<Longrightarrow> annexb_index (x # xs) = map_option Suc (annexb_index xs)"
  by simp

lemma index_escape_from: "annexb_index (replicate (min z 2) 0 @ escape_from z xs) = None"
proof (induction xs arbitrary: z)
  case Nil
  consider "z = 0" | "z = 1" | "z \<ge> 2" by linarith
  then show ?case by cases (simp_all add: numeral_2_eq_2)
next
  case (Cons x xs)
  have i0: "annexb_index (escape_from 0 xs) = None" and i1: "annexb_index (0 # escape_from 1 xs) = None"
    using Cons.IH [of 0] Cons.IH [of 1] by simp_all
  have i2: "annexb_index (0 # 0 # escape_from (Suc z) xs) = None" if "z \<ge> 1" for z
    using Cons.IH [of "Suc z"] that by (simp add: numeral_2_eq_2)
  consider "z = 0" | "z = 1" | "z \<ge> 2" by linarith
  then show ?case
  proof cases
    case 1
    then show ?thesis using i0 i1 by (cases "x = 0") simp_all
  next
    case 2
    then show ?thesis using i0 i2 [of 1] by (cases "x = 0") (simp_all add: numeral_2_eq_2)
  next
    case 3
    then have r: "replicate (min z 2) 0 = [0, 0 :: 8 word]" by (simp add: numeral_2_eq_2)
    show ?thesis
    proof (cases "x \<le> 3")
      case True
      then show ?thesis using 3 i0 i1 r by (cases "x = 0") simp_all
    next
      case False
      then have "x \<noteq> 0" "x \<noteq> 1" by auto
      then show ?thesis using 3 i0 r False by simp
    qed
  qed
qed

lemma index_escape: "annexb_index (hevcEscape b) = None"
  using index_escape_from [of 0 b] by (simp add: hevcEscape_def)

lemma escape_last: "b \<noteq> [] \<Longrightarrow> escape_from z b \<noteq> [] \<and> last (escape_from z b) = last b"
  by (induction b arbitrary: z) (auto simp: last_ConsR)

text \<open>Start codes.\<close>

lemma index_append: "closed_nal n \<Longrightarrow> annexb_index (n @ q) = map_option ((+) (length n)) (annexb_index q)"
proof (induction n)
  case Nil
  then show ?case by (cases "annexb_index q") simp_all
next
  case (Cons x n)
  have "closed_nal n" using Cons.prems by (auto simp: closed_nal_def split: if_splits)
  note IH = Cons.IH [OF this]
  have "\<not> prefix [0, 0, 1] ((x # n) @ q)"
  proof
    assume p: "prefix [0, 0, 1] ((x # n) @ q)"
    then have x: "x = 0" by simp
    then obtain y m where n: "n = y # m" using Cons.prems by (cases n) (auto simp: closed_nal_def)
    then have "y = 0" using p by simp
    then obtain z k where m: "m = z # k" using Cons.prems n by (cases m) (auto simp: closed_nal_def)
    then show False using Cons.prems p x n by (simp add: closed_nal_def split: if_splits)
  qed
  then show ?case using IH by (cases "annexb_index q") simp_all
qed

lemma index_zeros: "annexb_index (replicate k 0 @ 0 # 0 # 1 # rest) = Some k"
proof (induction k)
  case (Suc k)
  have "\<not> prefix [0, 0, 1] (0 # replicate k (0 :: 8 word) @ 0 # 0 # 1 # rest)"
    by (cases k; cases "k - 1") (auto simp: Suc_pred)
  then show ?case using Suc by simp
qed simp

lemma index_no_code: "annexb_index (replicate k 0) = None"
proof -
  have "annexb_index xs = None" if "1 \<notin> set xs" for xs
    using that by (induction xs) (auto simp: prefix_def)
  then show ?thesis by simp
qed

lemma index_Some:
  "annexb_index xs = Some i \<Longrightarrow> xs = take i xs @ 0 # 0 # 1 # drop (i + 3) xs \<and> annexb_index (take i xs) = None"
proof (induction xs arbitrary: i)
  case (Cons x xs)
  show ?case
  proof (cases "prefix [0, 0, 1] (x # xs)")
    case True
    then obtain r where "x # xs = 0 # 0 # 1 # r" by (auto simp: prefix_def)
    then show ?thesis using Cons.prems True by simp
  next
    case False
    then obtain j where j: "i = Suc j" "annexb_index xs = Some j" using Cons.prems by (cases "annexb_index xs") auto
    note IH = Cons.IH [OF j(2)]
    have "\<not> prefix [0, 0, 1] (x # take j xs)" using False by (meson prefix_order.trans take_is_prefix Cons_prefix_Cons)
    then show ?thesis using IH j(1) by (simp add: numeral_3_eq_3)
  qed
qed simp

lemma index_prefix: "annexb_index (a @ b) = None \<Longrightarrow> annexb_index a = None"
proof (induction a)
  case (Cons x a)
  then show ?case by (auto simp: prefix_def split: if_splits)
qed simp

lemma index_length: "annexb_index xs = Some k \<Longrightarrow> k + 3 \<le> length xs"
  using arg_cong [OF conjunct1 [OF index_Some [of xs k]], of length] by (simp add: min_def split: if_splits)

lemma index_same: "annexb_index xs = Some i \<Longrightarrow> annexb_index (take (i + 3) xs @ ys) = Some i"
proof (induction xs arbitrary: i)
  case (Cons x xs)
  show ?case
  proof (cases "prefix [0, 0, 1] (x # xs)")
    case True
    then show ?thesis using Cons.prems by (auto simp: prefix_def)
  next
    case False
    then obtain j where j: "i = Suc j" "annexb_index xs = Some j" using Cons.prems by (cases "annexb_index xs") auto
    have "j + 3 \<le> length xs" using index_length [OF j(2)] .
    then have "\<not> prefix [0, 0, 1] (x # take (j + 3) xs @ ys)" using False
      by (cases xs; cases "tl xs") (auto simp: numeral_3_eq_3)
    moreover have "take (i + 3) (x # xs) = x # take (j + 3) xs" unfolding j(1) by (metis add_Suc take_Suc_Cons)
    ultimately show ?thesis using Cons.IH [OF j(2)] j(1) by simp
  qed
qed simp

end
