(* ===== verification/Parameter_Sets.thy ===== *)
theory Parameter_Sets
  imports Bit_Stream
begin

text \<open>
  The parameter sets of a video key frame: \<open>service/stream/hevc_parameter_sets.go\<close> and \<open>video_colour.go\<close>. Before a
  key frame is sent, the H.265 parameter sets that signal their picture buffer per temporal sub-layer are
  rewritten to signal it once, and the sequence parameter set of either codec gets a description of its colours.
\<close>

section \<open>Parsing\<close>

text \<open>The pairs of flags of a profile, for each lower sub-layer.\<close>

primrec present_flags :: "nat \<Rightarrow> (bool \<times> bool) list reading" where
  "present_flags 0 = State_Monad.return []"
| "present_flags (Suc n) =
     do { p \<leftarrow> read_bits 1; l \<leftarrow> read_bits 1; rest \<leftarrow> present_flags n; State_Monad.return ((p = 1, l = 1) # rest) }"

primrec skip_layers :: "(bool \<times> bool) list \<Rightarrow> unit reading" where
  "skip_layers [] = State_Monad.return ()"
| "skip_layers (f # fs) =
     do { (if fst f then skip 88 else State_Monad.return ()); (if snd f then skip 8 else State_Monad.return ()); skip_layers fs }"

definition skipProfileTierLevel :: "32 word \<Rightarrow> unit reading" where
  "skipProfileTierLevel m =
     do { skip (88 + 8); flags \<leftarrow> present_flags (unat m);
          (if m > 0 then skip (unat (8 - m) * 2) else State_Monad.return ()); skip_layers flags }"

definition ignore :: "'a reading \<Rightarrow> unit reading" where
  "ignore m = do { _ \<leftarrow> m; State_Monad.return () }"

primrec times :: "nat \<Rightarrow> 'a reading \<Rightarrow> unit reading" where
  "times 0 m = State_Monad.return ()"
| "times (Suc n) m = do { _ \<leftarrow> m; times n m }"

text \<open>A loop that also ends when the reader has failed.\<close>

primrec times_ok :: "nat \<Rightarrow> 'a reading \<Rightarrow> unit reading" where
  "times_ok 0 m = State_Monad.return ()"
| "times_ok (Suc n) m = do { f \<leftarrow> failed; if f then State_Monad.return () else do { _ \<leftarrow> m; times_ok n m } }"

definition picture_size :: "unit reading" where
  "picture_size =
     do { ignore read_ue; c \<leftarrow> read_ue; (if c = 3 then skip 1 else State_Monad.return ());
          ignore read_ue; ignore read_ue; w \<leftarrow> read_bits 1; (if w = 1 then times 4 read_ue else State_Monad.return ()) }"

text \<open>Up to the flag of the ordering info; the number is that of sub-layers, less one.\<close>

definition ordering_header :: "nat \<Rightarrow> 32 word reading" where
  "ordering_header typ =
     (if typ = 32 then do { skip (4 + 1 + 1 + 6); m \<leftarrow> read_bits 3; skip (1 + 16); skipProfileTierLevel m; State_Monad.return m }
      else do { skip 4; m \<leftarrow> read_bits 3; skip 1; skipProfileTierLevel m;
                (if typ = 33 then do { picture_size; ignore read_ue; ignore read_ue; ignore read_ue } else State_Monad.return ());
                State_Monad.return m })"

primrec ordering_sets :: "nat \<Rightarrow> 32 word \<times> 32 word \<times> 32 word \<Rightarrow> (32 word \<times> 32 word \<times> 32 word) reading" where
  "ordering_sets 0 v = State_Monad.return v"
| "ordering_sets (Suc n) v =
     do { d \<leftarrow> read_ue; o' \<leftarrow> read_ue; l \<leftarrow> read_ue; ordering_sets n (max (fst v) d, max (fst (snd v)) o', l) }"

definition start_reader :: "bytes \<Rightarrow> bitReader" where
  "start_reader d = \<lparr>br_data = d, br_pos = 0, br_failed = False\<rparr>"

section \<open>One ordering set\<close>

definition hevcSingleOrderingSet :: "bytes \<Rightarrow> nat \<Rightarrow> bytes option" where
  "hevcSingleOrderingSet nal typ =
     (let rbsp = hevcUnescape (drop 2 nal) in
      case run_state (ordering_header typ) (start_reader rbsp) of (m, r) \<Rightarrow>
        if m = 0 then None
        else case run_state (read_bits 1) r of (flag, r1) \<Rightarrow>
          if flag = 0 \<or> br_failed r1 then None
          else case run_state (ordering_sets (unat m + 1) (0, 0, 0)) r1 of ((dpb, reorder, latency), r2) \<Rightarrow>
            case lastSetBit rbsp of
              None \<Rightarrow> None
            | Some stop \<Rightarrow>
                if br_failed r2 \<or> stop < br_pos r2 then None
                else let w = copyBits rbsp 0 (br_pos r) new_writer;
                         w = put_ue latency (put_ue reorder (put_ue dpb (put 0 1 w)));
                         w = put 1 1 (copyBits rbsp (br_pos r2) stop w)
                     in Some (take 2 nal @ hevcEscape (bw_data w)))"

section \<open>The colours\<close>

text \<open>What becomes of a NAL unit; \<open>Panic\<close> is the index out of range of a copy past the end of the data.\<close>

datatype rewrite = Panic | Keep | Replace bytes

definition writeColourDescription :: "bitWriter \<Rightarrow> bitWriter" where
  "writeColourDescription w = put 1 8 (put 1 8 (put 1 8 (put 1 1 w)))"

definition writeVideoSignalType :: "bitWriter \<Rightarrow> bitWriter" where
  "writeVideoSignalType w = writeColourDescription (put 0 1 (put 5 3 (put 1 1 w)))"

text \<open>\<open>copyBits\<close> where its end may be behind the data.\<close>

definition copy_prefix :: "bytes \<Rightarrow> nat \<Rightarrow> bitWriter option" where
  "copy_prefix rbsp to = (if to > length rbsp * 8 then None else Some (copyBits rbsp 0 to new_writer))"

text \<open>The aspect ratio and the overscan, which come before the signal type.\<close>

definition vui_start :: "unit reading" where
  "vui_start =
     do { a \<leftarrow> read_bits 1;
          (if a = 1 then do { i \<leftarrow> read_bits 8; if i = 255 then skip 32 else State_Monad.return () } else State_Monad.return ());
          o' \<leftarrow> read_bits 1; (if o' = 1 then skip 1 else State_Monad.return ()) }"

definition colour_end :: "bytes \<Rightarrow> nat \<Rightarrow> (bitWriter \<Rightarrow> bitWriter) \<Rightarrow> bitWriter option \<Rightarrow> bitReader \<Rightarrow> rewrite" where
  "colour_end rbsp stop f w r =
     (case w of
        None \<Rightarrow> Panic
      | Some w \<Rightarrow>
          if br_failed r \<or> stop < br_pos r then Keep
          else Replace (bw_data (put 1 1 (copyBits rbsp (br_pos r) stop (f w)))))"

definition withColour :: "bytes \<Rightarrow> bitReader \<Rightarrow> (bitWriter \<Rightarrow> bitWriter) \<Rightarrow> rewrite" where
  "withColour rbsp r minimalVUI =
     (case lastSetBit rbsp of
        None \<Rightarrow> Keep
      | Some stop \<Rightarrow>
          if br_failed r \<or> stop < br_pos r then Keep
          else case run_state (read_bits 1) r of (vui, r1) \<Rightarrow>
            if vui = 0 then
              colour_end rbsp stop (\<lambda>w. minimalVUI (writeVideoSignalType (put 0 1 (put 0 1 (put 1 1 w))))) (copy_prefix rbsp (br_pos r)) r1
            else case run_state vui_start r1 of (_, r2) \<Rightarrow>
              case run_state (read_bits 1) r2 of (signal, r3) \<Rightarrow>
                if signal = 0 then colour_end rbsp stop writeVideoSignalType (copy_prefix rbsp (br_pos r2)) r3
                else case run_state (skip (3 + 1)) r3 of (_, r4) \<Rightarrow>
                  case run_state (read_bits 1) r4 of (colour, r5) \<Rightarrow>
                    if colour = 1 then Keep
                    else colour_end rbsp stop writeColourDescription (copy_prefix rbsp (br_pos r4)) r5)"

definition high_profiles :: "32 word list" where
  "high_profiles = [100, 110, 122, 244, 44, 83, 86, 118, 128, 138, 139, 134, 135]"

text \<open>Up to the VUI of an H.264 SPS; \<open>False\<close> is one with scaling lists, which is not parsed.\<close>

definition h264_chroma :: "bool reading" where
  "h264_chroma =
     do { c \<leftarrow> read_ue; (if c = 3 then skip 1 else State_Monad.return ());
          ignore read_ue; ignore read_ue; skip 1; m \<leftarrow> read_bits 1; State_Monad.return (m \<noteq> 1) }"

definition h264_order :: "unit reading" where
  "h264_order =
     do { t \<leftarrow> read_ue;
          if t = 0 then ignore read_ue
          else if t = 1 then do { skip 1; ignore read_se; ignore read_se; n \<leftarrow> read_ue; times_ok (unat n) read_se }
          else State_Monad.return () }"

definition h264_sps :: "bool reading" where
  "h264_sps =
     do { profile \<leftarrow> read_bits 8; skip 16; ignore read_ue;
          ok \<leftarrow> (if profile \<in> set high_profiles then h264_chroma else State_Monad.return True);
          if \<not> ok then State_Monad.return False
          else do { ignore read_ue; h264_order; ignore read_ue; skip 1; ignore read_ue; ignore read_ue;
                    f \<leftarrow> read_bits 1; (if f = 0 then skip 1 else State_Monad.return ()); skip 1;
                    c \<leftarrow> read_bits 1; (if c = 1 then times 4 read_ue else State_Monad.return ()); State_Monad.return True } }"

definition h264SPSWithColour :: "bytes \<Rightarrow> rewrite" where
  "h264SPSWithColour nal =
     (let rbsp = hevcUnescape (drop 1 nal) in
      case run_state h264_sps (start_reader rbsp) of (ok, r) \<Rightarrow>
        if \<not> ok then Keep
        else case withColour rbsp r (put 0 6) of Replace out \<Rightarrow> Replace (take 1 nal @ hevcEscape out) | x \<Rightarrow> x)"

text \<open>A short-term reference picture set: the negative and the positive differences.\<close>

type_synonym refPicSet = "32 word list \<times> 32 word list"

definition negative :: "32 word \<Rightarrow> bool" where "negative x \<longleftrightarrow> sint x < 0"
definition positive :: "32 word \<Rightarrow> bool" where "positive x \<longleftrightarrow> sint x > 0"

primrec read_use :: "nat \<Rightarrow> bool list reading" where
  "read_use 0 = State_Monad.return []"
| "read_use (Suc n) =
     do { used \<leftarrow> read_bits 1;
          u \<leftarrow> (if used = 1 then State_Monad.return True else do { b \<leftarrow> read_bits 1; State_Monad.return (b = 1) });
          rest \<leftarrow> read_use n; State_Monad.return (u # rest) }"

definition moved :: "(32 word \<Rightarrow> bool) \<Rightarrow> 32 word \<Rightarrow> (32 word \<times> bool) list \<Rightarrow> 32 word list" where
  "moved side delta xs = filter side (map (\<lambda>(p, u). p + delta) (filter snd xs))"

definition predicted :: "refPicSet \<Rightarrow> 32 word \<Rightarrow> bool list \<Rightarrow> refPicSet" where
  "predicted ref delta use =
     (let s0 = zip (fst ref) use; s1 = zip (snd ref) (drop (length (fst ref)) use); last_used = use ! (length (fst ref) + length (snd ref)) in
      (moved negative delta (List.rev s1) @ (if negative delta \<and> last_used then [delta] else []) @ moved negative delta s0,
       moved positive delta (List.rev s0) @ (if positive delta \<and> last_used then [delta] else []) @ moved positive delta s1))"

primrec read_deltas :: "nat \<Rightarrow> 32 word \<Rightarrow> 32 word \<Rightarrow> 32 word list reading" where
  "read_deltas 0 s poc = State_Monad.return []"
| "read_deltas (Suc n) s poc =
     do { d \<leftarrow> read_ue; skip 1; let p = poc + s * (d + 1) in do { rest \<leftarrow> read_deltas n s p; State_Monad.return (p # rest) } }"

text \<open>One set after the sets before it, the last of which is \<open>prev\<close>; \<open>None\<close> is a set that is refused.\<close>

definition read_set :: "refPicSet option \<Rightarrow> refPicSet option reading" where
  "read_set prev =
     do { inter \<leftarrow> (case prev of None \<Rightarrow> State_Monad.return 0 | Some _ \<Rightarrow> read_bits 1);
          set \<leftarrow>
            (case (prev, inter = 1) of
               (Some ref, True) \<Rightarrow>
                 do { sign \<leftarrow> read_bits 1; d \<leftarrow> read_ue; use \<leftarrow> read_use (length (fst ref) + length (snd ref) + 1);
                      State_Monad.return (Some (predicted ref ((1 - 2 * sign) * (d + 1)) use)) }
             | _ \<Rightarrow>
                 do { neg \<leftarrow> read_ue; pos \<leftarrow> read_ue;
                      if neg > 16 \<or> pos > 16 then State_Monad.return None
                      else do { s0 \<leftarrow> read_deltas (unat neg) (- 1) 0; s1 \<leftarrow> read_deltas (unat pos) 1 0; State_Monad.return (Some (s0, s1)) } });
          State_Monad.return (case set of None \<Rightarrow> None | Some s \<Rightarrow> if length (fst s) + length (snd s) > 16 then None else Some s) }"

primrec read_sets :: "nat \<Rightarrow> refPicSet option \<Rightarrow> bool reading" where
  "read_sets 0 prev = do { f \<leftarrow> failed; State_Monad.return (\<not> f) }"
| "read_sets (Suc n) prev =
     do { f \<leftarrow> failed;
          if f then State_Monad.return False
          else do { s \<leftarrow> read_set prev; case s of None \<Rightarrow> State_Monad.return False | Some _ \<Rightarrow> read_sets n s } }"

definition skipShortTermRefPicSets :: "32 word \<Rightarrow> bool reading" where
  "skipShortTermRefPicSets num = (if num > 64 then State_Monad.return False else read_sets (unat num) None)"

text \<open>Up to the VUI of an H.265 SPS.\<close>

definition hevc_tools :: "bool reading" where
  "hevc_tools =
     do { times 6 read_ue; s \<leftarrow> read_bits 1;
          l \<leftarrow> (if s = 1 then read_bits 1 else State_Monad.return 0);
          if l = 1 then State_Monad.return False
          else do { skip 2; p \<leftarrow> read_bits 1;
                    (if p = 1 then do { skip 8; ignore read_ue; ignore read_ue; skip 1 } else State_Monad.return ());
                    n \<leftarrow> read_ue; skipShortTermRefPicSets n } }"

definition hevc_sps :: "bool reading" where
  "hevc_sps =
     do { skip 4; m \<leftarrow> read_bits 3; skip 1; skipProfileTierLevel m; picture_size; ignore read_ue; ignore read_ue;
          lsb \<leftarrow> read_ue; all \<leftarrow> read_bits 1;
          times_ok (if all = 1 then unat m + 1 else 1) (times 3 read_ue);
          ok \<leftarrow> hevc_tools;
          if \<not> ok then State_Monad.return False
          else do { lt \<leftarrow> read_bits 1;
                    (if lt = 1 then do { n \<leftarrow> read_ue; times_ok (unat n) (skip (unat lsb + 4 + 1)) } else State_Monad.return ());
                    skip 2; State_Monad.return True } }"

definition hevcSPSWithColour :: "bytes \<Rightarrow> rewrite" where
  "hevcSPSWithColour nal =
     (let rbsp = hevcUnescape (drop 2 nal) in
      case run_state hevc_sps (start_reader rbsp) of (ok, r) \<Rightarrow>
        if \<not> ok then Keep
        else case withColour rbsp r (put 0 7) of Replace out \<Rightarrow> Replace (take 2 nal @ hevcEscape out) | x \<Rightarrow> x)"

section \<open>The parameter sets of a frame\<close>

datatype VideoCodec = H264 | H265

definition isHEVCSlice :: "byte \<Rightarrow> bool" where
  "isHEVCSlice header \<longleftrightarrow> and (drop_bit 1 header) 63 < 32"

definition isH264Slice :: "byte \<Rightarrow> bool" where
  "isH264Slice header \<longleftrightarrow> (let typ = and header 31 in typ \<ge> 1 \<and> typ \<le> 5)"

definition rewrite_h264 :: "bytes \<Rightarrow> rewrite" where
  "rewrite_h264 nal = (if length nal < 2 \<or> and (nal ! 0) 31 \<noteq> 7 then Keep else h264SPSWithColour nal)"

definition rewrite_hevc :: "bool \<Rightarrow> bytes \<Rightarrow> rewrite" where
  "rewrite_hevc colour nal =
     (if length nal < 3 then Keep
      else let typ = unat (and (drop_bit 1 (nal ! 0)) 63) in
        if typ \<noteq> 32 \<and> typ \<noteq> 33 then Keep
        else let fixed = hevcSingleOrderingSet nal typ;
                 keep = (case fixed of None \<Rightarrow> Keep | Some n \<Rightarrow> Replace n)
             in if colour \<and> typ = 33
                then (case hevcSPSWithColour (case fixed of None \<Rightarrow> nal | Some n \<Rightarrow> n) of Keep \<Rightarrow> keep | x \<Rightarrow> x)
                else keep)"

text \<open>The end of a NAL unit without the zeros before the next start code.\<close>

primrec trim_end :: "bytes \<Rightarrow> nat \<Rightarrow> nat \<Rightarrow> nat" where
  "trim_end data start 0 = 0"
| "trim_end data start (Suc e) = (if Suc e > start \<and> data ! e = 0 then trim_end data start e else Suc e)"

function scan_from :: "(byte \<Rightarrow> bool) \<Rightarrow> bytes \<Rightarrow> nat \<Rightarrow> (nat \<times> nat) list" where
  "scan_from isSlice data i =
     (let start = i + 3 in
      if start \<ge> length data \<or> isSlice (data ! start) then []
      else case annexb_index (drop start data) of
        None \<Rightarrow> [(start, length data)]
      | Some k \<Rightarrow> (start, trim_end data start (start + k)) # scan_from isSlice data (start + k))"
  by auto
termination
  by (relation "measure (\<lambda>(s, d, i). length d - i)") auto

declare scan_from.simps [simp del]

definition scanParameterSets :: "bytes \<Rightarrow> (byte \<Rightarrow> bool) \<Rightarrow> (nat \<times> nat) list" where
  "scanParameterSets data isSlice = (case annexb_index data of None \<Rightarrow> [] | Some i \<Rightarrow> scan_from isSlice data i)"

definition replacements :: "bytes \<Rightarrow> (bytes \<Rightarrow> rewrite) \<Rightarrow> (nat \<times> nat) list \<Rightarrow> (nat \<times> nat \<times> bytes) list" where
  "replacements data rewrite bounds =
     List.map_filter (\<lambda>(s, e). case rewrite (slice data s e) of Replace n \<Rightarrow> Some (s, e, n) | _ \<Rightarrow> None) bounds"

primrec splice :: "bytes \<Rightarrow> nat \<Rightarrow> (nat \<times> nat \<times> bytes) list \<Rightarrow> bytes" where
  "splice data last' [] = []"
| "splice data last' (r # rs) = slice data last' (fst r) @ snd (snd r) @ splice data (fst (snd r)) rs"

text \<open>
  The frame and its storage. \<open>framed\<close> is whether the data is the end of the storage after the headroom; the
  frame is then moved in place, and both begin later. \<open>None\<close> is a panic.
\<close>

definition rewriteParameterSets ::
    "bytes \<Rightarrow> bytes \<Rightarrow> nat \<Rightarrow> bool \<Rightarrow> (byte \<Rightarrow> bool) \<Rightarrow> (bytes \<Rightarrow> rewrite) \<Rightarrow> (bytes \<times> bytes) option" where
  "rewriteParameterSets storage data headroom framed isSlice rewrite =
     (let bounds = scanParameterSets data isSlice in
      if \<exists>b \<in> set bounds. rewrite (slice data (fst b) (snd b)) = Panic then None
      else let rs = replacements data rewrite bounds in
        if rs = [] then Some (storage, data)
        else let prefixEnd = fst (snd (last rs)); p = splice data 0 rs in
          if length p > prefixEnd then (let out = p @ drop prefixEnd data in Some (replicate headroom 0 @ out, out))
          else let shift = prefixEnd - length p; moved = p @ drop prefixEnd data in
            Some (if framed then drop shift (take headroom storage @ take shift data) @ moved else storage, moved))"

definition fixParameterSets :: "VideoCodec \<Rightarrow> bool \<Rightarrow> bytes \<Rightarrow> bytes \<Rightarrow> nat \<Rightarrow> bool \<Rightarrow> (bytes \<times> bytes) option" where
  "fixParameterSets codec colour storage data headroom framed =
     (case codec of
        H264 \<Rightarrow> if \<not> colour then Some (storage, data) else rewriteParameterSets storage data headroom framed isH264Slice rewrite_h264
      | H265 \<Rightarrow> rewriteParameterSets storage data headroom framed isHEVCSlice (rewrite_hevc colour))"

section \<open>What the parameter sets say\<close>

text \<open>The ordering info of each sub-layer.\<close>

primrec read_triples :: "nat \<Rightarrow> (32 word \<times> 32 word \<times> 32 word) list reading" where
  "read_triples 0 = State_Monad.return []"
| "read_triples (Suc n) =
     do { d \<leftarrow> read_ue; o' \<leftarrow> read_ue; l \<leftarrow> read_ue; rest \<leftarrow> read_triples n; State_Monad.return ((d, o', l) # rest) }"

definition highest :: "(32 word \<times> 32 word \<times> 32 word) list \<Rightarrow> 32 word \<times> 32 word \<times> 32 word \<Rightarrow> 32 word \<times> 32 word \<times> 32 word" where
  "highest ts v = fold (\<lambda>(d, o', l) (x, y, z). (max x d, max y o', l)) ts v"

text \<open>The range and the colour description of a VUI, where it has them.\<close>

definition signal_colour :: "(32 word \<times> (32 word \<times> 32 word \<times> 32 word) option) option reading" where
  "signal_colour =
     do { s \<leftarrow> read_bits 1;
          if s = 0 then State_Monad.return None
          else do { skip 3; range \<leftarrow> read_bits 1; c \<leftarrow> read_bits 1;
                    if c = 0 then State_Monad.return (Some (range, None))
                    else do { p \<leftarrow> read_bits 8; t \<leftarrow> read_bits 8; x \<leftarrow> read_bits 8; State_Monad.return (Some (range, Some (p, t, x))) } } }"

definition vui_colour :: "(32 word \<times> (32 word \<times> 32 word \<times> 32 word) option) option reading" where
  "vui_colour = do { v \<leftarrow> read_bits 1; if v = 0 then State_Monad.return None else do { vui_start; signal_colour } }"

text \<open>A new parameter set is the old one with some bits put in or replaced, from \<open>start\<close> to \<open>end\<close>.\<close>

definition edited :: "bytes \<Rightarrow> bytes \<Rightarrow> nat \<Rightarrow> bool list \<Rightarrow> nat \<Rightarrow> bool" where
  "edited old new start ins end \<longleftrightarrow>
     (\<exists>stop zs. lastSetBit old = Some stop \<and> start \<le> end \<and> end \<le> stop \<and>
       bits new = take start (bits old) @ ins @ take (stop - end) (drop end (bits old)) @ True # zs \<and> list_all Not zs \<and> length zs < 8)"

text \<open>
  The reader \<open>r\<close> is at the VUI: the new parameter set is the old one up to there, describes its colours as BT.709
  and keeps the range it had; one that had none has the limited range.
\<close>

definition colour_added :: "bitReader \<Rightarrow> bytes \<Rightarrow> bytes \<Rightarrow> bool" where
  "colour_added r old new \<longleftrightarrow>
     fst (run_state vui_colour (r\<lparr>br_data := new\<rparr>)) =
       Some (case fst (run_state vui_colour r) of None \<Rightarrow> 0 | Some (x, _) \<Rightarrow> x, Some (1, 1, 1)) \<and>
     (\<exists>at ins e. br_pos r \<le> at \<and> edited old new at ins e)"

text \<open>Parameter sets of the encoder, of x264, and one of H.264 whose VUI is cut off.\<close>

definition smartPVPS :: bytes where
  "smartPVPS = [0x40, 0x01, 0x0c, 0x02, 0xff, 0xff, 0x01, 0x60, 0x00, 0x00, 0x03, 0x00, 0x00, 0x03, 0x00, 0x00, 0x03, 0x00, 0x00, 0x03, 0x00, 0x96, 0x00, 0x00, 0xf7, 0x81, 0x20]"

definition standH264SPS :: bytes where
  "standH264SPS = [0x67, 0x4d, 0x40, 0x33, 0xa6, 0x80, 0x3c, 0x00, 0x43, 0xe4]"

definition truncatedSPS :: bytes where
  "truncatedSPS = [0x67, 0x4d, 0x40, 0x33, 0xa6, 0x80, 0x3c, 0x00, 0x43, 0xef, 0xff]"

section \<open>Lemmas\<close>

lemma reads_ignore [reads_intros]: "reads m \<Longrightarrow> reads (ignore m)"
  unfolding ignore_def by (auto intro!: reads_intros)

lemma reads_times [reads_intros]: "reads m \<Longrightarrow> reads (times n m)"
  by (induction n) (auto intro!: reads_intros)

lemma reads_times_ok [reads_intros]: "reads m \<Longrightarrow> reads (times_ok n m)"
  by (induction n) (auto intro!: reads_intros)

lemma reads_present_flags [reads_intros]: "reads (present_flags n)"
  by (induction n) (auto intro!: reads_intros)

lemma reads_skip_layers [reads_intros]: "reads (skip_layers fs)"
  by (induction fs) (auto intro!: reads_intros)

lemma reads_profile [reads_intros]: "reads (skipProfileTierLevel m)"
  unfolding skipProfileTierLevel_def by (intro reads_intros)

lemma reads_picture_size [reads_intros]: "reads picture_size"
  unfolding picture_size_def by (intro reads_intros)

lemma reads_ordering_header [reads_intros]: "reads (ordering_header typ)"
  unfolding ordering_header_def by (intro reads_intros)

lemma reads_ordering_sets [reads_intros]: "reads (ordering_sets n v)"
  by (induction n arbitrary: v) (auto intro!: reads_intros)

lemma reads_vui_start [reads_intros]: "reads vui_start"
  unfolding vui_start_def by (intro reads_intros)

lemma reads_h264_sps [reads_intros]: "reads h264_sps"
  unfolding h264_sps_def h264_chroma_def h264_order_def by (intro reads_intros)

lemma reads_use [reads_intros]: "reads (read_use n)"
  by (induction n) (auto intro!: reads_intros)

lemma reads_deltas [reads_intros]: "reads (read_deltas n s p)"
  by (induction n arbitrary: p) (auto simp: Let_def intro!: reads_intros)

lemma reads_set [reads_intros]: "reads (read_set prev)"
  unfolding read_set_def by (cases prev) (auto intro!: reads_intros split: bool.splits)

lemma reads_sets [reads_intros]: "reads (read_sets n prev)"
  by (induction n arbitrary: prev) (auto intro!: reads_intros)

lemma reads_hevc_sps [reads_intros]: "reads hevc_sps"
  unfolding hevc_sps_def hevc_tools_def skipShortTermRefPicSets_def by (intro reads_intros)

text \<open>Reading again from data with the same beginning.\<close>

lemma reads_facts:
  assumes "reads m" and "run_state m r = (a, r')"
  shows "br_data r' = br_data r" and "br_pos r \<le> br_pos r'" and "\<not> br_failed r' \<Longrightarrow> \<not> br_failed r"
    and "\<not> br_failed r' \<Longrightarrow> br_pos r \<le> length (br_data r) * 8 \<Longrightarrow> br_pos r' \<le> length (br_data r) * 8"
  using assms unfolding reads_def by blast+

lemma reads_same:
  assumes "reads m" and "run_state m r = (a, r')" and "\<not> br_failed r'" and "br_pos r \<le> length (br_data r) * 8"
    and "bits d = take (br_pos r') (bits (br_data r)) @ xs"
  shows "run_state m (r\<lparr>br_data := d\<rparr>) = (a, r'\<lparr>br_data := d\<rparr>)"
proof -
  have l: "br_pos r' \<le> length (br_data r) * 8" using reads_facts(4) [OF assms(1,2,3,4)] .
  have "length d * 8 = br_pos r' + length xs" using arg_cong [OF assms(5), of length] l by simp
  moreover have "take (br_pos r') (bits d) = take (br_pos r') (bits (br_data r))" using assms(5) l by simp
  ultimately show ?thesis using assms(1-4) unfolding reads_def by (metis le_add1)
qed

lemma run_triples:
  "run_state (ordering_sets n v) r = (highest (fst (run_state (read_triples n) r)) v, snd (run_state (read_triples n) r))"
  by (induction n arbitrary: v r) (simp_all add: run_bind highest_def split: prod.splits)

lemma highest_not_max:
  assumes "run_state (read_triples n) r = (ts, r')" and "x \<noteq> - 1" "y \<noteq> - 1" "z \<noteq> - 1"
  shows "case highest ts (x, y, z) of (d, o', l) \<Rightarrow> d \<noteq> - 1 \<and> o' \<noteq> - 1 \<and> l \<noteq> - 1"
  using assms
proof (induction n arbitrary: x y z r ts)
  case 0
  then show ?case by (simp add: highest_def)
next
  case (Suc n)
  obtain d r1 where r1: "run_state read_ue r = (d, r1)" by fastforce
  obtain e r2 where r2: "run_state read_ue r1 = (e, r2)" by fastforce
  obtain l r3 where r3: "run_state read_ue r2 = (l, r3)" by fastforce
  obtain us r4 where r4: "run_state (read_triples n) r3 = (us, r4)" by fastforce
  have ts: "ts = (d, e, l) # us" "r' = r4" using Suc.prems(1) r1 r2 r3 r4 by (simp_all add: run_bind)
  have "max x d \<noteq> - 1" "max y e \<noteq> - 1" "l \<noteq> - 1"
    using Suc.prems(2,3) ue_not_max [OF r1] ue_not_max [OF r2] ue_not_max [OF r3] by (auto simp: max_def)
  from Suc.IH [OF _ this] r4 ts show ?case by (simp add: highest_def)
qed

lemma highest_all:
  "highest ts (x, y, z) =
     (Max (insert x (fst ` set ts)), Max (insert y ((fst \<circ> snd) ` set ts)), if ts = [] then z else snd (snd (last ts)))"
proof (induction ts arbitrary: x y z)
  case (Cons t ts)
  obtain d e l where t: "t = (d, e, l)" by (cases t) auto
  have m: "Max (insert (max u v) S) = Max (insert u (insert v S))" if "finite S" for u v :: "32 word" and S
    using that by (cases "S = {}") (simp_all add: max.assoc)
  have "highest (t # ts) (x, y, z) = highest ts (max x d, max y e, l)" by (simp add: highest_def t)
  then show ?case using Cons.IH [of "max x d" "max y e" l] m [of "fst ` set ts" x d] m [of "(fst \<circ> snd) ` set ts" y e] by (simp add: t)
qed (simp add: highest_def)

lemma highest_zero:
  "ts \<noteq> [] \<Longrightarrow> highest ts (0, 0, 0) = (Max (fst ` set ts), Max ((fst \<circ> snd) ` set ts), snd (snd (last ts)))"
  by (simp add: highest_all)

lemma bits_written: "writer_ok w \<Longrightarrow> \<exists>zs. bits (bw_data w) = written w @ zs \<and> list_all Not zs \<and> length zs < 8"
proof -
  assume w: "writer_ok w"
  have "length (drop (bw_n w) (bits (bw_data w))) < 8"
    using w dividend_less_div_times [of 8 "bw_n w + 7"] by (simp add: writer_ok_def)
  then show ?thesis using w unfolding writer_ok_def written_def by (metis append_take_drop_id)
qed

lemma triples_length: "run_state (read_triples n) r = (ts, r') \<Longrightarrow> length ts = n"
  by (induction n arbitrary: r ts r') (auto simp: run_bind split: prod.splits)

lemma flag_read: "run_state (read_bits 1) r = (b, r') \<Longrightarrow> b = 0 \<or> b = 1"
  using bits_from_value [of 0 1 r b r'] by (auto simp: read_bits_def take_bit_Suc mod_2_eq_odd)

lemma run_flag:
  assumes "drop (br_pos r) (bits (br_data r)) = b # rest"
  shows "run_state (read_bits 1) r = (of_bool b, r\<lparr>br_pos := br_pos r + 1\<rparr>)"
  using run_read_bit [OF assms] by (simp add: read_bits_def run_bind)

lemma flag_ok:
  assumes "run_state (read_bits 1) r = (b, r')" and "\<not> br_failed r'"
  shows "r' = r\<lparr>br_pos := br_pos r + 1\<rparr>" and "br_pos r < length (br_data r) * 8" and "b = of_bool (bits (br_data r) ! br_pos r)"
  using assms by (auto simp: read_bits_def run_bind read_bit_def bit_at_bits split: if_splits)

text \<open>The parts of a successful rewrite.\<close>

lemma ordering_parts:
  assumes "hevcSingleOrderingSet nal typ = Some out"
  obtains m r ts r2 stop w where "run_state (ordering_header typ) (start_reader (hevcUnescape (drop 2 nal))) = (m, r)" and "m \<noteq> 0"
    and "\<not> br_failed r" and "br_pos r < length (hevcUnescape (drop 2 nal)) * 8" and "bits (hevcUnescape (drop 2 nal)) ! br_pos r"
    and "run_state (read_triples (unat m + 1)) (r\<lparr>br_pos := br_pos r + 1\<rparr>) = (ts, r2)" and "\<not> br_failed r2"
    and "lastSetBit (hevcUnescape (drop 2 nal)) = Some stop" and "br_pos r2 \<le> stop"
    and "out = take 2 nal @ hevcEscape (bw_data w)" and "writer_ok w"
    and "written w = take (br_pos r) (bits (hevcUnescape (drop 2 nal))) @ False # ue_code (fst (highest ts (0, 0, 0))) @
       ue_code (fst (snd (highest ts (0, 0, 0)))) @ ue_code (snd (snd (highest ts (0, 0, 0)))) @
       take (stop - br_pos r2) (drop (br_pos r2) (bits (hevcUnescape (drop 2 nal)))) @ [True]"
proof -
  define rbsp where "rbsp = hevcUnescape (drop 2 nal)"
  obtain m r where h: "run_state (ordering_header typ) (start_reader rbsp) = (m, r)" by fastforce
  obtain flag r1 where f: "run_state (read_bits 1) r = (flag, r1)" by fastforce
  obtain ts r2 where t: "run_state (read_triples (unat m + 1)) r1 = (ts, r2)" by fastforce
  define v where "v = highest ts (0, 0, 0)"
  have os: "run_state (ordering_sets (unat m + 1) (0, 0, 0)) r1 = (v, r2)" by (simp only: run_triples t v_def fst_conv snd_conv)
  have m: "m \<noteq> 0" and fl: "flag \<noteq> 0" "\<not> br_failed r1"
    using assms h f by (auto simp: hevcSingleOrderingSet_def rbsp_def [symmetric] Let_def split: if_splits)
  obtain stop where st: "lastSetBit rbsp = Some stop" "\<not> br_failed r2" "br_pos r2 \<le> stop"
    using assms h f os m fl
    by (auto simp: hevcSingleOrderingSet_def rbsp_def [symmetric] Let_def simp del: ordering_sets.simps split: if_splits option.splits prod.splits)
  define w0 where "w0 = put 0 1 (copyBits rbsp 0 (br_pos r) new_writer)"
  define w1 where "w1 = put_ue (snd (snd v)) (put_ue (fst (snd v)) (put_ue (fst v) w0))"
  define w where "w = put 1 1 (copyBits rbsp (br_pos r2) stop w1)"
  have o': "out = take 2 nal @ hevcEscape (bw_data w)"
    using assms h f os m fl st
    by (auto simp: hevcSingleOrderingSet_def rbsp_def [symmetric] Let_def w_def w1_def w0_def simp del: ordering_sets.simps split: if_splits option.splits prod.splits)
  have hd: "br_data r = rbsp" using reads_facts(1) [OF reads_ordering_header h] by (simp add: start_reader_def)
  note fo = flag_ok [OF f fl(2), unfolded hd]
  have nf: "\<not> br_failed r" using reads_facts(3) [OF reads_bits f] fl(2) by blast
  have sb: "stop < length rbsp * 8" using last_set_bound [OF st(1)] .
  note c0 = copyBits_ok [OF new_writer_ok(1), of 0 "br_pos r" rbsp]
  have w0: "writer_ok w0" "written w0 = take (br_pos r) (bits rbsp) @ [False]"
    using c0 fo(2) put_bits_ok [of "copyBits rbsp 0 (br_pos r) new_writer" 1 0] by (simp_all add: w0_def word_bits_Suc)
  have w1: "writer_ok w1" "written w1 = written w0 @ ue_code (fst v) @ ue_code (fst (snd v)) @ ue_code (snd (snd v))"
    using put_ue_ok [OF w0(1)] put_ue_ok [OF put_ue_ok(1) [OF w0(1)]] put_ue_ok [OF put_ue_ok(1) [OF put_ue_ok(1) [OF w0(1)]]]
    by (simp_all add: w1_def)
  note c1 = copyBits_ok [OF w1(1) st(3), of rbsp]
  have w: "writer_ok w" "written w = written w1 @ take (stop - br_pos r2) (drop (br_pos r2) (bits rbsp)) @ [True]"
    using c1 sb put_bits_ok [of "copyBits rbsp (br_pos r2) stop w1" 1 1] by (simp_all add: w_def word_bits_Suc)
  show ?thesis
    by (rule that [of m r ts r2 stop w, folded rbsp_def])
      (use h m nf fo fl(1) t st o' w w0 w1 in \<open>simp_all add: v_def del: read_triples.simps split: if_splits\<close>)
qed

lemma run_one_triple:
  assumes "drop (br_pos r) (bits (br_data r)) = ue_code d @ ue_code e @ ue_code l @ rest" and "\<not> br_failed r"
    and "d \<noteq> - 1" "e \<noteq> - 1" "l \<noteq> - 1"
  shows "fst (run_state (read_triples 1) r) = [(d, e, l)]"
proof -
  let ?r1 = "r\<lparr>br_pos := br_pos r + length (ue_code d)\<rparr>"
  let ?r2 = "?r1\<lparr>br_pos := br_pos ?r1 + length (ue_code e)\<rparr>"
  have d1: "drop (br_pos ?r1) (bits (br_data ?r1)) = ue_code e @ ue_code l @ rest"
    using arg_cong [OF assms(1), of "drop (length (ue_code d))"] by (simp add: add.commute)
  have d2: "drop (br_pos ?r2) (bits (br_data ?r2)) = ue_code l @ rest"
    using arg_cong [OF d1, of "drop (length (ue_code e))"] by (simp add: add.commute)
  have "run_state read_ue r = (d, ?r1)" using run_ue [OF assms(1,2,3)] .
  moreover have "run_state read_ue ?r1 = (e, ?r2)" using run_ue [OF d1 _ assms(4)] assms(2) by simp
  moreover have "run_state read_ue ?r2 = (l, ?r2\<lparr>br_pos := br_pos ?r2 + length (ue_code l)\<rparr>)" using run_ue [OF d2 _ assms(5)] assms(2) by simp
  ultimately show ?thesis by (simp add: run_bind)
qed

section \<open>Properties\<close>

text \<open>
  C30. A rewritten parameter set says the same as before, but its ordering info once for all sub-layers: its header
  and everything behind the ordering info are unchanged bit for bit, the one set has the largest picture buffer
  and reordering of all sub-layers and the latency of the highest, and a second pass leaves it alone.
\<close>

theorem ordering_signalled_once:
  assumes "hevcSingleOrderingSet nal typ = Some out" and "2 \<le> length nal"
  shows "let old = hevcUnescape (drop 2 nal); new = hevcUnescape (drop 2 out) in
    \<exists>m r ts r2 stop zs d e l.
      take 2 out = take 2 nal \<and>
      run_state (ordering_header typ) (start_reader old) = (m, r) \<and> \<not> br_failed r \<and>
      run_state (ordering_header typ) (start_reader new) = (m, r\<lparr>br_data := new\<rparr>) \<and>
      run_state (read_triples (unat m + 1)) (r\<lparr>br_pos := br_pos r + 1\<rparr>) = (ts, r2) \<and>
      d = Max (fst ` set ts) \<and> e = Max ((fst \<circ> snd) ` set ts) \<and> l = snd (snd (last ts)) \<and>
      lastSetBit old = Some stop \<and>
      bits new = take (br_pos r) (bits old) @ False # ue_code d @ ue_code e @ ue_code l @
        take (stop - br_pos r2) (drop (br_pos r2) (bits old)) @ True # zs \<and> list_all Not zs \<and> length zs < 8 \<and>
      fst (run_state (read_triples 1) (r\<lparr>br_data := new, br_pos := br_pos r + 1\<rparr>)) = [(d, e, l)] \<and>
      hevcSingleOrderingSet out typ = None"
proof -
  define old where "old = hevcUnescape (drop 2 nal)"
  obtain m r ts r2 stop w where h: "run_state (ordering_header typ) (start_reader old) = (m, r)" and m: "m \<noteq> 0"
    and nf: "\<not> br_failed r" and fl: "br_pos r < length old * 8" "bits old ! br_pos r"
    and t: "run_state (read_triples (unat m + 1)) (r\<lparr>br_pos := br_pos r + 1\<rparr>) = (ts, r2)" and nf2: "\<not> br_failed r2"
    and st: "lastSetBit old = Some stop" "br_pos r2 \<le> stop"
    and o': "out = take 2 nal @ hevcEscape (bw_data w)" and w: "writer_ok w"
    and wr: "written w = take (br_pos r) (bits old) @ False # ue_code (fst (highest ts (0, 0, 0))) @
       ue_code (fst (snd (highest ts (0, 0, 0)))) @ ue_code (snd (snd (highest ts (0, 0, 0)))) @
       take (stop - br_pos r2) (drop (br_pos r2) (bits old)) @ [True]"
    using ordering_parts [OF assms(1), folded old_def] .
  define new where "new = hevcUnescape (drop 2 out)"
  have new: "new = bw_data w" using assms(2) by (simp add: new_def o')
  have ts: "ts \<noteq> []" using triples_length [OF t] by auto
  obtain d e l where v: "highest ts (0, 0, 0) = (d, e, l)" by (cases "highest ts (0, 0, 0)") auto
  have del: "d = Max (fst ` set ts)" "e = Max ((fst \<circ> snd) ` set ts)" "l = snd (snd (last ts))" using v highest_zero [OF ts] by simp_all
  have nm: "d \<noteq> - 1" "e \<noteq> - 1" "l \<noteq> - 1" using highest_not_max [OF t, of 0 0 0] v by simp_all
  let ?tail = "take (stop - br_pos r2) (drop (br_pos r2) (bits old))"
  obtain zs where zs: "bits new = written w @ zs" "list_all Not zs" "length zs < 8" using bits_written [OF w] new by auto
  have b: "bits new = take (br_pos r) (bits old) @ False # ue_code d @ ue_code e @ ue_code l @ ?tail @ True # zs"
    using zs(1) wr v by simp
  have dr: "br_data r = old" using reads_facts(1) [OF reads_ordering_header h] by (simp add: start_reader_def)
  have h': "run_state (ordering_header typ) (start_reader new) = (m, r\<lparr>br_data := new\<rparr>)"
    using reads_same [OF reads_ordering_header h nf, of new] b by (simp add: start_reader_def)
  have at: "drop (br_pos r) (bits new) = False # ue_code d @ ue_code e @ ue_code l @ ?tail @ True # zs" using b fl(1) by simp
  have "run_state (read_bits 1) (r\<lparr>br_data := new\<rparr>) = (0, r\<lparr>br_data := new, br_pos := br_pos r + 1\<rparr>)"
    using run_flag [of "r\<lparr>br_data := new\<rparr>" False] at by simp
  then have again: "hevcSingleOrderingSet out typ = None" using h' m by (simp add: hevcSingleOrderingSet_def new_def [symmetric] Let_def)
  have one: "fst (run_state (read_triples 1) (r\<lparr>br_data := new, br_pos := br_pos r + 1\<rparr>)) = [(d, e, l)]"
    using run_one_triple [OF _ _ nm, of "r\<lparr>br_data := new, br_pos := br_pos r + 1\<rparr>"] drop_step [OF at] nf by simp
  have "take 2 out = take 2 nal" using assms(2) by (simp add: o')
  then show ?thesis unfolding Let_def old_def [symmetric] new_def [symmetric]
    using h nf h' t del st(1) b zs(2,3) one again by blast
qed

text \<open>The colours.\<close>

lemma colour_bits:
  assumes "writer_ok w"
  shows "writer_ok (writeColourDescription w)"
    and "written (writeColourDescription w) = written w @ True # word_bits (1 :: 32 word) 8 @ word_bits (1 :: 32 word) 8 @ word_bits (1 :: 32 word) 8"
  using put_bits_ok [OF assms, of 1 1] put_bits_ok [of "put 1 1 w" 8 1] put_bits_ok [of "put 1 8 (put 1 1 w)" 8 1]
    put_bits_ok [of "put 1 8 (put 1 8 (put 1 1 w))" 8 1]
  by (simp_all add: writeColourDescription_def word_bits_Suc [of _ 0, simplified])

lemma signal_bits:
  assumes "writer_ok w"
  shows "writer_ok (writeVideoSignalType w)"
    and "written (writeVideoSignalType w) =
      written w @ [True, True, False, True, False] @ True # word_bits (1 :: 32 word) 8 @ word_bits (1 :: 32 word) 8 @ word_bits (1 :: 32 word) 8"
proof -
  let ?a = "put 1 1 w" and ?b = "put 5 3 (put 1 1 w)"
  have f: "word_bits (5 :: 32 word) 3 = [True, False, True]" by code_simp
  have a: "writer_ok ?a" "written ?a = written w @ [True]" using put_bits_ok [OF assms, of 1 1] by (simp_all add: word_bits_Suc [of _ 0, simplified])
  have b: "writer_ok ?b" "written ?b = written w @ [True, True, False, True]" using put_bits_ok [OF a(1), of 3 5] a(2) f by simp_all
  have c: "writer_ok (put 0 1 ?b)" "written (put 0 1 ?b) = written w @ [True, True, False, True, False]"
    using put_bits_ok [OF b(1), of 1 0] b(2) by (simp_all add: word_bits_Suc [of _ 0, simplified])
  show "writer_ok (writeVideoSignalType w)"
    "written (writeVideoSignalType w) =
      written w @ [True, True, False, True, False] @ True # word_bits (1 :: 32 word) 8 @ word_bits (1 :: 32 word) 8 @ word_bits (1 :: 32 word) 8"
    using colour_bits [OF c(1)] c(2) by (simp_all add: writeVideoSignalType_def)
qed

lemma run_skip:
  assumes "br_pos r + n \<le> length (br_data r) * 8"
  shows "run_state (skip n) r = ((), r\<lparr>br_pos := br_pos r + n\<rparr>)"
  using assms by (simp add: skip_def Let_def)

lemma run_signal_colour:
  assumes "drop (br_pos r) (bits (br_data r)) =
      [True, x, y, z, full] @ True # word_bits (1 :: 32 word) 8 @ word_bits (1 :: 32 word) 8 @ word_bits (1 :: 32 word) 8 @ rest"
    and "\<not> br_failed r"
  shows "fst (run_state signal_colour r) = Some (of_bool full, Some (1, 1, 1))"
proof -
  let ?o = "word_bits (1 :: 32 word) 8"
  have d: "drop (br_pos r + k) (bits (br_data r)) = drop k ([True, x, y, z, full] @ True # ?o @ ?o @ ?o @ rest)" for k
    using arg_cong [OF assms(1), of "drop k"] by (simp add: add.commute)
  let ?r = "\<lambda>k. r\<lparr>br_pos := br_pos r + k\<rparr>"
  have f0: "run_state (read_bits 1) r = (1, ?r 1)" using run_flag [of r True] assms(1) by simp
  have len: "br_pos r + 30 \<le> length (br_data r) * 8"
    using arg_cong [OF assms(1), of length] by simp
  have s: "run_state (skip 3) (?r 1) = ((), ?r 4)" using run_skip [of "?r 1" 3] len by (simp add: add.assoc)
  have f1: "run_state (read_bits 1) (?r 4) = (of_bool full, ?r 5)" using run_flag [of "?r 4" full] d [of 4] by (simp add: add.assoc)
  have f2: "run_state (read_bits 1) (?r 5) = (1, ?r 6)" using run_flag [of "?r 5" True] d [of 5] by (simp add: add.assoc)
  have one: "take_bit 8 (1 :: 32 word) = 1" by simp
  have b1: "run_state (read_bits 8) (?r 6) = (1, ?r 14)" using run_bits [of "?r 6" 1 8] d [of 6] one by (simp add: add.assoc)
  have b2: "run_state (read_bits 8) (?r 14) = (1, ?r 22)" using run_bits [of "?r 14" 1 8] d [of 14] one by (simp add: add.assoc)
  have b3: "run_state (read_bits 8) (?r 22) = (1, ?r 30)" using run_bits [of "?r 22" 1 8] d [of 22] one by (simp add: add.assoc)
  show ?thesis by (simp add: signal_colour_def run_bind f0 s f1 f2 b1 b2 b3 del: One_nat_def)
qed

text \<open>A parameter set whose colours are described is left alone.\<close>

lemma described_kept:
  assumes "fst (run_state vui_colour r) = Some (x, Some c)"
  shows "withColour (br_data r) r f = Keep"
proof (cases "lastSetBit (br_data r)")
  case (Some stop)
  obtain v r1 where f1: "run_state (read_bits 1) r = (v, r1)" by fastforce
  obtain r2 where f2: "run_state vui_start r1 = ((), r2)" by (cases "run_state vui_start r1") simp
  obtain g r3 where f3: "run_state (read_bits 1) r2 = (g, r3)" by fastforce
  have nz: "v \<noteq> 0" "g \<noteq> 0" and sc: "fst (run_state signal_colour r2) = Some (x, Some c)"
    using assms f1 f2 f3 by (auto simp: vui_colour_def signal_colour_def run_bind split: if_splits)
  obtain r4 where f4: "run_state (skip 3) r3 = ((), r4)" by (cases "run_state (skip 3) r3") simp
  obtain q r5 where f5: "run_state (read_bits 1) r4 = (q, r5)" by fastforce
  obtain k r6 where f6: "run_state (read_bits 1) r5 = (k, r6)" by fastforce
  have k: "k \<noteq> 0" using sc f3 f4 f5 f6 nz(2) by (auto simp: signal_colour_def run_bind split: if_splits)
  then have k1: "k = 1" using flag_read [OF f6] by blast
  have p5: "br_pos r5 < length (br_data r5) * 8" using f6 k by (auto simp: read_bits_def run_bind read_bit_def split: if_splits)
  have r5: "r5 = r4\<lparr>br_pos := br_pos r4 + 1\<rparr>"
    using f5 p5 by (auto simp: read_bits_def run_bind read_bit_def split: if_splits)
  have r4: "r4 = r3\<lparr>br_pos := br_pos r3 + 3\<rparr>" using f4 p5 r5 by (auto simp: skip_def Let_def)
  have "run_state (skip (3 + 1)) r3 = ((), r5)"
    using p5 r5 r4 by (simp add: skip_def Let_def)
  then show ?thesis using Some f1 f2 f3 f6 nz k1 by (simp add: withColour_def)
qed (simp add: withColour_def)

lemma colour_end_ok:
  assumes "colour_end rbsp stop f (copy_prefix rbsp at) r = Replace out" and "lastSetBit rbsp = Some stop"
    and "\<And>w. writer_ok w \<Longrightarrow> writer_ok (f w) \<and> written (f w) = written w @ ins" and "at \<le> br_pos r"
  shows "edited rbsp out at ins (br_pos r)" and "\<not> br_failed r"
proof -
  have a: "at \<le> length rbsp * 8" and r: "\<not> br_failed r" "br_pos r \<le> stop"
    and out: "out = bw_data (put 1 1 (copyBits rbsp (br_pos r) stop (f (copyBits rbsp 0 at new_writer))))"
    using assms(1) by (auto simp: colour_end_def copy_prefix_def split: if_splits)
  show "\<not> br_failed r" by (rule r(1))
  let ?w0 = "copyBits rbsp 0 at new_writer"
  let ?w1 = "f ?w0"
  let ?w2 = "copyBits rbsp (br_pos r) stop ?w1"
  have w0: "writer_ok ?w0" "written ?w0 = take at (bits rbsp)" using copyBits_ok [OF new_writer_ok(1), of 0 at rbsp] a by simp_all
  have w1: "writer_ok ?w1" "written ?w1 = take at (bits rbsp) @ ins" using assms(3) [OF w0(1)] w0(2) by simp_all
  have w2: "writer_ok ?w2" "written ?w2 = written ?w1 @ take (stop - br_pos r) (drop (br_pos r) (bits rbsp))"
    using copyBits_ok [OF w1(1) r(2), of rbsp] last_set_bound [OF assms(2)] by simp_all
  have w3: "writer_ok (put 1 1 ?w2)" "written (put 1 1 ?w2) = written ?w2 @ [True]"
    using put_bits_ok [OF w2(1), of 1 1] by (simp_all add: word_bits_Suc [of _ 0, simplified])
  obtain zs where "bits out = written (put 1 1 ?w2) @ zs" "list_all Not zs" "length zs < 8" using bits_written [OF w3(1)] out by auto
  then show "edited rbsp out at ins (br_pos r)"
    unfolding edited_def using w1(2) w2(2) w3(2) assms(2,4) r(2) by auto
qed

lemma edited_start:
  assumes "edited old new at ins e"
  shows "\<exists>rest. bits new = take at (bits old) @ ins @ rest" and "at \<le> length old * 8" and "drop at (bits new) = ins @ drop (at + length ins) (bits new)"
proof -
  obtain stop zs where e: "lastSetBit old = Some stop" "at \<le> e" "e \<le> stop"
    "bits new = take at (bits old) @ ins @ take (stop - e) (drop e (bits old)) @ True # zs"
    using assms unfolding edited_def by blast
  show l: "at \<le> length old * 8" using e(2,3) last_set_bound [OF e(1)] by linarith
  show "\<exists>rest. bits new = take at (bits old) @ ins @ rest" using e(4) by blast
  have "length (take at (bits old)) = at" using l by simp
  then show "drop at (bits new) = ins @ drop (at + length ins) (bits new)" unfolding e(4) by simp
qed

text \<open>What has been read before an edit is read again after it.\<close>

lemma reads_edited:
  assumes "edited old new at ins e" and "reads m" and "run_state m r = (a, r')" and "\<not> br_failed r'" and "br_data r = old" and "br_pos r' \<le> at"
  shows "run_state m (r\<lparr>br_data := new\<rparr>) = (a, r'\<lparr>br_data := new\<rparr>)"
proof -
  obtain rest where b: "bits new = take at (bits old) @ ins @ rest" and l: "at \<le> length old * 8"
    using edited_start [OF assms(1)] by blast
  have p: "br_pos r \<le> length (br_data r) * 8"
    using reads_facts(2) [OF assms(2,3)] assms(5,6) l by simp
  have "bits new = take (br_pos r') (bits (br_data r)) @ drop (br_pos r') (take at (bits old)) @ ins @ rest"
    using b assms(5,6) by (metis append.assoc append_take_drop_id min.absorb1 take_take)
  then show ?thesis by (rule reads_same [OF assms(2,3,4) p])
qed

lemma run_no_vui:
  assumes "drop (br_pos r) (bits (br_data r)) = True # False # False # rest" and "\<not> br_failed r"
  shows "fst (run_state vui_colour r) = fst (run_state signal_colour (r\<lparr>br_pos := br_pos r + 3\<rparr>))"
proof -
  let ?r = "\<lambda>k. r\<lparr>br_pos := br_pos r + k\<rparr>"
  have d: "drop (br_pos r + k) (bits (br_data r)) = drop k (True # False # False # rest)" for k
    using arg_cong [OF assms(1), of "drop k"] by (simp add: add.commute)
  have "run_state (read_bits 1) r = (1, ?r 1)" using run_flag [of r True] assms(1) by simp
  moreover have "run_state (read_bits 1) (?r 1) = (0, ?r 2)" using run_flag [of "?r 1" False] d [of 1] by (simp add: add.assoc)
  moreover have "run_state (read_bits 1) (?r 2) = (0, ?r 3)" using run_flag [of "?r 2" False] d [of 2] by (simp add: add.assoc numeral_2_eq_2 numeral_3_eq_3)
  ultimately show ?thesis by (simp add: vui_colour_def vui_start_def run_bind del: One_nat_def)
qed

text \<open>A parameter set without a VUI.\<close>

lemma colour_without_vui:
  assumes "colour_end rbsp stop (\<lambda>w. f (writeVideoSignalType (put 0 1 (put 0 1 (put 1 1 w))))) (copy_prefix rbsp (br_pos r)) r1 = Replace out"
    and "lastSetBit rbsp = Some stop" and "\<And>w. writer_ok w \<Longrightarrow> writer_ok (f w) \<and> written (f w) = written w @ extra"
    and "run_state (read_bits 1) r = (0, r1)" and "br_data r = rbsp"
  shows "colour_added r rbsp out"
proof -
  let ?o = "word_bits (1 :: 32 word) 8"
  let ?ins = "True # False # False # [True, True, False, True, False] @ True # ?o @ ?o @ ?o @ extra"
  have w: "writer_ok (f (writeVideoSignalType (put 0 1 (put 0 1 (put 1 1 w))))) \<and>
     written (f (writeVideoSignalType (put 0 1 (put 0 1 (put 1 1 w))))) = written w @ ?ins" if "writer_ok w" for w
  proof -
    let ?a = "put 1 1 w" and ?b = "put 0 1 (put 1 1 w)" and ?c = "put 0 1 (put 0 1 (put 1 1 w))"
    have a: "writer_ok ?a" "written ?a = written w @ [True]" using put_bits_ok [OF that, of 1 1] by (simp_all add: word_bits_Suc [of _ 0, simplified])
    have b: "writer_ok ?b" "written ?b = written w @ [True, False]" using put_bits_ok [OF a(1), of 1 0] a(2) by (simp_all add: word_bits_Suc [of _ 0, simplified])
    have c: "writer_ok ?c" "written ?c = written w @ [True, False, False]"
      using put_bits_ok [OF b(1), of 1 0] b(2) by (simp_all add: word_bits_Suc [of _ 0, simplified])
    show ?thesis using signal_bits [OF c(1)] c(2) assms(3) [OF signal_bits(1) [OF c(1)]] by simp
  qed
  note e = colour_end_ok [OF assms(1,2) w reads_facts(2) [OF reads_bits assms(4)]]
  have nf: "\<not> br_failed r" using reads_facts(3) [OF reads_bits assms(4)] e(2) by blast
  note d = edited_start(3) [OF e(1)]
  let ?r = "r\<lparr>br_data := out\<rparr>"
  have "fst (run_state vui_colour ?r) = fst (run_state signal_colour (?r\<lparr>br_pos := br_pos ?r + 3\<rparr>))"
    using d nf by (intro run_no_vui) simp_all
  also have "\<dots> = Some (of_bool False, Some (1, 1, 1))"
    using arg_cong [OF d, of "drop 3"] nf by (intro run_signal_colour [of _ True False True]) (simp_all add: add.commute)
  finally show ?thesis
    using e(1) assms(4) by (auto simp: colour_added_def vui_colour_def run_bind)
qed

lemma described_after:
  assumes "edited rbsp out at ins e" and "br_data r = rbsp" and "run_state (read_bits 1) r = (v, r1)" and "v \<noteq> 0"
    and "run_state vui_start r1 = ((), r2)" and "\<not> br_failed r2" and "br_pos r2 \<le> at"
    and "drop (br_pos r2) (bits out) =
      [True, x, y, z, full] @ True # word_bits (1 :: 32 word) 8 @ word_bits (1 :: 32 word) 8 @ word_bits (1 :: 32 word) 8 @ rest"
  shows "fst (run_state vui_colour (r\<lparr>br_data := out\<rparr>)) = Some (of_bool full, Some (1, 1, 1))"
proof -
  have d1: "br_data r1 = rbsp" and p1: "br_pos r1 \<le> br_pos r2" and n1: "\<not> br_failed r1"
    using reads_facts [OF reads_bits assms(3)] reads_facts [OF reads_vui_start assms(5)] assms(2,6) by simp_all
  have a: "run_state (read_bits 1) (r\<lparr>br_data := out\<rparr>) = (v, r1\<lparr>br_data := out\<rparr>)"
    using p1 assms(7) by (intro reads_edited [OF assms(1) reads_bits assms(3) n1 assms(2)]) simp
  have b: "run_state vui_start (r1\<lparr>br_data := out\<rparr>) = ((), r2\<lparr>br_data := out\<rparr>)"
    by (rule reads_edited [OF assms(1) reads_vui_start assms(5,6) d1 assms(7)])
  have c: "fst (run_state signal_colour (r2\<lparr>br_data := out\<rparr>)) = Some (of_bool full, Some (1, 1, 1))"
    using assms(6,8) by (intro run_signal_colour [of _ x y z full rest]) simp_all
  show ?thesis using a b c assms(4) by (simp add: vui_colour_def run_bind del: One_nat_def)
qed

text \<open>A VUI without a signal type.\<close>

lemma colour_without_signal:
  assumes "colour_end rbsp stop writeVideoSignalType (copy_prefix rbsp (br_pos r2)) r3 = Replace out"
    and "lastSetBit rbsp = Some stop" and "br_data r = rbsp" and "run_state (read_bits 1) r = (v, r1)" and "v \<noteq> 0"
    and "run_state vui_start r1 = ((), r2)" and "run_state (read_bits 1) r2 = (0, r3)"
  shows "colour_added r rbsp out" and "\<not> br_failed r3"
proof -
  let ?o = "word_bits (1 :: 32 word) 8"
  note e = colour_end_ok [OF assms(1,2), of "[True, True, False, True, False] @ True # ?o @ ?o @ ?o"]
  have ed: "edited rbsp out (br_pos r2) ([True, True, False, True, False] @ True # ?o @ ?o @ ?o) (br_pos r3)" and nf: "\<not> br_failed r3"
    using e signal_bits reads_facts(2) [OF reads_bits assms(7)] by blast+
  show "\<not> br_failed r3" by (rule nf)
  have n2: "\<not> br_failed r2" using reads_facts(3) [OF reads_bits assms(7)] nf by blast
  have "fst (run_state vui_colour (r\<lparr>br_data := out\<rparr>)) = Some (of_bool False, Some (1, 1, 1))"
    using edited_start(3) [OF ed] by (intro described_after [OF ed assms(3,4,5,6) n2, of True False True False]) simp_all
  moreover have "fst (run_state vui_colour r) = None"
    using assms(4-7) by (simp add: vui_colour_def signal_colour_def run_bind del: One_nat_def)
  moreover have "br_pos r \<le> br_pos r2"
    using reads_facts(2) [OF reads_bits assms(4)] reads_facts(2) [OF reads_vui_start assms(6)] by linarith
  ultimately show "colour_added r rbsp out" using ed by (auto simp: colour_added_def)
qed

text \<open>A signal type without a description of the colours.\<close>

lemma colour_without_description:
  assumes "colour_end rbsp stop writeColourDescription (copy_prefix rbsp (br_pos r4)) r5 = Replace out"
    and "lastSetBit rbsp = Some stop" and "br_data r = rbsp" and "run_state (read_bits 1) r = (v, r1)" and "v \<noteq> 0"
    and "run_state vui_start r1 = ((), r2)" and "run_state (read_bits 1) r2 = (g, r3)" and "g \<noteq> 0"
    and "run_state (skip (3 + 1)) r3 = ((), r4)" and "run_state (read_bits 1) r4 = (0, r5)"
  shows "colour_added r rbsp out"
proof -
  let ?o = "word_bits (1 :: 32 word) 8"
  have ed: "edited rbsp out (br_pos r4) (True # ?o @ ?o @ ?o) (br_pos r5)" and nf: "\<not> br_failed r5"
    using colour_end_ok [OF assms(1,2), of "True # ?o @ ?o @ ?o"] colour_bits reads_facts(2) [OF reads_bits assms(10)] by blast+
  have nfs: "\<not> br_failed r4" "\<not> br_failed r3" "\<not> br_failed r2"
    using reads_facts(3) [OF reads_bits assms(10)] reads_facts(3) [OF reads_skip assms(9)] reads_facts(3) [OF reads_bits assms(7)] nf by blast+
  have d2: "br_data r2 = rbsp"
    using reads_facts(1) [OF reads_bits assms(4)] reads_facts(1) [OF reads_vui_start assms(6)] assms(3) by simp
  note f3 = flag_ok [OF assms(7) nfs(2), unfolded d2]
  have p4: "br_pos r4 = br_pos r2 + 5" and r4: "r4 = r3\<lparr>br_pos := br_pos r3 + 4\<rparr>" using assms(9) f3(1) nfs(1) by (auto simp: skip_def Let_def)
  have l4: "br_pos r2 + 5 \<le> length rbsp * 8" using edited_start(2) [OF ed] p4 by simp
  define x where "x = (\<lambda>k. bits rbsp ! (br_pos r2 + k))"
  have five: "drop (br_pos r2) (take (br_pos r2 + 5) (bits rbsp)) = [x 0, x 1, x 2, x 3, x 4]"
    using l4 by (intro nth_equalityI) (auto simp: x_def less_Suc_eq numeral_eq_Suc)
  have x0: "x 0" using f3(3) assms(8) by (simp add: x_def split: if_splits)
  obtain rest where b: "bits out = take (br_pos r2 + 5) (bits rbsp) @ (True # ?o @ ?o @ ?o) @ rest" using edited_start(1) [OF ed] p4 by auto
  have "drop (br_pos r2) (bits out) = [True, x 1, x 2, x 3, x 4] @ True # ?o @ ?o @ ?o @ rest"
    unfolding b using five x0 l4 by simp
  then have new: "fst (run_state vui_colour (r\<lparr>br_data := out\<rparr>)) = Some (of_bool (x 4), Some (1, 1, 1))"
    using p4 by (intro described_after [OF ed assms(3-6) nfs(3)]) simp_all
  have "run_state (skip 3) r3 = ((), r3\<lparr>br_pos := br_pos r3 + 3\<rparr>)"
    using l4 f3(1) d2 by (intro run_skip) simp
  moreover have "run_state (read_bits 1) (r3\<lparr>br_pos := br_pos r3 + 3\<rparr>) = (of_bool (x 4), r4)"
    using run_flag [of "r3\<lparr>br_pos := br_pos r3 + 3\<rparr>" "x 4" "drop (br_pos r2 + 5) (bits rbsp)"] l4 f3(1) d2 r4
    by (simp add: x_def Cons_nth_drop_Suc numeral_eq_Suc)
  ultimately have "fst (run_state vui_colour r) = Some (of_bool (x 4), None)"
    using assms(4-8,10) by (simp add: vui_colour_def signal_colour_def run_bind del: One_nat_def)
  moreover have "br_pos r \<le> br_pos r4"
    using reads_facts(2) [OF reads_bits assms(4)] reads_facts(2) [OF reads_vui_start assms(6)] p4 by linarith
  ultimately show ?thesis using new ed by (auto simp: colour_added_def)
qed

lemma with_colour_ok:
  assumes "withColour rbsp r f = Replace out" and "br_data r = rbsp"
    and "\<And>w. writer_ok w \<Longrightarrow> writer_ok (f w) \<and> written (f w) = written w @ extra"
  shows "colour_added r rbsp out" and "\<not> br_failed r"
proof -
  obtain stop where st: "lastSetBit rbsp = Some stop" "\<not> br_failed r"
    using assms(1) by (auto simp: withColour_def split: option.splits if_splits)
  show "\<not> br_failed r" by (rule st(2))
  obtain v r1 where f1: "run_state (read_bits 1) r = (v, r1)" by fastforce
  obtain r2 where f2: "run_state vui_start r1 = ((), r2)" by (cases "run_state vui_start r1") simp
  obtain g r3 where f3: "run_state (read_bits 1) r2 = (g, r3)" by fastforce
  obtain r4 where f4: "run_state (skip (3 + 1)) r3 = ((), r4)" by (cases "run_state (skip (3 + 1)) r3") simp
  obtain c r5 where f5: "run_state (read_bits 1) r4 = (c, r5)" by fastforce
  note run = assms(1) [unfolded withColour_def st(1) option.case f1 f2 f3 f4 f5 prod.case]
  consider "v = 0" | "v \<noteq> 0" "g = 0" | "v \<noteq> 0" "g \<noteq> 0" "c = 0" | "v \<noteq> 0" "g \<noteq> 0" "c = 1" using flag_read [OF f5] by blast
  then show "colour_added r rbsp out"
  proof cases
    case 1
    then show ?thesis using run st(2) f1 by (intro colour_without_vui [OF _ st(1) assms(3) _ assms(2)]) (auto split: if_splits)
  next
    case 2
    then show ?thesis using run st(2) f3 by (intro colour_without_signal [OF _ st(1) assms(2) f1 _ f2]) (auto split: if_splits)
  next
    case 3
    then show ?thesis using run st(2) f5 by (intro colour_without_description [OF _ st(1) assms(2) f1 _ f2 f3 _ f4]) (auto split: if_splits)
  next
    case 4
    then show ?thesis using run by (simp split: if_splits)
  qed
qed

lemma zeros_ok: "k \<le> 32 \<Longrightarrow> writer_ok w \<Longrightarrow> writer_ok (put 0 k w) \<and> written (put 0 k w) = written w @ replicate k False"
  using put_bits_ok [of w k 0] by (simp add: word_bits_zero)

text \<open>The two codecs differ in the header of the NAL unit and in what comes before the VUI.\<close>

lemma sps_with_colour:
  assumes "reads hdr" and "n \<le> length nal" and "k \<le> 32"
    and "run_state hdr (start_reader (hevcUnescape (drop n nal))) = (ok, r)"
    and "withColour (hevcUnescape (drop n nal)) r (put 0 k) = Replace b" and "out = take n nal @ hevcEscape b"
  shows "let old = hevcUnescape (drop n nal); new = hevcUnescape (drop n out) in
     take n out = take n nal \<and> colour_added r old new \<and> run_state hdr (start_reader new) = (ok, r\<lparr>br_data := new\<rparr>) \<and>
     withColour new (r\<lparr>br_data := new\<rparr>) (put 0 k) = Keep"
proof -
  define old where "old = hevcUnescape (drop n nal)"
  have new: "hevcUnescape (drop n out) = b" and tn: "take n out = take n nal" using assms(2,6) by simp_all
  have d: "br_data r = old" using reads_facts(1) [OF assms(1,4)] by (simp add: start_reader_def old_def)
  note wc = with_colour_ok [OF assms(5) [folded old_def] d zeros_ok [OF assms(3)]]
  obtain at ins e where ed: "br_pos r \<le> at" "edited old b at ins e" using wc(1) by (auto simp: colour_added_def)
  have "run_state hdr (start_reader old\<lparr>br_data := b\<rparr>) = (ok, r\<lparr>br_data := b\<rparr>)"
    using assms(4) by (intro reads_edited [OF ed(2) assms(1) _ wc(2) _ ed(1)]) (simp_all add: old_def start_reader_def)
  moreover have "withColour b (r\<lparr>br_data := b\<rparr>) (put 0 k) = Keep"
    using described_kept [of "r\<lparr>br_data := b\<rparr>"] wc(1) by (simp add: colour_added_def)
  ultimately show ?thesis using wc(1) tn by (simp add: Let_def new old_def [symmetric] start_reader_def)
qed

text \<open>
  C31. A sequence parameter set that is rewritten says the same as before up to its VUI, in both codecs; its VUI says
  that the colours are BT.709, keeps the range it gave and has the limited range where it gave none; and a second
  pass leaves it alone.
\<close>

theorem colours_described:
  assumes "2 \<le> length nal"
  shows "(h264SPSWithColour nal = Replace out \<longrightarrow>
      (let old = hevcUnescape (drop 1 nal); new = hevcUnescape (drop 1 out) in
       take 1 out = take 1 nal \<and> h264SPSWithColour out = Keep \<and>
       (\<exists>r. run_state h264_sps (start_reader old) = (True, r) \<and> run_state h264_sps (start_reader new) = (True, r\<lparr>br_data := new\<rparr>) \<and>
          colour_added r old new))) \<and>
    (hevcSPSWithColour nal = Replace out \<longrightarrow>
      (let old = hevcUnescape (drop 2 nal); new = hevcUnescape (drop 2 out) in
       take 2 out = take 2 nal \<and> hevcSPSWithColour out = Keep \<and>
       (\<exists>r. run_state hevc_sps (start_reader old) = (True, r) \<and> run_state hevc_sps (start_reader new) = (True, r\<lparr>br_data := new\<rparr>) \<and>
          colour_added r old new)))"
proof (intro conjI impI)
  assume h: "h264SPSWithColour nal = Replace out"
  obtain ok r where r: "run_state h264_sps (start_reader (hevcUnescape (drop 1 nal))) = (ok, r)" by fastforce
  obtain b where b: "ok" "withColour (hevcUnescape (drop 1 nal)) r (put 0 6) = Replace b" "out = take 1 nal @ hevcEscape b"
    using h r by (auto simp: h264SPSWithColour_def Let_def split: if_splits rewrite.splits)
  have "1 \<le> length nal" using assms by simp
  from sps_with_colour [OF reads_h264_sps this _ r b(2,3)] b(1) r
  show "let old = hevcUnescape (drop 1 nal); new = hevcUnescape (drop 1 out) in
       take 1 out = take 1 nal \<and> h264SPSWithColour out = Keep \<and>
       (\<exists>r. run_state h264_sps (start_reader old) = (True, r) \<and> run_state h264_sps (start_reader new) = (True, r\<lparr>br_data := new\<rparr>) \<and>
          colour_added r old new)"
    by (simp add: Let_def h264SPSWithColour_def [of out])
next
  assume h: "hevcSPSWithColour nal = Replace out"
  obtain ok r where r: "run_state hevc_sps (start_reader (hevcUnescape (drop 2 nal))) = (ok, r)" by fastforce
  obtain b where b: "ok" "withColour (hevcUnescape (drop 2 nal)) r (put 0 7) = Replace b" "out = take 2 nal @ hevcEscape b"
    using h r by (auto simp: hevcSPSWithColour_def Let_def split: if_splits rewrite.splits)
  from sps_with_colour [OF reads_hevc_sps assms _ r b(2,3)] b(1) r
  show "let old = hevcUnescape (drop 2 nal); new = hevcUnescape (drop 2 out) in
       take 2 out = take 2 nal \<and> hevcSPSWithColour out = Keep \<and>
       (\<exists>r. run_state hevc_sps (start_reader old) = (True, r) \<and> run_state hevc_sps (start_reader new) = (True, r\<lparr>br_data := new\<rparr>) \<and>
          colour_added r old new)"
    by (simp add: Let_def hevcSPSWithColour_def [of out])
qed

lemma smartPVPS_run: "\<exists>out. hevcSingleOrderingSet smartPVPS 32 = Some out"
proof -
  define rbsp where "rbsp = hevcUnescape (drop 2 smartPVPS)"
  have h: "fst (run_state (ordering_header 32) (start_reader rbsp)) = 1"
    and f: "fst (run_state (read_bits 1) (snd (run_state (ordering_header 32) (start_reader rbsp)))) = 1"
    and n: "\<not> br_failed (snd (run_state (read_bits 1) (snd (run_state (ordering_header 32) (start_reader rbsp)))))"
    and e: "(case lastSetBit rbsp of None \<Rightarrow> False | Some stop \<Rightarrow>
       (let r = snd (run_state (ordering_sets 2 (0, 0, 0)) (snd (run_state (read_bits 1) (snd (run_state (ordering_header 32) (start_reader rbsp))))))
        in \<not> br_failed r \<and> br_pos r \<le> stop))"
    unfolding rbsp_def by code_simp+
  obtain m r where r: "run_state (ordering_header 32) (start_reader rbsp) = (m, r)" by fastforce
  obtain b r1 where r1: "run_state (read_bits 1) r = (b, r1)" by fastforce
  obtain v r2 where r2: "run_state (ordering_sets 2 (0, 0, 0)) r1 = (v, r2)" by fastforce
  obtain stop where s: "lastSetBit rbsp = Some stop" using e by (auto split: option.splits)
  have m: "m = 1" using h r by simp
  have u: "unat m + 1 = 2" unfolding m by simp
  show ?thesis using h f n e
    by (cases v) (simp add: hevcSingleOrderingSet_def rbsp_def [symmetric] Let_def r r1 r2 s u m del: One_nat_def)
qed

theorem ordering_signalled_once_witness:
  "\<exists>out. hevcSingleOrderingSet smartPVPS 32 = Some out \<and> take 2 out = take 2 smartPVPS \<and> hevcSingleOrderingSet out 32 = None"
proof -
  have l: "2 \<le> length smartPVPS" by (simp add: smartPVPS_def)
  obtain out where o': "hevcSingleOrderingSet smartPVPS 32 = Some out" using smartPVPS_run by blast
  from ordering_signalled_once [OF o' l] o' show ?thesis unfolding Let_def by blast
qed

lemma standH264SPS_run: "\<exists>out. h264SPSWithColour standH264SPS = Replace out"
proof -
  define rbsp where "rbsp = hevcUnescape (drop 1 standH264SPS)"
  have o': "fst (run_state h264_sps (start_reader rbsp))"
    and f: "run_state (read_bits 1) (snd (run_state h264_sps (start_reader rbsp))) =
      (0, (snd (run_state h264_sps (start_reader rbsp)))\<lparr>br_pos := br_pos (snd (run_state h264_sps (start_reader rbsp))) + 1\<rparr>)"
    and e: "(case lastSetBit rbsp of None \<Rightarrow> False | Some stop \<Rightarrow>
       (let r = snd (run_state h264_sps (start_reader rbsp)) in \<not> br_failed r \<and> br_pos r + 1 \<le> stop \<and> br_pos r \<le> length rbsp * 8))"
    unfolding rbsp_def by code_simp+
  obtain ok r where r: "run_state h264_sps (start_reader rbsp) = (ok, r)" by fastforce
  obtain stop where s: "lastSetBit rbsp = Some stop" using e by (auto split: option.splits)
  show ?thesis using o' f e
    by (simp add: h264SPSWithColour_def rbsp_def [symmetric] Let_def r s withColour_def colour_end_def copy_prefix_def del: One_nat_def)
qed

theorem colours_described_witness:
  "\<exists>out. h264SPSWithColour standH264SPS = Replace out \<and> take 1 out = take 1 standH264SPS \<and> h264SPSWithColour out = Keep"
proof -
  have l: "2 \<le> length standH264SPS" by (simp add: standH264SPS_def)
  obtain out where o': "h264SPSWithColour standH264SPS = Replace out" using standH264SPS_run by blast
  from mp [OF conjunct1 [OF colours_described [OF l]] o'] o' show ?thesis unfolding Let_def by blast
qed

text \<open>
  A sequence parameter set whose VUI ends inside its aspect ratio is not left alone: the copy of the bits before the
  signal type runs past the end of the data.
\<close>

theorem truncated_vui_panics: "h264SPSWithColour truncatedSPS = Panic"
proof -
  define rbsp where "rbsp = hevcUnescape (drop 1 truncatedSPS)"
  define r where "r = snd (run_state h264_sps (start_reader rbsp))"
  define r2 where "r2 = snd (run_state vui_start (snd (run_state (read_bits 1) r)))"
  have o': "fst (run_state h264_sps (start_reader rbsp))" and f: "fst (run_state (read_bits 1) r) = 1"
    and g: "fst (run_state (read_bits 1) r2) = 0" and p: "br_pos r2 > length rbsp * 8"
    and e: "(case lastSetBit rbsp of None \<Rightarrow> False | Some stop \<Rightarrow> \<not> br_failed r \<and> br_pos r \<le> stop)"
    unfolding r2_def r_def rbsp_def by code_simp+
  obtain stop where s: "lastSetBit rbsp = Some stop" using e by (auto split: option.splits)
  show ?thesis using o' f g p e
    by (simp add: h264SPSWithColour_def rbsp_def [symmetric] Let_def split_beta r_def [symmetric] r2_def [symmetric] s
      withColour_def colour_end_def copy_prefix_def del: One_nat_def)
qed

end
