(* ===== verification/Video_Frames.thy ===== *)
theory Video_Frames
  imports Parameter_Sets
begin

text \<open>
  What the rewriting of parameter sets makes of a whole frame: the NAL units before the first slice are a
  sequence with gaps between them, each unit is replaced or kept, and the slices stay where they are.
\<close>

section \<open>A frame as a sequence of units\<close>

definition strip_zeros :: "bytes \<Rightarrow> bytes" where
  "strip_zeros xs = List.rev (dropWhile (\<lambda>x. x = 0) (List.rev xs))"

text \<open>
  The units behind a start code, each with what separates it from the next, and the rest of the frame from the
  first slice on.
\<close>

function nals :: "(byte \<Rightarrow> bool) \<Rightarrow> bytes \<Rightarrow> (bytes \<times> bytes) list \<times> bytes" where
  "nals isSlice body =
     (if body = [] \<or> isSlice (hd body) then ([], body)
      else case annexb_index body of
        None \<Rightarrow> ([(body, [])], [])
      | Some k \<Rightarrow>
          let n = strip_zeros (take k body); gap = drop (length n) (take k body) @ [0, 0, 1]
          in case nals isSlice (drop (k + 3) body) of (us, r) \<Rightarrow> ((n, gap) # us, r))"
  by auto
termination
  by (relation "measure (\<lambda>(s, b). length b)") auto

declare nals.simps [simp del]

text \<open>A frame before its first start code, its units and the rest; \<open>None\<close> is a frame without a start code.\<close>

definition frame_units :: "(byte \<Rightarrow> bool) \<Rightarrow> bytes \<Rightarrow> (bytes \<times> (bytes \<times> bytes) list \<times> bytes) option" where
  "frame_units isSlice data =
     (case annexb_index data of
        None \<Rightarrow> None
      | Some i \<Rightarrow> (case nals isSlice (drop (i + 3) data) of (us, r) \<Rightarrow> Some (take (i + 3) data, us, r)))"

definition rewritten :: "(bytes \<Rightarrow> rewrite) \<Rightarrow> bytes \<Rightarrow> bytes" where
  "rewritten rw n = (case rw n of Replace x \<Rightarrow> x | _ \<Rightarrow> n)"

definition unit_bytes :: "(bytes \<times> bytes) list \<Rightarrow> bytes" where
  "unit_bytes us = concat (map (\<lambda>(n, g). n @ g) us)"

fun offsets :: "nat \<Rightarrow> (bytes \<times> bytes) list \<Rightarrow> (nat \<times> nat) list" where
  "offsets p [] = []"
| "offsets p ((n, g) # us) = (p, p + length n) # offsets (p + length n + length g) us"

text \<open>A rewriting that gives units of the same kind, which contain no start code.\<close>

definition unit_rewriting :: "(bytes \<Rightarrow> rewrite) \<Rightarrow> bytes \<Rightarrow> bool" where
  "unit_rewriting rw n \<longleftrightarrow> (\<forall>x. rw n = Replace x \<longrightarrow> n \<noteq> [] \<and> x \<noteq> [] \<and> hd x = hd n \<and> closed_nal x)"

definition splice_end :: "nat \<Rightarrow> (nat \<times> nat \<times> bytes) list \<Rightarrow> nat" where
  "splice_end from rs = (if rs = [] then from else fst (snd (last rs)))"

definition rewritten_units :: "(bytes \<Rightarrow> rewrite) \<Rightarrow> (bytes \<times> bytes) list \<Rightarrow> (bytes \<times> bytes) list" where
  "rewritten_units rw us = map (\<lambda>(n, g). (rewritten rw n, g)) us"

text \<open>How a codec recognises its slices and what it rewrites.\<close>

definition slice_test :: "VideoCodec \<Rightarrow> byte \<Rightarrow> bool" where
  "slice_test codec = (case codec of H264 \<Rightarrow> isH264Slice | H265 \<Rightarrow> isHEVCSlice)"

definition codec_rewrite :: "VideoCodec \<Rightarrow> bool \<Rightarrow> bytes \<Rightarrow> rewrite" where
  "codec_rewrite codec colour = (case codec of H264 \<Rightarrow> if colour then rewrite_h264 else (\<lambda>_. Keep) | H265 \<Rightarrow> rewrite_hevc colour)"

definition idr_frame :: bytes where
  "idr_frame = [0, 0, 0, 1] @ smartPVPS @ [0, 0, 0, 1, 0x26, 0x01, 0xaf, 0, 0, 1, 0x40]"

section \<open>Lemmas\<close>

lemma strip_zeros_snoc: "strip_zeros (xs @ [x]) = (if x = 0 then strip_zeros xs else xs @ [x])"
  by (simp add: strip_zeros_def)

lemma strip_zeros_Nil [simp]: "strip_zeros [] = []"
  by (simp add: strip_zeros_def)

lemma strip_zeros_length: "length (strip_zeros xs) \<le> length xs"
  unfolding strip_zeros_def using length_dropWhile_le [of "\<lambda>x. x = 0" "List.rev xs"] by simp

lemma strip_zeros_append: "strip_zeros xs @ replicate (length xs - length (strip_zeros xs)) 0 = xs"
proof (induction xs rule: rev_induct)
  case (snoc x xs)
  have "replicate (Suc k) (0 :: 8 word) = replicate k 0 @ [0]" for k by (simp add: replicate_append_same)
  then show ?case using snoc strip_zeros_length [of xs] by (simp add: strip_zeros_snoc Suc_diff_le del: replicate_Suc)
qed simp

lemma strip_zeros_last: "strip_zeros xs \<noteq> [] \<Longrightarrow> last (strip_zeros xs) \<noteq> 0"
  unfolding strip_zeros_def by (metis (mono_tags) hd_dropWhile last_rev rev_is_Nil_conv)

lemma strip_zeros_id: "xs = [] \<or> last xs \<noteq> 0 \<Longrightarrow> strip_zeros (xs @ replicate k 0) = xs"
proof (induction k)
  case 0
  then show ?case by (cases xs rule: rev_cases) (simp_all add: strip_zeros_snoc)
next
  case (Suc k)
  have "xs @ replicate (Suc k) 0 = (xs @ replicate k 0) @ [0]" by (simp add: replicate_append_same)
  then show ?case using Suc strip_zeros_snoc [of "xs @ replicate k 0" 0] by simp
qed

lemma strip_closed: "annexb_index xs = None \<Longrightarrow> closed_nal (strip_zeros xs)"
  unfolding closed_nal_def using index_prefix [of "strip_zeros xs"] strip_zeros_append [of xs] strip_zeros_last [of xs] by metis

lemma trim_end_strip:
  assumes "length pre \<le> e" and "e \<le> length data" and "take (length pre) data = pre"
  shows "trim_end data (length pre) e = length pre + length (strip_zeros (drop (length pre) (take e data)))"
  using assms
proof (induction e)
  case (Suc e)
  show ?case
  proof (cases "Suc e > length pre")
    case True
    have t: "take (Suc e) data = take e data @ [data ! e]" using Suc.prems by (simp add: take_Suc_conv_app_nth)
    have d: "drop (length pre) (take (Suc e) data) = drop (length pre) (take e data) @ [data ! e]" using True Suc.prems by (simp add: t)
    show ?thesis
    proof (cases "data ! e = 0")
      case z: True
      then show ?thesis using Suc True d by (simp add: strip_zeros_def)
    next
      case z: False
      then show ?thesis using Suc.prems True d by (simp add: strip_zeros_def)
    qed
  next
    case False
    then have "length pre = Suc e" using Suc.prems by simp
    then show ?thesis by (simp add: strip_zeros_def)
  qed
qed simp

lemma scan_at:
  "3 \<le> p \<Longrightarrow> scan_from s data (p - 3) =
     (if p \<ge> length data \<or> s (data ! p) then []
      else case annexb_index (drop p data) of
        None \<Rightarrow> [(p, length data)]
      | Some k \<Rightarrow> (p, trim_end data p (p + k)) # scan_from s data (p + k))"
  by (subst scan_from.simps) (simp add: Let_def)

lemma nals_Some:
  "\<not> (body = [] \<or> s (hd body)) \<Longrightarrow> annexb_index body = Some k \<Longrightarrow>
   nals s body = ((strip_zeros (take k body), drop (length (strip_zeros (take k body))) (take k body) @ [0, 0, 1]) #
     fst (nals s (drop (k + 3) body)), snd (nals s (drop (k + 3) body)))"
  by (subst nals.simps) (simp add: Let_def split_beta)

lemma scan_nals:
  assumes "3 \<le> length pre"
  shows "scan_from s (pre @ body) (length pre - 3) = offsets (length pre) (fst (nals s body))"
  using assms
proof (induction s body arbitrary: pre rule: nals.induct)
  case (1 s body)
  show ?case
  proof (cases "body = [] \<or> s (hd body)")
    case True
    then show ?thesis by (subst nals.simps) (auto simp: scan_at [OF "1.prems"] nth_append hd_conv_nth)
  next
    case False
    then have nb: "\<not> (length pre \<ge> length (pre @ body) \<or> s ((pre @ body) ! length pre))" by (auto simp: nth_append hd_conv_nth)
    show ?thesis
    proof (cases "annexb_index body")
      case None
      then show ?thesis using False nb by (subst nals.simps) (simp add: scan_at [OF "1.prems"])
    next
      case (Some k)
      note l = index_length [OF Some]
      let ?n = "strip_zeros (take k body)"
      have te: "trim_end (pre @ body) (length pre) (length pre + k) = length pre + length ?n"
        using trim_end_strip [of pre "length pre + k" "pre @ body"] l by simp
      have ln: "length ?n \<le> k" using strip_zeros_length [of "take k body"] l by simp
      have IH: "scan_from s (pre @ body) (length pre + k) = offsets (length pre + k + 3) (fst (nals s (drop (k + 3) body)))"
        using "1.IH" [OF False Some refl refl, of "pre @ take (k + 3) body"] l "1.prems" by (simp add: add.assoc)
      have gap: "length pre + length ?n + length (drop (length ?n) (take k body) @ [0, 0, 1 :: 8 word]) = length pre + k + 3" using ln l by simp
      have dp: "drop (length pre) (pre @ body) = body" by simp
      show ?thesis
        by (simp only: scan_at [OF "1.prems"] nb if_False dp Some option.case te IH nals_Some [of body s, OF False Some] fst_conv offsets.simps gap)
    qed
  qed
qed

lemma nals_bytes: "unit_bytes (fst (nals s body)) @ snd (nals s body) = body"
proof (induction s body rule: nals.induct)
  case (1 s body)
  show ?case
  proof (cases "body = [] \<or> s (hd body)")
    case True
    then show ?thesis by (subst (1 2) nals.simps) (simp add: unit_bytes_def)
  next
    case False
    show ?thesis
    proof (cases "annexb_index body")
      case None
      then show ?thesis using False by (subst (1 2) nals.simps) (simp add: unit_bytes_def)
    next
      case (Some k)
      have b: "take k body @ 0 # 0 # 1 # drop (k + 3) body = body" using index_Some [OF Some] by simp
      have n: "strip_zeros (take k body) @ drop (length (strip_zeros (take k body))) (take k body) = take k body"
        using strip_zeros_append [of "take k body"] by (metis append_eq_conv_conj)
      have IH: "unit_bytes (fst (nals s (drop (k + 3) body))) @ snd (nals s (drop (k + 3) body)) = drop (k + 3) body"
        using "1.IH" [OF False Some refl refl] .
      have "unit_bytes ((a, g) # us) @ r = (a @ g) @ unit_bytes us @ r" for a g us r by (simp add: unit_bytes_def)
      then show ?thesis using IH b n by (simp only: nals_Some [of body s, OF False Some] fst_conv snd_conv) (metis append.assoc append_Cons append_Nil)
    qed
  qed
qed

text \<open>Putting the replaced units in.\<close>

lemma replacements_Cons:
  "replacements data rw ((s, e) # bs) =
     (case rw (slice data s e) of Replace x \<Rightarrow> (s, e, x) # replacements data rw bs | _ \<Rightarrow> replacements data rw bs)"
  by (simp add: replacements_def List.map_filter_simps split: rewrite.splits)

lemma splice_units:
  assumes "data = pre @ unit_bytes us @ r" and "from \<le> length pre"
  shows "splice data from (replacements data rw (offsets (length pre) us)) @
      drop (splice_end from (replacements data rw (offsets (length pre) us))) data =
    slice data from (length pre) @ unit_bytes (rewritten_units rw us) @ r"
  using assms
proof (induction us arbitrary: pre "from")
  case Nil
  then show ?case by (simp add: replacements_def List.map_filter_simps splice_end_def unit_bytes_def rewritten_units_def slice_def)
next
  case (Cons u us)
  obtain n g where u: "u = (n, g)" by (cases u)
  let ?p = "length pre" and ?pre = "pre @ n @ g"
  have d: "data = ?pre @ unit_bytes us @ r" using Cons.prems(1) by (simp add: u unit_bytes_def)
  have p: "length ?pre = ?p + length n + length g" by simp
  have n: "slice data ?p (?p + length n) = n" using d by (simp add: slice_def)
  let ?rs = "replacements data rw (offsets (?p + length n + length g) us)"
  show ?case
  proof (cases "\<exists>x. rw n = Replace x")
    case True
    then obtain x where x: "rw n = Replace x" by blast
    have IH: "splice data (?p + length n) ?rs @ drop (splice_end (?p + length n) ?rs) data =
        slice data (?p + length n) (length ?pre) @ unit_bytes (rewritten_units rw us) @ r"
      using Cons.IH [OF d, of "?p + length n"] by (simp add: add.assoc)
    have g: "slice data (?p + length n) (length ?pre) = g" using d by (simp add: slice_def)
    have e: "splice_end from ((?p, ?p + length n, x) # ?rs) = splice_end (?p + length n) ?rs" by (simp add: splice_end_def)
    show ?thesis using IH g x
      by (simp add: u replacements_Cons n e) (simp add: unit_bytes_def rewritten_units_def rewritten_def)
  next
    case False
    then have k: "replacements data rw (offsets ?p (u # us)) = ?rs" by (simp add: u replacements_Cons n split: rewrite.splits)
    have IH: "splice data from ?rs @ drop (splice_end from ?rs) data =
        slice data from (length ?pre) @ unit_bytes (rewritten_units rw us) @ r"
      using Cons.IH [OF d, of "from"] Cons.prems(2) by (simp add: add.assoc)
    have "slice data from (length ?pre) = slice data from ?p @ n @ g" using d Cons.prems(2) by (simp add: slice_def)
    moreover have "rewritten rw n = n" using False by (simp add: rewritten_def split: rewrite.splits)
    ultimately show ?thesis using IH by (simp only: k) (simp add: u unit_bytes_def rewritten_units_def)
  qed
qed

lemma unit_bytes_Cons: "unit_bytes ((n, g) # us) = n @ g @ unit_bytes us"
  by (simp add: unit_bytes_def)

text \<open>A frame made of rewritten units has these units.\<close>

lemma nals_rebuild:
  assumes "\<And>n g. (n, g) \<in> set (fst (nals s body)) \<Longrightarrow> unit_rewriting rw n"
  shows "nals s (unit_bytes (rewritten_units rw (fst (nals s body))) @ snd (nals s body)) =
    (rewritten_units rw (fst (nals s body)), snd (nals s body))"
  using assms
proof (induction s body rule: nals.induct)
  case (1 s body)
  show ?case
  proof (cases "body = [] \<or> s (hd body)")
    case True
    then have "nals s body = ([], body)" by (subst nals.simps) simp
    then show ?thesis by (simp add: unit_bytes_def rewritten_units_def)
  next
    case False
    show ?thesis
    proof (cases "annexb_index body")
      case None
      then have nb: "nals s body = ([(body, [])], [])" using False by (subst nals.simps) simp
      let ?x = "rewritten rw body"
      have "?x \<noteq> [] \<and> hd ?x = hd body \<and> annexb_index ?x = None"
        using "1.prems" [of body "[]"] None False
        by (auto simp: nb rewritten_def unit_rewriting_def closed_nal_def split: rewrite.splits)
      then have "nals s ?x = ([(?x, [])], [])" using False by (subst nals.simps) simp
      then show ?thesis by (simp add: nb unit_bytes_def rewritten_units_def)
    next
      case (Some k)
      note ns = nals_Some [of body s, OF False Some]
      let ?n = "strip_zeros (take k body)" and ?rest = "drop (k + 3) body"
      let ?us = "fst (nals s ?rest)" and ?r = "snd (nals s ?rest)"
      define j where "j = k - length ?n"
      have tk: "take k body = ?n @ replicate j 0"
        using strip_zeros_append [of "take k body"] index_length [OF Some] by (simp add: j_def min_def)
      let ?gap = "replicate j 0 @ [0, 0, 1 :: 8 word]"
      have ns': "nals s body = ((?n, ?gap) # ?us, ?r)" using ns tk by (metis append_eq_conv_conj)
      have cn: "closed_nal ?n" using index_Some [OF Some] strip_closed by blast
      let ?x = "rewritten rw ?n"
      have ur: "unit_rewriting rw ?n" using "1.prems" [of ?n ?gap] by (simp add: ns')
      have x: "closed_nal ?x" "?x = [] \<longrightarrow> ?n = []" "?x \<noteq> [] \<longrightarrow> ?n \<noteq> [] \<and> hd ?x = hd ?n"
        using cn ur by (auto simp: rewritten_def unit_rewriting_def split: rewrite.splits)
      define tail where "tail = unit_bytes (rewritten_units rw ?us) @ ?r"
      define b where "b = ?x @ ?gap @ tail"
      have ib: "annexb_index b = Some (length ?x + j)"
        using index_append [OF x(1), of "?gap @ tail"] index_zeros [of j tail] by (simp add: b_def)
      have body: "body = ?n @ ?gap @ ?rest" using index_Some [OF Some] tk by (metis append.assoc append_Cons append_Nil)
      have hd: "hd b = hd body"
      proof (cases "?x = []")
        case True
        then show ?thesis using x(2) by (subst body) (simp add: b_def hd_append)
      next
        case ne: False
        then show ?thesis using x(3) by (subst body) (simp add: b_def)
      qed
      have nb: "\<not> (b = [] \<or> s (hd b))" using False hd by (auto simp: b_def)
      have tb: "take (length ?x + j) b = ?x @ replicate j 0" by (simp add: b_def)
      have sx: "strip_zeros (?x @ replicate j 0) = ?x" using strip_zeros_id [of ?x j] x(1) by (auto simp: closed_nal_def)
      have db: "drop (length ?x + j + 3) b = tail" by (simp add: b_def)
      have IH: "nals s tail = (rewritten_units rw ?us, ?r)" unfolding tail_def
        using "1.prems" by (intro "1.IH" [OF False Some refl refl]) (auto simp: ns')
      have "nals s b = ((?x, ?gap) # rewritten_units rw ?us, ?r)"
        using nals_Some [of b s, OF nb ib] tb sx db IH by simp
      moreover have "rewritten_units rw (fst (nals s body)) = (?x, ?gap) # rewritten_units rw ?us" by (simp add: ns' rewritten_units_def)
      ultimately show ?thesis by (simp add: ns' b_def tail_def unit_bytes_Cons)
    qed
  qed
qed

lemma frame_index:
  assumes "frame_units s data = Some (lead, us, r)"
  shows "\<exists>i. annexb_index data = Some i \<and> lead = take (i + 3) data \<and> nals s (drop (i + 3) data) = (us, r)"
proof (cases "annexb_index data")
  case (Some i)
  then show ?thesis using assms by (cases "nals s (drop (i + 3) data)") (simp add: frame_units_def)
qed (use assms in \<open>simp add: frame_units_def\<close>)

lemma frame_bytes:
  assumes "frame_units s data = Some (lead, us, r)"
  shows "data = lead @ unit_bytes us @ r" and "3 \<le> length lead" and "scanParameterSets data s = offsets (length lead) us"
proof -
  obtain i where i: "annexb_index data = Some i" "lead = take (i + 3) data" "nals s (drop (i + 3) data) = (us, r)"
    using frame_index [OF assms] by blast
  have l: "length lead = i + 3" using index_length [OF i(1)] i(2) by simp
  show d: "data = lead @ unit_bytes us @ r" using nals_bytes [of s "drop (i + 3) data"] i(2,3) by simp
  show "3 \<le> length lead" using l by simp
  then show "scanParameterSets data s = offsets (length lead) us"
    using scan_nals [of lead s "drop (i + 3) data"] i l by (simp add: scanParameterSets_def)
qed

lemma frame_rebuild:
  assumes "frame_units s data = Some (lead, us, r)" and "\<And>n g. (n, g) \<in> set us \<Longrightarrow> unit_rewriting rw n"
  shows "frame_units s (lead @ unit_bytes (rewritten_units rw us) @ r) = Some (lead, rewritten_units rw us, r)"
proof -
  obtain i where i: "annexb_index data = Some i" "lead = take (i + 3) data" "nals s (drop (i + 3) data) = (us, r)"
    using frame_index [OF assms(1)] by blast
  have l: "length lead = i + 3" using index_length [OF i(1)] i(2) by simp
  have "nals s (unit_bytes (rewritten_units rw us) @ r) = (rewritten_units rw us, r)"
    using nals_rebuild [of s "drop (i + 3) data" rw] assms(2) by (simp add: i(3))
  moreover have "annexb_index (lead @ unit_bytes (rewritten_units rw us) @ r) = Some i" unfolding i(2) by (rule index_same [OF i(1)])
  ultimately show ?thesis using l by (simp add: frame_units_def)
qed

lemma offsets_bound: "(a, b) \<in> set (offsets p us) \<Longrightarrow> b \<le> p + length (unit_bytes us)"
  by (induction p us rule: offsets.induct) (auto simp: unit_bytes_def)

text \<open>The frame that a rewriting makes, and its storage.\<close>

lemma rewrite_frame:
  assumes "rewriteParameterSets storage data headroom framed s rw = Some (storage', data')" and "frame_units s data = Some (lead, us, r)"
  shows "data' = lead @ unit_bytes (rewritten_units rw us) @ r"
    and "framed \<Longrightarrow> storage = h @ data \<Longrightarrow> length h = headroom \<Longrightarrow> \<exists>h'. length h' = headroom \<and> storage' = h' @ data'"
proof -
  note f = frame_bytes [OF assms(2)]
  define rs where "rs = replacements data rw (offsets (length lead) us)"
  have sp: "splice data 0 rs @ drop (splice_end 0 rs) data = lead @ unit_bytes (rewritten_units rw us) @ r"
    using splice_units [OF f(1), of 0 rw] f(1) by (simp add: rs_def slice_def)
  have run: "(if rs = [] then (storage, data)
      else let prefixEnd = fst (snd (last rs)); p = splice data 0 rs in
        if length p > prefixEnd then (let out = p @ drop prefixEnd data in (replicate headroom 0 @ out, out))
        else let shift = prefixEnd - length p; moved = p @ drop prefixEnd data in
          (if framed then drop shift (take headroom storage @ take shift data) @ moved else storage, moved)) = (storage', data')"
    using assms(1) by (auto simp: rewriteParameterSets_def f(3) rs_def [symmetric] Let_def split: if_splits)
  show data': "data' = lead @ unit_bytes (rewritten_units rw us) @ r"
    using run sp by (auto simp: splice_end_def Let_def split: if_splits)
  show "\<exists>h'. length h' = headroom \<and> storage' = h' @ data'" if "framed" "storage = h @ data" "length h = headroom"
  proof (cases "rs = []")
    case True
    then show ?thesis using run that by auto
  next
    case False
    have "(fst (last rs), fst (snd (last rs))) \<in> set (offsets (length lead) us)"
      using last_in_set [OF False] by (auto simp: rs_def replacements_def List.map_filter_def split: rewrite.splits)
    then have "fst (snd (last rs)) \<le> length lead + length (unit_bytes us)" by (rule offsets_bound)
    then have "fst (snd (last rs)) \<le> length data" using arg_cong [OF f(1), of length] by simp
    moreover define shift where "shift = fst (snd (last rs)) - length (splice data 0 rs)"
    ultimately have "shift \<le> length data" by simp
    then have len: "length (drop shift (take headroom storage @ take shift data)) = headroom" using that(2,3) by simp
    show ?thesis
    proof (cases "length (splice data 0 rs) > fst (snd (last rs))")
      case True
      then show ?thesis using run False by (auto simp: Let_def intro!: exI [of _ "replicate headroom 0"])
    next
      case small: False
      then have "storage' = drop shift (take headroom storage @ take shift data) @ data'" using run False that(1) by (auto simp: Let_def shift_def)
      then show ?thesis using len by blast
    qed
  qed
qed

text \<open>The rewritten parameter sets contain no start code.\<close>

lemma last_byte:
  assumes "bits b = xs @ True # zs" and "length zs < 8"
  shows "b \<noteq> [] \<and> last b \<noteq> 0"
proof -
  have len: "length b * 8 = length xs + Suc (length zs)" using arg_cong [OF assms(1), of length] by simp
  then have ne: "b \<noteq> []" by auto
  then obtain c l where b: "b = c @ [l]" by (metis append_butlast_last_id)
  have p: "length c * 8 \<le> length xs" "length xs < length c * 8 + 8" using len assms(2) b by simp_all
  have "bits b ! length xs" by (simp add: assms(1))
  then have "word_bits l 8 ! (length xs - length c * 8)" using p by (simp add: b nth_append)
  then have "l \<noteq> 0" using p by (auto simp: word_bits_zero)
  then show ?thesis using b by simp
qed

lemma escaped_nal:
  assumes "h \<noteq> []" and "last h \<noteq> 0" and "length h \<le> 2" and "b \<noteq> []" and "last b \<noteq> 0"
  shows "closed_nal (h @ hevcEscape b)"
proof -
  have "annexb_index h = None"
  proof (cases "annexb_index h")
    case (Some k)
    then show ?thesis using index_length [OF Some] assms(3) by simp
  qed
  then have ch: "closed_nal h" using assms(2) by (simp add: closed_nal_def)
  then have "annexb_index (h @ hevcEscape b) = None" by (simp add: index_append index_escape)
  then show ?thesis using escape_last [OF assms(4), of 0] assms(5) by (simp add: closed_nal_def hevcEscape_def)
qed

lemma with_colour_last: "withColour rbsp r (put 0 k) = Replace b \<Longrightarrow> br_data r = rbsp \<Longrightarrow> k \<le> 32 \<Longrightarrow> b \<noteq> [] \<and> last b \<noteq> 0"
proof -
  assume w: "withColour rbsp r (put 0 k) = Replace b" and d: "br_data r = rbsp" and k: "k \<le> 32"
  obtain at ins e where "edited rbsp b at ins e" using with_colour_ok(1) [OF w d zeros_ok [OF k]] by (auto simp: colour_added_def)
  then obtain xs zs where "bits b = xs @ True # zs" "length zs < 8" unfolding edited_def by (metis append.assoc)
  then show ?thesis by (rule last_byte)
qed

lemma h264_out:
  assumes "h264SPSWithColour nal = Replace x"
  shows "\<exists>b. x = take 1 nal @ hevcEscape b \<and> b \<noteq> [] \<and> last b \<noteq> 0"
proof -
  obtain ok r where r: "run_state h264_sps (start_reader (hevcUnescape (drop 1 nal))) = (ok, r)" by fastforce
  obtain b where b: "withColour (hevcUnescape (drop 1 nal)) r (put 0 6) = Replace b" "x = take 1 nal @ hevcEscape b"
    using assms r by (auto simp: h264SPSWithColour_def Let_def split: if_splits rewrite.splits)
  have "br_data r = hevcUnescape (drop 1 nal)" using reads_facts(1) [OF reads_h264_sps r] by (simp add: start_reader_def)
  then show ?thesis using with_colour_last [OF b(1)] b(2) by auto
qed

lemma hevc_out:
  assumes "hevcSPSWithColour nal = Replace x"
  shows "\<exists>b. x = take 2 nal @ hevcEscape b \<and> b \<noteq> [] \<and> last b \<noteq> 0"
proof -
  obtain ok r where r: "run_state hevc_sps (start_reader (hevcUnescape (drop 2 nal))) = (ok, r)" by fastforce
  obtain b where b: "withColour (hevcUnescape (drop 2 nal)) r (put 0 7) = Replace b" "x = take 2 nal @ hevcEscape b"
    using assms r by (auto simp: hevcSPSWithColour_def Let_def split: if_splits rewrite.splits)
  have "br_data r = hevcUnescape (drop 2 nal)" using reads_facts(1) [OF reads_hevc_sps r] by (simp add: start_reader_def)
  then show ?thesis using with_colour_last [OF b(1)] b(2) by auto
qed

lemma ordering_out:
  assumes "hevcSingleOrderingSet nal typ = Some x"
  shows "\<exists>b. x = take 2 nal @ hevcEscape b \<and> b \<noteq> [] \<and> last b \<noteq> 0"
proof -
  obtain w xs where w: "x = take 2 nal @ hevcEscape (bw_data w)" "writer_ok w" "written w = xs @ [True]"
    using ordering_parts [OF assms] by (metis append.assoc append_Cons)
  obtain zs where "bits (bw_data w) = xs @ True # zs" "length zs < 8" using bits_written [OF w(2)] w(3) by auto
  then show ?thesis using last_byte w(1) by blast
qed

lemma h264_units: "unit_rewriting rewrite_h264 n"
  unfolding unit_rewriting_def
proof (intro allI impI)
  fix x assume "rewrite_h264 n = Replace x"
  then have n: "2 \<le> length n" "and (n ! 0) 31 = 7" and h: "h264SPSWithColour n = Replace x" by (auto simp: rewrite_h264_def split: if_splits)
  obtain b where b: "x = take 1 n @ hevcEscape b" "b \<noteq> []" "last b \<noteq> 0" using h264_out [OF h] by blast
  obtain y ys where y: "n = y # ys" using n(1) by (cases n) auto
  then have "y \<noteq> 0" using n(2) by auto
  then show "n \<noteq> [] \<and> x \<noteq> [] \<and> hd x = hd n \<and> closed_nal x" using escaped_nal [of "[y]" b] b y by simp
qed

lemma hevc_units:
  assumes "2 \<le> length n \<longrightarrow> n ! 1 \<noteq> 0"
  shows "unit_rewriting (rewrite_hevc colour) n"
  unfolding unit_rewriting_def
proof (intro allI impI)
  fix x assume h: "rewrite_hevc colour n = Replace x"
  then have n: "3 \<le> length n" by (auto simp: rewrite_hevc_def split: if_splits)
  then obtain y z ys where y: "n = y # z # ys" by (cases n; cases "tl n") auto
  let ?kind = "unat (and (drop_bit 1 (n ! 0)) 63)"
  have t2: "take 2 (case hevcSingleOrderingSet n ?kind of None \<Rightarrow> n | Some m \<Rightarrow> m) = [y, z]"
    using ordering_out [of n ?kind] y by (auto split: option.splits)
  have "(\<exists>b. x = [y, z] @ hevcEscape b \<and> b \<noteq> [] \<and> last b \<noteq> 0)"
  proof (cases "hevcSPSWithColour (case hevcSingleOrderingSet n ?kind of None \<Rightarrow> n | Some m \<Rightarrow> m) = Replace x")
    case True
    then show ?thesis using hevc_out [OF True] t2 by simp
  next
    case False
    then have "hevcSingleOrderingSet n ?kind = Some x"
      using h by (auto simp: rewrite_hevc_def Let_def split: if_splits option.splits rewrite.splits)
    then show ?thesis using ordering_out y by fastforce
  qed
  then obtain b where b: "x = [y, z] @ hevcEscape b" "b \<noteq> []" "last b \<noteq> 0" by blast
  have "z \<noteq> 0" using assms y by simp
  then show "n \<noteq> [] \<and> x \<noteq> [] \<and> hd x = hd n \<and> closed_nal x" using escaped_nal [of "[y, z]" b] b y by simp
qed

lemma codec_run:
  "fixParameterSets codec colour storage data headroom framed =
     (if codec = H264 \<and> \<not> colour then Some (storage, data)
      else rewriteParameterSets storage data headroom framed (slice_test codec) (codec_rewrite codec colour))"
  by (cases codec) (simp_all add: fixParameterSets_def slice_test_def codec_rewrite_def)

lemma rewritten_keep: "rewritten_units (\<lambda>_. Keep) us = us"
  by (simp add: rewritten_units_def rewritten_def case_prod_unfold)

lemma rewrite_hevc_total: "rewrite_hevc False n \<noteq> Panic"
  by (auto simp: rewrite_hevc_def Let_def split: option.splits)

section \<open>Properties\<close>

text \<open>
  C32. The rewriting of a key frame touches nothing but its parameter sets: the new frame begins with the same bytes,
  has the same NAL units in the same order with the same start codes between them, each parameter set in its
  rewritten form and every other unit as it was, and from the first slice on it is the same frame. The storage
  still has the headroom before the frame.
\<close>

theorem frame_keeps_slices:
  assumes "fixParameterSets codec colour storage data headroom framed = Some (storage', data')"
    and "frame_units (slice_test codec) data = Some (lead, us, r)"
    and "codec = H265 \<Longrightarrow> list_all (\<lambda>(n, g). length n < 2 \<or> n ! 1 \<noteq> 0) us"
  shows "frame_units (slice_test codec) data' = Some (lead, rewritten_units (codec_rewrite codec colour) us, r) \<and>
    (framed \<and> storage = h @ data \<and> length h = headroom \<longrightarrow> (\<exists>h'. length h' = headroom \<and> storage' = h' @ data'))"
proof (cases "codec = H264 \<and> \<not> colour")
  case True
  then show ?thesis using assms(1,2) by (auto simp: codec_run codec_rewrite_def rewritten_keep)
next
  case False
  then have run: "rewriteParameterSets storage data headroom framed (slice_test codec) (codec_rewrite codec colour) = Some (storage', data')"
    using assms(1) by (simp only: codec_run if_False)
  have "unit_rewriting (codec_rewrite codec colour) n" if "(n, g) \<in> set us" for n g
  proof (cases codec)
    case H264
    then show ?thesis using False h264_units by (simp add: codec_rewrite_def)
  next
    case H265
    then have "2 \<le> length n \<longrightarrow> n ! 1 \<noteq> 0" using assms(3) that by (auto simp: list_all_iff)
    then show ?thesis using H265 hevc_units by (simp add: codec_rewrite_def)
  qed
  from frame_rebuild [OF assms(2) this] show ?thesis using rewrite_frame [OF run assms(2)] by simp
qed

theorem frame_keeps_slices_witness:
  "\<exists>s d. fixParameterSets H265 False (replicate 9 0 @ idr_frame) idr_frame 9 True = Some (s, d) \<and>
     frame_units isHEVCSlice d = Some ([0, 0, 0, 1], rewritten_units (rewrite_hevc False) [(smartPVPS, [0, 0, 0, 1])], [0x26, 0x01, 0xaf, 0, 0, 1, 0x40])"
proof -
  have u: "frame_units isHEVCSlice idr_frame = Some ([0, 0, 0, 1], [(smartPVPS, [0, 0, 0, 1])], [0x26, 0x01, 0xaf, 0, 0, 1, 0x40])" by code_simp
  have l: "list_all (\<lambda>(n, g). length n < 2 \<or> n ! 1 \<noteq> 0) [(smartPVPS, [0, 0, 0, 1 :: 8 word])]" by code_simp
  have "\<exists>s d. fixParameterSets H265 False (replicate 9 0 @ idr_frame) idr_frame 9 True = Some (s, d)"
    by (simp add: fixParameterSets_def rewriteParameterSets_def rewrite_hevc_total Let_def)
  then obtain s d where r: "fixParameterSets H265 False (replicate 9 0 @ idr_frame) idr_frame 9 True = Some (s, d)" by blast
  show ?thesis
    using frame_keeps_slices [OF r, of "[0, 0, 0, 1]" "[(smartPVPS, [0, 0, 0, 1])]" "[0x26, 0x01, 0xaf, 0, 0, 1, 0x40]"] u l r
    by (auto simp: slice_test_def codec_rewrite_def)
qed

end
