(* ===== verification/Video_Packets.thy ===== *)
theory Video_Packets
  imports Bit_Stream
begin

text \<open>
  The RTP payloads of a video frame: \<open>service/stream/webrtc/owned_h264_payloader.go\<close>, which splits an H.264 access
  unit into packets within the path MTU, and \<open>h265_payloader.go\<close>, which puts the retained parameter sets before a
  picture that a decoder may start at.
\<close>

section \<open>Splitting an access unit\<close>

text \<open>\<open>four\<close> is whether the start code at \<open>start\<close> has four bytes.\<close>

function emit_from :: "bytes \<Rightarrow> nat \<Rightarrow> bool \<Rightarrow> bytes list" where
  "emit_from au start four =
     (if start \<ge> length au then []
      else let from = start + (if four then 4 else 3) in
        case annexb_index (drop from au) of
          None \<Rightarrow> [drop from au]
        | Some e \<Rightarrow>
            let nextStart = from + e; fourByte = (au ! (nextStart - 1) = 0);
                next = (if fourByte then nextStart - 1 else nextStart)
            in slice au from next # emit_from au next fourByte)"
  by auto
termination
  by (relation "measure (\<lambda>(n, s, f). length n - s)") (auto simp: Let_def)

declare emit_from.simps [simp del]

definition ownedH264EmitNalus :: "bytes \<Rightarrow> bytes list" where
  "ownedH264EmitNalus au = (case annexb_index au of None \<Rightarrow> [au] | Some start \<Rightarrow> emit_from au start False)"

section \<open>H.264\<close>

text \<open>\<open>None\<close> is a nil slice. Which of the parameter sets are cloned at the end has no effect on their contents.\<close>

record ownedH264Payloader =
  spsNalu :: "bytes option"
  ppsNalu :: "bytes option"
  DisableStapA :: bool

record ownedH264PayloadPlan =
  pl_nalu :: bytes
  pl_sps :: bytes
  pl_pps :: bytes
  pl_count :: nat
  pl_size :: nat
  pl_stap :: bool

definition nal_type :: "bytes \<Rightarrow> byte" where
  "nal_type nalu = and (hd nalu) 0x1f"

definition stap_plan :: "bytes \<Rightarrow> bytes \<Rightarrow> ownedH264PayloadPlan" where
  "stap_plan sps pps = \<lparr>pl_nalu = [], pl_sps = sps, pl_pps = pps, pl_count = 1, pl_size = 5 + length sps + length pps, pl_stap = True\<rparr>"

text \<open>The plans of one unit itself: whole, in fragments, or none.\<close>

definition unit_plans :: "nat \<Rightarrow> bytes \<Rightarrow> ownedH264PayloadPlan list" where
  "unit_plans mtu nalu =
     (if length nalu \<le> mtu then [\<lparr>pl_nalu = nalu, pl_sps = [], pl_pps = [], pl_count = 1, pl_size = length nalu, pl_stap = False\<rparr>]
      else let fragmentSize = int mtu - 2; bodySize = length nalu - 1 in
        if fragmentSize \<le> 0 \<or> bodySize = 0 then []
        else let fragments = (bodySize + nat fragmentSize - 1) div nat fragmentSize in
          [\<lparr>pl_nalu = nalu, pl_sps = [], pl_pps = [], pl_count = fragments, pl_size = bodySize + 2 * fragments, pl_stap = False\<rparr>])"

type_synonym plan_state = "ownedH264PayloadPlan list \<times> bytes option \<times> bytes option"

definition plan_nalu :: "nat \<Rightarrow> bool \<Rightarrow> bytes \<Rightarrow> plan_state \<Rightarrow> plan_state" where
  "plan_nalu mtu disable nalu st =
     (case st of (plans, sps, pps) \<Rightarrow>
        if nalu = [] then st
        else let typ = nal_type nalu in
          if typ = 9 \<or> typ = 12 then st
          else if typ = 7 \<and> \<not> disable then (plans, Some nalu, pps)
          else if typ = 8 \<and> \<not> disable then (plans, sps, Some nalu)
          else if typ \<noteq> 7 \<and> typ \<noteq> 8 \<and> \<not> disable \<and> sps \<noteq> None \<and> pps \<noteq> None then
            (plans @ (if 5 + length (the sps) + length (the pps) \<le> mtu then [stap_plan (the sps) (the pps)] else []) @ unit_plans mtu nalu, None, None)
          else (plans @ unit_plans mtu nalu, sps, pps))"

text \<open>
  The slab: how much of it and how many packets have been handed out, with the packets. A slice or an index out
  of range is a panic, \<open>None\<close>.
\<close>

type_synonym slab = "nat \<times> bytes list"

definition hand_out :: "nat \<Rightarrow> nat \<Rightarrow> bytes \<Rightarrow> slab \<Rightarrow> slab option" where
  "hand_out sz count out s =
     (case s of (offset, packets) \<Rightarrow>
        if offset + length out > sz \<or> length packets \<ge> count then None else Some (offset + length out, packets @ [out]))"

definition be16 :: "nat \<Rightarrow> bytes" where
  "be16 n = (let w = (word_of_nat n :: 16 word) in [ucast (drop_bit 8 w), ucast w])"

definition stap_packet :: "bytes \<Rightarrow> bytes \<Rightarrow> bytes" where
  "stap_packet sps pps = 0x78 # be16 (length sps) @ sps @ be16 (length pps) @ pps"

definition fragment :: "bytes \<Rightarrow> nat \<Rightarrow> nat \<Rightarrow> bytes \<Rightarrow> bytes" where
  "fragment nalu index count piece =
     [or 28 (and (hd nalu) 0x60),
      or (and (hd nalu) 0x1f) (if index = 0 then 0x80 else if index = count - 1 then 0x40 else 0)] @ piece"

primrec emit_fragments :: "nat \<Rightarrow> nat \<Rightarrow> nat \<Rightarrow> bytes \<Rightarrow> nat \<Rightarrow> nat \<Rightarrow> bytes \<Rightarrow> slab \<Rightarrow> slab option" where
  "emit_fragments sz cnt frag nalu count 0 body s = Some s"
| "emit_fragments sz cnt frag nalu count (Suc left) body s =
     (let n = min frag (length body) in
      case hand_out sz cnt (fragment nalu (count - Suc left) count (take n body)) s of
        None \<Rightarrow> None
      | Some s \<Rightarrow> emit_fragments sz cnt frag nalu count left (drop n body) s)"

definition emit_plan :: "nat \<Rightarrow> nat \<Rightarrow> nat \<Rightarrow> ownedH264PayloadPlan \<Rightarrow> slab \<Rightarrow> slab option" where
  "emit_plan mtu sz cnt p s =
     (if pl_stap p then hand_out sz cnt (stap_packet (pl_sps p) (pl_pps p)) s
      else if pl_count p = 1 \<and> pl_size p = length (pl_nalu p) then hand_out sz cnt (pl_nalu p) s
      else emit_fragments sz cnt (mtu - 2) (pl_nalu p) (pl_count p) (pl_count p) (tl (pl_nalu p)) s)"

primrec emit_plans :: "nat \<Rightarrow> nat \<Rightarrow> nat \<Rightarrow> ownedH264PayloadPlan list \<Rightarrow> slab \<Rightarrow> slab option" where
  "emit_plans mtu sz cnt [] s = Some s"
| "emit_plans mtu sz cnt (p # ps) s =
     (case emit_plan mtu sz cnt p s of None \<Rightarrow> None | Some s \<Rightarrow> emit_plans mtu sz cnt ps s)"

definition Payload :: "16 word \<Rightarrow> bytes \<Rightarrow> ownedH264Payloader \<Rightarrow> (bytes list \<times> ownedH264Payloader) option" where
  "Payload mtu payload p =
     (if payload = [] then Some ([], p)
      else case fold (plan_nalu (unat mtu) (DisableStapA p)) (ownedH264EmitNalus payload) ([], spsNalu p, ppsNalu p) of
        (plans, sps, pps) \<Rightarrow>
          let p' = p\<lparr>spsNalu := sps, ppsNalu := pps\<rparr>;
              cnt = sum_list (map pl_count plans); sz = sum_list (map pl_size plans)
          in if cnt = 0 then Some ([], p')
             else map_option (\<lambda>s. (snd s, p')) (emit_plans (unat mtu) sz cnt plans (0, [])))"

section \<open>H.265\<close>

type_synonym parameterSets = "bytes list"

definition hevc_type :: "bytes \<Rightarrow> nat" where
  "hevc_type nalu = unat (and (drop_bit 1 (hd nalu)) 63)"

text \<open>The sets retained, which of them are in this access unit, and whether a decoder may start at it.\<close>

definition note_nalu :: "bytes \<Rightarrow> parameterSets \<times> nat set \<times> bool \<Rightarrow> parameterSets \<times> nat set \<times> bool" where
  "note_nalu nalu st =
     (case st of (sets, present, irap) \<Rightarrow>
        if length nalu < 2 then st
        else let typ = hevc_type nalu in
          (if typ \<ge> 32 \<and> typ \<le> 34 then sets[typ - 32 := nalu] else sets,
           if typ \<ge> 32 \<and> typ \<le> 34 then insert (typ - 32) present else present,
           irap \<or> typ \<ge> 16 \<and> typ \<le> 23))"

definition with_codes :: "bytes list \<Rightarrow> bytes" where
  "with_codes ns = concat (map (\<lambda>n. [0, 0, 0, 1] @ n) ns)"

definition is_parameter_set :: "bytes \<Rightarrow> bool" where
  "is_parameter_set nalu \<longleftrightarrow> length nalu \<ge> 2 \<and> hevc_type nalu \<ge> 32 \<and> hevc_type nalu \<le> 34"

text \<open>The access unit that is handed to the payloader of the library, and the sets that are retained.\<close>

definition h265_configure :: "bytes \<Rightarrow> parameterSets \<Rightarrow> bytes \<times> parameterSets" where
  "h265_configure payload sets =
     (case fold note_nalu (ownedH264EmitNalus payload) (sets, {}, False) of (sets', present, irap) \<Rightarrow>
        if irap \<and> \<not> {0, 1, 2} \<subseteq> present \<and> list_all (\<lambda>n. n \<noteq> []) sets'
        then (with_codes sets' @ with_codes (filter (\<lambda>n. \<not> is_parameter_set n) (ownedH264EmitNalus payload)), sets')
        else (payload, sets'))"

section \<open>What a receiver gets\<close>

text \<open>
  The receiver's side, as RFC 6184 has it: a STAP-A packet holds units with their lengths, fragments are put together
  again, and any other packet is a unit.
\<close>

function stap_units :: "bytes \<Rightarrow> bytes list" where
  "stap_units p =
     (if length p < 2 then []
      else let n = unat (p ! 0) * 256 + unat (p ! 1) in take n (drop 2 p) # stap_units (drop (2 + n) p))"
  by auto
termination
  by (relation "measure length") (auto simp: Let_def)

declare stap_units.simps [simp del]

fun depack :: "bytes \<Rightarrow> bytes list \<Rightarrow> bytes list" where
  "depack acc [] = []"
| "depack acc (p # ps) =
     (let t = and (hd p) 31 in
      if t = 24 then stap_units (tl p) @ depack [] ps
      else if t = 28 then
        (let x = (if and (p ! 1) 0x80 \<noteq> 0 then or (and (hd p) 0xe0) (and (p ! 1) 0x1f) # drop 2 p else acc @ drop 2 p) in
         if and (p ! 1) 0x40 \<noteq> 0 then x # depack [] ps else depack x ps)
      else p # depack [] ps)"

text \<open>
  The units to be delivered: delimiters and filler are dropped, and a pair of parameter sets waits for the next
  other unit, together with which it is sent if both fit one packet.
\<close>

fun delivered :: "nat \<Rightarrow> bool \<Rightarrow> bytes option \<Rightarrow> bytes option \<Rightarrow> bytes list \<Rightarrow> bytes list" where
  "delivered mtu disable sps pps [] = []"
| "delivered mtu disable sps pps (n # ns) =
     (if n = [] \<or> nal_type n = 9 \<or> nal_type n = 12 then delivered mtu disable sps pps ns
      else if nal_type n = 7 \<and> \<not> disable then delivered mtu disable (Some n) pps ns
      else if nal_type n = 8 \<and> \<not> disable then delivered mtu disable sps (Some n) ns
      else if \<not> disable \<and> sps \<noteq> None \<and> pps \<noteq> None then
        (if 5 + length (the sps) + length (the pps) \<le> mtu then [the sps, the pps] else []) @ n # delivered mtu disable None None ns
      else n # delivered mtu disable sps pps ns)"

text \<open>A unit that is not itself a packet of several units or of a part of one.\<close>

definition plain_unit :: "bytes \<Rightarrow> bool" where
  "plain_unit n \<longleftrightarrow> n = [] \<or> hd n < 0x80 \<and> nal_type n < 24"

text \<open>The retained sets: at each place none, or a parameter set of the kind of the place without a start code in it.\<close>

definition sets_ok :: "parameterSets \<Rightarrow> bool" where
  "sets_ok sets \<longleftrightarrow> length sets = 3 \<and>
     (\<forall>k<3. sets ! k = [] \<or> is_parameter_set (sets ! k) \<and> hevc_type (sets ! k) = 32 + k \<and> annexb_index (sets ! k) = None)"

definition starts_decoder :: "bytes \<Rightarrow> bool" where
  "starts_decoder n \<longleftrightarrow> length n \<ge> 2 \<and> hevc_type n \<ge> 16 \<and> hevc_type n \<le> 23"

definition au_example :: bytes where
  "au_example = [0, 0, 0, 1, 0x67, 0x42, 0, 0, 0, 1, 0x68, 0xce, 0, 0, 1, 0x65, 1, 2, 3, 4, 5, 6, 7, 8, 9]"

definition cra_example :: bytes where
  "cra_example = [0, 0, 0, 1, 0x2a, 1, 0xaf]"

text \<open>The packets of a plan.\<close>

primrec fragments :: "nat \<Rightarrow> bytes \<Rightarrow> nat \<Rightarrow> nat \<Rightarrow> bytes \<Rightarrow> bytes list" where
  "fragments frag nalu count 0 body = []"
| "fragments frag nalu count (Suc left) body =
     fragment nalu (count - Suc left) count (take (min frag (length body)) body) #
     fragments frag nalu count left (drop (min frag (length body)) body)"

definition plan_packets :: "nat \<Rightarrow> ownedH264PayloadPlan \<Rightarrow> bytes list" where
  "plan_packets mtu p =
     (if pl_stap p then [stap_packet (pl_sps p) (pl_pps p)]
      else if pl_count p = 1 \<and> pl_size p = length (pl_nalu p) then [pl_nalu p]
      else fragments (mtu - 2) (pl_nalu p) (pl_count p) (pl_count p) (tl (pl_nalu p)))"

definition plan_ok :: "nat \<Rightarrow> ownedH264PayloadPlan \<Rightarrow> bool" where
  "plan_ok mtu p \<longleftrightarrow> sum_list (map length (plan_packets mtu p)) = pl_size p \<and> length (plan_packets mtu p) = pl_count p \<and>
     list_all (\<lambda>x. x \<noteq> [] \<and> length x \<le> mtu) (plan_packets mtu p)"

section \<open>Lemmas\<close>

text \<open>The slab is used exactly.\<close>

lemma emit_fragments_ok:
  assumes "offset + sum_list (map length (fragments frag nalu count left body)) \<le> sz" and "length ps + left \<le> cnt"
  shows "emit_fragments sz cnt frag nalu count left body (offset, ps) =
    Some (offset + sum_list (map length (fragments frag nalu count left body)), ps @ fragments frag nalu count left body)"
  using assms by (induction left arbitrary: body offset ps) (simp_all add: Let_def hand_out_def add.assoc)

lemma emit_plan_ok:
  assumes "plan_ok mtu p" and "offset + pl_size p \<le> sz" and "length ps + pl_count p \<le> cnt"
  shows "emit_plan mtu sz cnt p (offset, ps) = Some (offset + pl_size p, ps @ plan_packets mtu p)"
  using assms emit_fragments_ok [of offset "mtu - 2" "pl_nalu p" "pl_count p" "pl_count p" "tl (pl_nalu p)" sz ps cnt]
  by (auto simp: emit_plan_def plan_ok_def plan_packets_def hand_out_def split: if_splits)

lemma emit_plans_ok:
  assumes "list_all (plan_ok mtu) plans" and "offset + sum_list (map pl_size plans) \<le> sz" and "length ps + sum_list (map pl_count plans) \<le> cnt"
  shows "emit_plans mtu sz cnt plans (offset, ps) = Some (offset + sum_list (map pl_size plans), ps @ concat (map (plan_packets mtu) plans))"
  using assms
proof (induction plans arbitrary: offset ps)
  case (Cons p plans)
  have "emit_plan mtu sz cnt p (offset, ps) = Some (offset + pl_size p, ps @ plan_packets mtu p)"
    using Cons.prems by (intro emit_plan_ok) simp_all
  moreover have "length (plan_packets mtu p) = pl_count p" using Cons.prems(1) by (simp add: plan_ok_def)
  ultimately show ?case using Cons.IH [of "offset + pl_size p" "ps @ plan_packets mtu p"] Cons.prems by (simp add: add.assoc)
qed simp

lemma fragments_length: "length (fragments frag nalu count left body) = left"
  by (induction left arbitrary: body) simp_all

lemma fragment_size [simp]: "length (fragment nalu i count piece) = 2 + length piece" "fragment nalu i count piece \<noteq> []"
  by (simp_all add: fragment_def)

lemma fragments_total:
  "length body \<le> left * frag \<Longrightarrow> sum_list (map length (fragments frag nalu count left body)) = length body + 2 * left"
proof (induction left arbitrary: body)
  case (Suc left)
  have "length (drop (min frag (length body)) body) \<le> left * frag" using Suc.prems by simp
  from Suc.IH [OF this] show ?case by (simp add: min_def)
qed simp

lemma fragments_bound: "x \<in> set (fragments frag nalu count left body) \<Longrightarrow> x \<noteq> [] \<and> length x \<le> frag + 2"
  by (induction left arbitrary: body) auto

lemma pieces_enough:
  assumes "0 < (frag :: nat)"
  shows "body \<le> (body + frag - 1) div frag * frag" and "frag < body \<Longrightarrow> 2 \<le> (body + frag - 1) div frag"
proof -
  have "body + frag - 1 < ((body + frag - 1) div frag) * frag + frag" using assms dividend_less_div_times [of frag "body + frag - 1"] by simp
  then show "body \<le> (body + frag - 1) div frag * frag" by linarith
  show "2 \<le> (body + frag - 1) div frag" if "frag < body"
    using that assms by (subst less_eq_div_iff_mult_less_eq) simp_all
qed

lemma unit_plans_cases:
  assumes "mtu < length n"
  obtains "mtu \<le> 2" and "unit_plans mtu n = []"
  | c where "2 < mtu" and "2 \<le> c" and "length (tl n) \<le> c * (mtu - 2)"
      and "unit_plans mtu n = [\<lparr>pl_nalu = n, pl_sps = [], pl_pps = [], pl_count = c, pl_size = length (tl n) + 2 * c, pl_stap = False\<rparr>]"
proof (cases "mtu \<le> 2")
  case True
  then show ?thesis using assms that(1) by (simp add: unit_plans_def)
next
  case False
  define c where "c = (length n - 1 + (mtu - 2) - 1) div (mtu - 2)"
  have m: "nat (int mtu - 2) = mtu - 2" "0 < mtu - 2" "mtu - 2 < length n - 1" using False assms by simp_all
  have "2 \<le> c" unfolding c_def by (rule pieces_enough(2) [OF m(2,3)])
  moreover have "length (tl n) \<le> c * (mtu - 2)" unfolding c_def length_tl by (rule pieces_enough(1) [OF m(2)])
  moreover have "unit_plans mtu n = [\<lparr>pl_nalu = n, pl_sps = [], pl_pps = [], pl_count = c, pl_size = length (tl n) + 2 * c, pl_stap = False\<rparr>]"
    using False assms m by (simp add: unit_plans_def c_def Let_def)
  ultimately show ?thesis using that(2) False by simp
qed

lemma unit_plans_ok:
  assumes "n \<noteq> []"
  shows "list_all (plan_ok mtu) (unit_plans mtu n)"
proof (cases "length n \<le> mtu")
  case True
  then show ?thesis using assms by (simp add: unit_plans_def plan_ok_def plan_packets_def)
next
  case False
  then have "mtu < length n" by simp
  then show ?thesis
  proof (cases rule: unit_plans_cases)
    case 1
    then show ?thesis by simp
  next
    case (2 c)
    have "list_all (\<lambda>x. x \<noteq> [] \<and> length x \<le> mtu) (fragments (mtu - 2) n c c (tl n))"
      using fragments_bound [of _ "mtu - 2" n c c "tl n"] 2(1) by (fastforce simp: list_all_iff)
    then show ?thesis using 2 fragments_total [OF 2(3), of n c] by (simp add: plan_ok_def plan_packets_def fragments_length)
  qed
qed

lemma be16_length [simp]: "length (be16 n) = 2"
  by (simp add: be16_def Let_def)

lemma stap_plan_ok: "5 + length sps + length pps \<le> mtu \<Longrightarrow> plan_ok mtu (stap_plan sps pps)"
  by (simp add: plan_ok_def plan_packets_def stap_plan_def stap_packet_def)

lemma plans_ok:
  assumes "list_all (plan_ok mtu) (fst st)"
  shows "list_all (plan_ok mtu) (fst (fold (plan_nalu mtu disable) ns st))"
  using assms
proof (induction ns arbitrary: st)
  case (Cons n ns)
  have "list_all (plan_ok mtu) (fst (plan_nalu mtu disable n st))"
    using Cons.prems unit_plans_ok [of n mtu] stap_plan_ok by (auto simp: plan_nalu_def Let_def split: prod.splits)
  then show ?case using Cons.IH by simp
qed simp

text \<open>The receiver.\<close>

lemma be16_value:
  assumes "n < 65536"
  shows "unat (be16 n ! 0) * 256 + unat (be16 n ! 1) = n"
proof -
  have w: "unat (word_of_nat n :: 16 word) = n" using assms by (simp add: unsigned_of_nat take_bit_nat_eq_self)
  have a: "unat (ucast (drop_bit 8 (word_of_nat n :: 16 word)) :: 8 word) = n div 256"
    using assms by (simp only: unsigned_ucast_eq unsigned_drop_bit_eq w) (simp add: drop_bit_eq_div take_bit_eq_mod)
  have b: "unat (ucast (word_of_nat n :: 16 word) :: 8 word) = n mod 256"
    by (simp only: unsigned_ucast_eq w) (simp add: take_bit_eq_mod)
  show ?thesis using a b by (simp add: be16_def Let_def)
qed

lemma stap_units_packet:
  assumes "length sps < 65536" and "length pps < 65536"
  shows "stap_units (tl (stap_packet sps pps)) = [sps, pps]"
proof -
  obtain a b where ab: "be16 (length sps) = [a, b]" by (simp add: be16_def Let_def)
  obtain c d where cd: "be16 (length pps) = [c, d]" by (simp add: be16_def Let_def)
  have v: "unat a * 256 + unat b = length sps" "unat c * 256 + unat d = length pps"
    using be16_value [OF assms(1)] be16_value [OF assms(2)] ab cd by simp_all
  have "stap_units ([c, d] @ pps) = [pps]" using v(2) by (subst stap_units.simps) (simp add: Let_def stap_units.simps [of "[]"])
  then have "stap_units ([a, b] @ sps @ [c, d] @ pps) = [sps, pps]" using v(1) by (subst stap_units.simps) (simp add: Let_def)
  then show ?thesis by (simp add: stap_packet_def ab cd)
qed

lemma fragment_header:
  fixes x :: "8 word"
  shows "and (or 28 (and x 0x60)) 31 = 28" and "f \<in> {0x80, 0x40, 0} \<Longrightarrow> and (or (and x 0x1f) f) 0x80 = (if f = 0x80 then 0x80 else 0)"
    and "f \<in> {0x80, 0x40, 0} \<Longrightarrow> and (or (and x 0x1f) f) 0x40 = (if f = 0x40 then 0x40 else 0)"
    and "x < 0x80 \<Longrightarrow> f \<in> {0x80, 0x40, 0} \<Longrightarrow> or (and (or 28 (and x 0x60)) 0xe0) (and (or (and x 0x1f) f) 0x1f) = x"
proof -
  show "and (or 28 (and x 0x60)) 31 = 28"
    by (simp add: bit.conj_disj_distrib2 and.assoc)
  show "and (or (and x 0x1f) f) 0x80 = (if f = 0x80 then 0x80 else 0)" if "f \<in> {0x80, 0x40, 0}"
    using that by (auto simp: bit.conj_disj_distrib2 and.assoc)
  show "and (or (and x 0x1f) f) 0x40 = (if f = 0x40 then 0x40 else 0)" if "f \<in> {0x80, 0x40, 0}"
    using that by (auto simp: bit.conj_disj_distrib2 and.assoc)
  assume x: "x < 0x80" and f: "f \<in> {0x80, 0x40, 0}"
  have a: "and (or 28 (and x 0x60)) 0xe0 = and x 0x60" by (simp add: bit.conj_disj_distrib2 and.assoc)
  have b: "and (or (and x 0x1f) f) 0x1f = and x 0x1f" using f by (auto simp: bit.conj_disj_distrib2 and.assoc)
  have "or (and x 0x60) (and x 0x1f) = and x (or 0x60 0x1f)" by (simp only: bit.conj_disj_distrib)
  also have "\<dots> = and x (mask 7)" by (simp add: mask_eq_exp_minus_1)
  also have "\<dots> = take_bit 7 x" by (simp only: take_bit_eq_mask)
  also have "\<dots> = x"
  proof -
    have "unat x < 2 ^ 7" using x by (simp add: word_less_nat_alt)
    then have "unat (take_bit 7 x) = unat x" by (simp only: unsigned_take_bit_eq take_bit_nat_eq_self)
    then show ?thesis by (simp only: word_unat_eq_iff)
  qed
  finally show "or (and (or 28 (and x 0x60)) 0xe0) (and (or (and x 0x1f) f) 0x1f) = x" using a b by simp
qed

lemma depack_later:
  assumes "Suc left < count" and "length body \<le> Suc left * frag"
  shows "depack acc (fragments frag nalu count (Suc left) body @ rest) = (acc @ body) # depack [] rest"
  using assms
proof (induction left arbitrary: acc body)
  case 0
  have f: "and (or (and (hd nalu) 0x1f) 0x40) 0x80 = (0 :: 8 word)" "and (or (and (hd nalu) 0x1f) 0x40) 0x40 = (0x40 :: 8 word)"
    using fragment_header(2,3) [of "0x40" "hd nalu"] by simp_all
  show ?case using 0 f fragment_header(1) [of "hd nalu"] by (simp add: fragment_def Let_def)
next
  case (Suc left)
  let ?n = "min frag (length body)"
  have f: "and (or (and (hd nalu) 0x1f) 0) 0x80 = (0 :: 8 word)" "and (or (and (hd nalu) 0x1f) 0) 0x40 = (0 :: 8 word)"
    using fragment_header(2,3) [of 0 "hd nalu"] by simp_all
  have i: "count - Suc (Suc left) \<noteq> 0" "count - Suc (Suc left) \<noteq> count - 1" using Suc.prems(1) by simp_all
  have IH: "depack (acc @ take ?n body) (fragments frag nalu count (Suc left) (drop ?n body) @ rest) = (acc @ take ?n body @ drop ?n body) # depack [] rest"
    using Suc.IH [of "drop ?n body" "acc @ take ?n body"] Suc.prems by simp
  have step: "fragments frag nalu count (Suc (Suc left)) body =
      fragment nalu (count - Suc (Suc left)) count (take ?n body) # fragments frag nalu count (Suc left) (drop ?n body)" by simp
  show ?case unfolding step append_Cons
    using IH f i fragment_header(1) [of "hd nalu"] by (simp add: fragment_def Let_def del: fragments.simps)
qed

lemma depack_fragments:
  assumes "nalu \<noteq> []" and "hd nalu < 0x80" and "2 \<le> count" and "length (tl nalu) \<le> count * frag"
  shows "depack acc (fragments frag nalu count count (tl nalu) @ rest) = nalu # depack [] rest"
proof -
  obtain k where k: "count = Suc (Suc k)" using assms(3) by (metis add_2_eq_Suc le_Suc_ex)
  let ?n = "min frag (length (tl nalu))"
  have f: "and (or (and (hd nalu) 0x1f) 0x80) 0x80 = (0x80 :: 8 word)" "and (or (and (hd nalu) 0x1f) 0x80) 0x40 = (0 :: 8 word)"
    "or (and (or 28 (and (hd nalu) 0x60)) 0xe0) (and (or (and (hd nalu) 0x1f) 0x80) 0x1f) = hd nalu"
    using fragment_header(2,3) [of "0x80" "hd nalu"] fragment_header(4) [of "hd nalu" "0x80"] assms(2) by simp_all
  have IH: "depack (hd nalu # take ?n (tl nalu)) (fragments frag nalu count (Suc k) (drop ?n (tl nalu)) @ rest) =
      ((hd nalu # take ?n (tl nalu)) @ drop ?n (tl nalu)) # depack [] rest"
    using assms(4) k by (intro depack_later) simp_all
  have step: "fragments frag nalu count count (tl nalu) =
      fragment nalu 0 count (take ?n (tl nalu)) # fragments frag nalu count (Suc k) (drop ?n (tl nalu))"
    unfolding k by simp
  show ?thesis unfolding step append_Cons
    using IH f fragment_header(1) [of "hd nalu"] assms(1) by (simp add: fragment_def Let_def del: fragments.simps)
qed

lemma plain_type: "plain_unit n \<Longrightarrow> n \<noteq> [] \<Longrightarrow> and (hd n) 31 \<noteq> 24 \<and> and (hd n) 31 \<noteq> 28"
  by (auto simp: plain_unit_def nal_type_def)

lemma depack_unit:
  assumes "plain_unit n" and "n \<noteq> []" and "2 < mtu"
  shows "depack acc (concat (map (plan_packets mtu) (unit_plans mtu n)) @ rest) = n # depack [] rest"
proof (cases "length n \<le> mtu")
  case True
  then have "concat (map (plan_packets mtu) (unit_plans mtu n)) = [n]" by (simp add: unit_plans_def plan_packets_def)
  then show ?thesis using plain_type [OF assms(1,2)] by (simp add: Let_def)
next
  case False
  then have "mtu < length n" by simp
  then show ?thesis
  proof (cases rule: unit_plans_cases)
    case 1
    then show ?thesis using assms(3) by simp
  next
    case (2 c)
    then have "concat (map (plan_packets mtu) (unit_plans mtu n)) = fragments (mtu - 2) n c c (tl n)" by (simp add: plan_packets_def)
    moreover have "hd n < 0x80" using assms(1,2) by (simp add: plain_unit_def)
    ultimately show ?thesis using depack_fragments [OF assms(2) _ 2(2,3)] by simp
  qed
qed

lemma depack_stap:
  assumes "5 + length sps + length pps \<le> mtu" and "mtu < 65536"
  shows "depack acc (plan_packets mtu (stap_plan sps pps) @ rest) = sps # pps # depack [] rest"
proof -
  have "stap_units (tl (stap_packet sps pps)) = [sps, pps]" using assms by (intro stap_units_packet) simp_all
  moreover have "hd (stap_packet sps pps) = 0x78" by (simp add: stap_packet_def)
  ultimately show ?thesis by (simp add: plan_packets_def stap_plan_def Let_def)
qed

text \<open>The packets of an access unit are those of its plans, which are delivered as units.\<close>

lemma plan_from:
  "fold (plan_nalu mtu disable) ns (plans, sps, pps) =
     (plans @ fst (fold (plan_nalu mtu disable) ns ([], sps, pps)), snd (fold (plan_nalu mtu disable) ns ([], sps, pps)))"
proof (induction ns arbitrary: plans sps pps)
  case (Cons n ns)
  obtain a s p where a: "plan_nalu mtu disable n ([], sps, pps) = (a, s, p)" by (cases "plan_nalu mtu disable n ([], sps, pps)") auto
  then have "plan_nalu mtu disable n (plans, sps, pps) = (plans @ a, s, p)" by (auto simp: plan_nalu_def Let_def split: if_splits)
  then show ?case using Cons.IH [of "plans @ a" s p] Cons.IH [of a s p] a by simp
qed simp

lemma depack_plans:
  assumes "list_all plain_unit ns" and "2 < mtu" and "mtu < 65536"
  shows "depack acc (concat (map (plan_packets mtu) (fst (fold (plan_nalu mtu disable) ns ([], sps, pps))))) = delivered mtu disable sps pps ns"
  using assms(1)
proof (induction ns arbitrary: acc sps pps)
  case (Cons n ns)
  have n: "plain_unit n" "list_all plain_unit ns" using Cons.prems by simp_all
  let ?P = "\<lambda>st. concat (map (plan_packets mtu) (fst (fold (plan_nalu mtu disable) ns st)))"
  have P: "?P (plans, s, p) = concat (map (plan_packets mtu) plans) @ ?P ([], s, p)" for plans s p by (subst plan_from) simp
  note IH = Cons.IH [OF n(2)]
  show ?case
  proof (cases "n = [] \<or> nal_type n = 9 \<or> nal_type n = 12 \<or> (nal_type n = 7 \<or> nal_type n = 8) \<and> \<not> disable")
    case True
    then show ?thesis using IH by (auto simp: plan_nalu_def Let_def)
  next
    case False
    then have ne: "n \<noteq> []" by simp
    note U = depack_unit [OF n(1) ne assms(2)]
    show ?thesis
    proof (cases "\<not> disable \<and> sps \<noteq> None \<and> pps \<noteq> None")
      case True
      then obtain s p where sp: "sps = Some s" "pps = Some p" by auto
      have st: "plan_nalu mtu disable n ([], sps, pps) =
          ((if 5 + length s + length p \<le> mtu then [stap_plan s p] else []) @ unit_plans mtu n, None, None)"
        using False True sp by (simp add: plan_nalu_def Let_def)
      have "depack acc (concat (map (plan_packets mtu) ((if 5 + length s + length p \<le> mtu then [stap_plan s p] else []) @ unit_plans mtu n)) @ ?P ([], None, None)) =
          (if 5 + length s + length p \<le> mtu then [s, p] else []) @ n # delivered mtu disable None None ns"
        using U IH depack_stap [OF _ assms(3), of s p] by simp
      then have "depack acc (concat (map (plan_packets mtu) (fst (fold (plan_nalu mtu disable) (n # ns) ([], sps, pps))))) =
          (if 5 + length s + length p \<le> mtu then [s, p] else []) @ n # delivered mtu disable None None ns"
        by (simp only: fold_simps st P [of "_ @ _"])
      then show ?thesis using False True sp by simp
    next
      case F: False
      have st: "plan_nalu mtu disable n ([], sps, pps) = (unit_plans mtu n, sps, pps)"
        using False F by (auto simp: plan_nalu_def Let_def)
      show ?thesis using False F U IH by (simp only: fold_simps st P [of "unit_plans mtu n"]) auto
    qed
  qed
qed simp

text \<open>Splitting what was joined.\<close>

lemma index_four: "annexb_index n = None \<Longrightarrow> annexb_index (n @ 0 # 0 # 0 # 1 # q) = Some (length n + 1)"
proof (induction n)
  case (Cons x n)
  have np: "\<not> prefix [0, 0, 1] (x # n)" and nn: "annexb_index n = None" using Cons.prems by (auto split: if_splits)
  have "\<not> prefix [0, 0, 1] ((x # n) @ 0 # 0 # 0 # 1 # q)"
    using np by (cases n; cases "tl n") auto
  then show ?case using Cons.IH [OF nn] by simp
qed simp

lemma emit_joined_from:
  assumes "start < length au" and "drop (start + (if four then 4 else 3)) au = n @ with_codes ns"
    and "annexb_index n = None" and "list_all (\<lambda>n. annexb_index n = None) ns"
  shows "emit_from au start four = n # ns"
  using assms
proof (induction ns arbitrary: n start four)
  case Nil
  then show ?case by (subst emit_from.simps) (simp add: Let_def with_codes_def)
next
  case (Cons m ns)
  let ?from = "start + (if four then 4 else 3)"
  have d: "drop ?from au = n @ 0 # 0 # 0 # 1 # m @ with_codes ns" using Cons.prems(2) by (simp add: with_codes_def)
  have dk: "drop (?from + k) au = drop k (n @ 0 # 0 # 0 # 1 # m @ with_codes ns)" for k
    using arg_cong [OF d, of "drop k"] by (simp add: add.commute)
  have len: "?from + length n + 4 \<le> length au" using arg_cong [OF d, of length] by simp
  have z: "au ! (?from + (length n + 1) - 1) = 0"
    using nth_drop [of "?from" au "length n"] len d by (simp add: nth_append)
  have s: "slice au ?from (?from + (length n + 1) - 1) = n" by (simp add: slice_def d)
  have r: "drop (?from + length n + 4) au = m @ with_codes ns" using dk [of "length n + 4"] by (simp add: add.assoc)
  have IH: "emit_from au (?from + (length n + 1) - 1) True = m # ns"
    using Cons.prems(4) len r by (intro Cons.IH) (simp_all add: add.assoc)
  show ?case using Cons.prems(1) index_four [OF Cons.prems(3), of "m @ with_codes ns"]
    by (subst emit_from.simps) (simp only: Let_def d option.case z s IH not_le [symmetric] if_False if_True simp_thms)
qed

lemma emit_joined:
  assumes "ns \<noteq> []" and "list_all (\<lambda>n. annexb_index n = None) ns"
  shows "ownedH264EmitNalus (with_codes ns) = ns"
proof -
  obtain n ms where ns: "ns = n # ms" using assms(1) by (cases ns) auto
  have "annexb_index (with_codes ns) = Some 1" by (simp add: ns with_codes_def)
  moreover have "emit_from (with_codes ns) 1 False = n # ms"
    using assms(2) by (intro emit_joined_from) (simp_all add: ns with_codes_def)
  ultimately show ?thesis by (simp add: ownedH264EmitNalus_def ns)
qed

lemma emit_no_code: "n \<in> set (emit_from au start four) \<Longrightarrow> annexb_index n = None"
proof (induction au start four rule: emit_from.induct)
  case (1 au start four)
  let ?from = "start + (if four then 4 else 3)"
  show ?case
  proof (cases "start \<ge> length au")
    case True
    then show ?thesis using "1.prems" by (subst (asm) emit_from.simps) simp
  next
    case False
    show ?thesis
    proof (cases "annexb_index (drop ?from au)")
      case None
      then show ?thesis using "1.prems" False by (subst (asm) emit_from.simps) (simp add: Let_def)
    next
      case (Some e)
      let ?four = "au ! (?from + e - 1) = 0"
      let ?next = "if ?four then ?from + e - 1 else ?from + e"
      have "n = slice au ?from ?next \<or> n \<in> set (emit_from au ?next ?four)"
        using "1.prems" False Some by (subst (asm) emit_from.simps) (simp only: Let_def option.case if_False list.set insert_iff)
      moreover have "annexb_index (slice au ?from ?next) = None"
      proof -
        have "slice au ?from ?next = take (?next - ?from) (take e (drop ?from au))" by (simp add: slice_def min_def)
        then show ?thesis using index_Some [OF Some] index_prefix [of "take (?next - ?from) (take e (drop ?from au))"] by (metis append_take_drop_id)
      qed
      ultimately show ?thesis using "1.IH" [OF False refl Some refl refl refl] by blast
    qed
  qed
qed

lemma emit_all_no_code: "n \<in> set (ownedH264EmitNalus au) \<Longrightarrow> annexb_index n = None"
  using emit_no_code by (auto simp: ownedH264EmitNalus_def split: option.splits)

lemma note_ok:
  assumes "sets_ok sets" and "annexb_index n = None" and "\<forall>k\<in>present. k < 3 \<and> sets ! k \<in> S" and "note_nalu n (sets, present, irap) = (sets', present', irap')"
  shows "sets_ok sets' \<and> (\<forall>k\<in>present'. k < 3 \<and> sets' ! k \<in> insert n S) \<and> irap' = (irap \<or> starts_decoder n)"
proof (cases "length n < 2")
  case True
  then show ?thesis using assms by (auto simp: note_nalu_def starts_decoder_def)
next
  case False
  let ?t = "hevc_type n"
  show ?thesis
  proof (cases "?t \<ge> 32 \<and> ?t \<le> 34")
    case ps: True
    then have eq: "sets' = sets[?t - 32 := n]" "present' = insert (?t - 32) present" "irap' = (irap \<or> starts_decoder n)"
      using assms(4) False by (auto simp: note_nalu_def Let_def starts_decoder_def)
    have "?t - 32 < 3" "32 + (?t - 32) = ?t" using ps by auto
    moreover have "is_parameter_set n" using ps False by (simp add: is_parameter_set_def)
    ultimately show ?thesis using assms(1-3) by (auto simp: eq sets_ok_def nth_list_update)
  next
    case np: False
    then show ?thesis using assms False by (auto simp: note_nalu_def Let_def starts_decoder_def)
  qed
qed

lemma notes_ok:
  assumes "sets_ok sets" and "list_all (\<lambda>n. annexb_index n = None) ns" and "\<forall>k\<in>present. k < 3 \<and> sets ! k \<in> S"
    and "fold note_nalu ns (sets, present, irap) = (sets', present', irap')"
  shows "sets_ok sets' \<and> (\<forall>k\<in>present'. k < 3 \<and> sets' ! k \<in> S \<union> set ns) \<and> irap' = (irap \<or> list_ex starts_decoder ns)"
  using assms
proof (induction ns arbitrary: sets present irap S)
  case (Cons n ns)
  obtain s p i where n: "note_nalu n (sets, present, irap) = (s, p, i)" by (cases "note_nalu n (sets, present, irap)") auto
  have "sets_ok s \<and> (\<forall>k\<in>p. k < 3 \<and> s ! k \<in> insert n S) \<and> i = (irap \<or> starts_decoder n)"
    using note_ok [OF Cons.prems(1) _ Cons.prems(3) n] Cons.prems(2) by simp
  then show ?case using Cons.IH [of s p "insert n S" i] Cons.prems(2,4) n by auto
qed simp

section \<open>Properties\<close>

text \<open>
  C33. The packets of an H.264 access unit: the slab they are cut from is used exactly, no packet is empty or larger
  than the MTU, and a receiver that puts the packets together gets the units of the access unit in order, byte
  for byte, with the parameter sets together before the unit that follows them.
\<close>

theorem packets_deliver_units:
  "\<exists>packets p'. Payload mtu payload p = Some (packets, p') \<and> list_all (\<lambda>x. x \<noteq> [] \<and> length x \<le> unat mtu) packets \<and>
     (3 \<le> unat mtu \<and> list_all plain_unit (ownedH264EmitNalus payload) \<longrightarrow>
        depack [] packets = delivered (unat mtu) (DisableStapA p) (spsNalu p) (ppsNalu p) (ownedH264EmitNalus payload))"
proof (cases "payload = []")
  case True
  then show ?thesis by (simp add: Payload_def ownedH264EmitNalus_def)
next
  case False
  obtain plans sps pps where f: "fold (plan_nalu (unat mtu) (DisableStapA p)) (ownedH264EmitNalus payload) ([], spsNalu p, ppsNalu p) = (plans, sps, pps)"
    by (cases "fold (plan_nalu (unat mtu) (DisableStapA p)) (ownedH264EmitNalus payload) ([], spsNalu p, ppsNalu p)") auto
  have ok: "list_all (plan_ok (unat mtu)) plans"
    using plans_ok [of "unat mtu" "([], spsNalu p, ppsNalu p)" "DisableStapA p" "ownedH264EmitNalus payload"] f by simp
  define packets where "packets = concat (map (plan_packets (unat mtu)) plans)"
  have l: "length packets = sum_list (map pl_count plans)"
    using ok unfolding packets_def by (induction plans) (auto simp: plan_ok_def)
  have e: "emit_plans (unat mtu) (sum_list (map pl_size plans)) (sum_list (map pl_count plans)) plans (0, []) =
      Some (sum_list (map pl_size plans), packets)"
    using emit_plans_ok [OF ok, of 0 _ "[]"] by (simp add: packets_def)
  have run: "Payload mtu payload p = Some (packets, p\<lparr>spsNalu := sps, ppsNalu := pps\<rparr>)"
    using False f e by (cases "packets = []") (auto simp: Payload_def Let_def l [symmetric] simp del: sum_list_eq_0_iff)
  have "list_all (\<lambda>x. x \<noteq> [] \<and> length x \<le> unat mtu) packets"
    using ok by (auto simp: packets_def list_all_iff plan_ok_def)
  moreover have "depack [] packets = delivered (unat mtu) (DisableStapA p) (spsNalu p) (ppsNalu p) (ownedH264EmitNalus payload)"
    if "3 \<le> unat mtu" "list_all plain_unit (ownedH264EmitNalus payload)"
  proof -
    have "unat mtu < 65536" using unsigned_less [of mtu] by simp
    then show ?thesis using depack_plans [OF that(2), of "unat mtu" "[]" "DisableStapA p" "spsNalu p" "ppsNalu p"] that(1) f by (simp add: packets_def)
  qed
  ultimately show ?thesis using run by blast
qed

theorem packets_deliver_units_witness:
  "\<exists>packets p'. Payload 8 au_example \<lparr>spsNalu = None, ppsNalu = None, DisableStapA = False\<rparr> = Some (packets, p') \<and>
     depack [] packets = [[0x65, 1, 2, 3, 4, 5, 6, 7, 8, 9]]"
proof -
  have u: "list_all plain_unit (ownedH264EmitNalus au_example)" "3 \<le> unat (8 :: 16 word)" by code_simp+
  have d: "delivered (unat (8 :: 16 word)) False None None (ownedH264EmitNalus au_example) = [[0x65, 1, 2, 3, 4, 5, 6, 7, 8, 9]]" by code_simp
  show ?thesis using packets_deliver_units [of 8 au_example "\<lparr>spsNalu = None, ppsNalu = None, DisableStapA = False\<rparr>"] u d by auto
qed

text \<open>
  A decoder can start at every H.265 picture it may start at: once the three parameter sets are known, an access
  unit with such a picture is sent with all of them, the latest ones, and with all its other units as they were.
\<close>

theorem decoder_can_start:
  assumes "sets_ok sets" and "h265_configure payload sets = (payload', sets')"
  shows "sets_ok sets' \<and>
    filter (\<lambda>n. \<not> is_parameter_set n) (ownedH264EmitNalus payload') = filter (\<lambda>n. \<not> is_parameter_set n) (ownedH264EmitNalus payload) \<and>
    (list_ex starts_decoder (ownedH264EmitNalus payload) \<and> list_all (\<lambda>n. n \<noteq> []) sets' \<longrightarrow> set sets' \<subseteq> set (ownedH264EmitNalus payload'))"
proof -
  let ?ns = "ownedH264EmitNalus payload"
  obtain s present irap where f: "fold note_nalu ?ns (sets, {}, False) = (s, present, irap)" by (cases "fold note_nalu ?ns (sets, {}, False)") auto
  have s: "s = sets'" using assms(2) f by (auto simp: h265_configure_def split: if_splits)
  have nc: "list_all (\<lambda>n. annexb_index n = None) ?ns" using emit_all_no_code by (auto simp: list_all_iff)
  have ok: "sets_ok sets'" and pr: "\<forall>k\<in>present. k < 3 \<and> sets' ! k \<in> set ?ns" and ir: "irap = list_ex starts_decoder ?ns"
    using notes_ok [OF assms(1) nc, of "{}" "{}" False s present irap] f s by simp_all
  have sets: "set sets' = {sets' ! 0, sets' ! 1, sets' ! 2}" using ok
    by (auto simp: sets_ok_def set_conv_nth numeral_3_eq_3 less_Suc_eq numeral_2_eq_2)
  show ?thesis
  proof (cases "irap \<and> \<not> {0, 1, 2} \<subseteq> present \<and> list_all (\<lambda>n. n \<noteq> []) sets'")
    case True
    let ?rest = "filter (\<lambda>n. \<not> is_parameter_set n) ?ns"
    have p': "payload' = with_codes (sets' @ ?rest)" using assms(2) f s True by (auto simp: h265_configure_def with_codes_def)
    have ps: "n \<in> set sets' \<Longrightarrow> is_parameter_set n \<and> annexb_index n = None" for n
      using ok True by (auto simp: sets_ok_def in_set_conv_nth list_all_iff)
    then have "list_all (\<lambda>n. annexb_index n = None) (sets' @ ?rest)" using nc by (auto simp: list_all_iff)
    moreover have "sets' @ ?rest \<noteq> []" using ok by (auto simp: sets_ok_def)
    ultimately have e: "ownedH264EmitNalus payload' = sets' @ ?rest" using emit_joined p' by simp
    have "filter (\<lambda>n. \<not> is_parameter_set n) sets' = []" using ps by (auto simp: filter_empty_conv)
    then show ?thesis using e ok by simp
  next
    case False
    then have "payload' = payload" using assms(2) f s by (auto simp: h265_configure_def split: if_splits)
    then show ?thesis using ok False ir pr sets by auto
  qed
qed

theorem decoder_can_start_witness:
  "{[0x40, 1], [0x42, 1], [0x44, 1]} \<subseteq> set (ownedH264EmitNalus (fst (h265_configure cra_example [[0x40, 1], [0x42, 1], [0x44, 1]])))"
proof -
  let ?s = "[[0x40, 1], [0x42, 1], [0x44, 1]] :: parameterSets"
  have ok: "sets_ok ?s"
    by (simp add: sets_ok_def All_less_Suc numeral_3_eq_3 is_parameter_set_def hevc_type_def)
  have s: "snd (h265_configure cra_example ?s) = ?s" and st: "list_ex starts_decoder (ownedH264EmitNalus cra_example)" by code_simp+
  have "h265_configure cra_example ?s = (fst (h265_configure cra_example ?s), ?s)" by (rule prod_eqI) (simp_all add: s)
  from decoder_can_start [OF ok this] st show ?thesis by simp
qed

end
