(* ===== verification/Video_Delivery.thy ===== *)
theory Video_Delivery
  imports Prelude "HOL-Library.Sublist"
begin

text \<open>
  The way of a frame from the encoder to a viewer: the subscription of a transport
  (\<open>service/stream/video_source.go\<close>), the queue of a WebRTC peer (\<open>service/stream/webrtc/peer_writer.go\<close>) and the
  queue of a direct viewer (\<open>service/stream/direct/client.go\<close>). Each may drop frames; a decoder cannot use a frame
  whose predecessor is missing, so after a gap each of them waits for a key frame. The contract they share is a
  locale, and every queue is an interpretation of it.
\<close>

section \<open>Frames\<close>

text \<open>\<open>vf_id\<close> is the place of a frame in the order of capture; the lengths stand for the contents.\<close>

record VideoFrame =
  vf_id :: nat
  vf_Storage :: nat
  vf_Data :: nat
  vf_Result :: int
  vf_Duration :: duration
  vf_Timestamp :: int

definition IsKeyframe :: "VideoFrame \<Rightarrow> bool" where
  "IsKeyframe f \<longleftrightarrow> vf_Result f = 3"

definition is_video :: "VideoFrame \<Rightarrow> bool" where
  "is_video f \<longleftrightarrow> vf_Result f \<ge> 0 \<and> vf_Data f > 0"

text \<open>A frame after another: a key frame, or the next one captured.\<close>

definition follows :: "VideoFrame \<Rightarrow> VideoFrame \<Rightarrow> bool" where
  "follows f g \<longleftrightarrow> IsKeyframe g \<or> vf_id g = Suc (vf_id f)"

fun successive :: "VideoFrame list \<Rightarrow> bool" where
  "successive [] \<longleftrightarrow> True"
| "successive [f] \<longleftrightarrow> True"
| "successive (f # g # fs) \<longleftrightarrow> follows f g \<and> successive (g # fs)"

definition decodable :: "VideoFrame list \<Rightarrow> bool" where
  "decodable fs \<longleftrightarrow> successive fs \<and> (fs \<noteq> [] \<longrightarrow> IsKeyframe (hd fs))"

section \<open>A subscription\<close>

record VideoSubscription =
  sb_frames :: "VideoFrame list"
  sb_closed :: bool
  sb_waitingForKeyframe :: bool
  sb_requested :: bool

definition subscription_capacity :: nat where "subscription_capacity = 24"

definition new_subscription :: VideoSubscription where
  "new_subscription = \<lparr>sb_frames = [], sb_closed = False, sb_waitingForKeyframe = True, sb_requested = True\<rparr>"

text \<open>
  The frames that the receiver took while the full channel was emptied: the channel has no lock, so each of its
  frames goes to the receiver or is dropped.
\<close>

definition taken :: "bool list \<Rightarrow> 'a list \<Rightarrow> 'a list" where
  "taken got xs = map fst (filter snd (zip xs got))"

definition send :: "bool list \<Rightarrow> VideoFrame \<Rightarrow> VideoSubscription \<Rightarrow> bool \<times> VideoFrame list \<times> VideoSubscription" where
  "send got f s =
     (if sb_closed s then (False, [], s)
      else if sb_waitingForKeyframe s \<and> vf_Result f \<ge> 0 \<and> \<not> IsKeyframe f then (False, [], s)
      else let s1 = (if sb_waitingForKeyframe s \<and> vf_Result f \<ge> 0 then s\<lparr>sb_waitingForKeyframe := False\<rparr> else s) in
        if length (sb_frames s1) < subscription_capacity then (True, [], s1\<lparr>sb_frames := sb_frames s1 @ [f]\<rparr>)
        else let out = taken got (sb_frames s1); s2 = s1\<lparr>sb_frames := [], sb_requested := True, sb_waitingForKeyframe := True\<rparr> in
          if \<not> IsKeyframe f then (False, out, s2)
          else (True, out, s2\<lparr>sb_waitingForKeyframe := False, sb_frames := [f]\<rparr>))"

definition Next :: "VideoSubscription \<Rightarrow> (VideoFrame \<times> VideoSubscription) option" where
  "Next s = (case sb_frames s of [] \<Rightarrow> None | f # fs \<Rightarrow> Some (f, s\<lparr>sb_frames := fs\<rparr>))"

definition Close :: "VideoSubscription \<Rightarrow> VideoSubscription" where
  "Close s = s\<lparr>sb_closed := True\<rparr>"

text \<open>The request of a key frame is taken at most twice a second.\<close>

definition takeKeyframeRequest :: "time \<Rightarrow> time \<Rightarrow> bool \<Rightarrow> bool \<times> time \<times> bool" where
  "takeKeyframeRequest now last' requested =
     (if time_sub now last' < 500 * millisecond then (False, last', requested)
      else if \<not> requested then (False, last', False) else (True, now, False))"

definition advanceCaptureDeadline :: "time \<Rightarrow> time \<Rightarrow> duration \<Rightarrow> time" where
  "advanceCaptureDeadline previous now period =
     (let next = previous + period in if next < now - period then now else next)"

section \<open>The queue of a peer\<close>

record queuedVideoFrame =
  qf_frame :: VideoFrame
  qf_generation :: "64 word"

text \<open>Where the goroutine that writes to the peer is.\<close>

datatype writer_phase = Ready | Received queuedVideoFrame | Checked queuedVideoFrame | Writing queuedVideoFrame
  | Wrote queuedVideoFrame | Budget | Done

record peerVideoWriter =
  pw_frames :: "queuedVideoFrame list"
  pw_capacity :: nat
  pw_closed :: bool
  pw_repairing :: bool
  pw_queuedBytes :: int
  pw_lastKeyframeRequest :: time
  pw_keyframeWait :: duration
  pw_repairGeneration :: "64 word"
  pw_requests :: nat
  pw_phase :: writer_phase

definition peerVideoQueueBytes :: int where "peerVideoQueueBytes = 2 * 1024 * 1024"
definition peerVideoSingleFrameBytes :: int where "peerVideoSingleFrameBytes = 64 * 2 ^ 20 + 9"
definition keyframeRequestInterval :: duration where "keyframeRequestInterval = second"
definition keyframeRequestMaxInterval :: duration where "keyframeRequestMaxInterval = 8 * second"

definition peerWriterQueueCapacity :: "string \<Rightarrow> nat" where
  "peerWriterQueueCapacity env = (if env = ''8'' then 8 else if env = ''32'' then 32 else if env = ''64'' then 64 else 32)"

definition peerWriterFrameBytes :: "VideoFrame \<Rightarrow> int" where
  "peerWriterFrameBytes f = (if vf_Storage f \<noteq> 0 then int (vf_Storage f) else int (vf_Data f))"

definition newPeerVideoWriter :: "string \<Rightarrow> peerVideoWriter" where
  "newPeerVideoWriter env = \<lparr>pw_frames = [], pw_capacity = peerWriterQueueCapacity env, pw_closed = False, pw_repairing = True,
     pw_queuedBytes = 0, pw_lastKeyframeRequest = 0, pw_keyframeWait = 0, pw_repairGeneration = 1, pw_requests = 0, pw_phase = Ready\<rparr>"

definition startRepairLocked :: "peerVideoWriter \<Rightarrow> peerVideoWriter" where
  "startRepairLocked w = w\<lparr>pw_repairing := True, pw_repairGeneration := pw_repairGeneration w + 1\<rparr>"

definition requestKeyframeLocked :: "time \<Rightarrow> peerVideoWriter \<Rightarrow> peerVideoWriter" where
  "requestKeyframeLocked now w =
     (if pw_keyframeWait w > 0 \<and> time_sub now (pw_lastKeyframeRequest w) < pw_keyframeWait w then w
      else w\<lparr>pw_lastKeyframeRequest := now,
        pw_keyframeWait := (if pw_keyframeWait w = 0 then keyframeRequestInterval else min (2 * pw_keyframeWait w) keyframeRequestMaxInterval),
        pw_requests := pw_requests w + 1\<rparr>)"

definition tryEnqueueLocked :: "VideoFrame \<Rightarrow> peerVideoWriter \<Rightarrow> peerVideoWriter option" where
  "tryEnqueueLocked f w =
     (let bytes = peerWriterFrameBytes f in
      if bytes > peerVideoSingleFrameBytes then None
      else if pw_frames w \<noteq> [] \<and> (bytes > peerVideoQueueBytes \<or> pw_queuedBytes w + bytes > peerVideoQueueBytes) then None
      else if length (pw_frames w) \<ge> pw_capacity w then None
      else Some (w\<lparr>pw_frames := pw_frames w @ [\<lparr>qf_frame = f, qf_generation = pw_repairGeneration w\<rparr>], pw_queuedBytes := pw_queuedBytes w + bytes\<rparr>))"

text \<open>
  Emptying the queue under the lock. The writing goroutine receives without the lock, and then waits for it: while
  the queue is emptied it can receive one frame, that at place \<open>k\<close> if \<open>steal\<close> is \<open>Some k\<close>.
\<close>

definition drained_bytes :: "queuedVideoFrame list \<Rightarrow> int" where
  "drained_bytes qs = sum_list (map (\<lambda>q. peerWriterFrameBytes (qf_frame q)) qs)"

definition drainLocked :: "nat option \<Rightarrow> peerVideoWriter \<Rightarrow> peerVideoWriter" where
  "drainLocked steal w =
     (case (steal, pw_phase w) of
        (Some k, Ready) \<Rightarrow>
          if k < length (pw_frames w)
          then w\<lparr>pw_frames := [], pw_phase := Received (pw_frames w ! k),
             pw_queuedBytes := pw_queuedBytes w - (drained_bytes (pw_frames w) - peerWriterFrameBytes (qf_frame (pw_frames w ! k)))\<rparr>
          else w\<lparr>pw_frames := [], pw_queuedBytes := pw_queuedBytes w - drained_bytes (pw_frames w)\<rparr>
      | _ \<Rightarrow> w\<lparr>pw_frames := [], pw_queuedBytes := pw_queuedBytes w - drained_bytes (pw_frames w)\<rparr>)"

definition offer_peer :: "time \<Rightarrow> nat option \<Rightarrow> VideoFrame \<Rightarrow> peerVideoWriter \<Rightarrow> bool \<times> peerVideoWriter" where
  "offer_peer now steal f w =
     (if pw_closed w then (False, w)
      else if pw_repairing w \<and> \<not> IsKeyframe f then (False, requestKeyframeLocked now w)
      else case tryEnqueueLocked f w of
        Some v \<Rightarrow> (True, v\<lparr>pw_repairing := False\<rparr>)
      | None \<Rightarrow>
          let v = startRepairLocked (drainLocked steal w) in
          case (if IsKeyframe f then tryEnqueueLocked f v else None) of
            Some u \<Rightarrow> (True, u\<lparr>pw_repairing := False\<rparr>)
          | None \<Rightarrow> (False, requestKeyframeLocked now v))"

definition close_peer :: "nat option \<Rightarrow> peerVideoWriter \<Rightarrow> peerVideoWriter" where
  "close_peer steal w = (if pw_closed w then w else drainLocked steal (w\<lparr>pw_closed := True\<rparr>))"

text \<open>The writing goroutine: what it does next, and how a write ends.\<close>

datatype write_end = Written | OverBudget | WriteFailed

definition receive_peer :: "peerVideoWriter \<Rightarrow> peerVideoWriter option" where
  "receive_peer w =
     (case pw_phase w of
        Ready \<Rightarrow>
          (case pw_frames w of
             q # qs \<Rightarrow> Some (w\<lparr>pw_frames := qs, pw_phase := Received q\<rparr>)
           | [] \<Rightarrow> if pw_closed w then Some (w\<lparr>pw_phase := Done\<rparr>) else None)
      | _ \<Rightarrow> None)"

definition account_peer :: "peerVideoWriter \<Rightarrow> peerVideoWriter option" where
  "account_peer w =
     (case pw_phase w of
        Received q \<Rightarrow>
          Some (w\<lparr>pw_queuedBytes := pw_queuedBytes w - peerWriterFrameBytes (qf_frame q),
            pw_phase := (if pw_closed w then Done else Checked q)\<rparr>)
      | _ \<Rightarrow> None)"

text \<open>A frame that reaches a closed peer counts as written, and is not.\<close>

definition begin_write :: "peerVideoWriter \<Rightarrow> peerVideoWriter option" where
  "begin_write w =
     (case pw_phase w of Checked q \<Rightarrow> Some (w\<lparr>pw_phase := (if pw_closed w then Wrote q else Writing q)\<rparr>) | _ \<Rightarrow> None)"

definition end_write :: "write_end \<Rightarrow> peerVideoWriter \<Rightarrow> (VideoFrame list \<times> peerVideoWriter) option" where
  "end_write e w =
     (case pw_phase w of
        Writing q \<Rightarrow>
          (case e of
             Written \<Rightarrow> Some ([qf_frame q], w\<lparr>pw_phase := Wrote q\<rparr>)
           | OverBudget \<Rightarrow> Some ([], w\<lparr>pw_phase := Budget\<rparr>)
           | WriteFailed \<Rightarrow> Some ([], w\<lparr>pw_phase := Done\<rparr>))
      | _ \<Rightarrow> None)"

definition finish_write :: "peerVideoWriter \<Rightarrow> peerVideoWriter option" where
  "finish_write w =
     (case pw_phase w of
        Wrote q \<Rightarrow>
          Some (w\<lparr>pw_keyframeWait := (if IsKeyframe (qf_frame q) \<and> \<not> pw_repairing w \<and> qf_generation q = pw_repairGeneration w then 0 else pw_keyframeWait w),
            pw_phase := Ready\<rparr>)
      | Budget \<Rightarrow> Some ((startRepairLocked (drainLocked None w))\<lparr>pw_phase := Ready\<rparr>)
      | _ \<Rightarrow> None)"

section \<open>The queue of a direct viewer\<close>

record frameQueue =
  q_frames :: "VideoFrame list"
  q_queuedBytes :: int
  q_inFlight :: "int list"
  q_maxFrames :: int
  q_maxBytes :: int
  q_window :: int
  q_timeBased :: bool
  q_flowControlled :: bool
  q_waitingForKeyframe :: bool
  q_closed :: bool
  q_lastKeyframeRequest :: time
  q_oversizedAt :: time
  q_oversizedBackoff :: duration
  q_requests :: nat

definition defaultQueueFrames :: int where "defaultQueueFrames = 8"
definition maxQueueFrames :: int where "maxQueueFrames = 24"
definition queueDelay :: duration where "queueDelay = 150 * millisecond"
definition defaultQueueBytes :: int where "defaultQueueBytes = 2 * 1024 * 1024"
definition oversizedBackoffMin :: duration where "oversizedBackoffMin = 2 * second"
definition oversizedBackoffMax :: duration where "oversizedBackoffMax = 30 * second"
definition maxFlowWindow :: int where "maxFlowWindow = 8"

text \<open>The payload of a frame: nine bytes before its data, in its own storage or in a copy.\<close>

definition payload :: "VideoFrame \<Rightarrow> int" where
  "payload f = int (9 + vf_Data f)"

definition queueDepthFor :: "duration \<Rightarrow> int" where
  "queueDepthFor d =
     (if d \<le> 0 then defaultQueueFrames else min (max ((queueDelay + d div 2) div d) defaultQueueFrames) maxQueueFrames)"

definition newFrameQueue :: frameQueue where
  "newFrameQueue = \<lparr>q_frames = [], q_queuedBytes = 0, q_inFlight = [], q_maxFrames = defaultQueueFrames, q_maxBytes = defaultQueueBytes,
     q_window = 0, q_timeBased = True, q_flowControlled = False, q_waitingForKeyframe = True, q_closed = False,
     q_lastKeyframeRequest = 0, q_oversizedAt = 0, q_oversizedBackoff = 0, q_requests = 0\<rparr>"

definition clearFramesLocked :: "frameQueue \<Rightarrow> frameQueue" where
  "clearFramesLocked q = q\<lparr>q_frames := [], q_queuedBytes := 0\<rparr>"

definition pushLocked :: "VideoFrame \<Rightarrow> frameQueue \<Rightarrow> frameQueue" where
  "pushLocked f q = q\<lparr>q_frames := q_frames q @ [f], q_queuedBytes := q_queuedBytes q + payload f\<rparr>"

definition startWaitLocked :: "frameQueue \<Rightarrow> frameQueue" where
  "startWaitLocked q = q\<lparr>q_waitingForKeyframe := True\<rparr>"

definition beginOversizedLocked :: "time \<Rightarrow> frameQueue \<Rightarrow> frameQueue" where
  "beginOversizedLocked now q =
     (let end = q_oversizedAt q + q_oversizedBackoff q in
      if q_oversizedBackoff q = 0 \<or> time_sub now end \<ge> oversizedBackoffMax then q\<lparr>q_oversizedBackoff := oversizedBackoffMin, q_oversizedAt := now\<rparr>
      else if now < end then q
      else q\<lparr>q_oversizedBackoff := min (q_oversizedBackoff q * 2) oversizedBackoffMax, q_oversizedAt := now\<rparr>)"

definition oversizedSuppressedLocked :: "time \<Rightarrow> frameQueue \<Rightarrow> bool" where
  "oversizedSuppressedLocked now q \<longleftrightarrow> q_oversizedBackoff q \<noteq> 0 \<and> now < q_oversizedAt q + q_oversizedBackoff q"

definition resetOversizedLocked :: "frameQueue \<Rightarrow> frameQueue" where
  "resetOversizedLocked q = q\<lparr>q_oversizedAt := 0, q_oversizedBackoff := 0\<rparr>"

definition request_direct :: "time \<Rightarrow> frameQueue \<Rightarrow> frameQueue" where
  "request_direct now q =
     (if oversizedSuppressedLocked now q then q
      else if \<not> is_zero (q_lastKeyframeRequest q) \<and> time_sub now (q_lastKeyframeRequest q) < keyframeRequestInterval then q
      else q\<lparr>q_lastKeyframeRequest := now, q_requests := q_requests q + 1\<rparr>)"

definition enableFlowControl :: "int \<Rightarrow> frameQueue \<Rightarrow> frameQueue" where
  "enableFlowControl w q =
     resetOversizedLocked ((clearFramesLocked q)\<lparr>q_inFlight := [], q_window := min (max w 1) maxFlowWindow,
       q_flowControlled := True, q_waitingForKeyframe := True\<rparr>)"

definition captureState :: "frameQueue \<Rightarrow> bool \<times> bool \<times> bool" where
  "captureState q =
     (if q_closed q then (False, q_flowControlled q, False)
      else if \<not> q_flowControlled q then (True, False, True)
      else (True, True, q_waitingForKeyframe q \<or> int (length (q_frames q)) < q_maxFrames q \<and> q_queuedBytes q < q_maxBytes q))"

definition hasCaptureDemand :: "frameQueue list \<Rightarrow> bool" where
  "hasCaptureDemand qs = list_ex (\<lambda>q. case captureState q of (active, flow, can) \<Rightarrow> active \<and> (\<not> flow \<or> can)) qs"

definition dropDeltaLocked :: "time \<Rightarrow> bool \<Rightarrow> frameQueue \<Rightarrow> frameQueue" where
  "dropDeltaLocked now oversized q =
     (if oversized
      then beginOversizedLocked now (if q_oversizedBackoff q \<noteq> 0 \<and> \<not> oversizedSuppressedLocked now q then request_direct now q else q)
      else request_direct now q)"

definition offer_direct :: "time \<Rightarrow> VideoFrame \<Rightarrow> frameQueue \<Rightarrow> bool \<times> frameQueue" where
  "offer_direct now f q =
     (if q_closed q then (False, q)
      else let q = (if q_timeBased q \<and> vf_Duration f > 0 then q\<lparr>q_maxFrames := queueDepthFor (vf_Duration f)\<rparr> else q);
               oversized = payload f > q_maxBytes q in
        if IsKeyframe f then
          (let q = clearFramesLocked q in
           if oversized then (False, beginOversizedLocked now (startWaitLocked q))
           else (True, pushLocked f (resetOversizedLocked (q\<lparr>q_waitingForKeyframe := False\<rparr>))))
        else if q_waitingForKeyframe q then (False, dropDeltaLocked now oversized q)
        else if int (length (q_frames q)) \<ge> q_maxFrames q \<or> q_queuedBytes q + payload f > q_maxBytes q
          then (False, dropDeltaLocked now oversized (startWaitLocked (clearFramesLocked q)))
        else (True, pushLocked f q))"

definition popForWrite :: "frameQueue \<Rightarrow> (VideoFrame \<times> frameQueue) option" where
  "popForWrite q =
     (case q_frames q of
        [] \<Rightarrow> None
      | f # fs \<Rightarrow>
          if q_closed q \<or> q_flowControlled q \<and> int (length (q_inFlight q)) \<ge> q_window q then None
          else Some (f, q\<lparr>q_frames := fs, q_queuedBytes := q_queuedBytes q - payload f,
            q_inFlight := (if q_flowControlled q then q_inFlight q @ [vf_Timestamp f] else q_inFlight q)\<rparr>))"

definition acknowledge :: "int \<Rightarrow> frameQueue \<Rightarrow> frameQueue" where
  "acknowledge t q = q\<lparr>q_inFlight := dropWhile (\<lambda>x. x \<le> t) (q_inFlight q)\<rparr>"

definition requestResync :: "time \<Rightarrow> frameQueue \<Rightarrow> frameQueue" where
  "requestResync now q =
     (resetOversizedLocked (startWaitLocked ((clearFramesLocked q)\<lparr>q_inFlight := []\<rparr>)))\<lparr>q_lastKeyframeRequest := now\<rparr>"

definition markDiscontinuity :: "time \<Rightarrow> frameQueue \<Rightarrow> frameQueue" where
  "markDiscontinuity now q = request_direct now (startWaitLocked (clearFramesLocked q))"

definition close_direct :: "frameQueue \<Rightarrow> frameQueue" where
  "close_direct q = (clearFramesLocked q)\<lparr>q_closed := True, q_inFlight := []\<rparr>"

text \<open>A message of the viewer.\<close>

definition handleControl :: "time \<Rightarrow> bool \<Rightarrow> bytes \<Rightarrow> frameQueue \<Rightarrow> bool \<times> frameQueue" where
  "handleControl now binary data q =
     (if \<not> binary \<or> data = [] then (False, q)
      else if hd data = 2 then
        (False, if length data = 9
          then acknowledge (sint (ucast (le32_at data 1) OR push_bit 32 (ucast (le32_at data 5)) :: 64 word)) q else q)
      else if hd data = 3 then (if length data = 1 then (True, requestResync now q) else (False, q))
      else if hd data = 4 then (length data = 1, q)
      else (False, q))"

section \<open>The steps of each queue\<close>

text \<open>A step takes a frame in or not, and lets frames out.\<close>

inductive direct_step :: "frameQueue \<Rightarrow> VideoFrame option \<Rightarrow> VideoFrame list \<Rightarrow> frameQueue \<Rightarrow> bool" where
  offered: "direct_step q (Some f) [] (snd (offer_direct now f q))"
| skipped: "direct_step q (Some f) [] (markDiscontinuity now q)"
| popped: "popForWrite q = Some (f, q') \<Longrightarrow> direct_step q None [f] q'"
| flow: "direct_step q None [] (enableFlowControl w q)"
| control: "direct_step q None [] (snd (handleControl now binary data q))"
| closes: "direct_step q None [] (close_direct q)"

text \<open>\<open>in_order\<close>: the receiver took no frame behind one that was dropped.\<close>

definition in_order :: "bool list \<Rightarrow> bool" where
  "in_order got \<longleftrightarrow> list_all Not (dropWhile (\<lambda>x. x) got)"

inductive sub_step :: "bool \<Rightarrow> VideoSubscription \<Rightarrow> VideoFrame option \<Rightarrow> VideoFrame list \<Rightarrow> VideoSubscription \<Rightarrow> bool" for race where
  sent: "is_video f \<Longrightarrow> race \<or> in_order got \<Longrightarrow> send got f s = (ok, out, s') \<Longrightarrow> sub_step race s (Some f) (filter is_video out) s'"
| errors: "vf_Result f < 0 \<Longrightarrow> race \<or> in_order got \<Longrightarrow> send got f s = (ok, out, s') \<Longrightarrow> sub_step race s None (filter is_video out) s'"
| received: "Next s = Some (f, s') \<Longrightarrow> sub_step race s None (filter is_video [f]) s'"
| closes: "sub_step race s None [] (Close s)"

inductive peer_step :: "bool \<Rightarrow> peerVideoWriter \<Rightarrow> VideoFrame option \<Rightarrow> VideoFrame list \<Rightarrow> peerVideoWriter \<Rightarrow> bool" for race where
  offers: "race \<or> steal \<in> {None, Some 0} \<Longrightarrow> peer_step race w (Some f) [] (snd (offer_peer now steal f w))"
| receives: "receive_peer w = Some v \<Longrightarrow> peer_step race w None [] v"
| accounts: "account_peer w = Some v \<Longrightarrow> peer_step race w None [] v"
| begins: "begin_write w = Some v \<Longrightarrow> peer_step race w None [] v"
| ends: "end_write e w = Some (out, v) \<Longrightarrow> peer_step race w None out v"
| finishes: "finish_write w = Some v \<Longrightarrow> peer_step race w None [] v"
| closes: "race \<or> steal \<in> {None, Some 0} \<Longrightarrow> peer_step race w None [] (close_peer steal w)"

section \<open>The contract of a queue that may drop frames\<close>



inductive run :: "('s \<Rightarrow> VideoFrame option \<Rightarrow> VideoFrame list \<Rightarrow> 's \<Rightarrow> bool) \<Rightarrow> 's \<Rightarrow> VideoFrame list \<Rightarrow> VideoFrame list \<Rightarrow> 's \<Rightarrow> bool"
  for step where
  start: "run step s [] [] s"
| another: "run step s ins outs s' \<Longrightarrow> step s' i out s'' \<Longrightarrow>
    run step s (ins @ (case i of None \<Rightarrow> [] | Some f \<Rightarrow> [f])) (outs @ out) s''"






text \<open>The storage that a queue holds on to.\<close>

definition direct_bounded :: "frameQueue \<Rightarrow> bool" where
  "direct_bounded q \<longleftrightarrow>
     q_queuedBytes q = sum_list (map payload (q_frames q)) \<and> q_queuedBytes q \<le> q_maxBytes q \<and> q_maxBytes q = defaultQueueBytes \<and>
     int (length (q_frames q)) \<le> maxQueueFrames \<and> q_maxFrames q \<le> maxQueueFrames \<and> defaultQueueFrames \<le> q_maxFrames q \<and>
     (if q_flowControlled q then int (length (q_inFlight q)) \<le> q_window q \<and> q_window q \<le> maxFlowWindow else q_inFlight q = [])"

definition in_hand :: "peerVideoWriter \<Rightarrow> int" where
  "in_hand w = (case pw_phase w of Received q \<Rightarrow> peerWriterFrameBytes (qf_frame q) | _ \<Rightarrow> 0)"

definition peer_bounded :: "peerVideoWriter \<Rightarrow> bool" where
  "peer_bounded w \<longleftrightarrow>
     pw_queuedBytes w = drained_bytes (pw_frames w) + in_hand w \<and> length (pw_frames w) \<le> pw_capacity w \<and>
     list_all (\<lambda>q. peerWriterFrameBytes (qf_frame q) \<le> peerVideoSingleFrameBytes) (pw_frames w) \<and>
     (length (pw_frames w) \<le> 1 \<or> drained_bytes (pw_frames w) \<le> peerVideoQueueBytes)"


text \<open>A key frame and the frames that refer to it.\<close>

definition sample_frame :: "nat \<Rightarrow> VideoFrame" where
  "sample_frame k = \<lparr>vf_id = k, vf_Storage = 10, vf_Data = 1, vf_Result = (if k = 0 then 3 else 1), vf_Duration = 0, vf_Timestamp = 1\<rparr>"

section \<open>What reaches the viewer can be decoded\<close>

lemma successive_append:
  "successive (xs @ ys) \<longleftrightarrow> successive xs \<and> successive ys \<and> (xs \<noteq> [] \<and> ys \<noteq> [] \<longrightarrow> follows (last xs) (hd ys))"
proof (induction xs rule: successive.induct)
  case (2 f)
  then show ?case by (cases ys) auto
qed auto





section \<open>The three queues keep the contract\<close>

lemma request_direct_frames [simp]:
  "q_frames (request_direct now q) = q_frames q" "q_waitingForKeyframe (request_direct now q) = q_waitingForKeyframe q"
  "q_closed (request_direct now q) = q_closed q"
  by (simp_all add: request_direct_def)

lemma beginOversized_frames [simp]:
  "q_frames (beginOversizedLocked now q) = q_frames q" "q_waitingForKeyframe (beginOversizedLocked now q) = q_waitingForKeyframe q"
  "q_closed (beginOversizedLocked now q) = q_closed q"
  by (simp_all add: beginOversizedLocked_def Let_def)

lemma dropDelta_frames [simp]:
  "q_frames (dropDeltaLocked now b q) = q_frames q" "q_waitingForKeyframe (dropDeltaLocked now b q) = q_waitingForKeyframe q"
  "q_closed (dropDeltaLocked now b q) = q_closed q"
  by (simp_all add: dropDeltaLocked_def)

lemmas direct_defs = clearFramesLocked_def pushLocked_def startWaitLocked_def resetOversizedLocked_def enableFlowControl_def
  acknowledge_def requestResync_def markDiscontinuity_def close_direct_def








lemma drain_frames [simp]:
  "pw_frames (drainLocked steal w) = []" "pw_repairing (drainLocked steal w) = pw_repairing w"
  "pw_closed (drainLocked steal w) = pw_closed w" "pw_capacity (drainLocked steal w) = pw_capacity w"
  by (auto simp: drainLocked_def split: option.splits writer_phase.splits)

lemma drain_phase:
  "pw_phase (drainLocked steal w) =
     (case (steal, pw_phase w) of
        (Some k, Ready) \<Rightarrow> if k < length (pw_frames w) then Received (pw_frames w ! k) else Ready
      | _ \<Rightarrow> pw_phase w)"
  by (auto simp: drainLocked_def split: option.splits writer_phase.splits)

lemma request_peer [simp]:
  "pw_frames (requestKeyframeLocked now w) = pw_frames w" "pw_repairing (requestKeyframeLocked now w) = pw_repairing w"
  "pw_closed (requestKeyframeLocked now w) = pw_closed w" "pw_phase (requestKeyframeLocked now w) = pw_phase w"
  "pw_capacity (requestKeyframeLocked now w) = pw_capacity w" "pw_queuedBytes (requestKeyframeLocked now w) = pw_queuedBytes w"
  by (simp_all add: requestKeyframeLocked_def)

lemma repair_peer [simp]:
  "pw_frames (startRepairLocked w) = pw_frames w" "pw_repairing (startRepairLocked w)"
  "pw_closed (startRepairLocked w) = pw_closed w" "pw_phase (startRepairLocked w) = pw_phase w"
  "pw_capacity (startRepairLocked w) = pw_capacity w" "pw_queuedBytes (startRepairLocked w) = pw_queuedBytes w"
  by (simp_all add: startRepairLocked_def)

lemma enqueue_peer:
  assumes "tryEnqueueLocked f w = Some v"
  shows "map qf_frame (pw_frames v) = map qf_frame (pw_frames w) @ [f]" and "pw_closed v = pw_closed w"
    and "pw_phase v = pw_phase w" and "pw_capacity v = pw_capacity w"
  using assms by (auto simp: tryEnqueueLocked_def Let_def split: if_splits)







section \<open>The storage is bounded\<close>

lemma run_invariant:
  assumes "run step s ins outs s'" and "I s" and "\<And>s i out s'. I s \<Longrightarrow> step s i out s' \<Longrightarrow> I s'"
  shows "I s'"
  using assms by (induction rule: run.induct) blast+

lemma queueDepth_bounds: "defaultQueueFrames \<le> queueDepthFor d" "queueDepthFor d \<le> maxQueueFrames"
  by (auto simp: queueDepthFor_def defaultQueueFrames_def maxQueueFrames_def)

lemma bounded_cong:
  assumes "direct_bounded q" and "q_frames q' = q_frames q" and "q_queuedBytes q' = q_queuedBytes q" and "q_maxBytes q' = q_maxBytes q"
    and "q_maxFrames q' = q_maxFrames q" and "q_flowControlled q' = q_flowControlled q" and "q_inFlight q' = q_inFlight q" and "q_window q' = q_window q"
  shows "direct_bounded q'"
  using assms by (simp add: direct_bounded_def)

lemma bounded_request [simp]: "direct_bounded q \<Longrightarrow> direct_bounded (request_direct now q)"
  by (erule bounded_cong) (simp_all add: request_direct_def)

lemma bounded_oversized [simp]: "direct_bounded q \<Longrightarrow> direct_bounded (beginOversizedLocked now q)"
  by (erule bounded_cong) (simp_all add: beginOversizedLocked_def Let_def)

lemma bounded_dropDelta [simp]: "direct_bounded q \<Longrightarrow> direct_bounded (dropDeltaLocked now b q)"
  by (simp add: dropDeltaLocked_def)

lemma bounded_wait [simp]: "direct_bounded q \<Longrightarrow> direct_bounded (startWaitLocked q)"
  by (erule bounded_cong) (simp_all add: startWaitLocked_def)

lemma bounded_reset [simp]: "direct_bounded q \<Longrightarrow> direct_bounded (resetOversizedLocked q)"
  by (erule bounded_cong) (simp_all add: resetOversizedLocked_def)

lemma bounded_clear [simp]: "direct_bounded q \<Longrightarrow> direct_bounded (clearFramesLocked q)"
  by (auto simp: direct_bounded_def clearFramesLocked_def maxQueueFrames_def defaultQueueBytes_def)

lemma bounded_depth: "direct_bounded q \<Longrightarrow> direct_bounded (q\<lparr>q_maxFrames := queueDepthFor d\<rparr>)"
  using queueDepth_bounds by (simp add: direct_bounded_def)

lemma bounded_push:
  "direct_bounded q \<Longrightarrow> int (length (q_frames q)) < q_maxFrames q \<Longrightarrow> q_queuedBytes q + payload f \<le> q_maxBytes q \<Longrightarrow>
   direct_bounded (pushLocked f q)"
  by (auto simp: direct_bounded_def pushLocked_def)

lemma bounded_push_key:
  assumes "direct_bounded q" and "payload f \<le> q_maxBytes q"
  shows "direct_bounded (pushLocked f (resetOversizedLocked ((clearFramesLocked q)\<lparr>q_waitingForKeyframe := False\<rparr>)))"
  using assms by (auto simp: direct_bounded_def direct_defs maxQueueFrames_def defaultQueueFrames_def)

lemma bounded_offer: "direct_bounded q \<Longrightarrow> direct_bounded (snd (offer_direct now f q))"
proof -
  assume q: "direct_bounded q"
  define r where "r = (if q_timeBased q \<and> vf_Duration f > 0 then q\<lparr>q_maxFrames := queueDepthFor (vf_Duration f)\<rparr> else q)"
  have "direct_bounded r" using q bounded_depth by (simp add: r_def)
  then show ?thesis
    using q by (auto simp: offer_direct_def Let_def bounded_push bounded_push_key simp flip: r_def)
qed

lemma bounded_pop: "direct_bounded q \<Longrightarrow> popForWrite q = Some (f, q') \<Longrightarrow> direct_bounded q'"
  by (auto simp: popForWrite_def direct_bounded_def payload_def split: list.splits if_splits)

lemma bounded_control: "direct_bounded q \<Longrightarrow> direct_bounded (snd (handleControl now binary data q))"
proof -
  assume q: "direct_bounded q"
  have "direct_bounded (acknowledge t q)" for t
    using q length_dropWhile_le[of "\<lambda>x. x \<le> t" "q_inFlight q"] by (auto simp: direct_bounded_def acknowledge_def)
  moreover have "direct_bounded (requestResync now q)"
    using q by (auto simp: direct_bounded_def direct_defs maxQueueFrames_def defaultQueueBytes_def)
  ultimately show ?thesis using q by (auto simp: handleControl_def)
qed

lemma bounded_flow: "direct_bounded q \<Longrightarrow> direct_bounded (enableFlowControl w q)"
  by (auto simp: direct_bounded_def direct_defs maxQueueFrames_def defaultQueueBytes_def maxFlowWindow_def)

lemma bounded_close: "direct_bounded q \<Longrightarrow> direct_bounded (close_direct q)"
  by (auto simp: direct_bounded_def direct_defs maxQueueFrames_def defaultQueueBytes_def)

lemma bounded_direct_step: "direct_bounded q \<Longrightarrow> direct_step q i out q' \<Longrightarrow> direct_bounded q'"
  by (erule direct_step.cases)
    (auto simp: bounded_offer bounded_control bounded_flow bounded_close markDiscontinuity_def intro: bounded_pop)

lemma direct_bounded_new: "direct_bounded newFrameQueue"
  by (simp add: direct_bounded_def newFrameQueue_def defaultQueueFrames_def maxQueueFrames_def defaultQueueBytes_def)

lemma frameBytes_nonneg: "0 \<le> peerWriterFrameBytes f"
  by (simp add: peerWriterFrameBytes_def)

lemma in_hand_nonneg: "0 \<le> in_hand w"
  using frameBytes_nonneg by (auto simp: in_hand_def split: writer_phase.splits)

lemma drained_simps [simp]:
  "drained_bytes [] = 0" "drained_bytes (q # qs) = peerWriterFrameBytes (qf_frame q) + drained_bytes qs"
  "drained_bytes (qs @ rs) = drained_bytes qs + drained_bytes rs"
  by (simp_all add: drained_bytes_def)

lemma peer_bounded_cong:
  assumes "peer_bounded w" and "pw_frames v = pw_frames w" and "pw_queuedBytes v = pw_queuedBytes w" and "pw_capacity v = pw_capacity w"
    and "in_hand v = in_hand w"
  shows "peer_bounded v"
  using assms by (simp add: peer_bounded_def)

lemma peer_bounded_drain: "peer_bounded w \<Longrightarrow> peer_bounded (drainLocked steal w)"
  by (auto simp: peer_bounded_def drainLocked_def in_hand_def split: option.splits writer_phase.splits)

lemma peer_bounded_enqueue:
  assumes "peer_bounded w" and "tryEnqueueLocked f w = Some v"
  shows "peer_bounded v"
proof -
  have "in_hand v = in_hand w" using enqueue_peer(3)[OF assms(2)] by (simp add: in_hand_def)
  then show ?thesis
    using assms in_hand_nonneg[of w]
    by (auto simp: tryEnqueueLocked_def Let_def peer_bounded_def Suc_le_eq split: if_splits)
qed

lemma peer_bounded_flag:
  "peer_bounded (w\<lparr>pw_repairing := b\<rparr>) = peer_bounded w" "peer_bounded (w\<lparr>pw_closed := b\<rparr>) = peer_bounded w"
  "peer_bounded (startRepairLocked w) = peer_bounded w" "peer_bounded (requestKeyframeLocked now w) = peer_bounded w"
  by (simp_all add: peer_bounded_def in_hand_def)

lemma peer_bounded_offer:
  assumes "peer_bounded w"
  shows "peer_bounded (snd (offer_peer now steal f w))"
proof -
  let ?v = "startRepairLocked (drainLocked steal w)"
  have drained: "peer_bounded (drainLocked steal w)" using assms by (rule peer_bounded_drain)
  then have again: "tryEnqueueLocked f ?v = Some u \<Longrightarrow> peer_bounded u" for u
    using peer_bounded_enqueue[of ?v f u] by (simp add: peer_bounded_flag)
  have first: "tryEnqueueLocked f w = Some u \<Longrightarrow> peer_bounded u" for u
    using peer_bounded_enqueue[OF assms] by blast
  show ?thesis
    using assms drained again first unfolding offer_peer_def Let_def by (simp add: peer_bounded_flag split: option.split)
qed

lemma peer_bounded_step: "peer_bounded w \<Longrightarrow> peer_step race w i out w' \<Longrightarrow> peer_bounded w'"
proof (erule peer_step.cases, goal_cases)
  case (2 w v)
  then show ?case using frameBytes_nonneg[of "qf_frame (hd (pw_frames w))"]
    by (auto simp: receive_peer_def peer_bounded_def in_hand_def split: writer_phase.splits list.splits if_splits)
next
  case (3 w v)
  then show ?case by (auto simp: account_peer_def peer_bounded_def in_hand_def split: writer_phase.splits if_splits)
next
  case (4 w v)
  then show ?case by (auto simp: begin_write_def peer_bounded_def in_hand_def split: writer_phase.splits if_splits)
next
  case (5 e w out v)
  then show ?case by (auto simp: end_write_def peer_bounded_def in_hand_def split: writer_phase.splits write_end.splits)
next
  case (6 w v)
  have *: "peer_bounded (u\<lparr>pw_phase := Ready\<rparr>)" if "peer_bounded u" "pw_phase u = Budget" for u
    using that by (simp add: peer_bounded_def in_hand_def)
  have "pw_phase (startRepairLocked (drainLocked None w)) = Budget" if "pw_phase w = Budget"
    using that by (simp add: drain_phase)
  then show ?case
    using 6 * peer_bounded_drain[of w None]
    by (auto simp: finish_write_def peer_bounded_flag split: writer_phase.splits) (simp add: peer_bounded_def in_hand_def)+
qed (auto simp: peer_bounded_offer close_peer_def peer_bounded_flag peer_bounded_drain)

lemma peer_bounded_new: "peer_bounded (newPeerVideoWriter env)"
  by (simp add: peer_bounded_def newPeerVideoWriter_def in_hand_def)

section \<open>Samples and the race of a drain\<close>

lemma sample_simps [simp]:
  "vf_id (sample_frame k) = k" "IsKeyframe (sample_frame k) \<longleftrightarrow> k = 0" "is_video (sample_frame k)"
  "vf_Result (sample_frame k) \<ge> 0" "peerWriterFrameBytes (sample_frame k) = 10"
  by (simp_all add: sample_frame_def IsKeyframe_def is_video_def peerWriterFrameBytes_def)

lemma successive_samples: "successive (map sample_frame [i..<j])"
proof (induction j)
  case (Suc j)
  then show ?case by (auto simp: successive_append follows_def last_map)
qed simp

text \<open>Frames that a subscription has room for stay in it.\<close>

lemma run_sends:
  assumes "\<not> sb_closed s" and "\<not> sb_waitingForKeyframe s" and "length (sb_frames s) + length fs \<le> subscription_capacity"
    and "list_all is_video fs" and "run (sub_step race) r ins outs s"
  shows "run (sub_step race) r (ins @ fs) outs (s\<lparr>sb_frames := sb_frames s @ fs\<rparr>)"
  using assms
proof (induction fs arbitrary: s ins)
  case (Cons f fs)
  let ?s = "s\<lparr>sb_frames := sb_frames s @ [f]\<rparr>"
  have "sub_step race s (Some f) (filter is_video []) ?s"
    using Cons.prems by (intro sub_step.sent[of f race "[]" s True]) (auto simp: send_def in_order_def)
  then have "run (sub_step race) r (ins @ [f]) outs ?s"
    using run.another[OF Cons.prems(5), of "Some f" "[]" ?s] by simp
  then show ?case using Cons.IH[of ?s "ins @ [f]"] Cons.prems by simp
qed simp

text \<open>
  While a full subscription is emptied, its receiver can take a frame behind one that is dropped. The transport then
  passes on a frame that no decoder can use.
\<close>

theorem drain_passes_orphans:
  "\<exists>ins outs s. successive ins \<and> run (sub_step True) new_subscription ins outs s \<and> \<not> decodable outs"
proof -
  let ?s1 = "new_subscription\<lparr>sb_waitingForKeyframe := False, sb_frames := [sample_frame 0]\<rparr>"
  let ?s2 = "?s1\<lparr>sb_frames := map sample_frame [0..<24]\<rparr>"
  let ?s3 = "?s2\<lparr>sb_frames := [], sb_requested := True, sb_waitingForKeyframe := True\<rparr>"
  have up: "[0..<25] = [0..<24] @ [24]" "[0..<24] = 0 # 1 # [2..<24]" "[0..<24] = 0 # [1..<24]"
    by (simp_all add: upt_rec numeral_eq_Suc)
  have "sub_step True new_subscription (Some (sample_frame 0)) (filter is_video []) ?s1"
    by (rule sub_step.sent[of _ _ "[]" _ True]) (simp_all add: send_def new_subscription_def subscription_capacity_def)
  then have "run (sub_step True) new_subscription [sample_frame 0] [] ?s1"
    using run.another[OF run.start, of "sub_step True" new_subscription "Some (sample_frame 0)"] by fastforce
  then have "run (sub_step True) new_subscription (map sample_frame [0..<24]) [] ?s2"
    using run_sends[of ?s1 "map sample_frame [1..<24]" True new_subscription "[sample_frame 0]" "[]"]
    by (simp add: new_subscription_def subscription_capacity_def up(3) list_all_iff)
  moreover have "sub_step True ?s2 (Some (sample_frame 24)) (filter is_video [sample_frame 1]) ?s3"
    by (rule sub_step.sent[of _ _ "[False, True]" _ False])
      (simp_all add: send_def new_subscription_def subscription_capacity_def taken_def up(2))
  ultimately have "run (sub_step True) new_subscription (map sample_frame [0..<25]) [sample_frame 1] ?s3"
    using run.another[of "sub_step True" new_subscription "map sample_frame [0..<24]" "[]" ?s2 "Some (sample_frame 24)" "[sample_frame 1]" ?s3]
    by (simp add: up(1))
  moreover have "\<not> decodable [sample_frame 1]" by (simp add: decodable_def)
  ultimately show ?thesis using successive_samples by blast
qed

lemma run_in: "run step s ins outs s' \<Longrightarrow> step s' (Some f) out s'' \<Longrightarrow> run step s (ins @ [f]) (outs @ out) s''"
  using run.another[of step s ins outs s' "Some f" out s''] by simp

lemma run_out: "run step s ins outs s' \<Longrightarrow> step s' None out s'' \<Longrightarrow> run step s ins (outs @ out) s''"
  using run.another[of step s ins outs s' None out s''] by simp


lemma sample_peer: "\<exists>w. run (peer_step race) (newPeerVideoWriter '''') [sample_frame 0] [sample_frame 0] w"
proof -
  let ?q = "\<lparr>qf_frame = sample_frame 0, qf_generation = 1\<rparr>"
  define w1 where "w1 = snd (offer_peer 1 None (sample_frame 0) (newPeerVideoWriter ''''))"
  have w1: "pw_frames w1 = [?q]" "\<not> pw_closed w1" "pw_phase w1 = Ready"
    by (simp_all add: w1_def offer_peer_def newPeerVideoWriter_def tryEnqueueLocked_def Let_def peerWriterQueueCapacity_def
        peerVideoSingleFrameBytes_def)
  obtain w2 where w2: "receive_peer w1 = Some w2" "pw_phase w2 = Received ?q" "\<not> pw_closed w2"
    using w1 by (simp add: receive_peer_def)
  obtain w3 where w3: "account_peer w2 = Some w3" "pw_phase w3 = Checked ?q" "\<not> pw_closed w3"
    using w2 by (simp add: account_peer_def)
  obtain w4 where w4: "begin_write w3 = Some w4" "pw_phase w4 = Writing ?q"
    using w3 by (simp add: begin_write_def)
  obtain w5 where w5: "end_write Written w4 = Some ([sample_frame 0], w5)"
    using w4 by (simp add: end_write_def)
  have "run (peer_step race) (newPeerVideoWriter '''') ([] @ [sample_frame 0]) [] w1"
    using run_in[of "peer_step race", OF run.start peer_step.offers[of race None "newPeerVideoWriter ''''" "sample_frame 0" 1]] by (simp add: w1_def)
  from run_out[OF run_out[OF run_out[OF run_out[OF this peer_step.receives[OF w2(1)]] peer_step.accounts[OF w3(1)]]
        peer_step.begins[OF w4(1)]] peer_step.ends[OF w5]]
  show ?thesis by auto
qed

lemma sample_direct: "\<exists>q. run direct_step newFrameQueue [sample_frame 0] [sample_frame 0] q"
proof -
  define q1 where "q1 = snd (offer_direct 1 (sample_frame 0) newFrameQueue)"
  have q1: "q_frames q1 = [sample_frame 0]" "\<not> q_closed q1" "\<not> q_flowControlled q1"
    by (simp_all add: q1_def offer_direct_def newFrameQueue_def Let_def direct_defs payload_def sample_frame_def IsKeyframe_def
        defaultQueueBytes_def)
  obtain q2 where q2: "popForWrite q1 = Some (sample_frame 0, q2)" using q1 by (simp add: popForWrite_def)
  have "run direct_step newFrameQueue ([] @ [sample_frame 0]) ([] @ []) q1"
    using run_in[of direct_step, OF run.start direct_step.offered[of newFrameQueue "sample_frame 0" 1]] by (simp add: q1_def)
  from run_out[OF this direct_step.popped[OF q2]] show ?thesis by auto
qed

section \<open>Properties\<close>


text \<open>
  C35. The frames that wait for a viewer are bounded in every interleaving, also with a receiver that takes frames while a
  drain drops them: a direct viewer holds at most 24 frames and 2 MiB and has at most eight unacknowledged ones under flow control, and a
  peer holds at most its capacity, and 2 MiB or a single frame of at most 64 MiB and its headroom; the byte counts are
  those of the frames held.
\<close>

theorem queues_bounded:
  assumes "run (peer_step race) (newPeerVideoWriter env) mids webrtc w"
    and "run direct_step newFrameQueue mids' direct q"
  shows "peer_bounded w \<and> direct_bounded q"
  using run_invariant[OF assms(1), of peer_bounded] run_invariant[OF assms(2), of direct_bounded]
    peer_bounded_new direct_bounded_new peer_bounded_step bounded_direct_step by blast


theorem queues_bounded_witness:
  "\<exists>w q. run (peer_step True) (newPeerVideoWriter '''') [sample_frame 0] [sample_frame 0] w \<and>
     run direct_step newFrameQueue [sample_frame 0] [sample_frame 0] q \<and> peer_bounded w \<and> direct_bounded q"
  using sample_peer[of True] sample_direct queues_bounded by blast

end
