(* ===== verification/Openvpn_Profile.thy ===== *)
theory Openvpn_Profile
  imports Go_Lines
begin

text \<open>
  The OpenVPN profile that a user uploads: \<open>Normalize\<close> of \<open>service/extensions/openvpn/config.go\<close>. OpenVPN runs as root
  and has options that run commands and read files; what it is given may hold client options and credentials only.
\<close>

section \<open>Runes, and the quoting of \<open>strconv\<close>\<close>

definition between :: "int \<Rightarrow> int \<Rightarrow> char \<Rightarrow> bool" where
  "between a b c \<longleftrightarrow> a \<le> of_char c \<and> of_char c \<le> b"

text \<open>The length of the rune a string begins with, 0 if it does not begin with UTF-8.\<close>

definition rune_length :: "string \<Rightarrow> nat" where
  "rune_length s =
     (case s of
        [] \<Rightarrow> 0
      | a # t \<Rightarrow>
          if between 0 0x7F a then 1
          else case t of
            [] \<Rightarrow> 0
          | b # u \<Rightarrow>
              if between 0xC2 0xDF a \<and> between 0x80 0xBF b then 2
              else case u of
                [] \<Rightarrow> 0
              | c # v \<Rightarrow>
                  if (between 0xE0 0xE0 a \<and> between 0xA0 0xBF b \<or> (between 0xE1 0xEC a \<or> between 0xEE 0xEF a) \<and> between 0x80 0xBF b \<or>
                      between 0xED 0xED a \<and> between 0x80 0x9F b) \<and> between 0x80 0xBF c then 3
                  else case v of
                    [] \<Rightarrow> 0
                  | d # _ \<Rightarrow>
                      if (between 0xF0 0xF0 a \<and> between 0x90 0xBF b \<or> between 0xF1 0xF3 a \<and> between 0x80 0xBF b \<or>
                          between 0xF4 0xF4 a \<and> between 0x80 0x8F b) \<and> between 0x80 0xBF c \<and> between 0x80 0xBF d then 4 else 0)"

text \<open>The runes of a string, each as its bytes; a byte that is not UTF-8 reads as U+FFFD.\<close>

function runes :: "string \<Rightarrow> string list" where
  "runes s =
     (if s = [] then []
      else if rune_length s = 0 then [CHR 0xEF, CHR 0xBF, CHR 0xBD] # runes (tl s)
      else take (rune_length s) s # runes (drop (rune_length s) s))"
  by pat_completeness auto
termination
  by (relation "measure length") auto

declare runes.simps [simp del]

text \<open>The code point of a rune.\<close>

definition low_bits :: "nat \<Rightarrow> char \<Rightarrow> int" where
  "low_bits k c = of_char c mod 2 ^ k"

definition code_point :: "string \<Rightarrow> int" where
  "code_point r =
     (case r of
        [a] \<Rightarrow> of_char a
      | [a, b] \<Rightarrow> low_bits 5 a * 64 + low_bits 6 b
      | [a, b, c] \<Rightarrow> low_bits 4 a * 4096 + low_bits 6 b * 64 + low_bits 6 c
      | [a, b, c, d] \<Rightarrow> low_bits 3 a * 262144 + low_bits 6 b * 4096 + low_bits 6 c * 64 + low_bits 6 d
      | _ \<Rightarrow> 0xFFFD)"

text \<open>
  \<open>strconv.Quote\<close> of a rune; \<open>is_print\<close> is the table of \<open>strconv.IsPrint\<close> beyond ASCII. No rune of an argument is a lone
  byte: the arguments come from \<open>words\<close>.
\<close>

definition quote_rune :: "(int \<Rightarrow> bool) \<Rightarrow> string \<Rightarrow> string" where
  "quote_rune is_print r =
     (let n = code_point r in
      if n = 34 \<or> n = 92 then CHR 0x5C # r
      else if n < 128 then
        if 32 \<le> n \<and> n < 127 then r
        else if n = 7 then [CHR 0x5C, CHR ''a''] else if n = 8 then [CHR 0x5C, CHR ''b'']
        else if n = 12 then [CHR 0x5C, CHR ''f''] else if n = 10 then [CHR 0x5C, CHR ''n'']
        else if n = 13 then [CHR 0x5C, CHR ''r''] else if n = 9 then [CHR 0x5C, CHR ''t'']
        else if n = 11 then [CHR 0x5C, CHR ''v'']
        else [CHR 0x5C, CHR ''x'', hex_char (nat (n div 16)), hex_char (nat (n mod 16))]
      else if is_print n then r
      else if n < 0x10000 then CHR 0x5C # CHR ''u'' # hex4 (nat n)
      else CHR 0x5C # CHR ''U'' # hex4 (nat (n div 65536)) @ hex4 (nat (n mod 65536)))"

definition Quote :: "(int \<Rightarrow> bool) \<Rightarrow> string \<Rightarrow> string" where
  "Quote is_print s = [CHR 0x22] @ concat (map (quote_rune is_print) (runes s)) @ [CHR 0x22]"

text \<open>\<open>filepath.Base\<close>.\<close>

definition path_Base :: "string \<Rightarrow> string" where
  "path_Base p =
     (let q = rev (dropWhile (\<lambda>c. c = CHR ''/'') (rev p)) in
      if p = [] then ''.'' else if q = [] then ''/'' else last (split_on (CHR ''/'') q))"

section \<open>OpenVPN\<close>

definition maxOpenVPNLine :: nat where "maxOpenVPNLine = 255"

definition profile_limit :: nat where "profile_limit = 256 * 1024"

record Parsed =
  pa_Config :: string
  pa_NeedsAuth :: bool

definition allowed_options :: "string list" where
  "allowed_options =
     [''client'', ''tls-client'', ''dev'', ''dev-type'', ''proto'', ''remote'', ''remote-random'',
      ''remote-random-hostname'', ''resolv-retry'', ''nobind'', ''bind'', ''persist-key'', ''persist-tun'',
      ''remote-cert-tls'', ''verify-x509-name'', ''peer-fingerprint'', ''cipher'', ''data-ciphers'',
      ''data-ciphers-fallback'', ''auth'', ''auth-nocache'', ''auth-retry'', ''reneg-sec'', ''reneg-bytes'',
      ''reneg-pkts'', ''key-direction'', ''tls-version-min'', ''tls-version-max'', ''tls-cipher'',
      ''tls-ciphersuites'', ''tls-cert-profile'', ''tls-timeout'', ''verb'', ''mute'', ''mute-replay-warnings'',
      ''connect-retry'', ''connect-retry-max'', ''connect-timeout'', ''server-poll-timeout'', ''hand-window'',
      ''tran-window'', ''ping'', ''ping-restart'', ''ping-exit'', ''keepalive'', ''sndbuf'', ''rcvbuf'', ''tun-mtu'',
      ''link-mtu'', ''mssfix'', ''fragment'', ''explicit-exit-notify'', ''float'', ''fast-io'', ''route'',
      ''route-ipv6'', ''route-gateway'', ''route-metric'', ''route-delay'', ''route-nopull'', ''redirect-gateway'',
      ''redirect-private'', ''pull'', ''pull-filter'', ''dhcp-option'', ''block-outside-dns'', ''comp-lzo'',
      ''compress'', ''allow-compression'', ''socket-flags'', ''tcp-nodelay'', ''disable-dco'', ''setenv'',
      ''setenv-safe'', ''push-peer-info'', ''keysize'', ''ns-cert-type'', ''ignore-unknown-option'',
      ''tun-mtu-extra'', ''auth-user-pass'', ''ca'', ''cert'', ''key'', ''tls-auth'', ''tls-crypt'', ''tls-crypt-v2'',
      ''crl-verify'', ''extra-certs'']"

definition inline_options :: "string list" where
  "inline_options = [''ca'', ''cert'', ''key'', ''tls-auth'', ''tls-crypt'', ''tls-crypt-v2'', ''crl-verify'', ''extra-certs'']"

text \<open>The arguments of a line.\<close>

fun words_from :: "string list \<Rightarrow> string \<Rightarrow> string option \<Rightarrow> bool \<Rightarrow> bool \<Rightarrow> string list \<Rightarrow> string list option" where
  "words_from out value quote escaped started [] =
     (if escaped \<or> quote \<noteq> None then None else Some (if started then out @ [value] else out))"
| "words_from out value quote escaped started (c # cs) =
     (if escaped then words_from out (value @ c) quote False True cs
      else if c = [CHR 0x5C] then words_from out value quote True True cs
      else case quote of
        Some q \<Rightarrow>
          if c = q then words_from out value None False started cs else words_from out (value @ c) quote False started cs
      | None \<Rightarrow>
          if c = [CHR 0x27] \<or> c = [CHR 0x22] then words_from out value (Some c) False True cs
          else if c \<in> set ws_runes then
            if started then words_from (out @ [value]) [] None False False cs else words_from out value None False False cs
          else if (c = ''#'' \<or> c = '';'') \<and> \<not> started then Some out
          else words_from out (value @ c) None False True cs)"

definition words :: "string \<Rightarrow> string list option" where
  "words line = words_from [] [] None False False (runes line)"

datatype ovpn_error =
    InvalidProfile | InvalidBlock | NestedConnection | UnexpectedEnd | UnsupportedBlock | InvalidQuoting | UnsupportedOption
  | UploadFile | MissingFile | InvalidFile | UnsupportedCredential | NoTun | CertificatePurpose | NoServerCertificate
  | EnterCredentials | InvalidRemote | UnsupportedEnvironment | UnsupportedOptional | UnsupportedDns
  | Unclosed | NoRemoteOrTrust | TooLarge | LineTooLong nat

record ovpn =
  ov_section :: string
  ov_block :: "string list"
  ov_output :: "string list"
  ov_remote :: bool
  ov_trust :: bool
  ov_serverCheck :: bool
  ov_connection :: bool
  ov_NeedsAuth :: bool

definition tag :: "string \<Rightarrow> string" where "tag name = ''<'' @ name @ ''>''"
definition end_tag :: "string \<Rightarrow> string" where "end_tag name = ''</'' @ name @ ''>''"

definition emit :: "string list \<Rightarrow> ovpn \<Rightarrow> ovpn" where
  "emit ls s = s\<lparr>ov_output := ov_output s @ ls\<rparr>"

text \<open>A credential that is uploaded beside the profile.\<close>

definition ovpn_asset :: "(string \<Rightarrow> string option) \<Rightarrow> string \<Rightarrow> string list \<Rightarrow> ovpn \<Rightarrow> (ovpn_error, ovpn) result" where
  "ovpn_asset assets key args s =
     (if length args < 1 \<or> length args > 2 \<or> hd args \<noteq> path_Base (hd args) \<or> contains_any (hd args) [CHR ''/'', CHR 0x5C] then Inl UploadFile
      else case assets (hd args) of
        None \<Rightarrow> Inl MissingFile
      | Some asset \<Rightarrow>
          if CHR ''<'' \<in> set asset \<or> CHR 0x00 \<in> set asset then Inl InvalidFile
          else if length args = 2 \<and> (key \<noteq> ''tls-auth'' \<or> args ! 1 \<noteq> ''0'' \<and> args ! 1 \<noteq> ''1'') then Inl UnsupportedCredential
          else let s = (if length args = 2 then emit [''key-direction '' @ args ! 1] s else s);
                   s = emit [tag key, trim_space asset, end_tag key] s
               in Inr (if key = ''ca'' then s\<lparr>ov_trust := True\<rparr> else s))"

definition ovpn_encoded :: "(int \<Rightarrow> bool) \<Rightarrow> string \<Rightarrow> string list \<Rightarrow> string" where
  "ovpn_encoded is_print key args = join_with (CHR '' '') (key # map (Quote is_print) args)"

text \<open>Every other option: it is dropped, refused, or passed on with its arguments quoted.\<close>

definition ovpn_option :: "(int \<Rightarrow> bool) \<Rightarrow> string \<Rightarrow> string list \<Rightarrow> ovpn \<Rightarrow> (ovpn_error, ovpn) result" where
  "ovpn_option is_print key args s =
     (if key \<in> {''dev'', ''dev-type''} then
        if length args \<noteq> 1 \<or> key = ''dev-type'' \<and> hd args \<noteq> ''tun'' \<or> key = ''dev'' \<and> \<not> prefix ''tun'' (hd args) then Inl NoTun else Inr s
      else if key \<in> {''client'', ''tls-client'', ''verb'', ''mute'', ''auth-retry'', ''ignore-unknown-option'', ''keysize''} then Inr s
      else if key = ''block-outside-dns'' then Inr s
      else if key = ''ns-cert-type'' then
        if length args \<noteq> 1 \<or> hd args \<noteq> ''server'' then Inl CertificatePurpose
        else Inr (emit [ovpn_encoded is_print ''remote-cert-tls'' args] (s\<lparr>ov_serverCheck := True\<rparr>))
      else if key = ''remote-cert-tls'' then
        if length args \<noteq> 1 \<or> hd args \<noteq> ''server'' then Inl NoServerCertificate
        else Inr (emit [ovpn_encoded is_print key args] (s\<lparr>ov_serverCheck := True\<rparr>))
      else if key = ''peer-fingerprint'' then Inr (emit [ovpn_encoded is_print key args] (s\<lparr>ov_trust := True\<rparr>))
      else if key = ''auth-user-pass'' then if args \<noteq> [] then Inl EnterCredentials else Inr (s\<lparr>ov_NeedsAuth := True\<rparr>)
      else if key = ''remote'' then
        if length args < 1 \<or> length args > 3 then Inl InvalidRemote
        else Inr (emit [ovpn_encoded is_print key args] (s\<lparr>ov_remote := True\<rparr>))
      else if key \<in> {''setenv'', ''setenv-safe''} then
        if args = [] \<or> hd args \<noteq> ''CLIENT_CERT'' \<and> hd args \<noteq> ''opt'' then Inl UnsupportedEnvironment
        else if hd args = ''opt'' \<and> (length args \<noteq> 2 \<or> args ! 1 \<noteq> ''block-outside-dns'') then Inl UnsupportedOptional else Inr s
      else if key = ''dhcp-option'' \<and> (length args < 2 \<or> hd args \<notin> {''DNS'', ''DNS6'', ''DOMAIN'', ''DOMAIN-SEARCH''}) then Inl UnsupportedDns
      else Inr (emit [ovpn_encoded is_print key args] s))"

text \<open>A line of the profile.\<close>

definition ovpn_line :: "(int \<Rightarrow> bool) \<Rightarrow> (string \<Rightarrow> string option) \<Rightarrow> string \<Rightarrow> ovpn \<Rightarrow> (ovpn_error, ovpn) result" where
  "ovpn_line is_print assets raw s =
     (let line = trim_space raw in
      if ov_section s \<noteq> [] then
        if line = end_tag (ov_section s)
        then Inr (emit [tag (ov_section s), join_with newline (ov_block s), line]
          (s\<lparr>ov_trust := ov_trust s \<or> ov_section s = ''ca'', ov_section := [], ov_block := []\<rparr>))
        else if contains_any line ''<>'' then Inl InvalidBlock
        else Inr (s\<lparr>ov_block := ov_block s @ [line]\<rparr>)
      else if line = [] \<or> prefix ''#'' line \<or> prefix '';'' line then Inr s
      else if line = ''<connection>'' then
        if ov_connection s then Inl NestedConnection else Inr (emit [line] (s\<lparr>ov_connection := True\<rparr>))
      else if line = ''</connection>'' then
        if \<not> ov_connection s then Inl UnexpectedEnd else Inr (emit [line] (s\<lparr>ov_connection := False\<rparr>))
      else if prefix ''<'' line then
        let name = trim_suffix (trim_prefix line ''<'') ''>'' in
        if name \<notin> set inline_options \<or> line \<noteq> tag name then Inl UnsupportedBlock else Inr (s\<lparr>ov_section := name\<rparr>)
      else case words line of
        None \<Rightarrow> Inl InvalidQuoting
      | Some [] \<Rightarrow> Inl InvalidQuoting
      | Some (first # args) \<Rightarrow>
          let key = trim_prefix first ''--'' in
          if key \<notin> set allowed_options then Inl UnsupportedOption
          else if key \<in> set inline_options then ovpn_asset assets key args s
          else ovpn_option is_print key args s)"

fun ovpn_lines :: "(int \<Rightarrow> bool) \<Rightarrow> (string \<Rightarrow> string option) \<Rightarrow> nat \<Rightarrow> string list \<Rightarrow> ovpn \<Rightarrow> (nat \<times> ovpn_error, ovpn) result" where
  "ovpn_lines is_print assets n [] s = Inr s"
| "ovpn_lines is_print assets n (raw # raws) s =
     (case ovpn_line is_print assets raw s of
        Inl e \<Rightarrow> Inl (n + 1, e)
      | Inr s' \<Rightarrow> ovpn_lines is_print assets (n + 1) raws s')"

definition ovpn_start :: ovpn where
  "ovpn_start = \<lparr>ov_section = [], ov_block = [], ov_output = [], ov_remote = False, ov_trust = False, ov_serverCheck = False,
     ov_connection = False, ov_NeedsAuth = False\<rparr>"

text \<open>The number of the first line that OpenVPN would not read whole.\<close>

fun long_line :: "nat \<Rightarrow> string list \<Rightarrow> nat option" where
  "long_line n [] = None"
| "long_line n (l # ls) = (if length l > maxOpenVPNLine then Some (n + 1) else long_line (n + 1) ls)"

definition ovpn_config :: "ovpn \<Rightarrow> string" where
  "ovpn_config s =
     (let output = ov_output s @ (if ov_serverCheck s then [] else [''remote-cert-tls server''])
      in ''client'' @ [newline] @ join_with newline output @ [newline])"

definition Normalize :: "(int \<Rightarrow> bool) \<Rightarrow> (string \<Rightarrow> string option) \<Rightarrow> string \<Rightarrow> (nat \<times> ovpn_error, Parsed) result" where
  "Normalize is_print assets data =
     (if length data > profile_limit \<or> CHR 0x00 \<in> set data then Inl (0, InvalidProfile)
      else case ovpn_lines is_print assets 0 (split_on newline data) ovpn_start of
        Inl e \<Rightarrow> Inl e
      | Inr s \<Rightarrow>
          if ov_section s \<noteq> [] \<or> ov_connection s then Inl (0, Unclosed)
          else if \<not> ov_remote s \<or> \<not> ov_trust s then Inl (0, NoRemoteOrTrust)
          else if length (ovpn_config s) > profile_limit then Inl (0, TooLarge)
          else case long_line 0 (split_on newline (ovpn_config s)) of
            Some n \<Rightarrow> Inl (n, LineTooLong n)
          | None \<Rightarrow> Inr \<lparr>pa_Config = ovpn_config s, pa_NeedsAuth = ov_NeedsAuth s\<rparr>)"

text \<open>
  How OpenVPN reads a configuration: a line that is an inline tag begins a block, which ends with the line that begins
  with its end tag; the other lines are options. The result is the block that is open, the options and the names of the blocks.
\<close>

fun outside :: "string option \<Rightarrow> string list \<Rightarrow> string option \<times> string list \<times> string list" where
  "outside open' [] = (open', [], [])"
| "outside None (l # ls) =
     (case find (\<lambda>name. l = tag name) inline_options of
        Some name \<Rightarrow> (case outside (Some name) ls of (open', os, bs) \<Rightarrow> (open', os, name # bs))
      | None \<Rightarrow> (case outside None ls of (open', os, bs) \<Rightarrow> (open', l # os, bs)))"
| "outside (Some name) (l # ls) = (if prefix (end_tag name) l then outside None ls else outside (Some name) ls)"

definition dropped_options :: "string list" where
  "dropped_options = [''dev'', ''dev-type'', ''client'', ''tls-client'', ''verb'', ''mute'', ''auth-retry'', ''ignore-unknown-option'', ''keysize'',
     ''block-outside-dns'', ''ns-cert-type'', ''auth-user-pass'', ''setenv'', ''setenv-safe'']"

definition passed_options :: "string list" where
  "passed_options = filter (\<lambda>k. k \<notin> set inline_options \<and> k \<notin> set dropped_options) allowed_options"

definition option_ok :: "(int \<Rightarrow> bool) \<Rightarrow> string \<Rightarrow> bool" where
  "option_ok is_print l \<longleftrightarrow>
     l \<in> {''<connection>'', ''</connection>'', ''remote-cert-tls server'', ''key-direction 0'', ''key-direction 1''} \<or>
     (\<exists>key args. key \<in> set passed_options \<and> l = ovpn_encoded is_print key args)"

text \<open>What has been written so far is read as options that are passed on and blocks, and holds what the flags say.\<close>

definition lines_of :: "string list \<Rightarrow> string list" where
  "lines_of out = concat (map (split_on newline) out)"

definition ovpn_reads :: "(int \<Rightarrow> bool) \<Rightarrow> string list \<Rightarrow> string list \<Rightarrow> string list \<Rightarrow> bool" where
  "ovpn_reads is_print out os bs \<longleftrightarrow> outside None (lines_of out) = (None, os, bs) \<and> list_all (option_ok is_print) os"

definition ovpn_flags :: "(int \<Rightarrow> bool) \<Rightarrow> ovpn \<Rightarrow> string list \<Rightarrow> string list \<Rightarrow> bool" where
  "ovpn_flags is_print s os bs \<longleftrightarrow>
     (ov_remote s \<longrightarrow> (\<exists>args. ovpn_encoded is_print ''remote'' args \<in> set os)) \<and>
     (ov_serverCheck s \<longrightarrow> ovpn_encoded is_print ''remote-cert-tls'' [''server''] \<in> set os) \<and>
     (ov_trust s \<longrightarrow> ''ca'' \<in> set bs \<or> (\<exists>args. ovpn_encoded is_print ''peer-fingerprint'' args \<in> set os))"

definition ovpn_inv :: "(int \<Rightarrow> bool) \<Rightarrow> ovpn \<Rightarrow> bool" where
  "ovpn_inv is_print s \<longleftrightarrow>
     (\<exists>os bs. ovpn_reads is_print (ov_output s) os bs \<and> ovpn_flags is_print s os bs) \<and>
     (ov_section s \<noteq> [] \<longrightarrow> ov_section s \<in> set inline_options) \<and>
     list_all (\<lambda>l. CHR ''<'' \<notin> set l) (ov_block s)"

definition sample_profile :: string where
  "sample_profile = ''remote vpn.example 1194'' @ [newline] @ ''<ca>'' @ [newline] @ ''AQ=='' @ [newline] @ ''</ca>''"

section \<open>Lines and quotes\<close>

lemma split_on_both: "split_on c (xs @ c # ys) = split_on c xs @ split_on c ys"
proof (induction xs)
  case (Cons x xs)
  then show ?case using split_on_nonempty[of c xs] by (auto split: list.splits)
qed simp

lemma split_join_lines: "out \<noteq> [] \<Longrightarrow> split_on newline (join_with newline out) = lines_of out"
  by (induction newline out rule: join_with.induct) (auto simp: split_on_both lines_of_def)

lemma lines_of_append [simp]: "lines_of (a @ b) = lines_of a @ lines_of b"
  by (simp add: lines_of_def)

lemma lines_of_single: "newline \<notin> set l \<Longrightarrow> lines_of [l] = [l]"
  by (simp add: lines_of_def split_on_none)

lemma between_high:
  "between 0x80 0xBF c \<Longrightarrow> 128 \<le> (of_char c :: int)" "between 0xC2 0xDF c \<Longrightarrow> 128 \<le> (of_char c :: int)"
  "between 0xE0 0xE0 c \<Longrightarrow> 128 \<le> (of_char c :: int)" "between 0xA0 0xBF c \<Longrightarrow> 128 \<le> (of_char c :: int)"
  "between 0xE1 0xEC c \<Longrightarrow> 128 \<le> (of_char c :: int)" "between 0xEE 0xEF c \<Longrightarrow> 128 \<le> (of_char c :: int)"
  "between 0xED 0xED c \<Longrightarrow> 128 \<le> (of_char c :: int)" "between 0x80 0x9F c \<Longrightarrow> 128 \<le> (of_char c :: int)"
  "between 0xF0 0xF0 c \<Longrightarrow> 128 \<le> (of_char c :: int)" "between 0x90 0xBF c \<Longrightarrow> 128 \<le> (of_char c :: int)"
  "between 0xF1 0xF3 c \<Longrightarrow> 128 \<le> (of_char c :: int)" "between 0xF4 0xF4 c \<Longrightarrow> 128 \<le> (of_char c :: int)"
  "between 0x80 0x8F c \<Longrightarrow> 128 \<le> (of_char c :: int)"
  by (simp_all add: between_def)

lemma first_rune:
  assumes "rune_length s \<noteq> 0"
  shows "(\<exists>a. take (rune_length s) s = [a] \<and> (of_char a :: int) < 128) \<or>
    list_all (\<lambda>c. 128 \<le> (of_char c :: int)) (take (rune_length s) s)"
proof -
  define high where "high c \<longleftrightarrow> 128 \<le> (of_char c :: int)" for c
  note high = between_high[folded high_def]
  obtain a t where s: "s = a # t" using assms by (cases s) (auto simp: rune_length_def)
  show ?thesis
  proof (cases "between 0 0x7F a")
    case True
    then show ?thesis using s by (simp add: rune_length_def between_def)
  next
    case low: False
    then obtain b u where t: "t = b # u" using assms s by (cases t) (auto simp: rune_length_def)
    have "list_all high (take (rune_length s) s)"
    proof (cases "between 0xC2 0xDF a \<and> between 0x80 0xBF b")
      case True
      then show ?thesis using low high by (simp add: s t rune_length_def)
    next
      case False
      then obtain c v where u: "u = c # v" using assms low s t by (cases u) (auto simp: rune_length_def)
      let ?three = "(between 0xE0 0xE0 a \<and> between 0xA0 0xBF b \<or> (between 0xE1 0xEC a \<or> between 0xEE 0xEF a) \<and> between 0x80 0xBF b \<or>
                      between 0xED 0xED a \<and> between 0x80 0x9F b) \<and> between 0x80 0xBF c"
      have l3: "rune_length s = 3" if ?three
        unfolding rune_length_def s t u list.case by (simp only: if_not_P[OF low] if_not_P[OF False] if_P[OF that])
      show ?thesis
      proof (cases ?three)
        case True
        then have "high a" "high b" "high c" using high by blast+
        moreover have "rune_length s = 3" using l3 True by simp
        ultimately show ?thesis by (simp add: s t u)
      next
        case no: False
        have "v \<noteq> []"
        proof
          assume "v = []"
          have "rune_length s = 0"
            unfolding rune_length_def s t u \<open>v = []\<close> list.case by (simp only: if_not_P[OF low] if_not_P[OF False] if_not_P[OF no])
          then show False using assms by simp
        qed
        then obtain d w where v: "v = d # w" by (cases v) auto
        let ?four = "(between 0xF0 0xF0 a \<and> between 0x90 0xBF b \<or> between 0xF1 0xF3 a \<and> between 0x80 0xBF b \<or>
                          between 0xF4 0xF4 a \<and> between 0x80 0x8F b) \<and> between 0x80 0xBF c \<and> between 0x80 0xBF d"
        have "rune_length s = (if ?four then 4 else 0)"
          unfolding rune_length_def s t u v list.case by (simp only: if_not_P[OF low] if_not_P[OF False] if_not_P[OF no])
        then have "?four" "rune_length s = 4" using assms by presburger+
        moreover then have "high a" "high b" "high c" "high d" using high by blast+
        ultimately show ?thesis by (simp add: s t u v)
      qed
    qed
    then show ?thesis by (simp add: high_def[abs_def])
  qed
qed

lemma rune_bytes:
  "r \<in> set (runes s) \<Longrightarrow> (\<exists>a. r = [a] \<and> (of_char a :: int) < 128) \<or> list_all (\<lambda>c. 128 \<le> (of_char c :: int)) r"
proof (induction s rule: runes.induct)
  case (1 s)
  consider "s = []" | "s \<noteq> []" "rune_length s = 0" | "rune_length s \<noteq> 0" by blast
  then show ?case
  proof cases
    case 1
    then show ?thesis using "1.prems" by (simp add: runes.simps)
  next
    case 2
    then have "runes s = [CHR 0xEF, CHR 0xBF, CHR 0xBD] # runes (tl s)" by (subst runes.simps) simp
    moreover have "list_all (\<lambda>c. 128 \<le> (of_char c :: int)) [CHR 0xEF, CHR 0xBF, CHR 0xBD]" by simp
    ultimately show ?thesis using "1.IH"(1) "1.prems" 2 by (metis set_ConsD)
  next
    case 3
    moreover have "s \<noteq> []" using 3 by (auto simp: rune_length_def)
    moreover note first_rune[OF 3]
    moreover have "runes s = take (rune_length s) s # runes (drop (rune_length s) s)"
      using 3 \<open>s \<noteq> []\<close> by (subst runes.simps) simp
    ultimately show ?thesis using "1.IH"(2) "1.prems" by auto
  qed
qed

lemma hex_char_plain: "n < 16 \<Longrightarrow> hex_char n \<noteq> newline"
proof -
  have "list_all (\<lambda>c. c \<noteq> newline) ''0123456789abcdef''" by code_simp
  then show "n < 16 \<Longrightarrow> ?thesis" by (auto simp: hex_char_def list_all_length)
qed

lemma hex4_plain: "newline \<notin> set (hex4 n)"
  using hex_char_plain[of "n div 4096 mod 16"] hex_char_plain[of "n div 256 mod 16"]
    hex_char_plain[of "n div 16 mod 16"] hex_char_plain[of "n mod 16"]
  by (auto simp: hex4_def)

lemma quote_rune_plain:
  assumes "r \<in> set (runes s)"
  shows "newline \<notin> set (quote_rune p r)"
proof (cases "newline \<in> set r")
  case True
  moreover have "(of_char newline :: int) = 10" by (simp add: newline_def)
  ultimately have "r = [newline]" using rune_bytes[OF assms] by (auto simp: list_all_iff)
  then show ?thesis by (simp add: quote_rune_def code_point_def newline_def)
next
  case False
  have lit: "newline \<notin> {CHR 0x5C, CHR ''a'', CHR ''b'', CHR ''f'', CHR ''n'', CHR ''r'', CHR ''t'', CHR ''v'', CHR ''x'', CHR ''u'', CHR ''U''}"
    by (simp add: newline_def)
  have small: "code_point r < 128 \<Longrightarrow> newline \<noteq> hex_char (nat (code_point r div 16))"
    using hex_char_plain[of "nat (code_point r div 16)"] zdiv_mono1[of "code_point r" 127 16] by force
  have low: "newline \<noteq> hex_char (nat (code_point r mod 16))"
    using hex_char_plain[of "nat (code_point r mod 16)"] by (force simp: nat_less_iff)
  show ?thesis using lit False hex4_plain small low unfolding quote_rune_def Let_def by simp
qed

lemma Quote_plain: "newline \<notin> set (Quote p s)"
  using quote_rune_plain[of _ s p] by (auto simp: Quote_def newline_def)

lemma encoded_cons: "\<exists>rest. ovpn_encoded p key args = key @ rest"
  by (cases args) (auto simp: ovpn_encoded_def)

lemma encoded_plain: "newline \<notin> set key \<Longrightarrow> newline \<notin> set (ovpn_encoded p key args)"
  using set_join[of newline "CHR '' ''" "key # map (Quote p) args"] Quote_plain[of p]
  by (auto simp: ovpn_encoded_def newline_def)

section \<open>How OpenVPN reads what was written\<close>

lemma outside_append:
  "outside open' xs = (mid, os, bs) \<Longrightarrow> outside mid ys = (end', os', bs') \<Longrightarrow> outside open' (xs @ ys) = (end', os @ os', bs @ bs')"
proof (induction open' xs arbitrary: os bs rule: outside.induct)
  case (2 l ls)
  then show ?case by (auto split: option.splits prod.splits)
next
  case (3 name l ls)
  then show ?case by (auto split: if_splits)
qed simp

lemma outside_option:
  assumes "l = [] \<or> hd l \<noteq> CHR ''<''"
  shows "outside None [l] = (None, [l], [])"
proof -
  have "find (\<lambda>name. l = tag name) inline_options = None"
    using assms by (auto simp: find_None_iff tag_def)
  then show ?thesis by simp
qed

lemma outside_inside:
  "list_all (\<lambda>l. CHR ''<'' \<notin> set l) ls \<Longrightarrow> outside (Some name) (ls @ [end_tag name]) = (None, [], [])"
proof (induction ls)
  case (Cons l ls)
  then have "\<not> prefix (end_tag name) l" by (auto simp: end_tag_def prefix_def)
  then show ?case using Cons by simp
qed simp

lemma inline_plain: "name \<in> set inline_options \<Longrightarrow> newline \<notin> set name \<and> find (\<lambda>n. tag name = tag n) inline_options = Some name"
proof -
  have "list_all (\<lambda>name. newline \<notin> set name \<and> find (\<lambda>n. tag name = tag n) inline_options = Some name) inline_options"
    by code_simp
  then show "name \<in> set inline_options \<Longrightarrow> ?thesis" by (auto simp: list_all_iff)
qed

lemma outside_block:
  assumes "name \<in> set inline_options" and "CHR ''<'' \<notin> set text"
  shows "outside None (lines_of [tag name, text, end_tag name]) = (None, [], [name])"
proof -
  have n: "newline \<notin> set name" using inline_plain[OF assms(1)] by simp
  have "newline \<notin> set (tag name)" "newline \<notin> set (end_tag name)" using n by (auto simp: tag_def end_tag_def newline_def)
  then have "lines_of [tag name, text, end_tag name] = tag name # split_on newline text @ [end_tag name]"
    by (simp add: lines_of_def split_on_none)
  moreover have "list_all (\<lambda>l. CHR ''<'' \<notin> set l) (split_on newline text)"
  proof -
    have "set l \<subseteq> set text" if "l \<in> set (split_on newline text)" for l
      using split_on_subset[OF that] .
    then show ?thesis using assms(2) by (auto simp: list_all_iff)
  qed
  ultimately show ?thesis using outside_inside[of "split_on newline text" name] inline_plain[OF assms(1)] by simp
qed

section \<open>What a step of the OpenVPN profile keeps\<close>

lemma passed_plain: "key \<in> set passed_options \<Longrightarrow> key \<noteq> [] \<and> hd key \<noteq> CHR ''<'' \<and> newline \<notin> set key"
proof -
  have "list_all (\<lambda>k. k \<noteq> [] \<and> hd k \<noteq> CHR ''<'' \<and> newline \<notin> set k) passed_options" by code_simp
  then show "key \<in> set passed_options \<Longrightarrow> ?thesis" by (auto simp: list_all_iff)
qed

lemma reads_more:
  assumes "ovpn_reads p out os bs" and "outside None (lines_of ls) = (None, os', bs')" and "list_all (option_ok p) os'"
  shows "ovpn_reads p (out @ ls) (os @ os') (bs @ bs')"
  using assms outside_append[of None "lines_of out" None os bs "lines_of ls" None os' bs'] by (simp add: ovpn_reads_def)

lemma outside_encoded:
  assumes "key \<in> set passed_options"
  shows "outside None (lines_of [ovpn_encoded p key args]) = (None, [ovpn_encoded p key args], [])"
proof -
  obtain rest where r: "ovpn_encoded p key args = key @ rest" using encoded_cons by blast
  have "hd (ovpn_encoded p key args) \<noteq> CHR ''<''" using passed_plain[OF assms] r by simp
  then show ?thesis
    using lines_of_single[OF encoded_plain[of key p args]] passed_plain[OF assms] outside_option by simp
qed

lemma option_encoded: "key \<in> set passed_options \<Longrightarrow> option_ok p (ovpn_encoded p key args)"
  by (auto simp: option_ok_def)

text \<open>The state after lines have been written, with the flags that they justify.\<close>

lemma inv_emit:
  assumes "ovpn_inv p s" and "outside None (lines_of ls) = (None, os', bs')" and "list_all (option_ok p) os'"
    and "ov_output s' = ov_output s @ ls" and "ov_section s' \<noteq> [] \<longrightarrow> ov_section s' \<in> set inline_options"
    and "list_all (\<lambda>l. CHR ''<'' \<notin> set l) (ov_block s')"
    and "ov_remote s' \<Longrightarrow> ov_remote s \<or> (\<exists>args. ovpn_encoded p ''remote'' args \<in> set os')"
    and "ov_serverCheck s' \<Longrightarrow> ov_serverCheck s \<or> ovpn_encoded p ''remote-cert-tls'' [''server''] \<in> set os'"
    and "ov_trust s' \<Longrightarrow> ov_trust s \<or> ''ca'' \<in> set bs' \<or> (\<exists>args. ovpn_encoded p ''peer-fingerprint'' args \<in> set os')"
  shows "ovpn_inv p s'"
proof -
  obtain os bs where r: "ovpn_reads p (ov_output s) os bs" "ovpn_flags p s os bs" using assms(1) by (auto simp: ovpn_inv_def)
  then have "ovpn_reads p (ov_output s') (os @ os') (bs @ bs')" using reads_more[OF _ assms(2,3)] assms(4) by simp
  moreover have "ovpn_flags p s' (os @ os') (bs @ bs')" using r(2) assms(7-9) by (auto simp: ovpn_flags_def)
  ultimately show ?thesis using assms(5,6) by (auto simp: ovpn_inv_def)
qed

lemma inv_parts: "ovpn_inv p s \<Longrightarrow> ov_section s \<noteq> [] \<longrightarrow> ov_section s \<in> set inline_options"
  "ovpn_inv p s \<Longrightarrow> list_all (\<lambda>l. CHR ''<'' \<notin> set l) (ov_block s)"
  by (simp_all add: ovpn_inv_def)

lemma inv_same:
  assumes "ovpn_inv p s" and "ov_output s' = ov_output s" and "ov_section s' \<noteq> [] \<longrightarrow> ov_section s' \<in> set inline_options"
    and "list_all (\<lambda>l. CHR ''<'' \<notin> set l) (ov_block s')" and "ov_remote s' = ov_remote s" and "ov_serverCheck s' = ov_serverCheck s"
    and "ov_trust s' = ov_trust s"
  shows "ovpn_inv p s'"
  using assms by (auto simp: ovpn_inv_def ovpn_flags_def)

lemma option_outcome:
  assumes "ovpn_option p key args s = Inr s'"
  shows "s' = s \<or> s' = s\<lparr>ov_NeedsAuth := True\<rparr> \<or>
    (args = [''server''] \<and> s' = emit [ovpn_encoded p ''remote-cert-tls'' args] (s\<lparr>ov_serverCheck := True\<rparr>)) \<or>
    s' = emit [ovpn_encoded p ''peer-fingerprint'' args] (s\<lparr>ov_trust := True\<rparr>) \<or>
    s' = emit [ovpn_encoded p ''remote'' args] (s\<lparr>ov_remote := True\<rparr>) \<or>
    (key \<notin> set dropped_options \<and> s' = emit [ovpn_encoded p key args] s)"
proof -
  have one: "\<not> (length args \<noteq> 1 \<or> hd args \<noteq> x) \<Longrightarrow> args = [x]" for x by (cases args) auto
  show ?thesis
    using assms one[of "''server''"] unfolding ovpn_option_def dropped_options_def
    by (simp only: split: if_split_asm) auto
qed

lemma inv_option:
  assumes "ovpn_inv p s" and "ovpn_option p key args s = Inr s'" and "key \<in> set allowed_options" and "key \<notin> set inline_options"
  shows "ovpn_inv p s'"
proof -
  have passes: "ovpn_inv p (emit [ovpn_encoded p k args] s2)"
    if "k \<in> set passed_options" "ov_output s2 = ov_output s" "ov_section s2 = ov_section s" "ov_block s2 = ov_block s"
      "ov_remote s2 \<Longrightarrow> ov_remote s \<or> k = ''remote''"
      "ov_serverCheck s2 \<Longrightarrow> ov_serverCheck s \<or> k = ''remote-cert-tls'' \<and> args = [''server'']"
      "ov_trust s2 \<Longrightarrow> ov_trust s \<or> k = ''peer-fingerprint''" for k s2
    by (rule inv_emit[OF assms(1) outside_encoded[OF that(1)]])
      (use that assms(1) option_encoded inv_parts in \<open>auto simp: emit_def\<close>)
  have listed: "''remote-cert-tls'' \<in> set passed_options" "''peer-fingerprint'' \<in> set passed_options" "''remote'' \<in> set passed_options"
    by code_simp+
  have other: "key \<in> set passed_options" if "key \<notin> set dropped_options" using that assms(3,4) by (simp add: passed_options_def)
  have same: "ovpn_inv p (s\<lparr>ov_NeedsAuth := True\<rparr>)"
    by (rule inv_same[OF assms(1)]) (use inv_parts[OF assms(1)] in auto)
  have "args = [''server''] \<Longrightarrow> ovpn_inv p (emit [ovpn_encoded p ''remote-cert-tls'' args] (s\<lparr>ov_serverCheck := True\<rparr>))"
    "ovpn_inv p (emit [ovpn_encoded p ''peer-fingerprint'' args] (s\<lparr>ov_trust := True\<rparr>))"
    "ovpn_inv p (emit [ovpn_encoded p ''remote'' args] (s\<lparr>ov_remote := True\<rparr>))"
    "key \<notin> set dropped_options \<Longrightarrow> ovpn_inv p (emit [ovpn_encoded p key args] s)"
    by (rule passes; simp add: listed other)+
  then show ?thesis using option_outcome[OF assms(2)] assms(1) same by blast
qed

lemma inv_asset:
  assumes "ovpn_inv p s" and "ovpn_asset assets key args s = Inr s'" and "key \<in> set inline_options"
  shows "ovpn_inv p s'"
proof -
  obtain asset where a: "assets (hd args) = Some asset" "CHR ''<'' \<notin> set asset"
    and two: "length args = 2 \<Longrightarrow> args ! 1 = ''0'' \<or> args ! 1 = ''1''"
    and s': "s' = (let s1 = (if length args = 2 then emit [''key-direction '' @ args ! 1] s else s);
                   s2 = emit [tag key, trim_space asset, end_tag key] s1
               in if key = ''ca'' then s2\<lparr>ov_trust := True\<rparr> else s2)"
    using assms(2) by (auto simp: ovpn_asset_def Let_def split: if_splits option.splits)
  define s1 where "s1 = (if length args = 2 then emit [''key-direction '' @ args ! 1] s else s)"
  have dir: "outside None (lines_of [''key-direction 0'']) = (None, [''key-direction 0''], [])"
    "outside None (lines_of [''key-direction 1'']) = (None, [''key-direction 1''], [])" by code_simp+
  have "ovpn_inv p s1"
  proof (cases "length args = 2")
    case True
    then have "args ! 1 = ''0'' \<or> args ! 1 = ''1''" using two by simp
    then show ?thesis
      by (elim disjE; intro inv_emit[OF assms(1) dir(1)] inv_emit[OF assms(1) dir(2)])
        (use True inv_parts[OF assms(1)] in \<open>auto simp: s1_def emit_def option_ok_def\<close>)
  next
    case False
    then show ?thesis using assms(1) by (simp add: s1_def)
  qed
  note inv = this
  have body: "CHR ''<'' \<notin> set (trim_space asset)" using set_trim a(2) by blast
  have out: "ov_output s' = ov_output s1 @ [tag key, trim_space asset, end_tag key]" "ov_section s' = ov_section s1" "ov_block s' = ov_block s1"
    "ov_remote s' = ov_remote s1" "ov_serverCheck s' = ov_serverCheck s1" "ov_trust s' \<Longrightarrow> ov_trust s1 \<or> ''ca'' \<in> set [key]"
    by (auto simp: s' s1_def[symmetric] Let_def emit_def split: if_splits)
  show ?thesis
    by (rule inv_emit[OF inv outside_block[OF assms(3) body] _ out(1)]) (use inv_parts[OF inv] out in auto)
qed

lemma inv_line:
  assumes "ovpn_inv p s" and "ovpn_line p assets raw s = Inr s'"
  shows "ovpn_inv p s'"
proof -
  let ?line = "trim_space raw"
  note parts = inv_parts[OF assms(1)]
  have conn: "outside None (lines_of [''<connection>'']) = (None, [''<connection>''], [])"
    "outside None (lines_of [''</connection>'']) = (None, [''</connection>''], [])" by code_simp+
  consider (ends) "ov_section s \<noteq> []" "?line = end_tag (ov_section s)"
      "s' = emit [tag (ov_section s), join_with newline (ov_block s), ?line]
          (s\<lparr>ov_trust := ov_trust s \<or> ov_section s = ''ca'', ov_section := [], ov_block := []\<rparr>)"
    | (block) "\<not> contains_any ?line ''<>''" "s' = s\<lparr>ov_block := ov_block s @ [?line]\<rparr>"
    | (nothing) "s' = s"
    | (opens) "s' = emit [''<connection>''] (s\<lparr>ov_connection := True\<rparr>)"
    | (closes) "s' = emit [''</connection>''] (s\<lparr>ov_connection := False\<rparr>)"
    | (begins) name where "name \<in> set inline_options" "s' = s\<lparr>ov_section := name\<rparr>"
    | (asset) key args where "key \<in> set inline_options" "ovpn_asset assets key args s = Inr s'"
    | (option) key args where "key \<in> set allowed_options" "key \<notin> set inline_options" "ovpn_option p key args s = Inr s'"
    using assms(2) unfolding ovpn_line_def Let_def
    by (auto split: if_split_asm option.split_asm list.split_asm)
  then show ?thesis
  proof cases
    case ends
    have "CHR ''<'' \<notin> set (join_with newline (ov_block s))"
      using set_join parts(2) by (fastforce simp: list_all_iff newline_def)
    then have "outside None (lines_of [tag (ov_section s), join_with newline (ov_block s), ?line]) = (None, [], [ov_section s])"
      using outside_block ends(1,2) parts(1) by simp
    then show ?thesis by (rule inv_emit[OF assms(1)]) (use ends(3) in \<open>auto simp: emit_def\<close>)
  next
    case block
    then show ?thesis by (intro inv_same[OF assms(1)]) (use parts in \<open>auto simp: contains_any_def list_ex_iff\<close>)
  next
    case nothing
    then show ?thesis using assms(1) by simp
  next
    case opens
    then show ?thesis by (intro inv_emit[OF assms(1) conn(1)]) (use parts in \<open>auto simp: emit_def option_ok_def\<close>)
  next
    case closes
    then show ?thesis by (intro inv_emit[OF assms(1) conn(2)]) (use parts in \<open>auto simp: emit_def option_ok_def\<close>)
  next
    case (begins name)
    then show ?thesis by (intro inv_same[OF assms(1)]) (use parts in auto)
  next
    case (asset key args)
    then show ?thesis using inv_asset[OF assms(1)] by blast
  next
    case (option key args)
    then show ?thesis using inv_option[OF assms(1)] by blast
  qed
qed

lemma inv_lines: "ovpn_inv p s \<Longrightarrow> ovpn_lines p assets n raws s = Inr s' \<Longrightarrow> ovpn_inv p s'"
  by (induction raws arbitrary: s n) (auto split: sum.splits dest: inv_line)

lemma inv_start: "ovpn_inv p ovpn_start"
  by (auto simp: ovpn_inv_def ovpn_start_def ovpn_reads_def ovpn_flags_def lines_of_def)

lemma no_long_line: "long_line n ls = None \<Longrightarrow> list_all (\<lambda>l. length l \<le> maxOpenVPNLine) ls"
  by (induction n ls rule: long_line.induct) (auto split: if_splits)

lemma sample_lines:
  "case ovpn_lines (\<lambda>_. True) (\<lambda>_. None) 0 (split_on newline sample_profile) ovpn_start of
     Inl _ \<Rightarrow> False
   | Inr s \<Rightarrow> ov_section s = [] \<and> \<not> ov_connection s \<and> ov_remote s \<and> ov_trust s \<and>
       long_line 0 (split_on newline (ovpn_config s)) = None \<and> length (ovpn_config s) \<le> 100"
  by code_simp

text \<open>
  A profile is normalised again, without the uploaded files, whenever it is started. An uploaded credential may hold a \<open>>\<close>, which the
  second pass refuses in a block: such a profile is accepted and can never be started.
\<close>

lemma restart_refused:
  "case ovpn_lines (\<lambda>_. True) [''c'' \<mapsto> ''>''] 0 [''remote h'', ''ca c''] ovpn_start of
     Inl _ \<Rightarrow> False
   | Inr s \<Rightarrow> ov_section s = [] \<and> \<not> ov_connection s \<and> ov_remote s \<and> ov_trust s \<and>
       (case ovpn_lines (\<lambda>_. True) (\<lambda>_. None) 0 (split_on newline (ovpn_config s)) ovpn_start of Inl (_, e) \<Rightarrow> e = InvalidBlock | Inr _ \<Rightarrow> False)"
  by code_simp

text \<open>
  C36. What OpenVPN is given: read the way OpenVPN reads it, every line of an accepted profile that is not inside a
  credential block is \<open>client\<close> or one of the listed client options, its arguments quoted, so none that runs a command, loads a plugin or opens a
  file; no line is longer than OpenVPN reads whole, the blocks are closed, the profile names a server, has a certificate authority or a fingerprint,
  and the certificate of the server is always checked.
\<close>

theorem openvpn_profile_safe:
  assumes "Normalize is_print assets data = Inr r"
  shows "\<exists>os bs. outside None (split_on newline (pa_Config r)) = (None, ''client'' # os @ [[]], bs) \<and>
    list_all (option_ok is_print) os \<and> list_all (\<lambda>l. length l \<le> maxOpenVPNLine) (split_on newline (pa_Config r)) \<and>
    (\<exists>args. ovpn_encoded is_print ''remote'' args \<in> set os) \<and>
    (''ca'' \<in> set bs \<or> (\<exists>args. ovpn_encoded is_print ''peer-fingerprint'' args \<in> set os)) \<and>
    (''remote-cert-tls server'' \<in> set os \<or> ovpn_encoded is_print ''remote-cert-tls'' [''server''] \<in> set os)"
proof -
  obtain s where s: "ovpn_lines is_print assets 0 (split_on newline data) ovpn_start = Inr s" "ov_remote s" "ov_trust s"
    and r: "pa_Config r = ovpn_config s" and long: "long_line 0 (split_on newline (pa_Config r)) = None"
    using assms unfolding Normalize_def by (auto split: if_split_asm sum.split_asm option.split_asm)
  obtain os bs where o: "ovpn_reads is_print (ov_output s) os bs" "ovpn_flags is_print s os bs"
    using inv_lines[OF inv_start s(1)] by (auto simp: ovpn_inv_def)
  let ?check = "if ov_serverCheck s then [] else [''remote-cert-tls server'']"
  have check: "outside None (lines_of ?check) = (None, ?check, [])" "list_all (option_ok is_print) ?check"
  proof -
    have "outside None (lines_of [''remote-cert-tls server'']) = (None, [''remote-cert-tls server''], [])" by code_simp
    then show "outside None (lines_of ?check) = (None, ?check, [])" by (simp add: lines_of_def)
  qed (simp add: option_ok_def)
  have client: "newline \<notin> set ''client''" by (simp add: newline_def)
  have some: "ov_output s @ ?check \<noteq> []"
  proof
    assume none: "ov_output s @ ?check = []"
    then have "os = []" using o(1) by (simp add: ovpn_reads_def lines_of_def)
    then show False using o(2) s(2) by (simp add: ovpn_flags_def)
  qed
  have "split_on newline (join_with newline (ov_output s @ ?check) @ [newline]) = lines_of (ov_output s @ ?check) @ [[]]"
    using split_on_both[of newline "join_with newline (ov_output s @ ?check)" "[]"] split_join_lines[OF some] by simp
  then have lines: "split_on newline (pa_Config r) = ''client'' # lines_of (ov_output s @ ?check) @ [[]]"
    unfolding r ovpn_config_def Let_def using split_on_append[OF client] by simp
  have "outside None [''client''] = (None, [''client''], [])" "outside None [[]] = (None, [[]], [])"
    by (rule outside_option; simp)+
  then have "outside None (split_on newline (pa_Config r)) = (None, ''client'' # (os @ ?check) @ [[]], bs)"
    using outside_append[of None "[''client'']" None "[''client'']" "[]" "lines_of (ov_output s @ ?check) @ [[]]" None "(os @ ?check) @ [[]]" bs]
      outside_append[of None "lines_of (ov_output s @ ?check)" None "os @ ?check" bs "[[]]" None "[[]]" "[]"]
      outside_append[OF _ check(1), of None "lines_of (ov_output s)" os bs] o(1) lines by (simp add: ovpn_reads_def)
  moreover have "list_all (option_ok is_print) (os @ ?check)" using o(1) check(2) by (simp add: ovpn_reads_def)
  moreover note no_long_line[OF long]
  moreover have "''remote-cert-tls server'' \<in> set (os @ ?check) \<or> ovpn_encoded is_print ''remote-cert-tls'' [''server''] \<in> set (os @ ?check)"
    using o(2) by (auto simp: ovpn_flags_def)
  moreover have "\<exists>args. ovpn_encoded is_print ''remote'' args \<in> set (os @ ?check)"
    "''ca'' \<in> set bs \<or> (\<exists>args. ovpn_encoded is_print ''peer-fingerprint'' args \<in> set (os @ ?check))"
    using o(2) s(2,3) by (auto simp: ovpn_flags_def)
  ultimately show ?thesis by blast
qed

theorem openvpn_profile_safe_witness:
  "\<exists>r. Normalize (\<lambda>_. True) (\<lambda>_. None) sample_profile = Inr r \<and>
    (\<exists>os bs. outside None (split_on newline (pa_Config r)) = (None, ''client'' # os @ [[]], bs) \<and>
      list_all (option_ok (\<lambda>_. True)) os \<and> list_all (\<lambda>l. length l \<le> maxOpenVPNLine) (split_on newline (pa_Config r)))"
proof -
  obtain s where s: "ovpn_lines (\<lambda>_. True) (\<lambda>_. None) 0 (split_on newline sample_profile) ovpn_start = Inr s"
    "ov_section s = []" "\<not> ov_connection s" "ov_remote s" "ov_trust s"
    "long_line 0 (split_on newline (ovpn_config s)) = None" "length (ovpn_config s) \<le> 100"
    using sample_lines by (auto split: sum.splits)
  have "length sample_profile \<le> profile_limit" "CHR 0x00 \<notin> set sample_profile"
    by (simp_all add: sample_profile_def newline_def profile_limit_def)
  then have "\<exists>r. Normalize (\<lambda>_. True) (\<lambda>_. None) sample_profile = Inr r"
    using s by (simp add: Normalize_def profile_limit_def)
  then show ?thesis using openvpn_profile_safe[of "\<lambda>_. True" "\<lambda>_. None" sample_profile] by blast
qed

end
