(* ===== verification/Wireguard_Profile.thy ===== *)
theory Wireguard_Profile
  imports Go_Lines
begin

text \<open>
  The WireGuard profile that a user uploads: \<open>Validate\<close> and \<open>profileConfig\<close> of
  \<open>service/extensions/wireguard/config.go\<close>, with what they use of \<open>net/netip\<close>, \<open>net\<close> and \<open>encoding/base64\<close>.
  \<open>wg-quick\<close> runs as root and has hooks that run commands; a profile may hold keys and addresses only.
\<close>

section \<open>Addresses\<close>

definition octet :: "string \<Rightarrow> bool" where
  "octet p \<longleftrightarrow> p \<noteq> [] \<and> length p \<le> 3 \<and> list_all is_digit p \<and> (length p > 1 \<longrightarrow> hd p \<noteq> CHR ''0'') \<and> decimal 0 p \<le> 255"

definition parseIPv4 :: "string \<Rightarrow> bool" where
  "parseIPv4 s \<longleftrightarrow> length (split_on (CHR ''.'') s) = 4 \<and> list_all octet (split_on (CHR ''.'') s)"

definition is_hex :: "char \<Rightarrow> bool" where
  "is_hex c \<longleftrightarrow> hex_digit c \<noteq> None"

text \<open>The fields of an IPv6 address: \<open>i\<close> bytes are filled, \<open>ell\<close> if a double colon has been seen.\<close>

definition v6_end :: "nat \<Rightarrow> bool \<Rightarrow> bool" where
  "v6_end i ell \<longleftrightarrow> (if i < 16 then ell else \<not> ell)"

function v6_fields :: "nat \<Rightarrow> bool \<Rightarrow> string \<Rightarrow> bool" where
  "v6_fields i ell s =
     (if i \<ge> 16 then s = [] \<and> v6_end i ell
      else let h = takeWhile is_hex s; rest = dropWhile is_hex s in
        if h = [] \<or> length h > 4 then False
        else case rest of
          [] \<Rightarrow> v6_end (i + 2) ell
        | c # t \<Rightarrow>
            if c = CHR ''.'' then (\<not> ell \<longrightarrow> i = 12) \<and> i + 4 \<le> 16 \<and> parseIPv4 s \<and> v6_end (i + 4) ell
            else if c \<noteq> CHR '':'' \<or> t = [] then False
            else if hd t = CHR '':'' then
              if ell then False else if tl t = [] then v6_end (i + 2) True else v6_fields (i + 2) True (tl t)
            else v6_fields (i + 2) ell t)"
  by pat_completeness auto
termination
  by (relation "measure (\<lambda>(i, ell, s). 16 - i)") auto

declare v6_fields.simps [simp del]

definition parseIPv6 :: "string \<Rightarrow> bool" where
  "parseIPv6 s \<longleftrightarrow>
     (if prefix ''::'' s then length s = 2 \<or> v6_fields 0 True (drop 2 s) else v6_fields 0 False s)"

text \<open>\<open>netip.ParseAddr\<close>: whether the address is IPv6, and its zone.\<close>

definition ParseAddr :: "string \<Rightarrow> (bool \<times> string) option" where
  "ParseAddr s =
     (case find (\<lambda>c. c = CHR ''.'' \<or> c = CHR '':'' \<or> c = CHR ''%'') s of
        Some c \<Rightarrow>
          if c = CHR ''.'' then if parseIPv4 s then Some (False, []) else None
          else if c = CHR '':'' then
            (case cut (CHR ''%'') s of (addr, zone, found) \<Rightarrow>
               if found \<and> zone = [] \<or> \<not> parseIPv6 addr then None else Some (True, zone))
          else None
      | None \<Rightarrow> None)"

text \<open>The parts before and after the last occurrence of a character.\<close>

definition cut_last :: "char \<Rightarrow> string \<Rightarrow> (string \<times> string) option" where
  "cut_last c s =
     (if c \<in> set s then Some (rev (tl (dropWhile (\<lambda>x. x \<noteq> c) (rev s))), rev (takeWhile (\<lambda>x. x \<noteq> c) (rev s))) else None)"

definition ParsePrefix :: "string \<Rightarrow> bool" where
  "ParsePrefix s =
     (case cut_last (CHR ''/'') s of
        None \<Rightarrow> False
      | Some (addr, bits) \<Rightarrow>
          (case ParseAddr addr of
             None \<Rightarrow> False
           | Some (six, zone) \<Rightarrow>
               zone = [] \<and> bits \<noteq> [] \<and> list_all is_digit bits \<and> (length bits > 1 \<longrightarrow> hd bits \<noteq> CHR ''0'') \<and>
               decimal 0 bits \<le> (if six then 128 else 32)))"

text \<open>\<open>net.SplitHostPort\<close>.\<close>

definition SplitHostPort :: "string \<Rightarrow> (string \<times> string) option" where
  "SplitHostPort s =
     (case cut_last (CHR '':'') s of
        None \<Rightarrow> None
      | Some (front, port) \<Rightarrow>
          if hd s = CHR ''['' then
            if CHR '']'' \<notin> set s then None
            else let host = takeWhile (\<lambda>c. c \<noteq> CHR '']'') (tl s); after = drop (length host + 2) s in
              if length host + 2 \<noteq> length front then None
              else if CHR ''['' \<in> set (tl s) \<or> CHR '']'' \<in> set after then None else Some (host, port)
          else if CHR '':'' \<in> set front \<or> CHR ''['' \<in> set s \<or> CHR '']'' \<in> set s then None
          else Some (front, port))"

section \<open>Values\<close>

definition ascii_range :: "char \<Rightarrow> char \<Rightarrow> char \<Rightarrow> bool" where
  "ascii_range a b c \<longleftrightarrow> (of_char a :: int) \<le> of_char c \<and> (of_char c :: int) \<le> of_char b"

definition alnum :: "char \<Rightarrow> bool" where
  "alnum c \<longleftrightarrow> ascii_range CHR ''a'' CHR ''z'' c \<or> ascii_range CHR ''A'' CHR ''Z'' c \<or> ascii_range CHR ''0'' CHR ''9'' c"

text \<open>
  A key is the base64 of 32 bytes, 43 characters and a padding; the decoder skips line breaks of any kind and the unused bits
  of the last character.
\<close>

definition validKey :: "string \<Rightarrow> bool" where
  "validKey s \<longleftrightarrow>
     (let t = filter (\<lambda>c. c \<noteq> newline \<and> c \<noteq> CHR 0x0D) s in
      length t = 44 \<and> list_all (\<lambda>c. alnum c \<or> c = CHR ''+'' \<or> c = CHR ''/'') (butlast t) \<and> last t = CHR ''='')"

definition validNumber :: "string \<Rightarrow> nat \<Rightarrow> nat \<Rightarrow> bool" where
  "validNumber s least greatest \<longleftrightarrow>
     s \<noteq> [] \<and> list_all is_digit s \<and> decimal 0 s < 2 ^ 32 \<and> least \<le> decimal 0 s \<and> decimal 0 s \<le> greatest"

definition validPrefixes :: "string \<Rightarrow> bool" where
  "validPrefixes s \<longleftrightarrow> list_all (\<lambda>p. ParsePrefix (trim_space p)) (split_on (CHR '','') s)"

definition valid_label :: "string \<Rightarrow> bool" where
  "valid_label l \<longleftrightarrow> l \<noteq> [] \<and> length l \<le> 63 \<and> hd l \<noteq> CHR ''-'' \<and> last l \<noteq> CHR ''-'' \<and> list_all (\<lambda>c. alnum c \<or> c = CHR ''-'') l"

definition validHost :: "string \<Rightarrow> bool" where
  "validHost s \<longleftrightarrow>
     ParseAddr s \<noteq> None \<or>
     s \<noteq> [] \<and> length s \<le> 253 \<and> list_all valid_label (split_on (CHR ''.'') (trim_suffix s ''.''))"

section \<open>The profile\<close>

datatype wg_error =
    TooLargeOrInvalid | IncompletePeer | OneInterface | InterfaceFirst | UnsupportedSection | InvalidLine | InvalidName
  | InvalidField string | IncompleteProfile

datatype wg_section = Outside | Interface | Peer

record wg =
  wg_section :: wg_section
  wg_peers :: nat
  wg_seenInterface :: bool
  wg_privateKey :: bool
  wg_address :: bool
  wg_peerKey :: bool
  wg_allowed :: bool
  wg_seen :: "string list"
  wg_lines :: "string list"

definition wg_start :: wg where
  "wg_start = \<lparr>wg_section = Outside, wg_peers = 0, wg_seenInterface = False, wg_privateKey = False, wg_address = False,
     wg_peerKey = False, wg_allowed = False, wg_seen = [], wg_lines = []\<rparr>"

definition interface_valid :: "string \<Rightarrow> string \<Rightarrow> bool" where
  "interface_valid key value \<longleftrightarrow>
     (if key = ''PrivateKey'' then validKey value
      else if key = ''Address'' then validPrefixes value
      else if key = ''ListenPort'' then validNumber value 0 65535
      else if key = ''MTU'' then validNumber value 1280 9000
      else if key = ''DNS'' then list_all (\<lambda>v. ParseAddr (trim_space v) \<noteq> None) (split_on (CHR '','') value)
      else if key = ''Table'' then value = ''auto'' \<or> value = ''off'' \<or> validNumber value 1 4294967295
      else False)"

definition peer_valid :: "string \<Rightarrow> string \<Rightarrow> bool" where
  "peer_valid key value \<longleftrightarrow>
     (if key = ''PublicKey'' then validKey value
      else if key = ''PresharedKey'' then validKey value
      else if key = ''AllowedIPs'' then validPrefixes value
      else if key = ''PersistentKeepalive'' then validNumber value 0 65535
      else if key = ''Endpoint'' then
        (case SplitHostPort value of None \<Rightarrow> False | Some (host, port) \<Rightarrow> validNumber port 1 65535 \<and> validHost host)
      else False)"

definition repeatable :: "string list" where
  "repeatable = [''Address'', ''DNS'', ''AllowedIPs'']"

definition wg_header :: "string \<Rightarrow> wg \<Rightarrow> (wg_error, wg) result" where
  "wg_header line s =
     (if wg_section s = Peer \<and> (\<not> wg_peerKey s \<or> \<not> wg_allowed s) then Inl IncompletePeer
      else if line = ''[Interface]'' then
        if wg_seenInterface s \<or> wg_peers s \<noteq> 0 then Inl OneInterface
        else Inr (s\<lparr>wg_seenInterface := True, wg_section := Interface, wg_seen := [], wg_lines := wg_lines s @ [line, ''Table = off'']\<rparr>)
      else if line = ''[Peer]'' then
        if \<not> wg_seenInterface s then Inl InterfaceFirst
        else Inr (s\<lparr>wg_peers := wg_peers s + 1, wg_section := Peer, wg_peerKey := False, wg_allowed := False, wg_seen := [],
          wg_lines := wg_lines s @ [line]\<rparr>)
      else Inl UnsupportedSection)"

definition wg_field :: "string \<times> string \<Rightarrow> string" where
  "wg_field kv = fst kv @ '' = '' @ snd kv"

definition wg_key :: "string \<Rightarrow> string \<Rightarrow> wg \<Rightarrow> (wg_error, wg) result" where
  "wg_key key value s =
     (if length key > 32 then Inl InvalidName
      else if key \<in> set (wg_seen s) \<and> key \<notin> set repeatable then Inl (InvalidField key)
      else let s = s\<lparr>wg_seen := key # wg_seen s\<rparr> in
        if wg_section s = Interface then
          if \<not> interface_valid key value then Inl (InvalidField key)
          else let s = s\<lparr>wg_privateKey := wg_privateKey s \<or> key = ''PrivateKey'', wg_address := wg_address s \<or> key = ''Address''\<rparr> in
            Inr (if key = ''Table'' then s else s\<lparr>wg_lines := wg_lines s @ [wg_field (key, value)]\<rparr>)
        else
          if \<not> peer_valid key value then Inl (InvalidField key)
          else Inr (s\<lparr>wg_peerKey := wg_peerKey s \<or> key = ''PublicKey'', wg_allowed := wg_allowed s \<or> key = ''AllowedIPs'',
            wg_lines := wg_lines s @ [wg_field (key, value)]\<rparr>))"

definition wg_line :: "string \<Rightarrow> wg \<Rightarrow> (wg_error, wg) result" where
  "wg_line raw s =
     (let line = trim_space (takeWhile (\<lambda>c. c \<noteq> CHR ''#'') raw) in
      if line = [] then Inr s
      else if prefix ''['' line then wg_header line s
      else case cut (CHR ''='') line of (key, value, found) \<Rightarrow>
        if \<not> found \<or> wg_section s = Outside then Inl InvalidLine
        else wg_key (trim_space key) (trim_space value) s)"

fun wg_run :: "string list \<Rightarrow> wg \<Rightarrow> (wg_error, wg) result" where
  "wg_run [] s = Inr s"
| "wg_run (raw # raws) s = (case wg_line raw s of Inl e \<Rightarrow> Inl e | Inr s' \<Rightarrow> wg_run raws s')"

definition wg_limit :: nat where "wg_limit = 64 * 1024"

definition Validate :: "string \<Rightarrow> (wg_error, string) result" where
  "Validate data =
     (if length data > wg_limit \<or> CHR 0x00 \<in> set data then Inl TooLargeOrInvalid
      else case wg_run (split_on newline data) wg_start of
        Inl e \<Rightarrow> Inl e
      | Inr s \<Rightarrow>
          if \<not> wg_privateKey s \<or> \<not> wg_address s \<or> wg_peers s = 0 \<or> \<not> wg_peerKey s \<or> \<not> wg_allowed s then Inl IncompleteProfile
          else Inr (join_with newline (wg_lines s) @ [newline]))"

text \<open>\<open>strings.Replace\<close> of the first occurrence.\<close>

fun replace_first :: "string \<Rightarrow> string \<Rightarrow> string \<Rightarrow> string" where
  "replace_first old new [] = (if old = [] then new else [])"
| "replace_first old new (c # s) =
     (if prefix old (c # s) then new @ drop (length old) (c # s) else c # replace_first old new s)"

definition profileConfig :: "string \<Rightarrow> bool \<Rightarrow> (wg_error, string) result" where
  "profileConfig data routeAllowedIPs =
     (case Validate data of
        Inl e \<Rightarrow> Inl e
      | Inr c \<Rightarrow> Inr (if routeAllowedIPs then replace_first (''Table = off'' @ [newline]) (''Table = auto'' @ [newline]) c else c))"

text \<open>What a profile holds: the fields of its interface and of each peer.\<close>

type_synonym wg_fields = "(string \<times> string) list"

definition fields_ok :: "(string \<Rightarrow> string \<Rightarrow> bool) \<Rightarrow> wg_fields \<Rightarrow> bool" where
  "fields_ok valid fs \<longleftrightarrow>
     list_all (\<lambda>(k, v). valid k v \<and> trim_space v = v \<and> newline \<notin> set v \<and> CHR ''#'' \<notin> set v \<and> CHR 0x00 \<notin> set v) fs \<and>
     distinct (filter (\<lambda>k. k \<notin> set repeatable) (map fst fs))"

definition interface_ok :: "wg_fields \<Rightarrow> bool" where
  "interface_ok fs \<longleftrightarrow> fields_ok (\<lambda>k v. k \<noteq> ''Table'' \<and> interface_valid k v) fs"

definition peer_lines :: "wg_fields list \<Rightarrow> string list" where
  "peer_lines ps = concat (map (\<lambda>fs. ''[Peer]'' # map wg_field fs) ps)"

definition profile_lines :: "string \<Rightarrow> wg_fields \<Rightarrow> wg_fields list \<Rightarrow> string list" where
  "profile_lines table fs ps = ''[Interface]'' # (''Table = '' @ table) # map wg_field fs @ peer_lines ps"

definition profile_text :: "string \<Rightarrow> wg_fields \<Rightarrow> wg_fields list \<Rightarrow> string" where
  "profile_text table fs ps = join_with newline (profile_lines table fs ps) @ [newline]"

definition has :: "string \<Rightarrow> wg_fields \<Rightarrow> bool" where
  "has k fs \<longleftrightarrow> k \<in> fst ` set fs"

definition profile_ok :: "wg_fields \<Rightarrow> wg_fields list \<Rightarrow> bool" where
  "profile_ok fs ps \<longleftrightarrow>
     interface_ok fs \<and> has ''PrivateKey'' fs \<and> has ''Address'' fs \<and> ps \<noteq> [] \<and>
     list_all (\<lambda>p. fields_ok peer_valid p \<and> has ''PublicKey'' p \<and> has ''AllowedIPs'' p) ps"

text \<open>The state after some lines, in terms of what they hold.\<close>

definition wg_inv :: "wg \<Rightarrow> bool" where
  "wg_inv s \<longleftrightarrow>
     (case wg_section s of
        Outside \<Rightarrow> s = wg_start
      | Interface \<Rightarrow>
          (\<exists>fs. s\<lparr>wg_seen := []\<rparr> = wg_start\<lparr>wg_section := Interface, wg_seenInterface := True, wg_privateKey := has ''PrivateKey'' fs,
              wg_address := has ''Address'' fs, wg_lines := profile_lines ''off'' fs []\<rparr> \<and>
            interface_ok fs \<and> set (map fst fs) \<subseteq> set (wg_seen s))
      | Peer \<Rightarrow>
          (\<exists>fs ps p. s\<lparr>wg_seen := []\<rparr> = \<lparr>wg_section = Peer, wg_peers = length ps + 1, wg_seenInterface = True,
              wg_privateKey = has ''PrivateKey'' fs, wg_address = has ''Address'' fs, wg_peerKey = has ''PublicKey'' p,
              wg_allowed = has ''AllowedIPs'' p, wg_seen = [], wg_lines = profile_lines ''off'' fs (ps @ [p])\<rparr> \<and>
            interface_ok fs \<and> list_all (\<lambda>p. fields_ok peer_valid p \<and> has ''PublicKey'' p \<and> has ''AllowedIPs'' p) ps \<and>
            fields_ok peer_valid p \<and> set (map fst p) \<subseteq> set (wg_seen s)))"

definition known_keys :: "string list" where
  "known_keys = [''PrivateKey'', ''Address'', ''ListenPort'', ''MTU'', ''DNS'', ''Table'', ''PublicKey'', ''PresharedKey'', ''AllowedIPs'',
     ''PersistentKeepalive'', ''Endpoint'']"

definition sample_wg :: string where
  "sample_wg = ''[Interface]'' @ [newline] @ ''PrivateKey='' @ replicate 43 (CHR ''A'') @ ''='' @ [newline] @ ''Address=10.0.0.2/24'' @ [newline] @
     ''[Peer]'' @ [newline] @ ''PublicKey='' @ replicate 43 (CHR ''B'') @ ''='' @ [newline] @ ''AllowedIPs = ::/0, 10.0.0.0/8''"

section \<open>Trimmed text\<close>

lemma trim_fixed_iff:
  "trim_space v = v \<longleftrightarrow> (\<forall>r \<in> set ws_runes. \<not> prefix r v \<and> \<not> suffix r v)"
proof -
  have ne: "r \<noteq> []" if "r \<in> set ws_runes" for r using that ws_runes_ends by (auto simp: list_all_iff)
  show ?thesis
  proof
    assume *: "trim_space v = v"
    have "trim_right (trim_left v) = v" using * by (simp add: trim_space_def)
    then have "length v \<le> length (trim_left v)" using prefix_length_le[OF trim_right_prefix[of "trim_left v"]] by simp
    then have left: "trim_left v = v"
      using strip_suffix[of ws_runes v] unfolding trim_left_def suffix_def by (metis append_Nil length_append le_antisym length_0_conv add_le_same_cancel2 le_zero_eq)
    then have right: "trim_right v = v" using * by (simp add: trim_space_def)
    show "\<forall>r \<in> set ws_runes. \<not> prefix r v \<and> \<not> suffix r v"
    proof (intro ballI conjI)
      fix r assume r: "r \<in> set ws_runes"
      show "\<not> prefix r v" using strip_done[OF r ne[OF r], of v] left by (simp add: trim_left_def)
      have "\<not> prefix (rev r) (strip (map rev ws_runes) (rev v))" using strip_done[of "rev r" "map rev ws_runes" "rev v"] r ne[OF r] by simp
      then show "\<not> suffix r v" using right by (metis rev_rev_ident suffix_to_prefix trim_right_def)
    qed
  next
    assume "\<forall>r \<in> set ws_runes. \<not> prefix r v \<and> \<not> suffix r v"
    then have "strip ws_runes v = v" "strip (map rev ws_runes) (rev v) = rev v"
      by (auto intro!: strip_stop simp: suffix_to_prefix)
    then show "trim_space v = v" by (simp add: trim_space_def trim_left_def trim_right_def)
  qed
qed

lemma trim_trim: "trim_space (trim_space s) = trim_space s"
  unfolding trim_fixed_iff
proof (intro ballI conjI)
  fix r assume r: "r \<in> set ws_runes"
  have ne: "r \<noteq> []" using r ws_runes_ends by (auto simp: list_all_iff)
  have "\<not> prefix r (trim_left s)" unfolding trim_left_def by (rule strip_done[OF r ne])
  moreover have "prefix (trim_space s) (trim_left s)" using trim_right_prefix by (simp add: trim_space_def)
  ultimately show "\<not> prefix r (trim_space s)" using prefix_order.trans by blast
  have "\<not> prefix (rev r) (rev (trim_space s))"
    using strip_done[of "rev r" "map rev ws_runes" "rev (trim_left s)"] r ne by (simp add: trim_space_def trim_right_def)
  then show "\<not> suffix r (trim_space s)" by (simp add: suffix_to_prefix)
qed

lemma space_first:
  "find (\<lambda>r. r \<noteq> [] \<and> prefix r (CHR '' '' # x)) ws_runes = Some [CHR '' '']"
  "find (\<lambda>r. r \<noteq> [] \<and> prefix r (CHR '' '' # x)) (map rev ws_runes) = Some [CHR '' '']"
  by (simp_all add: ws_runes_def)

lemma trim_space_before: "trim_space v = v \<Longrightarrow> trim_space (CHR '' '' # v) = v"
proof -
  have "strip ws_runes (CHR '' '' # v) = strip ws_runes v" by (subst strip.simps) (simp add: space_first)
  then show "trim_space v = v \<Longrightarrow> ?thesis" by (simp add: trim_space_def trim_left_def)
qed

lemma trim_space_after:
  assumes "printable k" and "tight k" and "k \<noteq> []"
  shows "trim_space (k @ '' '') = k"
proof -
  have "\<not> prefix r (k @ '' '')" if "r \<in> set ws_runes" for r
    using rune_first[OF that, of "k @ '' ''"] assms by (auto simp: printable_def tight_def)
  then have "strip ws_runes (k @ '' '') = k @ '' ''" by (intro strip_stop) auto
  moreover have "strip (map rev ws_runes) (CHR '' '' # rev k) = rev k"
    by (subst strip.simps) (simp add: space_first strip_tight(2)[OF assms(1,2)])
  ultimately show ?thesis by (simp add: trim_space_def trim_left_def trim_right_def)
qed

lemma long_runes: "r \<in> set ws_runes \<Longrightarrow> length r = 1 \<or> CHR '' '' \<notin> set r"
proof -
  have "list_all (\<lambda>r. length r = 1 \<or> CHR '' '' \<notin> set r) ws_runes" by code_simp
  then show "r \<in> set ws_runes \<Longrightarrow> ?thesis" by (auto simp: list_all_iff)
qed

lemma trim_field:
  assumes "printable k" and "tight k" and "k \<noteq> []" and "trim_space v = v" and "v \<noteq> []"
  shows "trim_space (k @ '' = '' @ v) = k @ '' = '' @ v"
  unfolding trim_fixed_iff
proof (intro ballI conjI)
  fix r assume r: "r \<in> set ws_runes"
  have ne: "r \<noteq> []" and h: "hd r = CHR '' '' \<or> \<not> printable [hd r]" using r ws_runes_ends by (auto simp: list_all_iff)
  show "\<not> prefix r (k @ '' = '' @ v)"
  proof
    assume "prefix r (k @ '' = '' @ v)"
    then have "hd r = hd k" using ne assms(3) by (cases k; cases r) (auto simp: prefix_def)
    moreover have "printable [hd k]" "hd k \<noteq> CHR '' ''" using assms(1-3) by (cases k; auto simp: printable_def tight_def)+
    ultimately show False using h by auto
  qed
  show "\<not> suffix r (k @ '' = '' @ v)"
  proof
    assume suf: "suffix r (k @ '' = '' @ v)"
    show False
    proof (cases "length r \<le> length v")
      case True
      then have "suffix r v" using suf suffix_length_suffix[of r "k @ '' = '' @ v" v] by (simp add: suffixI)
      then show False using assms(4) r by (auto simp: trim_fixed_iff)
    next
      case False
      then have "suffix (CHR '' '' # v) r"
        using suf suffix_length_suffix[of "CHR '' '' # v" "k @ '' = '' @ v" r] by (simp add: suffix_def)
      then have "CHR '' '' \<in> set r" by (auto simp: suffix_def)
      moreover have "length r \<noteq> 1" using False assms(5) by (cases v) auto
      ultimately show False using long_runes[OF r] by simp
    qed
  qed
qed

section \<open>What validation accepts\<close>

lemma known_plain:
  "k \<in> set known_keys \<Longrightarrow> k \<noteq> [] \<and> hd k \<noteq> CHR ''['' \<and> CHR ''='' \<notin> set k \<and> CHR ''#'' \<notin> set k \<and> newline \<notin> set k \<and>
     CHR 0x00 \<notin> set k \<and> printable k \<and> tight k \<and> length k \<le> 32"
proof -
  have "list_all (\<lambda>k. k \<noteq> [] \<and> hd k \<noteq> CHR ''['' \<and> CHR ''='' \<notin> set k \<and> CHR ''#'' \<notin> set k \<and> newline \<notin> set k \<and>
     CHR 0x00 \<notin> set k \<and> printable k \<and> tight k \<and> length k \<le> 32) known_keys" by code_simp
  then show "k \<in> set known_keys \<Longrightarrow> ?thesis" by (auto simp: list_all_iff)
qed

lemma valid_known: "interface_valid k v \<Longrightarrow> k \<in> set known_keys" "peer_valid k v \<Longrightarrow> k \<in> set known_keys"
  by (auto simp: interface_valid_def peer_valid_def known_keys_def split: if_splits)

lemma trim_nil: "trim_space [] = []" by code_simp

lemma empty_invalid: "\<not> ParsePrefix []" "ParseAddr [] = None" "SplitHostPort [] = None"
  by code_simp+

lemma valid_nonempty: "interface_valid k v \<Longrightarrow> v \<noteq> []" "peer_valid k v \<Longrightarrow> v \<noteq> []"
  by (auto simp: interface_valid_def peer_valid_def validKey_def validNumber_def validPrefixes_def trim_nil empty_invalid split: if_splits)

lemma fields_snoc:
  assumes "fields_ok valid fs" and "valid k v" and "trim_space v = v" and "newline \<notin> set v" and "CHR ''#'' \<notin> set v" and "CHR 0x00 \<notin> set v"
    and "k \<in> set seen \<Longrightarrow> k \<in> set repeatable" and "set (map fst fs) \<subseteq> set seen"
  shows "fields_ok valid (fs @ [(k, v)])"
  using assms by (auto simp: fields_ok_def)

lemma has_snoc [simp]: "has a (fs @ [(k, v)]) \<longleftrightarrow> has a fs \<or> k = a"
  by (auto simp: has_def)

lemma profile_lines_field: "profile_lines t (fs @ [kv]) [] = profile_lines t fs [] @ [wg_field kv]"
  by (simp add: profile_lines_def peer_lines_def)

lemma profile_lines_peer: "profile_lines t fs (ps @ [p @ [kv]]) = profile_lines t fs (ps @ [p]) @ [wg_field kv]"
  "profile_lines t fs (ps @ [[]]) = profile_lines t fs ps @ [''[Peer]'']"
  by (simp_all add: profile_lines_def peer_lines_def)

lemma wg_inv_interfaceI:
  assumes "s\<lparr>wg_seen := []\<rparr> = wg_start\<lparr>wg_section := Interface, wg_seenInterface := True, wg_privateKey := has ''PrivateKey'' fs,
      wg_address := has ''Address'' fs, wg_lines := profile_lines ''off'' fs []\<rparr>"
    and "interface_ok fs" and "set (map fst fs) \<subseteq> set (wg_seen s)"
  shows "wg_inv s"
proof -
  have "wg_section s = Interface" using arg_cong[OF assms(1), of wg_section] by simp
  then show ?thesis using assms unfolding wg_inv_def by (auto intro!: exI[of _ fs])
qed

lemma wg_inv_peerI:
  assumes "s\<lparr>wg_seen := []\<rparr> = \<lparr>wg_section = Peer, wg_peers = length ps + 1, wg_seenInterface = True,
      wg_privateKey = has ''PrivateKey'' fs, wg_address = has ''Address'' fs, wg_peerKey = has ''PublicKey'' p,
      wg_allowed = has ''AllowedIPs'' p, wg_seen = [], wg_lines = profile_lines ''off'' fs (ps @ [p])\<rparr>"
    and "interface_ok fs" and "list_all (\<lambda>p. fields_ok peer_valid p \<and> has ''PublicKey'' p \<and> has ''AllowedIPs'' p) ps"
    and "fields_ok peer_valid p" and "set (map fst p) \<subseteq> set (wg_seen s)"
  shows "wg_inv s"
proof -
  have "wg_section s = Peer" using arg_cong[OF assms(1), of wg_section] by simp
  then show ?thesis using assms unfolding wg_inv_def by (simp only: wg_section.case) blast
qed

lemma snoc_seen: "set (map fst fs) \<subseteq> set seen \<Longrightarrow> set (map fst (fs @ [(k, v)])) \<subseteq> set (k # seen)"
  by (simp add: subset_insertI2)

lemma no_fields: "interface_ok []" "fields_ok valid []" "\<not> has k []"
  by (simp_all add: interface_ok_def fields_ok_def has_def)

lemma wg_inv_header:
  assumes "wg_inv s" and "wg_header line s = Inr s'"
  shows "wg_inv s'"
proof (cases "line = ''[Interface]''")
  case True
  then have sec: "wg_section s = Outside"
    using assms by (cases s; cases "wg_section s") (auto simp: wg_inv_def wg_header_def wg_start_def split: if_splits)
  then have "s = wg_start" using assms(1) by (simp add: wg_inv_def)
  then have "s' = wg_start\<lparr>wg_seenInterface := True, wg_section := Interface, wg_lines := profile_lines ''off'' [] []\<rparr>"
    using assms(2) True by (simp add: wg_header_def wg_start_def profile_lines_def peer_lines_def)
  then show ?thesis
    by (intro wg_inv_interfaceI[of _ "[]"]) (simp_all add: no_fields wg_start_def)
next
  case False
  then have line: "line = ''[Peer]''" "wg_seenInterface s" "wg_section s = Peer \<Longrightarrow> wg_peerKey s \<and> wg_allowed s"
    and s': "s' = s\<lparr>wg_peers := wg_peers s + 1, wg_section := Peer, wg_peerKey := False, wg_allowed := False, wg_seen := [],
          wg_lines := wg_lines s @ [''[Peer]'']\<rparr>"
    using assms(2) by (auto simp: wg_header_def split: if_splits)
  show ?thesis
  proof (cases "wg_section s")
    case Outside
    then show ?thesis using assms(1) line(2) by (simp add: wg_inv_def wg_start_def)
  next
    case Interface
    then obtain fs where "s\<lparr>wg_seen := []\<rparr> = wg_start\<lparr>wg_section := Interface, wg_seenInterface := True, wg_privateKey := has ''PrivateKey'' fs,
              wg_address := has ''Address'' fs, wg_lines := profile_lines ''off'' fs []\<rparr>" "interface_ok fs"
      using assms(1) by (auto simp: wg_inv_def)
    then show ?thesis unfolding s'
      by (cases s, intro wg_inv_peerI[of _ "[]" fs "[]"])
        (auto simp: wg_start_def profile_lines_peer(2)[of _ _ "[]", simplified] no_fields)
  next
    case Peer
    then obtain fs ps p where p: "s\<lparr>wg_seen := []\<rparr> = \<lparr>wg_section = Peer, wg_peers = length ps + 1, wg_seenInterface = True,
              wg_privateKey = has ''PrivateKey'' fs, wg_address = has ''Address'' fs, wg_peerKey = has ''PublicKey'' p,
              wg_allowed = has ''AllowedIPs'' p, wg_seen = [], wg_lines = profile_lines ''off'' fs (ps @ [p])\<rparr>"
        "interface_ok fs" "list_all (\<lambda>p. fields_ok peer_valid p \<and> has ''PublicKey'' p \<and> has ''AllowedIPs'' p) ps" "fields_ok peer_valid p"
      using assms(1) by (auto simp: wg_inv_def)
    have "profile_lines ''off'' fs (ps @ [p]) @ [''[Peer]''] = profile_lines ''off'' fs ((ps @ [p]) @ [[]])"
      by (simp only: profile_lines_peer(2))
    then show ?thesis using p line(3)[OF Peer] unfolding s'
      by (cases s, intro wg_inv_peerI[of _ "ps @ [p]" fs "[]"]) (auto simp: no_fields)
  qed
qed

lemma wg_inv_key:
  assumes "wg_inv s" and "wg_section s \<noteq> Outside" and "wg_key k v s = Inr s'" and "trim_space v = v" and "newline \<notin> set v"
    and "CHR ''#'' \<notin> set v" and "CHR 0x00 \<notin> set v"
  shows "wg_inv s'"
proof (cases "wg_section s")
  case Outside
  then show ?thesis using assms(2) by simp
next
  case Interface
  then obtain fs where fs: "s\<lparr>wg_seen := []\<rparr> = wg_start\<lparr>wg_section := Interface, wg_seenInterface := True, wg_privateKey := has ''PrivateKey'' fs,
              wg_address := has ''Address'' fs, wg_lines := profile_lines ''off'' fs []\<rparr>"
      "interface_ok fs" "set (map fst fs) \<subseteq> set (wg_seen s)"
    using assms(1) by (auto simp: wg_inv_def)
  have k: "k \<in> set (wg_seen s) \<Longrightarrow> k \<in> set repeatable" "interface_valid k v"
    using assms(3) Interface by (auto simp: wg_key_def Let_def split: if_splits)
  show ?thesis
  proof (cases "k = ''Table''")
    case True
    then have "s' = s\<lparr>wg_seen := k # wg_seen s\<rparr>" using assms(3) Interface
      by (cases s) (auto simp: wg_key_def Let_def split: if_splits)
    then show ?thesis using fs by (cases s, intro wg_inv_interfaceI[of _ fs]) (auto simp: wg_start_def)
  next
    case False
    then have s': "s' = s\<lparr>wg_seen := k # wg_seen s, wg_privateKey := wg_privateKey s \<or> k = ''PrivateKey'',
        wg_address := wg_address s \<or> k = ''Address'', wg_lines := wg_lines s @ [wg_field (k, v)]\<rparr>"
      using assms(3) Interface by (cases s) (auto simp: wg_key_def Let_def split: if_splits)
    have "interface_ok (fs @ [(k, v)])"
      unfolding interface_ok_def by (rule fields_snoc[where seen = "wg_seen s"]) (use fs k False assms(4-) in \<open>auto simp: interface_ok_def\<close>)
    then show ?thesis using fs(1,2) snoc_seen[OF fs(3), of k v] unfolding s'
      by (cases s, intro wg_inv_interfaceI[of _ "fs @ [(k, v)]"]) (simp_all add: wg_start_def profile_lines_field)
  qed
next
  case Peer
  then obtain fs ps p where p: "s\<lparr>wg_seen := []\<rparr> = \<lparr>wg_section = Peer, wg_peers = length ps + 1, wg_seenInterface = True,
              wg_privateKey = has ''PrivateKey'' fs, wg_address = has ''Address'' fs, wg_peerKey = has ''PublicKey'' p,
              wg_allowed = has ''AllowedIPs'' p, wg_seen = [], wg_lines = profile_lines ''off'' fs (ps @ [p])\<rparr>"
      "interface_ok fs" "list_all (\<lambda>p. fields_ok peer_valid p \<and> has ''PublicKey'' p \<and> has ''AllowedIPs'' p) ps" "fields_ok peer_valid p"
      "set (map fst p) \<subseteq> set (wg_seen s)"
    using assms(1) by (auto simp: wg_inv_def)
  have k: "k \<in> set (wg_seen s) \<Longrightarrow> k \<in> set repeatable" "peer_valid k v"
    and s': "s' = s\<lparr>wg_seen := k # wg_seen s, wg_peerKey := wg_peerKey s \<or> k = ''PublicKey'',
        wg_allowed := wg_allowed s \<or> k = ''AllowedIPs'', wg_lines := wg_lines s @ [wg_field (k, v)]\<rparr>"
    using assms(3) Peer by (auto simp: wg_key_def Let_def split: if_splits)
  have "fields_ok peer_valid (p @ [(k, v)])"
    by (rule fields_snoc[where seen = "wg_seen s"]) (use p k assms(4-) in auto)
  then show ?thesis using p(1-3) snoc_seen[OF p(5), of k v] unfolding s'
    by (cases s, intro wg_inv_peerI[of _ ps fs "p @ [(k, v)]"]) (simp_all add: profile_lines_peer(1))
qed

lemma cut_subset: "cut c s = (a, b, found) \<Longrightarrow> set b \<subseteq> set s"
  using set_mono_suffix[OF suffix_order.trans[OF suffix_tl suffix_dropWhile], of "\<lambda>x. x \<noteq> c" s]
  by (auto simp: cut_def split: if_splits)

lemma wg_inv_line:
  assumes "wg_inv s" and "wg_line raw s = Inr s'" and "newline \<notin> set raw" and "CHR 0x00 \<notin> set raw"
  shows "wg_inv s'"
proof -
  let ?cut = "takeWhile (\<lambda>c. c \<noteq> CHR ''#'') raw"
  let ?line = "trim_space ?cut"
  have line: "set ?line \<subseteq> set raw - {CHR ''#''}"
    using set_trim[of ?cut] set_takeWhileD[of _ "\<lambda>c. c \<noteq> CHR ''#''" raw] by auto
  obtain key val found where c: "cut (CHR ''='') ?line = (key, val, found)" by (cases "cut (CHR ''='') ?line") auto
  have "set val \<subseteq> set ?line" by (rule cut_subset[OF c])
  then have "set (trim_space val) \<subseteq> set raw - {CHR ''#''}" using set_trim[of val] line by blast
  then show ?thesis
    using assms c wg_inv_header[OF assms(1)] wg_inv_key[OF assms(1), of "trim_space key" "trim_space val" s'] trim_trim
    by (auto simp: wg_line_def Let_def split: if_splits)
qed

lemma wg_inv_run:
  "wg_inv s \<Longrightarrow> wg_run raws s = Inr s' \<Longrightarrow> \<forall>r \<in> set raws. newline \<notin> set r \<and> CHR 0x00 \<notin> set r \<Longrightarrow> wg_inv s'"
proof (induction raws arbitrary: s)
  case (Cons raw raws)
  then show ?case by (auto split: sum.splits dest: wg_inv_line)
qed simp

section \<open>A stored profile is accepted again\<close>

lemma wg_line_field:
  assumes "k \<in> set known_keys" and "trim_space v = v" and "v \<noteq> []" and "CHR ''#'' \<notin> set v" and "wg_section s \<noteq> Outside"
  shows "wg_line (wg_field (k, v)) s = wg_key k v s"
proof -
  note k = known_plain[OF assms(1)]
  define line where "line = k @ '' = '' @ v"
  have tw: "takeWhile (\<lambda>c. c \<noteq> CHR ''#'') line = line" using k assms(4) by (auto simp: takeWhile_eq_all_conv line_def)
  have "trim_space line = line" unfolding line_def by (rule trim_field) (use k assms in auto)
  moreover have "cut (CHR ''='') line = (k @ '' '', CHR '' '' # v, True)"
    using k by (auto simp: cut_def takeWhile_append dropWhile_append line_def)
  moreover have "trim_space (k @ '' '') = k" "trim_space (CHR '' '' # v) = v"
    using trim_space_after trim_space_before k assms(2) by auto
  moreover have "\<not> prefix ''['' line" "line \<noteq> []" using k by (cases k; auto simp: line_def)+
  moreover have "wg_field (k, v) = line" by (simp add: wg_field_def line_def)
  ultimately show ?thesis using assms(5) by (simp add: wg_line_def tw)
qed

lemma fields_cons:
  assumes "fields_ok valid ((k, v) # fs)"
  shows "valid k v" and "trim_space v = v" and "newline \<notin> set v" and "CHR ''#'' \<notin> set v" and "CHR 0x00 \<notin> set v"
    and "fields_ok valid fs" and "k \<in> fst ` set fs \<Longrightarrow> k \<in> set repeatable"
  using assms by (auto simp: fields_ok_def split: if_splits)

lemma has_cons: "has a ((k, v) # fs) \<longleftrightarrow> k = a \<or> has a fs"
  by (auto simp: has_def)

lemma run_interface:
  assumes "interface_ok fs" and "wg_section s = Interface"
    and "\<And>k. k \<in> fst ` set fs \<Longrightarrow> k \<in> set (wg_seen s) \<Longrightarrow> k \<in> set repeatable"
  shows "\<exists>seen. wg_run (map wg_field fs @ rest) s =
    wg_run rest (s\<lparr>wg_seen := seen, wg_privateKey := wg_privateKey s \<or> has ''PrivateKey'' fs,
      wg_address := wg_address s \<or> has ''Address'' fs, wg_lines := wg_lines s @ map wg_field fs\<rparr>)"
  using assms
proof (induction fs arbitrary: s)
  case Nil
  then show ?case by (auto simp: has_def intro!: exI[of _ "wg_seen s"])
next
  case (Cons kv fs)
  obtain k v where kv: "kv = (k, v)" by (cases kv)
  note f = fields_cons[OF Cons.prems(1)[unfolded kv interface_ok_def]]
  have "k \<in> set known_keys" "v \<noteq> []" using f(1) valid_known(1) valid_nonempty(1) by blast+
  moreover have "k \<in> set (wg_seen s) \<Longrightarrow> k \<in> set repeatable" using Cons.prems(3)[of k] kv by simp
  ultimately have "wg_line (wg_field (k, v)) s = Inr (s\<lparr>wg_seen := k # wg_seen s, wg_privateKey := wg_privateKey s \<or> k = ''PrivateKey'',
      wg_address := wg_address s \<or> k = ''Address'', wg_lines := wg_lines s @ [wg_field (k, v)]\<rparr>)" (is "_ = Inr ?s")
    using wg_line_field[of k v s] f(1,2,4) Cons.prems(2) known_plain[of k] by (cases s) (auto simp: wg_key_def Let_def)
  moreover have "a \<in> set repeatable" if "a \<in> fst ` set fs" "a \<in> set (wg_seen ?s)" for a
    using that f(7) Cons.prems(3)[of a] kv by (cases s) auto
  ultimately show ?case
    using Cons.IH[of ?s] f(6) Cons.prems(2) kv by (cases s) (auto simp: interface_ok_def has_cons disj_assoc)
qed

lemma run_peer:
  assumes "fields_ok peer_valid fs" and "wg_section s = Peer"
    and "\<And>k. k \<in> fst ` set fs \<Longrightarrow> k \<in> set (wg_seen s) \<Longrightarrow> k \<in> set repeatable"
  shows "\<exists>seen. wg_run (map wg_field fs @ rest) s =
    wg_run rest (s\<lparr>wg_seen := seen, wg_peerKey := wg_peerKey s \<or> has ''PublicKey'' fs,
      wg_allowed := wg_allowed s \<or> has ''AllowedIPs'' fs, wg_lines := wg_lines s @ map wg_field fs\<rparr>)"
  using assms
proof (induction fs arbitrary: s)
  case Nil
  then show ?case by (auto simp: has_def intro!: exI[of _ "wg_seen s"])
next
  case (Cons kv fs)
  obtain k v where kv: "kv = (k, v)" by (cases kv)
  note f = fields_cons[OF Cons.prems(1)[unfolded kv]]
  have "k \<in> set known_keys" "v \<noteq> []" using f(1) valid_known(2) valid_nonempty(2) by blast+
  moreover have "k \<in> set (wg_seen s) \<Longrightarrow> k \<in> set repeatable" using Cons.prems(3)[of k] kv by simp
  ultimately have "wg_line (wg_field (k, v)) s = Inr (s\<lparr>wg_seen := k # wg_seen s, wg_peerKey := wg_peerKey s \<or> k = ''PublicKey'',
      wg_allowed := wg_allowed s \<or> k = ''AllowedIPs'', wg_lines := wg_lines s @ [wg_field (k, v)]\<rparr>)" (is "_ = Inr ?s")
    using wg_line_field[of k v s] f(1,2,4) Cons.prems(2) known_plain[of k] by (cases s) (auto simp: wg_key_def Let_def)
  moreover have "a \<in> set repeatable" if "a \<in> fst ` set fs" "a \<in> set (wg_seen ?s)" for a
    using that f(7) Cons.prems(3)[of a] kv by (cases s) auto
  ultimately show ?case
    using Cons.IH[of ?s] f(6) Cons.prems(2) kv by (cases s) (auto simp: has_cons disj_assoc)
qed

lemma wg_line_header: "l \<in> {''[Interface]'', ''[Peer]''} \<Longrightarrow> wg_line l s = wg_header l s"
proof -
  have "list_all (\<lambda>l. trim_space (takeWhile (\<lambda>c. c \<noteq> CHR ''#'') l) = l \<and> l \<noteq> [] \<and> prefix ''['' l) [''[Interface]'', ''[Peer]'']"
    by code_simp
  then show "l \<in> {''[Interface]'', ''[Peer]''} \<Longrightarrow> ?thesis" by (auto simp: wg_line_def Let_def)
qed

text \<open>The peers of a profile.\<close>

lemma run_peers:
  assumes "list_all (\<lambda>p. fields_ok peer_valid p \<and> has ''PublicKey'' p \<and> has ''AllowedIPs'' p) ps" and "wg_seenInterface s"
    and "wg_section s = Interface \<or> wg_section s = Peer \<and> wg_peerKey s \<and> wg_allowed s"
  shows "\<exists>s'. wg_run (peer_lines ps @ rest) s = wg_run rest s' \<and> wg_privateKey s' = wg_privateKey s \<and> wg_address s' = wg_address s \<and>
    wg_peers s' = wg_peers s + length ps \<and> wg_lines s' = wg_lines s @ peer_lines ps \<and> (ps \<noteq> [] \<longrightarrow> wg_peerKey s' \<and> wg_allowed s')"
  using assms
proof (induction ps arbitrary: s)
  case Nil
  then show ?case by (auto simp: peer_lines_def)
next
  case (Cons p ps)
  let ?s = "s\<lparr>wg_peers := wg_peers s + 1, wg_section := Peer, wg_peerKey := False, wg_allowed := False, wg_seen := [], wg_lines := wg_lines s @ [''[Peer]'']\<rparr>"
  have head: "wg_line ''[Peer]'' s = Inr ?s" using Cons.prems by (auto simp: wg_line_header wg_header_def)
  obtain seen where body: "wg_run (map wg_field p @ peer_lines ps @ rest) ?s =
      wg_run (peer_lines ps @ rest) (?s\<lparr>wg_seen := seen, wg_peerKey := True, wg_allowed := True, wg_lines := wg_lines ?s @ map wg_field p\<rparr>)"
    (is "_ = wg_run _ ?t") using run_peer[of p ?s "peer_lines ps @ rest"] Cons.prems(1) by auto
  obtain s' where "wg_run (peer_lines ps @ rest) ?t = wg_run rest s'" "wg_privateKey s' = wg_privateKey s" "wg_address s' = wg_address s"
      "wg_peers s' = wg_peers s + length (p # ps)" "wg_lines s' = wg_lines s @ peer_lines (p # ps)" "ps \<noteq> [] \<longrightarrow> wg_peerKey s' \<and> wg_allowed s'"
    and last: "ps = [] \<Longrightarrow> wg_peerKey s' \<and> wg_allowed s'"
  proof (cases "ps = []")
    case True
    then show ?thesis by (intro that[of ?t]) (simp_all add: peer_lines_def)
  next
    case False
    then show ?thesis using Cons.IH[of ?t] Cons.prems that by (auto simp: peer_lines_def)
  qed
  moreover have "wg_run (peer_lines (p # ps) @ rest) s = wg_run (peer_lines ps @ rest) ?t"
    using head body by (simp add: peer_lines_def)
  ultimately show ?case using last by (intro exI[of _ s']) auto
qed

lemma wg_line_table: "t \<in> {''off'', ''auto''} \<Longrightarrow> wg_section s = Interface \<Longrightarrow> wg_seen s = [] \<Longrightarrow>
  wg_line (''Table = '' @ t) s = Inr (s\<lparr>wg_seen := [''Table'']\<rparr>)"
proof -
  assume t: "t \<in> {''off'', ''auto''}" and s: "wg_section s = Interface" "wg_seen s = []"
  have "list_all (\<lambda>v. trim_space v = v \<and> interface_valid ''Table'' v) [''off'', ''auto'']" by code_simp
  then have v: "trim_space t = t" "interface_valid ''Table'' t" using t by auto
  have "wg_line (wg_field (''Table'', t)) s = wg_key ''Table'' t s"
    by (rule wg_line_field) (use t s v in \<open>auto simp: known_keys_def\<close>)
  then show ?thesis using s v by (cases s) (simp add: wg_field_def wg_key_def Let_def)
qed

lemma run_profile:
  assumes "profile_ok fs ps" and "t \<in> {''off'', ''auto''}"
  shows "\<exists>s. wg_run (profile_lines t fs ps @ [[]]) wg_start = Inr s \<and> wg_lines s = profile_lines ''off'' fs ps \<and>
    wg_privateKey s \<and> wg_address s \<and> wg_peers s \<noteq> 0 \<and> wg_peerKey s \<and> wg_allowed s"
proof -
  let ?s1 = "wg_start\<lparr>wg_seenInterface := True, wg_section := Interface, wg_seen := [], wg_lines := [''[Interface]'', ''Table = off'']\<rparr>"
  let ?s2 = "?s1\<lparr>wg_seen := [''Table'']\<rparr>"
  have "wg_line ''[Interface]'' wg_start = Inr ?s1" by (simp add: wg_line_header wg_header_def wg_start_def)
  moreover have "wg_line (''Table = '' @ t) ?s1 = Inr ?s2" using wg_line_table[OF assms(2), of ?s1] by simp
  ultimately have start: "wg_run (profile_lines t fs ps @ [[]]) wg_start = wg_run (map wg_field fs @ peer_lines ps @ [[]]) ?s2"
    by (simp add: profile_lines_def)
  have ok: "interface_ok fs" "has ''PrivateKey'' fs" "has ''Address'' fs" "ps \<noteq> []"
    "list_all (\<lambda>p. fields_ok peer_valid p \<and> has ''PublicKey'' p \<and> has ''AllowedIPs'' p) ps"
    using assms(1) by (auto simp: profile_ok_def)
  have "k \<noteq> ''Table''" if "k \<in> fst ` set fs" for k
    using ok(1) that by (auto simp: interface_ok_def fields_ok_def list_all_iff)
  then obtain seen where "wg_run (map wg_field fs @ peer_lines ps @ [[]]) ?s2 = wg_run (peer_lines ps @ [[]])
      (?s2\<lparr>wg_seen := seen, wg_privateKey := True, wg_address := True, wg_lines := wg_lines ?s2 @ map wg_field fs\<rparr>)" (is "_ = wg_run _ ?s3")
    using run_interface[OF ok(1), of ?s2 "peer_lines ps @ [[]]"] ok(2,3) by auto
  moreover obtain s where "wg_run (peer_lines ps @ [[]]) ?s3 = wg_run [[]] s" "wg_privateKey s" "wg_address s" "wg_peers s = length ps"
      "wg_lines s = profile_lines ''off'' fs ps" "wg_peerKey s" "wg_allowed s"
    using run_peers[OF ok(5), of ?s3 "[[]]"] ok(4) by (auto simp: profile_lines_def wg_start_def)
  moreover have "wg_run [[]] s = Inr s" by (simp add: wg_line_def trim_nil)
  ultimately show ?thesis using start ok(4) by auto
qed

lemma split_text:
  assumes "\<And>l. l \<in> set ls \<Longrightarrow> newline \<notin> set l" and "ls \<noteq> []"
  shows "split_on newline (join_with newline ls @ [newline]) = ls @ [[]]"
proof -
  have "join_with newline ls @ [newline] = join_with newline (ls @ [[]])"
    using assms(2) by (induction newline ls rule: join_with.induct) auto
  moreover have "split_on newline (join_with newline (ls @ [[]])) = ls @ [[]]" by (rule split_join) (use assms in auto)
  ultimately show ?thesis by simp
qed

lemma field_plain: "fields_ok valid fs \<Longrightarrow> (k, v) \<in> set fs \<Longrightarrow> valid k v \<and> newline \<notin> set v \<and> CHR 0x00 \<notin> set v"
  by (auto simp: fields_ok_def list_all_iff)

lemma profile_plain:
  assumes "profile_ok fs ps" and "t \<in> {''off'', ''auto''}" and "l \<in> set (profile_lines t fs ps)"
  shows "newline \<notin> set l \<and> CHR 0x00 \<notin> set l"
proof -
  have field: "newline \<notin> set (wg_field (k, v)) \<and> CHR 0x00 \<notin> set (wg_field (k, v))"
    if "k \<in> set known_keys" "newline \<notin> set v" "CHR 0x00 \<notin> set v" for k v
    using that known_plain[of k] by (auto simp: wg_field_def newline_def)
  have "newline \<notin> set (wg_field (k, v)) \<and> CHR 0x00 \<notin> set (wg_field (k, v))" if "(k, v) \<in> set fs" for k v
    using field_plain[OF _ that] assms(1) field[of k v] valid_known(1)[of k v] by (auto simp: profile_ok_def interface_ok_def)
  moreover have "newline \<notin> set (wg_field (k, v)) \<and> CHR 0x00 \<notin> set (wg_field (k, v))" if "p \<in> set ps" "(k, v) \<in> set p" for p k v
    using field_plain[OF _ that(2), of peer_valid] that(1) assms(1) field[of k v] valid_known(2)[of k v] by (auto simp: profile_ok_def list_all_iff)
  moreover have "newline \<notin> set m \<and> CHR 0x00 \<notin> set m" if "m \<in> {''[Interface]'', ''[Peer]'', ''Table = '' @ t}" for m
    using that assms(2) by (auto simp: newline_def)
  moreover have "l \<in> {''[Interface]'', ''[Peer]'', ''Table = '' @ t} \<or> (\<exists>k v. l = wg_field (k, v) \<and> (k, v) \<in> set fs) \<or>
      (\<exists>p k v. l = wg_field (k, v) \<and> p \<in> set ps \<and> (k, v) \<in> set p)"
    using assms(3) by (auto simp: profile_lines_def peer_lines_def split: if_splits)
  ultimately show ?thesis by blast
qed

lemma Validate_text:
  assumes "profile_ok fs ps" and "t \<in> {''off'', ''auto''}" and "length (profile_text t fs ps) \<le> wg_limit"
  shows "Validate (profile_text t fs ps) = Inr (profile_text ''off'' fs ps)"
proof -
  have "CHR 0x00 \<notin> set (profile_text t fs ps)"
    using profile_plain[OF assms(1,2)] set_join[of "CHR 0x00" newline] by (auto simp: profile_text_def newline_def)
  moreover have "split_on newline (profile_text t fs ps) = profile_lines t fs ps @ [[]]"
    unfolding profile_text_def using profile_plain[OF assms(1,2)] by (intro split_text) (auto simp: profile_lines_def)
  ultimately show ?thesis
    using run_profile[OF assms(1,2)] assms(3) by (auto simp: Validate_def profile_text_def[of "''off''"])
qed

lemma replace_table:
  "replace_first (''Table = off'' @ [newline]) (''Table = auto'' @ [newline]) (profile_text ''off'' fs ps) = profile_text ''auto'' fs ps"
proof -
  have "profile_text t fs ps = ''[Interface]'' @ [newline] @ ''Table = '' @ t @ [newline] @
      (if map wg_field fs @ peer_lines ps = [] then [] else join_with newline (map wg_field fs @ peer_lines ps) @ [newline])" for t
    by (cases "map wg_field fs @ peer_lines ps") (simp_all add: profile_text_def profile_lines_def)
  then show ?thesis by (simp add: newline_def)
qed

text \<open>
  C37. What \<open>wg-quick\<close> is given: an accepted profile is one interface with its own routing off and its peers, every field one of the listed keys with a
  checked value on a line of its own, so no hook that runs a command; keys that may not repeat do not, the interface has a key and an address and every peer a key and
  its addresses. A stored profile that fits the limit is accepted again when it is started, with either routing choice stored and either asked for, and only its routing
  line changes.
\<close>

theorem wireguard_profile_safe:
  assumes "Validate data = Inr c"
  shows "\<exists>fs ps. profile_ok fs ps \<and> c = profile_text ''off'' fs ps \<and>
    (\<forall>t route. t \<in> {''off'', ''auto''} \<and> length (profile_text t fs ps) \<le> wg_limit \<longrightarrow>
      profileConfig (profile_text t fs ps) route = Inr (profile_text (if route then ''auto'' else ''off'') fs ps))"
proof -
  obtain s where s: "wg_run (split_on newline data) wg_start = Inr s" "wg_privateKey s" "wg_address s" "wg_peers s \<noteq> 0" "wg_peerKey s"
      "wg_allowed s" "c = join_with newline (wg_lines s) @ [newline]" "CHR 0x00 \<notin> set data"
    using assms by (auto simp: Validate_def split: if_splits sum.splits)
  have "newline \<notin> set r \<and> CHR 0x00 \<notin> set r" if "r \<in> set (split_on newline data)" for r
    using that s(8) split_on_parts split_on_subset[OF that] by blast
  then have inv: "wg_inv s" using wg_inv_run[OF _ s(1)] by (simp add: wg_inv_def wg_start_def)
  then have "wg_section s = Peer" using s(4) by (cases s; cases "wg_section s") (auto simp: wg_inv_def wg_start_def)
  then obtain fs ps p where p: "s\<lparr>wg_seen := []\<rparr> = \<lparr>wg_section = Peer, wg_peers = length ps + 1, wg_seenInterface = True,
              wg_privateKey = has ''PrivateKey'' fs, wg_address = has ''Address'' fs, wg_peerKey = has ''PublicKey'' p,
              wg_allowed = has ''AllowedIPs'' p, wg_seen = [], wg_lines = profile_lines ''off'' fs (ps @ [p])\<rparr>"
        "interface_ok fs" "list_all (\<lambda>p. fields_ok peer_valid p \<and> has ''PublicKey'' p \<and> has ''AllowedIPs'' p) ps" "fields_ok peer_valid p"
    using inv by (auto simp: wg_inv_def)
  then have "profile_ok fs (ps @ [p])" "c = profile_text ''off'' fs (ps @ [p])"
    using s by (cases s; auto simp: profile_ok_def profile_text_def)+
  then show ?thesis
    using Validate_text replace_table by (intro exI[of _ fs] exI[of _ "ps @ [p]"]) (auto simp: profileConfig_def)
qed

lemma sample_wg_accepted: "\<exists>c. Validate sample_wg = Inr c"
proof -
  have "case wg_run (split_on newline sample_wg) wg_start of Inl _ \<Rightarrow> False
    | Inr s \<Rightarrow> wg_privateKey s \<and> wg_address s \<and> wg_peers s \<noteq> 0 \<and> wg_peerKey s \<and> wg_allowed s" by code_simp
  moreover have "length sample_wg \<le> wg_limit" "CHR 0x00 \<notin> set sample_wg"
    by (simp_all add: sample_wg_def wg_limit_def newline_def)
  ultimately show ?thesis by (auto simp: Validate_def split: sum.splits)
qed

theorem wireguard_profile_safe_witness:
  "\<exists>c fs ps. Validate sample_wg = Inr c \<and> profile_ok fs ps \<and> c = profile_text ''off'' fs ps"
  using sample_wg_accepted wireguard_profile_safe[of sample_wg] by blast

end
