(* ===== verification/Gateway_Routes.thy ===== *)
theory Gateway_Routes
  imports Go_Lines "HOL-Library.List_Lexorder" "HOL-Library.Product_Lexorder" "HOL-Library.Multiset"
begin

text \<open>
  The default routes of the device: \<open>service/network/gateway.go\<close>, which gives every gateway the metric of the
  preferred connection, and the part of \<open>gateway_check.go\<close> that moves the route of a gateway that does not answer behind the others
  and back. The kernel's table is the state; every command may fail, and the tables after each command are recorded,
  because the device is reachable only while its gateways keep a route.
\<close>

section \<open>The table of the kernel\<close>

record GatewayRoute =
  gr_Interface :: string
  gr_Gateway :: string
  gr_Metric :: int

text \<open>
  The state: the default routes of the main table, the file per interface that holds the metric of a demoted route, the preference, the
  commands and writes that will fail, and the tables so far.
\<close>

record net =
  nt_routes :: "GatewayRoute list"
  nt_demoted :: "string \<rightharpoonup> int"
  nt_preference :: string
  nt_faults :: "bool list"
  nt_tables :: "GatewayRoute list list"

type_synonym gateway = "string \<times> string"

definition gateway_of :: "GatewayRoute \<Rightarrow> gateway" where
  "gateway_of r = (gr_Interface r, gr_Gateway r)"

definition with_metric :: "gateway \<Rightarrow> int \<Rightarrow> GatewayRoute" where
  "with_metric g m = \<lparr>gr_Interface = fst g, gr_Gateway = snd g, gr_Metric = m\<rparr>"

text \<open>A command or a write that fails if it is to fail.\<close>

definition attempt :: "(net \<Rightarrow> bool \<times> net) \<Rightarrow> net \<Rightarrow> bool \<times> net" where
  "attempt f s =
     (case nt_faults s of
        [] \<Rightarrow> f s
      | fault # fs \<Rightarrow> if fault then (False, s\<lparr>nt_faults := fs\<rparr>) else f (s\<lparr>nt_faults := fs\<rparr>))"

definition set_routes :: "GatewayRoute list \<Rightarrow> net \<Rightarrow> net" where
  "set_routes rs s = s\<lparr>nt_routes := rs, nt_tables := nt_tables s @ [rs]\<rparr>"

text \<open>\<open>ip route add\<close>, \<open>replace\<close> and \<open>del\<close> of a default route: a default route is keyed by its metric.\<close>

definition addGatewayRoute :: "gateway \<Rightarrow> int \<Rightarrow> net \<Rightarrow> bool \<times> net" where
  "addGatewayRoute g m = attempt (\<lambda>s.
     if m \<in> gr_Metric ` set (nt_routes s) then (False, s)
     else (True, set_routes (insort_key gr_Metric (with_metric g m) (nt_routes s)) s))"

fun replace_metric :: "gateway \<Rightarrow> int \<Rightarrow> GatewayRoute list \<Rightarrow> GatewayRoute list" where
  "replace_metric g m [] = []"
| "replace_metric g m (r # rs) = (if gr_Metric r = m then with_metric g m # rs else r # replace_metric g m rs)"

definition setGatewayRoute :: "gateway \<Rightarrow> int \<Rightarrow> net \<Rightarrow> bool \<times> net" where
  "setGatewayRoute g m = attempt (\<lambda>s.
     (True, set_routes (if m \<in> gr_Metric ` set (nt_routes s) then replace_metric g m (nt_routes s)
        else insort_key gr_Metric (with_metric g m) (nt_routes s)) s))"

definition deleteGatewayRoute :: "gateway \<Rightarrow> int \<Rightarrow> net \<Rightarrow> bool \<times> net" where
  "deleteGatewayRoute g m = attempt (\<lambda>s.
     if with_metric g m \<in> set (nt_routes s) then (True, set_routes (remove1 (with_metric g m) (nt_routes s)) s) else (False, s))"

section \<open>Reading the table\<close>

definition isGatewayInterface :: "string \<Rightarrow> bool" where
  "isGatewayInterface i \<longleftrightarrow> prefix ''eth'' i \<or> prefix ''wlan'' i"

definition gatewayKind :: "string \<Rightarrow> string" where
  "gatewayKind i = (if prefix ''eth'' i then ''ethernet'' else if prefix ''wlan'' i then ''wifi'' else [])"

definition managed :: "GatewayRoute \<Rightarrow> bool" where
  "managed r \<longleftrightarrow> gr_Gateway r \<noteq> [] \<and> isGatewayInterface (gr_Interface r)"

definition defaultGatewayEntries :: "net \<Rightarrow> GatewayRoute list" where
  "defaultGatewayEntries s = filter managed (nt_routes s)"

definition occupiedMetrics :: "net \<Rightarrow> int list" where
  "occupiedMetrics s = map gr_Metric (nt_routes s)"

fun unique_from :: "gateway list \<Rightarrow> GatewayRoute list \<Rightarrow> GatewayRoute list" where
  "unique_from seen [] = []"
| "unique_from seen (r # rs) =
     (if gateway_of r \<in> set seen then unique_from seen rs else r # unique_from (gateway_of r # seen) rs)"

definition uniqueGatewayRoutes :: "GatewayRoute list \<Rightarrow> GatewayRoute list" where
  "uniqueGatewayRoutes rs = unique_from [] rs"

definition preferenceMetric :: "string \<Rightarrow> string \<Rightarrow> nat \<Rightarrow> int" where
  "preferenceMetric preferred iface index =
     (if preferred = ''auto'' then 100 + int index else if gatewayKind iface = preferred then 10 + int index else 200 + int index)"

definition gatewayDemotedMetric :: int where "gatewayDemotedMetric = 900"

definition demotedOriginal :: "string \<Rightarrow> net \<Rightarrow> int option" where
  "demotedOriginal iface s = nt_demoted s iface"

definition writeDemotedOriginal :: "string \<Rightarrow> int \<Rightarrow> net \<Rightarrow> bool \<times> net" where
  "writeDemotedOriginal iface m = attempt (\<lambda>s. (True, s\<lparr>nt_demoted := (nt_demoted s)(iface \<mapsto> m)\<rparr>))"

definition removeDemoted :: "string \<Rightarrow> net \<Rightarrow> bool \<times> net" where
  "removeDemoted iface = attempt (\<lambda>s. (True, s\<lparr>nt_demoted := (nt_demoted s)(iface := None)\<rparr>))"

section \<open>Applying the preference\<close>

function first_free :: "int list \<Rightarrow> int \<Rightarrow> int" where
  "first_free used m = (if m \<in> set used then first_free used (m + 1) else m)"
  by pat_completeness auto
termination
proof (relation "measure (\<lambda>(used, m). card (set used \<inter> {m..}))", simp)
  fix used :: "int list" and m
  assume "m \<in> set used"
  then have "set used \<inter> {m + 1..} \<subseteq> set used \<inter> {m..}" "m \<in> set used \<inter> {m..}" "m \<notin> set used \<inter> {m + 1..}" by auto
  then have "set used \<inter> {m + 1..} \<subset> set used \<inter> {m..}" by blast
  then show "((used, m + 1), (used, m)) \<in> measure (\<lambda>(used, m). card (set used \<inter> {m..}))"
    by (simp add: psubset_card_mono)
qed

declare first_free.simps [simp del]

text \<open>The metric every gateway shall have; \<open>taken\<close> and \<open>used\<close> as the loop has them.\<close>

fun desired_metrics :: "string \<Rightarrow> int list \<Rightarrow> nat \<Rightarrow> GatewayRoute list \<Rightarrow> int list \<Rightarrow> int list \<Rightarrow> net \<Rightarrow> (string + int list \<times> int list) \<times> net" where
  "desired_metrics preferred managed' index [] taken used s = (Inr ([], used), s)"
| "desired_metrics preferred managed' index (r # rs) taken used s =
     (let metric = preferenceMetric preferred (gr_Interface r) index;
          (ok, s1) = (case demotedOriginal (gr_Interface r) s of None \<Rightarrow> (True, s) | Some _ \<Rightarrow> writeDemotedOriginal (gr_Interface r) metric s);
          metric = (case demotedOriginal (gr_Interface r) s of None \<Rightarrow> metric | Some _ \<Rightarrow> gatewayDemotedMetric);
          metric = first_free (taken @ filter (\<lambda>m. m \<notin> set managed') used) metric
      in if \<not> ok then (Inl (gr_Interface r), s1)
         else case desired_metrics preferred managed' (Suc index) rs (metric # taken) (metric # used) s1 of
           (Inl e, s2) \<Rightarrow> (Inl e, s2)
         | (Inr (ms, used'), s2) \<Rightarrow> (Inr (metric # ms, used'), s2))"

definition metricsOf :: "GatewayRoute list \<Rightarrow> gateway \<Rightarrow> int list" where
  "metricsOf entries g = map gr_Metric (filter (\<lambda>e. gateway_of e = g) entries)"

text \<open>At most 16 attempts to add the route at an unused metric.\<close>

fun try_add :: "nat \<Rightarrow> gateway \<Rightarrow> int list \<Rightarrow> int \<Rightarrow> net \<Rightarrow> bool \<times> int list \<times> int \<times> net" where
  "try_add 0 g used next s = (False, used, next, s)"
| "try_add (Suc n) g used next s =
     (let next = first_free used next; used = next # used in
      case addGatewayRoute g next s of
        (True, s1) \<Rightarrow> (True, used, next, s1)
      | (False, s1) \<Rightarrow> try_add n g used next s1)"

fun delete_all :: "gateway \<Rightarrow> int list \<Rightarrow> net \<Rightarrow> bool \<times> net" where
  "delete_all g [] s = (True, s)"
| "delete_all g (m # ms) s = (case deleteGatewayRoute g m s of (True, s1) \<Rightarrow> delete_all g ms s1 | (False, s1) \<Rightarrow> (False, s1))"

text \<open>Every gateway that is not in its place yet moves to a metric nobody uses.\<close>

fun move_away :: "GatewayRoute list \<Rightarrow> (gateway \<times> int) list \<Rightarrow> int list \<Rightarrow> int \<Rightarrow> net \<Rightarrow> (string + int list) \<times> net" where
  "move_away entries [] used next s = (Inr [], s)"
| "move_away entries ((g, want) # rest) used next s =
     (let old = metricsOf entries g in
      if old = [want]
      then (case move_away entries rest used next s of (Inl e, s1) \<Rightarrow> (Inl e, s1) | (Inr cur, s1) \<Rightarrow> (Inr (want # cur), s1))
      else case try_add 16 g used next s of
        (False, used', next', s1) \<Rightarrow> (Inl (fst g), s1)
      | (True, used', next', s1) \<Rightarrow>
          (case delete_all g old s1 of
             (False, s2) \<Rightarrow> (Inl (fst g), s2)
           | (True, s2) \<Rightarrow>
               (case move_away entries rest used' next' s2 of (Inl e, s3) \<Rightarrow> (Inl e, s3) | (Inr cur, s3) \<Rightarrow> (Inr (next' # cur), s3))))"

text \<open>And from there to its place.\<close>

fun move_in :: "((gateway \<times> int) \<times> int) list \<Rightarrow> net \<Rightarrow> (string + unit) \<times> net" where
  "move_in [] s = (Inr (), s)"
| "move_in (((g, want), current') # rest) s =
     (if current' = want then move_in rest s
      else case setGatewayRoute g want s of
        (False, s1) \<Rightarrow> (Inl (fst g), s1)
      | (True, s1) \<Rightarrow> (case deleteGatewayRoute g current' s1 of (False, s2) \<Rightarrow> (Inl (fst g), s2) | (True, s2) \<Rightarrow> move_in rest s2))"

definition route_order :: "GatewayRoute \<Rightarrow> nat list \<times> nat list" where
  "route_order r = (map of_char (gr_Interface r), map of_char (gr_Gateway r))"

definition applyGatewayPreference :: "string \<Rightarrow> GatewayRoute list \<Rightarrow> net \<Rightarrow> (string + unit) \<times> net" where
  "applyGatewayPreference preferred entries s =
     (let routes = sort_key route_order (uniqueGatewayRoutes entries);
          managed' = map gr_Metric entries;
          used = occupiedMetrics s @ managed'
      in case desired_metrics preferred managed' 0 routes [] used s of
           (Inl e, s1) \<Rightarrow> (Inl e, s1)
         | (Inr (desired, used'), s1) \<Rightarrow>
             (let places = zip (map gateway_of routes) desired in
              case move_away entries places used' 1000 s1 of
                (Inl e, s2) \<Rightarrow> (Inl e, s2)
              | (Inr current', s2) \<Rightarrow> move_in (zip places current') s2))"

definition SetGatewayPreference :: "string \<Rightarrow> net \<Rightarrow> (string + unit) \<times> net" where
  "SetGatewayPreference preferred s =
     (if preferred \<notin> {''auto'', ''ethernet'', ''wifi''} then (Inl [], s)
      else case attempt (\<lambda>s. (True, s\<lparr>nt_preference := preferred\<rparr>)) s of
        (False, s1) \<Rightarrow> (Inl [], s1)
      | (True, s1) \<Rightarrow> applyGatewayPreference preferred (defaultGatewayEntries s1) s1)"

section \<open>Moving a route behind the others and back\<close>

definition isDemotedMetric :: "int \<Rightarrow> bool" where
  "isDemotedMetric m \<longleftrightarrow> gatewayDemotedMetric \<le> m \<and> m < 1000"

text \<open>The first metric from \<open>from\<close> at which the route can be added; \<open>err\<close> if an addition has failed.\<close>

function move_from :: "gateway \<Rightarrow> GatewayRoute list \<Rightarrow> int list \<Rightarrow> int \<Rightarrow> int \<Rightarrow> net \<Rightarrow> int option \<times> bool \<times> net" where
  "move_from g entries used metric limit s =
     (if metric \<ge> limit then (None, False, s)
      else if metric \<in> set used then move_from g entries used (metric + 1) limit s
      else case addGatewayRoute g metric s of
        (False, s1) \<Rightarrow> move_from g entries used (metric + 1) limit s1
      | (True, s1) \<Rightarrow>
          (case delete_all g (filter (\<lambda>m. m \<noteq> metric) (metricsOf entries g)) s1 of (ok, s2) \<Rightarrow> (Some metric, ok, s2)))"
  by pat_completeness auto
termination
  by (relation "measure (\<lambda>(g, entries, used, metric, limit, s). nat (limit - metric))") auto

declare move_from.simps [simp del]

definition moveGatewayRoute :: "gateway \<Rightarrow> GatewayRoute list \<Rightarrow> int \<Rightarrow> int \<Rightarrow> net \<Rightarrow> bool \<times> net" where
  "moveGatewayRoute g entries from limit s =
     (case move_from g entries (occupiedMetrics s @ map gr_Metric entries) from limit s of
        (None, _, s1) \<Rightarrow> (False, s1)
      | (Some _, ok, s1) \<Rightarrow> (ok, s1))"

definition demoteGateway :: "GatewayRoute \<Rightarrow> GatewayRoute list \<Rightarrow> net \<Rightarrow> bool \<times> net" where
  "demoteGateway r entries s =
     (case writeDemotedOriginal (gr_Interface r) (gr_Metric r) s of
        (False, s1) \<Rightarrow> (False, s1)
      | (True, s1) \<Rightarrow> moveGatewayRoute (gateway_of r) entries gatewayDemotedMetric 1000 s1)"

definition readGatewayPreference :: "net \<Rightarrow> string" where
  "readGatewayPreference s =
     (let v = trim_space (nt_preference s) in if v \<in> {''ethernet'', ''wifi'', ''auto''} then v else ''auto'')"

definition restoreGateway :: "GatewayRoute \<Rightarrow> GatewayRoute list \<Rightarrow> net \<Rightarrow> bool \<times> net" where
  "restoreGateway r entries s =
     (let original = (case demotedOriginal (gr_Interface r) s of
          Some m \<Rightarrow> if isDemotedMetric m then preferenceMetric (readGatewayPreference s) (gr_Interface r) 0 else m
        | None \<Rightarrow> preferenceMetric (readGatewayPreference s) (gr_Interface r) 0)
      in case moveGatewayRoute (gateway_of r) entries original gatewayDemotedMetric s of
           (False, s1) \<Rightarrow> (False, s1)
         | (True, s1) \<Rightarrow> removeDemoted (gr_Interface r) s1)"

text \<open>The gateways of a table, and the routes of other interfaces.\<close>

definition gateways :: "GatewayRoute list \<Rightarrow> gateway set" where
  "gateways rs = gateway_of ` set (filter managed rs)"

definition others :: "GatewayRoute list \<Rightarrow> GatewayRoute list" where
  "others rs = filter (\<lambda>r. \<not> managed r) rs"

text \<open>A table in which every gateway still has a route and the routes of other interfaces are as before.\<close>

definition keeps :: "GatewayRoute list \<Rightarrow> GatewayRoute list \<Rightarrow> bool" where
  "keeps before rs \<longleftrightarrow> gateways rs = gateways before \<and> mset (others rs) = mset (others before) \<and> distinct (map gr_Metric rs)"

definition keeps_all :: "GatewayRoute list \<Rightarrow> net \<Rightarrow> bool" where
  "keeps_all before s \<longleftrightarrow> keeps before (nt_routes s) \<and> list_all (keeps before) (nt_tables s)"

definition placed :: "((gateway \<times> int) \<times> int) list \<Rightarrow> GatewayRoute set" where
  "placed zs = (\<lambda>((g, w), c). with_metric g c) ` set zs"

text \<open>The result of \<open>move_away\<close>: it keeps every gateway, and when it succeeds every gateway has exactly the route it was given.\<close>

definition moved_away :: "GatewayRoute list \<Rightarrow> GatewayRoute set \<Rightarrow> (gateway \<times> int) list \<Rightarrow> int list \<Rightarrow> net \<Rightarrow> (string + int list) \<Rightarrow> net \<Rightarrow> bool" where
  "moved_away B Rest places used s r s' \<longleftrightarrow>
     keeps_all B s' \<and> nt_demoted s' = nt_demoted s \<and>
     (\<forall>cur. r = Inr cur \<longrightarrow> length cur = length places \<and> set (nt_routes s') = Rest \<union> placed (zip places cur) \<and>
        (\<forall>((g, w), c) \<in> set (zip places cur). c = w \<or> c \<notin> set used))"

definition wanted :: "((gateway \<times> int) \<times> int) list \<Rightarrow> GatewayRoute set" where
  "wanted zs = (\<lambda>((g, w), c). with_metric g w) ` set zs"

text \<open>No place is held by another gateway or interface.\<close>

definition places_free :: "GatewayRoute set \<Rightarrow> ((gateway \<times> int) \<times> int) list \<Rightarrow> bool" where
  "places_free Rest zs \<longleftrightarrow>
     distinct (map (\<lambda>z. fst (fst z)) zs) \<and> distinct (map (\<lambda>z. snd (fst z)) zs) \<and>
     (\<forall>r \<in> Rest. gateway_of r \<notin> (\<lambda>z. fst (fst z)) ` set zs) \<and>
     (\<forall>r \<in> Rest. gr_Metric r \<notin> (\<lambda>z. snd (fst z)) ` set zs) \<and>
     (\<forall>z \<in> set zs. snd z = snd (fst z) \<or> snd z \<notin> (\<lambda>z. snd (fst z)) ` set zs)"

definition metric_range :: "string \<Rightarrow> (string \<rightharpoonup> int) \<Rightarrow> nat \<Rightarrow> int \<Rightarrow> string \<Rightarrow> int \<Rightarrow> bool" where
  "metric_range preferred demoted index slack iface m \<longleftrightarrow>
     (if demoted iface = None
      then preferenceMetric preferred iface index \<le> m \<and> m \<le> preferenceMetric preferred iface index + slack
      else gatewayDemotedMetric \<le> m)"

definition desired_ok :: "string \<Rightarrow> int list \<Rightarrow> nat \<Rightarrow> GatewayRoute list \<Rightarrow> int list \<Rightarrow> int list \<Rightarrow> net \<Rightarrow> int list \<Rightarrow> int list \<Rightarrow> bool" where
  "desired_ok preferred managed' index rs taken used s ms used' \<longleftrightarrow>
     length ms = length rs \<and> distinct ms \<and> set ms \<inter> set taken = {} \<and> (\<forall>m \<in> set ms. m \<in> set used \<longrightarrow> m \<in> set managed') \<and>
     set used' = set used \<union> set ms \<and>
     (\<forall>i < length rs. metric_range preferred (nt_demoted s) (index + i) (int (length taken + length used + 2 * length rs)) (gr_Interface (rs ! i)) (ms ! i))"

text \<open>One route for every gateway, and the preferred connection before the others unless it is demoted.\<close>

definition one_each :: "GatewayRoute list \<Rightarrow> (gateway \<Rightarrow> int) \<Rightarrow> GatewayRoute list \<Rightarrow> bool" where
  "one_each before m rs \<longleftrightarrow> set (filter managed rs) = (\<lambda>g. with_metric g (m g)) ` gateways before"

definition preferred_first :: "string \<Rightarrow> net \<Rightarrow> (gateway \<Rightarrow> int) \<Rightarrow> bool" where
  "preferred_first preferred s m \<longleftrightarrow>
     (\<forall>g \<in> gateways (nt_routes s). \<forall>h \<in> gateways (nt_routes s).
        gatewayKind (fst g) = preferred \<and> nt_demoted s (fst g) = None \<and>
        (gatewayKind (fst h) \<noteq> preferred \<or> nt_demoted s (fst h) \<noteq> None) \<longrightarrow> m g < m h)"

text \<open>The gateways and the metrics that were chosen for them.\<close>

definition chosen :: "string \<Rightarrow> net \<Rightarrow> GatewayRoute list \<Rightarrow> int list \<Rightarrow> int list \<Rightarrow> bool" where
  "chosen preferred s routes ms used' \<longleftrightarrow>
     routes = sort_key route_order (uniqueGatewayRoutes (defaultGatewayEntries s)) \<and>
     desired_ok preferred (map gr_Metric (defaultGatewayEntries s)) 0 routes []
       (occupiedMetrics s @ map gr_Metric (defaultGatewayEntries s)) s ms used'"

section \<open>Single commands\<close>

lemma attempt_outcome:
  assumes "attempt f s = (ok, s')"
  obtains (fault) fs where "\<not> ok" "s' = s\<lparr>nt_faults := fs\<rparr>" | (runs) fs where "f (s\<lparr>nt_faults := fs\<rparr>) = (ok, s')"
  using assms
proof (cases "nt_faults s")
  case Nil
  then have "f (s\<lparr>nt_faults := nt_faults s\<rparr>) = (ok, s')" using assms by (cases s) (simp add: attempt_def)
  then show ?thesis by (rule runs)
next
  case (Cons a fs)
  show ?thesis
  proof (cases a)
    case True
    then show ?thesis using assms Cons by (intro fault[of fs]) (auto simp: attempt_def)
  next
    case False
    then show ?thesis using assms Cons by (intro runs[of fs]) (auto simp: attempt_def)
  qed
qed

lemma add_outcome:
  assumes "addGatewayRoute g m s = (ok, s')"
  shows "nt_demoted s' = nt_demoted s" and "nt_preference s' = nt_preference s"
    and "\<not> ok \<Longrightarrow> nt_routes s' = nt_routes s \<and> nt_tables s' = nt_tables s"
    and "ok \<Longrightarrow> m \<notin> gr_Metric ` set (nt_routes s) \<and> nt_routes s' = insort_key gr_Metric (with_metric g m) (nt_routes s) \<and>
      nt_tables s' = nt_tables s @ [nt_routes s']"
  using assms unfolding addGatewayRoute_def
  by (auto elim!: attempt_outcome simp: set_routes_def split: if_splits)

lemma delete_outcome:
  assumes "deleteGatewayRoute g m s = (ok, s')"
  shows "nt_demoted s' = nt_demoted s" and "nt_preference s' = nt_preference s"
    and "\<not> ok \<Longrightarrow> nt_routes s' = nt_routes s \<and> nt_tables s' = nt_tables s"
    and "ok \<Longrightarrow> with_metric g m \<in> set (nt_routes s) \<and> nt_routes s' = remove1 (with_metric g m) (nt_routes s) \<and>
      nt_tables s' = nt_tables s @ [nt_routes s']"
  using assms unfolding deleteGatewayRoute_def
  by (auto elim!: attempt_outcome simp: set_routes_def split: if_splits)

lemma set_outcome:
  assumes "setGatewayRoute g m s = (ok, s')"
  shows "nt_demoted s' = nt_demoted s" and "nt_preference s' = nt_preference s"
    and "\<not> ok \<Longrightarrow> nt_routes s' = nt_routes s \<and> nt_tables s' = nt_tables s"
    and "ok \<Longrightarrow> m \<notin> gr_Metric ` set (nt_routes s) \<Longrightarrow> nt_routes s' = insort_key gr_Metric (with_metric g m) (nt_routes s) \<and>
      nt_tables s' = nt_tables s @ [nt_routes s']"
  using assms unfolding setGatewayRoute_def
  by (auto elim!: attempt_outcome simp: set_routes_def split: if_splits)

lemma write_outcome:
  assumes "writeDemotedOriginal i m s = (ok, s')"
  shows "nt_routes s' = nt_routes s" and "nt_tables s' = nt_tables s" and "nt_preference s' = nt_preference s"
    and "nt_demoted s' = (if ok then (nt_demoted s)(i \<mapsto> m) else nt_demoted s)"
  using assms unfolding writeDemotedOriginal_def by (auto elim!: attempt_outcome)

lemma remove_outcome:
  assumes "removeDemoted i s = (ok, s')"
  shows "nt_routes s' = nt_routes s" and "nt_tables s' = nt_tables s" and "nt_preference s' = nt_preference s"
    and "nt_demoted s' = (if ok then (nt_demoted s)(i := None) else nt_demoted s)"
  using assms unfolding removeDemoted_def by (auto elim!: attempt_outcome)

lemma with_metric_simps [simp]:
  "gateway_of (with_metric g m) = g" "gr_Metric (with_metric g m) = m" "with_metric (gateway_of r) (gr_Metric r) = r"
  "with_metric g m = with_metric g' m' \<longleftrightarrow> g = g' \<and> m = m'"
  by (auto simp: gateway_of_def with_metric_def prod_eq_iff)

lemma managed_gateway: "gateway_of r = gateway_of r' \<Longrightarrow> managed r = managed r'"
  by (simp add: managed_def gateway_of_def)

lemma gateway_managed: "g \<in> gateways rs \<Longrightarrow> managed (with_metric g m)"
  using managed_gateway[of "with_metric g m"] by (auto simp: gateways_def)

lemma keeps_add:
  assumes "keeps B rs" and "m \<notin> gr_Metric ` set rs" and "g \<in> gateways B"
  shows "keeps B (insort_key gr_Metric (with_metric g m) rs)"
proof -
  have "managed (with_metric g m)" using assms(3) by (rule gateway_managed)
  then have "gateways (insort_key gr_Metric (with_metric g m) rs) = insert g (gateways rs)"
    unfolding gateways_def by (simp add: set_insort_key) (force simp: image_iff)
  moreover have "mset (others (insort_key gr_Metric (with_metric g m) rs)) = mset (others rs)"
    using \<open>managed (with_metric g m)\<close> by (simp add: others_def)
  moreover have "distinct (map gr_Metric (insort_key gr_Metric (with_metric g m) rs))"
  proof -
    have "mset (map gr_Metric (insort_key gr_Metric (with_metric g m) rs)) = mset (m # map gr_Metric rs)" by simp
    from mset_eq_imp_distinct_iff[OF this] show ?thesis using assms(1,2) by (auto simp: keeps_def)
  qed
  ultimately show ?thesis using assms by (auto simp: keeps_def)
qed

lemma keeps_delete:
  assumes "keeps B rs" and "with_metric g n \<in> set rs" and "n \<noteq> m" and "g \<in> gateways B"
  shows "keeps B (remove1 (with_metric g m) rs)"
proof -
  have man: "managed (with_metric g m)" "managed (with_metric g n)" using assms(4) by (auto intro: gateway_managed)
  have "distinct rs" using assms(1) by (auto simp: keeps_def distinct_map)
  then have "gateways (remove1 (with_metric g m) rs) = gateways rs"
    using assms(2,3) man by (auto simp: gateways_def image_iff) (metis assms(2,3) with_metric_simps(1,4))+
  moreover have "others (remove1 (with_metric g m) rs) = others rs"
    using man(1) by (induction rs) (auto simp: others_def)
  moreover have "distinct (map gr_Metric (remove1 (with_metric g m) rs))"
    using assms(1) distinct_remove1[OF \<open>distinct rs\<close>] set_remove1_subset[of "with_metric g m" rs]
    by (auto simp: keeps_def distinct_map intro: inj_on_subset)
  ultimately show ?thesis using assms(1) by (simp add: keeps_def)
qed

lemma keeps_all_add:
  assumes "keeps_all B s" and "addGatewayRoute g m s = (ok, s')" and "g \<in> gateways B"
  shows "keeps_all B s'"
  using assms keeps_add[of B "nt_routes s" m g] add_outcome[OF assms(2)] by (cases ok) (auto simp: keeps_all_def)

lemma keeps_all_delete:
  assumes "keeps_all B s" and "deleteGatewayRoute g m s = (ok, s')" and "g \<in> gateways B" and "with_metric g n \<in> set (nt_routes s)" and "n \<noteq> m"
  shows "keeps_all B s'" and "with_metric g n \<in> set (nt_routes s')"
  using assms keeps_delete[of B "nt_routes s" g n m] delete_outcome[OF assms(2)]
  by (cases ok; auto simp: keeps_all_def in_set_remove1)+

text \<open>What the commands do to the set of routes.\<close>

lemma add_set:
  assumes "addGatewayRoute g m s = (True, s')"
  shows "set (nt_routes s') = insert (with_metric g m) (set (nt_routes s))"
  using add_outcome(4)[OF assms] by (simp add: set_insort_key)

lemma delete_set:
  assumes "deleteGatewayRoute g m s = (True, s')" and "distinct (map gr_Metric (nt_routes s))"
  shows "set (nt_routes s') = set (nt_routes s) - {with_metric g m}"
  using delete_outcome(4)[OF assms(1)] assms(2) by (simp add: distinct_map)

lemma keeps_distinct: "keeps_all B s \<Longrightarrow> distinct (map gr_Metric (nt_routes s))"
  by (simp add: keeps_all_def keeps_def)

lemma delete_all_outcome:
  assumes "keeps_all B s" and "delete_all g ms s = (ok, s')" and "g \<in> gateways B" and "with_metric g n \<in> set (nt_routes s)" and "n \<notin> set ms"
  shows "keeps_all B s' \<and> (ok \<longrightarrow> set (nt_routes s') = set (nt_routes s) - with_metric g ` set ms) \<and> nt_demoted s' = nt_demoted s"
  using assms
proof (induction ms arbitrary: s)
  case (Cons m ms)
  obtain o1 s1 where d: "deleteGatewayRoute g m s = (o1, s1)" by fastforce
  have k: "keeps_all B s1" "with_metric g n \<in> set (nt_routes s1)" using keeps_all_delete[OF Cons.prems(1) d Cons.prems(3,4)] Cons.prems(5) by auto
  show ?case
  proof (cases o1)
    case True
    then have "delete_all g ms s1 = (ok, s')" using Cons.prems(2) d by simp
    then show ?thesis
      using Cons.IH[OF k(1) _ Cons.prems(3) k(2)] Cons.prems(5) delete_set[of g m s s1] d True keeps_distinct[OF Cons.prems(1)] delete_outcome(1)[OF d]
      by auto
  next
    case False
    then show ?thesis using Cons.prems(2) d k(1) delete_outcome(1)[OF d] by auto
  qed
qed simp

lemma first_free_not_used: "first_free used m \<notin> set used"
  by (induction used m rule: first_free.induct) (subst first_free.simps, simp)

lemma first_free_ge: "m \<le> first_free used m"
  by (induction used m rule: first_free.induct) (subst first_free.simps, force)

lemma try_add_outcome:
  assumes "keeps_all B s" and "try_add k g used nx s = (ok, used', nx', s')" and "g \<in> gateways B"
  shows "keeps_all B s' \<and> nt_demoted s' = nt_demoted s \<and> set used \<subseteq> set used' \<and>
    (ok \<longrightarrow> nx' \<notin> set used \<and> nx' \<in> set used' \<and> set (nt_routes s') = insert (with_metric g nx') (set (nt_routes s)))"
  using assms
proof (induction k arbitrary: used nx s)
  case (Suc k)
  obtain o1 s1 where a: "addGatewayRoute g (first_free used nx) s = (o1, s1)" by fastforce
  have k: "keeps_all B s1" using keeps_all_add[OF Suc.prems(1) a Suc.prems(3)] .
  show ?case
  proof (cases o1)
    case True
    then show ?thesis
      using Suc.prems(2) a k first_free_not_used[of used nx] add_set[of g "first_free used nx" s s1] add_outcome(1)[OF a]
      by (auto simp: Let_def)
  next
    case False
    then have "try_add k g (first_free used nx # used) (first_free used nx) s1 = (ok, used', nx', s')"
      using Suc.prems(2) a by (simp add: Let_def)
    from Suc.IH[OF k this Suc.prems(3)] show ?thesis using add_outcome(1,3)[OF a] False by auto
  qed
qed simp

section \<open>Moving every gateway\<close>

lemma placed_simps [simp]: "placed [] = {}" "placed (((g, w), c) # zs) = insert (with_metric g c) (placed zs)"
  by (simp_all add: placed_def)

lemma entries_of: "with_metric g ` set (metricsOf entries g) = {e \<in> set entries. gateway_of e = g}"
proof -
  have "with_metric g (gr_Metric e) = e" if "gateway_of e = g" for e using that by auto
  then show ?thesis unfolding metricsOf_def by (auto simp: image_iff)
qed

lemma move_away_outcome:
  assumes "keeps_all B s" and "distinct (map fst places)" and "fst ` set places \<subseteq> gateways B"
    and "set (nt_routes s) = Rest \<union> {e \<in> set entries. gateway_of e \<in> fst ` set places}"
    and "\<forall>r \<in> Rest. gateway_of r \<notin> fst ` set places" and "gr_Metric ` set entries \<subseteq> set used"
    and "move_away entries places used nx s = (r, s')"
  shows "moved_away B Rest places used s r s'"
  using assms
proof (induction places arbitrary: s used nx Rest r s')
  case Nil
  then show ?case by (auto simp: moved_away_def)
next
  case (Cons gw places)
  obtain g w where gw: "gw = (g, w)" by (cases gw)
  let ?old = "metricsOf entries g"
  have g: "g \<in> gateways B" "g \<notin> fst ` set places" using Cons.prems(2,3) gw by auto
  have routes: "set (nt_routes s) = Rest \<union> {e \<in> set entries. gateway_of e = g} \<union> {e \<in> set entries. gateway_of e \<in> fst ` set places}"
    using Cons.prems(4) gw by auto
  have rest: "\<forall>r \<in> insert (with_metric g c) Rest. gateway_of r \<notin> fst ` set places" for c
    using Cons.prems(5) g(2) gw by auto
  show ?case
  proof (cases "?old = [w]")
    case True
    obtain r1 s1 where m: "move_away entries places used nx s = (r1, s1)" by fastforce
    have "{e \<in> set entries. gateway_of e = g} = {with_metric g w}" using entries_of[of g entries] True by simp
    then have "set (nt_routes s) = insert (with_metric g w) Rest \<union> {e \<in> set entries. gateway_of e \<in> fst ` set places}" using routes by auto
    from Cons.IH[OF Cons.prems(1) _ _ this rest Cons.prems(6) m] Cons.prems(2,3)
    have "moved_away B (insert (with_metric g w) Rest) places used s r1 s1" by simp
    moreover have "r = (case r1 of Inl e \<Rightarrow> Inl e | Inr cur \<Rightarrow> Inr (w # cur))" "s' = s1"
      using Cons.prems(7) True gw m by (auto split: sum.splits)
    ultimately show ?thesis using gw by (auto simp: moved_away_def split: sum.splits)
  next
    case False
    obtain ok used' n s1 where t: "try_add 16 g used nx s = (ok, used', n, s1)" by (cases "try_add 16 g used nx s") auto
    note t' = try_add_outcome[OF Cons.prems(1) t g(1)]
    show ?thesis
    proof (cases ok)
      case False
      then show ?thesis using Cons.prems(7) t t' gw \<open>?old \<noteq> [w]\<close> by (auto simp: moved_away_def Let_def)
    next
      case True
      obtain ok2 s2 where d: "delete_all g ?old s1 = (ok2, s2)" by fastforce
      have n: "n \<notin> set ?old" using t' True Cons.prems(6) by (auto simp: metricsOf_def)
      have k1: "keeps_all B s1" "with_metric g n \<in> set (nt_routes s1)" using t' True by auto
      note d' = delete_all_outcome[OF k1(1) d g(1) k1(2) n]
      show ?thesis
      proof (cases ok2)
        case False
        then show ?thesis using Cons.prems(7) t t' d d' True gw \<open>?old \<noteq> [w]\<close> by (auto simp: moved_away_def Let_def)
      next
        case ok2: True
        obtain r1 s3 where m: "move_away entries places used' n s2 = (r1, s3)" by fastforce
        have "set (nt_routes s2) = insert (with_metric g n) (set (nt_routes s)) - {e \<in> set entries. gateway_of e = g}"
          using d' ok2 t' True entries_of[of g entries] by simp
        moreover have "with_metric g n \<notin> {e \<in> set entries. gateway_of e = g}" using n by (force simp: metricsOf_def image_iff)
        ultimately have "set (nt_routes s2) = insert (with_metric g n) Rest \<union> {e \<in> set entries. gateway_of e \<in> fst ` set places}"
          using routes g(2) Cons.prems(5) gw by auto
        from Cons.IH[OF _ _ _ this rest _ m] Cons.prems(2,3,6) d' t'
        have "moved_away B (insert (with_metric g n) Rest) places used' s2 r1 s3" by auto
        moreover have "r = (case r1 of Inl e \<Rightarrow> Inl e | Inr cur \<Rightarrow> Inr (n # cur))" "s' = s3"
          using Cons.prems(7) gw t d True ok2 m \<open>?old \<noteq> [w]\<close> by (auto simp: Let_def split: sum.splits)
        ultimately show ?thesis using gw t' d' True by (auto simp: moved_away_def split: sum.splits)
      qed
    qed
  qed
qed

lemma wanted_simps [simp]: "wanted [] = {}" "wanted (((g, w), c) # zs) = insert (with_metric g w) (wanted zs)"
  by (simp_all add: wanted_def)

lemma places_free_tl:
  assumes "places_free Rest (((g, w), c) # zs)"
  shows "places_free (insert (with_metric g w) Rest) zs"
  using assms by (auto simp: places_free_def image_iff)

lemma places_free_hd:
  assumes "places_free Rest (((g, w), c) # zs)" and "c \<noteq> w"
  shows "w \<notin> gr_Metric ` (Rest \<union> placed (((g, w), c) # zs))"
proof -
  have "c' \<noteq> w" if "((g', w'), c') \<in> set zs" for g' w' c'
    using assms(1) that by (force simp: places_free_def image_iff)
  moreover have "gr_Metric r \<noteq> w" if "r \<in> Rest" for r using assms(1) that by (auto simp: places_free_def)
  ultimately show ?thesis using assms(2) by (force simp: placed_def image_iff)
qed

lemma move_in_outcome:
  assumes "keeps_all B s" and "(\<lambda>z. fst (fst z)) ` set zs \<subseteq> gateways B" and "set (nt_routes s) = Rest \<union> placed zs"
    and "places_free Rest zs" and "move_in zs s = (r, s')"
  shows "keeps_all B s' \<and> nt_demoted s' = nt_demoted s \<and> (r = Inr () \<longrightarrow> set (nt_routes s') = Rest \<union> wanted zs)"
  using assms
proof (induction zs arbitrary: s Rest)
  case (Cons z zs)
  obtain g w c where z: "z = ((g, w), c)" by (metis prod.exhaust)
  note free = Cons.prems(4)[unfolded z]
  have g: "g \<in> gateways B" using Cons.prems(2) z by simp
  show ?case
  proof (cases "c = w")
    case True
    then have "set (nt_routes s) = insert (with_metric g w) Rest \<union> placed zs" using Cons.prems(3) z by simp
    from Cons.IH[OF Cons.prems(1) _ this places_free_tl[OF free]] show ?thesis using Cons.prems(2,5) z True by auto
  next
    case False
    obtain o1 s1 where a: "setGatewayRoute g w s = (o1, s1)" by fastforce
    have free_w: "w \<notin> gr_Metric ` set (nt_routes s)" using places_free_hd[OF free False] Cons.prems(3) z by simp
    have k1: "keeps_all B s1"
      using set_outcome[OF a] Cons.prems(1) keeps_add[of B "nt_routes s" w g] free_w g by (cases o1) (auto simp: keeps_all_def)
    show ?thesis
    proof (cases o1)
      case False
      then show ?thesis using Cons.prems(5) z \<open>c \<noteq> w\<close> a k1 set_outcome(1)[OF a] by auto
    next
      case True
      have s1: "set (nt_routes s1) = insert (with_metric g w) (Rest \<union> placed (z # zs))"
        using set_outcome(4)[OF a True free_w] Cons.prems(3) by (simp add: set_insort_key)
      obtain o2 s2 where d: "deleteGatewayRoute g c s1 = (o2, s2)" by fastforce
      have k2: "keeps_all B s2" using keeps_all_delete(1)[OF k1 d g, of w] s1 False by simp
      show ?thesis
      proof (cases o2)
        case False
        then show ?thesis using Cons.prems(5) z \<open>c \<noteq> w\<close> a d True k2 set_outcome(1)[OF a] delete_outcome(1)[OF d] by auto
      next
        case o2: True
        have "with_metric g c \<notin> Rest \<union> placed zs"
          using free by (auto simp: places_free_def placed_def image_iff)
        then have "set (nt_routes s2) = insert (with_metric g w) Rest \<union> placed zs"
          using delete_set[of g c s1 s2] d o2 keeps_distinct[OF k1] s1 z False by auto
        from Cons.IH[OF k2 _ this places_free_tl[OF free]] show ?thesis
          using Cons.prems(2,5) z \<open>c \<noteq> w\<close> a d True o2 set_outcome(1)[OF a] delete_outcome(1)[OF d] by auto
      qed
    qed
  qed
qed simp

section \<open>The metrics that are wanted\<close>

lemma first_free_le: "first_free used m \<le> m + int (length used)"
proof -
  have "first_free used m \<le> m + int (card (set used \<inter> {m..}))"
  proof (induction used m rule: first_free.induct)
    case (1 used m)
    show ?case
    proof (cases "m \<in> set used")
      case True
      have "set used \<inter> {m..} = insert m (set used \<inter> {m + 1..})" using True by auto
      then have "card (set used \<inter> {m..}) = Suc (card (set used \<inter> {m + 1..}))" by simp
      then show ?thesis using 1[OF True] by (subst first_free.simps) (simp add: True)
    next
      case False
      then show ?thesis by (subst first_free.simps) simp
    qed
  qed
  moreover have "card (set used \<inter> {m..}) \<le> length used"
    using card_mono[of "set used" "set used \<inter> {m..}"] card_length[of used] by simp
  ultimately show ?thesis by simp
qed

lemma unique_from_props:
  "distinct (map gateway_of (unique_from seen rs)) \<and> gateway_of ` set (unique_from seen rs) = gateway_of ` set rs - set seen \<and>
   length (unique_from seen rs) \<le> length rs"
  by (induction seen rs rule: unique_from.induct) (auto simp: image_iff)

lemma metric_range_dom: "dom d = dom d' \<Longrightarrow> metric_range p d i k f m = metric_range p d' i k f m"
proof -
  assume "dom d = dom d'"
  then have "d f = None \<longleftrightarrow> d' f = None" by (metis domIff)
  then show ?thesis by (simp add: metric_range_def)
qed

lemma desired_outcome:
  assumes "desired_metrics preferred managed' index rs taken used s = (r, s')"
  shows "nt_routes s' = nt_routes s \<and> nt_tables s' = nt_tables s \<and> dom (nt_demoted s') = dom (nt_demoted s) \<and>
    (\<forall>ms used'. r = Inr (ms, used') \<longrightarrow> desired_ok preferred managed' index rs taken used s ms used')"
  using assms
proof (induction rs arbitrary: index taken used s r s')
  case Nil
  then show ?case by (auto simp: desired_ok_def)
next
  case (Cons x rs)
  let ?i = "gr_Interface x"
  let ?base = "preferenceMetric preferred ?i index"
  let ?start = "case demotedOriginal ?i s of None \<Rightarrow> ?base | Some _ \<Rightarrow> gatewayDemotedMetric"
  let ?m = "first_free (taken @ filter (\<lambda>m. m \<notin> set managed') used) ?start"
  obtain ok s1 where w: "(case demotedOriginal ?i s of None \<Rightarrow> (True, s) | Some _ \<Rightarrow> writeDemotedOriginal ?i ?base s) = (ok, s1)" by fastforce
  have s1: "nt_routes s1 = nt_routes s" "nt_tables s1 = nt_tables s" "dom (nt_demoted s1) = dom (nt_demoted s)"
    using w write_outcome[of ?i ?base s ok s1] by (auto simp: demotedOriginal_def split: option.splits if_splits)
  show ?case
  proof (cases ok)
    case False
    then show ?thesis using Cons.prems w s1 by (auto simp: Let_def)
  next
    case True
    obtain r1 s2 where d: "desired_metrics preferred managed' (Suc index) rs (?m # taken) (?m # used) s1 = (r1, s2)" by fastforce
    note ih = Cons.IH[OF d]
    have r: "r = (case r1 of Inl e \<Rightarrow> Inl e | Inr (ms, u) \<Rightarrow> Inr (?m # ms, u))" "s' = s2"
      using Cons.prems w True d by (auto simp: Let_def split: sum.splits prod.splits)
    have free: "?m \<notin> set taken" "?m \<in> set used \<Longrightarrow> ?m \<in> set managed'"
      using first_free_not_used[of "taken @ filter (\<lambda>m. m \<notin> set managed') used" ?start] by auto
    have "?m \<le> ?start + int (length taken + length used + 2 * length (x # rs))"
      using first_free_le[of "taken @ filter (\<lambda>m. m \<notin> set managed') used" ?start] length_filter_le[of "\<lambda>m. m \<notin> set managed'" used]
      unfolding length_append by linarith
    then have range: "metric_range preferred (nt_demoted s) index (int (length taken + length used + 2 * length (x # rs))) ?i ?m"
      using first_free_ge[of ?start "taken @ filter (\<lambda>m. m \<notin> set managed') used"]
      by (auto simp: metric_range_def demotedOriginal_def split: option.splits)
    have "desired_ok preferred managed' index (x # rs) taken used s (?m # ms) u"
      if "desired_ok preferred managed' (Suc index) rs (?m # taken) (?m # used) s1 ms u" for ms u
      using that free range metric_range_dom[OF s1(3)]
      by (auto simp: desired_ok_def nth_Cons less_Suc_eq_0_disj split: nat.splits)
    then show ?thesis using ih r s1 by (auto split: sum.splits prod.splits)
  qed
qed

lemma keeps_self: "distinct (map gr_Metric B) \<Longrightarrow> keeps B B"
  by (simp add: keeps_def)

lemma sorted_routes:
  assumes "routes = sort_key route_order (uniqueGatewayRoutes (filter managed B))"
  shows "distinct (map gateway_of routes)" and "gateway_of ` set routes = gateways B" and "length routes \<le> length B"
proof -
  note u = unique_from_props[of "[]" "filter managed B"]
  have "mset routes = mset (unique_from [] (filter managed B))" using assms by (simp add: uniqueGatewayRoutes_def)
  then have "mset (map gateway_of routes) = mset (map gateway_of (unique_from [] (filter managed B)))" by simp
  then show "distinct (map gateway_of routes)" using u mset_eq_imp_distinct_iff by blast
  show "gateway_of ` set routes = gateways B" using assms u by (simp add: uniqueGatewayRoutes_def gateways_def)
  have "length routes \<le> length (filter managed B)" using assms u by (simp add: uniqueGatewayRoutes_def)
  then show "length routes \<le> length B" using length_filter_le[of managed B] by linarith
qed

lemma split_routes:
  assumes "gs = gateways B"
  shows "set B = set (others B) \<union> {e \<in> set (filter managed B). gateway_of e \<in> gs}" and "\<forall>r \<in> set (others B). gateway_of r \<notin> gs"
proof -
  show "set B = set (others B) \<union> {e \<in> set (filter managed B). gateway_of e \<in> gs}"
    by (auto simp: assms others_def gateways_def)
  have "managed r" if g: "gateway_of r \<in> gateways B" for r
  proof -
    obtain e where "managed e" "gateway_of e = gateway_of r" using g by (auto simp: gateways_def)
    then show ?thesis using managed_gateway by blast
  qed
  then show "\<forall>r \<in> set (others B). gateway_of r \<notin> gs" by (auto simp: assms others_def)
qed

lemma desired_order:
  assumes "desired_ok preferred M 0 routes [] used s ms used'" and "length used \<le> 2 * length B" and "length routes \<le> length B"
    and "length B < 38" and "preferred \<noteq> ''auto''" and "i < length routes" and "j < length routes"
    and "gatewayKind (gr_Interface (routes ! i)) = preferred" and "nt_demoted s (gr_Interface (routes ! i)) = None"
    and "gatewayKind (gr_Interface (routes ! j)) \<noteq> preferred \<or> nt_demoted s (gr_Interface (routes ! j)) \<noteq> None"
  shows "ms ! i < ms ! j"
proof -
  define k where "k = int (length used + 2 * length routes)"
  have k: "k \<le> 4 * int (length B)" using assms(2,3) by (simp add: k_def)
  have r: "metric_range preferred (nt_demoted s) n k (gr_Interface (routes ! n)) (ms ! n)" if "n < length routes" for n
    using assms(1) that by (simp add: desired_ok_def k_def)
  have "ms ! i \<le> 10 + int i + k" using r[OF assms(6)] assms(5,8,9) by (simp add: metric_range_def preferenceMetric_def)
  moreover have "200 \<le> ms ! j"
    using r[OF assms(7)] assms(5,10) by (auto simp: metric_range_def preferenceMetric_def gatewayDemotedMetric_def split: if_splits)
  ultimately show ?thesis using k assms(3,4,6) by linarith
qed

lemma chosen_places:
  assumes "chosen preferred s routes ms used'"
  shows "length ms = length routes" and "distinct ms" and "map fst (zip (map gateway_of routes) ms) = map gateway_of routes"
    and "fst ` set (zip (map gateway_of routes) ms) = gateways (nt_routes s)" and "distinct (map gateway_of routes)"
    and "set ms \<subseteq> set used'" and "gr_Metric ` set (defaultGatewayEntries s) \<subseteq> set used'"
proof -
  have r: "routes = sort_key route_order (uniqueGatewayRoutes (filter managed (nt_routes s)))"
    using assms by (simp add: chosen_def defaultGatewayEntries_def)
  show len: "length ms = length routes" and "distinct ms" and "set ms \<subseteq> set used'"
    and "gr_Metric ` set (defaultGatewayEntries s) \<subseteq> set used'"
    using assms by (auto simp: chosen_def desired_ok_def)
  then show fsts: "map fst (zip (map gateway_of routes) ms) = map gateway_of routes" by simp
  show "distinct (map gateway_of routes)" using sorted_routes(1)[OF r] .
  show "fst ` set (zip (map gateway_of routes) ms) = gateways (nt_routes s)"
    using arg_cong[OF fsts, of set] sorted_routes(2)[OF r] by simp
qed

lemma other_metrics:
  assumes "chosen preferred s routes ms used'" and "distinct (map gr_Metric (nt_routes s))" and "r \<in> set (others (nt_routes s))"
  shows "gr_Metric r \<notin> set ms"
proof
  assume "gr_Metric r \<in> set ms"
  moreover have "gr_Metric r \<in> set (occupiedMetrics s)" using assms(3) by (auto simp: others_def occupiedMetrics_def)
  ultimately have "gr_Metric r \<in> gr_Metric ` set (defaultGatewayEntries s)"
    using assms(1) by (auto simp: chosen_def desired_ok_def)
  then obtain e where "e \<in> set (nt_routes s)" "managed e" "gr_Metric e = gr_Metric r" by (auto simp: defaultGatewayEntries_def)
  then show False using assms(2,3) by (auto simp: distinct_map others_def dest: inj_onD)
qed

lemma zip_places:
  assumes "length cur = length places"
  shows "map (\<lambda>z. fst (fst z)) (zip places cur) = map fst places" and "map (\<lambda>z. snd (fst z)) (zip places cur) = map snd places"
  using assms by (induction cur places rule: list_induct2) auto

lemma free_after_away:
  assumes "chosen preferred s routes ms used'" and "distinct (map gr_Metric (nt_routes s))" and "places = zip (map gateway_of routes) ms"
    and "length cur = length places" and "\<forall>((g, w), c) \<in> set (zip places cur). c = w \<or> c \<notin> set used'"
  shows "places_free (set (others (nt_routes s))) (zip places cur)"
proof -
  note c = chosen_places[OF assms(1), folded assms(3)]
  note z = zip_places[OF assms(4)]
  have snds: "map snd places = ms" using c(1) assms(3) by simp
  have sets: "(\<lambda>z. fst (fst z)) ` set (zip places cur) = gateways (nt_routes s)" "(\<lambda>z. snd (fst z)) ` set (zip places cur) = set ms"
    using arg_cong[OF z(1), of set] arg_cong[OF z(2), of set] c(4) snds by simp_all
  have "snd z = snd (fst z) \<or> snd z \<notin> set ms" if "z \<in> set (zip places cur)" for z
    using assms(5) that c(6) by (cases z) fastforce
  then show ?thesis
    unfolding places_free_def sets z
    using c(2,3,5) snds split_routes(2)[of "gateways (nt_routes s)" "nt_routes s"] other_metrics[OF assms(1,2)] by simp
qed

lemma one_each_wanted:
  assumes "set rs = set (others B) \<union> wanted zs" and "(\<lambda>z. fst (fst z)) ` set zs = gateways B" and "distinct (map (\<lambda>z. fst (fst z)) zs)"
  shows "one_each B (\<lambda>g. the (map_of (map fst zs) g)) rs"
proof -
  have "wanted zs = (\<lambda>g. with_metric g (the (map_of (map fst zs) g))) ` gateways B"
  proof -
    have "map_of (map fst zs) g = Some w" if "((g, w), c) \<in> set zs" for g w c
      using assms(3) that by (intro map_of_is_SomeI) (force simp: comp_def image_iff)+
    then show ?thesis unfolding assms(2)[symmetric] wanted_def by (auto simp: image_iff) force+
  qed
  moreover have "managed r" if "r \<in> wanted zs" for r
    using that assms(2) gateway_managed by (force simp: wanted_def)
  ultimately show ?thesis using assms(1) by (auto simp: one_each_def others_def)
qed

lemma chosen_order:
  assumes "chosen preferred s routes ms used'" and "length (nt_routes s) < 38" and "preferred \<noteq> ''auto''"
    and "\<And>i. i < length routes \<Longrightarrow> m (gateway_of (routes ! i)) = ms ! i"
  shows "preferred_first preferred s m"
  unfolding preferred_first_def
proof (intro ballI impI)
  fix g h
  assume "g \<in> gateways (nt_routes s)" "h \<in> gateways (nt_routes s)"
    and k: "gatewayKind (fst g) = preferred \<and> nt_demoted s (fst g) = None \<and> (gatewayKind (fst h) \<noteq> preferred \<or> nt_demoted s (fst h) \<noteq> None)"
  have r: "routes = sort_key route_order (uniqueGatewayRoutes (filter managed (nt_routes s)))"
    using assms(1) by (simp add: chosen_def defaultGatewayEntries_def)
  obtain i j where i: "i < length routes" "g = gateway_of (routes ! i)" and j: "j < length routes" "h = gateway_of (routes ! j)"
    using \<open>g \<in> _\<close> \<open>h \<in> _\<close> sorted_routes(2)[OF r] by (metis imageE in_set_conv_nth)
  have len: "length (occupiedMetrics s @ map gr_Metric (defaultGatewayEntries s)) \<le> 2 * length (nt_routes s)"
    using length_filter_le[of managed "nt_routes s"] by (simp add: occupiedMetrics_def defaultGatewayEntries_def)
  have ok: "desired_ok preferred (map gr_Metric (defaultGatewayEntries s)) 0 routes []
       (occupiedMetrics s @ map gr_Metric (defaultGatewayEntries s)) s ms used'" using assms(1) unfolding chosen_def by blast
  have "ms ! i < ms ! j"
    by (rule desired_order[OF ok len]) (use assms(2,3) sorted_routes(3)[OF r] i j k in \<open>auto simp: gateway_of_def\<close>)
  then show "m g < m h" using assms(4) i j by simp
qed

lemma apply_moves:
  assumes "chosen preferred s routes ms used'" and "distinct (map gr_Metric (nt_routes s))" and "places = zip (map gateway_of routes) ms"
    and "keeps_all (nt_routes s) s1" and "nt_routes s1 = nt_routes s" and "move_away (defaultGatewayEntries s) places used' 1000 s1 = (r2, s2)"
    and "(case r2 of Inl e \<Rightarrow> (Inl e, s2) | Inr cur \<Rightarrow> move_in (zip places cur) s2) = (r, s')"
  shows "keeps_all (nt_routes s) s' \<and>
    (r = Inr () \<longrightarrow> (\<exists>cur. length cur = length places \<and> set (nt_routes s') = set (others (nt_routes s)) \<union> wanted (zip places cur)))"
proof -
  note c = chosen_places[OF assms(1), folded assms(3)]
  have routes: "set (nt_routes s1) = set (others (nt_routes s)) \<union> {e \<in> set (defaultGatewayEntries s). gateway_of e \<in> fst ` set places}"
    using split_routes(1)[OF c(4)] assms(5) by (simp add: defaultGatewayEntries_def)
  have away: "moved_away (nt_routes s) (set (others (nt_routes s))) places used' s1 r2 s2"
    by (rule move_away_outcome[OF assms(4) _ _ routes split_routes(2)[OF c(4)] c(7) assms(6)]) (simp_all only: c(3,4,5) order_refl)
  show ?thesis
  proof (cases r2)
    case (Inl e)
    then show ?thesis using assms(7) away by (auto simp: moved_away_def)
  next
    case (Inr cur)
    have a: "keeps_all (nt_routes s) s2" "length cur = length places" "set (nt_routes s2) = set (others (nt_routes s)) \<union> placed (zip places cur)"
        "\<forall>((g, w), c) \<in> set (zip places cur). c = w \<or> c \<notin> set used'"
      using away Inr by (auto simp: moved_away_def)
    have "(\<lambda>z. fst (fst z)) ` set (zip places cur) \<subseteq> gateways (nt_routes s)"
      using arg_cong[OF zip_places(1)[OF a(2)], of set] c(4) by simp
    from move_in_outcome[OF a(1) this a(3) free_after_away[OF assms(1-3) a(2,4)]] show ?thesis
      using assms(7) Inr a(2) by auto
  qed
qed

lemma apply_outcome:
  assumes "applyGatewayPreference preferred (defaultGatewayEntries s) s = (r, s')" and "distinct (map gr_Metric (nt_routes s))"
    and "nt_tables s = []"
  shows "keeps_all (nt_routes s) s' \<and> (r = Inr () \<longrightarrow> (\<exists>m. one_each (nt_routes s) m (nt_routes s') \<and>
      (length (nt_routes s) < 38 \<and> preferred \<noteq> ''auto'' \<longrightarrow> preferred_first preferred s m)))"
proof -
  define routes where "routes = sort_key route_order (uniqueGatewayRoutes (defaultGatewayEntries s))"
  obtain r1 s1 where d: "desired_metrics preferred (map gr_Metric (defaultGatewayEntries s)) 0 routes []
      (occupiedMetrics s @ map gr_Metric (defaultGatewayEntries s)) s = (r1, s1)" by fastforce
  note d' = desired_outcome[OF d]
  have k0: "keeps_all (nt_routes s) s1" using d' assms(2,3) keeps_self by (simp add: keeps_all_def)
  show ?thesis
  proof (cases r1)
    case (Inl e)
    then show ?thesis using assms(1) d k0 by (auto simp: applyGatewayPreference_def routes_def[symmetric] Let_def)
  next
    case (Inr mu)
    obtain ms used' where r1: "r1 = Inr (ms, used')" using Inr by (cases mu) simp
    then have ch: "chosen preferred s routes ms used'" using d' by (simp add: chosen_def routes_def)
    define places where "places = zip (map gateway_of routes) ms"
    obtain r2 s2 where m: "move_away (defaultGatewayEntries s) places used' 1000 s1 = (r2, s2)" by fastforce
    have "(case r2 of Inl e \<Rightarrow> (Inl e, s2) | Inr cur \<Rightarrow> move_in (zip places cur) s2) = (r, s')"
      using assms(1) d r1 m by (cases r2) (simp_all add: applyGatewayPreference_def routes_def[symmetric] places_def[symmetric] Let_def)
    from apply_moves[OF ch assms(2) places_def k0 _ m this] d'
    have fin: "keeps_all (nt_routes s) s'" "r = Inr () \<Longrightarrow> \<exists>cur. length cur = length places \<and>
        set (nt_routes s') = set (others (nt_routes s)) \<union> wanted (zip places cur)" by auto
    have "\<exists>m. one_each (nt_routes s) m (nt_routes s') \<and> (length (nt_routes s) < 38 \<and> preferred \<noteq> ''auto'' \<longrightarrow> preferred_first preferred s m)"
      if ok: "r = Inr ()"
    proof -
      obtain cur where cur: "length cur = length places" "set (nt_routes s') = set (others (nt_routes s)) \<union> wanted (zip places cur)"
        using fin(2)[OF ok] by blast
      note c = chosen_places[OF ch, folded places_def]
      have mz: "map fst (zip places cur) = places" using cur(1) by simp
      have "one_each (nt_routes s) (\<lambda>g. the (map_of (map fst (zip places cur)) g)) (nt_routes s')"
      proof (rule one_each_wanted[OF cur(2)])
        have "set (map (\<lambda>z. fst (fst z)) (zip places cur)) = fst ` set places" unfolding zip_places(1)[OF cur(1)] by simp
        then show "(\<lambda>z. fst (fst z)) ` set (zip places cur) = gateways (nt_routes s)" unfolding c(4) by simp
        show "distinct (map (\<lambda>z. fst (fst z)) (zip places cur))" unfolding zip_places(1)[OF cur(1)] c(3) by (rule c(5))
      qed
      then have one: "one_each (nt_routes s) (\<lambda>g. the (map_of places g)) (nt_routes s')" by (simp only: mz)
      have "the (map_of places (gateway_of (routes ! i))) = ms ! i" if "i < length routes" for i
        using map_of_zip_nth[of "map gateway_of routes" ms i] that c(1,5) by (simp add: places_def)
      then show ?thesis using one chosen_order[OF ch, of "\<lambda>g. the (map_of places g)"] by blast
    qed
    then show ?thesis using fin(1) by blast
  qed
qed

lemma preference_outcome:
  assumes "SetGatewayPreference preferred s = (r, s')" and "distinct (map gr_Metric (nt_routes s))" and "nt_tables s = []"
  shows "keeps_all (nt_routes s) s' \<and> (r = Inr () \<longrightarrow> (\<exists>m. one_each (nt_routes s) m (nt_routes s') \<and>
      (length (nt_routes s) < 38 \<and> preferred \<noteq> ''auto'' \<longrightarrow> preferred_first preferred s m)))"
proof (cases "preferred \<in> {''auto'', ''ethernet'', ''wifi''}")
  case False
  then show ?thesis using assms keeps_self by (auto simp: SetGatewayPreference_def keeps_all_def)
next
  case True
  obtain ok s1 where a: "attempt (\<lambda>s. (True, s\<lparr>nt_preference := preferred\<rparr>)) s = (ok, s1)" by fastforce
  then have s1: "nt_routes s1 = nt_routes s" "nt_tables s1 = nt_tables s" "nt_demoted s1 = nt_demoted s"
    by (auto elim!: attempt_outcome)
  show ?thesis
  proof (cases ok)
    case False
    then show ?thesis using True assms a s1 keeps_self by (auto simp: SetGatewayPreference_def keeps_all_def)
  next
    case ok: True
    then have "applyGatewayPreference preferred (defaultGatewayEntries s1) s1 = (r, s')"
      using True assms(1) a by (auto simp: SetGatewayPreference_def)
    from apply_outcome[OF this] show ?thesis using assms(2,3) s1 by (simp add: preferred_first_def)
  qed
qed

section \<open>Demoting and restoring\<close>

lemma move_from_outcome:
  assumes "move_from g entries used metric limit s = (r, ok, s')" and "keeps_all B s" and "g \<in> gateways B"
  shows "keeps_all B s' \<and> nt_demoted s' = nt_demoted s"
  using assms
proof (induction g entries used metric limit s rule: move_from.induct)
  case (1 g entries used metric limit s)
  consider "metric \<ge> limit" | "metric < limit" "metric \<in> set used" | "metric < limit" "metric \<notin> set used" by linarith
  then show ?case
  proof cases
    case 1
    then show ?thesis using "1.prems" by (subst (asm) move_from.simps) simp
  next
    case 2
    then have "move_from g entries used (metric + 1) limit s = (r, ok, s')" using "1.prems"(1) by (subst (asm) move_from.simps) simp
    then show ?thesis using "1.IH"(1) 2 "1.prems"(2,3) by simp
  next
    case 3
    obtain o1 s1 where a: "addGatewayRoute g metric s = (o1, s1)" by fastforce
    note k1 = keeps_all_add[OF "1.prems"(2) a "1.prems"(3)] add_outcome(1)[OF a]
    show ?thesis
    proof (cases o1)
      case False
      then have "move_from g entries used (metric + 1) limit s1 = (r, ok, s')"
        using "1.prems"(1) 3 a by (subst (asm) move_from.simps) simp
      then show ?thesis using "1.IH"(2)[of o1 s1] 3 a False k1 "1.prems"(3) by auto
    next
      case True
      obtain o2 s2 where d: "delete_all g (filter (\<lambda>m. m \<noteq> metric) (metricsOf entries g)) s1 = (o2, s2)" by fastforce
      then have "s' = s2" using "1.prems"(1) 3 a True by (subst (asm) move_from.simps) simp
      moreover have "with_metric g metric \<in> set (nt_routes s1)" using add_set[of g metric s s1] a True by simp
      ultimately show ?thesis using delete_all_outcome[OF k1(1) d "1.prems"(3)] k1(2) by simp
    qed
  qed
qed

lemma move_keeps:
  assumes "moveGatewayRoute g entries from limit s = (ok, s')" and "keeps_all B s" and "g \<in> gateways B"
  shows "keeps_all B s' \<and> nt_demoted s' = nt_demoted s"
  using assms move_from_outcome[of g entries "occupiedMetrics s @ map gr_Metric entries" "from" limit s]
  by (auto simp: moveGatewayRoute_def split: prod.splits option.splits)

lemma demote_keeps:
  assumes "demoteGateway r entries s = (ok, s')" and "keeps_all B s" and "gateway_of r \<in> gateways B"
  shows "keeps_all B s' \<and> dom (nt_demoted s') \<subseteq> insert (gr_Interface r) (dom (nt_demoted s))"
proof -
  obtain o1 s1 where w: "writeDemotedOriginal (gr_Interface r) (gr_Metric r) s = (o1, s1)" by fastforce
  note w' = write_outcome[OF w]
  have "keeps_all B s1" using w' assms(2) by (simp add: keeps_all_def)
  then show ?thesis using assms w w' move_keeps[of "gateway_of r" entries gatewayDemotedMetric 1000 s1 ok s' B]
    by (cases o1) (auto simp: demoteGateway_def)
qed

lemma restore_keeps:
  assumes "restoreGateway r entries s = (ok, s')" and "keeps_all B s" and "gateway_of r \<in> gateways B"
  shows "keeps_all B s' \<and> nt_demoted s' = (if ok then (nt_demoted s)(gr_Interface r := None) else nt_demoted s)"
proof -
  obtain original where o: "restoreGateway r entries s = (case moveGatewayRoute (gateway_of r) entries original gatewayDemotedMetric s of
      (False, s1) \<Rightarrow> (False, s1) | (True, s1) \<Rightarrow> removeDemoted (gr_Interface r) s1)"
    by (auto simp: restoreGateway_def Let_def)
  obtain o1 s1 where m: "moveGatewayRoute (gateway_of r) entries original gatewayDemotedMetric s = (o1, s1)" by fastforce
  note m' = move_keeps[OF m assms(2,3)]
  show ?thesis
  proof (cases o1)
    case False
    then show ?thesis using o m m' assms(1) by auto
  next
    case True
    then have "removeDemoted (gr_Interface r) s1 = (ok, s')" using o m assms(1) by simp
    then show ?thesis using remove_outcome m' by (fastforce simp: keeps_all_def)
  qed
qed

section \<open>The records of demoted routes\<close>

lemma delete_all_demoted: "delete_all g ms s = (ok, s') \<Longrightarrow> nt_demoted s' = nt_demoted s"
proof (induction ms arbitrary: s)
  case (Cons m ms)
  obtain o1 s1 where d: "deleteGatewayRoute g m s = (o1, s1)" by fastforce
  then show ?case using Cons delete_outcome(1)[OF d] by (cases o1) auto
qed simp

lemma try_add_demoted: "try_add k g used nx s = (ok, used', nx', s') \<Longrightarrow> nt_demoted s' = nt_demoted s"
proof (induction k arbitrary: used nx s)
  case (Suc k)
  obtain o1 s1 where a: "addGatewayRoute g (first_free used nx) s = (o1, s1)" by fastforce
  then show ?case using Suc add_outcome(1)[OF a] by (cases o1) (auto simp: Let_def)
qed simp

lemma move_away_demoted: "move_away entries places used nx s = (r, s') \<Longrightarrow> nt_demoted s' = nt_demoted s"
proof (induction places arbitrary: used nx s r)
  case (Cons gw places)
  obtain g w where gw: "gw = (g, w)" by (cases gw)
  obtain ok used' n s1 where t: "try_add 16 g used nx s = (ok, used', n, s1)" by (cases "try_add 16 g used nx s") auto
  obtain ok2 s2 where d: "delete_all g (metricsOf entries g) s1 = (ok2, s2)" by fastforce
  have "nt_demoted s1 = nt_demoted s" "nt_demoted s2 = nt_demoted s" using try_add_demoted[OF t] delete_all_demoted[OF d] by simp_all
  then show ?case using Cons gw t d
    by (cases "metricsOf entries g = [w]"; cases ok; cases ok2) (auto simp: Let_def split: prod.splits sum.splits)
qed simp

lemma move_in_demoted: "move_in zs s = (r, s') \<Longrightarrow> nt_demoted s' = nt_demoted s"
proof (induction zs arbitrary: s)
  case (Cons z zs)
  obtain g w c where z: "z = ((g, w), c)" by (metis prod.exhaust)
  obtain o1 s1 where a: "setGatewayRoute g w s = (o1, s1)" by fastforce
  obtain o2 s2 where d: "deleteGatewayRoute g c s1 = (o2, s2)" by fastforce
  show ?case using Cons z a d set_outcome(1)[OF a] delete_outcome(1)[OF d]
    by (cases "c = w"; cases o1; cases o2) auto
qed simp

lemma move_from_demoted: "move_from g entries used metric limit s = (r, ok, s') \<Longrightarrow> nt_demoted s' = nt_demoted s"
proof (induction g entries used metric limit s rule: move_from.induct)
  case (1 g entries used metric limit s)
  obtain o1 s1 where a: "addGatewayRoute g metric s = (o1, s1)" by fastforce
  obtain o2 s2 where d: "delete_all g (filter (\<lambda>m. m \<noteq> metric) (metricsOf entries g)) s1 = (o2, s2)" by fastforce
  have n: "nt_demoted s1 = nt_demoted s" "nt_demoted s2 = nt_demoted s" using add_outcome(1)[OF a] delete_all_demoted[OF d] by simp_all
  note eq = "1.prems"[unfolded move_from.simps[of g entries used metric limit s]]
  consider "metric \<ge> limit" | "metric < limit" "metric \<in> set used" | "metric < limit" "metric \<notin> set used" by linarith
  then show ?case
  proof cases
    case 1
    then show ?thesis using eq by simp
  next
    case 2
    then show ?thesis using eq "1.IH"(1) by simp
  next
    case 3
    then show ?thesis using eq "1.IH"(2)[of o1 s1] a d n by (cases o1) auto
  qed
qed

lemma preference_demoted: "dom (nt_demoted (snd (SetGatewayPreference preferred s))) = dom (nt_demoted s)"
proof -
  have "dom (nt_demoted (snd (applyGatewayPreference preferred entries t))) = dom (nt_demoted t)" for entries t
  proof -
    define routes where "routes = sort_key route_order (uniqueGatewayRoutes entries)"
    obtain r1 s1 where d: "desired_metrics preferred (map gr_Metric entries) 0 routes [] (occupiedMetrics t @ map gr_Metric entries) t = (r1, s1)"
      by fastforce
    have s1: "dom (nt_demoted s1) = dom (nt_demoted t)" using desired_outcome[OF d] by blast
    show ?thesis
    proof (cases r1)
      case (Inl e)
      then show ?thesis using d s1 by (simp add: applyGatewayPreference_def routes_def[symmetric] Let_def)
    next
      case (Inr mu)
      obtain ms used' where mu: "mu = (ms, used')" by (cases mu)
      obtain r2 s2 where m: "move_away entries (zip (map gateway_of routes) ms) used' 1000 s1 = (r2, s2)" by fastforce
      have mi: "nt_demoted (snd (move_in zs s2)) = nt_demoted s2" for zs using move_in_demoted by (metis prod.collapse)
      show ?thesis
        using d Inr mu m s1 move_away_demoted[OF m]
        by (cases r2) (simp_all add: applyGatewayPreference_def routes_def[symmetric] Let_def mi)
    qed
  qed
  note applied = this
  obtain ok t where a: "attempt (\<lambda>s. (True, s\<lparr>nt_preference := preferred\<rparr>)) s = (ok, t)" by fastforce
  then have "nt_demoted t = nt_demoted s" by (auto elim!: attempt_outcome)
  then show ?thesis using a applied by (cases ok) (simp_all add: SetGatewayPreference_def)
qed

end
