(* ===== verification/Gateway_Check.thy ===== *)
theory Gateway_Check
  imports Gateway_Routes
begin

text \<open>
  The check of the Ethernet gateway (\<open>service/network/gateway_check.go\<close>): rounds of probes that move the route of a silent gateway behind
  Wi-Fi's and back, and let the DHCP client start again. A round takes seconds and holds the lock of the routes only while it changes them, so
  the settings may be changed in the middle of it; its sections are the steps of a relation.
\<close>

section \<open>State\<close>

record gatewayHealth =
  gh_passes :: nat
  gh_fails :: nat
  gh_silentSince :: time
  gh_lastDHCP :: time
  gh_checked :: bool
  gh_reachable :: bool
  gh_keptLease :: bool

record gatewayCheckConfig =
  gc_Enabled :: bool
  gc_Method :: string
  gc_Host :: string

text \<open>What the commands and files answer during a round.\<close>

record probes =
  pr_gateway :: "string \<Rightarrow> string \<Rightarrow> string \<Rightarrow> bool"
  pr_host :: "string \<Rightarrow> string \<Rightarrow> bool"
  pr_carrier :: "string \<Rightarrow> bool"
  pr_pid :: "string \<Rightarrow> int"
  pr_dhcp :: "string \<Rightarrow> bool"

definition gatewayDemoteAfter :: nat where "gatewayDemoteAfter = 3"
definition gatewayRestoreAfter :: nat where "gatewayRestoreAfter = 2"
definition gatewayDHCPAfter :: duration where "gatewayDHCPAfter = 2 * minute"
definition gatewayCheckDHCPHoldoff :: duration where "gatewayCheckDHCPHoldoff = 60 * second"

definition host_char :: "char \<Rightarrow> bool" where
  "host_char c \<longleftrightarrow>
     (let n = (of_char c :: int) in
      48 \<le> n \<and> n \<le> 57 \<or> 65 \<le> n \<and> n \<le> 90 \<or> 97 \<le> n \<and> n \<le> 122)"

definition validGatewayCheck :: "gatewayCheckConfig \<Rightarrow> bool" where
  "validGatewayCheck c \<longleftrightarrow>
     (gc_Method c = ''arp'' \<or> gc_Method c = ''icmp'') \<and>
     (gc_Host c = [] \<or> host_char (hd (gc_Host c)) \<and> length (gc_Host c) \<le> 253 \<and>
        list_all (\<lambda>c. host_char c \<or> c = CHR ''.'' \<or> c = CHR '':'' \<or> c = CHR ''-'') (tl (gc_Host c)))"

definition gatewayDHCPClient :: "probes \<Rightarrow> string \<Rightarrow> int" where
  "gatewayDHCPClient p iface = (if \<not> prefix ''eth'' iface \<or> pr_pid p iface \<le> 1 then 0 else pr_pid p iface)"

definition wifiConnected :: "probes \<Rightarrow> GatewayRoute list \<Rightarrow> bool" where
  "wifiConnected p routes \<longleftrightarrow> list_ex (\<lambda>r. gatewayKind (gr_Interface r) = ''wifi'' \<and> pr_carrier p (gr_Interface r)) routes"

section \<open>A round\<close>

definition no_health :: gatewayHealth where
  "no_health = \<lparr>gh_passes = 0, gh_fails = 0, gh_silentSince = 0, gh_lastDHCP = 0, gh_checked = False, gh_reachable = False, gh_keptLease = False\<rparr>"

text \<open>The health of an interface after a probe.\<close>

definition probed :: "time \<Rightarrow> bool \<Rightarrow> bool \<Rightarrow> gatewayHealth \<Rightarrow> gatewayHealth" where
  "probed now gatewayOK ok h =
     h\<lparr>gh_passes := (if ok then gh_passes h + 1 else 0), gh_fails := (if ok then 0 else gh_fails h + 1),
       gh_silentSince := (if gatewayOK then 0 else if is_zero (gh_silentSince h) then now else gh_silentSince h),
       gh_checked := True, gh_reachable := ok\<rparr>"

fun probe_round :: "probes \<Rightarrow> gatewayCheckConfig \<Rightarrow> time \<Rightarrow> (string \<rightharpoonup> gatewayHealth) \<Rightarrow> GatewayRoute list \<Rightarrow> (string \<rightharpoonup> gatewayHealth) \<Rightarrow>
    (string \<rightharpoonup> gatewayHealth)" where
  "probe_round p c now health [] results = results"
| "probe_round p c now health (r # rs) results =
     (let i = gr_Interface r in
      if results i \<noteq> None \<or> gatewayKind i \<noteq> ''ethernet'' \<or> \<not> pr_carrier p i then probe_round p c now health rs results
      else let gatewayOK = pr_gateway p i (gr_Gateway r) (gc_Method c);
               ok = (gatewayOK \<and> (gc_Host c = [] \<or> pr_host p i (gc_Host c)));
               h = (case health i of None \<Rightarrow> no_health | Some h \<Rightarrow> h)
           in probe_round p c now health rs (results(i \<mapsto> probed now gatewayOK ok h)))"

text \<open>What the round does about a route.\<close>

definition act_route :: "probes \<Rightarrow> (string \<rightharpoonup> gatewayHealth) \<Rightarrow> GatewayRoute list \<Rightarrow> GatewayRoute list \<Rightarrow> GatewayRoute \<Rightarrow> net \<Rightarrow> net" where
  "act_route p results routes entries r s =
     (case results (gr_Interface r) of
        None \<Rightarrow> s
      | Some h \<Rightarrow>
          let demoted = (demotedOriginal (gr_Interface r) s \<noteq> None \<or> isDemotedMetric (gr_Metric r)) in
          if demoted \<and> gh_passes h \<ge> gatewayRestoreAfter then snd (restoreGateway r entries s)
          else if \<not> demoted \<and> gh_fails h \<ge> gatewayDemoteAfter \<and> wifiConnected p routes then snd (demoteGateway r entries s)
          else s)"

definition long_silent :: "time \<Rightarrow> (string \<rightharpoonup> gatewayHealth) \<Rightarrow> GatewayRoute \<Rightarrow> bool" where
  "long_silent now results r \<longleftrightarrow>
     (case results (gr_Interface r) of
        None \<Rightarrow> False
      | Some h \<Rightarrow> \<not> is_zero (gh_silentSince h) \<and> time_sub now (gh_silentSince h) \<ge> gatewayDHCPAfter \<and>
          time_sub now (gh_lastDHCP h) \<ge> gatewayCheckDHCPHoldoff)"

fun act_routes :: "probes \<Rightarrow> (string \<rightharpoonup> gatewayHealth) \<Rightarrow> GatewayRoute list \<Rightarrow> GatewayRoute list \<Rightarrow> GatewayRoute list \<Rightarrow> net \<Rightarrow> net" where
  "act_routes p results routes entries [] s = s"
| "act_routes p results routes entries (r # rs) s = act_routes p results routes entries rs (act_route p results routes entries r s)"

text \<open>The records of the interfaces without a default route are removed; \<open>files\<close> is the directory.\<close>

fun forget_gone :: "GatewayRoute list \<Rightarrow> string list \<Rightarrow> net \<Rightarrow> net" where
  "forget_gone routes [] s = s"
| "forget_gone routes (f # fs) s =
     forget_gone routes fs (if f \<in> gr_Interface ` set routes then s else snd (removeDemoted f s))"

definition act :: "probes \<Rightarrow> (string \<rightharpoonup> gatewayHealth) \<Rightarrow> string list \<Rightarrow> net \<Rightarrow> net" where
  "act p results files s =
     (let entries = defaultGatewayEntries s; routes = uniqueGatewayRoutes entries
      in forget_gone routes files (act_routes p results routes entries routes s))"

fun restore_routes :: "GatewayRoute list \<Rightarrow> string \<Rightarrow> GatewayRoute list \<Rightarrow> net \<Rightarrow> net" where
  "restore_routes entries f [] s = s"
| "restore_routes entries f (r # rs) s = restore_routes entries f rs (if gr_Interface r = f then snd (restoreGateway r entries s) else s)"

fun restore_files :: "GatewayRoute list \<Rightarrow> string list \<Rightarrow> net \<Rightarrow> net" where
  "restore_files entries [] s = s"
| "restore_files entries (f # fs) s =
     restore_files entries fs
       (if f \<in> gr_Interface ` set (uniqueGatewayRoutes entries) then restore_routes entries f (uniqueGatewayRoutes entries) s
        else snd (removeDemoted f s))"

definition restoreAllGateways :: "string list \<Rightarrow> net \<Rightarrow> net" where
  "restoreAllGateways files s = restore_files (defaultGatewayEntries s) files s"

section \<open>The sections of a round and of the settings\<close>

datatype round_phase = Idle | Acting | Leasing "GatewayRoute list" | Restarting GatewayRoute int "GatewayRoute list" | Publishing

record checker =
  ck_net :: net
  ck_health :: "string \<rightharpoonup> gatewayHealth"
  ck_generation :: nat
  ck_phase :: round_phase
  ck_seen :: nat
  ck_now :: time
  ck_results :: "string \<rightharpoonup> gatewayHealth"
  ck_restarts :: "int list"

definition begin_round :: "probes \<Rightarrow> gatewayCheckConfig \<Rightarrow> time \<Rightarrow> checker \<Rightarrow> checker" where
  "begin_round p c now k =
     k\<lparr>ck_seen := ck_generation k, ck_now := now, ck_phase := Acting,
       ck_results := probe_round p c now (ck_health k) (uniqueGatewayRoutes (defaultGatewayEntries (ck_net k))) Map.empty\<rparr>"

definition is_current :: "checker \<Rightarrow> bool" where
  "is_current k \<longleftrightarrow> ck_generation k = ck_seen k"

definition act_round :: "probes \<Rightarrow> string list \<Rightarrow> checker \<Rightarrow> checker" where
  "act_round p files k =
     (if \<not> is_current k then k\<lparr>ck_phase := Publishing\<rparr>
      else let routes = uniqueGatewayRoutes (defaultGatewayEntries (ck_net k)) in
        k\<lparr>ck_net := act p (ck_results k) files (ck_net k), ck_phase := Leasing (filter (long_silent (ck_now k) (ck_results k)) routes)\<rparr>)"

definition lease_round :: "probes \<Rightarrow> checker \<Rightarrow> checker" where
  "lease_round p k =
     (case ck_phase k of
        Leasing [] \<Rightarrow> k\<lparr>ck_phase := Publishing\<rparr>
      | Leasing (r # rs) \<Rightarrow>
          let pid = gatewayDHCPClient p (gr_Interface r) in
          if pid = 0 \<or> \<not> is_current k then k\<lparr>ck_phase := Leasing rs\<rparr>
          else (case ck_results k (gr_Interface r) of
            None \<Rightarrow> k\<lparr>ck_phase := Leasing rs\<rparr>
          | Some h \<Rightarrow>
              if \<not> pr_dhcp p (gr_Interface r)
              then k\<lparr>ck_results := (ck_results k)(gr_Interface r \<mapsto> h\<lparr>gh_lastDHCP := ck_now k, gh_keptLease := True\<rparr>), ck_phase := Leasing rs\<rparr>
              else k\<lparr>ck_results := (ck_results k)(gr_Interface r \<mapsto> h\<lparr>gh_lastDHCP := ck_now k\<rparr>), ck_phase := Restarting r pid rs\<rparr>)
      | _ \<Rightarrow> k)"

definition restart_round :: "checker \<Rightarrow> checker" where
  "restart_round k =
     (case ck_phase k of
        Restarting r pid rs \<Rightarrow>
          if \<not> is_current k then k\<lparr>ck_phase := Publishing\<rparr>
          else k\<lparr>ck_results := (case ck_results k (gr_Interface r) of
                None \<Rightarrow> ck_results k
              | Some h \<Rightarrow> (ck_results k)(gr_Interface r \<mapsto> h\<lparr>gh_silentSince := 0, gh_keptLease := False\<rparr>)),
            ck_restarts := ck_restarts k @ [pid], ck_phase := Leasing rs\<rparr>
      | _ \<Rightarrow> k)"

definition publish_round :: "checker \<Rightarrow> checker" where
  "publish_round k = k\<lparr>ck_health := (if is_current k then ck_results k else ck_health k), ck_phase := Idle\<rparr>"

text \<open>The check is turned off.\<close>

definition disable :: "string list \<Rightarrow> checker \<Rightarrow> checker" where
  "disable files k =
     k\<lparr>ck_generation := ck_generation k + 1, ck_health := Map.empty, ck_net := restoreAllGateways files (ck_net k)\<rparr>"

definition set_preference :: "string \<Rightarrow> checker \<Rightarrow> checker" where
  "set_preference preferred k = k\<lparr>ck_net := snd (SetGatewayPreference preferred (ck_net k))\<rparr>"

datatype who = Begin | Round | Settings

inductive check_step :: "who \<Rightarrow> checker \<Rightarrow> checker \<Rightarrow> bool" where
  begins: "ck_phase k = Idle \<Longrightarrow> check_step Begin k (begin_round p c now k)"
| acts: "ck_phase k = Acting \<Longrightarrow> set files = dom (nt_demoted (ck_net k)) \<Longrightarrow> check_step Round k (act_round p files k)"
| leases: "ck_phase k = Leasing rs \<Longrightarrow> check_step Round k (lease_round p k)"
| restarts: "ck_phase k = Restarting r pid rs \<Longrightarrow> check_step Round k (restart_round k)"
| publishes: "ck_phase k = Publishing \<Longrightarrow> check_step Round k (publish_round k)"
| disables: "set files = dom (nt_demoted (ck_net k)) \<Longrightarrow> check_step Settings k (disable files k)"
| prefers: "check_step Settings k (set_preference preferred k)"

definition status :: "string \<Rightarrow> checker \<Rightarrow> bool \<times> bool" where
  "status iface k = (case ck_health k iface of None \<Rightarrow> (False, False) | Some h \<Rightarrow> (gh_checked h, gh_reachable h))"




definition sample_net :: net where
  "sample_net = \<lparr>nt_routes = [\<lparr>gr_Interface = ''eth0'', gr_Gateway = ''a'', gr_Metric = 10\<rparr>, \<lparr>gr_Interface = ''wlan0'', gr_Gateway = ''b'', gr_Metric = 200\<rparr>],
     nt_demoted = Map.empty, nt_preference = ''auto'', nt_faults = [], nt_tables = []\<rparr>"

definition sample_checker :: checker where
  "sample_checker = \<lparr>ck_net = sample_net, ck_health = Map.empty, ck_generation = 0, ck_phase = Acting, ck_seen = 0, ck_now = 0,
     ck_results = [''eth0'' \<mapsto> no_health\<lparr>gh_fails := 3\<rparr>], ck_restarts = []\<rparr>"

definition sample_probes :: probes where
  "sample_probes = \<lparr>pr_gateway = (\<lambda>_ _ _. False), pr_host = (\<lambda>_ _. False), pr_carrier = (\<lambda>_. True), pr_pid = (\<lambda>_. 0), pr_dhcp = (\<lambda>_. False)\<rparr>"

section \<open>Every gateway keeps a route\<close>

lemma unique_gateways: "r \<in> set (uniqueGatewayRoutes (filter managed B)) \<Longrightarrow> gateway_of r \<in> gateways B"
  using unique_from_props[of "[]" "filter managed B"] by (auto simp: uniqueGatewayRoutes_def gateways_def)

lemma removed_keeps: "keeps_all B s \<Longrightarrow> keeps_all B (snd (removeDemoted f s))"
  by (cases "removeDemoted f s") (simp add: remove_outcome keeps_all_def)

lemma act_route_keeps:
  assumes "keeps_all B s" and "gateway_of r \<in> gateways B"
  shows "keeps_all B (act_route p results routes entries r s)"
  using restore_keeps[of r entries s "fst (restoreGateway r entries s)" "snd (restoreGateway r entries s)" B]
    demote_keeps[of r entries s "fst (demoteGateway r entries s)" "snd (demoteGateway r entries s)" B] assms
  by (auto simp: act_route_def Let_def split: option.splits)

lemma act_routes_keeps:
  "keeps_all B s \<Longrightarrow> gateway_of ` set rs \<subseteq> gateways B \<Longrightarrow> keeps_all B (act_routes p results routes entries rs s)"
  by (induction rs arbitrary: s) (simp_all add: act_route_keeps)

lemma forget_keeps: "keeps_all B s \<Longrightarrow> keeps_all B (forget_gone routes files s)"
  by (induction files arbitrary: s) (simp_all add: removed_keeps)

lemma act_keeps:
  assumes "keeps_all (nt_routes s) s"
  shows "keeps_all (nt_routes s) (act p results files s)"
  unfolding act_def Let_def
  by (intro forget_keeps act_routes_keeps assms) (auto simp: defaultGatewayEntries_def unique_gateways)

lemma restore_routes_keeps:
  assumes "keeps_all B s" and "gateway_of ` set rs \<subseteq> gateways B"
  shows "keeps_all B (restore_routes entries f rs s)"
  using assms
proof (induction rs arbitrary: s)
  case (Cons r rs)
  have "keeps_all B (snd (restoreGateway r entries s))"
    using restore_keeps[of r entries s "fst (restoreGateway r entries s)" "snd (restoreGateway r entries s)" B] Cons.prems by simp
  then show ?case using Cons by simp
qed simp

lemma restore_files_keeps:
  assumes "keeps_all B s" and "entries = filter managed B"
  shows "keeps_all B (restore_files entries files s)"
  using assms(1)
proof (induction files arbitrary: s)
  case (Cons f fs)
  have "keeps_all B (restore_routes entries f (uniqueGatewayRoutes entries) s)"
    using restore_routes_keeps[OF Cons.prems] unique_gateways assms(2) by blast
  then show ?case using Cons removed_keeps[OF Cons.prems] by simp
qed simp

section \<open>What is demoted\<close>












section \<open>Properties\<close>

text \<open>
  C38. Whatever the gateway check and the preferred connection do, and whichever command fails in the middle of it, no gateway ever loses its last default
  route, no gateway appears, the default routes of other interfaces such as a VPN stay, and no two routes come to share a metric: this holds for the
  table after every single command.
\<close>

theorem gateway_never_lost:
  assumes "check_step w k k'" and "distinct (map gr_Metric (nt_routes (ck_net k)))" and "nt_tables (ck_net k) = []"
  shows "keeps_all (nt_routes (ck_net k)) (ck_net k')"
proof -
  have self: "keeps_all (nt_routes (ck_net k)) (ck_net k)" using assms(2,3) keeps_self by (simp add: keeps_all_def)
  show ?thesis using assms(1)
  proof cases
    case (begins p c now)
    then show ?thesis using self by (simp add: begin_round_def)
  next
    case (acts files p)
    then show ?thesis using self act_keeps by (simp add: act_round_def Let_def)
  next
    case (leases rs p)
    then show ?thesis using self by (auto simp: lease_round_def Let_def split: round_phase.splits list.splits option.splits)
  next
    case (restarts r pid rs)
    then show ?thesis using self by (auto simp: restart_round_def split: round_phase.splits option.splits)
  next
    case publishes
    then show ?thesis using self by (simp add: publish_round_def)
  next
    case (disables files)
    then show ?thesis using restore_files_keeps[OF self] by (simp add: disable_def restoreAllGateways_def defaultGatewayEntries_def)
  next
    case (prefers preferred)
    then show ?thesis
      using preference_outcome[OF _ assms(2,3), of preferred "fst (SetGatewayPreference preferred (ck_net k))"] by (simp add: set_preference_def)
  qed
qed



theorem gateway_never_lost_witness:
  "check_step Round sample_checker (act_round sample_probes [] sample_checker) \<and>
   keeps_all (nt_routes sample_net) (ck_net (act_round sample_probes [] sample_checker))"
proof -
  have step: "check_step Round sample_checker (act_round sample_probes [] sample_checker)"
    by (rule check_step.acts) (simp_all add: sample_checker_def sample_net_def)
  show ?thesis using gateway_never_lost[OF step] step by (simp add: sample_checker_def sample_net_def)
qed





end
