(* ===== verification/Spec2Isabelle.thy ===== *)
theory Spec2Isabelle
  imports Control_System Input_Coordinator Ipmi_Safety Account_Safety Brute_Force
    Network_Trial Hid_Typing Session_Lock Input_Ownership
    Recovery_Safety Web_Sessions Usb_Safety Update_Apply Image_Transfer Video_Frames Video_Packets Video_Delivery Openvpn_Profile Wireguard_Profile Gateway_Check
begin

text \<open>
  The server of NanoKVM, a device that is plugged into a computer and gives its screen, keyboard, mouse,
  drives and power button to a browser. This development models the parts of the Go server (\<open>src/server\<close>) and of
  its IPMI add-on (\<open>src/addons/ipmi\<close>) that decide something: who may control the computer, who may log in, what
  reaches the computer, what survives a failed write or a power loss, and what a viewer is sent. Every definition
  is a translation of the code it is named after; file names below are relative to \<open>src/server\<close> unless they say
  otherwise.

  \<^bold>\<open>The parts and how they meet.\<close>
  A request enters through the middleware, which asks the account store whether its token is good. Requests that
  send input go through the owner of manual input, the coordinator between people and programs, and a queue of
  reports for the USB gadget. Programs (MCP clients, the PicoClaw agent) need the control mode for it, which is
  switched behind a gate that waits for running operations. Settings of the network, of the USB functions and of
  the whole device are changed by programs of file operations that must be undone when they fail. The picture goes
  from the encoder through the rewriting of its parameter sets to queues, one per viewer, and from there into RTP
  packets. The IPMI add-on is a second way to the power button with its own log-in.

  \<^bold>\<open>How the code becomes definitions.\<close>
  \<^item> Structs are records, enums are datatypes, counters and codes whose width matters are words, Go maps are partial
    functions or association lists with distinct keys where their order or size matters (\<open>Bounded_Table\<close>).
  \<^item> A method is a function from the state before to the result and the state after, with every early return as a
    branch; an error is a value of a sum or of a datatype.
  \<^item> Readings of the clock, random bytes, system calls and answers of other programs are arguments, as values or as
    an environment that may answer anything. A failed system call is such an answer, so the theorems hold for
    every pattern of failures.
  \<^item> Goroutines are steps of an inductive relation, one step per critical section; a power loss is the end of a
    program of commands after any of them. \<open>Prelude\<close> has the reachable states of a relation and the locales
    \<open>invariant_system\<close> and \<open>refinement\<close>, which the concurrent components interpret.
  \<^item> Loops are structural recursions or functions with a termination proof; nothing has fuel except where the code
    itself counts its attempts (the 16 attempts of adding a route in \<open>Gateway_Routes\<close>).
  \<^item> Cryptography, bcrypt, the token library, JSON and YAML are parameters. What a theorem needs of them is one of
    its hypotheses, and its witness has a concrete instance.

  \<^bold>\<open>Shared theories.\<close>
  \<open>Prelude\<close> (results, times, bytes, reachability), \<open>Go_Strings\<close> (Go's \<open>strings\<close> package on byte strings),
  \<open>Go_Lines\<close> (text lines of the settings files), \<open>Bounded_Table\<close> (a table that evicts to stay within its
  capacity: a locale that the IPMI log-in counters and the web log-in records interpret).

  \<^bold>\<open>Control of the computer.\<close>
  \<^item> \<open>Activity_Gate\<close>: \<open>service/controlmode/activity.go\<close>. The exclusive side excludes the shared one, and no waiting
    goroutine is forgotten.
  \<^item> \<open>Control_Mode\<close>, \<open>Control_System\<close>: \<open>service/controlmode/manager.go\<close>, first one call at a time with every failing
    system call, then any number of goroutines over the gate. While a lease is out, the mode stays what it was
    granted for, in memory and on disk.
  \<^item> \<open>Input_Coordinator\<close>: \<open>service/inputcontrol/coordinator.go\<close>. A person's session and an MCP operation never overlap,
    and a report that was queued before its session was revoked is not sent.
  \<^item> \<open>Session_Lock\<close>: \<open>service/picoclaw/session_lock.go\<close>, a refinement of a lease with an end.
  \<^item> \<open>Input_Ownership\<close>: \<open>service/ws/manager.go\<close>, \<open>client.go\<close>, \<open>hold_lease.go\<close>. At most one browser tab or add-on has the input.
  \<^item> \<open>Hid_Reports\<close>, \<open>Hid_Layout\<close>, \<open>Hid_Typing\<close>: \<open>service/hid\<close>. No key and no button stays pressed on the computer,
    whatever fails; and which characters the layout tables confuse.

  \<^bold>\<open>Access.\<close>
  \<^item> \<open>Account_Store\<close>, \<open>Account_Safety\<close>: \<open>authn/store.go\<close>, \<open>authn/cache.go\<close>. The file is always a database with an enabled
    administrator, the owner's account survives, a change of an account revokes its tokens, and the cache cannot be
    told from the file.
  \<^item> \<open>Brute_Force\<close>: \<open>service/auth/brute_force.go\<close>. A lockout holds until its end.
  \<^item> \<open>Web_Sessions\<close>: \<open>middleware/jwt.go\<close>, \<open>middleware/session.go\<close>. A request needs a valid token of an enabled user with the
    right role, and sessions whose token is refused are ended.
  \<^item> \<open>Ipmi_Message\<close>, \<open>Ipmi_Server\<close>, \<open>Ipmi_Safety\<close>: \<open>src/addons/ipmi/internal/ipmi\<close>. A power action needs a signed, fresh
    message of a session that was established with the password; nothing is replayed; every table is bounded.

  \<^bold>\<open>Changes of the device that can fail.\<close>
  \<^item> \<open>Network_Trial\<close>: \<open>service/network/trial.go\<close>, \<open>ethernet.go\<close>. A change nobody confirms does not survive.
  \<^item> \<open>Gateway_Routes\<close>, \<open>Gateway_Check\<close>: \<open>service/network/gateway.go\<close>, \<open>gateway_check.go\<close>. No gateway ever loses its default
    route, in the route table after every single command, and a route is only moved back for a reason.
  \<^item> \<open>Recovery_Policy\<close>, \<open>Recovery_Engine\<close>, \<open>Recovery_Safety\<close>: \<open>recovery\<close>. A restore stays within the settings, and it is
    all or nothing over any number of starts.
  \<^item> \<open>Usb_Identity\<close>, \<open>Usb_Composition\<close>, \<open>Usb_Safety\<close>: \<open>service/vm/usb_identity.go\<close>, \<open>virtual-device.go\<close>,
    \<open>usb-composition.go\<close>, \<open>remote-access-usb.go\<close>. A change of the USB functions takes effect as asked or is undone.
  \<^item> \<open>Update_Apply\<close>: \<open>cmd/nkos-apply-updates/main.go\<close>. After an update nothing that runs old files is forgotten.
  \<^item> \<open>Image_Transfer\<close>: \<open>service/download\<close>. An image is published only when it is complete and checked.
  \<^item> \<open>Openvpn_Profile\<close>, \<open>Wireguard_Profile\<close>: \<open>service/extensions/openvpn/config.go\<close>, \<open>wireguard/config.go\<close>. An accepted
    profile can do nothing but open the connection.

  \<^bold>\<open>The picture.\<close>
  \<^item> \<open>Bit_Stream\<close>, \<open>Parameter_Sets\<close>, \<open>Video_Frames\<close>: \<open>service/stream/hevc_parameter_sets.go\<close>, \<open>video_colour.go\<close>,
    \<open>internal/annexb/annexb.go\<close>. What a rewritten parameter set says, and that everything else of a frame is kept bit for bit.
  \<^item> \<open>Video_Packets\<close>: \<open>service/stream/webrtc/owned_h264_payloader.go\<close>, \<open>h265_payloader.go\<close>. A receiver gets back the units that
    were sent, within the MTU.
  \<^item> \<open>Video_Delivery\<close>: \<open>service/stream/video_source.go\<close>, \<open>webrtc/peer_writer.go\<close>, \<open>direct/client.go\<close>. Three queues that drop
    frames under one contract (the locale \<open>gop_queue\<close>): what is sent can be decoded, and the queues are bounded.

  \<^bold>\<open>Not modelled.\<close>
  The text of the log files, HTTP framing and routing (the handlers' decisions are modelled, not gin's contexts), the
  native capture and encoder library and pion, the external programs (nftables, dnsmasq, wpa-supplicant, apk, the VPN
  clients, RustDesk, the PicoClaw agent) and the services that only start and watch them, requests to outside services
  (notifications, OAuth), standby of the hardware, and the code that is not Go. Inside the modelled parts: delays of
  replies and the grouping of IPv6 addresses in the log-in limit, the read loop of the input socket, the retries and the
  reopening behind a write to a HID device, the checkpoint of a running download, the start and end of capture
  sessions, and the text of \<open>/proc/net/route\<close>. Times are readings of one clock that the caller passes in; that the
  scheduler is fair is nowhere assumed.
\<close>

end
